(* ===== verification/Mayhem_Prelude.thy ===== *)
theory Mayhem_Prelude
  imports Main "HOL-Library.Word" "HOL-Library.List_Lexorder" "HOL-Library.Char_ord"
begin

text \<open>
  Shared vocabulary of the development: Rust's fixed-width integers with their saturating and
  checked operations, \<open>Result\<close> values as sums, \<open>BTreeMap\<close> as an association list with strictly
  ascending keys, and the generic lemmas the component theories rest on.

  \<^item> A \<open>u8\<close>, \<open>u32\<close>, \<open>u64\<close> or \<open>u128\<close> is a word of that width. Facts about words are stated through
    \<open>unat\<close> and collected in \<open>unat_simps\<close>, so that a component proof unfolds to natural numbers.
  \<^item> A \<open>Result<T, E>\<close> is the sum \<open>'e + 'a\<close> with \<open>Inl\<close> for the error.
  \<^item> A \<open>String\<close> is a \<open>string\<close>, one \<open>char\<close> per byte; the order of \<^verbatim>\<open>List_Lexorder\<close> on \<open>char\<close> lists
    is Rust's bytewise order on strings.
\<close>

named_theorems unat_simps \<open>natural-number readings of the saturating and checked operations\<close>
named_theorems btree_simps \<open>lookup after an update of an ordered map\<close>

section \<open>Fixed-width integers\<close>

type_synonym u8 = "8 word"
type_synonym u32 = "32 word"
type_synonym u64 = "64 word"
type_synonym u128 = "128 word"

text \<open>Rust's \<open>saturating_add\<close>, \<open>saturating_sub\<close>, \<open>saturating_mul\<close>, \<open>checked_add\<close>, \<open>div_ceil\<close>.\<close>

definition sat_add :: "'a::len word \<Rightarrow> 'a word \<Rightarrow> 'a word" where
  "sat_add a b = (if unat a + unat b < 2 ^ LENGTH('a) then a + b else - 1)"

definition sat_sub :: "'a::len word \<Rightarrow> 'a word \<Rightarrow> 'a word" where
  "sat_sub a b = (if b \<le> a then a - b else 0)"

definition sat_mul :: "'a::len word \<Rightarrow> 'a word \<Rightarrow> 'a word" where
  "sat_mul a b = (if unat a * unat b < 2 ^ LENGTH('a) then a * b else - 1)"

definition checked_add :: "'a::len word \<Rightarrow> 'a word \<Rightarrow> 'a word option" where
  "checked_add a b = (if unat a + unat b < 2 ^ LENGTH('a) then Some (a + b) else None)"

definition word_div_ceil :: "'a::len word \<Rightarrow> 'a word \<Rightarrow> 'a word" where
  "word_div_ceil a b = (if a mod b > 0 then a div b + 1 else a div b)"

lemma unat_max [unat_simps]: "unat (- 1 :: 'a::len word) = 2 ^ LENGTH('a) - 1"
  by (simp add: unsigned_minus_1_eq_mask mask_eq_exp_minus_1)

lemma unat_lt_pow [simp]: "unat (a :: 'a::len word) < 2 ^ LENGTH('a)"
  by (rule unsigned_less)

lemma unat_le_max: "unat (a :: 'a::len word) \<le> 2 ^ LENGTH('a) - 1"
  using unat_lt_pow [of a] by linarith

lemma not_less_pow_min: "\<not> n < 2 ^ l \<Longrightarrow> min n (2 ^ l - 1) = 2 ^ l - (1::nat)"
  by linarith

lemma less_pow_min: "n < 2 ^ l \<Longrightarrow> min n (2 ^ l - 1) = (n::nat)"
  by linarith

lemma min_min_add: "min (min a M + s) M = min (a + s) (M::nat)"
  by linarith

lemma min_add_min: "min (a + min s M) M = min (a + s) (M::nat)"
  by linarith

lemma unat_sat_add [unat_simps]:
  "unat (sat_add a b :: 'a::len word) = min (unat a + unat b) (2 ^ LENGTH('a) - 1)"
  unfolding sat_add_def
  by (simp only: not_less_pow_min less_pow_min unat_max unat_word_ariths mod_less split: if_split) simp

lemma sat_add_0 [simp]: "sat_add a 0 = a" "sat_add 0 a = a"
  using unat_lt_pow [of a] by (simp_all add: sat_add_def)

lemma unat_of_nat_small: "n < 2 ^ LENGTH('a) \<Longrightarrow> unat (of_nat n :: 'a::len word) = n"
  by (simp add: unsigned_of_nat take_bit_nat_eq_self)

lemma unat_sat_sub [unat_simps]: "unat (sat_sub a b :: 'a::len word) = unat a - unat b"
  by (auto simp: sat_sub_def unat_sub_if' word_le_nat_alt)

lemma unat_sat_mul [unat_simps]:
  "unat (sat_mul a b :: 'a::len word) = min (unat a * unat b) (2 ^ LENGTH('a) - 1)"
  unfolding sat_mul_def
  by (simp only: not_less_pow_min less_pow_min unat_max unat_word_ariths mod_less split: if_split) simp

lemma checked_add_Some_iff:
  "checked_add a b = Some c \<longleftrightarrow> unat c = unat a + unat b"
  for a b c :: "'a::len word"
proof -
  have "a + b = c \<longleftrightarrow> unat c = unat a + unat b" if "unat a + unat b < 2 ^ LENGTH('a)"
    using that by (auto simp: word_unat_eq_iff unat_word_ariths)
  moreover have "unat c \<noteq> unat a + unat b" if "\<not> unat a + unat b < 2 ^ LENGTH('a)"
    using that unat_lt_pow [of c] by linarith
  ultimately show ?thesis by (auto simp: checked_add_def)
qed

text \<open>The ceiling of a quotient on natural numbers; \<open>word_div_ceil\<close> computes it.\<close>

definition nat_div_ceil :: "nat \<Rightarrow> nat \<Rightarrow> nat" where
  "nat_div_ceil a b = (a + (b - 1)) div b"

lemma nat_div_ceil_le_iff: "0 < b \<Longrightarrow> nat_div_ceil a b \<le> c \<longleftrightarrow> a \<le> c * b"
proof -
  assume b: "0 < b"
  have "nat_div_ceil a b \<le> c \<longleftrightarrow> (a + (b - 1)) div b < c + 1"
    by (simp add: nat_div_ceil_def less_Suc_eq_le)
  also have "\<dots> \<longleftrightarrow> a + (b - 1) < (c + 1) * b"
    using b by (rule div_less_iff_less_mult)
  also have "\<dots> \<longleftrightarrow> a \<le> c * b" using b by simp linarith
  finally show ?thesis .
qed

lemma nat_div_ceil_alt:
  assumes b: "0 < b"
  shows "nat_div_ceil a b = (if a mod b > 0 then a div b + 1 else a div b)" (is "_ = ?r")
proof (rule antisym)
  have eq: "a = a div b * b + a mod b" by simp
  have lt: "a mod b < b" using b by simp
  show "nat_div_ceil a b \<le> ?r"
    unfolding nat_div_ceil_le_iff [OF b]
    by (use eq lt in \<open>simp only: distrib_right mult_1 split: if_split\<close>) linarith
  show "?r \<le> nat_div_ceil a b"
  proof (cases "a mod b > 0")
    case True
    have "\<not> nat_div_ceil a b \<le> a div b"
      unfolding nat_div_ceil_le_iff [OF b] using eq True by linarith
    with True show ?thesis by simp
  next
    case False
    then show ?thesis by (simp add: nat_div_ceil_def div_le_mono)
  qed
qed

lemma nat_div_ceil_0 [simp]: "nat_div_ceil 0 b = 0"
  by (cases b) (simp_all add: nat_div_ceil_def)

lemma nat_div_ceil_1 [simp]: "nat_div_ceil a 1 = a" "nat_div_ceil a (Suc 0) = a"
  by (simp_all add: nat_div_ceil_def)

lemma nat_div_ceil_mono: "a \<le> a' \<Longrightarrow> nat_div_ceil a b \<le> nat_div_ceil a' b"
  by (simp add: nat_div_ceil_def div_le_mono)

lemma nat_div_ceil_le: "nat_div_ceil a b \<le> a"
  using nat_div_ceil_le_iff [of b a a] by (cases "b = 0") (simp_all add: nat_div_ceil_def)

lemma nat_div_ceil_pos: "0 < a \<Longrightarrow> 0 < b \<Longrightarrow> 0 < nat_div_ceil a b"
  using nat_div_ceil_le_iff [of b a 0] by linarith

lemma nat_div_ceil_add: "nat_div_ceil (a + a') b \<le> nat_div_ceil a b + nat_div_ceil a' b"
proof (cases "b = 0")
  case False
  then have "a \<le> nat_div_ceil a b * b" "a' \<le> nat_div_ceil a' b * b"
    using nat_div_ceil_le_iff [of b] by auto
  with False show ?thesis by (simp add: nat_div_ceil_le_iff distrib_right)
qed (simp add: nat_div_ceil_def)

lemma nat_div_ceil_scale:
  assumes "0 < k" "0 < b"
  shows "nat_div_ceil (k * a) (k * b) = nat_div_ceil a b"
proof -
  have kb: "0 < k * b" using assms by simp
  have "k * a \<le> c * (k * b) \<longleftrightarrow> a \<le> c * b" for c
    using assms(1) by (simp add: mult.left_commute)
  then have "nat_div_ceil (k * a) (k * b) \<le> c \<longleftrightarrow> nat_div_ceil a b \<le> c" for c
    by (simp add: nat_div_ceil_le_iff [OF kb] nat_div_ceil_le_iff [OF assms(2)])
  then show ?thesis by (meson order_antisym order_refl)
qed

lemma unat_word_div_ceil [unat_simps]:
  assumes "b \<noteq> 0"
  shows "unat (word_div_ceil a b :: 'a::len word) = nat_div_ceil (unat a) (unat b)"
proof -
  have b: "0 < unat b" using assms by (simp add: unat_gt_0)
  have pos: "a mod b > 0 \<longleftrightarrow> unat a mod unat b > 0"
    by (metis unat_gt_0 unat_mod word_neq_0_conv)
  show ?thesis
  proof (cases "unat a mod unat b > 0")
    case True
    have "nat_div_ceil (unat a) (unat b) \<le> unat a" by (rule nat_div_ceil_le)
    with True b have "unat a div unat b + 1 \<le> unat a" by (simp add: nat_div_ceil_alt)
    then have "unat a div unat b + 1 < 2 ^ LENGTH('a)"
      by (rule le_less_trans) (rule unat_lt_pow)
    with True pos b show ?thesis
      by (simp add: word_div_ceil_def nat_div_ceil_alt unat_word_ariths unat_div)
  next
    case False
    with pos b show ?thesis by (simp add: word_div_ceil_def nat_div_ceil_alt unat_div)
  qed
qed

lemma unat_u64_u128 [unat_simps, simp]: "unat (ucast (x :: u64) :: u128) = unat x"
proof -
  have "unat x < 2 ^ 128" using unat_lt_pow [of x] by simp
  then show ?thesis by (simp add: unsigned_ucast_eq take_bit_eq_mod)
qed

lemma unat_u32_u64 [unat_simps, simp]: "unat (ucast (x :: u32) :: u64) = unat x"
proof -
  have "unat x < 2 ^ 64" using unat_lt_pow [of x] by simp
  then show ?thesis by (simp add: unsigned_ucast_eq take_bit_eq_mod)
qed

lemma word_le_trans_sat: "unat a \<le> unat b \<Longrightarrow> a \<le> (b :: 'a::len word)"
  by (simp add: word_le_nat_alt)

section \<open>Results\<close>

text \<open>Rust's \<open>?\<close> operator: continue with the value, stop at the error.\<close>

type_synonym ('e, 'a) result = "'e + 'a"

fun rbind :: "'e + 'a \<Rightarrow> ('a \<Rightarrow> 'e + 'b) \<Rightarrow> 'e + 'b" where
  "rbind (Inl e) f = Inl e"
| "rbind (Inr x) f = f x"

definition ensure :: "bool \<Rightarrow> 'e \<Rightarrow> 'e + unit" where
  "ensure b e = (if b then Inr () else Inl e)"

definition ok_or :: "'a option \<Rightarrow> 'e \<Rightarrow> 'e + 'a" where
  "ok_or x e = (case x of None \<Rightarrow> Inl e | Some v \<Rightarrow> Inr v)"

lemma rbind_Inr_iff [simp]: "rbind r f = Inr y \<longleftrightarrow> (\<exists>x. r = Inr x \<and> f x = Inr y)"
  by (cases r) auto

lemma rbind_Inl_iff: "rbind r f = Inl e \<longleftrightarrow> r = Inl e \<or> (\<exists>x. r = Inr x \<and> f x = Inl e)"
  by (cases r) auto

lemma ensure_Inr_iff [simp]: "ensure b e = Inr u \<longleftrightarrow> b"
  by (simp add: ensure_def)

lemma ensure_True [simp]: "ensure True e = Inr ()"
  by (simp add: ensure_def)

lemma ensure_False [simp]: "ensure False e = Inl e"
  by (simp add: ensure_def)

lemma ok_or_simps [simp]: "ok_or None e = Inl e" "ok_or (Some v) e = Inr v"
  by (simp_all add: ok_or_def)

lemma ok_or_Inr_iff [simp]: "ok_or x e = Inr v \<longleftrightarrow> x = Some v"
  by (cases x) auto

text \<open>\<open>iter().map(f).collect::<Result<Vec<_>, _>>()\<close>: the first error wins.\<close>

fun rmap :: "('a \<Rightarrow> 'e + 'b) \<Rightarrow> 'a list \<Rightarrow> 'e + 'b list" where
  "rmap f [] = Inr []"
| "rmap f (x # xs) = rbind (f x) (\<lambda>y. rbind (rmap f xs) (\<lambda>ys. Inr (y # ys)))"

lemma rmap_Inr_iff: "rmap f xs = Inr ys \<longleftrightarrow> list_all2 (\<lambda>x y. f x = Inr y) xs ys"
  by (induction xs arbitrary: ys) (auto simp: list_all2_Cons1)

text \<open>A loop over a slice that may return early with an error.\<close>

fun rfor :: "('a \<Rightarrow> 'e + unit) \<Rightarrow> 'a list \<Rightarrow> 'e + unit" where
  "rfor f [] = Inr ()"
| "rfor f (x # xs) = rbind (f x) (\<lambda>_. rfor f xs)"

lemma rfor_Inr_iff [simp]: "rfor f xs = Inr u \<longleftrightarrow> (\<forall>x \<in> set xs. f x = Inr ())"
  by (induction xs) auto

lemma rfor_Inl: "rfor f xs = Inl e \<Longrightarrow> \<exists>x \<in> set xs. f x = Inl e"
  by (induction xs) (auto simp: rbind_Inl_iff)

section \<open>Ordered maps\<close>

text \<open>
  \<open>BTreeMap<K, V>\<close> as its iteration sequence: an association list whose keys ascend strictly.
  \<open>bt_get\<close>, \<open>bt_insert\<close>, \<open>bt_remove\<close> are the map's \<open>get\<close>, \<open>insert\<close> and \<open>remove\<close>; iterating the map
  is iterating the list.
\<close>

type_synonym ('k, 'v) btree = "('k \<times> 'v) list"

definition bt_wf :: "('k::linorder, 'v) btree \<Rightarrow> bool" where
  "bt_wf m = sorted_wrt (<) (map fst m)"

definition bt_get :: "('k, 'v) btree \<Rightarrow> 'k \<Rightarrow> 'v option" where
  "bt_get m k = map_of m k"

fun bt_insert :: "'k::linorder \<Rightarrow> 'v \<Rightarrow> ('k, 'v) btree \<Rightarrow> ('k, 'v) btree" where
  "bt_insert k v [] = [(k, v)]"
| "bt_insert k v ((k', v') # m) =
     (if k < k' then (k, v) # (k', v') # m
      else if k = k' then (k, v) # m
      else (k', v') # bt_insert k v m)"

definition bt_remove :: "'k \<Rightarrow> ('k, 'v) btree \<Rightarrow> ('k, 'v) btree" where
  "bt_remove k m = filter (\<lambda>(k', _). k' \<noteq> k) m"

lemma bt_get_Nil [simp]: "bt_get [] k = None"
  by (simp add: bt_get_def)

lemma bt_get_Cons [simp]: "bt_get ((k', v) # m) k = (if k' = k then Some v else bt_get m k)"
  by (auto simp: bt_get_def)

lemma bt_get_insert [btree_simps]: "bt_get (bt_insert k v m) k' = (if k' = k then Some v else bt_get m k')"
  by (induction m) auto

lemma bt_get_remove [btree_simps]: "bt_get (bt_remove k m) k' = (if k' = k then None else bt_get m k')"
  by (induction m) (auto simp: bt_remove_def)

lemma set_bt_insert: "fst ` set (bt_insert k v m) = insert k (fst ` set m)"
proof (induction m)
  case (Cons kv m)
  then show ?case by (cases kv) (simp add: insert_commute)
qed simp

lemma bt_wf_Nil [simp]: "bt_wf []"
  by (simp add: bt_wf_def)

lemma bt_wf_Cons [simp]: "bt_wf ((k, v) # m) \<longleftrightarrow> (\<forall>k' \<in> fst ` set m. k < k') \<and> bt_wf m"
  by (simp add: bt_wf_def)

lemma bt_wf_insert [intro, simp]: "bt_wf m \<Longrightarrow> bt_wf (bt_insert k v m)"
proof (induction m)
  case Nil
  then show ?case by simp
next
  case (Cons kv m)
  obtain k' v' where kv: "kv = (k', v')" by (cases kv)
  from Cons show ?case
    by (simp only: kv bt_insert.simps bt_wf_Cons set_bt_insert split: if_split)
       (auto dest: less_trans)
qed

lemma bt_wf_filter: "bt_wf m \<Longrightarrow> bt_wf (filter P m)"
  by (induction m) auto

lemma bt_wf_remove [intro, simp]: "bt_wf m \<Longrightarrow> bt_wf (bt_remove k m)"
  by (simp add: bt_remove_def bt_wf_filter)

lemma bt_wf_distinct: "bt_wf m \<Longrightarrow> distinct (map fst m)"
  by (induction m) force+

lemma bt_get_Some_iff: "bt_wf m \<Longrightarrow> bt_get m k = Some v \<longleftrightarrow> (k, v) \<in> set m"
  by (simp add: bt_get_def bt_wf_distinct)

lemma bt_get_None_iff: "bt_get m k = None \<longleftrightarrow> k \<notin> fst ` set m"
  by (simp add: bt_get_def map_of_eq_None_iff)

lemma bt_getD: "bt_get m k = Some v \<Longrightarrow> (k, v) \<in> set m"
  by (simp add: bt_get_def map_of_SomeD)

text \<open>Two ordered maps with the same lookups are the same sequence.\<close>

lemma bt_ext:
  assumes "bt_wf m" "bt_wf m'" "\<And>k. bt_get m k = bt_get m' k"
  shows "m = m'"
proof (rule map_sorted_distinct_set_unique)
  have "set m = set m'"
    using assms bt_get_Some_iff by (metis pred_equals_eq2 subrelI subset_antisym)
  then show "set m = set m'" .
  show "inj_on fst (set m \<union> set m')"
    using \<open>set m = set m'\<close> bt_wf_distinct [OF assms(1)] by (simp add: distinct_map)
  show "sorted (map fst m)" "sorted (map fst m')"
    using assms by (auto simp: bt_wf_def strict_sorted_iff)
  show "distinct (map fst m)" "distinct (map fst m')"
    using assms by (auto simp: bt_wf_distinct)
qed

text \<open>A sum over the values of a map, and the number of its entries.\<close>

definition bt_sum :: "('v \<Rightarrow> nat) \<Rightarrow> ('k, 'v) btree \<Rightarrow> nat" where
  "bt_sum f m = sum_list (map (f \<circ> snd) m)"

lemma bt_sum_Nil [simp]: "bt_sum f [] = 0"
  by (simp add: bt_sum_def)

lemma bt_sum_Cons [simp]: "bt_sum f ((k, v) # m) = f v + bt_sum f m"
  by (simp add: bt_sum_def)

lemma bt_get_above: "bt_wf ((k', v) # m) \<Longrightarrow> k < k' \<Longrightarrow> bt_get m k = None"
  unfolding bt_get_None_iff by auto

lemma bt_remove_Cons: "bt_remove k ((k', v) # m) = (if k' = k then bt_remove k m else (k', v) # bt_remove k m)"
  by (simp add: bt_remove_def)

lemma bt_remove_absent: "bt_get m k = None \<Longrightarrow> bt_remove k m = m"
  unfolding bt_get_None_iff bt_remove_def by (force simp: filter_id_conv)

lemma bt_sum_insert:
  "bt_wf m \<Longrightarrow> bt_sum f (bt_insert k v m) + (case bt_get m k of None \<Rightarrow> 0 | Some v' \<Rightarrow> f v') = bt_sum f m + f v"
proof (induction k v m rule: bt_insert.induct)
  case (2 k v k' v' m)
  then show ?case using bt_get_above [OF "2.prems"] by (auto split: option.splits)
qed simp

lemma bt_sum_remove:
  "bt_wf m \<Longrightarrow> bt_sum f (bt_remove k m) + (case bt_get m k of None \<Rightarrow> 0 | Some v \<Rightarrow> f v) = bt_sum f m"
proof (induction m)
  case (Cons x m)
  obtain k' v where x: "x = (k', v)" by (cases x)
  have "bt_get m k' = None" using Cons.prems x by (auto simp: bt_get_None_iff)
  then show ?case using Cons x bt_remove_absent [of m k']
    by (auto simp: bt_remove_Cons split: option.splits)
qed (simp add: bt_remove_def)

lemma length_bt_insert:
  "bt_wf m \<Longrightarrow> length (bt_insert k v m) = (if bt_get m k = None then Suc (length m) else length m)"
proof (induction k v m rule: bt_insert.induct)
  case (2 k v k' v' m)
  then show ?case using bt_get_above [OF "2.prems"] by auto
qed simp

lemma length_bt_remove: "length (bt_remove k m) \<le> length m"
  by (simp add: bt_remove_def)

lemma length_bt_remove_less: "bt_get m k \<noteq> None \<Longrightarrow> length (bt_remove k m) < length m"
  unfolding bt_get_None_iff bt_remove_def by (auto intro!: length_filter_less)

text \<open>
  The contract of \<open>std::collections::BTreeMap\<close> the components rely on, and what follows from it.
\<close>

locale ordered_map =
  fixes empty :: "'m"
    and get :: "'m \<Rightarrow> 'k \<Rightarrow> 'v option"
    and insert :: "'k \<Rightarrow> 'v \<Rightarrow> 'm \<Rightarrow> 'm"
    and remove :: "'k \<Rightarrow> 'm \<Rightarrow> 'm"
    and invar :: "'m \<Rightarrow> bool"
  assumes get_empty: "get empty k = None"
    and get_insert: "get (insert k v m) k' = (if k' = k then Some v else get m k')"
    and get_remove: "get (remove k m) k' = (if k' = k then None else get m k')"
    and invar_empty: "invar empty"
    and invar_insert: "invar m \<Longrightarrow> invar (insert k v m)"
    and invar_remove: "invar m \<Longrightarrow> invar (remove k m)"
    and extensional: "invar m \<Longrightarrow> invar m' \<Longrightarrow> (\<And>k. get m k = get m' k) \<Longrightarrow> m = m'"
begin

lemma insert_commute:
  assumes "invar m" "k \<noteq> k'"
  shows "insert k v (insert k' v' m) = insert k' v' (insert k v m)"
  using assms by (intro extensional) (auto simp: get_insert invar_insert)

lemma insert_overwrite: "invar m \<Longrightarrow> insert k v (insert k v' m) = insert k v m"
  by (intro extensional) (auto simp: get_insert invar_insert)

lemma remove_insert: "invar m \<Longrightarrow> get m k = None \<Longrightarrow> remove k (insert k v m) = m"
  by (intro extensional) (auto simp: get_insert get_remove invar_insert invar_remove)

lemma insert_remove: "invar m \<Longrightarrow> get m k = Some v \<Longrightarrow> insert k v (remove k m) = m"
  by (intro extensional) (auto simp: get_insert get_remove invar_insert invar_remove)

end

interpretation bt: ordered_map "[]" bt_get bt_insert bt_remove bt_wf
  by unfold_locales (auto simp: btree_simps intro: bt_ext)

section \<open>Invariants of operation sequences\<close>

text \<open>
  A component is driven by a sequence of operations; \<open>step op s\<close> is the state after \<open>op\<close>. An
  invariant every operation keeps holds after any sequence, and a quantity no operation
  decreases is at least its first value at the end.
\<close>

locale machine =
  fixes step :: "'op \<Rightarrow> 's \<Rightarrow> 's"
    and inv :: "'s \<Rightarrow> bool"
  assumes step_inv: "inv s \<Longrightarrow> inv (step op s)"
begin

lemma run_inv: "inv s \<Longrightarrow> inv (fold step ops s)"
  by (induction ops arbitrary: s) (auto intro: step_inv)

lemma run_mono:
  fixes f :: "'s \<Rightarrow> 'b::preorder"
  assumes "\<And>op s. inv s \<Longrightarrow> f s \<le> f (step op s)"
  shows "inv s \<Longrightarrow> f s \<le> f (fold step ops s)"
proof (induction ops arbitrary: s)
  case (Cons op ops)
  then have "f (step op s) \<le> f (fold step ops (step op s))" by (simp add: step_inv)
  with assms [OF Cons.prems, of op] show ?case by (simp add: order_trans [of "f s"])
qed simp

lemma run_stable:
  assumes "\<And>op s. inv s \<Longrightarrow> f (step op s) = f s"
  shows "inv s \<Longrightarrow> f (fold step ops s) = f s"
  by (induction ops arbitrary: s) (simp_all add: assms step_inv)

end

text \<open>
  An implementation that answers every operation like its specification, from related states to
  related states, answers every sequence of operations like it.
\<close>

primrec run_outputs :: "('i \<Rightarrow> 's \<Rightarrow> 'o \<times> 's) \<Rightarrow> 'i list \<Rightarrow> 's \<Rightarrow> 'o list \<times> 's" where
  "run_outputs step [] s = ([], s)"
| "run_outputs step (i # is) s =
     (let (out, s') = step i s; (outs, s'') = run_outputs step is s' in (out # outs, s''))"

locale simulation =
  fixes cstep :: "'i \<Rightarrow> 'c \<Rightarrow> 'o \<times> 'c"
    and astep :: "'i \<Rightarrow> 'a \<Rightarrow> 'o \<times> 'a"
    and rel :: "'c \<Rightarrow> 'a \<Rightarrow> bool"
  assumes step_sim: "rel c a \<Longrightarrow> fst (cstep i c) = fst (astep i a) \<and> rel (snd (cstep i c)) (snd (astep i a))"
begin

lemma run_sim:
  "rel c a \<Longrightarrow> fst (run_outputs cstep is c) = fst (run_outputs astep is a) \<and>
     rel (snd (run_outputs cstep is c)) (snd (run_outputs astep is a))"
proof (induction "is" arbitrary: c a)
  case (Cons i "is")
  from step_sim [OF Cons.prems, of i] Cons.IH show ?case by (auto simp: split_beta Let_def)
qed simp

end

section \<open>Lists\<close>

lemma sum_list_le_mono:
  "list_all2 (\<le>) xs ys \<Longrightarrow> sum_list xs \<le> sum_list (ys :: 'a::ordered_comm_monoid_add list)"
  by (induction rule: list_all2_induct) (auto intro: add_mono)

section \<open>Strings\<close>

text \<open>
  A \<open>str\<close> is its sequence of UTF-8 bytes. \<open>str::trim\<close> drops the characters with the Unicode
  property \<open>White_Space\<close> at both ends; the encodings of those characters are listed, and on UTF-8
  text a prefix or suffix that is one of them is a whole character.
\<close>

definition white_space :: "string list" where
  "white_space =
     [[CHR 0x09], [CHR 0x0A], [CHR 0x0B], [CHR 0x0C], [CHR 0x0D], [CHR 0x20],
      [CHR 0xC2, CHR 0x85], [CHR 0xC2, CHR 0xA0], [CHR 0xE1, CHR 0x9A, CHR 0x80],
      [CHR 0xE2, CHR 0x80, CHR 0x80], [CHR 0xE2, CHR 0x80, CHR 0x81], [CHR 0xE2, CHR 0x80, CHR 0x82],
      [CHR 0xE2, CHR 0x80, CHR 0x83], [CHR 0xE2, CHR 0x80, CHR 0x84], [CHR 0xE2, CHR 0x80, CHR 0x85],
      [CHR 0xE2, CHR 0x80, CHR 0x86], [CHR 0xE2, CHR 0x80, CHR 0x87], [CHR 0xE2, CHR 0x80, CHR 0x88],
      [CHR 0xE2, CHR 0x80, CHR 0x89], [CHR 0xE2, CHR 0x80, CHR 0x8A], [CHR 0xE2, CHR 0x80, CHR 0xA8],
      [CHR 0xE2, CHR 0x80, CHR 0xA9], [CHR 0xE2, CHR 0x80, CHR 0xAF], [CHR 0xE2, CHR 0x81, CHR 0x9F],
      [CHR 0xE3, CHR 0x80, CHR 0x80]]"

definition starts_with :: "string \<Rightarrow> string \<Rightarrow> bool" where
  "starts_with s p \<longleftrightarrow> take (length p) s = p"

fun drop_chars :: "nat \<Rightarrow> string list \<Rightarrow> string \<Rightarrow> string" where
  "drop_chars 0 ws s = s"
| "drop_chars (Suc n) ws s =
     (case find (starts_with s) ws of None \<Rightarrow> s | Some w \<Rightarrow> drop_chars n ws (drop (length w) s))"

text \<open>The bound \<open>length s\<close> is enough: each round drops at least one byte.\<close>

definition str_trim :: "string \<Rightarrow> string" where
  "str_trim s =
     (let t = drop_chars (length s) white_space s
      in rev (drop_chars (length t) (map rev white_space) (rev t)))"

definition str_is_blank :: "string \<Rightarrow> bool" where
  "str_is_blank s \<longleftrightarrow> str_trim s = []"

text \<open>Decimal rendering, Rust's \<open>Display\<close> of an unsigned integer.\<close>

definition digit_char :: "nat \<Rightarrow> char" where
  "digit_char d = char_of (48 + d)"

fun show_nat :: "nat \<Rightarrow> string" where
  "show_nat n = (if n < 10 then [digit_char n] else show_nat (n div 10) @ [digit_char (n mod 10)])"

declare show_nat.simps [simp del]

text \<open>Bytes of a string and lengths as 64-bit integers; \<open>usize\<close> has 64 bits.\<close>

definition byte_of :: "char \<Rightarrow> u8" where
  "byte_of c = word_of_nat (of_char c)"

definition char_of_byte :: "u8 \<Rightarrow> char" where
  "char_of_byte b = char_of (unat b)"

lemma unat_byte_of [simp]: "unat (byte_of c) = of_char c"
  by (simp add: byte_of_def unat_of_nat_small)

lemma char_of_byte_of [simp]: "char_of_byte (byte_of c) = c"
  by (simp add: char_of_byte_def)

definition as_bytes :: "string \<Rightarrow> u8 list" where "as_bytes s = map byte_of s"
definition of_bytes :: "u8 list \<Rightarrow> string" where "of_bytes bs = map char_of_byte bs"

lemma of_bytes_as_bytes [simp]: "of_bytes (as_bytes s) = s"
  by (simp add: as_bytes_def of_bytes_def comp_def)

lemma length_as_bytes [simp]: "length (as_bytes s) = length s"
  by (simp add: as_bytes_def)

text \<open>
  The ASCII classes of \<open>u8\<close> and \<open>char\<close>, case folding, and \<open>str::split_once\<close> at a one-byte separator.
\<close>

definition is_ascii_digit :: "char \<Rightarrow> bool" where
  "is_ascii_digit c \<longleftrightarrow> 48 \<le> (of_char c :: nat) \<and> (of_char c :: nat) \<le> 57"

definition is_ascii_hexdigit :: "u8 \<Rightarrow> bool" where
  "is_ascii_hexdigit byte \<longleftrightarrow>
     0x30 \<le> byte \<and> byte \<le> 0x39 \<or> 0x61 \<le> byte \<and> byte \<le> 0x66 \<or> 0x41 \<le> byte \<and> byte \<le> 0x46"

definition is_ascii_alphanumeric :: "char \<Rightarrow> bool" where
  "is_ascii_alphanumeric c \<longleftrightarrow>
     is_ascii_digit c \<or> 0x41 \<le> byte_of c \<and> byte_of c \<le> 0x5A \<or> 0x61 \<le> byte_of c \<and> byte_of c \<le> 0x7A"

definition is_ascii_graphic :: "char \<Rightarrow> bool" where
  "is_ascii_graphic c \<longleftrightarrow> 0x21 \<le> byte_of c \<and> byte_of c \<le> 0x7E"

definition to_ascii_lowercase :: "string \<Rightarrow> string" where
  "to_ascii_lowercase s =
     map (\<lambda>c. if 0x41 \<le> byte_of c \<and> byte_of c \<le> 0x5A then char_of_byte (byte_of c + 0x20) else c) s"

definition eq_ignore_ascii_case :: "string \<Rightarrow> string \<Rightarrow> bool" where
  "eq_ignore_ascii_case s t \<longleftrightarrow> to_ascii_lowercase s = to_ascii_lowercase t"

fun split_once :: "char \<Rightarrow> string \<Rightarrow> (string \<times> string) option" where
  "split_once sep [] = None"
| "split_once sep (c # s) =
     (if c = sep then Some ([], s) else map_option (\<lambda>(l, r). (c # l, r)) (split_once sep s))"

text \<open>\<open>str::split\<close> at a one-byte separator: at least one piece.\<close>

fun str_split :: "char \<Rightarrow> string \<Rightarrow> string list" where
  "str_split sep [] = [[]]"
| "str_split sep (c # s) =
     (if c = sep then [] # str_split sep s else (c # hd (str_split sep s)) # tl (str_split sep s))"

lemma str_split_ne [simp]: "str_split sep s \<noteq> []"
  by (cases s) simp_all

lemma str_split_single [simp]: "sep \<notin> set a \<Longrightarrow> str_split sep a = [a]"
  by (induction a) auto

lemma str_split_append [simp]: "sep \<notin> set a \<Longrightarrow> str_split sep (a @ sep # s) = a # str_split sep s"
  by (induction a) auto

lemma str_split_Cons:
  "str_split sep s = a # rest \<Longrightarrow>
     sep \<notin> set a \<and> (if rest = [] then s = a else \<exists>t. s = a @ sep # t \<and> str_split sep t = rest)"
proof (induction s arbitrary: a rest)
  case (Cons c s)
  show ?case
  proof (cases "c = sep")
    case True
    then show ?thesis using Cons.prems by auto
  next
    case False
    obtain b rest' where b: "str_split sep s = b # rest'" by (cases "str_split sep s") auto
    then have "a = c # b" "rest' = rest" using Cons.prems False by auto
    then show ?thesis using Cons.IH [OF b] False by (auto split: if_splits)
  qed
qed auto

definition u64_try :: "nat \<Rightarrow> 'e \<Rightarrow> 'e + u64" where
  "u64_try n e = (if n < 2 ^ 64 then Inr (of_nat n) else Inl e)"

lemma u64_try_Inr_iff [simp]: "u64_try n e = Inr w \<longleftrightarrow> unat w = n"
proof
  assume "u64_try n e = Inr w"
  then show "unat w = n" by (auto simp: u64_try_def unat_of_nat_small split: if_splits)
next
  assume "unat w = n"
  then show "u64_try n e = Inr w"
    using unat_lt_pow [of w] by (auto simp: u64_try_def)
qed

lemma u64_try_unat [simp]: "u64_try (unat w) e = Inr w"
  by simp

section \<open>UTF-8\<close>

definition is_continuation :: "u8 \<Rightarrow> bool" where
  "is_continuation b \<longleftrightarrow> 0x80 \<le> b \<and> b \<le> 0xBF"

text \<open>Well-formed UTF-8, the test of \<open>std::str::from_utf8\<close> and \<open>OsStr::to_str\<close>.\<close>

fun utf8_valid :: "u8 list \<Rightarrow> bool" where
  "utf8_valid [] = True"
| "utf8_valid (a # bs) =
     (if a < 0x80 then utf8_valid bs
      else case bs of
        [] \<Rightarrow> False
      | b # cs \<Rightarrow>
          if 0xC2 \<le> a \<and> a \<le> 0xDF then is_continuation b \<and> utf8_valid cs
          else case cs of
            [] \<Rightarrow> False
          | c # ds \<Rightarrow>
              if a = 0xE0 then 0xA0 \<le> b \<and> b \<le> 0xBF \<and> is_continuation c \<and> utf8_valid ds
              else if 0xE1 \<le> a \<and> a \<le> 0xEC \<or> a = 0xEE \<or> a = 0xEF
              then is_continuation b \<and> is_continuation c \<and> utf8_valid ds
              else if a = 0xED then 0x80 \<le> b \<and> b \<le> 0x9F \<and> is_continuation c \<and> utf8_valid ds
              else case ds of
                [] \<Rightarrow> False
              | d # es \<Rightarrow>
                  (if a = 0xF0 then 0x90 \<le> b \<and> b \<le> 0xBF
                   else if 0xF1 \<le> a \<and> a \<le> 0xF3 then is_continuation b
                   else if a = 0xF4 then 0x80 \<le> b \<and> b \<le> 0x8F
                   else False) \<and> is_continuation c \<and> is_continuation d \<and> utf8_valid es)"

lemma utf8_valid_ascii: "list_all (\<lambda>b. b < 0x80) bs \<Longrightarrow> utf8_valid bs"
  by (induction bs) simp_all

lemma utf8_start: "utf8_valid (b # bs) \<Longrightarrow> \<not> is_continuation b"
proof
  assume v: "utf8_valid (b # bs)" and "is_continuation b"
  then have "unat b \<ge> 128" "unat b \<le> 191" by (simp_all add: is_continuation_def word_le_nat_alt)
  then have "\<not> b < 0x80" "\<not> 0xC2 \<le> b" "b \<noteq> 0xE0" "\<not> 0xE1 \<le> b" "b \<noteq> 0xEE" "b \<noteq> 0xEF" "b \<noteq> 0xED" "b \<noteq> 0xF0" "\<not> 0xF1 \<le> b"
    "b \<noteq> 0xF4" by (auto simp: word_less_nat_alt word_le_nat_alt)
  then show False using v by (simp split: list.splits)
qed

text \<open>A valid text starts with one ASCII byte or with a character that has none.\<close>

lemma utf8_two:
  assumes "\<not> a < 0x80" "0xC2 \<le> a \<and> a \<le> 0xDF"
  shows "utf8_valid (a # bs) \<longleftrightarrow> (\<exists>b t. bs = b # t \<and> is_continuation b \<and> utf8_valid t)"
  unfolding utf8_valid.simps(2) [of a] using assms by (cases bs) (simp_all del: utf8_valid.simps)

lemma utf8_three:
  assumes "\<not> a < 0x80" "\<not> (0xC2 \<le> a \<and> a \<le> 0xDF)" "a = 0xE0 \<or> 0xE1 \<le> a \<and> a \<le> 0xEC \<or> a = 0xEE \<or> a = 0xEF \<or> a = 0xED"
  obtains second where "\<And>b. second b \<Longrightarrow> 0x80 \<le> b"
    "\<And>bs. utf8_valid (a # bs) \<longleftrightarrow> (\<exists>b c t. bs = b # c # t \<and> second b \<and> is_continuation c \<and> utf8_valid t)"
proof (rule that)
  let ?s = "\<lambda>b. if a = 0xE0 then 0xA0 \<le> b \<and> b \<le> 0xBF else if a = 0xED then 0x80 \<le> b \<and> b \<le> 0x9F else is_continuation b"
  show "0x80 \<le> b" if "?s b" for b :: u8
    using that by (auto simp: is_continuation_def word_le_nat_alt split: if_splits)
  fix bs
  show "utf8_valid (a # bs) \<longleftrightarrow> (\<exists>b c t. bs = b # c # t \<and> ?s b \<and> is_continuation c \<and> utf8_valid t)"
    unfolding utf8_valid.simps(2) [of a] if_not_P [OF assms(1)] if_not_P [OF assms(2)]
    using assms(3) by (cases bs; cases "tl bs") (auto simp del: utf8_valid.simps)
qed

lemma utf8_four:
  assumes "\<not> a < 0x80" "\<not> (0xC2 \<le> a \<and> a \<le> 0xDF)" "\<not> (a = 0xE0 \<or> 0xE1 \<le> a \<and> a \<le> 0xEC \<or> a = 0xEE \<or> a = 0xEF \<or> a = 0xED)"
  obtains second where "\<And>b. second b \<Longrightarrow> 0x80 \<le> b"
    "\<And>bs. utf8_valid (a # bs) \<longleftrightarrow>
       (\<exists>b c d t. bs = b # c # d # t \<and> second b \<and> is_continuation c \<and> is_continuation d \<and> utf8_valid t)"
proof (rule that)
  let ?s = "\<lambda>b. if a = 0xF0 then 0x90 \<le> b \<and> b \<le> 0xBF else if 0xF1 \<le> a \<and> a \<le> 0xF3 then is_continuation b
    else if a = 0xF4 then 0x80 \<le> b \<and> b \<le> 0x8F else False"
  show "0x80 \<le> b" if "?s b" for b :: u8
    using that by (auto simp: is_continuation_def word_le_nat_alt split: if_splits)
  have no: "\<not> a = 0xE0" "\<not> (0xE1 \<le> a \<and> a \<le> 0xEC \<or> a = 0xEE \<or> a = 0xEF)" "\<not> a = 0xED" using assms(3) by auto
  fix bs
  show "utf8_valid (a # bs) \<longleftrightarrow>
      (\<exists>b c d t. bs = b # c # d # t \<and> ?s b \<and> is_continuation c \<and> is_continuation d \<and> utf8_valid t)"
    unfolding utf8_valid.simps(2) [of a] if_not_P [OF assms(1)] if_not_P [OF assms(2)] if_not_P [OF no(1)] if_not_P [OF no(2)] if_not_P [OF no(3)]
    by (cases bs; cases "tl bs"; cases "tl (tl bs)") (simp_all del: utf8_valid.simps)
qed

lemma utf8_first:
  assumes "utf8_valid (a # bs)" "\<not> a < 0x80"
  obtains cs rest where "a # bs = cs @ rest" "cs \<noteq> []" "\<And>t. utf8_valid (cs @ t) = utf8_valid t" "\<And>x. x \<in> set cs \<Longrightarrow> \<not> x < 0x80"
proof -
  have hi: "\<not> b < 0x80" if "is_continuation b \<or> 0x80 \<le> b" for b :: u8
    using that by (auto simp: is_continuation_def)
  consider "0xC2 \<le> a \<and> a \<le> 0xDF" | "\<not> (0xC2 \<le> a \<and> a \<le> 0xDF)" "a = 0xE0 \<or> 0xE1 \<le> a \<and> a \<le> 0xEC \<or> a = 0xEE \<or> a = 0xEF \<or> a = 0xED"
    | "\<not> (0xC2 \<le> a \<and> a \<le> 0xDF)" "\<not> (a = 0xE0 \<or> 0xE1 \<le> a \<and> a \<le> 0xEC \<or> a = 0xEE \<or> a = 0xEF \<or> a = 0xED)"
    by blast
  then show ?thesis
  proof cases
    case 1
    note eq = utf8_two [OF assms(2) 1]
    then obtain b t where b: "bs = b # t" "is_continuation b" using assms(1) by metis
    show ?thesis by (rule that [of "[a, b]" t]) (use b assms(2) hi [of b] in \<open>auto simp: eq simp del: utf8_valid.simps\<close>)
  next
    case 2
    obtain second where eq: "\<And>b. second b \<Longrightarrow> 0x80 \<le> b"
      "\<And>bs. utf8_valid (a # bs) \<longleftrightarrow> (\<exists>b c t. bs = b # c # t \<and> second b \<and> is_continuation c \<and> utf8_valid t)"
      using utf8_three [OF assms(2) 2] by metis
    then obtain b c t where b: "bs = b # c # t" "second b" "is_continuation c" using assms(1) by metis
    show ?thesis
      by (rule that [of "[a, b, c]" t]) (use b assms(2) eq(1) hi [of b] hi [of c] in \<open>auto simp: eq(2) simp del: utf8_valid.simps\<close>)
  next
    case 3
    obtain second where eq: "\<And>b. second b \<Longrightarrow> 0x80 \<le> b"
      "\<And>bs. utf8_valid (a # bs) \<longleftrightarrow> (\<exists>b c d t. bs = b # c # d # t \<and> second b \<and> is_continuation c \<and> is_continuation d \<and> utf8_valid t)"
      using utf8_four [OF assms(2) 3] by metis
    then obtain b c d t where b: "bs = b # c # d # t" "second b" "is_continuation c" "is_continuation d" using assms(1) by metis
    show ?thesis
      by (rule that [of "[a, b, c, d]" t])
         (use b assms(2) eq(1) hi [of b] hi [of c] hi [of d] in \<open>auto simp: eq(2) simp del: utf8_valid.simps\<close>)
  qed
qed

lemma utf8_valid_append: "utf8_valid a \<Longrightarrow> utf8_valid (a @ b) = utf8_valid b"
proof (induction a rule: length_induct)
  case (1 a)
  show ?case
  proof (cases a)
    case (Cons x xs)
    show ?thesis
    proof (cases "x < 0x80")
      case True
      then show ?thesis using 1 Cons by simp
    next
      case False
      obtain cs rest where r: "a = cs @ rest" "cs \<noteq> []" "\<And>t. utf8_valid (cs @ t) = utf8_valid t"
        using utf8_first [of x xs] 1(2) False Cons by metis
      then show ?thesis using 1 by simp
    qed
  qed simp
qed

lemma utf8_after_ascii: "utf8_valid bs \<Longrightarrow> i < length bs \<Longrightarrow> bs ! i < 0x80 \<Longrightarrow> utf8_valid (drop (Suc i) bs)"
proof (induction bs arbitrary: i rule: length_induct)
  case (1 bs)
  then obtain a as where bs: "bs = a # as" by (cases bs) auto
  show ?case
  proof (cases "a < 0x80")
    case True
    then have "utf8_valid as" using 1(2) bs by simp
    then show ?thesis using 1 bs by (cases i) auto
  next
    case False
    obtain cs rest where r: "bs = cs @ rest" "cs \<noteq> []" "\<And>t. utf8_valid (cs @ t) = utf8_valid t" "\<And>x. x \<in> set cs \<Longrightarrow> \<not> x < 0x80"
      using utf8_first [of a as] 1(2) False bs by metis
    have i: "\<not> i < length cs" using r(4) [of "bs ! i"] r(1) 1(4) by (auto simp: nth_append)
    then have "utf8_valid (drop (Suc (i - length cs)) rest)"
      using 1(1) r(1, 2) r(3) [of rest] 1(2-4) by (auto simp: nth_append)
    then show ?thesis using r(1) i by (simp add: Suc_diff_le)
  qed
qed

text \<open>
  \<open>str::is_char_boundary\<close> and the slices \<open>&s[start..stop]\<close>: a slice panics, which is \<open>None\<close>, when it ends
  before it starts, outside the text, or inside a character.
\<close>

definition is_char_boundary :: "string \<Rightarrow> nat \<Rightarrow> bool" where
  "is_char_boundary s i \<longleftrightarrow> i = 0 \<or> i = length s \<or> i < length s \<and> \<not> is_continuation (byte_of (s ! i))"

definition str_slice :: "string \<Rightarrow> nat \<Rightarrow> nat \<Rightarrow> string option" where
  "str_slice s start stop =
     (if start \<le> stop \<and> is_char_boundary s start \<and> is_char_boundary s stop
      then Some (take (stop - start) (drop start s)) else None)"

text \<open>The invariant of \<open>str\<close>.\<close>

definition utf8 :: "string \<Rightarrow> bool" where
  "utf8 s \<longleftrightarrow> utf8_valid (as_bytes s)"

lemma utf8_append: "utf8 s \<Longrightarrow> utf8 (s @ t) = utf8 t"
  by (simp add: utf8_def as_bytes_def utf8_valid_append)

lemma utf8_Nil [simp]: "utf8 []"
  by (simp add: utf8_def as_bytes_def)

lemma str_slice_Some: "str_slice s start stop = Some t \<Longrightarrow> t = take (stop - start) (drop start s) \<and> start \<le> stop \<and> stop \<le> length s"
  by (auto simp: str_slice_def is_char_boundary_def split: if_splits)

lemma boundary_append:
  assumes "utf8 t"
  shows "is_char_boundary (s @ t) (length s)"
proof (cases t)
  case (Cons c r)
  then show ?thesis using assms utf8_start [of "byte_of c"] by (auto simp: is_char_boundary_def utf8_def as_bytes_def nth_append)
qed (simp add: is_char_boundary_def)

lemma boundary_at_ascii: "i < length s \<Longrightarrow> byte_of (s ! i) < 0x80 \<Longrightarrow> is_char_boundary s i"
  by (auto simp: is_char_boundary_def is_continuation_def)

lemma boundary_after_ascii:
  assumes "utf8 s" "i < length s" "byte_of (s ! i) < 0x80"
  shows "is_char_boundary s (Suc i)"
proof -
  have "utf8 (drop (Suc i) s)"
    using utf8_after_ascii [of "as_bytes s" i] assms by (simp add: utf8_def as_bytes_def drop_map)
  from boundary_append [OF this, of "take (Suc i) s"] show ?thesis using assms(2) by (simp add: min_absorb2 Suc_leI)
qed

section \<open>Least elements\<close>

text \<open>\<open>Iterator::min_by_key\<close>, and \<open>min_by\<close> with a lexicographic chain of keys: the first of the least elements.\<close>

fun min_by_key :: "('a \<Rightarrow> 'k::linorder) \<Rightarrow> 'a list \<Rightarrow> 'a option" where
  "min_by_key f [] = None"
| "min_by_key f (x # xs) = Some (fold (\<lambda>y best. if f y < f best then y else best) xs x)"

lemma fold_min_by_key:
  "let b = fold (\<lambda>y best. if f y < f best then y else best) xs x
   in b \<in> set (x # xs) \<and> (\<forall>y \<in> set (x # xs). f b \<le> (f y :: 'k::linorder))"
proof (induction xs arbitrary: x)
  case (Cons y xs)
  let ?z = "if f y < f x then y else x"
  from Cons [of ?z] show ?case
    by (auto simp: Let_def intro: order_trans split: if_splits)
qed simp

lemma min_by_key_Some:
  "min_by_key f xs = Some b \<Longrightarrow> b \<in> set xs \<and> (\<forall>y \<in> set xs. f b \<le> f y)"
  by (cases xs) (use fold_min_by_key [of f] in \<open>auto simp: Let_def\<close>)

lemma min_by_key_None_iff [simp]: "min_by_key f xs = None \<longleftrightarrow> xs = []"
  by (cases xs) simp_all

end
