(* ===== verification/Receipt_Usage.thy ===== *)
theory Receipt_Usage
  imports Mayhem_Prelude
begin

text \<open>
  Usage counters of a receipt (\<^verbatim>\<open>src/crates/mayhem-proto/src/lib.rs\<close>, \<open>ReceiptUsage\<close> and
  \<open>canonical_usage_unit\<close>): a map from metered units to \<open>u64\<close> counts. Every constructor maps unit
  aliases to their canonical name and drops zero counts; \<open>usage_wf\<close> is that invariant. The lemmas
  show that every operation keeps it, that \<open>is_monotonic_from\<close> is a partial order on such usages
  and that a delta added back gives the later usage.
\<close>

section \<open>Units\<close>

definition USAGE_INPUT_TOKEN :: string where "USAGE_INPUT_TOKEN = ''input_token''"
definition USAGE_CACHED_INPUT_TOKEN :: string where "USAGE_CACHED_INPUT_TOKEN = ''cached_input_token''"
definition USAGE_OUTPUT_TOKEN :: string where "USAGE_OUTPUT_TOKEN = ''output_token''"
definition USAGE_IMAGE :: string where "USAGE_IMAGE = ''image''"
definition USAGE_STEP :: string where "USAGE_STEP = ''step''"
definition USAGE_INPUT_CHARACTER :: string where "USAGE_INPUT_CHARACTER = ''input_character''"
definition USAGE_AUDIO_SECOND :: string where "USAGE_AUDIO_SECOND = ''audio_second''"
definition USAGE_VIDEO_SECOND :: string where "USAGE_VIDEO_SECOND = ''video_second''"
definition USAGE_FRAME :: string where "USAGE_FRAME = ''frame''"
definition USAGE_MEGAPIXEL_STEP :: string where "USAGE_MEGAPIXEL_STEP = ''megapixel_step''"
definition USAGE_MEGAPIXEL :: string where "USAGE_MEGAPIXEL = ''megapixel''"
definition USAGE_PIXEL_FRAME :: string where "USAGE_PIXEL_FRAME = ''pixel_frame''"
definition USAGE_COMPUTE_SECOND :: string where "USAGE_COMPUTE_SECOND = ''compute_second''"

lemmas usage_unit_defs =
  USAGE_INPUT_TOKEN_def USAGE_CACHED_INPUT_TOKEN_def USAGE_OUTPUT_TOKEN_def USAGE_IMAGE_def
  USAGE_STEP_def USAGE_INPUT_CHARACTER_def USAGE_AUDIO_SECOND_def USAGE_VIDEO_SECOND_def
  USAGE_FRAME_def USAGE_MEGAPIXEL_STEP_def USAGE_MEGAPIXEL_def USAGE_PIXEL_FRAME_def
  USAGE_COMPUTE_SECOND_def

definition canonical_usage_unit :: "string \<Rightarrow> string option" where
  "canonical_usage_unit u =
     (if u \<in> {''in'', ''in_tokens'', ''input'', ''input_tokens'', ''prompt_tokens'', USAGE_INPUT_TOKEN}
      then Some USAGE_INPUT_TOKEN
      else if u \<in> {''cached_input'', ''cached_inputs'', ''cached_input_tokens'',
                   ''cached_prompt_tokens'', ''cached_tokens'', USAGE_CACHED_INPUT_TOKEN}
      then Some USAGE_CACHED_INPUT_TOKEN
      else if u \<in> {''out'', ''out_tokens'', ''output'', ''output_tokens'', ''completion_tokens'',
                   USAGE_OUTPUT_TOKEN}
      then Some USAGE_OUTPUT_TOKEN
      else if u \<in> {''images'', USAGE_IMAGE} then Some USAGE_IMAGE
      else if u \<in> {''steps'', USAGE_STEP} then Some USAGE_STEP
      else if u \<in> {''input_char'', ''input_chars'', ''input_character'', ''input_characters''}
      then Some USAGE_INPUT_CHARACTER
      else if u \<in> {''audio_seconds'', USAGE_AUDIO_SECOND} then Some USAGE_AUDIO_SECOND
      else None)"

text \<open>The name a count is stored under: the canonical unit, or the unit as given.\<close>

definition canon :: "string \<Rightarrow> string" where
  "canon u = (case canonical_usage_unit u of Some c \<Rightarrow> c | None \<Rightarrow> u)"

section \<open>Usage maps\<close>

record receipt_usage =
  units :: "(string, u64) btree"

definition usage_default :: receipt_usage where
  "usage_default = \<lparr>units = []\<rparr>"

fun from_units_loop :: "(string \<times> u64) list \<Rightarrow> (string, u64) btree \<Rightarrow> (string, u64) btree" where
  "from_units_loop [] normalized = normalized"
| "from_units_loop ((unit, count) # us) normalized =
     (if count = 0 then from_units_loop us normalized
      else let u = canon unit;
               nxt = sat_add (case bt_get normalized u of Some n \<Rightarrow> n | None \<Rightarrow> 0) count
           in from_units_loop us (bt_insert u nxt normalized))"

definition from_units :: "(string \<times> u64) list \<Rightarrow> receipt_usage" where
  "from_units us = \<lparr>units = from_units_loop us []\<rparr>"

text \<open>\<open>ReceiptUsage::new\<close>, which is also how a usage is deserialized.\<close>

definition usage_new :: "(string, u64) btree \<Rightarrow> receipt_usage" where
  "usage_new m = from_units m"

definition usage_text :: "u64 \<Rightarrow> u64 \<Rightarrow> receipt_usage" where
  "usage_text in_tokens out_tokens =
     from_units [(USAGE_INPUT_TOKEN, in_tokens), (USAGE_OUTPUT_TOKEN, out_tokens)]"

definition usage_text_with_cached :: "u64 \<Rightarrow> u64 \<Rightarrow> u64 \<Rightarrow> receipt_usage" where
  "usage_text_with_cached in_tokens cached_in_tokens out_tokens =
     from_units [(USAGE_INPUT_TOKEN, in_tokens), (USAGE_CACHED_INPUT_TOKEN, cached_in_tokens),
                 (USAGE_OUTPUT_TOKEN, out_tokens)]"

definition usage_get :: "receipt_usage \<Rightarrow> string \<Rightarrow> u64" where
  "usage_get s unit =
     (case (case canonical_usage_unit unit of None \<Rightarrow> None | Some u \<Rightarrow> bt_get (units s) u) of
        Some n \<Rightarrow> n
      | None \<Rightarrow> (case bt_get (units s) unit of Some n \<Rightarrow> n | None \<Rightarrow> 0))"

definition input_tokens :: "receipt_usage \<Rightarrow> u64" where
  "input_tokens s = usage_get s USAGE_INPUT_TOKEN"

definition cached_input_tokens :: "receipt_usage \<Rightarrow> u64" where
  "cached_input_tokens s = usage_get s USAGE_CACHED_INPUT_TOKEN"

definition prompt_tokens :: "receipt_usage \<Rightarrow> u64" where
  "prompt_tokens s = sat_add (input_tokens s) (cached_input_tokens s)"

definition output_tokens :: "receipt_usage \<Rightarrow> u64" where
  "output_tokens s = usage_get s USAGE_OUTPUT_TOKEN"

fun delta_loop :: "receipt_usage \<Rightarrow> (string \<times> u64) list \<Rightarrow> (string, u64) btree \<Rightarrow> (string, u64) btree" where
  "delta_loop previous [] us = us"
| "delta_loop previous ((unit, count) # rest) us =
     (let delta = sat_sub count (usage_get previous unit)
      in delta_loop previous rest (if delta > 0 then bt_insert unit delta us else us))"

definition saturating_delta :: "receipt_usage \<Rightarrow> receipt_usage \<Rightarrow> receipt_usage" where
  "saturating_delta previous current = \<lparr>units = delta_loop previous (units current) []\<rparr>"

fun add_loop :: "(string \<times> u64) list \<Rightarrow> (string, u64) btree \<Rightarrow> (string, u64) btree" where
  "add_loop [] us = us"
| "add_loop ((unit, count) # rest) us =
     (let nxt = sat_add (case bt_get us unit of Some n \<Rightarrow> n | None \<Rightarrow> 0) count
      in add_loop rest (if nxt > 0 then bt_insert unit nxt us else us))"

definition saturating_add_usage :: "receipt_usage \<Rightarrow> receipt_usage \<Rightarrow> receipt_usage" where
  "saturating_add_usage s increment = \<lparr>units = add_loop (units increment) (units s)\<rparr>"

definition is_monotonic_from :: "receipt_usage \<Rightarrow> receipt_usage \<Rightarrow> bool" where
  "is_monotonic_from s previous =
     list_all (\<lambda>(unit, previous_count). previous_count \<le> usage_get s unit) (units previous)"

section \<open>Visible output metering\<close>

record visible_tool_call =
  tc_id :: string
  tc_name :: string
  tc_arguments :: string

definition VISIBLE_OUTPUT_BYTES_PER_UNIT :: u64 where "VISIBLE_OUTPUT_BYTES_PER_UNIT = 4"

text \<open>\<open>u64::try_from(len).unwrap_or(u64::MAX)\<close>.\<close>

definition u64_of_len :: "nat \<Rightarrow> u64" where
  "u64_of_len n = (if n < 2 ^ 64 then of_nat n else - 1)"

text \<open>
  \<open>tool_json\<close> stands for \<open>serde_json\<close>'s rendering of the tool calls (\<open>None\<close> when it fails).
\<close>

definition metered_output_units ::
    "(visible_tool_call list \<Rightarrow> u8 list option) \<Rightarrow> string \<Rightarrow> string \<Rightarrow> visible_tool_call list \<Rightarrow> u64" where
  "metered_output_units tool_json content hidden_reasoning tool_calls =
     (let text_bytes = u64_of_len (length content);
          hidden_reasoning_bytes = u64_of_len (length hidden_reasoning);
          tool_bytes = (if tool_calls = [] then 0
                        else case tool_json tool_calls of
                               None \<Rightarrow> - 1
                             | Some bs \<Rightarrow> u64_of_len (length bs));
          bytes = sat_add (sat_add text_bytes hidden_reasoning_bytes) tool_bytes
      in if bytes = 0 then 0 else word_div_ceil bytes VISIBLE_OUTPUT_BYTES_PER_UNIT)"

definition visible_output_units ::
    "(visible_tool_call list \<Rightarrow> u8 list option) \<Rightarrow> string \<Rightarrow> visible_tool_call list \<Rightarrow> u64" where
  "visible_output_units tool_json content tool_calls =
     metered_output_units tool_json content '''' tool_calls"

section \<open>The well-formedness invariant\<close>

definition usage_wf :: "receipt_usage \<Rightarrow> bool" where
  "usage_wf s \<longleftrightarrow> bt_wf (units s) \<and> (\<forall>(u, n) \<in> set (units s). canon u = u \<and> n \<noteq> 0)"

lemma canonical_usage_unit_range:
  "canonical_usage_unit u = Some c \<Longrightarrow>
   c \<in> {USAGE_INPUT_TOKEN, USAGE_CACHED_INPUT_TOKEN, USAGE_OUTPUT_TOKEN, USAGE_IMAGE, USAGE_STEP,
        USAGE_INPUT_CHARACTER, USAGE_AUDIO_SECOND}"
  unfolding canonical_usage_unit_def
  by (simp only: insert_iff option.inject simp_thms option.distinct split: if_split_asm)

lemma canonical_usage_unit_units [simp]:
  "canonical_usage_unit USAGE_INPUT_TOKEN = Some USAGE_INPUT_TOKEN"
  "canonical_usage_unit USAGE_CACHED_INPUT_TOKEN = Some USAGE_CACHED_INPUT_TOKEN"
  "canonical_usage_unit USAGE_OUTPUT_TOKEN = Some USAGE_OUTPUT_TOKEN"
  "canonical_usage_unit USAGE_IMAGE = Some USAGE_IMAGE"
  "canonical_usage_unit USAGE_STEP = Some USAGE_STEP"
  "canonical_usage_unit USAGE_INPUT_CHARACTER = Some USAGE_INPUT_CHARACTER"
  "canonical_usage_unit USAGE_AUDIO_SECOND = Some USAGE_AUDIO_SECOND"
  by (simp_all add: canonical_usage_unit_def usage_unit_defs)

lemma canonical_usage_unit_fix: "canonical_usage_unit u = Some c \<Longrightarrow> canonical_usage_unit c = Some c"
  by (drule canonical_usage_unit_range)
     (simp only: insert_iff empty_iff, elim disjE; simp only: canonical_usage_unit_units)

lemma canon_idem [simp]: "canon (canon u) = canon u"
  by (auto simp: canon_def canonical_usage_unit_fix split: option.splits)

lemma canonical_cases: "canonical_usage_unit u = None \<and> canon u = u \<or> canonical_usage_unit u = Some (canon u)"
  by (cases "canonical_usage_unit u") (auto simp: canon_def)

lemma canon_units [simp]:
  "canon USAGE_INPUT_TOKEN = USAGE_INPUT_TOKEN"
  "canon USAGE_CACHED_INPUT_TOKEN = USAGE_CACHED_INPUT_TOKEN"
  "canon USAGE_OUTPUT_TOKEN = USAGE_OUTPUT_TOKEN"
  by (simp_all add: canon_def)

lemma usage_wf_default [simp]: "usage_wf usage_default"
  by (simp add: usage_wf_def usage_default_def)

lemma usage_get_default [simp]: "usage_get usage_default u = 0"
  by (simp add: usage_get_def usage_default_def split: option.splits)

lemma usage_wf_bt [simp]: "usage_wf s \<Longrightarrow> bt_wf (units s)"
  by (simp add: usage_wf_def)

lemma usage_wf_unit: "usage_wf s \<Longrightarrow> bt_get (units s) u = Some n \<Longrightarrow> canon u = u \<and> n \<noteq> 0"
  unfolding usage_wf_def by (drule bt_getD) auto

lemma usage_wfI:
  "bt_wf (units s) \<Longrightarrow> (\<And>u n. bt_get (units s) u = Some n \<Longrightarrow> canon u = u \<and> n \<noteq> 0) \<Longrightarrow> usage_wf s"
  unfolding usage_wf_def using bt_get_Some_iff [of "units s"] by blast

text \<open>On a well-formed usage, \<open>get\<close> is the lookup of the canonical name.\<close>

lemma usage_get_wf:
  assumes "usage_wf s"
  shows "usage_get s u = (case bt_get (units s) (canon u) of Some n \<Rightarrow> n | None \<Rightarrow> 0)"
proof (cases "bt_get (units s) (canon u)")
  case None
  have "bt_get (units s) u = None" if "canon u \<noteq> u"
    using usage_wf_unit [OF assms, of u] that by (cases "bt_get (units s) u") auto
  with None show ?thesis
    using canonical_cases [of u] by (cases "canon u = u") (auto simp: usage_get_def)
next
  case (Some n)
  then show ?thesis using canonical_cases [of u] by (auto simp: usage_get_def)
qed

lemma usage_get_canon: "usage_wf s \<Longrightarrow> usage_get s (canon u) = usage_get s u"
  by (simp add: usage_get_wf)

lemma usage_get_in: "usage_wf s \<Longrightarrow> (u, n) \<in> set (units s) \<Longrightarrow> usage_get s u = n"
  using bt_get_Some_iff [of "units s" u n] usage_wf_unit [of s u n] by (simp add: usage_get_wf)

lemma usage_get_pos_iff:
  "usage_wf s \<Longrightarrow> usage_get s u \<noteq> 0 \<longleftrightarrow> bt_get (units s) (canon u) \<noteq> None"
  using usage_wf_unit [of s "canon u"] by (auto simp: usage_get_wf split: option.splits)

text \<open>Two well-formed usages that read the same are equal.\<close>

lemma usage_ext:
  assumes "usage_wf s" "usage_wf t" "\<And>u. usage_get s u = usage_get t u"
  shows "s = t"
proof -
  have "bt_get (units s) u = bt_get (units t) u" for u
  proof (cases "canon u = u")
    case True
    then show ?thesis
      using assms(3) [of u] usage_wf_unit [OF assms(1), of u] usage_wf_unit [OF assms(2), of u]
      by (auto simp: usage_get_wf assms(1,2) split: option.splits)
  next
    case False
    then show ?thesis
      using usage_wf_unit [OF assms(1), of u] usage_wf_unit [OF assms(2), of u]
      by (cases "bt_get (units s) u"; cases "bt_get (units t) u") auto
  qed
  then have "units s = units t" using assms by (intro bt_ext) auto
  then show ?thesis by (cases s, cases t) simp
qed

lemma is_monotonic_from_iff:
  assumes "usage_wf s" "usage_wf p"
  shows "is_monotonic_from s p \<longleftrightarrow> (\<forall>u. usage_get p u \<le> usage_get s u)"
proof
  assume mono: "is_monotonic_from s p"
  show "\<forall>u. usage_get p u \<le> usage_get s u"
  proof
    fix u
    show "usage_get p u \<le> usage_get s u"
    proof (cases "bt_get (units p) (canon u)")
      case None
      then show ?thesis by (simp add: usage_get_wf [OF assms(2)])
    next
      case (Some n)
      then have "n \<le> usage_get s (canon u)"
        using mono by (auto simp: is_monotonic_from_def list_all_iff dest: bt_getD)
      with Some show ?thesis
        by (simp add: usage_get_wf [OF assms(2)] usage_get_canon [OF assms(1)])
    qed
  qed
next
  assume "\<forall>u. usage_get p u \<le> usage_get s u"
  then show "is_monotonic_from s p"
    using usage_get_in [OF assms(2)] by (auto simp: is_monotonic_from_def list_all_iff)
qed

section \<open>What the constructors and updates do\<close>

abbreviation of_map :: "(string, u64) btree \<Rightarrow> receipt_usage" where
  "of_map m \<equiv> \<lparr>units = m\<rparr>"

lemma is_monotonic_from_refl [simp]: "usage_wf s \<Longrightarrow> is_monotonic_from s s"
  by (simp add: is_monotonic_from_iff)

lemma is_monotonic_from_trans:
  "is_monotonic_from t s \<Longrightarrow> is_monotonic_from s r \<Longrightarrow> usage_wf r \<Longrightarrow> usage_wf s \<Longrightarrow> usage_wf t \<Longrightarrow>
     is_monotonic_from t r"
  by (simp add: is_monotonic_from_iff) (metis order_trans)

lemma is_monotonic_from_default [simp]: "usage_wf s \<Longrightarrow> is_monotonic_from s usage_default"
  by (simp add: is_monotonic_from_iff)

lemma usage_wf_insert:
  assumes "usage_wf (of_map m)" "canon u = u" "n \<noteq> 0"
  shows "usage_wf (of_map (bt_insert u n m))"
proof -
  have m: "bt_wf m" using assms(1) usage_wf_bt by fastforce
  have "canon v = v \<and> k \<noteq> 0" if "(v, k) \<in> set (bt_insert u n m)" for v k
  proof -
    have "bt_get (bt_insert u n m) v = Some k" using that m by (simp add: bt_get_Some_iff)
    then show ?thesis using assms usage_wf_unit [OF assms(1)] by (auto simp: btree_simps split: if_splits)
  qed
  with m show ?thesis by (auto simp: usage_wf_def)
qed

lemma usage_get_insert:
  assumes "usage_wf (of_map m)" "canon u = u" "n \<noteq> 0"
  shows "usage_get (of_map (bt_insert u n m)) v = (if canon v = u then n else usage_get (of_map m) v)"
  using assms usage_wf_insert [OF assms] by (simp add: usage_get_wf btree_simps)

lemma sat_add_nonzero: "b \<noteq> 0 \<Longrightarrow> sat_add a b \<noteq> (0 :: 'a::len word)"
  using unat_sat_add [of a b] unat_le_max [of b] by (auto simp: unat_eq_zero min_def split: if_splits)

lemma from_units_loop_spec:
  assumes "usage_wf (of_map m)"
  shows "usage_wf (of_map (from_units_loop us m)) \<and>
         unat (usage_get (of_map (from_units_loop us m)) u) =
           min (unat (usage_get (of_map m) u) + (\<Sum>(v, n) \<leftarrow> us. if canon v = canon u then unat n else 0))
               (2 ^ 64 - 1)"
  using assms
proof (induction us arbitrary: m)
  case Nil
  then show ?case using unat_le_max [of "usage_get (of_map m) u"] by simp
next
  case (Cons vn us)
  obtain v n where vn: "vn = (v, n)" by (cases vn)
  show ?case
  proof (cases "n = 0")
    case True
    with Cons.IH [OF Cons.prems] show ?thesis by (simp add: vn)
  next
    case False
    define k where "k = sat_add (usage_get (of_map m) v) n"
    have k: "k \<noteq> 0" using False by (simp add: k_def sat_add_nonzero)
    have step: "from_units_loop (vn # us) m = from_units_loop us (bt_insert (canon v) k m)"
      using False Cons.prems by (simp add: vn k_def usage_get_wf Let_def)
    have get: "usage_get (of_map (bt_insert (canon v) k m)) u =
        (if canon u = canon v then k else usage_get (of_map m) u)"
      by (rule usage_get_insert) (use Cons.prems k in simp_all)
    have same: "usage_get (of_map m) u = usage_get (of_map m) v" if "canon u = canon v"
      using that Cons.prems by (simp add: usage_get_wf)
    have "usage_wf (of_map (bt_insert (canon v) k m))"
      by (rule usage_wf_insert) (use Cons.prems k in simp_all)
    note IH = Cons.IH [OF this, unfolded get]
    show ?thesis unfolding step
    proof (rule conjI [OF conjunct1 [OF IH]], cases "canon u = canon v")
      case True
      then show "unat (usage_get (of_map (from_units_loop us (bt_insert (canon v) k m))) u) =
          min (unat (usage_get (of_map m) u) +
               (\<Sum>(v, n) \<leftarrow> vn # us. if canon v = canon u then unat n else 0)) (2 ^ 64 - 1)"
        using conjunct2 [OF IH] same
        by (simp add: vn k_def unat_sat_add min_min_add add.assoc)
    next
      case False
      then show "unat (usage_get (of_map (from_units_loop us (bt_insert (canon v) k m))) u) =
          min (unat (usage_get (of_map m) u) +
               (\<Sum>(v, n) \<leftarrow> vn # us. if canon v = canon u then unat n else 0)) (2 ^ 64 - 1)"
        using conjunct2 [OF IH] by (simp add: vn)
    qed
  qed
qed

lemma usage_wf_from_units [simp]: "usage_wf (from_units us)"
  using from_units_loop_spec [of "[]" us] usage_wf_default
  by (simp add: from_units_def usage_default_def)

lemma unat_get_from_units:
  "unat (usage_get (from_units us) u) =
     min (\<Sum>(v, n) \<leftarrow> us. if canon v = canon u then unat n else 0) (2 ^ 64 - 1)"
proof -
  have "usage_wf (of_map [])" by (simp add: usage_wf_def)
  from from_units_loop_spec [OF this, of us u] show ?thesis
    by (simp add: from_units_def usage_get_def split: option.splits)
qed

lemma usage_wf_text [simp]: "usage_wf (usage_text i out)"
  by (simp add: usage_text_def)

lemma canon_distinct_units [simp]:
  "USAGE_INPUT_TOKEN \<noteq> USAGE_OUTPUT_TOKEN" "USAGE_OUTPUT_TOKEN \<noteq> USAGE_INPUT_TOKEN"
  by (simp_all add: usage_unit_defs)

lemma usage_get_text:
  "usage_get (usage_text i out) u =
     (if canon u = USAGE_INPUT_TOKEN then i else if canon u = USAGE_OUTPUT_TOKEN then out else 0)"
  unfolding word_unat_eq_iff usage_text_def unat_get_from_units
  using unat_le_max [of i] unat_le_max [of out] by simp

lemma usage_text_tokens [simp]:
  "input_tokens (usage_text i out) = i" "output_tokens (usage_text i out) = out"
  by (simp_all add: input_tokens_def output_tokens_def usage_get_text)

lemma is_monotonic_from_text [simp]: "m \<le> n \<Longrightarrow> is_monotonic_from (usage_text i n) (usage_text i m)"
  by (simp add: is_monotonic_from_iff usage_get_text)

lemma sat_sub_0 [simp]: "sat_sub 0 a = 0" "sat_sub a 0 = a"
  by (simp_all add: sat_sub_def)

lemma delta_loop_get:
  assumes "distinct (map fst rest)"
  shows "bt_get (delta_loop p rest us) k =
           (case bt_get rest k of
              None \<Rightarrow> bt_get us k
            | Some n \<Rightarrow> (if sat_sub n (usage_get p k) > 0 then Some (sat_sub n (usage_get p k))
                        else bt_get us k))"
  using assms
proof (induction rest arbitrary: us)
  case (Cons vn rest)
  obtain v n where vn: "vn = (v, n)" by (cases vn)
  have "bt_get rest v = None" using Cons.prems by (simp add: vn bt_get_None_iff)
  with Cons show ?case by (auto simp: vn Let_def btree_simps split: option.splits)
qed simp

lemma bt_wf_delta_loop: "bt_wf us \<Longrightarrow> bt_wf (delta_loop p rest us)"
  by (induction p rest us rule: delta_loop.induct) (simp_all add: Let_def)

lemma saturating_delta_get:
  assumes "usage_wf p" "usage_wf c"
  shows "usage_wf (saturating_delta p c)"
    and "usage_get (saturating_delta p c) u = sat_sub (usage_get c u) (usage_get p u)"
proof -
  let ?d = "saturating_delta p c"
  have bt: "bt_get (units ?d) k =
      (case bt_get (units c) k of None \<Rightarrow> None
       | Some n \<Rightarrow> (if sat_sub n (usage_get p k) > 0 then Some (sat_sub n (usage_get p k)) else None))" for k
    using delta_loop_get [OF bt_wf_distinct, of "units c" p "[]" k] assms(2)
    by (auto simp: saturating_delta_def split: option.splits)
  have wf: "bt_wf (units ?d)" by (simp add: saturating_delta_def bt_wf_delta_loop)
  show uw: "usage_wf ?d"
  proof (rule usage_wfI [OF wf])
    fix u n assume "bt_get (units ?d) u = Some n"
    then show "canon u = u \<and> n \<noteq> 0"
      using usage_wf_unit [OF assms(2), of u] unfolding bt
      by (auto simp: word_neq_0_conv simp flip: word_neq_0_conv split: option.splits if_splits)
  qed
  show "usage_get ?d u = sat_sub (usage_get c u) (usage_get p u)"
    using bt [of "canon u"]
    by (cases "bt_get (units c) (canon u)")
       (simp_all add: usage_get_wf [OF uw] usage_get_wf [OF assms(2)] usage_get_canon [OF assms(1)]
          word_greater_zero_iff sat_sub_0)
qed

lemma add_loop_get:
  assumes "distinct (map fst rest)"
  shows "bt_get (add_loop rest us) k =
           (case bt_get rest k of
              None \<Rightarrow> bt_get us k
            | Some n \<Rightarrow> (let nxt = sat_add (case bt_get us k of Some m \<Rightarrow> m | None \<Rightarrow> 0) n
                         in if nxt > 0 then Some nxt else bt_get us k))"
  using assms
proof (induction rest arbitrary: us)
  case (Cons vn rest)
  obtain v n where vn: "vn = (v, n)" by (cases vn)
  have "bt_get rest v = None" using Cons.prems by (simp add: vn bt_get_None_iff)
  with Cons show ?case by (auto simp: vn Let_def btree_simps split: option.splits)
qed simp

lemma bt_wf_add_loop: "bt_wf us \<Longrightarrow> bt_wf (add_loop rest us)"
  by (induction rest us rule: add_loop.induct) (simp_all add: Let_def)

lemma saturating_add_usage_get:
  assumes "usage_wf s" "usage_wf i"
  shows "usage_wf (saturating_add_usage s i)"
    and "usage_get (saturating_add_usage s i) u = sat_add (usage_get s u) (usage_get i u)"
proof -
  let ?a = "saturating_add_usage s i"
  have nz: "sat_add m n > 0" if "n \<noteq> 0" for m n :: u64
    using sat_add_nonzero [OF that] by (simp add: word_neq_0_conv)
  have bt: "bt_get (units ?a) k =
      (case bt_get (units i) k of None \<Rightarrow> bt_get (units s) k
       | Some n \<Rightarrow> Some (sat_add (case bt_get (units s) k of Some m \<Rightarrow> m | None \<Rightarrow> 0) n))" for k
    using add_loop_get [OF bt_wf_distinct, of "units i" "units s" k] assms(2)
      usage_wf_unit [OF assms(2), of k] nz
    by (auto simp: saturating_add_usage_def Let_def split: option.splits)
  have wf: "bt_wf (units ?a)" using assms by (simp add: saturating_add_usage_def bt_wf_add_loop)
  show uw: "usage_wf ?a"
  proof (rule usage_wfI [OF wf])
    fix u n assume "bt_get (units ?a) u = Some n"
    then show "canon u = u \<and> n \<noteq> 0"
      using usage_wf_unit [OF assms(1), of u] usage_wf_unit [OF assms(2), of u] unfolding bt
      by (auto simp: sat_add_nonzero split: option.splits)
  qed
  have "sat_add m 0 = m" for m :: u64
    using unat_sat_add [of m 0] unat_le_max [of m] by (simp add: word_unat_eq_iff)
  then show "usage_get ?a u = sat_add (usage_get s u) (usage_get i u)"
    using bt [of "canon u"]
    by (cases "bt_get (units i) (canon u)")
       (simp_all add: usage_get_wf [OF uw] usage_get_wf [OF assms(1)] usage_get_wf [OF assms(2)])
qed

lemmas usage_ops_wf [intro, simp] = saturating_delta_get(1) saturating_add_usage_get(1)

section \<open>Properties\<close>

text \<open>
  Building a usage from a list of (unit, count) pairs adds up, for every unit, the counts given
  under any alias of it, saturating at the largest \<open>u64\<close>; the result stores canonical names with
  non-zero counts only.
\<close>

theorem from_units_counts:
  "usage_wf (from_units us) \<and>
   unat (usage_get (from_units us) u) =
     min (\<Sum>(v, n) \<leftarrow> us. if canon v = canon u then unat n else 0) (2 ^ 64 - 1)"
  using unat_get_from_units by simp

text \<open>
  Cumulative usages are compared by a partial order: \<open>is_monotonic_from\<close> is reflexive,
  transitive and antisymmetric on well-formed usages.
\<close>

theorem is_monotonic_from_partial_order:
  assumes "usage_wf a" "usage_wf b" "usage_wf c"
  shows "is_monotonic_from a a \<and>
         (is_monotonic_from b a \<and> is_monotonic_from c b \<longrightarrow> is_monotonic_from c a) \<and>
         (is_monotonic_from a b \<and> is_monotonic_from b a \<longrightarrow> a = b)"
proof (intro conjI impI)
  show "is_monotonic_from a a" using assms(1) by (simp add: is_monotonic_from_iff)
  assume "is_monotonic_from b a \<and> is_monotonic_from c b"
  then have "usage_get a u \<le> usage_get b u" "usage_get b u \<le> usage_get c u" for u
    using assms by (simp_all add: is_monotonic_from_iff)
  then have "usage_get a u \<le> usage_get c u" for u by (rule order_trans)
  then show "is_monotonic_from c a" using assms by (simp add: is_monotonic_from_iff)
next
  assume "is_monotonic_from a b \<and> is_monotonic_from b a"
  then have "usage_get a u \<le> usage_get b u" "usage_get b u \<le> usage_get a u" for u
    using assms by (simp_all add: is_monotonic_from_iff)
  then have "usage_get a u = usage_get b u" for u by (rule order_antisym)
  with assms(1,2) show "a = b" by (rule usage_ext)
qed

theorem is_monotonic_from_partial_order_witness:
  "is_monotonic_from (usage_text 3 7) (usage_text 3 5) \<and>
   is_monotonic_from (usage_text 3 7) (usage_text 1 2)"
proof -
  have m: "is_monotonic_from (usage_text 3 7) (usage_text 3 5)"
    "is_monotonic_from (usage_text 3 5) (usage_text 1 2)"
    by (simp_all add: is_monotonic_from_iff usage_get_text)
  show ?thesis
    using m is_monotonic_from_partial_order [of "usage_text 1 2" "usage_text 3 5" "usage_text 3 7"]
    by simp
qed

lemma saturating_add_delta:
  assumes "usage_wf p" "usage_wf c" "is_monotonic_from c p"
  shows "saturating_add_usage p (saturating_delta p c) = c"
proof (rule usage_ext)
  fix u
  have "usage_get p u \<le> usage_get c u" using assms by (simp add: is_monotonic_from_iff)
  then show "usage_get (saturating_add_usage p (saturating_delta p c)) u = usage_get c u"
    using assms unat_le_max [of "usage_get c u"]
    by (simp add: saturating_add_usage_get saturating_delta_get word_unat_eq_iff unat_simps word_le_nat_alt)
qed (use assms in auto)

lemma sat_add_upper: "a \<le> sat_add a (b :: 'a::len word)"
  unfolding word_le_nat_alt unat_sat_add using unat_le_max [of a] by simp

text \<open>
  The delta between two cumulative usages added back to the earlier one gives the later one
  exactly when the later one is monotonic from the earlier one; a usage that regressed cannot be
  rebuilt from its delta.
\<close>

lemma delta_add_roundtrip:
  assumes "usage_wf p" "usage_wf c"
  shows "saturating_add_usage p (saturating_delta p c) = c \<longleftrightarrow> is_monotonic_from c p"
proof
  assume "saturating_add_usage p (saturating_delta p c) = c"
  then have "usage_get p u \<le> usage_get c u" for u
    using assms sat_add_upper by (metis saturating_add_usage_get(2) saturating_delta_get(1))
  then show "is_monotonic_from c p" using assms by (simp add: is_monotonic_from_iff)
qed (rule saturating_add_delta [OF assms])

lemma delta_add_roundtrip_witness:
  "saturating_add_usage (usage_text 3 5) (saturating_delta (usage_text 3 5) (usage_text 4 9)) =
   usage_text 4 9"
  by (subst delta_add_roundtrip) (simp_all add: is_monotonic_from_iff usage_get_text)

text \<open>
  A well-formed usage is a fixed point of deserialization: reading back the serialized map gives
  the same usage.
\<close>

lemma usage_reserialize:
  assumes "usage_wf s"
  shows "usage_new (units s) = s"
proof (rule usage_ext)
  fix u
  have "(\<Sum>(v, n) \<leftarrow> m. if canon v = canon u then unat n else 0) =
        (case bt_get m (canon u) of Some n \<Rightarrow> unat n | None \<Rightarrow> 0)"
    if "distinct (map fst m)" "\<forall>(v, n) \<in> set m. canon v = v" for m :: "(string, u64) btree"
    using that
  proof (induction m)
    case (Cons vn m)
    then have "bt_get m (fst vn) = None" by (simp add: bt_get_None_iff)
    with Cons show ?case by (cases vn) auto
  qed simp
  then have "unat (usage_get (usage_new (units s)) u) =
      min (case bt_get (units s) (canon u) of Some n \<Rightarrow> unat n | None \<Rightarrow> 0) (2 ^ 64 - 1)"
    using assms by (simp add: usage_new_def unat_get_from_units bt_wf_distinct usage_wf_def split_def)
  moreover have "unat (usage_get s u) =
      (case bt_get (units s) (canon u) of Some n \<Rightarrow> unat n | None \<Rightarrow> 0)"
    by (simp add: usage_get_wf [OF assms] split: option.splits)
  ultimately show "usage_get (usage_new (units s)) u = usage_get s u"
    using unat_le_max [of "usage_get s u"] by (simp add: word_unat_eq_iff)
qed (use assms in \<open>auto simp: usage_new_def\<close>)

lemma usage_reserialize_witness: "usage_new (units (usage_text 3 5)) = usage_text 3 5"
  by (rule usage_reserialize) simp

end
