(* ===== verification/Rate_Pricing.thy ===== *)
theory Rate_Pricing
  imports Receipt_Usage "HOL-Library.Product_Lexorder" "HOL-Library.Multiset"
begin

text \<open>
  Prices in atto-USD (\<^verbatim>\<open>src/crates/mayhem-gateway/src/pricing.rs\<close> and the rate map of
  \<^verbatim>\<open>src/crates/mayhem-proto/src/lib.rs\<close>): the charge of a usage under a rate map, the cumulative
  charge of a logical request over several attempts, the cancellation quantum, and the price basis
  the routing gate compares. All amounts are \<open>u128\<close> words and every sum and product saturates as in
  the code. \<open>unat_usage_units_au_uniform\<close> and \<open>unat_usage_units_au_mixed\<close> read the charge as exact
  natural-number arithmetic; monotonicity, order independence and bounds follow from them.
\<close>

section \<open>Rate maps\<close>

type_synonym money_au = u128

record rate_map_entry =
  rate_unit :: string
  per_unit_au :: money_au
  granularity :: u64

definition CACHED_INPUT_TOKEN_RATE_BPS :: u64 where "CACHED_INPUT_TOKEN_RATE_BPS = 2500"

definition ceil_div_u128 :: "u128 \<Rightarrow> u128 \<Rightarrow> u128" where
  "ceil_div_u128 value divisor = (if value = 0 \<or> divisor = 0 then 0 else word_div_ceil value divisor)"

definition discounted_cached_input_rate_au :: "money_au \<Rightarrow> money_au" where
  "discounted_cached_input_rate_au in_per_1k_au =
     (if in_per_1k_au = 0 then 0
      else max (ceil_div_u128 (sat_mul in_per_1k_au (ucast CACHED_INPUT_TOKEN_RATE_BPS)) 10000) 1)"

definition text_generation_rate_map :: "money_au \<Rightarrow> money_au \<Rightarrow> rate_map_entry list" where
  "text_generation_rate_map in_per_1k_au out_per_1k_au =
     [\<lparr>rate_unit = USAGE_INPUT_TOKEN, per_unit_au = in_per_1k_au, granularity = 1000\<rparr>,
      \<lparr>rate_unit = USAGE_CACHED_INPUT_TOKEN,
       per_unit_au = discounted_cached_input_rate_au in_per_1k_au, granularity = 1000\<rparr>,
      \<lparr>rate_unit = USAGE_OUTPUT_TOKEN, per_unit_au = out_per_1k_au, granularity = 1000\<rparr>]"

definition normalize_rate_map :: "rate_map_entry list \<Rightarrow> rate_map_entry list" where
  "normalize_rate_map rate_map = sort_key rate_unit rate_map"

definition rate_for_unit :: "rate_map_entry list \<Rightarrow> string \<Rightarrow> rate_map_entry option" where
  "rate_for_unit rate_map unit = find (\<lambda>entry. rate_unit entry = unit) rate_map"

definition text_rate_per_1k_au :: "rate_map_entry list \<Rightarrow> string \<Rightarrow> money_au" where
  "text_rate_per_1k_au rate_map unit =
     (case rate_for_unit rate_map unit of
        None \<Rightarrow> 0
      | Some entry \<Rightarrow>
          (if granularity entry = 0 then 0
           else ceil_div_u128 (sat_mul (per_unit_au entry) 1000) (ucast (granularity entry))))"

definition rate_map_cost_basis_per_1k :: "rate_map_entry list \<Rightarrow> money_au" where
  "rate_map_cost_basis_per_1k rate_map =
     fold (\<lambda>entry acc.
             if granularity entry = 0 then acc
             else sat_add acc
               (ceil_div_u128 (sat_mul (per_unit_au entry) 1000) (ucast (granularity entry))))
       rate_map 0"

definition rate_gate_basis_au :: "rate_map_entry list \<Rightarrow> money_au \<Rightarrow> money_au \<Rightarrow> money_au" where
  "rate_gate_basis_au rate_map per_req_au min_session_au =
     (let rate_basis = rate_map_cost_basis_per_1k rate_map
      in if rate_basis = 0 then max per_req_au min_session_au else rate_basis)"

section \<open>The charge of a usage\<close>

definition priced_counts ::
    "rate_map_entry list \<Rightarrow> (string \<times> u64) list \<Rightarrow> (u128 \<times> u128 \<times> u64) list" where
  "priced_counts rate_map counts =
     List.map_filter (\<lambda>(unit, count).
       case rate_for_unit rate_map unit of
         None \<Rightarrow> None
       | Some rate \<Rightarrow>
           (if count = 0 \<or> per_unit_au rate = 0 \<or> granularity rate = 0 then None
            else Some (ucast count, per_unit_au rate, granularity rate))) counts"

definition usage_units_au :: "rate_map_entry list \<Rightarrow> (string \<times> u64) list \<Rightarrow> money_au" where
  "usage_units_au rate_map counts =
     (let priced = priced_counts rate_map counts
      in if priced = [] then 0
         else
           let priced = sort_key (\<lambda>(_, _, granularity). granularity) priced;
               first_granularity = snd (snd (hd priced))
           in if list_all (\<lambda>entry. snd (snd entry) = first_granularity) priced
              then ceil_div_u128
                     (fold (\<lambda>(count, per_unit, _) acc. sat_add acc (sat_mul count per_unit)) priced 0)
                     (ucast first_granularity)
              else fold (\<lambda>(count, per_unit, granularity) acc.
                     sat_add acc (ceil_div_u128 (sat_mul count per_unit) (ucast granularity))) priced 0)"

definition usage_map_au :: "rate_map_entry list \<Rightarrow> receipt_usage \<Rightarrow> money_au" where
  "usage_map_au rate_map usage = usage_units_au rate_map (units usage)"

definition text_usage_au :: "rate_map_entry list \<Rightarrow> receipt_usage \<Rightarrow> money_au" where
  "text_usage_au rate_map usage = usage_map_au rate_map usage"

definition text_units_au :: "rate_map_entry list \<Rightarrow> u64 \<Rightarrow> u64 \<Rightarrow> money_au" where
  "text_units_au rate_map in_tokens out_tokens =
     usage_units_au rate_map [(USAGE_INPUT_TOKEN, in_tokens), (USAGE_OUTPUT_TOKEN, out_tokens)]"

definition priced_usage_au ::
    "rate_map_entry list \<Rightarrow> money_au \<Rightarrow> money_au \<Rightarrow> receipt_usage \<Rightarrow> money_au" where
  "priced_usage_au rate_map per_req_au min_session_au usage =
     max (sat_add (usage_map_au rate_map usage) per_req_au) min_session_au"

definition logical_cumulative_priced_usage_au ::
    "rate_map_entry list \<Rightarrow> money_au \<Rightarrow> money_au \<Rightarrow> receipt_usage \<Rightarrow> money_au \<Rightarrow> receipt_usage
     \<Rightarrow> money_au option" where
  "logical_cumulative_priced_usage_au rate_map per_req_au min_session_au prior_usage prior_au_owed_cum
     current_usage =
     (if \<not> is_monotonic_from current_usage prior_usage then None
      else if prior_au_owed_cum = 0 \<and> prior_usage \<noteq> usage_default then None
      else
        let increment = saturating_delta prior_usage current_usage;
            increment_au =
              (if prior_au_owed_cum = 0
               then priced_usage_au rate_map per_req_au min_session_au increment
               else usage_map_au rate_map increment)
        in checked_add prior_au_owed_cum increment_au)"

section \<open>The cancellation quantum\<close>

definition cancellation_unit_rank :: "string \<Rightarrow> u8" where
  "cancellation_unit_rank unit =
     (if unit \<in> {USAGE_STEP, USAGE_AUDIO_SECOND, USAGE_FRAME, USAGE_MEGAPIXEL_STEP,
                 USAGE_PIXEL_FRAME, USAGE_COMPUTE_SECOND} then 0
      else if unit \<in> {USAGE_INPUT_TOKEN, USAGE_VIDEO_SECOND, USAGE_MEGAPIXEL} then 1
      else if unit = USAGE_INPUT_CHARACTER then 2
      else if unit \<in> {USAGE_OUTPUT_TOKEN, USAGE_IMAGE} then 3
      else if unit = USAGE_CACHED_INPUT_TOKEN then 4
      else 5)"

definition cancellation_key :: "rate_map_entry \<Rightarrow> u8 \<times> u128 \<times> string" where
  "cancellation_key rate =
     (cancellation_unit_rank (rate_unit rate),
      ceil_div_u128 (per_unit_au rate) (ucast (granularity rate)),
      rate_unit rate)"

definition cancellation_settlement_usage ::
    "rate_map_entry list \<Rightarrow> money_au \<Rightarrow> money_au \<Rightarrow> receipt_usage \<Rightarrow> receipt_usage option" where
  "cancellation_settlement_usage rate_map per_req_au min_session_au metered_usage =
     (if priced_usage_au rate_map per_req_au min_session_au metered_usage > 0
      then Some metered_usage
      else
        case min_by_key cancellation_key
               (filter (\<lambda>rate. per_unit_au rate > 0 \<and> granularity rate > 0) rate_map) of
          None \<Rightarrow> None
        | Some rate \<Rightarrow>
            (let usage = from_units [(rate_unit rate, 1)]
             in if priced_usage_au rate_map per_req_au min_session_au usage > 0 then Some usage
                else None))"

section \<open>The charge as exact arithmetic\<close>

text \<open>
  \<open>billable\<close>, \<open>unit_cost\<close>, \<open>unit_gran\<close> and \<open>unit_ceil\<close> read one (unit, count) pair on natural
  numbers: whether it contributes, its saturated product, its granularity and its own rounded charge.
\<close>

abbreviation au_max :: nat where
  "au_max \<equiv> 2 ^ 128 - 1"

definition billable :: "rate_map_entry list \<Rightarrow> string \<times> u64 \<Rightarrow> bool" where
  "billable rm = (\<lambda>(u, n). case rate_for_unit rm u of None \<Rightarrow> False
     | Some r \<Rightarrow> n \<noteq> 0 \<and> per_unit_au r \<noteq> 0 \<and> granularity r \<noteq> 0)"

definition unit_gran :: "rate_map_entry list \<Rightarrow> string \<Rightarrow> nat" where
  "unit_gran rm u = (case rate_for_unit rm u of None \<Rightarrow> 0 | Some r \<Rightarrow> unat (granularity r))"

definition unit_cost :: "rate_map_entry list \<Rightarrow> string \<times> u64 \<Rightarrow> nat" where
  "unit_cost rm = (\<lambda>(u, n). case rate_for_unit rm u of None \<Rightarrow> 0
     | Some r \<Rightarrow> if granularity r = 0 then 0 else min (unat n * unat (per_unit_au r)) au_max)"

definition unit_ceil :: "rate_map_entry list \<Rightarrow> string \<times> u64 \<Rightarrow> nat" where
  "unit_ceil rm x = nat_div_ceil (unit_cost rm x) (unit_gran rm (fst x))"

definition uniform_gran :: "rate_map_entry list \<Rightarrow> (string \<times> u64) list \<Rightarrow> nat \<Rightarrow> bool" where
  "uniform_gran rm counts g \<longleftrightarrow> (\<forall>x \<in> set counts. billable rm x \<longrightarrow> unit_gran rm (fst x) = g)"

lemma unat_ceil_div_u128 [unat_simps]:
  "unat (ceil_div_u128 a b) = (if b = 0 then 0 else nat_div_ceil (unat a) (unat b))"
  by (auto simp: ceil_div_u128_def unat_word_div_ceil)

lemma unat_fold_sat_add:
  "unat (fold (\<lambda>x acc. sat_add acc (f x)) xs (a :: 'a::len word)) =
     min (unat a + (\<Sum>x \<leftarrow> xs. unat (f x))) (2 ^ LENGTH('a) - 1)"
proof (induction xs arbitrary: a)
  case Nil
  then show ?case using unat_le_max [of a] by simp
next
  case (Cons x xs)
  then show ?case by (simp only: fold_Cons o_apply unat_sat_add min_min_add) (simp add: add.assoc)
qed

lemma priced_counts_Nil [simp]: "priced_counts rm [] = []"
  by (simp add: priced_counts_def List.map_filter_def)

lemma priced_counts_Cons:
  "priced_counts rm (x # xs) =
     (if billable rm x
      then (ucast (snd x), per_unit_au (the (rate_for_unit rm (fst x))),
            granularity (the (rate_for_unit rm (fst x)))) # priced_counts rm xs
      else priced_counts rm xs)"
  by (cases x) (auto simp: priced_counts_def List.map_filter_def billable_def split: option.splits)

lemma priced_counts_gran:
  "(\<lambda>e. unat (snd (snd e))) ` set (priced_counts rm counts) =
     (\<lambda>x. unit_gran rm (fst x)) ` {x \<in> set counts. billable rm x}"
proof (induction counts)
  case (Cons x xs)
  have "unit_gran rm (fst x) = unat (granularity (the (rate_for_unit rm (fst x))))" if "billable rm x"
    using that by (cases x) (auto simp: billable_def unit_gran_def split: option.splits)
  moreover have "{y \<in> set (x # xs). billable rm y} =
      (if billable rm x then insert x {y \<in> set xs. billable rm y} else {y \<in> set xs. billable rm y})"
    by auto
  ultimately show ?case using Cons by (simp add: priced_counts_Cons)
qed simp

lemma not_billable_cost: "\<not> billable rm x \<Longrightarrow> unit_cost rm x = 0"
  by (cases x) (auto simp: billable_def unit_cost_def split: option.splits)

lemma priced_counts_cost:
  "(\<Sum>(c, r, g) \<leftarrow> priced_counts rm counts. unat (sat_mul c r)) = (\<Sum>x \<leftarrow> counts. unit_cost rm x)"
proof (induction counts)
  case (Cons x xs)
  have "unat (sat_mul (ucast (snd x)) (per_unit_au (the (rate_for_unit rm (fst x))))) = unit_cost rm x"
    if "billable rm x"
    using that by (cases x) (auto simp: billable_def unit_cost_def unat_sat_mul split: option.splits)
  with Cons show ?case by (auto simp: priced_counts_Cons not_billable_cost)
qed simp

lemma priced_counts_ceil:
  "(\<Sum>(c, r, g) \<leftarrow> priced_counts rm counts. unat (ceil_div_u128 (sat_mul c r) (ucast g))) =
     (\<Sum>x \<leftarrow> counts. unit_ceil rm x)"
proof (induction counts)
  case (Cons x xs)
  have "unat (ceil_div_u128 (sat_mul (ucast (snd x)) (per_unit_au (the (rate_for_unit rm (fst x)))))
      (ucast (granularity (the (rate_for_unit rm (fst x)))))) = unit_ceil rm x" if "billable rm x"
    using that
    by (cases x) (auto simp: billable_def unit_cost_def unit_gran_def unit_ceil_def unat_simps
        unat_eq_zero [symmetric] simp del: unat_eq_0 split: option.splits)
  with Cons show ?case by (auto simp: priced_counts_Cons not_billable_cost unit_ceil_def)
qed simp

lemma sum_list_mset: "mset xs = mset ys \<Longrightarrow> (\<Sum>x \<leftarrow> xs. f x) = (\<Sum>y \<leftarrow> ys. (f y :: nat))"
  by (metis mset_map sum_mset_sum_list)

lemma fold_split3: "fold (\<lambda>(c, r, g) acc. h acc c r g) xs a = fold (\<lambda>x acc. h acc (fst x) (fst (snd x)) (snd (snd x))) xs a"
  by (simp add: split_def)

lemma unat_usage_units_au_uniform:
  assumes "uniform_gran rm counts g"
  shows "unat (usage_units_au rm counts) = nat_div_ceil (min (\<Sum>x \<leftarrow> counts. unit_cost rm x) au_max) g"
proof -
  define ps where "ps = priced_counts rm counts"
  define qs where "qs = sort_key (\<lambda>(_, _, g). g) ps"
  have gr: "\<forall>e \<in> set ps. unat (snd (snd e)) = g"
    using assms priced_counts_gran [of rm counts] by (auto simp: ps_def uniform_gran_def)
  show ?thesis
  proof (cases "ps = []")
    case True
    then have "\<forall>x \<in> set counts. \<not> billable rm x"
      using priced_counts_gran [of rm counts] by (auto simp: ps_def)
    then have cost: "(\<Sum>x \<leftarrow> counts. unit_cost rm x) = 0"
      by (auto simp: sum_list_eq_0_iff not_billable_cost)
    have "usage_units_au rm counts = 0" using True by (simp add: usage_units_au_def ps_def)
    then show ?thesis unfolding cost by simp
  next
    case False
    have qs: "set qs = set ps" "qs \<noteq> []" "mset qs = mset ps"
      using False by (auto simp: qs_def) (metis mset_sort mset_zero_iff)
    have hd: "unat (snd (snd (hd qs))) = g" using gr qs(1) hd_in_set [OF qs(2)] by blast
    have nz: "snd (snd e) \<noteq> 0" if "e \<in> set ps" for e
      using that by (auto simp: ps_def priced_counts_def List.map_filter_def split: option.splits if_splits)
    have all: "list_all (\<lambda>e. snd (snd e) = snd (snd (hd qs))) qs"
      using gr hd qs by (auto simp: list_all_iff word_unat_eq_iff)
    have "unat (fold (\<lambda>(c, r, _) acc. sat_add acc (sat_mul c r)) qs 0) =
        min (\<Sum>(c, r, g) \<leftarrow> ps. unat (sat_mul c r)) au_max"
      using unat_fold_sat_add [of "\<lambda>(c, r, g). sat_mul c r" qs 0] sum_list_mset [OF qs(3)]
      by (simp add: split_def)
    moreover have "ucast (snd (snd (hd qs))) \<noteq> (0 :: u128)"
      using nz [of "hd qs"] qs(1) hd_in_set [OF qs(2)]
      by (simp add: unat_eq_zero [symmetric] del: unat_eq_0)
    ultimately show ?thesis
      using False all hd priced_counts_cost [of rm counts]
      by (simp add: usage_units_au_def Let_def flip: ps_def qs_def)
         (simp add: unat_ceil_div_u128 priced_counts_cost ps_def)
  qed
qed

lemma unat_usage_units_au_mixed:
  assumes "\<And>g. \<not> uniform_gran rm counts g"
  shows "unat (usage_units_au rm counts) = min (\<Sum>x \<leftarrow> counts. unit_ceil rm x) au_max"
proof -
  define ps where "ps = priced_counts rm counts"
  define qs where "qs = sort_key (\<lambda>(_, _, g). g) ps"
  have ps: "ps \<noteq> []"
    using assms [of 0] priced_counts_gran [of rm counts] by (auto simp: ps_def uniform_gran_def)
  then have qs: "set qs = set ps" "qs \<noteq> []" "mset qs = mset ps"
    by (auto simp: qs_def) (metis mset_sort mset_zero_iff)
  have "\<not> list_all (\<lambda>e. snd (snd e) = snd (snd (hd qs))) qs"
  proof
    assume "list_all (\<lambda>e. snd (snd e) = snd (snd (hd qs))) qs"
    then have "\<forall>e \<in> set ps. unat (snd (snd e)) = unat (snd (snd (hd qs)))"
      by (auto simp: list_all_iff qs)
    then have "uniform_gran rm counts (unat (snd (snd (hd qs))))"
      using priced_counts_gran [of rm counts] by (auto simp: ps_def uniform_gran_def)
    with assms show False by blast
  qed
  moreover have "unat (fold (\<lambda>(c, r, g) acc. sat_add acc (ceil_div_u128 (sat_mul c r) (ucast g))) qs 0) =
      min (\<Sum>(c, r, g) \<leftarrow> ps. unat (ceil_div_u128 (sat_mul c r) (ucast g))) au_max"
    using unat_fold_sat_add [of "\<lambda>(c, r, g). ceil_div_u128 (sat_mul c r) (ucast g)" qs 0]
      sum_list_mset [OF qs(3)] by (simp add: split_def)
  ultimately show ?thesis
    using ps by (simp add: usage_units_au_def Let_def priced_counts_ceil flip: ps_def qs_def)
      (simp add: ps_def priced_counts_ceil)
qed

text \<open>Rounding each unit on its own never charges less than rounding the sum.\<close>

lemma nat_div_ceil_sum_list: "nat_div_ceil (sum_list xs) g \<le> (\<Sum>x \<leftarrow> xs. nat_div_ceil x g)"
proof (induction xs)
  case (Cons x xs)
  then show ?case using nat_div_ceil_add [of x "sum_list xs" g] by simp
qed simp

lemma usage_units_au_le_ceil:
  "unat (usage_units_au rm counts) \<le> min (\<Sum>x \<leftarrow> counts. unit_ceil rm x) au_max"
proof (cases "\<exists>g. uniform_gran rm counts g")
  case True
  then obtain g where g: "uniform_gran rm counts g" by blast
  let ?C = "\<Sum>x \<leftarrow> counts. unit_cost rm x"
  have "nat_div_ceil (min ?C au_max) g \<le> nat_div_ceil ?C g" by (rule nat_div_ceil_mono) simp
  also have "\<dots> \<le> (\<Sum>x \<leftarrow> counts. nat_div_ceil (unit_cost rm x) g)"
    using nat_div_ceil_sum_list [of "map (unit_cost rm) counts" g] by (simp add: comp_def)
  also have "\<dots> = (\<Sum>x \<leftarrow> counts. unit_ceil rm x)"
  proof (rule arg_cong [where f = sum_list], rule map_cong [OF refl])
    fix x assume "x \<in> set counts"
    then show "nat_div_ceil (unit_cost rm x) g = unit_ceil rm x"
      using g by (cases "billable rm x") (auto simp: uniform_gran_def unit_ceil_def not_billable_cost)
  qed
  finally show ?thesis using unat_le_max [of "usage_units_au rm counts"]
    by (simp add: unat_usage_units_au_uniform [OF g])
next
  case False
  then show ?thesis by (simp add: unat_usage_units_au_mixed)
qed

section \<open>Monotonicity\<close>

lemma sum_list_btree:
  assumes "bt_wf m" "finite D" "fst ` set m \<subseteq> D" "\<And>u. F (u, 0) = 0"
  shows "(\<Sum>x \<leftarrow> m. F x) = (\<Sum>u \<in> D. F (u, case bt_get m u of Some n \<Rightarrow> n | None \<Rightarrow> 0) :: nat)"
proof -
  have d: "distinct (map fst m)" using assms(1) by (rule bt_wf_distinct)
  have "(\<Sum>x \<leftarrow> m. F x) = (\<Sum>x \<in> set m. F x)"
    using d by (simp add: sum_list_distinct_conv_sum_set distinct_map)
  also have "\<dots> = (\<Sum>u \<in> fst ` set m. F (u, case bt_get m u of Some n \<Rightarrow> n | None \<Rightarrow> 0))"
  proof (rule sum.reindex_cong [symmetric, where l = fst])
    show "inj_on fst (set m)" using d by (simp add: distinct_map)
    fix x assume "x \<in> set m"
    then show "F (fst x, case bt_get m (fst x) of Some n \<Rightarrow> n | None \<Rightarrow> 0) = F x"
      using bt_get_Some_iff [OF assms(1), of "fst x" "snd x"] by simp
  qed simp
  also have "\<dots> = (\<Sum>u \<in> D. F (u, case bt_get m u of Some n \<Rightarrow> n | None \<Rightarrow> 0))"
    by (rule sum.mono_neutral_left [OF assms(2,3)])
       (auto simp: bt_get_None_iff [THEN iffD2] assms(4))
  finally show ?thesis .
qed

lemma sum_units_mono:
  assumes "usage_wf p" "usage_wf s" "is_monotonic_from s p" "\<And>u. F (u, 0) = 0"
    and "\<And>u m n. m \<le> n \<Longrightarrow> F (u, m) \<le> F (u, n)"
  shows "(\<Sum>x \<leftarrow> units p. F x) \<le> (\<Sum>x \<leftarrow> units s. F x :: nat)"
proof -
  let ?D = "fst ` set (units p) \<union> fst ` set (units s)"
  let ?n = "\<lambda>m u. case bt_get m u of Some n \<Rightarrow> n | None \<Rightarrow> (0::u64)"
  have mono: "?n (units p) u \<le> ?n (units s) u" for u
  proof (cases "bt_get (units p) u")
    case (Some n)
    then have "canon u = u" using usage_wf_unit [OF assms(1)] by blast
    moreover have "usage_get p u \<le> usage_get s u" using assms(1-3) by (simp add: is_monotonic_from_iff)
    ultimately show ?thesis by (simp add: usage_get_wf assms(1,2))
  qed simp
  have "(\<Sum>x \<leftarrow> units p. F x) = (\<Sum>u \<in> ?D. F (u, ?n (units p) u))"
    using assms(1,4) by (intro sum_list_btree) auto
  also have "\<dots> \<le> (\<Sum>u \<in> ?D. F (u, ?n (units s) u))"
    by (rule sum_mono) (use mono assms(5) in blast)
  also have "\<dots> = (\<Sum>x \<leftarrow> units s. F x)"
    using assms(2,4) by (intro sum_list_btree [symmetric]) auto
  finally show ?thesis .
qed

lemma unit_cost_mono: "m \<le> n \<Longrightarrow> unit_cost rm (u, m) \<le> unit_cost rm (u, n)"
  by (auto simp: unit_cost_def word_le_nat_alt min_le_iff_disj intro: mult_le_mono1 split: option.splits)

lemma unit_cost_0 [simp]: "unit_cost rm (u, 0) = 0"
  by (simp add: unit_cost_def split: option.splits)

lemma unit_ceil_mono: "m \<le> n \<Longrightarrow> unit_ceil rm (u, m) \<le> unit_ceil rm (u, n)"
  by (simp add: unit_ceil_def nat_div_ceil_mono unit_cost_mono)

lemma unit_ceil_0 [simp]: "unit_ceil rm (u, 0) = 0"
  by (simp add: unit_ceil_def)

lemma uniform_gran_mono:
  assumes "usage_wf p" "usage_wf s" "is_monotonic_from s p" "uniform_gran rm (units s) g"
  shows "uniform_gran rm (units p) g"
  unfolding uniform_gran_def
proof (intro ballI impI)
  fix x assume x: "x \<in> set (units p)" "billable rm x"
  obtain u n where un: "x = (u, n)" by (cases x)
  have u: "canon u = u" "n \<noteq> 0" using assms(1) x by (auto simp: usage_wf_def un)
  have "usage_get p u = n" using usage_get_in [OF assms(1)] x un by blast
  then have "n \<le> usage_get s u" using assms(1-3) by (auto simp: is_monotonic_from_iff)
  then have "usage_get s u \<noteq> 0" using u(2) by auto
  then obtain k where "bt_get (units s) u = Some k" "k \<noteq> 0"
    using u(1) usage_wf_unit [OF assms(2), of u] by (auto simp: usage_get_wf assms(2) split: option.splits)
  then have "(u, k) \<in> set (units s)" "billable rm (u, k)"
    using x by (auto simp: un billable_def dest: bt_getD split: option.splits)
  with assms(4) show "unit_gran rm (fst x) = g" by (force simp: uniform_gran_def un)
qed

lemma usage_map_au_mono:
  assumes "usage_wf p" "usage_wf s" "is_monotonic_from s p"
  shows "usage_map_au rm p \<le> usage_map_au rm s"
proof -
  have cost: "(\<Sum>x \<leftarrow> units p. unit_cost rm x) \<le> (\<Sum>x \<leftarrow> units s. unit_cost rm x)"
    by (rule sum_units_mono [OF assms]) (simp_all add: unit_cost_mono)
  have ceil: "(\<Sum>x \<leftarrow> units p. unit_ceil rm x) \<le> (\<Sum>x \<leftarrow> units s. unit_ceil rm x)"
    by (rule sum_units_mono [OF assms]) (simp_all add: unit_ceil_mono)
  show ?thesis
  proof (cases "\<exists>g. uniform_gran rm (units s) g")
    case True
    then obtain g where g: "uniform_gran rm (units s) g" by blast
    have "min (\<Sum>x \<leftarrow> units p. unit_cost rm x) au_max \<le> min (\<Sum>x \<leftarrow> units s. unit_cost rm x) au_max"
      using cost by linarith
    then show ?thesis
      unfolding usage_map_au_def word_le_nat_alt unat_usage_units_au_uniform [OF g]
        unat_usage_units_au_uniform [OF uniform_gran_mono [OF assms g]]
      by (rule nat_div_ceil_mono)
  next
    case False
    then have "unat (usage_map_au rm s) = min (\<Sum>x \<leftarrow> units s. unit_ceil rm x) au_max"
      by (simp add: usage_map_au_def unat_usage_units_au_mixed)
    then show ?thesis
      using usage_units_au_le_ceil [of rm "units p"] ceil
      by (simp add: usage_map_au_def word_le_nat_alt)
  qed
qed

section \<open>Order independence\<close>

lemma uniform_gran_cong: "set counts = set counts' \<Longrightarrow> uniform_gran rm counts g = uniform_gran rm counts' g"
  by (simp add: uniform_gran_def)

lemma usage_units_au_mset:
  assumes "mset counts = mset counts'"
  shows "usage_units_au rm counts = usage_units_au rm counts'"
proof (cases "\<exists>g. uniform_gran rm counts g")
  case True
  then obtain g where g: "uniform_gran rm counts g" by blast
  then have g': "uniform_gran rm counts' g"
    using uniform_gran_cong [of counts counts' rm g] mset_eq_setD [OF assms] by simp
  show ?thesis
    unfolding word_unat_eq_iff unat_usage_units_au_uniform [OF g] unat_usage_units_au_uniform [OF g']
      sum_list_mset [OF assms] ..
next
  case False
  then have g: "\<not> uniform_gran rm counts g" for g by blast
  then have g': "\<not> uniform_gran rm counts' g" for g
    using uniform_gran_cong [of counts counts' rm g] mset_eq_setD [OF assms] by simp
  show ?thesis
    unfolding word_unat_eq_iff unat_usage_units_au_mixed [OF g] unat_usage_units_au_mixed [OF g']
      sum_list_mset [OF assms] ..
qed

lemma find_mset:
  assumes "mset xs = mset ys" "distinct (map f xs)"
  shows "find (\<lambda>x. f x = k) xs = find (\<lambda>x. f x = k) ys"
proof -
  have d: "distinct (map f ys)" using assms by (metis mset_eq_imp_distinct_iff mset_map)
  have uniq: "find (\<lambda>x. f x = k) zs = Some z" if "z \<in> set zs" "f z = k" "distinct (map f zs)" for z zs
    using that by (induction zs) (auto simp: rev_image_eqI)
  show ?thesis
  proof (cases "\<exists>z \<in> set xs. f z = k")
    case True
    then show ?thesis using uniq assms(2) d mset_eq_setD [OF assms(1)] by metis
  next
    case False
    then have "find (\<lambda>x. f x = k) xs = None" "find (\<lambda>x. f x = k) ys = None"
      using mset_eq_setD [OF assms(1)] by (auto simp: find_None_iff)
    then show ?thesis by simp
  qed
qed

lemma rate_for_unit_mset:
  "mset rm = mset rm' \<Longrightarrow> distinct (map rate_unit rm) \<Longrightarrow> rate_for_unit rm u = rate_for_unit rm' u"
  by (simp add: rate_for_unit_def find_mset)

lemma rate_for_unit_mem:
  "r \<in> set rm \<Longrightarrow> distinct (map rate_unit rm) \<Longrightarrow> rate_for_unit rm (rate_unit r) = Some r"
  unfolding rate_for_unit_def by (induction rm) (auto simp: rev_image_eqI)

lemma usage_map_au_rate_mset:
  "mset rm = mset rm' \<Longrightarrow> distinct (map rate_unit rm) \<Longrightarrow> usage_map_au rm u = usage_map_au rm' u"
  by (simp add: usage_map_au_def usage_units_au_def priced_counts_def rate_for_unit_mset)

section \<open>Cancellation\<close>

lemma min_by_key_mset:
  assumes "mset xs = mset ys" "inj_on f (set xs)"
  shows "min_by_key f xs = min_by_key f ys"
proof (cases "min_by_key f xs")
  case None
  then show ?thesis using assms(1) by simp
next
  case (Some b)
  then have "ys \<noteq> []" using assms(1) by (metis min_by_key_None_iff mset_zero_iff option.simps(3))
  then obtain c where c: "min_by_key f ys = Some c" by (cases "min_by_key f ys") auto
  have "f b = f c" "b \<in> set xs" "c \<in> set xs"
    using min_by_key_Some [OF Some] min_by_key_Some [OF c] mset_eq_setD [OF assms(1)]
    by (auto intro: order_antisym)
  then show ?thesis using assms(2) Some c by (auto dest: inj_onD)
qed

lemma usage_map_au_one:
  assumes "rate_for_unit rm u = Some r" "per_unit_au r \<noteq> 0" "granularity r \<noteq> 0" "canon u = u"
  shows "usage_map_au rm (from_units [(u, 1)]) > 0"
proof -
  have us: "units (from_units [(u, 1)]) = [(u, 1)]"
  proof -
    show ?thesis using assms(4) by (simp add: from_units_def Let_def)
  qed
  let ?g = "unat (granularity r)"
  have g: "uniform_gran rm [(u, 1)] ?g" using assms by (simp add: uniform_gran_def unit_gran_def)
  have "unit_cost rm (u, 1) = unat (per_unit_au r)"
    using assms unat_le_max [of "per_unit_au r"] by (simp add: unit_cost_def)
  then have "0 < min (\<Sum>x \<leftarrow> [(u, 1)]. unit_cost rm x) au_max" "0 < ?g"
    using assms by (simp_all add: unat_gt_0)
  then have "0 < unat (usage_map_au rm (from_units [(u, 1)]))"
    unfolding usage_map_au_def us unat_usage_units_au_uniform [OF g] by (rule nat_div_ceil_pos)
  then show ?thesis by (simp add: word_less_nat_alt)
qed

lemma priced_usage_au_ge: "usage_map_au rm u \<le> priced_usage_au rm per_req min_session u"
proof -
  have "usage_map_au rm u \<le> sat_add (usage_map_au rm u) per_req"
    unfolding word_le_nat_alt unat_sat_add using unat_le_max [of "usage_map_au rm u"] by linarith
  then show ?thesis by (simp add: priced_usage_au_def le_max_iff_disj)
qed

section \<open>The price basis\<close>

text \<open>The contribution of one entry to the 1,000-unit basket.\<close>

definition basis_1k :: "rate_map_entry \<Rightarrow> nat" where
  "basis_1k r = (if granularity r = 0 then 0
     else nat_div_ceil (min (unat (per_unit_au r) * 1000) au_max) (unat (granularity r)))"

definition scale_entry :: "nat \<Rightarrow> rate_map_entry \<Rightarrow> rate_map_entry" where
  "scale_entry k r = r\<lparr>per_unit_au := of_nat (k * unat (per_unit_au r)),
                       granularity := of_nat (k * unat (granularity r))\<rparr>"

lemma unat_cost_basis:
  "unat (rate_map_cost_basis_per_1k rm) = min (\<Sum>r \<leftarrow> rm. basis_1k r) au_max"
proof -
  let ?f = "\<lambda>r. if granularity r = 0 then 0
     else ceil_div_u128 (sat_mul (per_unit_au r) 1000) (ucast (granularity r))"
  have "rate_map_cost_basis_per_1k rm = fold (\<lambda>r acc. sat_add acc (?f r)) rm 0"
    unfolding rate_map_cost_basis_per_1k_def by (rule fold_cong) auto
  moreover have "unat (?f r) = basis_1k r" for r
    by (auto simp: basis_1k_def unat_simps unat_eq_zero [symmetric] simp del: unat_eq_0)
  ultimately show ?thesis using unat_fold_sat_add [of ?f rm 0] by simp
qed

lemma basis_1k_scale:
  assumes "0 < k" "k * unat (per_unit_au r) * 1000 < 2 ^ 128" "k * unat (granularity r) < 2 ^ 64"
  shows "basis_1k (scale_entry k r) = basis_1k r"
proof -
  have "k * unat (per_unit_au r) < 2 ^ 128" using assms(2) by simp
  then have p: "unat (of_nat (k * unat (per_unit_au r)) :: u128) = k * unat (per_unit_au r)"
    by (intro unat_of_nat_small) simp
  have g: "unat (of_nat (k * unat (granularity r)) :: u64) = k * unat (granularity r)"
    using assms(3) by (intro unat_of_nat_small) simp
  have le: "unat (per_unit_au r) * 1000 \<le> k * unat (per_unit_au r) * 1000" using assms(1) by simp
  have z: "granularity (scale_entry k r) = 0 \<longleftrightarrow> granularity r = 0"
    using g assms(1) by (simp add: scale_entry_def unat_eq_zero [symmetric] del: unat_eq_0 of_nat_mult)
  have m: "min (unat (per_unit_au r) * 1000) au_max = unat (per_unit_au r) * 1000"
    "min (k * unat (per_unit_au r) * 1000) au_max = k * (unat (per_unit_au r) * 1000)"
    using order_le_less_trans [OF le assms(2)] assms(2) by (linarith, simp add: mult.assoc)
  show ?thesis
    using z m p g assms(1)
    by (cases "granularity r = 0")
       (simp_all add: basis_1k_def scale_entry_def nat_div_ceil_scale unat_gt_0 del: of_nat_mult)
qed

section \<open>The tariff interface\<close>

text \<open>
  What the components that bill a session rely on: a charge that never falls as the usage grows.
\<close>

locale tariff =
  fixes charge :: "receipt_usage \<Rightarrow> money_au"
  assumes charge_le: "usage_wf p \<Longrightarrow> usage_wf s \<Longrightarrow> is_monotonic_from s p \<Longrightarrow> charge p \<le> charge s"
begin

lemma charge_text_le: "m \<le> n \<Longrightarrow> charge (usage_text i m) \<le> charge (usage_text i n)"
  by (rule charge_le) (simp_all add: is_monotonic_from_iff usage_get_text)

lemma charge_from_default: "usage_wf s \<Longrightarrow> charge usage_default \<le> charge s"
  by (rule charge_le) (simp_all add: is_monotonic_from_iff)

end

interpretation map_tariff: tariff "usage_map_au rm" for rm
  by unfold_locales (rule usage_map_au_mono)

section \<open>Exact costs\<close>

text \<open>The cost of one (unit, count) pair and of a usage as natural numbers, before any saturation.\<close>

definition exact_cost :: "rate_map_entry list \<Rightarrow> string \<times> u64 \<Rightarrow> nat" where
  "exact_cost rm = (\<lambda>(u, n). case rate_for_unit rm u of None \<Rightarrow> 0
     | Some r \<Rightarrow> if granularity r = 0 then 0 else unat n * unat (per_unit_au r))"

definition usage_cost :: "rate_map_entry list \<Rightarrow> receipt_usage \<Rightarrow> nat" where
  "usage_cost rm s = (\<Sum>x \<leftarrow> units s. exact_cost rm x)"

lemma unit_cost_exact: "unit_cost rm x = min (exact_cost rm x) au_max"
  by (cases x) (simp add: unit_cost_def exact_cost_def split: option.split)

lemma min_sum_list: "min (\<Sum>x \<leftarrow> xs. min (f x) M) M = min (\<Sum>x \<leftarrow> xs. f x) (M :: nat)"
proof (induction xs)
  case (Cons x xs)
  have "min (min (f x) M + b) M = min (f x + min b M) M" for b by (simp only: min_min_add min_add_min)
  from this [of "\<Sum>x \<leftarrow> xs. min (f x) M"] show ?case unfolding list.map sum_list.Cons Cons by (simp only: min_add_min)
qed simp

lemma unat_usage_units_au_exact:
  assumes "uniform_gran rm counts g"
  shows "unat (usage_units_au rm counts) = nat_div_ceil (min (\<Sum>x \<leftarrow> counts. exact_cost rm x) au_max) g"
  using unat_usage_units_au_uniform [OF assms] by (simp only: unit_cost_exact min_sum_list)

definition one_granularity :: "rate_map_entry list \<Rightarrow> nat \<Rightarrow> bool" where
  "one_granularity rm g \<longleftrightarrow> 0 < g \<and> list_all (\<lambda>r. unat (granularity r) = g) rm"

lemma one_granularity_uniform:
  assumes "one_granularity rm g"
  shows "uniform_gran rm counts g"
proof -
  have "unat (granularity r) = g" if "rate_for_unit rm u = Some r" for u r
    using assms that by (auto simp: one_granularity_def list_all_iff rate_for_unit_def find_Some_iff)
  then show ?thesis by (auto simp: uniform_gran_def billable_def unit_gran_def split: option.splits)
qed

lemma unat_usage_map_au_exact:
  "one_granularity rm g \<Longrightarrow> unat (usage_map_au rm s) = nat_div_ceil (min (usage_cost rm s) au_max) g"
  by (simp only: usage_map_au_def usage_cost_def unat_usage_units_au_exact [OF one_granularity_uniform])

text \<open>The exact cost of an increment is the difference of the exact costs.\<close>

lemma usage_cost_delta:
  assumes "usage_wf p" "usage_wf c" "is_monotonic_from c p"
  shows "usage_cost rm c = usage_cost rm p + usage_cost rm (saturating_delta p c)"
proof -
  let ?d = "saturating_delta p c"
  let ?D = "fst ` set (units p) \<union> fst ` set (units c) \<union> fst ` set (units ?d)"
  let ?n = "\<lambda>s u. case bt_get (units s) u of Some n \<Rightarrow> n | None \<Rightarrow> (0::u64)"
  have wf: "usage_wf ?d" using assms by simp
  have cost: "usage_cost rm s = (\<Sum>u \<in> ?D. exact_cost rm (u, ?n s u))" if "usage_wf s" "fst ` set (units s) \<subseteq> ?D" for s
    unfolding usage_cost_def using that by (intro sum_list_btree) (auto simp: exact_cost_def split: option.split)
  have "exact_cost rm (u, ?n c u) = exact_cost rm (u, ?n p u) + exact_cost rm (u, ?n ?d u)" for u
  proof (cases "canon u = u")
    case True
    have "usage_get p u \<le> usage_get c u" using assms by (simp add: is_monotonic_from_iff)
    then have "unat (usage_get ?d u) = unat (usage_get c u) - unat (usage_get p u)" "unat (usage_get p u) \<le> unat (usage_get c u)"
      using saturating_delta_get(2) [OF assms(1, 2)] by (simp_all add: unat_sat_sub word_le_nat_alt)
    then have "unat (?n c u) = unat (?n p u) + unat (?n ?d u)" using True assms(1, 2) wf by (simp add: usage_get_wf)
    then show ?thesis by (simp add: exact_cost_def distrib_right split: option.split)
  next
    case False
    then have "?n s u = 0" if "usage_wf s" for s
      using usage_wf_unit [OF that, of u] by (auto split: option.split)
    then show ?thesis using assms wf by (simp add: exact_cost_def split: option.split)
  qed
  then show ?thesis
    using cost [OF assms(1)] cost [OF assms(2)] cost [OF wf] by (simp add: sum.distrib le_supI1)
qed

lemma nat_div_ceil_join:
  assumes "0 < b"
  shows "nat_div_ceil a b + nat_div_ceil a' b \<le> nat_div_ceil (a + a') b + 1"
proof (cases "nat_div_ceil a b = 0 \<or> nat_div_ceil a' b = 0")
  case True
  then show ?thesis using nat_div_ceil_mono [of a "a + a'" b] nat_div_ceil_mono [of a' "a + a'" b] by auto
next
  case False
  have "\<not> nat_div_ceil a b \<le> nat_div_ceil a b - 1" "\<not> nat_div_ceil a' b \<le> nat_div_ceil a' b - 1" using False by linarith+
  then have "(nat_div_ceil a b - 1) * b < a" "(nat_div_ceil a' b - 1) * b < a'"
    unfolding nat_div_ceil_le_iff [OF assms] by simp_all
  then have "(nat_div_ceil a b - 1 + (nat_div_ceil a' b - 1)) * b < a + a'" by (simp add: distrib_right)
  then have "\<not> nat_div_ceil (a + a') b \<le> nat_div_ceil a b - 1 + (nat_div_ceil a' b - 1)"
    unfolding nat_div_ceil_le_iff [OF assms] by simp
  then show ?thesis using False by linarith
qed

section \<open>Billing over attempts\<close>

text \<open>
  The amount owed for a logical request after a sequence of attempts: each attempt reports the usage
  accumulated so far, and is billed on top of the usage and the amount of the attempt before.
\<close>

fun billing_run ::
    "rate_map_entry list \<Rightarrow> money_au \<Rightarrow> money_au \<Rightarrow> receipt_usage list \<Rightarrow> receipt_usage \<times> money_au \<Rightarrow>
     (receipt_usage \<times> money_au) option" where
  "billing_run rm per_req min_session [] s = Some s"
| "billing_run rm per_req min_session (current # attempts) (prior, owed) =
     Option.bind (logical_cumulative_priced_usage_au rm per_req min_session prior owed current)
       (\<lambda>owed'. billing_run rm per_req min_session attempts (current, owed'))"

lemma billing_run_snoc:
  "billing_run rm per_req min_session (attempts @ [current]) s =
     Option.bind (billing_run rm per_req min_session attempts s) (\<lambda>(prior, owed).
       map_option (Pair current) (logical_cumulative_priced_usage_au rm per_req min_session prior owed current))"
  by (induction attempts arbitrary: s) (auto simp: split_beta split: Option.bind_split option.split)

definition billed_within :: "rate_map_entry list \<Rightarrow> money_au \<Rightarrow> money_au \<Rightarrow> nat \<Rightarrow> receipt_usage \<Rightarrow> money_au \<Rightarrow> bool" where
  "billed_within rm per_req min_session k s owed \<longleftrightarrow>
     priced_usage_au rm per_req min_session s \<le> owed \<and>
     unat owed \<le> unat (usage_map_au rm s) + max (unat per_req) (unat min_session) + k"

lemma unat_priced: "unat (priced_usage_au rm per_req min_session s) = max (min (unat (usage_map_au rm s) + unat per_req) au_max) (unat min_session)"
  by (simp add: priced_usage_au_def max_def word_le_nat_alt unat_sat_add)

lemma billed_first: "billed_within rm per_req min_session k s (priced_usage_au rm per_req min_session s)"
  unfolding billed_within_def unat_priced by (intro conjI order_refl) linarith

lemma billed_next:
  assumes "one_granularity rm g" "usage_wf p" "usage_wf c" "is_monotonic_from c p" "usage_cost rm c \<le> au_max"
    and "billed_within rm per_req min_session k p owed" "checked_add owed (usage_map_au rm (saturating_delta p c)) = Some owed'"
  shows "billed_within rm per_req min_session (Suc k) c owed'"
proof -
  let ?m = "\<lambda>s. unat (usage_map_au rm s)" and ?d = "saturating_delta p c"
  have g: "0 < g" using assms(1) by (simp add: one_granularity_def)
  have m: "?m s = nat_div_ceil (usage_cost rm s) g" if "usage_cost rm s \<le> usage_cost rm c" for s
    using unat_usage_map_au_exact [OF assms(1)] that assms(5) by (simp add: min_absorb1)
  have cost: "usage_cost rm c = usage_cost rm p + usage_cost rm ?d" by (rule usage_cost_delta [OF assms(2-4)])
  have "?m c = nat_div_ceil (usage_cost rm c) g" "?m p = nat_div_ceil (usage_cost rm p) g" "?m ?d = nat_div_ceil (usage_cost rm ?d) g"
    by (rule m, use cost in simp)+
  then have "?m c \<le> ?m p + ?m ?d" "?m p + ?m ?d \<le> ?m c + 1"
    using cost nat_div_ceil_add [of "usage_cost rm p" "usage_cost rm ?d" g] nat_div_ceil_join [OF g, of "usage_cost rm p" "usage_cost rm ?d"]
    by simp_all
  moreover have "unat owed' = unat owed + ?m ?d" using assms(7) by (simp add: checked_add_Some_iff)
  ultimately show ?thesis using assms(6) unfolding billed_within_def word_le_nat_alt unat_priced by linarith
qed

lemma billing_run_within:
  assumes "one_granularity rm g" "list_all usage_wf attempts" "attempts \<noteq> []"
    and "billing_run rm per_req min_session attempts (usage_default, 0) = Some (s, owed)" "usage_cost rm s \<le> au_max"
  shows "s = last attempts \<and> billed_within rm per_req min_session (length attempts - 1) s owed"
  using assms(2-5)
proof (induction attempts arbitrary: s owed rule: rev_induct)
  case (snoc current attempts)
  obtain prior owed0 where run: "billing_run rm per_req min_session attempts (usage_default, 0) = Some (prior, owed0)"
    and bill: "logical_cumulative_priced_usage_au rm per_req min_session prior owed0 current = Some owed" and s: "s = current"
    using snoc.prems(3) unfolding billing_run_snoc by (auto split: Option.bind_splits)
  have mono: "is_monotonic_from current prior" and owed0: "owed0 = 0 \<Longrightarrow> prior = usage_default"
    using bill by (auto simp: logical_cumulative_priced_usage_au_def split: if_splits)
  have wf: "usage_wf current" using snoc.prems(1) by simp
  show ?case
  proof (cases "owed0 = 0")
    case True
    then have "saturating_delta prior current = current"
      using owed0 wf by (intro usage_ext) (simp_all add: saturating_delta_get)
    then have "owed = priced_usage_au rm per_req min_session current"
      using bill True by (auto simp: logical_cumulative_priced_usage_au_def Let_def checked_add_Some_iff word_unat_eq_iff split: if_splits)
    then show ?thesis using s billed_first by simp
  next
    case False
    then have nonempty: "attempts \<noteq> []" using run by auto
    then have prior: "usage_wf prior"
      using snoc.prems(1) run by (cases attempts rule: rev_cases) (auto simp: billing_run_snoc split: Option.bind_splits)
    have cost: "usage_cost rm prior \<le> au_max" using usage_cost_delta [OF prior wf mono, of rm] snoc.prems(4) s by (metis le_add1 order_trans)
    have within: "billed_within rm per_req min_session (length attempts - 1) prior owed0"
      using snoc.IH [OF _ nonempty run cost] snoc.prems(1) unfolding list_all_append by blast
    have add: "checked_add owed0 (usage_map_au rm (saturating_delta prior current)) = Some owed"
      using bill False by (simp add: logical_cumulative_priced_usage_au_def Let_def split: if_splits)
    have "Suc (length attempts - 1) = length attempts" using nonempty by (cases attempts) simp_all
    then show ?thesis
      using billed_next [OF assms(1) prior wf mono _ within add] snoc.prems(4) s by simp
  qed
qed simp

section \<open>Properties\<close>

text \<open>
  More usage never costs less: when the later usage is monotonic from the earlier one, the charge
  under any rate map and any fixed fees does not decrease, saturation and the switch between common
  and mixed granularities included.
\<close>

lemma charge_monotone:
  assumes "usage_wf p" "usage_wf s" "is_monotonic_from s p"
  shows "usage_map_au rm p \<le> usage_map_au rm s \<and>
         priced_usage_au rm per_req min_session p \<le> priced_usage_au rm per_req min_session s"
proof -
  have "usage_map_au rm p \<le> usage_map_au rm s" using assms by (rule usage_map_au_mono)
  then have "sat_add (usage_map_au rm p) per_req \<le> sat_add (usage_map_au rm s) per_req"
    unfolding word_le_nat_alt unat_sat_add by linarith
  with usage_map_au_mono [OF assms] show ?thesis
    by (auto simp: priced_usage_au_def max_def)
qed

lemma charge_monotone_witness:
  "usage_map_au (text_generation_rate_map 20 60) (usage_text 100 250) \<le>
   usage_map_au (text_generation_rate_map 20 60) (usage_text 100 900)"
  by (rule conjunct1 [OF charge_monotone]) (simp_all add: is_monotonic_from_iff usage_get_text)

text \<open>
  C36. The charge is exact, saturates before the division and is rounded up once: when all charged units
  share the granularity \<open>g\<close>, the charge is the least amount \<open>c\<close> for which \<open>c * g\<close> covers the sum of count
  times rate, that sum cut at the largest \<open>u128\<close>. It never exceeds the sum of the individually rounded
  unit charges, and it depends on the counts only, not on their order.
\<close>

theorem charge_exact:
  assumes "uniform_gran rm counts g" "0 < g"
  shows "(unat (usage_units_au rm counts) \<le> c \<longleftrightarrow> min (\<Sum>x \<leftarrow> counts. exact_cost rm x) (2 ^ 128 - 1) \<le> c * g) \<and>
         unat (usage_units_au rm counts) \<le> (\<Sum>x \<leftarrow> counts. unit_ceil rm x) \<and>
         (\<forall>counts'. mset counts' = mset counts \<longrightarrow> usage_units_au rm counts' = usage_units_au rm counts)"
proof (intro conjI allI impI)
  show "unat (usage_units_au rm counts) \<le> c \<longleftrightarrow> min (\<Sum>x \<leftarrow> counts. exact_cost rm x) (2 ^ 128 - 1) \<le> c * g"
    unfolding unat_usage_units_au_exact [OF assms(1)] by (rule nat_div_ceil_le_iff [OF assms(2)])
  show "unat (usage_units_au rm counts) \<le> (\<Sum>x \<leftarrow> counts. unit_ceil rm x)"
    using usage_units_au_le_ceil [of rm counts] by linarith
  fix counts' assume "mset counts' = mset counts"
  then show "usage_units_au rm counts' = usage_units_au rm counts" by (rule usage_units_au_mset)
qed

lemma text_rate_map_example:
  "uniform_gran (text_generation_rate_map 20 60) [(USAGE_INPUT_TOKEN, 100), (USAGE_OUTPUT_TOKEN, 250)] 1000 \<and>
   (\<Sum>x \<leftarrow> [(USAGE_INPUT_TOKEN, 100), (USAGE_OUTPUT_TOKEN, 250)].
      exact_cost (text_generation_rate_map 20 60) x) = 17000"
  by (simp add: uniform_gran_def unit_gran_def exact_cost_def text_generation_rate_map_def
      rate_for_unit_def usage_unit_defs)

theorem charge_exact_witness:
  "unat (usage_units_au (text_generation_rate_map 20 60)
     [(USAGE_INPUT_TOKEN, 100), (USAGE_OUTPUT_TOKEN, 250)]) \<le> 17 \<and>
   \<not> unat (usage_units_au (text_generation_rate_map 20 60)
     [(USAGE_INPUT_TOKEN, 100), (USAGE_OUTPUT_TOKEN, 250)]) \<le> 16"
proof -
  note ex = text_rate_map_example
  note eq = charge_exact [OF conjunct1 [OF ex], THEN conjunct1, unfolded conjunct2 [OF ex]]
  show ?thesis using eq [of 17] eq [of 16] by simp
qed

text \<open>
  C10. Cumulative billing over any number of attempts charges the fixed fees once: with a rate map of one
  granularity, after any accepted sequence of attempts the amount owed covers the price of the whole usage
  in one go, and exceeds its metered charge by at most the larger of the two fixed fees and one rounding
  unit for each attempt after the first.
\<close>

theorem cumulative_billing:
  assumes "one_granularity rm g" "list_all usage_wf attempts" "attempts \<noteq> []"
    and "billing_run rm per_req min_session attempts (usage_default, 0) = Some (s, owed)"
    and "usage_cost rm s \<le> 2 ^ 128 - 1"
  shows "s = last attempts \<and> priced_usage_au rm per_req min_session s \<le> owed \<and>
         unat owed \<le> unat (usage_map_au rm s) + max (unat per_req) (unat min_session) + (length attempts - 1)"
  using billing_run_within [OF assms] unfolding billed_within_def by blast

theorem cumulative_billing_witness:
  "billing_run (text_generation_rate_map 1000 2000) 7 0 [usage_text 3 0, usage_text 3 5] (usage_default, 0) =
     Some (usage_text 3 5, 20) \<and>
   priced_usage_au (text_generation_rate_map 1000 2000) 7 0 (usage_text 3 5) \<le> 20 \<and>
   unat (20 :: money_au) \<le> unat (usage_map_au (text_generation_rate_map 1000 2000) (usage_text 3 5)) + max 7 0 + 1"
proof -
  have u: "usage_text 3 0 = \<lparr>units = [(USAGE_INPUT_TOKEN, 3)]\<rparr>"
    "usage_text 3 5 = \<lparr>units = [(USAGE_INPUT_TOKEN, 3), (USAGE_OUTPUT_TOKEN, 5)]\<rparr>"
    by (simp_all add: usage_text_def from_units_def Let_def) (simp_all add: usage_unit_defs)
  have m: "is_monotonic_from (usage_text 3 5) (usage_text 3 0)"
    "is_monotonic_from (usage_text 3 0) usage_default" "usage_text 3 0 \<noteq> usage_default"
    by (simp_all add: is_monotonic_from_iff usage_get_text) (simp add: u usage_default_def)
  have d: "saturating_delta (usage_text 3 0) (usage_text 3 5) = \<lparr>units = [(USAGE_OUTPUT_TOKEN, 5)]\<rparr>"
    "saturating_delta usage_default (usage_text 3 0) = usage_text 3 0"
    by (simp_all add: saturating_delta_def usage_get_text u(2))
       (simp_all add: u word_greater_zero_iff sat_sub_def)
  note ev = usage_map_au_def usage_units_au_def priced_counts_def List.map_filter_def rate_for_unit_def
    text_generation_rate_map_def ceil_div_u128_def word_div_ceil_def sat_mul_def sat_add_def Let_def
  have p: "usage_map_au (text_generation_rate_map 1000 2000) (usage_text 3 0) = 3"
    "usage_map_au (text_generation_rate_map 1000 2000) \<lparr>units = [(USAGE_OUTPUT_TOKEN, 5)]\<rparr> = 10"
    by (simp_all add: ev u) (simp_all add: usage_unit_defs)
  have l: "logical_cumulative_priced_usage_au (text_generation_rate_map 1000 2000) 7 0 usage_default 0
      (usage_text 3 0) = Some 10"
    "logical_cumulative_priced_usage_au (text_generation_rate_map 1000 2000) 7 0 (usage_text 3 0) 10
      (usage_text 3 5) = Some 20"
    by (simp_all add: logical_cumulative_priced_usage_au_def m d p priced_usage_au_def checked_add_def
        sat_add_def Let_def)
  have run: "billing_run (text_generation_rate_map 1000 2000) 7 0 [usage_text 3 0, usage_text 3 5] (usage_default, 0) =
      Some (usage_text 3 5, 20)" by (simp add: l)
  have one: "one_granularity (text_generation_rate_map 1000 2000) 1000"
    by (simp add: one_granularity_def text_generation_rate_map_def)
  have cost: "usage_cost (text_generation_rate_map 1000 2000) (usage_text 3 5) \<le> 2 ^ 128 - 1"
    by (simp add: usage_cost_def u exact_cost_def rate_for_unit_def text_generation_rate_map_def usage_unit_defs)
  have "unat (7 :: money_au) = 7" "unat (0 :: money_au) = 0" by simp_all
  then show ?thesis using cumulative_billing [OF one _ _ run cost] run by simp
qed

text \<open>
  A cancelled request is never free: when cancellation settles on a usage, that usage has a
  positive price. On a schedule with distinct canonical units and at least one priced unit it always
  settles: on the metered usage if that has a price, on one unit of a rate-map entry otherwise; and
  both peers, whatever the order of their copy of the rate map, settle on the same usage.
\<close>

lemma cancellation_settles:
  assumes "distinct (map rate_unit rm)" "\<forall>r \<in> set rm. canon (rate_unit r) = rate_unit r"
    and "\<exists>r \<in> set rm. per_unit_au r > 0 \<and> granularity r > 0" "mset rm' = mset rm"
  shows "\<exists>v. cancellation_settlement_usage rm per_req min_session u = Some v \<and>
             priced_usage_au rm per_req min_session v > 0 \<and>
             (v = u \<or> (\<exists>r \<in> set rm. v = from_units [(rate_unit r, 1)])) \<and>
             cancellation_settlement_usage rm' per_req min_session u = Some v"
proof -
  let ?good = "\<lambda>r. per_unit_au r > 0 \<and> granularity r > 0"
  let ?key = cancellation_key
  have inj: "inj_on ?key (set (filter ?good rm))"
  proof (rule inj_onI)
    fix x y assume "x \<in> set (filter ?good rm)" "y \<in> set (filter ?good rm)" "?key x = ?key y"
    then have "x \<in> set rm" "y \<in> set rm" "rate_unit x = rate_unit y"
      by (simp_all add: cancellation_key_def)
    then show "x = y" using assms(1) unfolding distinct_map by (metis inj_onD)
  qed
  have price: "priced_usage_au rm' per_req min_session = priced_usage_au rm per_req min_session"
    by (rule ext)
       (simp only: priced_usage_au_def usage_map_au_rate_mset [OF assms(4) [symmetric] assms(1)])
  have "mset (filter ?good rm) = mset (filter ?good rm')" using assms(4) by simp
  then have same: "min_by_key ?key (filter ?good rm') = min_by_key ?key (filter ?good rm)"
    by (rule min_by_key_mset [OF _ inj, symmetric])
  obtain r where r: "min_by_key ?key (filter ?good rm) = Some r"
    using assms(3) by (cases "min_by_key ?key (filter ?good rm)") (auto simp: filter_empty_conv)
  then have mem: "r \<in> set rm" "per_unit_au r > 0" "granularity r > 0"
    using min_by_key_Some [OF r] by auto
  have "rate_for_unit rm (rate_unit r) = Some r"
    using mem(1) assms(1) by (rule rate_for_unit_mem)
  then have "usage_map_au rm (from_units [(rate_unit r, 1)]) > 0"
    using mem assms(2) by (intro usage_map_au_one) auto
  then have "priced_usage_au rm per_req min_session (from_units [(rate_unit r, 1)]) > 0"
    using priced_usage_au_ge by (rule less_le_trans)
  with r same price mem show ?thesis
    by (cases "priced_usage_au rm per_req min_session u > 0")
       (auto simp: cancellation_settlement_usage_def Let_def)
qed

lemma cancellation_settles_witness:
  "\<exists>v. cancellation_settlement_usage (text_generation_rate_map 20 60) 0 0 usage_default = Some v \<and>
       priced_usage_au (text_generation_rate_map 20 60) 0 0 v > 0"
proof -
  have "\<exists>v. cancellation_settlement_usage (text_generation_rate_map 20 60) 0 0 usage_default = Some v \<and>
       priced_usage_au (text_generation_rate_map 20 60) 0 0 v > 0 \<and>
       (v = usage_default \<or> (\<exists>r \<in> set (text_generation_rate_map 20 60). v = from_units [(rate_unit r, 1)])) \<and>
       cancellation_settlement_usage (rev (text_generation_rate_map 20 60)) 0 0 usage_default = Some v"
    by (rule cancellation_settles)
       (simp_all add: text_generation_rate_map_def, simp_all add: usage_unit_defs)
  then show ?thesis by blast
qed

text \<open>
  The price basis does not depend on how finely a unit is quoted: scaling the rate and the
  granularity of every entry by \<open>k\<close> leaves \<open>rate_map_cost_basis_per_1k\<close> unchanged, as long as the
  scaled values fit their integer types.
\<close>

theorem basis_scale_invariant:
  assumes "0 < k"
    and "\<forall>r \<in> set rm. k * unat (per_unit_au r) * 1000 < 2 ^ 128 \<and> k * unat (granularity r) < 2 ^ 64"
  shows "rate_map_cost_basis_per_1k (map (scale_entry k) rm) = rate_map_cost_basis_per_1k rm \<and>
         rate_gate_basis_au (map (scale_entry k) rm) per_req min_session =
         rate_gate_basis_au rm per_req min_session"
proof -
  have "(\<Sum>r \<leftarrow> map (scale_entry k) rm. basis_1k r) = (\<Sum>r \<leftarrow> rm. basis_1k r)"
    using assms by (auto simp: comp_def basis_1k_scale cong: map_cong)
  then have "rate_map_cost_basis_per_1k (map (scale_entry k) rm) = rate_map_cost_basis_per_1k rm"
    unfolding word_unat_eq_iff unat_cost_basis by simp
  then show ?thesis by (simp add: rate_gate_basis_au_def)
qed

theorem basis_scale_invariant_witness:
  "rate_map_cost_basis_per_1k (map (scale_entry 1000) (text_generation_rate_map 20 60)) =
   rate_map_cost_basis_per_1k (text_generation_rate_map 20 60)"
proof -
  have "discounted_cached_input_rate_au 20 = 5"
    by (simp add: discounted_cached_input_rate_au_def ceil_div_u128_def word_div_ceil_def sat_mul_def
        CACHED_INPUT_TOKEN_RATE_BPS_def)
  then show ?thesis
    by (intro conjunct1 [OF basis_scale_invariant]) (simp_all add: text_generation_rate_map_def)
qed

text \<open>
  A cached input token is discounted and never free: its rate is at least one when the input
  rate is non-zero, never above the input rate, and is a quarter of it rounded up while the product
  with the basis points fits \<open>u128\<close>.
\<close>

lemma cached_rate_bounds:
  "discounted_cached_input_rate_au r \<le> r \<and>
   (discounted_cached_input_rate_au r = 0 \<longleftrightarrow> r = 0) \<and>
   (unat r * 2500 < 2 ^ 128 \<longrightarrow> unat (discounted_cached_input_rate_au r) = nat_div_ceil (unat r) 4)"
proof (cases "r = 0")
  case False
  let ?d = "nat_div_ceil (min (unat r * 2500) au_max) 10000"
  have r: "0 < unat r" using False by (simp add: unat_gt_0)
  have "0 < ?d" by (rule nat_div_ceil_pos) (use r in simp_all)
  moreover have d: "unat (ceil_div_u128 (sat_mul r (ucast CACHED_INPUT_TOKEN_RATE_BPS)) 10000) = ?d"
    by (simp add: unat_simps CACHED_INPUT_TOKEN_RATE_BPS_def)
  ultimately have u: "unat (discounted_cached_input_rate_au r) = ?d"
    using False by (simp add: discounted_cached_input_rate_au_def max_def word_le_nat_alt)
  have "?d \<le> unat r"
    by (subst nat_div_ceil_le_iff) (use r in \<open>auto simp: min_le_iff_disj\<close>)
  moreover have "nat_div_ceil (unat r * 2500) 10000 = nat_div_ceil (unat r) 4"
    using nat_div_ceil_scale [of 2500 4 "unat r"] by (simp add: mult.commute)
  moreover have "min (unat r * 2500) au_max = unat r * 2500" if "unat r * 2500 < 2 ^ 128"
    using that by auto
  ultimately show ?thesis
    using u False \<open>0 < ?d\<close> by (simp add: word_le_nat_alt unat_eq_zero [symmetric] del: unat_eq_0)
qed (simp add: discounted_cached_input_rate_au_def)

lemma cached_rate_bounds_witness: "unat (discounted_cached_input_rate_au 20) = 5"
  using cached_rate_bounds [of 20] by (simp add: nat_div_ceil_def)

end
