(* ===== verification/Provider_Key.thy ===== *)
theory Provider_Key
  imports Mayhem_Prelude "HOL-Library.Product_Lexorder"
begin

text \<open>
  \<open>ProviderKey\<close> of \<open>mayhem-gateway/src/provider_table.rs\<close>: the identity a gateway routes to. The
  derived \<open>Ord\<close> compares the fields lexicographically, in their order, so the key is a \<open>linorder\<close> and ordered maps
  over it are ordered maps of the prelude.
\<close>

datatype provider_key = ProviderKey (pk_provider: string) (pk_enclave_id: string) (pk_room_id: string)

definition pk_fields :: "provider_key \<Rightarrow> string \<times> string \<times> string" where
  "pk_fields k = (pk_provider k, pk_enclave_id k, pk_room_id k)"

lemma pk_fields_inj: "pk_fields a = pk_fields b \<Longrightarrow> a = b"
  by (cases a; cases b) (simp add: pk_fields_def)

instantiation provider_key :: linorder
begin

definition less_eq_provider_key :: "provider_key \<Rightarrow> provider_key \<Rightarrow> bool" where
  "less_eq_provider_key a b \<longleftrightarrow> pk_fields a \<le> pk_fields b"

definition less_provider_key :: "provider_key \<Rightarrow> provider_key \<Rightarrow> bool" where
  "less_provider_key a b \<longleftrightarrow> pk_fields a < pk_fields b"

instance
proof
  fix x y z :: provider_key
  show "x < y \<longleftrightarrow> x \<le> y \<and> \<not> y \<le> x"
    unfolding less_provider_key_def less_eq_provider_key_def by (rule less_le_not_le)
  show "x \<le> x" unfolding less_eq_provider_key_def by (rule order_refl)
  show "x \<le> y \<Longrightarrow> y \<le> z \<Longrightarrow> x \<le> z"
    unfolding less_eq_provider_key_def by (rule order_trans)
  show "x \<le> y \<Longrightarrow> y \<le> x \<Longrightarrow> x = y"
    unfolding less_eq_provider_key_def by (rule pk_fields_inj, rule order_antisym)
  show "x \<le> y \<or> y \<le> x" unfolding less_eq_provider_key_def by (rule linear)
qed

end

end
