(* ===== verification/Session_Failover.thy ===== *)
theory Session_Failover
  imports Rate_Pricing Provider_Key
begin

text \<open>
  The client side of a session in \<open>mayhem-gateway/src/failover.rs\<close>: opening a session on one of
  several providers with bounded attempts and cooloffs, receipt checkpoints while output streams
  in, redispatch after a mid-stream stall, and the hedge race between two probes. A method that
  takes \<open>&mut self\<close> returns its result together with the new state.
\<close>

section \<open>Waiting and context\<close>

definition ADMIN_RELAY_CONNECT_BUDGET_MILLIS :: u64 where "ADMIN_RELAY_CONNECT_BUDGET_MILLIS = 15000"
definition ADMIN_RELAY_RESULT_BUDGET_MILLIS :: u64 where "ADMIN_RELAY_RESULT_BUDGET_MILLIS = 60000"
definition OPEN_TIMEOUT_SAFETY_MARGIN_MILLIS :: u64 where "OPEN_TIMEOUT_SAFETY_MARGIN_MILLIS = 15000"
definition DEFAULT_OPEN_TIMEOUT_MILLIS :: u64 where
  "DEFAULT_OPEN_TIMEOUT_MILLIS = ADMIN_RELAY_CONNECT_BUDGET_MILLIS + ADMIN_RELAY_RESULT_BUDGET_MILLIS
     + OPEN_TIMEOUT_SAFETY_MARGIN_MILLIS"
definition DEFAULT_MAX_OPEN_ATTEMPTS :: u8 where "DEFAULT_MAX_OPEN_ATTEMPTS = 4"
definition DEFAULT_PROVIDER_COOLOFF_MILLIS :: u64 where "DEFAULT_PROVIDER_COOLOFF_MILLIS = 30000"

definition route_wait_millis :: "u64 \<Rightarrow> u64 \<Rightarrow> u64 option \<Rightarrow> u64" where
  "route_wait_millis generic_max_wait_millis now earliest_route_cooloff_until_millis =
     (let known_cooloff_remaining =
            (case earliest_route_cooloff_until_millis of
               None \<Rightarrow> 0
             | Some until_millis \<Rightarrow> if until_millis > now then until_millis - now else 0)
      in max generic_max_wait_millis known_cooloff_remaining)"

definition effective_context_floor :: "u32 option \<Rightarrow> u64 \<Rightarrow> u64 \<Rightarrow> u32" where
  "effective_context_floor user_min_ctx conversation_tokens output_headroom_tokens =
     (let conversation_floor =
            (ucast (min (sat_add conversation_tokens output_headroom_tokens) (ucast (- 1 :: u32))) :: u32)
      in max (case user_min_ctx of None \<Rightarrow> 0 | Some c \<Rightarrow> c) conversation_floor)"

definition midstream_stalled_after :: "u64 option \<Rightarrow> u64 \<Rightarrow> u64 \<Rightarrow> bool" where
  "midstream_stalled_after last_delta_at_millis now stall_timeout_millis =
     (case last_delta_at_millis of
        None \<Rightarrow> False
      | Some last_delta \<Rightarrow> sat_sub now last_delta > stall_timeout_millis)"

section \<open>Data\<close>

record checkpoint_policy =
  cp_tokens :: u64
  cp_ms :: u64

record failover_policy =
  open_timeout_millis :: u64
  max_open_attempts :: u8
  provider_cooloff_millis :: u64
  stall_timeout_millis :: "u64 option"
  checkpoint_every :: checkpoint_policy
  hedge_enabled :: bool

definition failover_policy_default :: failover_policy where
  "failover_policy_default =
     \<lparr>open_timeout_millis = DEFAULT_OPEN_TIMEOUT_MILLIS, max_open_attempts = DEFAULT_MAX_OPEN_ATTEMPTS,
      provider_cooloff_millis = DEFAULT_PROVIDER_COOLOFF_MILLIS, stall_timeout_millis = None,
      checkpoint_every = \<lparr>cp_tokens = 8192, cp_ms = 30000\<rparr>, hedge_enabled = True\<rparr>"

record session_price_au =
  sp_rate_map :: "rate_map_entry list"

definition session_price_text :: "money_au \<Rightarrow> money_au \<Rightarrow> session_price_au" where
  "session_price_text in_per_1k_au out_per_1k_au =
     \<lparr>sp_rate_map = text_generation_rate_map in_per_1k_au out_per_1k_au\<rparr>"

definition au_for_usage :: "session_price_au \<Rightarrow> receipt_usage \<Rightarrow> money_au" where
  "au_for_usage p usage = usage_map_au (sp_rate_map p) usage"

record open_attempt =
  oa_provider :: provider_key
  oa_attempt :: u8
  oa_started_at_millis :: u64
  oa_deadline_at_millis :: u64

datatype open_retry_decision =
  Retry (next_attempt: u8) (cooled_until_millis: u64)
| Exhausted (cooled_until_millis: u64)

record receipt_checkpoint =
  rc_seq :: u64
  rc_final_receipt :: bool
  rc_usage :: receipt_usage
  rc_au_owed_cum :: money_au
  rc_uncheckpointed_usage :: receipt_usage
  rc_reason :: string
  rc_ts_millis :: u64

datatype redispatch_mode = FullMessageHistoryClientSide

record redispatch_plan =
  rp_stalled_provider :: provider_key
  rp_cooled_until_millis :: u64
  rp_partial_receipt :: receipt_checkpoint
  rp_mode :: redispatch_mode

record hedge_plan =
  hp_probes :: "provider_key list"

record hedge_outcome =
  ho_winner :: provider_key
  ho_losers_to_close :: "provider_key list"
  ho_spend_allowed :: bool

record hedge_race =
  hr_probes :: "provider_key list"
  hr_winner :: "provider_key option"
  hr_losers_open :: "(provider_key, unit) btree"
  hr_spend_started :: bool

record session_failover_state =
  sf_policy :: failover_policy
  sf_price :: session_price_au
  sf_input_tokens :: u64
  sf_delivered_output_tokens :: u64
  sf_last_receipted_usage :: receipt_usage
  sf_last_receipted_au :: money_au
  sf_next_receipt_seq :: u64
  sf_open_attempts :: u8
  sf_cooloffs :: "(provider_key, u64) btree"
  sf_active_provider :: "provider_key option"
  sf_last_delta_at_millis :: "u64 option"
  sf_last_receipt_at_millis :: u64

datatype failover_error =
  OpenAttemptsExhausted
| ProviderInCooloff u64
| NoActiveProvider
| NonActiveProvider
| UnexpectedReceiptSeq u64 u64
| ReceiptUsageRegression
| ReceiptMuRegression
| UnknownHedgeProvider
| HedgeWinnerAlreadyChosen
| HedgeSpendBeforeLosersClosed nat
| HedgeProviderNotWinner

section \<open>The session state\<close>

definition session_new :: "failover_policy \<Rightarrow> session_price_au \<Rightarrow> u64 \<Rightarrow> u64 \<Rightarrow> session_failover_state" where
  "session_new policy price n_input started_at_millis =
     \<lparr>sf_policy = policy, sf_price = price, sf_input_tokens = n_input,
      sf_delivered_output_tokens = 0, sf_last_receipted_usage = usage_default,
      sf_last_receipted_au = 0, sf_next_receipt_seq = 1, sf_open_attempts = 0, sf_cooloffs = [],
      sf_active_provider = None, sf_last_delta_at_millis = None,
      sf_last_receipt_at_millis = started_at_millis\<rparr>"

definition current_usage :: "session_failover_state \<Rightarrow> receipt_usage" where
  "current_usage s = usage_text (sf_input_tokens s) (sf_delivered_output_tokens s)"

definition cooloff_until :: "session_failover_state \<Rightarrow> provider_key \<Rightarrow> u64 option" where
  "cooloff_until s provider = bt_get (sf_cooloffs s) provider"

definition provider_in_cooloff :: "session_failover_state \<Rightarrow> provider_key \<Rightarrow> u64 \<Rightarrow> bool" where
  "provider_in_cooloff s provider now =
     (case cooloff_until s provider of None \<Rightarrow> False | Some u \<Rightarrow> u > now)"

definition available_candidates ::
    "session_failover_state \<Rightarrow> provider_key list \<Rightarrow> u64 \<Rightarrow> provider_key list" where
  "available_candidates s candidates now = filter (\<lambda>c. \<not> provider_in_cooloff s c now) candidates"

definition cool_provider ::
    "session_failover_state \<Rightarrow> provider_key \<Rightarrow> u64 \<Rightarrow> u64 \<times> session_failover_state" where
  "cool_provider s provider now =
     (let cooled_until = sat_add now (provider_cooloff_millis (sf_policy s))
      in (cooled_until, s\<lparr>sf_cooloffs := bt_insert provider cooled_until (sf_cooloffs s)\<rparr>))"

definition require_active_provider ::
    "session_failover_state \<Rightarrow> provider_key \<Rightarrow> (failover_error, unit) result" where
  "require_active_provider s provider =
     (case sf_active_provider s of
        Some active \<Rightarrow> if active = provider then Inr () else Inl NonActiveProvider
      | None \<Rightarrow> Inl NoActiveProvider)"

definition start_open_attempt ::
    "session_failover_state \<Rightarrow> provider_key \<Rightarrow> u64 \<Rightarrow>
       (failover_error, open_attempt) result \<times> session_failover_state" where
  "start_open_attempt s provider now =
     (if sf_open_attempts s \<ge> max_open_attempts (sf_policy s) then (Inl OpenAttemptsExhausted, s)
      else case Option.bind (cooloff_until s provider) (\<lambda>u. if u > now then Some u else None) of
        Some until_millis \<Rightarrow> (Inl (ProviderInCooloff until_millis), s)
      | None \<Rightarrow>
          (let s' = s\<lparr>sf_open_attempts := sat_add (sf_open_attempts s) 1,
                      sf_active_provider := Some provider\<rparr>
           in (Inr \<lparr>oa_provider = provider, oa_attempt = sf_open_attempts s',
                    oa_started_at_millis = now,
                    oa_deadline_at_millis = sat_add now (open_timeout_millis (sf_policy s'))\<rparr>, s')))"

definition open_attempt_timed_out :: "open_attempt \<Rightarrow> u64 \<Rightarrow> bool" where
  "open_attempt_timed_out attempt now \<longleftrightarrow> now \<ge> oa_deadline_at_millis attempt"

definition record_open_timeout ::
    "session_failover_state \<Rightarrow> provider_key \<Rightarrow> u64 \<Rightarrow> open_retry_decision \<times> session_failover_state" where
  "record_open_timeout s provider now =
     (case cool_provider s provider now of (cooled_until, s1) \<Rightarrow>
        let s2 = (if sf_active_provider s1 = Some provider then s1\<lparr>sf_active_provider := None\<rparr> else s1)
        in (if sf_open_attempts s2 < max_open_attempts (sf_policy s2)
            then Retry (sat_add (sf_open_attempts s2) 1) cooled_until
            else Exhausted cooled_until, s2))"

definition record_open_success ::
    "session_failover_state \<Rightarrow> provider_key \<Rightarrow> u64 \<Rightarrow> session_failover_state" where
  "record_open_success s provider now =
     s\<lparr>sf_active_provider := Some provider, sf_last_delta_at_millis := Some now\<rparr>"

definition checkpoint_due :: "session_failover_state \<Rightarrow> u64 \<Rightarrow> bool" where
  "checkpoint_due s now =
     (let current = current_usage s;
          output_delta = sat_sub (output_tokens current) (output_tokens (sf_last_receipted_usage s));
          input_delta = sat_sub (input_tokens current) (input_tokens (sf_last_receipted_usage s));
          every = checkpoint_every (sf_policy s)
      in if output_delta = 0 \<and> input_delta = 0 then False
         else (let output_tokens_due = (output_delta > 0 \<and>
                                          (cp_tokens every = 0 \<or> output_delta \<ge> cp_tokens every));
                   time_due = (cp_ms every = 0 \<or>
                               sat_sub now (sf_last_receipt_at_millis s) \<ge> cp_ms every)
               in output_tokens_due \<or> time_due))"

definition usage_delta :: "receipt_usage \<Rightarrow> receipt_usage \<Rightarrow> receipt_usage" where
  "usage_delta previous current = saturating_delta previous current"

definition make_checkpoint ::
    "session_failover_state \<Rightarrow> bool \<Rightarrow> string \<Rightarrow> u64 \<Rightarrow> receipt_checkpoint" where
  "make_checkpoint s final_receipt reason now =
     (let usage = current_usage s
      in \<lparr>rc_seq = sf_next_receipt_seq s, rc_final_receipt = final_receipt, rc_usage = usage,
          rc_au_owed_cum = au_for_usage (sf_price s) usage,
          rc_uncheckpointed_usage = usage_delta (sf_last_receipted_usage s) usage,
          rc_reason = reason, rc_ts_millis = now\<rparr>)"

definition record_delta ::
    "session_failover_state \<Rightarrow> provider_key \<Rightarrow> u64 \<Rightarrow> u64 \<Rightarrow>
       (failover_error, receipt_checkpoint option) result \<times> session_failover_state" where
  "record_delta s provider n_output now =
     (case require_active_provider s provider of
        Inl e \<Rightarrow> (Inl e, s)
      | Inr _ \<Rightarrow>
          (let s' = s\<lparr>sf_delivered_output_tokens := sat_add (sf_delivered_output_tokens s) n_output,
                      sf_last_delta_at_millis := Some now\<rparr>
           in (Inr (if checkpoint_due s' now then Some (make_checkpoint s' False ''checkpoint'' now)
                    else None), s')))"

definition record_receipt_cosigned ::
    "session_failover_state \<Rightarrow> receipt_checkpoint \<Rightarrow> u64 \<Rightarrow>
       (failover_error, unit) result \<times> session_failover_state" where
  "record_receipt_cosigned s checkpoint now =
     (if rc_seq checkpoint \<noteq> sf_next_receipt_seq s
      then (Inl (UnexpectedReceiptSeq (sf_next_receipt_seq s) (rc_seq checkpoint)), s)
      else if \<not> is_monotonic_from (rc_usage checkpoint) (sf_last_receipted_usage s)
      then (Inl ReceiptUsageRegression, s)
      else if rc_au_owed_cum checkpoint < sf_last_receipted_au s
      then (Inl ReceiptMuRegression, s)
      else (Inr (), s\<lparr>sf_last_receipted_usage := rc_usage checkpoint,
                      sf_last_receipted_au := rc_au_owed_cum checkpoint,
                      sf_last_receipt_at_millis := now,
                      sf_next_receipt_seq := sat_add (sf_next_receipt_seq s) 1\<rparr>))"

definition midstream_stalled :: "session_failover_state \<Rightarrow> u64 \<Rightarrow> bool" where
  "midstream_stalled s now =
     (case stall_timeout_millis (sf_policy s) of
        None \<Rightarrow> False
      | Some timeout \<Rightarrow> midstream_stalled_after (sf_last_delta_at_millis s) now timeout)"

definition record_midstream_stall ::
    "session_failover_state \<Rightarrow> u64 \<Rightarrow> redispatch_plan option \<times> session_failover_state" where
  "record_midstream_stall s now =
     (if \<not> midstream_stalled s now then (None, s)
      else case sf_active_provider s of
        None \<Rightarrow> (None, s)
      | Some stalled_provider \<Rightarrow>
          (case cool_provider s stalled_provider now of (cooled_until, s1) \<Rightarrow>
             let s2 = s1\<lparr>sf_active_provider := None\<rparr>
             in (Some \<lparr>rp_stalled_provider = stalled_provider, rp_cooled_until_millis = cooled_until,
                       rp_partial_receipt = make_checkpoint s2 False ''mid_stream_stall'' now,
                       rp_mode = FullMessageHistoryClientSide\<rparr>, s2)))"

definition x_mayhem_hedge_requested :: "string option \<Rightarrow> bool" where
  "x_mayhem_hedge_requested v = (case v of None \<Rightarrow> False | Some t \<Rightarrow> str_trim t = ''1'')"

definition plan_hedge ::
    "session_failover_state \<Rightarrow> provider_key list \<Rightarrow> string option \<Rightarrow> u64 \<Rightarrow> hedge_plan option" where
  "plan_hedge s candidates header_value now =
     (if \<not> hedge_enabled (sf_policy s) \<or> \<not> x_mayhem_hedge_requested header_value then None
      else (let probes = take 2 (available_candidates s candidates now)
            in if length probes = 2 then Some \<lparr>hp_probes = probes\<rparr> else None))"

section \<open>The hedge race\<close>

definition hedge_from_plan :: "hedge_plan \<Rightarrow> hedge_race" where
  "hedge_from_plan plan =
     \<lparr>hr_probes = hp_probes plan, hr_winner = None, hr_losers_open = [], hr_spend_started = False\<rparr>"

definition spend_allowed :: "hedge_race \<Rightarrow> bool" where
  "spend_allowed r \<longleftrightarrow> hr_winner r \<noteq> None \<and> hr_losers_open r = []"

definition bset_collect :: "'k::linorder list \<Rightarrow> ('k, unit) btree" where
  "bset_collect ks = fold (\<lambda>k. bt_insert k ()) ks []"

definition record_first_response ::
    "hedge_race \<Rightarrow> provider_key \<Rightarrow> (failover_error, hedge_outcome) result \<times> hedge_race" where
  "record_first_response r provider =
     (if hr_winner r \<noteq> None then (Inl HedgeWinnerAlreadyChosen, r)
      else if \<not> list_ex (\<lambda>probe. probe = provider) (hr_probes r) then (Inl UnknownHedgeProvider, r)
      else (let r' = r\<lparr>hr_winner := Some provider,
                       hr_losers_open := bset_collect (filter (\<lambda>p. p \<noteq> provider) (hr_probes r))\<rparr>
            in (Inr \<lparr>ho_winner = provider, ho_losers_to_close = map fst (hr_losers_open r'),
                     ho_spend_allowed = spend_allowed r'\<rparr>, r')))"

definition close_loser :: "hedge_race \<Rightarrow> provider_key \<Rightarrow> (failover_error, unit) result \<times> hedge_race" where
  "close_loser r provider =
     (if bt_get (hr_losers_open r) provider = None then (Inl UnknownHedgeProvider, r)
      else (Inr (), r\<lparr>hr_losers_open := bt_remove provider (hr_losers_open r)\<rparr>))"

definition start_spend :: "hedge_race \<Rightarrow> provider_key \<Rightarrow> (failover_error, unit) result \<times> hedge_race" where
  "start_spend r provider =
     (if hr_winner r \<noteq> Some provider then (Inl HedgeProviderNotWinner, r)
      else if hr_losers_open r \<noteq> []
      then (Inl (HedgeSpendBeforeLosersClosed (length (hr_losers_open r))), r)
      else (Inr (), r\<lparr>hr_spend_started := True\<rparr>))"

section \<open>A session driven by a sequence of calls\<close>

text \<open>
  The calls a gateway makes on one session, in the order it makes them, together with what the
  session handed out: the open attempts it granted and the checkpoints it issued.
\<close>

datatype session_op =
  OpenOp provider_key u64
| TimeoutOp provider_key u64
| SuccessOp provider_key u64
| DeltaOp provider_key u64 u64
| IssueOp bool string u64
| CosignOp receipt_checkpoint u64
| StallOp u64

record session_run =
  sr_state :: session_failover_state
  sr_opened :: "open_attempt list"
  sr_issued :: "receipt_checkpoint list"

definition session_start :: "failover_policy \<Rightarrow> session_price_au \<Rightarrow> u64 \<Rightarrow> u64 \<Rightarrow> session_run" where
  "session_start policy price n_input t =
     \<lparr>sr_state = session_new policy price n_input t, sr_opened = [], sr_issued = []\<rparr>"

fun session_step :: "session_op \<Rightarrow> session_run \<Rightarrow> session_run" where
  "session_step (OpenOp p now) r =
     (case start_open_attempt (sr_state r) p now of
        (Inr a, s) \<Rightarrow> r\<lparr>sr_state := s, sr_opened := sr_opened r @ [a]\<rparr>
      | (Inl _, s) \<Rightarrow> r\<lparr>sr_state := s\<rparr>)"
| "session_step (TimeoutOp p now) r = r\<lparr>sr_state := snd (record_open_timeout (sr_state r) p now)\<rparr>"
| "session_step (SuccessOp p now) r = r\<lparr>sr_state := record_open_success (sr_state r) p now\<rparr>"
| "session_step (DeltaOp p n now) r =
     (case record_delta (sr_state r) p n now of
        (Inr (Some c), s) \<Rightarrow> r\<lparr>sr_state := s, sr_issued := sr_issued r @ [c]\<rparr>
      | (_, s) \<Rightarrow> r\<lparr>sr_state := s\<rparr>)"
| "session_step (IssueOp fin why now) r =
     r\<lparr>sr_issued := sr_issued r @ [make_checkpoint (sr_state r) fin why now]\<rparr>"
| "session_step (CosignOp c now) r = r\<lparr>sr_state := snd (record_receipt_cosigned (sr_state r) c now)\<rparr>"
| "session_step (StallOp now) r =
     (case record_midstream_stall (sr_state r) now of
        (Some plan, s) \<Rightarrow> r\<lparr>sr_state := s, sr_issued := sr_issued r @ [rp_partial_receipt plan]\<rparr>
      | (None, s) \<Rightarrow> r\<lparr>sr_state := s\<rparr>)"

text \<open>A gateway that cosigns only the checkpoints this session issued.\<close>

definition own_step :: "session_op \<Rightarrow> session_run \<Rightarrow> session_run" where
  "own_step op r =
     (case op of CosignOp c now \<Rightarrow> if c \<in> set (sr_issued r) then session_step op r else r
      | _ \<Rightarrow> session_step op r)"

fun op_now :: "session_op \<Rightarrow> u64" where
  "op_now (OpenOp _ t) = t"
| "op_now (TimeoutOp _ t) = t"
| "op_now (SuccessOp _ t) = t"
| "op_now (DeltaOp _ _ t) = t"
| "op_now (IssueOp _ _ t) = t"
| "op_now (CosignOp _ t) = t"
| "op_now (StallOp t) = t"

named_theorems session_defs
lemmas session_op_defs [session_defs] =
  start_open_attempt_def record_open_timeout_def record_open_success_def record_delta_def
  record_receipt_cosigned_def record_midstream_stall_def cool_provider_def require_active_provider_def
  Let_def

lemma session_step_policy [simp]:
  "sf_policy (sr_state (session_step op r)) = sf_policy (sr_state r)"
  "sf_price (sr_state (session_step op r)) = sf_price (sr_state r)"
  "sf_input_tokens (sr_state (session_step op r)) = sf_input_tokens (sr_state r)"
  by (cases op; auto simp: session_defs split: option.splits sum.splits if_splits prod.splits)+

lemmas session_splits = option.splits sum.splits if_splits prod.splits

subsection \<open>Open attempts\<close>

definition attempts_ok :: "session_run \<Rightarrow> bool" where
  "attempts_ok r \<longleftrightarrow>
     sf_open_attempts (sr_state r) \<le> max_open_attempts (sf_policy (sr_state r)) \<and>
     map (\<lambda>a. unat (oa_attempt a)) (sr_opened r) = [1..<Suc (unat (sf_open_attempts (sr_state r)))]"

lemma sat_add_1_below: "a < b \<Longrightarrow> unat (sat_add a 1 :: 'a::len word) = Suc (unat a)"
  unfolding unat_sat_add word_less_nat_alt using unat_le_max [of b] by simp

lemma open_attempts_step:
  "session_step op r = r' \<Longrightarrow>
     sf_open_attempts (sr_state r') = sf_open_attempts (sr_state r) \<and> sr_opened r' = sr_opened r \<or>
     sf_open_attempts (sr_state r) < max_open_attempts (sf_policy (sr_state r)) \<and>
     sf_open_attempts (sr_state r') = sat_add (sf_open_attempts (sr_state r)) 1 \<and>
     (\<exists>a. sr_opened r' = sr_opened r @ [a] \<and> oa_attempt a = sf_open_attempts (sr_state r'))"
  by (cases op) (auto simp: session_defs not_le split: session_splits)

lemma attempts_ok_step: "attempts_ok r \<Longrightarrow> attempts_ok (session_step op r)"
  using open_attempts_step [OF refl, of op r]
proof (elim disjE conjE exE)
  fix a assume ok: "attempts_ok r"
    and lt: "sf_open_attempts (sr_state r) < max_open_attempts (sf_policy (sr_state r))"
    and st: "sf_open_attempts (sr_state (session_step op r)) = sat_add (sf_open_attempts (sr_state r)) 1"
      "sr_opened (session_step op r) = sr_opened r @ [a]"
      "oa_attempt a = sf_open_attempts (sr_state (session_step op r))"
  have u: "unat (sat_add (sf_open_attempts (sr_state r)) 1) = Suc (unat (sf_open_attempts (sr_state r)))"
    using lt by (rule sat_add_1_below)
  then have "sat_add (sf_open_attempts (sr_state r)) 1 \<le> max_open_attempts (sf_policy (sr_state r))"
    using lt unfolding word_le_nat_alt word_less_nat_alt by simp
  then show "attempts_ok (session_step op r)" using ok u by (simp add: attempts_ok_def st)
qed (simp add: attempts_ok_def)

interpretation session: machine session_step attempts_ok
  by unfold_locales (rule attempts_ok_step)

lemma attempts_ok_start: "attempts_ok (session_start policy price n t)"
  by (simp add: attempts_ok_def session_start_def session_new_def)

lemma start_open_attempt_refusals:
  "fst (start_open_attempt s p now) = Inl OpenAttemptsExhausted \<longleftrightarrow>
     max_open_attempts (sf_policy s) \<le> sf_open_attempts s"
  "(\<exists>a. fst (start_open_attempt s p now) = Inr a) \<longleftrightarrow>
     sf_open_attempts s < max_open_attempts (sf_policy s) \<and> \<not> provider_in_cooloff s p now"
  by (auto simp: session_defs provider_in_cooloff_def not_le split: session_splits option.splits)

subsection \<open>Amounts and sequence numbers never fall\<close>


lemma receipted_step_le:
  "sf_last_receipted_au (sr_state r) \<le> sf_last_receipted_au (sr_state (session_step op r)) \<and>
   sf_next_receipt_seq (sr_state r) \<le> sf_next_receipt_seq (sr_state (session_step op r))"
  by (cases op) (simp_all add: session_defs not_less sat_add_upper split: session_splits)

interpretation any_session: machine session_step "\<lambda>_. True"
  by unfold_locales

subsection \<open>Checkpoints\<close>

definition session_ok :: "session_run \<Rightarrow> bool" where
  "session_ok r \<longleftrightarrow>
     (let s = sr_state r in
        usage_wf (sf_last_receipted_usage s) \<and>
        is_monotonic_from (current_usage s) (sf_last_receipted_usage s) \<and>
        sf_last_receipted_au s \<le> au_for_usage (sf_price s) (sf_last_receipted_usage s) \<and>
        (\<forall>c \<in> set (sr_issued r).
           usage_wf (rc_usage c) \<and> is_monotonic_from (current_usage s) (rc_usage c) \<and>
           rc_au_owed_cum c = au_for_usage (sf_price s) (rc_usage c) \<and>
           rc_seq c \<le> sf_next_receipt_seq s \<and>
           (rc_seq c = sf_next_receipt_seq s \<and> sf_next_receipt_seq s \<noteq> - 1 \<longrightarrow>
              is_monotonic_from (rc_usage c) (sf_last_receipted_usage s))))"

lemma usage_wf_current [simp]: "usage_wf (current_usage s)"
  by (simp add: current_usage_def)

lemma session_ok_start: "session_ok (session_start policy price n t)"
  by (simp add: session_ok_def session_start_def session_new_def Let_def)

text \<open>
  Every call but a cosignature leaves the receipted usage, the amount and the sequence number as
  they are, does not shrink the current usage, and issues at most a checkpoint of the new state.
\<close>

definition progress :: "session_run \<Rightarrow> session_run \<Rightarrow> bool" where
  "progress r r' \<longleftrightarrow>
     (let s = sr_state r; s' = sr_state r' in
        sf_price s' = sf_price s \<and> sf_last_receipted_usage s' = sf_last_receipted_usage s \<and>
        sf_last_receipted_au s' = sf_last_receipted_au s \<and>
        sf_next_receipt_seq s' = sf_next_receipt_seq s \<and>
        is_monotonic_from (current_usage s') (current_usage s) \<and>
        (sr_issued r' = sr_issued r \<or>
         (\<exists>fin why t. sr_issued r' = sr_issued r @ [make_checkpoint s' fin why t])))"

lemma make_checkpoint_cong:
  "sf_price s' = sf_price s \<Longrightarrow> sf_last_receipted_usage s' = sf_last_receipted_usage s \<Longrightarrow>
   sf_next_receipt_seq s' = sf_next_receipt_seq s \<Longrightarrow> current_usage s' = current_usage s \<Longrightarrow>
     make_checkpoint s' fin why t = make_checkpoint s fin why t"
  by (simp add: make_checkpoint_def Let_def)

lemma progress_step:
  assumes "\<And>c t. op \<noteq> CosignOp c t"
  shows "progress r (session_step op r)"
  using assms
  by (cases op)
     (auto simp: progress_def session_defs current_usage_def sat_add_upper split: session_splits)

lemma progress_ok:
  assumes "session_ok r" "progress r r'"
  shows "session_ok r'"
proof -
  let ?s = "sr_state r" and ?s' = "sr_state r'"
  have keep: "sf_price ?s' = sf_price ?s" "sf_last_receipted_usage ?s' = sf_last_receipted_usage ?s"
    "sf_last_receipted_au ?s' = sf_last_receipted_au ?s" "sf_next_receipt_seq ?s' = sf_next_receipt_seq ?s"
    and cur: "is_monotonic_from (current_usage ?s') (current_usage ?s)"
    using assms(2) by (simp_all add: progress_def Let_def)
  have up: "usage_wf u \<Longrightarrow> is_monotonic_from (current_usage ?s) u \<Longrightarrow> is_monotonic_from (current_usage ?s') u" for u
    by (rule is_monotonic_from_trans [OF cur]) simp_all
  have last: "is_monotonic_from (current_usage ?s') (sf_last_receipted_usage ?s)"
    using assms(1) by (intro up) (simp_all add: session_ok_def Let_def)
  have "sr_issued r' = sr_issued r \<or>
        (\<exists>fin why t. sr_issued r' = sr_issued r @ [make_checkpoint ?s' fin why t])"
    using assms(2) by (simp add: progress_def Let_def)
  then show ?thesis
    using assms(1) up last
    by (auto simp: session_ok_def Let_def keep make_checkpoint_def)
qed

text \<open>A fresh checkpoint, or an issued one with the awaited sequence number, is accepted.\<close>

lemma au_for_usage_mono:
  "usage_wf p \<Longrightarrow> usage_wf u \<Longrightarrow> is_monotonic_from u p \<Longrightarrow> au_for_usage price p \<le> au_for_usage price u"
  unfolding au_for_usage_def by (rule map_tariff.charge_le)

lemma record_receipt_accepts:
  assumes "session_ok r" "usage_wf (rc_usage c)"
    and "rc_au_owed_cum c = au_for_usage (sf_price (sr_state r)) (rc_usage c)"
    and "rc_seq c = sf_next_receipt_seq (sr_state r)"
    and "is_monotonic_from (rc_usage c) (sf_last_receipted_usage (sr_state r))"
  shows "record_receipt_cosigned (sr_state r) c now =
    (Inr (), (sr_state r)\<lparr>sf_last_receipted_usage := rc_usage c, sf_last_receipted_au := rc_au_owed_cum c,
              sf_last_receipt_at_millis := now,
              sf_next_receipt_seq := sat_add (sf_next_receipt_seq (sr_state r)) 1\<rparr>)"
proof -
  have wf: "usage_wf (sf_last_receipted_usage (sr_state r))"
    and au: "sf_last_receipted_au (sr_state r) \<le>
             au_for_usage (sf_price (sr_state r)) (sf_last_receipted_usage (sr_state r))"
    using assms(1) by (simp_all add: session_ok_def Let_def)
  have "sf_last_receipted_au (sr_state r) \<le> rc_au_owed_cum c"
    unfolding assms(3) by (rule order_trans [OF au au_for_usage_mono [OF wf assms(2,5)]])
  then show ?thesis using assms(4,5) by (simp add: record_receipt_cosigned_def not_less)
qed

lemma seq_after_le: "(x::u64) \<le> y \<Longrightarrow> x = sat_add y 1 \<Longrightarrow> y = - 1"
proof -
  assume a: "x \<le> y" "x = sat_add y 1"
  then have "min (unat y + 1) (2 ^ 64 - 1) \<le> unat y"
    using unat_sat_add [of y 1] by (simp add: word_le_nat_alt)
  then have "unat y = unat (- 1 :: u64)" using unat_le_max [of y] by (simp add: unat_max min_def split: if_splits)
  then show "y = - 1" by (simp add: word_unat_eq_iff)
qed

lemma cosign_ok:
  assumes ok: "session_ok r" and c: "c \<in> set (sr_issued r)"
  shows "session_ok (session_step (CosignOp c now) r)"
proof (cases "snd (record_receipt_cosigned (sr_state r) c now) = sr_state r")
  case True
  then show ?thesis using ok by simp
next
  case False
  let ?s = "sr_state r"
  let ?s' = "?s\<lparr>sf_last_receipted_usage := rc_usage c, sf_last_receipted_au := rc_au_owed_cum c,
                sf_last_receipt_at_millis := now, sf_next_receipt_seq := sat_add (sf_next_receipt_seq ?s) 1\<rparr>"
  have s': "snd (record_receipt_cosigned ?s c now) = ?s'"
    using False by (auto simp: record_receipt_cosigned_def split: if_splits)
  have cur: "current_usage (?s\<lparr>sf_last_receipted_usage := a, sf_last_receipted_au := b,
      sf_last_receipt_at_millis := d, sf_next_receipt_seq := e\<rparr>) = current_usage ?s" for a b d e
    by (simp add: current_usage_def)
  have issued: "usage_wf (rc_usage d)" "is_monotonic_from (current_usage ?s) (rc_usage d)"
    "rc_au_owed_cum d = au_for_usage (sf_price ?s) (rc_usage d)" "rc_seq d \<le> sf_next_receipt_seq ?s"
    if "d \<in> set (sr_issued r)" for d
    using ok that by (simp_all add: session_ok_def Let_def)
  have "rc_seq d \<noteq> sat_add (sf_next_receipt_seq ?s) 1 \<or> sat_add (sf_next_receipt_seq ?s) 1 = - 1"
    if "d \<in> set (sr_issued r)" for d
    using seq_after_le [OF issued(4) [OF that]] issued(4) [OF that]
    by (metis sat_add_upper word_order.extremum_unique)
  then show ?thesis
    using issued c unfolding session_ok_def Let_def
    by (auto simp: s' cur intro: order_trans [OF issued(4) sat_add_upper])
qed

lemma own_step_ok: "session_ok r \<Longrightarrow> session_ok (own_step op r)"
  by (cases op) (auto simp del: session_step.simps simp: own_step_def
      intro: progress_ok [OF _ progress_step] cosign_ok)

interpretation own: machine own_step session_ok
  by unfold_locales (rule own_step_ok)

lemma own_step_cases: "own_step op r = session_step op r \<or> own_step op r = r"
  by (cases op) (auto simp: own_step_def)

lemma own_run_price:
  "sf_price (sr_state (fold own_step ops r)) = sf_price (sr_state r)"
proof (induction ops arbitrary: r)
  case (Cons op ops)
  then show ?case using own_step_cases [of op r] by auto
qed simp

section \<open>Properties of a session\<close>

text \<open>
  C14. In a session in which only checkpoints of the session itself were presented as cosigned, whatever
  else the gateway did (opens, deltas, timeouts, stalls, more checkpoints), a checkpoint of the current
  state is accepted, and so is every earlier checkpoint that carries the sequence number the session
  waits for, as long as that number is not the last \<open>u64\<close>: the usage and amount become those of the
  checkpoint, priced by the session's rate map, and the sequence number advances by one.
\<close>

theorem checkpoints_accepted:
  assumes "r = fold own_step ops (session_start policy price n t)"
  shows "fst (record_receipt_cosigned (sr_state r) (make_checkpoint (sr_state r) fin why now) now) = Inr () \<and>
         (\<forall>c. c \<in> set (sr_issued r) \<longrightarrow> rc_seq c = sf_next_receipt_seq (sr_state r) \<longrightarrow> sf_next_receipt_seq (sr_state r) \<noteq> - 1 \<longrightarrow>
            (\<exists>s'. record_receipt_cosigned (sr_state r) c now = (Inr (), s') \<and>
               sf_last_receipted_usage s' = rc_usage c \<and>
               sf_last_receipted_au s' = au_for_usage price (rc_usage c) \<and>
               unat (sf_next_receipt_seq s') = Suc (unat (sf_next_receipt_seq (sr_state r)))))"
proof (intro conjI allI impI)
  have ok: "session_ok r" unfolding assms(1) by (rule own.run_inv [OF session_ok_start])
  have "is_monotonic_from (current_usage (sr_state r)) (sf_last_receipted_usage (sr_state r))"
    using ok by (simp add: session_ok_def Let_def)
  then show "fst (record_receipt_cosigned (sr_state r) (make_checkpoint (sr_state r) fin why now) now) = Inr ()"
    by (subst record_receipt_accepts [OF ok]) (simp_all add: make_checkpoint_def Let_def)
  have price: "sf_price (sr_state r) = price"
    unfolding assms(1) own_run_price by (simp add: session_start_def session_new_def)
  fix c
  assume iss: "c \<in> set (sr_issued r)" and aw: "rc_seq c = sf_next_receipt_seq (sr_state r)" and last: "sf_next_receipt_seq (sr_state r) \<noteq> - 1"
  have c: "usage_wf (rc_usage c)" "rc_au_owed_cum c = au_for_usage (sf_price (sr_state r)) (rc_usage c)"
    "is_monotonic_from (rc_usage c) (sf_last_receipted_usage (sr_state r))"
    using ok iss aw last by (simp_all add: session_ok_def Let_def)
  have "sf_next_receipt_seq (sr_state r) < - 1"
    using last by (simp add: order_less_le)
  then have seq: "unat (sat_add (sf_next_receipt_seq (sr_state r)) 1) = Suc (unat (sf_next_receipt_seq (sr_state r)))"
    by (rule sat_add_1_below)
  show "\<exists>s'. record_receipt_cosigned (sr_state r) c now = (Inr (), s') \<and>
            sf_last_receipted_usage s' = rc_usage c \<and>
            sf_last_receipted_au s' = au_for_usage price (rc_usage c) \<and>
            unat (sf_next_receipt_seq s') = Suc (unat (sf_next_receipt_seq (sr_state r)))"
    unfolding record_receipt_accepts [OF ok c(1,2) aw c(3)] using seq c(2) price by simp
qed

theorem checkpoints_accepted_witness:
  "\<exists>s'. record_receipt_cosigned
          (sr_state (fold own_step [IssueOp False ''checkpoint'' 5]
             (session_start failover_policy_default (session_price_text 10 100) 128 0)))
          (make_checkpoint (session_new failover_policy_default (session_price_text 10 100) 128 0)
             False ''checkpoint'' 5) 9 = (Inr (), s') \<and>
        sf_last_receipted_usage s' = usage_text 128 0"
proof -
  let ?r = "fold own_step [IssueOp False ''checkpoint'' 5]
             (session_start failover_policy_default (session_price_text 10 100) 128 0)"
  let ?c = "make_checkpoint (session_new failover_policy_default (session_price_text 10 100) 128 0)
             False ''checkpoint'' 5"
  have "?c \<in> set (sr_issued ?r)" "rc_seq ?c = sf_next_receipt_seq (sr_state ?r)"
    "sf_next_receipt_seq (sr_state ?r) \<noteq> - 1" "rc_usage ?c = usage_text 128 0"
    by (simp_all add: own_step_def session_start_def make_checkpoint_def session_new_def Let_def current_usage_def)
  then show ?thesis using checkpoints_accepted [OF refl, THEN conjunct2, THEN spec, of ?c] by metis
qed

text \<open>
  C8. Billing never regresses, even when the gateway feeds back checkpoints that are not its own:
  over any sequence of calls the receipted amount and the awaited sequence number do not fall. And
  with its own checkpoints the receipted usage stays below the delivered usage, the receipted amount
  below its price, and the receipted usage plus the uncheckpointed usage is the delivered usage.
\<close>

theorem billing_never_regresses:
  "sf_last_receipted_au (sr_state r) \<le> sf_last_receipted_au (sr_state (fold session_step ops r)) \<and>
   sf_next_receipt_seq (sr_state r) \<le> sf_next_receipt_seq (sr_state (fold session_step ops r)) \<and>
   (let s = sr_state (fold own_step ops (session_start policy price n t)) in
      is_monotonic_from (current_usage s) (sf_last_receipted_usage s) \<and>
      sf_last_receipted_au s \<le> au_for_usage price (current_usage s) \<and>
      saturating_add_usage (sf_last_receipted_usage s)
        (rc_uncheckpointed_usage (make_checkpoint s fin why now)) = current_usage s)"
proof (intro conjI)
  show "sf_last_receipted_au (sr_state r) \<le> sf_last_receipted_au (sr_state (fold session_step ops r))"
    by (rule any_session.run_mono) (simp_all only: receipted_step_le)
  show "sf_next_receipt_seq (sr_state r) \<le> sf_next_receipt_seq (sr_state (fold session_step ops r))"
    by (rule any_session.run_mono) (simp_all only: receipted_step_le)
  let ?r = "fold own_step ops (session_start policy price n t)" and ?s = "sr_state (fold own_step ops (session_start policy price n t))"
  have ok: "session_ok ?r" by (rule own.run_inv [OF session_ok_start])
  have price: "sf_price ?s = price"
    unfolding own_run_price by (simp add: session_start_def session_new_def)
  have last: "usage_wf (sf_last_receipted_usage ?s)" "is_monotonic_from (current_usage ?s) (sf_last_receipted_usage ?s)"
    "sf_last_receipted_au ?s \<le> au_for_usage price (sf_last_receipted_usage ?s)"
    using ok price by (simp_all add: session_ok_def Let_def)
  have "sf_last_receipted_au ?s \<le> au_for_usage price (current_usage ?s)"
    using last(3) au_for_usage_mono [OF last(1) usage_wf_current last(2)] by (rule order_trans)
  moreover have "saturating_add_usage (sf_last_receipted_usage ?s)
      (saturating_delta (sf_last_receipted_usage ?s) (current_usage ?s)) = current_usage ?s"
    by (rule saturating_add_delta) (use last in simp_all)
  ultimately show "let s = ?s in is_monotonic_from (current_usage s) (sf_last_receipted_usage s) \<and>
      sf_last_receipted_au s \<le> au_for_usage price (current_usage s) \<and>
      saturating_add_usage (sf_last_receipted_usage s)
        (rc_uncheckpointed_usage (make_checkpoint s fin why now)) = current_usage s"
    using last(2) by (simp add: Let_def make_checkpoint_def usage_delta_def)
qed

text \<open>
  A session never opens more often than its policy allows: after any sequence of calls the
  attempts granted are numbered 1, 2, 3, ... in order and there are at most \<open>max_open_attempts\<close> of
  them; a further attempt is refused as exhausted exactly when that many were granted, and is
  granted exactly when fewer were and the provider is not cooling off.
\<close>

lemma open_attempts_bounded:
  "let r = fold session_step ops (session_start policy price n t); s = sr_state r in
     map (\<lambda>a. unat (oa_attempt a)) (sr_opened r) = [1..<Suc (length (sr_opened r))] \<and>
     length (sr_opened r) \<le> unat (max_open_attempts policy) \<and>
     (fst (start_open_attempt s p now) = Inl OpenAttemptsExhausted \<longleftrightarrow>
        length (sr_opened r) = unat (max_open_attempts policy)) \<and>
     ((\<exists>a. fst (start_open_attempt s p now) = Inr a) \<longleftrightarrow>
        length (sr_opened r) < unat (max_open_attempts policy) \<and> \<not> provider_in_cooloff s p now)"
proof -
  let ?r = "fold session_step ops (session_start policy price n t)"
  have ok: "attempts_ok ?r" by (rule session.run_inv [OF attempts_ok_start])
  have pol: "sf_policy (sr_state ?r) = policy"
    by (subst any_session.run_stable [where f = "\<lambda>r. sf_policy (sr_state r)"])
       (simp_all add: session_start_def session_new_def)
  have nums: "map (\<lambda>a. unat (oa_attempt a)) (sr_opened ?r) = [1..<Suc (unat (sf_open_attempts (sr_state ?r)))]"
    using ok by (simp add: attempts_ok_def)
  then have len: "length (sr_opened ?r) = unat (sf_open_attempts (sr_state ?r))"
    by (metis length_map length_upt diff_Suc_1)
  have le: "unat (sf_open_attempts (sr_state ?r)) \<le> unat (max_open_attempts policy)"
    using ok pol by (simp add: attempts_ok_def word_le_nat_alt)
  show ?thesis
    using nums le by (simp add: Let_def start_open_attempt_refusals pol len word_le_nat_alt word_less_nat_alt) linarith
qed

lemma provider_in_cooloff_iff:
  "provider_in_cooloff s p now \<longleftrightarrow> (\<exists>u. cooloff_until s p = Some u \<and> now < u)"
  by (simp add: provider_in_cooloff_def split: option.split)

lemma cooloff_until_step:
  "cooloff_until (sr_state (session_step op r)) p = cooloff_until (sr_state r) p \<or>
   cooloff_until (sr_state (session_step op r)) p =
     Some (sat_add (op_now op) (provider_cooloff_millis (sf_policy (sr_state r))))"
  by (cases op) (auto simp: session_defs cooloff_until_def btree_simps split: session_splits)

lemma sat_add_mono: "a \<le> b \<Longrightarrow> sat_add a c \<le> sat_add b (c :: 'a::len word)"
  unfolding word_le_nat_alt unat_sat_add by simp

lemma cooloff_kept:
  assumes "cooloff_until (sr_state r) p = Some u" "u0 \<le> u"
    and "u0 = sat_add tc (provider_cooloff_millis (sf_policy (sr_state r)))"
    and "\<And>op. op \<in> set ops \<Longrightarrow> tc \<le> op_now op"
  shows "\<exists>u'. cooloff_until (sr_state (fold session_step ops r)) p = Some u' \<and> u0 \<le> u'"
  using assms
proof (induction ops arbitrary: r u)
  case (Cons op ops)
  have "u0 \<le> sat_add (op_now op) (provider_cooloff_millis (sf_policy (sr_state r)))"
    using Cons.prems(3,4) by (simp add: sat_add_mono)
  then obtain u1 where "cooloff_until (sr_state (session_step op r)) p = Some u1" "u0 \<le> u1"
    using cooloff_until_step [of op r p] Cons.prems(1,2) by auto
  then show ?case using Cons.IH [of "session_step op r" u1] Cons.prems(3,4) by simp
qed auto

text \<open>
  A provider that timed out or stalled at time \<open>tc\<close> is left alone for its cooloff: whatever the
  gateway calls next, as long as its clock does not run backwards, until \<open>tc\<close> plus the cooloff the
  provider is not an available candidate, is not probed by a hedge, and an attempt to open it is
  refused; the other providers' cooloffs are untouched by the event.
\<close>

lemma cooled_provider_excluded:
  assumes "op = TimeoutOp p tc \<or>
           (op = StallOp tc \<and> sf_active_provider (sr_state rc) = Some p \<and> midstream_stalled (sr_state rc) tc)"
    and "s = sr_state (fold session_step (op # ops) rc)"
    and "\<forall>op \<in> set ops. tc \<le> op_now op"
    and "now < sat_add tc (provider_cooloff_millis (sf_policy (sr_state rc)))"
  shows "p \<notin> set (available_candidates s cands now) \<and>
         (\<forall>plan. plan_hedge s cands header now = Some plan \<longrightarrow> p \<notin> set (hp_probes plan)) \<and>
         (\<exists>e. fst (start_open_attempt s p now) = Inl e) \<and>
         (q \<noteq> p \<longrightarrow> cooloff_until (sr_state (session_step op rc)) q = cooloff_until (sr_state rc) q)"
proof -
  let ?u0 = "sat_add tc (provider_cooloff_millis (sf_policy (sr_state rc)))"
  have "sf_cooloffs (sr_state (session_step op rc)) = bt_insert p ?u0 (sf_cooloffs (sr_state rc))"
    using assms(1) by (elim disjE conjE) (simp_all add: session_defs)
  then have first: "cooloff_until (sr_state (session_step op rc)) p = Some ?u0"
    and other: "q \<noteq> p \<longrightarrow> cooloff_until (sr_state (session_step op rc)) q = cooloff_until (sr_state rc) q"
    by (simp_all add: cooloff_until_def btree_simps)
  have "?u0 = sat_add tc (provider_cooloff_millis (sf_policy (sr_state (session_step op rc))))" by simp
  from cooloff_kept [OF first order_refl this] assms(3)
  obtain u where u: "cooloff_until s p = Some u" "?u0 \<le> u"
    unfolding assms(2) fold_simps by blast
  then have cool: "provider_in_cooloff s p now"
    unfolding provider_in_cooloff_iff using assms(4) by (blast intro: less_le_trans)
  then have av: "p \<notin> set (available_candidates s cands now)" by (simp add: available_candidates_def)
  moreover have "\<forall>plan. plan_hedge s cands header now = Some plan \<longrightarrow> p \<notin> set (hp_probes plan)"
    using av by (auto simp: plan_hedge_def Let_def split: if_splits dest: in_set_takeD)
  moreover have "\<exists>e. fst (start_open_attempt s p now) = Inl e"
    using cool start_open_attempt_refusals(2) [of s p now] by (cases "fst (start_open_attempt s p now)") auto
  ultimately show ?thesis using other by blast
qed

lemma cooled_provider_excluded_witness:
  "let p = ProviderKey ''a'' ''b'' ''c'';
       rc = session_start failover_policy_default (session_price_text 10 100) 128 0;
       s = sr_state (fold session_step [TimeoutOp p 1000, OpenOp (ProviderKey ''d'' ''e'' ''f'') 1500] rc)
   in p \<notin> set (available_candidates s [p] 20000)"
proof -
  let ?p = "ProviderKey ''a'' ''b'' ''c''" and ?ops = "[OpenOp (ProviderKey ''d'' ''e'' ''f'') 1500]"
  let ?r = "session_start failover_policy_default (session_price_text 10 100) 128 0"
  have "20000 < sat_add 1000 (provider_cooloff_millis (sf_policy (sr_state ?r)))"
    by (simp add: session_start_def session_new_def failover_policy_default_def
        DEFAULT_PROVIDER_COOLOFF_MILLIS_def sat_add_def)
  then show ?thesis
    unfolding Let_def
    using cooled_provider_excluded [where op = "TimeoutOp ?p 1000" and p = ?p and tc = 1000
        and rc = ?r and ops = ?ops and now = 20000 and cands = "[?p]", OF disjI1 [OF refl] refl] by simp
qed

lemma sat_sub_eq_0: "sat_sub a b = (0 :: 'a::len word) \<longleftrightarrow> unat a \<le> unat b"
  unfolding word_unat_eq_iff unat_sat_sub by simp

lemma not_due_bound:
  assumes "\<not> checkpoint_due s now"
  shows "(unat (output_tokens (current_usage s)) \<le> unat (output_tokens (sf_last_receipted_usage s)) \<and>
          unat (input_tokens (current_usage s)) \<le> unat (input_tokens (sf_last_receipted_usage s))) \<or>
         (unat (output_tokens (current_usage s)) <
            unat (output_tokens (sf_last_receipted_usage s)) + max 1 (unat (cp_tokens (checkpoint_every (sf_policy s)))) \<and>
          unat now < unat (sf_last_receipt_at_millis s) + unat (cp_ms (checkpoint_every (sf_policy s))))"
proof -
  let ?o = "output_tokens (current_usage s)" and ?l = "output_tokens (sf_last_receipted_usage s)"
  let ?e = "checkpoint_every (sf_policy s)"
  show ?thesis
  proof (cases "sat_sub ?o ?l = 0 \<and> sat_sub (input_tokens (current_usage s)) (input_tokens (sf_last_receipted_usage s)) = 0")
    case True
    then show ?thesis by (simp add: sat_sub_eq_0)
  next
    case False
    then have nd: "\<not> (sat_sub ?o ?l > 0 \<and> (cp_tokens ?e = 0 \<or> sat_sub ?o ?l \<ge> cp_tokens ?e))"
      "\<not> (cp_ms ?e = 0 \<or> sat_sub now (sf_last_receipt_at_millis s) \<ge> cp_ms ?e)"
      using assms unfolding checkpoint_due_def Let_def by auto
    from nd(1) have "unat ?o < unat ?l + max 1 (unat (cp_tokens ?e))"
      unfolding word_less_nat_alt word_le_nat_alt word_unat_eq_iff unat_sat_sub by auto
    moreover from nd(2) have "unat now < unat (sf_last_receipt_at_millis s) + unat (cp_ms ?e)"
      unfolding word_le_nat_alt word_unat_eq_iff unat_sat_sub by auto
    ultimately show ?thesis by blast
  qed
qed

text \<open>
  Unreceipted output is bounded: when a delta is accepted without a checkpoint, either the usage
  has not grown since the last receipt, or less than the policy's token quantum of output is
  unreceipted and the policy's interval since the last receipt has not passed. When a checkpoint is
  produced it bills all that was delivered, the new tokens included.
\<close>

lemma delta_checkpoint_policy:
  assumes "record_delta s p k now = (Inr mc, s')"
  shows "sf_active_provider s = Some p \<and>
         unat (sf_delivered_output_tokens s') =
           min (unat (sf_delivered_output_tokens s) + unat k) (2 ^ 64 - 1) \<and>
         (mc = None \<longrightarrow>
            (unat (output_tokens (current_usage s')) \<le> unat (output_tokens (sf_last_receipted_usage s)) \<and>
             unat (input_tokens (current_usage s')) \<le> unat (input_tokens (sf_last_receipted_usage s))) \<or>
            (unat (output_tokens (current_usage s')) <
               unat (output_tokens (sf_last_receipted_usage s)) + max 1 (unat (cp_tokens (checkpoint_every (sf_policy s)))) \<and>
             unat now < unat (sf_last_receipt_at_millis s) + unat (cp_ms (checkpoint_every (sf_policy s))))) \<and>
         (\<forall>c. mc = Some c \<longrightarrow>
            rc_usage c = usage_text (sf_input_tokens s) (sf_delivered_output_tokens s') \<and>
            rc_au_owed_cum c = usage_map_au (sp_rate_map (sf_price s)) (rc_usage c) \<and>
            rc_seq c = sf_next_receipt_seq s \<and> \<not> rc_final_receipt c)"
proof -
  have act: "sf_active_provider s = Some p"
    using assms by (auto simp: record_delta_def require_active_provider_def split: option.splits if_splits)
  let ?s = "s\<lparr>sf_delivered_output_tokens := sat_add (sf_delivered_output_tokens s) k,
              sf_last_delta_at_millis := Some now\<rparr>"
  have s': "s' = ?s" and mc: "mc = (if checkpoint_due s' now then Some (make_checkpoint s' False ''checkpoint'' now) else None)"
    using assms act by (auto simp: record_delta_def require_active_provider_def Let_def)
  have keep: "sf_last_receipted_usage s' = sf_last_receipted_usage s" "sf_policy s' = sf_policy s"
    "sf_last_receipt_at_millis s' = sf_last_receipt_at_millis s" "sf_input_tokens s' = sf_input_tokens s"
    "sf_price s' = sf_price s" "sf_next_receipt_seq s' = sf_next_receipt_seq s"
    by (simp_all add: s')
  have "\<not> checkpoint_due s' now" if "mc = None" using that mc by (simp split: if_splits)
  then have none: "mc = None \<Longrightarrow>
      (unat (output_tokens (current_usage s')) \<le> unat (output_tokens (sf_last_receipted_usage s)) \<and>
       unat (input_tokens (current_usage s')) \<le> unat (input_tokens (sf_last_receipted_usage s))) \<or>
      (unat (output_tokens (current_usage s')) <
         unat (output_tokens (sf_last_receipted_usage s)) + max 1 (unat (cp_tokens (checkpoint_every (sf_policy s)))) \<and>
       unat now < unat (sf_last_receipt_at_millis s) + unat (cp_ms (checkpoint_every (sf_policy s))))"
    by (rule not_due_bound [unfolded keep, of s' now, unfolded keep])
  show ?thesis
    using act none mc by (auto simp: s' unat_sat_add make_checkpoint_def current_usage_def au_for_usage_def Let_def)
qed

lemma delta_checkpoint_policy_witness:
  "let s = record_open_success (session_new failover_policy_default (session_price_text 10 100) 128 0)
             (ProviderKey ''a'' ''b'' ''c'') 0
   in unat (sf_delivered_output_tokens (snd (record_delta s (ProviderKey ''a'' ''b'' ''c'') 9000 5))) = 9000"
proof -
  let ?p = "ProviderKey ''a'' ''b'' ''c''"
  let ?s = "record_open_success (session_new failover_policy_default (session_price_text 10 100) 128 0) ?p 0"
  obtain mc s' where d: "record_delta ?s ?p 9000 5 = (Inr mc, s')"
    by (simp add: record_delta_def require_active_provider_def record_open_success_def Let_def)
  have "sf_delivered_output_tokens ?s = 0" by (simp add: record_open_success_def session_new_def)
  then show ?thesis using delta_checkpoint_policy [OF d] d by simp
qed

section \<open>Properties of the hedge race\<close>

datatype hedge_op = FirstResponse provider_key | CloseLoser provider_key | StartSpend provider_key

fun hedge_step :: "hedge_op \<Rightarrow> hedge_race \<Rightarrow> hedge_race" where
  "hedge_step (FirstResponse p) r = snd (record_first_response r p)"
| "hedge_step (CloseLoser p) r = snd (close_loser r p)"
| "hedge_step (StartSpend p) r = snd (start_spend r p)"

lemma set_bset_collect: "fst ` set (bset_collect ks) = set ks"
proof -
  have "fst ` set (fold (\<lambda>k. bt_insert k ()) ks m) = set ks \<union> fst ` set m" for m
    by (induction ks arbitrary: m) (simp_all add: set_bt_insert)
  then show ?thesis by (simp add: bset_collect_def)
qed

lemma set_bt_remove: "fst ` set (bt_remove k m) = fst ` set m - {k}"
  by (auto simp: bt_remove_def image_iff)

definition hedge_ok :: "hedge_race \<Rightarrow> bool" where
  "hedge_ok r \<longleftrightarrow>
     (case hr_winner r of
        None \<Rightarrow> hr_losers_open r = [] \<and> \<not> hr_spend_started r
      | Some w \<Rightarrow> w \<in> set (hr_probes r) \<and> fst ` set (hr_losers_open r) \<subseteq> set (hr_probes r) - {w} \<and>
                 (hr_spend_started r \<longrightarrow> hr_losers_open r = []))"

lemma hedge_ok_step: "hedge_ok r \<Longrightarrow> hedge_ok (hedge_step op r)"
proof (cases op)
  case (FirstResponse p)
  assume "hedge_ok r"
  then show ?thesis
    using FirstResponse
    by (auto simp: hedge_ok_def record_first_response_def Let_def set_bset_collect list_ex_iff split: option.splits)
next
  case (CloseLoser p)
  assume ok: "hedge_ok r"
  have "bt_remove p [] = []" by (simp add: bt_remove_def)
  with ok show ?thesis
    using CloseLoser set_bt_remove [of p "hr_losers_open r"]
    by (auto simp: hedge_ok_def close_loser_def split: option.splits)
next
  case (StartSpend p)
  assume "hedge_ok r"
  then show ?thesis
    using StartSpend by (auto simp: hedge_ok_def start_spend_def split: option.splits)
qed

interpretation hedge: machine hedge_step hedge_ok
  by unfold_locales (rule hedge_ok_step)

lemma hedge_ok_start: "hedge_ok (hedge_from_plan plan)"
  by (simp add: hedge_ok_def hedge_from_plan_def)

lemma hedge_probes_step [simp]: "hr_probes (hedge_step op r) = hr_probes r"
  by (cases op) (simp_all add: record_first_response_def close_loser_def start_spend_def Let_def)

lemma hedge_winner_stable: "hr_winner r = Some w \<Longrightarrow> hr_winner (hedge_step op r) = Some w"
  by (cases op) (simp_all add: record_first_response_def close_loser_def start_spend_def Let_def)

lemma hedge_run_probes: "hr_probes (fold hedge_step ops (hedge_from_plan plan)) = hp_probes plan"
proof -
  have "hr_probes (fold hedge_step ops (hedge_from_plan plan)) = hr_probes (hedge_from_plan plan)"
    by (rule hedge.run_stable) (simp_all add: hedge_ok_start)
  then show ?thesis by (simp add: hedge_from_plan_def)
qed

text \<open>Every probe that lost is either still open or was closed by a call after the winner was chosen.\<close>

lemma hedge_losers_accounted:
  "hr_winner (fold hedge_step ops (hedge_from_plan plan)) = Some w \<Longrightarrow>
     set (hp_probes plan) - {w} \<subseteq>
       fst ` set (hr_losers_open (fold hedge_step ops (hedge_from_plan plan))) \<union> {p. CloseLoser p \<in> set ops}"
proof (induction ops rule: rev_induct)
  case Nil
  then show ?case by (simp add: hedge_from_plan_def)
next
  case (snoc op ops)
  let ?r = "fold hedge_step ops (hedge_from_plan plan)"
  have probes: "hr_probes ?r = hp_probes plan" by (rule hedge_run_probes)
  have step: "hr_winner (hedge_step op ?r) = Some w" using snoc.prems by simp
  show ?case
  proof (cases "hr_winner ?r")
    case None
    with step have "op = FirstResponse w" "hr_losers_open (hedge_step op ?r) = bset_collect (filter (\<lambda>p. p \<noteq> w) (hp_probes plan))"
      using probes by (cases op; auto simp: record_first_response_def close_loser_def start_spend_def Let_def split: if_splits)+
    then show ?thesis by (auto simp: set_bset_collect)
  next
    case (Some w')
    then have "w' = w" using step hedge_winner_stable by fastforce
    then have IH: "set (hp_probes plan) - {w} \<subseteq> fst ` set (hr_losers_open ?r) \<union> {p. CloseLoser p \<in> set ops}"
      using snoc.IH Some by blast
    have "fst ` set (hr_losers_open ?r) \<subseteq> fst ` set (hr_losers_open (hedge_step op ?r)) \<union> {p. op = CloseLoser p}"
      using Some
      by (cases op) (auto simp: record_first_response_def close_loser_def start_spend_def set_bt_remove)
    with IH show ?thesis by auto
  qed
qed

lemma fold_close_losers:
  "fold (\<lambda>p. hedge_step (CloseLoser p)) (map fst m) r = r\<lparr>hr_losers_open := []\<rparr>"
  if "hr_losers_open r = m" "distinct (map fst m)"
  using that
proof (induction m arbitrary: r)
  case (Cons x m)
  obtain k u where x: "x = (k, u)" by (cases x)
  have "bt_remove k m = m"
    using Cons.prems(2) x unfolding bt_remove_def filter_id_conv by force
  then have "snd (close_loser r k) = r\<lparr>hr_losers_open := m\<rparr>"
    using Cons.prems(1) x by (simp add: close_loser_def) (simp add: bt_remove_def)
  then show ?case using Cons.IH [of "r\<lparr>hr_losers_open := m\<rparr>"] Cons.prems x by simp
qed simp

lemma bt_wf_bset_collect: "bt_wf (bset_collect ks)"
proof -
  have "bt_wf m \<Longrightarrow> bt_wf (fold (\<lambda>k. bt_insert k ()) ks m)" for m
    by (induction ks arbitrary: m) auto
  then show ?thesis by (simp add: bset_collect_def)
qed

text \<open>
  C15. The client of a hedge race never spends on two providers: over any sequence of calls, once
  spending has started there is exactly one winner, it is one of the probes, every other probe was
  closed, and the winner cannot change; a spend is accepted only on the winner.
\<close>

theorem hedge_spend_safety:
  assumes "r = fold hedge_step ops (hedge_from_plan plan)" "hr_spend_started r"
  shows "\<exists>w. hr_winner r = Some w \<and> w \<in> set (hp_probes plan) \<and> hr_losers_open r = [] \<and>
             (\<forall>p \<in> set (hp_probes plan) - {w}. CloseLoser p \<in> set ops) \<and>
             hr_winner (fold hedge_step ops' r) = Some w \<and>
             (\<forall>p. fst (start_spend r p) = Inr () \<longleftrightarrow> p = w)"
proof -
  have ok: "hedge_ok r" unfolding assms(1) by (rule hedge.run_inv [OF hedge_ok_start])
  have probes: "hr_probes r = hp_probes plan" unfolding assms(1) by (rule hedge_run_probes)
  from ok assms(2) obtain w where w: "hr_winner r = Some w" "w \<in> set (hp_probes plan)" "hr_losers_open r = []"
    using probes by (auto simp: hedge_ok_def split: option.splits)
  have "\<forall>p \<in> set (hp_probes plan) - {w}. CloseLoser p \<in> set ops"
    using hedge_losers_accounted [of ops plan w] w unfolding assms(1) by auto
  moreover have "hr_winner (fold hedge_step ops' r) = Some w"
    using w(1)
  proof (induction ops' arbitrary: r)
    case (Cons op ops')
    then show ?case using hedge_winner_stable by (metis fold_simps(2))
  qed simp
  moreover have "\<forall>p. fst (start_spend r p) = Inr () \<longleftrightarrow> p = w" using w by (auto simp: start_spend_def)
  ultimately show ?thesis using w by blast
qed

theorem hedge_spend_safety_witness:
  "let a = ProviderKey ''a'' ''x'' ''r''; b = ProviderKey ''b'' ''y'' ''r'';
       r = fold hedge_step [FirstResponse b, StartSpend b, CloseLoser a, StartSpend b] (hedge_from_plan \<lparr>hp_probes = [a, b]\<rparr>)
   in hr_spend_started r \<and> hr_winner r = Some b"
proof -
  let ?a = "ProviderKey ''a'' ''x'' ''r''" and ?b = "ProviderKey ''b'' ''y'' ''r''"
  let ?r = "fold hedge_step [FirstResponse ?b, StartSpend ?b, CloseLoser ?a, StartSpend ?b] (hedge_from_plan \<lparr>hp_probes = [?a, ?b]\<rparr>)"
  have run: "hr_spend_started ?r" "fst (start_spend ?r ?b) = Inr ()"
    by (simp_all add: hedge_from_plan_def record_first_response_def start_spend_def close_loser_def
        bset_collect_def bt_remove_def Let_def)
  obtain w where "hr_winner ?r = Some w" "fst (start_spend ?r ?b) = Inr () \<longleftrightarrow> ?b = w"
    using hedge_spend_safety [OF refl run(1)] by metis
  then show ?thesis unfolding Let_def using run by simp
qed

text \<open>
  C39. A hedge race can always be finished: once a probe has answered first, closing the losers the
  outcome names allows the spend on the winner, and not before if there is one.
\<close>

theorem hedge_race_completes:
  assumes "record_first_response r p = (Inr outcome, r')"
  shows "ho_winner outcome = p \<and> p \<in> set (hr_probes r) \<and>
         set (ho_losers_to_close outcome) = set (hr_probes r) - {p} \<and>
         (ho_spend_allowed outcome \<longleftrightarrow> set (hr_probes r) \<subseteq> {p}) \<and>
         (let r'' = fold (\<lambda>q. hedge_step (CloseLoser q)) (ho_losers_to_close outcome) r'
          in spend_allowed r'' \<and> fst (start_spend r'' p) = Inr ())"
proof -
  let ?m = "bset_collect (filter (\<lambda>q. q \<noteq> p) (hr_probes r))"
  have r': "r' = r\<lparr>hr_winner := Some p, hr_losers_open := ?m\<rparr>" and p: "p \<in> set (hr_probes r)"
    and o: "ho_winner outcome = p" "ho_losers_to_close outcome = map fst ?m"
      "ho_spend_allowed outcome = spend_allowed r'"
    using assms by (auto simp: record_first_response_def Let_def list_ex_iff split: if_splits)
  have "distinct (map fst ?m)" by (rule bt_wf_distinct [OF bt_wf_bset_collect])
  then have fin: "fold (\<lambda>q. hedge_step (CloseLoser q)) (map fst ?m) r' = r'\<lparr>hr_losers_open := []\<rparr>"
    by (intro fold_close_losers) (simp_all add: r')
  have set_m: "fst ` set ?m = set (hr_probes r) - {p}" by (auto simp: set_bset_collect)
  then have "?m = [] \<longleftrightarrow> set (hr_probes r) \<subseteq> {p}" by (metis Diff_eq_empty_iff image_is_empty set_empty)
  then show ?thesis
    unfolding o fin Let_def using p set_m by (simp add: r' spend_allowed_def start_spend_def)
qed

theorem hedge_race_completes_witness:
  "let a = ProviderKey ''a'' ''x'' ''r''; b = ProviderKey ''b'' ''y'' ''r'';
       race = hedge_from_plan \<lparr>hp_probes = [a, b]\<rparr>;
       r' = snd (record_first_response race b)
   in \<not> spend_allowed r' \<and> spend_allowed (hedge_step (CloseLoser a) r')"
proof -
  let ?a = "ProviderKey ''a'' ''x'' ''r''" and ?b = "ProviderKey ''b'' ''y'' ''r''"
  let ?race = "hedge_from_plan \<lparr>hp_probes = [?a, ?b]\<rparr>"
  have e: "record_first_response ?race ?b =
      (Inr \<lparr>ho_winner = ?b, ho_losers_to_close = [?a], ho_spend_allowed = False\<rparr>,
       ?race\<lparr>hr_winner := Some ?b, hr_losers_open := [(?a, ())]\<rparr>)"
    by (simp add: record_first_response_def hedge_from_plan_def Let_def bset_collect_def spend_allowed_def)
  show ?thesis
    using hedge_race_completes [OF e] unfolding Let_def e by (simp add: spend_allowed_def)
qed

end
