(* ===== verification/Payload_Chunks.thy ===== *)
theory Payload_Chunks
  imports Mayhem_Prelude
begin

text \<open>
  Chunked payloads of \<open>mayhem-proto/src/lib.rs\<close>: splitting a payload into hex-encoded chunks under
  a manifest of digests, batch reassembly, and the incremental collector with its limits. The
  parameter \<open>blake\<close> is \<open>blake3_hex\<close>, the hex form of the third-party BLAKE3 digest.
\<close>

unbundle bit_operations_syntax

section \<open>Hexadecimal\<close>

definition HEX :: string where "HEX = ''0123456789abcdef''"

definition hex_encode :: "u8 list \<Rightarrow> string" where
  "hex_encode bytes = concat (map (\<lambda>byte. [HEX ! unat (drop_bit 4 byte), HEX ! unat (byte AND 0x0F)]) bytes)"

definition hex_nibble :: "u8 \<Rightarrow> u8 option" where
  "hex_nibble byte =
     (if 0x30 \<le> byte \<and> byte \<le> 0x39 then Some (byte - 0x30)
      else if 0x61 \<le> byte \<and> byte \<le> 0x66 then Some (byte - 0x61 + 10)
      else if 0x41 \<le> byte \<and> byte \<le> 0x46 then Some (byte - 0x41 + 10)
      else None)"

definition is_hex_len :: "string \<Rightarrow> nat \<Rightarrow> bool" where
  "is_hex_len v len \<longleftrightarrow> length v = len \<and> list_all (\<lambda>c. is_ascii_hexdigit (byte_of c)) v"

section \<open>Data\<close>

definition SESSION_PAYLOAD_CHUNK_SCHEMA_VERSION :: u32 where "SESSION_PAYLOAD_CHUNK_SCHEMA_VERSION = 1"
definition SESSION_PAYLOAD_CHUNK_ENCODING :: string where "SESSION_PAYLOAD_CHUNK_ENCODING = ''hex''"

record payload_chunk_manifest =
  pm_schema_version :: u32
  pm_encoding :: string
  pm_total_len :: u64
  pm_chunk_size :: u64
  pm_chunk_count :: u64
  pm_blake3 :: string
  pm_chunks :: "string list"

record payload_chunk =
  pc_i :: u64
  pc_offset :: u64
  pc_len :: u64
  pc_blake3 :: string
  pc_encoding :: string
  pc_data :: string
  pc_final_chunk :: bool

record payload_chunk_collector =
  col_max_total_len :: nat
  col_max_chunks :: nat
  col_bytes :: "u8 list"
  col_chunk_hashes :: "string list"
  col_chunk_lengths :: "u64 list"
  col_final_seen :: bool

datatype payload_chunk_error =
  EmptyChunkSize
| UnsupportedSchemaVersion u32
| UnsupportedEncoding string
| LengthOverflow
| InvalidDigest string
| InvalidHex string
| MissingChunk u64
| DuplicateChunk u64
| ReorderedChunk u64 u64
| ChunkHashMismatch u64 string string
| RootHashMismatch string string
| OffsetMismatch u64 u64 u64
| LenMismatch u64 u64 u64
| FinalFlagMismatch u64
| TotalLenMismatch u64 u64
| ChunkCountMismatch u64 u64
| PayloadTooLarge u64 u64
| TooManyChunks u64 u64
| ChunkAfterFinal u64
| Json string

definition u64s :: "u64 \<Rightarrow> string" where "u64s w = show_nat (unat w)"

fun payload_chunk_error_fmt :: "payload_chunk_error \<Rightarrow> string" where
  "payload_chunk_error_fmt EmptyChunkSize = ''payload chunk size must be greater than zero''"
| "payload_chunk_error_fmt (UnsupportedSchemaVersion v) =
     ''unsupported payload chunk schema version '' @ show_nat (unat v)"
| "payload_chunk_error_fmt (UnsupportedEncoding encoding) = ''unsupported payload chunk encoding '' @ encoding"
| "payload_chunk_error_fmt LengthOverflow = ''payload length overflowed target integer''"
| "payload_chunk_error_fmt (InvalidDigest label) = label @ '' must be a 32-byte hex digest''"
| "payload_chunk_error_fmt (InvalidHex label) = label @ '' is not valid hex''"
| "payload_chunk_error_fmt (MissingChunk i) = ''payload chunk '' @ u64s i @ '' is missing''"
| "payload_chunk_error_fmt (DuplicateChunk i) = ''payload chunk '' @ u64s i @ '' is duplicated''"
| "payload_chunk_error_fmt (ReorderedChunk expected got) =
     ''payload chunks are reordered: expected '' @ u64s expected @ '', got '' @ u64s got"
| "payload_chunk_error_fmt (ChunkHashMismatch i expected got) =
     ''payload chunk '' @ u64s i @ '' blake3 mismatch: expected '' @ expected @ '', got '' @ got"
| "payload_chunk_error_fmt (RootHashMismatch expected got) =
     ''payload blake3 mismatch: expected '' @ expected @ '', got '' @ got"
| "payload_chunk_error_fmt (OffsetMismatch i expected got) =
     ''payload chunk '' @ u64s i @ '' offset mismatch: expected '' @ u64s expected @ '', got '' @ u64s got"
| "payload_chunk_error_fmt (LenMismatch i expected got) =
     ''payload chunk '' @ u64s i @ '' length mismatch: expected '' @ u64s expected @ '', got '' @ u64s got"
| "payload_chunk_error_fmt (FinalFlagMismatch i) = ''payload chunk '' @ u64s i @ '' final flag mismatch''"
| "payload_chunk_error_fmt (TotalLenMismatch expected got) =
     ''payload total length mismatch: expected '' @ u64s expected @ '', got '' @ u64s got"
| "payload_chunk_error_fmt (ChunkCountMismatch expected got) =
     ''payload chunk count mismatch: expected '' @ u64s expected @ '', got '' @ u64s got"
| "payload_chunk_error_fmt (PayloadTooLarge m got) =
     ''payload length '' @ u64s got @ '' exceeds the '' @ u64s m @ ''-byte limit''"
| "payload_chunk_error_fmt (TooManyChunks m got) =
     ''payload chunk count '' @ u64s got @ '' exceeds the '' @ u64s m @ ''-chunk limit''"
| "payload_chunk_error_fmt (ChunkAfterFinal i) =
     ''payload chunk '' @ u64s i @ '' arrived after the final chunk''"
| "payload_chunk_error_fmt (Json message) = ''payload JSON error: '' @ message"

fun hex_decode_loop :: "string \<Rightarrow> string \<Rightarrow> (payload_chunk_error, u8 list) result" where
  "hex_decode_loop label [] = Inr []"
| "hex_decode_loop label [_] = Inr []"
| "hex_decode_loop label (a # b # rest) =
     rbind (ok_or (hex_nibble (byte_of a)) (InvalidHex label)) (\<lambda>high.
     rbind (ok_or (hex_nibble (byte_of b)) (InvalidHex label)) (\<lambda>low.
     rbind (hex_decode_loop label rest) (\<lambda>out.
     Inr ((push_bit 4 high OR low) # out))))"

definition hex_decode :: "string \<Rightarrow> string \<Rightarrow> (payload_chunk_error, u8 list) result" where
  "hex_decode v label =
     (if length v mod 2 \<noteq> 0 then Inl (InvalidHex label) else hex_decode_loop label v)"

section \<open>Validation\<close>

fun validate_digests :: "nat \<Rightarrow> string list \<Rightarrow> (payload_chunk_error, unit) result" where
  "validate_digests index [] = Inr ()"
| "validate_digests index (hash # rest) =
     (if \<not> is_hex_len hash 64
      then Inl (InvalidDigest (''payload chunk '' @ show_nat index @ '' blake3''))
      else validate_digests (Suc index) rest)"

definition validate_payload_manifest :: "payload_chunk_manifest \<Rightarrow> (payload_chunk_error, unit) result" where
  "validate_payload_manifest manifest =
     (if pm_schema_version manifest \<noteq> SESSION_PAYLOAD_CHUNK_SCHEMA_VERSION
      then Inl (UnsupportedSchemaVersion (pm_schema_version manifest))
      else if pm_encoding manifest \<noteq> SESSION_PAYLOAD_CHUNK_ENCODING
      then Inl (UnsupportedEncoding (pm_encoding manifest))
      else if pm_chunk_size manifest = 0 \<and> pm_chunk_count manifest > 0 then Inl EmptyChunkSize
      else if \<not> is_hex_len (pm_blake3 manifest) 64 then Inl (InvalidDigest ''payload blake3'')
      else rbind (u64_try (length (pm_chunks manifest)) LengthOverflow) (\<lambda>declared_count.
        if declared_count \<noteq> pm_chunk_count manifest
        then Inl (ChunkCountMismatch (pm_chunk_count manifest) declared_count)
        else validate_digests 0 (pm_chunks manifest)))"

definition validate_payload_chunk :: "payload_chunk \<Rightarrow> (payload_chunk_error, unit) result" where
  "validate_payload_chunk chunk =
     (if pc_encoding chunk \<noteq> SESSION_PAYLOAD_CHUNK_ENCODING
      then Inl (UnsupportedEncoding (pc_encoding chunk))
      else if \<not> is_hex_len (pc_blake3 chunk) 64
      then Inl (InvalidDigest (''payload chunk '' @ u64s (pc_i chunk) @ '' blake3''))
      else Inr ())"

section \<open>Chunking\<close>

function chunks_of :: "nat \<Rightarrow> 'a list \<Rightarrow> 'a list list" where
  "chunks_of n xs = (if n = 0 \<or> xs = [] then [] else take n xs # chunks_of n (drop n xs))"
  by pat_completeness auto
termination by (relation "measure (length \<circ> snd)") auto

declare chunks_of.simps [simp del]

definition payload_chunk_manifest_of ::
    "(u8 list \<Rightarrow> string) \<Rightarrow> u8 list \<Rightarrow> nat \<Rightarrow> (payload_chunk_error, payload_chunk_manifest) result" where
  "payload_chunk_manifest_of blake bytes chunk_size =
     (if chunk_size = 0 then Inl EmptyChunkSize
      else rbind (u64_try (length bytes) LengthOverflow) (\<lambda>total_len.
           rbind (u64_try chunk_size LengthOverflow) (\<lambda>chunk_size_u64.
           let root = blake bytes; chunk_hashes = map blake (chunks_of chunk_size bytes)
           in rbind (u64_try (length chunk_hashes) LengthOverflow) (\<lambda>chunk_count.
              Inr \<lparr>pm_schema_version = SESSION_PAYLOAD_CHUNK_SCHEMA_VERSION,
                   pm_encoding = SESSION_PAYLOAD_CHUNK_ENCODING, pm_total_len = total_len,
                   pm_chunk_size = chunk_size_u64, pm_chunk_count = chunk_count,
                   pm_blake3 = root, pm_chunks = chunk_hashes\<rparr>))))"

definition payload_chunk_at ::
    "(u8 list \<Rightarrow> string) \<Rightarrow> u8 list \<Rightarrow> nat \<Rightarrow> u64 \<Rightarrow> (payload_chunk_error, payload_chunk option) result" where
  "payload_chunk_at blake bytes chunk_size index =
     (if chunk_size = 0 then Inl EmptyChunkSize
      else if unat index * chunk_size \<ge> 2 ^ 64 then Inl LengthOverflow
      else (let offset = unat index * chunk_size
            in if offset \<ge> length bytes then Inr None
               else (let stop = min (min (offset + chunk_size) (2 ^ 64 - 1)) (length bytes);
                         chunk = take (stop - offset) (drop offset bytes)
                     in rbind (u64_try offset LengthOverflow) (\<lambda>off.
                        rbind (u64_try (length chunk) LengthOverflow) (\<lambda>len.
                        Inr (Some \<lparr>pc_i = index, pc_offset = off, pc_len = len, pc_blake3 = blake chunk,
                                   pc_encoding = SESSION_PAYLOAD_CHUNK_ENCODING,
                                   pc_data = hex_encode chunk,
                                   pc_final_chunk = (stop = length bytes)\<rparr>))))))"

definition chunk_payload_bytes ::
    "(u8 list \<Rightarrow> string) \<Rightarrow> u8 list \<Rightarrow> nat \<Rightarrow>
       (payload_chunk_error, payload_chunk_manifest \<times> payload_chunk list) result" where
  "chunk_payload_bytes blake bytes chunk_size =
     rbind (payload_chunk_manifest_of blake bytes chunk_size) (\<lambda>manifest.
     rbind (rmap (\<lambda>i. rbind (payload_chunk_at blake bytes chunk_size (of_nat i)) (\<lambda>c.
                      ok_or c (MissingChunk (of_nat i))))
                 [0..<unat (pm_chunk_count manifest)]) (\<lambda>chunks.
     Inr (manifest, chunks)))"

section \<open>Batch reassembly\<close>

text \<open>One iteration of the loop: the vector of seen indices and the bytes so far.\<close>

definition reassemble_chunk ::
    "(u8 list \<Rightarrow> string) \<Rightarrow> payload_chunk_manifest \<Rightarrow> nat \<Rightarrow> nat \<Rightarrow> payload_chunk \<Rightarrow> bool list \<times> u8 list \<Rightarrow>
       (payload_chunk_error, bool list \<times> u8 list) result" where
  "reassemble_chunk blake manifest n_chunks expected_index chunk st =
     (case st of (seen, bytes) \<Rightarrow>
      rbind (u64_try expected_index LengthOverflow) (\<lambda>expected_index_u64.
      rbind (validate_payload_chunk chunk) (\<lambda>_.
      if pc_i chunk \<noteq> expected_index_u64 then Inl (ReorderedChunk expected_index_u64 (pc_i chunk))
      else if unat (pc_i chunk) \<ge> length seen then Inl (MissingChunk (pc_i chunk))
      else if seen ! unat (pc_i chunk) then Inl (DuplicateChunk (pc_i chunk))
      else (let seen' = seen[unat (pc_i chunk) := True] in
      rbind (if expected_index < length (pm_chunks manifest) then Inr (pm_chunks manifest ! expected_index)
             else Inl (MissingChunk expected_index_u64)) (\<lambda>expected_hash.
      if pc_blake3 chunk \<noteq> expected_hash
      then Inl (ChunkHashMismatch (pc_i chunk) expected_hash (pc_blake3 chunk))
      else rbind (u64_try (length bytes) LengthOverflow) (\<lambda>expected_offset.
      if pc_offset chunk \<noteq> expected_offset
      then Inl (OffsetMismatch (pc_i chunk) expected_offset (pc_offset chunk))
      else rbind (hex_decode (pc_data chunk) ''payload chunk data'') (\<lambda>decoded.
      rbind (u64_try (length decoded) LengthOverflow) (\<lambda>decoded_len.
      if decoded_len \<noteq> pc_len chunk then Inl (LenMismatch (pc_i chunk) (pc_len chunk) decoded_len)
      else (let actual_hash = blake decoded in
      if actual_hash \<noteq> pc_blake3 chunk
      then Inl (ChunkHashMismatch (pc_i chunk) (pc_blake3 chunk) actual_hash)
      else (let should_be_final = (expected_index + 1 = n_chunks) in
      if pc_final_chunk chunk \<noteq> should_be_final then Inl (FinalFlagMismatch (pc_i chunk))
      else Inr (seen', bytes @ decoded)))))))))))"

fun reassemble_loop ::
    "(u8 list \<Rightarrow> string) \<Rightarrow> payload_chunk_manifest \<Rightarrow> nat \<Rightarrow> nat \<Rightarrow> payload_chunk list \<Rightarrow> bool list \<times> u8 list \<Rightarrow>
       (payload_chunk_error, bool list \<times> u8 list) result" where
  "reassemble_loop blake manifest n_chunks index [] st = Inr st"
| "reassemble_loop blake manifest n_chunks index (chunk # rest) st =
     rbind (reassemble_chunk blake manifest n_chunks index chunk st)
           (reassemble_loop blake manifest n_chunks (Suc index) rest)"

fun first_unseen :: "nat \<Rightarrow> bool list \<Rightarrow> nat option" where
  "first_unseen i [] = None"
| "first_unseen i (b # bs) = (if \<not> b then Some i else first_unseen (Suc i) bs)"

definition check_root ::
    "(u8 list \<Rightarrow> string) \<Rightarrow> payload_chunk_manifest \<Rightarrow> u8 list \<Rightarrow> (payload_chunk_error, u8 list) result" where
  "check_root blake manifest bytes =
     rbind (u64_try (length bytes) LengthOverflow) (\<lambda>got_len.
     if got_len \<noteq> pm_total_len manifest then Inl (TotalLenMismatch (pm_total_len manifest) got_len)
     else (let actual_root = blake bytes in
           if actual_root \<noteq> pm_blake3 manifest then Inl (RootHashMismatch (pm_blake3 manifest) actual_root)
           else Inr bytes))"

text \<open>
  \<open>Vec::with_capacity\<close> panics when the capacity exceeds \<open>isize::MAX\<close> bytes; \<open>None\<close> is that panic.
\<close>

definition ISIZE_MAX :: nat where "ISIZE_MAX = 2 ^ 63 - 1"

definition reassemble_payload_chunks ::
    "(u8 list \<Rightarrow> string) \<Rightarrow> payload_chunk_manifest \<Rightarrow> payload_chunk list \<Rightarrow>
       (payload_chunk_error, u8 list) result option" where
  "reassemble_payload_chunks blake manifest chunks =
     (case rbind (validate_payload_manifest manifest) (\<lambda>_.
           rbind (u64_try (length chunks) LengthOverflow) (\<lambda>got_count.
           if got_count \<noteq> pm_chunk_count manifest
           then Inl (ChunkCountMismatch (pm_chunk_count manifest) got_count) else Inr ())) of
        Inl e \<Rightarrow> Some (Inl e)
      | Inr _ \<Rightarrow>
          if pm_chunk_count manifest = 0 then Some (check_root blake manifest [])
          else if unat (pm_total_len manifest) > ISIZE_MAX then None
          else Some (rbind (reassemble_loop blake manifest (length chunks) 0 chunks
                              (replicate (length chunks) False, [])) (\<lambda>(seen, bytes).
               case first_unseen 0 seen of
                 Some i \<Rightarrow> rbind (u64_try i LengthOverflow) (\<lambda>w. Inl (MissingChunk w))
               | None \<Rightarrow> check_root blake manifest bytes)))"

section \<open>The incremental collector\<close>

definition collector_new :: "nat \<Rightarrow> nat \<Rightarrow> payload_chunk_collector" where
  "collector_new max_total_len max_chunks =
     \<lparr>col_max_total_len = max_total_len, col_max_chunks = max_chunks, col_bytes = [],
      col_chunk_hashes = [], col_chunk_lengths = [], col_final_seen = False\<rparr>"

definition collector_len :: "payload_chunk_collector \<Rightarrow> nat" where
  "collector_len c = length (col_bytes c)"

definition collector_is_empty :: "payload_chunk_collector \<Rightarrow> bool" where
  "collector_is_empty c \<longleftrightarrow> col_bytes c = []"

definition collector_chunk_count :: "payload_chunk_collector \<Rightarrow> nat" where
  "collector_chunk_count c = length (col_chunk_hashes c)"

text \<open>The checks and the new state of \<open>push\<close>; an error leaves the collector as it was.\<close>

definition push_chunk ::
    "(u8 list \<Rightarrow> string) \<Rightarrow> payload_chunk_collector \<Rightarrow> payload_chunk \<Rightarrow>
       (payload_chunk_error, payload_chunk_collector) result" where
  "push_chunk blake c chunk =
     rbind (validate_payload_chunk chunk) (\<lambda>_.
     if col_final_seen c then Inl (ChunkAfterFinal (pc_i chunk))
     else if length (col_chunk_hashes c) + 1 \<ge> 2 ^ 64 then Inl LengthOverflow
     else (let next_count = length (col_chunk_hashes c) + 1 in
     if next_count > col_max_chunks c
     then rbind (u64_try (col_max_chunks c) LengthOverflow) (\<lambda>m.
          rbind (u64_try next_count LengthOverflow) (\<lambda>got. Inl (TooManyChunks m got)))
     else rbind (u64_try (length (col_chunk_hashes c)) LengthOverflow) (\<lambda>expected_index.
     if pc_i chunk \<noteq> expected_index then Inl (ReorderedChunk expected_index (pc_i chunk))
     else rbind (u64_try (length (col_bytes c)) LengthOverflow) (\<lambda>expected_offset.
     if pc_offset chunk \<noteq> expected_offset
     then Inl (OffsetMismatch (pc_i chunk) expected_offset (pc_offset chunk))
     else (let declared_len = unat (pc_len chunk) in
     if declared_len * 2 \<ge> 2 ^ 64 then Inl LengthOverflow
     else if length (pc_data chunk) \<noteq> declared_len * 2
     then rbind (u64_try (length (pc_data chunk) div 2) LengthOverflow) (\<lambda>got.
          Inl (LenMismatch (pc_i chunk) (pc_len chunk) got))
     else if length (col_bytes c) + declared_len \<ge> 2 ^ 64 then Inl LengthOverflow
     else (let next_len = length (col_bytes c) + declared_len in
     if next_len > col_max_total_len c
     then rbind (u64_try (col_max_total_len c) LengthOverflow) (\<lambda>m.
          rbind (u64_try next_len LengthOverflow) (\<lambda>got. Inl (PayloadTooLarge m got)))
     else rbind (hex_decode (pc_data chunk) ''payload chunk data'') (\<lambda>decoded.
     if length decoded \<noteq> declared_len
     then rbind (u64_try (length decoded) LengthOverflow) (\<lambda>got.
          Inl (LenMismatch (pc_i chunk) (pc_len chunk) got))
     else (let actual_hash = blake decoded in
     if actual_hash \<noteq> pc_blake3 chunk
     then Inl (ChunkHashMismatch (pc_i chunk) (pc_blake3 chunk) actual_hash)
     else Inr (c\<lparr>col_bytes := col_bytes c @ decoded,
                 col_chunk_hashes := col_chunk_hashes c @ [actual_hash],
                 col_chunk_lengths := col_chunk_lengths c @ [pc_len chunk],
                 col_final_seen := pc_final_chunk chunk\<rparr>)))))))))"

definition collector_push ::
    "(u8 list \<Rightarrow> string) \<Rightarrow> payload_chunk_collector \<Rightarrow> payload_chunk \<Rightarrow>
       (payload_chunk_error, unit) result \<times> payload_chunk_collector" where
  "collector_push blake c chunk =
     (case push_chunk blake c chunk of Inl e \<Rightarrow> (Inl e, c) | Inr c' \<Rightarrow> (Inr (), c'))"

fun compare_hashes :: "nat \<Rightarrow> string list \<Rightarrow> string list \<Rightarrow> (payload_chunk_error, unit) result" where
  "compare_hashes index (actual # as) (expected # es) =
     (if actual \<noteq> expected
      then rbind (u64_try index LengthOverflow) (\<lambda>i. Inl (ChunkHashMismatch i expected actual))
      else compare_hashes (Suc index) as es)"
| "compare_hashes index _ _ = Inr ()"

fun check_lengths :: "payload_chunk_manifest \<Rightarrow> nat \<Rightarrow> u64 list \<Rightarrow> (payload_chunk_error, unit) result" where
  "check_lengths manifest index [] = Inr ()"
| "check_lengths manifest index (len # rest) =
     (let last = (rest = []) in
      if (\<not> last \<and> len \<noteq> pm_chunk_size manifest) \<or> (last \<and> len > pm_chunk_size manifest)
      then rbind (u64_try index LengthOverflow) (\<lambda>i. Inl (LenMismatch i (pm_chunk_size manifest) len))
      else check_lengths manifest (Suc index) rest)"

definition finish_bytes ::
    "(u8 list \<Rightarrow> string) \<Rightarrow> payload_chunk_collector \<Rightarrow> payload_chunk_manifest \<Rightarrow>
       (payload_chunk_error, u8 list) result" where
  "finish_bytes blake c manifest =
     rbind (validate_payload_manifest manifest) (\<lambda>_.
     if unat (pm_total_len manifest) > col_max_total_len c
     then rbind (u64_try (col_max_total_len c) LengthOverflow) (\<lambda>m.
          Inl (PayloadTooLarge m (pm_total_len manifest)))
     else if unat (pm_chunk_count manifest) > col_max_chunks c
     then rbind (u64_try (col_max_chunks c) LengthOverflow) (\<lambda>m.
          Inl (TooManyChunks m (pm_chunk_count manifest)))
     else rbind (u64_try (length (col_chunk_hashes c)) LengthOverflow) (\<lambda>got_count.
     if got_count \<noteq> pm_chunk_count manifest
     then Inl (ChunkCountMismatch (pm_chunk_count manifest) got_count)
     else if pm_chunk_count manifest > 0 \<and> \<not> col_final_seen c
     then Inl (FinalFlagMismatch (sat_sub (pm_chunk_count manifest) 1))
     else rbind (compare_hashes 0 (col_chunk_hashes c) (pm_chunks manifest)) (\<lambda>_.
     rbind (check_lengths manifest 0 (col_chunk_lengths c)) (\<lambda>_.
     check_root blake manifest (col_bytes c)))))"

section \<open>JSON payloads\<close>

text \<open>
  \<open>to_json\<close> stands for \<open>stable_json_bytes\<close> (\<open>serde_json\<close> on the key-sorted value) and \<open>from_json\<close>
  for \<open>serde_json::from_slice\<close>; both may fail with a message.
\<close>

definition chunk_json_payload ::
    "(u8 list \<Rightarrow> string) \<Rightarrow> ('v \<Rightarrow> string + u8 list) \<Rightarrow> 'v \<Rightarrow> nat \<Rightarrow>
       (payload_chunk_error, payload_chunk_manifest \<times> payload_chunk list) result" where
  "chunk_json_payload blake to_json v chunk_size =
     rbind (case to_json v of Inl e \<Rightarrow> Inl (Json e) | Inr bytes \<Rightarrow> Inr bytes) (\<lambda>bytes.
     chunk_payload_bytes blake bytes chunk_size)"

definition parse_json :: "(u8 list \<Rightarrow> string + 'v) \<Rightarrow> u8 list \<Rightarrow> (payload_chunk_error, 'v) result" where
  "parse_json from_json bytes = (case from_json bytes of Inl e \<Rightarrow> Inl (Json e) | Inr v \<Rightarrow> Inr v)"

definition reassemble_json_payload ::
    "(u8 list \<Rightarrow> string) \<Rightarrow> (u8 list \<Rightarrow> string + 'v) \<Rightarrow> payload_chunk_manifest \<Rightarrow> payload_chunk list \<Rightarrow>
       (payload_chunk_error, 'v) result option" where
  "reassemble_json_payload blake from_json manifest chunks =
     map_option (\<lambda>r. rbind r (parse_json from_json)) (reassemble_payload_chunks blake manifest chunks)"

definition finish_json ::
    "(u8 list \<Rightarrow> string) \<Rightarrow> (u8 list \<Rightarrow> string + 'v) \<Rightarrow> payload_chunk_collector \<Rightarrow> payload_chunk_manifest \<Rightarrow>
       (payload_chunk_error, 'v) result" where
  "finish_json blake from_json c manifest = rbind (finish_bytes blake c manifest) (parse_json from_json)"

section \<open>Hexadecimal lemmas\<close>

lemma nibble_cases:
  fixes n :: u8
  assumes "n < 16"
  shows "n \<in> {0, 1, 2, 3, 4, 5, 6, 7, 8, 9, 10, 11, 12, 13, 14, 15}"
proof -
  have "unat n \<in> set [0..<16]" using assms by (simp add: word_less_nat_alt)
  also have "[0..<16] = [0, 1, 2, 3, 4, 5, 6, 7, 8, 9, 10, 11, 12, 13, 14, 15]" by (simp add: upt_conv_Cons)
  finally have "word_of_nat (unat n) \<in>
      (word_of_nat :: nat \<Rightarrow> u8) ` set [0, 1, 2, 3, 4, 5, 6, 7, 8, 9, 10, 11, 12, 13, 14, 15]"
    by (rule imageI)
  then show ?thesis by simp
qed

lemma low_mask: "(0x0F :: u8) = mask 4"
  by (simp add: mask_eq_exp_minus_1)

lemma hex_nibble_HEX: "(n :: u8) < 16 \<Longrightarrow> hex_nibble (byte_of (HEX ! unat n)) = Some n"
  by (drule nibble_cases) (auto simp: HEX_def hex_nibble_def byte_of_def)

lemma high_nibble_less: "drop_bit 4 (b :: u8) < 16"
proof -
  have "drop_bit 4 (unat b) < 16"
    using unat_lt_pow [of b] by (simp add: drop_bit_eq_div less_mult_imp_div_less)
  then show ?thesis unfolding word_less_nat_alt unat_drop_bit_eq by simp
qed

lemma low_nibble_less: "b AND 0x0F < (16 :: u8)"
proof -
  have "take_bit 4 (unat b) < 16" by (simp add: take_bit_eq_mod)
  then show ?thesis
    unfolding low_mask take_bit_eq_mask [symmetric] word_less_nat_alt unsigned_take_bit_eq by simp
qed

lemma nibbles_join: "push_bit 4 (drop_bit 4 b) OR (b AND 0x0F) = (b :: u8)"
  unfolding low_mask
proof (rule bit_word_eqI)
  fix n assume n: "n < LENGTH(8)"
  have "bit (b AND mask 4) n \<longleftrightarrow> bit b n \<and> n < 4"
    using n by (simp only: bit_and_iff bit_mask_iff) auto
  moreover have "bit (push_bit 4 (drop_bit 4 b)) n \<longleftrightarrow> bit b n \<and> 4 \<le> n"
    using n by (auto simp: bit_push_bit_iff bit_drop_bit_eq)
  ultimately show "bit (push_bit 4 (drop_bit 4 b) OR (b AND mask 4)) n = bit b n"
    by (auto simp only: bit_or_iff not_less)
qed

lemma hex_decode_loop_encode: "hex_decode_loop label (hex_encode bs) = Inr bs"
  by (induction bs)
     (simp_all add: hex_encode_def hex_nibble_HEX high_nibble_less low_nibble_less nibbles_join)

lemma length_hex_encode [simp]: "length (hex_encode bs) = 2 * length bs"
  by (induction bs) (simp_all add: hex_encode_def)

lemma hex_decode_encode [simp]: "hex_decode (hex_encode bs) label = Inr bs"
  by (simp add: hex_decode_def hex_decode_loop_encode)

lemma hex_decode_loop_length:
  "hex_decode_loop label v = Inr bs \<Longrightarrow> even (length v) \<Longrightarrow> length v = 2 * length bs"
  by (induction label v arbitrary: bs rule: hex_decode_loop.induct) auto

lemma hex_decode_length: "hex_decode v label = Inr bs \<Longrightarrow> length v = 2 * length bs"
proof -
  assume d: "hex_decode v label = Inr bs"
  then have "even (length v)" "hex_decode_loop label v = Inr bs"
    by (simp_all only: hex_decode_def even_iff_mod_2_eq_zero split: if_splits) simp_all
  then show ?thesis using hex_decode_loop_length by blast
qed

section \<open>Splitting into chunks\<close>

lemma chunks_of_Nil [simp]: "chunks_of n [] = []"
  by (simp add: chunks_of.simps)

lemma concat_chunks_of: "0 < n \<Longrightarrow> concat (chunks_of n xs) = xs"
proof (induction n xs rule: chunks_of.induct)
  case (1 n xs)
  then show ?case by (cases "xs = []") (simp_all add: chunks_of.simps [of n xs])
qed

lemma nat_div_ceil_plus: "0 < n \<Longrightarrow> nat_div_ceil (a + n) n = Suc (nat_div_ceil a n)"
proof -
  assume n: "0 < n"
  have "a + n + (n - 1) = (a + (n - 1)) + n" by simp
  then show ?thesis unfolding nat_div_ceil_def using n by (simp only: div_add_self2)
qed

lemma length_chunks_of: "0 < n \<Longrightarrow> length (chunks_of n xs) = nat_div_ceil (length xs) n"
proof (induction n xs rule: chunks_of.induct)
  case (1 n xs)
  show ?case
  proof (cases "xs = []")
    case False
    then have pos: "0 < length xs" by simp
    have "nat_div_ceil (length xs) n = Suc (nat_div_ceil (length xs - n) n)"
    proof (cases "length xs \<le> n")
      case True
      then have "nat_div_ceil (length xs) n \<le> 1" using 1(2) by (simp add: nat_div_ceil_le_iff)
      moreover have "0 < nat_div_ceil (length xs) n" using pos 1(2) by (rule nat_div_ceil_pos)
      ultimately show ?thesis using True by simp
    next
      case False
      then have "length xs = (length xs - n) + n" by simp
      then show ?thesis using nat_div_ceil_plus [OF 1(2), of "length xs - n"] by simp
    qed
    then show ?thesis using False 1 by (simp add: chunks_of.simps [of n xs])
  qed simp
qed

lemma chunks_of_nth:
  "0 < n \<Longrightarrow> i * n < length xs \<Longrightarrow> i < length (chunks_of n xs) \<and> chunks_of n xs ! i = take n (drop (i * n) xs)"
proof (induction i arbitrary: xs)
  case 0
  then have "xs \<noteq> []" by auto
  then show ?case using 0 by (simp add: chunks_of.simps [of n xs])
next
  case (Suc i)
  then have "i * n < length (drop n xs)" by simp
  from Suc.IH [OF Suc.prems(1) this] have
    "i < length (chunks_of n (drop n xs))" "chunks_of n (drop n xs) ! i = take n (drop (i * n) (drop n xs))"
    by simp_all
  moreover have "xs \<noteq> []" using Suc.prems by auto
  ultimately show ?case using Suc.prems by (simp add: chunks_of.simps [of n xs] add.commute)
qed

section \<open>What an accepted chunk sequence is\<close>

text \<open>Chunk \<open>c\<close> carries the bytes \<open>d\<close> as the chunk at position \<open>idx\<close> and byte offset \<open>off\<close>.\<close>

definition chunk_fits :: "(u8 list \<Rightarrow> string) \<Rightarrow> nat \<Rightarrow> nat \<Rightarrow> payload_chunk \<Rightarrow> u8 list \<Rightarrow> bool" where
  "chunk_fits blake idx off c d \<longleftrightarrow>
     validate_payload_chunk c = Inr () \<and> unat (pc_i c) = idx \<and> unat (pc_offset c) = off \<and>
     hex_decode (pc_data c) ''payload chunk data'' = Inr d \<and> unat (pc_len c) = length d \<and>
     blake d = pc_blake3 c"

fun fits_from :: "(u8 list \<Rightarrow> string) \<Rightarrow> nat \<Rightarrow> nat \<Rightarrow> payload_chunk list \<Rightarrow> u8 list list \<Rightarrow> bool" where
  "fits_from blake idx off [] ds \<longleftrightarrow> ds = []"
| "fits_from blake idx off (c # cs) ds \<longleftrightarrow>
     (case ds of [] \<Rightarrow> False
      | d # ds' \<Rightarrow> chunk_fits blake idx off c d \<and> fits_from blake (Suc idx) (off + length d) cs ds')"

lemma fits_from_length: "fits_from blake idx off cs ds \<Longrightarrow> length ds = length cs"
  by (induction blake idx off cs ds rule: fits_from.induct) (auto split: list.splits)

lemma fits_from_hashes: "fits_from blake idx off cs ds \<Longrightarrow> map pc_blake3 cs = map blake ds"
  by (induction blake idx off cs ds rule: fits_from.induct) (auto simp: chunk_fits_def split: list.splits)

lemma fits_from_unique: "fits_from blake idx off cs ds \<Longrightarrow> fits_from blake idx off cs ds' \<Longrightarrow> ds = ds'"
proof (induction cs arbitrary: idx off ds ds')
  case (Cons c cs)
  then show ?case by (auto simp: chunk_fits_def split: list.splits)
qed simp

lemma unat_eq_u64: "(w :: u64) = w' \<longleftrightarrow> unat w = unat w'"
  by (rule word_unat_eq_iff)

lemma validate_chunk_unit: "validate_payload_chunk c = Inr u \<longleftrightarrow> validate_payload_chunk c = Inr ()"
  by simp

lemma reassemble_chunk_Inr:
  "reassemble_chunk blake m n idx c (seen, bytes) = Inr st \<longleftrightarrow>
     (\<exists>d. chunk_fits blake idx (length bytes) c d \<and> idx < length seen \<and> \<not> seen ! idx \<and>
          idx < length (pm_chunks m) \<and> pc_blake3 c = pm_chunks m ! idx \<and>
          (pc_final_chunk c \<longleftrightarrow> Suc idx = n) \<and> st = (seen[idx := True], bytes @ d))"
  (is "?L \<longleftrightarrow> ?R")
proof
  assume ?L
  then show ?R
    unfolding reassemble_chunk_def chunk_fits_def Let_def
    by (auto simp: unat_eq_u64 split: if_splits)
next
  assume ?R
  then obtain d where d: "chunk_fits blake idx (length bytes) c d"
    and r: "idx < length seen" "\<not> seen ! idx" "idx < length (pm_chunks m)" "pc_blake3 c = pm_chunks m ! idx"
      "pc_final_chunk c \<longleftrightarrow> Suc idx = n" "st = (seen[idx := True], bytes @ d)"
    by blast
  have w: "u64_try idx LengthOverflow = Inr (pc_i c)" "u64_try (length bytes) LengthOverflow = Inr (pc_offset c)"
    "u64_try (length d) LengthOverflow = Inr (pc_len c)"
    using d by (simp_all add: chunk_fits_def)
  show ?L using d r unfolding reassemble_chunk_def w Let_def chunk_fits_def by (auto simp: w [simplified])
qed

lemma push_chunk_Inr:
  "push_chunk blake col c = Inr col' \<longleftrightarrow>
     (\<exists>d. chunk_fits blake (length (col_chunk_hashes col)) (length (col_bytes col)) c d \<and>
          \<not> col_final_seen col \<and> length (col_chunk_hashes col) + 1 < 2 ^ 64 \<and>
          length (col_chunk_hashes col) < col_max_chunks col \<and> length d * 2 < 2 ^ 64 \<and>
          length (col_bytes col) + length d < 2 ^ 64 \<and>
          length (col_bytes col) + length d \<le> col_max_total_len col \<and>
          col' = col\<lparr>col_bytes := col_bytes col @ d, col_chunk_hashes := col_chunk_hashes col @ [pc_blake3 c],
                     col_chunk_lengths := col_chunk_lengths col @ [pc_len c],
                     col_final_seen := pc_final_chunk c\<rparr>)"
  (is "?L \<longleftrightarrow> ?R")
proof
  assume ?L
  then show ?R
    unfolding push_chunk_def chunk_fits_def Let_def
    by (auto simp: unat_eq_u64 not_le split: if_splits)
next
  assume ?R
  then obtain d where d: "chunk_fits blake (length (col_chunk_hashes col)) (length (col_bytes col)) c d"
    and r: "\<not> col_final_seen col" "length (col_chunk_hashes col) + 1 < 2 ^ 64"
      "length (col_chunk_hashes col) < col_max_chunks col" "length d * 2 < 2 ^ 64"
      "length (col_bytes col) + length d < 2 ^ 64" "length (col_bytes col) + length d \<le> col_max_total_len col"
      "col' = col\<lparr>col_bytes := col_bytes col @ d, col_chunk_hashes := col_chunk_hashes col @ [pc_blake3 c],
                 col_chunk_lengths := col_chunk_lengths col @ [pc_len c], col_final_seen := pc_final_chunk c\<rparr>"
    by blast
  have h: "length (pc_data c) = 2 * length d" using d by (auto simp: chunk_fits_def dest: hex_decode_length)
  have w: "u64_try (length (col_chunk_hashes col)) LengthOverflow = Inr (pc_i c)"
    "u64_try (length (col_bytes col)) LengthOverflow = Inr (pc_offset c)"
    using d by (simp_all add: chunk_fits_def)
  show ?L using d r h unfolding push_chunk_def w Let_def chunk_fits_def by simp
qed

lemma first_unseen_replicate [simp]: "first_unseen i (replicate n True) = None"
  by (induction n arbitrary: i) simp_all

lemma all_less_Suc_split: "(\<forall>j < Suc n. P j) \<longleftrightarrow> P 0 \<and> (\<forall>j < n. P (Suc j))"
  by (metis less_Suc_eq_0_disj)

lemma drop_Suc_tl: "idx < length xs \<Longrightarrow> drop idx xs = xs ! idx # drop (Suc idx) xs"
  by (rule Cons_nth_drop_Suc [symmetric])

text \<open>The loop succeeds exactly on the sequences that fit, with the digests and final flags in place.\<close>

lemma reassemble_loop_Inr:
  "reassemble_loop blake m n idx cs (replicate idx True @ replicate (length cs) False, bytes) = Inr st \<longleftrightarrow>
     (\<exists>ds. fits_from blake idx (length bytes) cs ds \<and>
           take (length cs) (drop idx (pm_chunks m)) = map pc_blake3 cs \<and>
           (\<forall>j < length cs. pc_final_chunk (cs ! j) \<longleftrightarrow> idx + j + 1 = n) \<and>
           st = (replicate (idx + length cs) True, bytes @ concat ds))"
proof (induction cs arbitrary: idx bytes)
  case (Cons c cs)
  let ?seen = "replicate idx True @ replicate (length (c # cs)) False"
  have upd: "?seen[idx := True] = replicate (Suc idx) True @ replicate (length cs) False"
    by (simp add: list_update_append replicate_app_Cons_same)
  have nth: "?seen ! idx = False" by (simp add: nth_append)
  have all: "(\<forall>j < length (c # cs). pc_final_chunk ((c # cs) ! j) \<longleftrightarrow> idx + j + 1 = n) \<longleftrightarrow>
      (pc_final_chunk c \<longleftrightarrow> Suc idx = n) \<and> (\<forall>j < length cs. pc_final_chunk (cs ! j) \<longleftrightarrow> Suc idx + j + 1 = n)"
    by (simp add: all_less_Suc_split)
  have tk: "take (length (c # cs)) (drop idx (pm_chunks m)) = map pc_blake3 (c # cs) \<longleftrightarrow>
      idx < length (pm_chunks m) \<and> pc_blake3 c = pm_chunks m ! idx \<and>
      take (length cs) (drop (Suc idx) (pm_chunks m)) = map pc_blake3 cs"
    by (cases "idx < length (pm_chunks m)") (auto simp: drop_Suc_tl)
  have fits: "(\<exists>ds. fits_from blake idx (length bytes) (c # cs) ds \<and> P ds) \<longleftrightarrow>
      (\<exists>d ds. chunk_fits blake idx (length bytes) c d \<and> fits_from blake (Suc idx) (length (bytes @ d)) cs ds \<and> P (d # ds))" for P
    by (auto split: list.splits) (metis list.exhaust)
  have "reassemble_loop blake m n idx (c # cs) (?seen, bytes) = Inr st \<longleftrightarrow>
      (\<exists>d. chunk_fits blake idx (length bytes) c d \<and> idx < length (pm_chunks m) \<and> pc_blake3 c = pm_chunks m ! idx \<and>
           (pc_final_chunk c \<longleftrightarrow> Suc idx = n) \<and>
           reassemble_loop blake m n (Suc idx) cs
             (replicate (Suc idx) True @ replicate (length cs) False, bytes @ d) = Inr st)"
    unfolding reassemble_loop.simps rbind_Inr_iff reassemble_chunk_Inr upd nth by auto
  also have "\<dots> \<longleftrightarrow> (\<exists>ds. fits_from blake idx (length bytes) (c # cs) ds \<and>
           take (length (c # cs)) (drop idx (pm_chunks m)) = map pc_blake3 (c # cs) \<and>
           (\<forall>j < length (c # cs). pc_final_chunk ((c # cs) ! j) \<longleftrightarrow> idx + j + 1 = n) \<and>
           st = (replicate (idx + length (c # cs)) True, bytes @ concat ds))"
    unfolding Cons.IH fits tk all by auto
  finally show ?case .
qed auto

lemma check_root_Inr:
  "check_root blake m bytes = Inr bs \<longleftrightarrow> bs = bytes \<and> unat (pm_total_len m) = length bytes \<and> blake bytes = pm_blake3 m"
  by (auto simp: check_root_def Let_def unat_eq_u64 split: if_splits)

lemma validate_digests_Inr: "validate_digests i hs = Inr u \<longleftrightarrow> (\<forall>h \<in> set hs. is_hex_len h 64)"
  by (induction i hs rule: validate_digests.induct) auto

lemma validate_payload_manifest_Inr:
  "validate_payload_manifest m = Inr u \<longleftrightarrow>
     pm_schema_version m = SESSION_PAYLOAD_CHUNK_SCHEMA_VERSION \<and>
     pm_encoding m = SESSION_PAYLOAD_CHUNK_ENCODING \<and>
     (pm_chunk_count m > 0 \<longrightarrow> pm_chunk_size m \<noteq> 0) \<and> is_hex_len (pm_blake3 m) 64 \<and>
     length (pm_chunks m) = unat (pm_chunk_count m) \<and> (\<forall>h \<in> set (pm_chunks m). is_hex_len h 64)"
proof -
  have "rbind (u64_try (length (pm_chunks m)) LengthOverflow) (\<lambda>n.
          if n \<noteq> pm_chunk_count m then Inl (ChunkCountMismatch (pm_chunk_count m) n)
          else validate_digests 0 (pm_chunks m)) = Inr u \<longleftrightarrow>
        length (pm_chunks m) = unat (pm_chunk_count m) \<and> (\<forall>h \<in> set (pm_chunks m). is_hex_len h 64)"
    by (auto simp: validate_digests_Inr split: if_splits)
  then show ?thesis by (auto simp: validate_payload_manifest_def)
qed

lemma reassemble_Inr:
  "reassemble_payload_chunks blake m cs = Some (Inr bytes) \<longleftrightarrow>
     validate_payload_manifest m = Inr () \<and> unat (pm_chunk_count m) = length cs \<and>
     (cs \<noteq> [] \<longrightarrow> unat (pm_total_len m) \<le> ISIZE_MAX) \<and>
     (\<exists>ds. fits_from blake 0 0 cs ds \<and> pm_chunks m = map pc_blake3 cs \<and>
           (\<forall>j < length cs. pc_final_chunk (cs ! j) \<longleftrightarrow> j + 1 = length cs) \<and>
           bytes = concat ds \<and> unat (pm_total_len m) = length bytes \<and> blake bytes = pm_blake3 m)"
  (is "?L \<longleftrightarrow> ?R")
proof (cases "validate_payload_manifest m = Inr () \<and> unat (pm_chunk_count m) = length cs")
  case False
  then have "\<not> ?R" by blast
  moreover have "\<not> ?L"
    using False unfolding reassemble_payload_chunks_def
    by (auto split: sum.splits if_splits)
  ultimately show ?thesis by blast
next
  case True
  then have pre: "rbind (validate_payload_manifest m) (\<lambda>_.
       rbind (u64_try (length cs) LengthOverflow) (\<lambda>n.
         if n \<noteq> pm_chunk_count m then Inl (ChunkCountMismatch (pm_chunk_count m) n) else Inr ())) = Inr ()"
    by auto
  have len: "length (pm_chunks m) = length cs" using True by (simp add: validate_payload_manifest_Inr)
  have zero: "pm_chunk_count m = 0 \<longleftrightarrow> cs = []" using True by (simp add: word_unat_eq_iff)
  show ?thesis
  proof (cases "cs = []")
    case True
    then show ?thesis
      using zero len \<open>validate_payload_manifest m = Inr () \<and> _\<close>
      unfolding reassemble_payload_chunks_def pre by (auto simp: check_root_Inr)
  next
    case False
    have loop: "reassemble_loop blake m (length cs) 0 cs (replicate (length cs) False, []) = Inr st \<longleftrightarrow>
      (\<exists>ds. fits_from blake 0 0 cs ds \<and> pm_chunks m = map pc_blake3 cs \<and>
           (\<forall>j < length cs. pc_final_chunk (cs ! j) \<longleftrightarrow> j + 1 = length cs) \<and>
           st = (replicate (length cs) True, concat ds))" for st
      using reassemble_loop_Inr [of blake m "length cs" 0 cs "[]" st] len by simp
    have body: "rbind (reassemble_loop blake m (length cs) 0 cs (replicate (length cs) False, [])) (\<lambda>(seen, bytes).
          case first_unseen 0 seen of Some i \<Rightarrow> rbind (u64_try i LengthOverflow) (\<lambda>w. Inl (MissingChunk w))
          | None \<Rightarrow> check_root blake m bytes) = Inr bytes \<longleftrightarrow>
        (\<exists>ds. fits_from blake 0 0 cs ds \<and> pm_chunks m = map pc_blake3 cs \<and>
           (\<forall>j < length cs. pc_final_chunk (cs ! j) \<longleftrightarrow> j + 1 = length cs) \<and>
           check_root blake m (concat ds) = Inr bytes)" (is "?B \<longleftrightarrow> ?E")
    proof
      assume ?E
      then obtain ds where
        "reassemble_loop blake m (length cs) 0 cs (replicate (length cs) False, []) = Inr (replicate (length cs) True, concat ds)"
        "check_root blake m (concat ds) = Inr bytes"
        unfolding loop by blast
      then show ?B by simp
    qed (auto simp: loop)
    have "?L \<longleftrightarrow> unat (pm_total_len m) \<le> ISIZE_MAX \<and> ?B"
      unfolding reassemble_payload_chunks_def pre using False zero by (simp del: rbind_Inr_iff add: not_less)
    then show ?thesis unfolding body check_root_Inr using False True by auto
  qed
qed

section \<open>Pushing into the collector\<close>

fun push_all ::
    "(u8 list \<Rightarrow> string) \<Rightarrow> payload_chunk list \<Rightarrow> payload_chunk_collector \<Rightarrow>
       (payload_chunk_error, payload_chunk_collector) result" where
  "push_all blake [] c = Inr c"
| "push_all blake (x # xs) c = rbind (push_chunk blake c x) (push_all blake xs)"

lemma push_all_Inr:
  assumes "col_max_total_len col \<le> ISIZE_MAX" "col_max_chunks col < 2 ^ 64"
  shows "push_all blake cs col = Inr col' \<longleftrightarrow>
    (\<exists>ds. fits_from blake (length (col_chunk_hashes col)) (length (col_bytes col)) cs ds \<and>
          (cs \<noteq> [] \<longrightarrow> \<not> col_final_seen col \<and> length (col_chunk_hashes col) + length cs \<le> col_max_chunks col \<and>
             length (col_bytes col) + length (concat ds) \<le> col_max_total_len col) \<and>
          (\<forall>x \<in> set (butlast cs). \<not> pc_final_chunk x) \<and>
          col' = col\<lparr>col_bytes := col_bytes col @ concat ds,
                     col_chunk_hashes := col_chunk_hashes col @ map pc_blake3 cs,
                     col_chunk_lengths := col_chunk_lengths col @ map pc_len cs,
                     col_final_seen := (if cs = [] then col_final_seen col else pc_final_chunk (last cs))\<rparr>)"
  using assms
proof (induction cs arbitrary: col)
  case (Cons c cs)
  let ?n = "length (col_chunk_hashes col)" and ?b = "length (col_bytes col)"
  let ?upd = "\<lambda>d. col\<lparr>col_bytes := col_bytes col @ d, col_chunk_hashes := col_chunk_hashes col @ [pc_blake3 c],
                     col_chunk_lengths := col_chunk_lengths col @ [pc_len c], col_final_seen := pc_final_chunk c\<rparr>"
  have one: "push_chunk blake col c = Inr c1 \<longleftrightarrow>
      (\<exists>d. chunk_fits blake ?n ?b c d \<and> \<not> col_final_seen col \<and> ?n < col_max_chunks col \<and>
           ?b + length d \<le> col_max_total_len col \<and> c1 = ?upd d)" for c1
    unfolding push_chunk_Inr using Cons.prems unfolding ISIZE_MAX_def by auto
  have fits: "(\<exists>ds. fits_from blake ?n ?b (c # cs) ds \<and> P ds) \<longleftrightarrow>
      (\<exists>d ds. chunk_fits blake ?n ?b c d \<and> fits_from blake (Suc ?n) (?b + length d) cs ds \<and> P (d # ds))" for P
    by (auto split: list.splits) (metis list.exhaust)
  have IH: "push_all blake cs (?upd d) = Inr col' \<longleftrightarrow>
    (\<exists>ds. fits_from blake (Suc ?n) (?b + length d) cs ds \<and>
          (cs \<noteq> [] \<longrightarrow> \<not> pc_final_chunk c \<and> Suc ?n + length cs \<le> col_max_chunks col \<and>
             ?b + length d + length (concat ds) \<le> col_max_total_len col) \<and>
          (\<forall>x \<in> set (butlast cs). \<not> pc_final_chunk x) \<and>
          col' = (?upd d)\<lparr>col_bytes := col_bytes (?upd d) @ concat ds,
                     col_chunk_hashes := col_chunk_hashes (?upd d) @ map pc_blake3 cs,
                     col_chunk_lengths := col_chunk_lengths (?upd d) @ map pc_len cs,
                     col_final_seen := (if cs = [] then pc_final_chunk c else pc_final_chunk (last cs))\<rparr>)" for d
    using Cons.IH [of "?upd d"] Cons.prems by simp
  have "push_all blake (c # cs) col = Inr col' \<longleftrightarrow>
      (\<exists>d. chunk_fits blake ?n ?b c d \<and> \<not> col_final_seen col \<and> ?n < col_max_chunks col \<and>
           ?b + length d \<le> col_max_total_len col \<and> push_all blake cs (?upd d) = Inr col')"
    unfolding push_all.simps rbind_Inr_iff one by auto
  also have "\<dots> \<longleftrightarrow> (\<exists>d ds. chunk_fits blake ?n ?b c d \<and> fits_from blake (Suc ?n) (?b + length d) cs ds \<and>
      (\<not> col_final_seen col \<and> ?n < col_max_chunks col \<and> ?b + length d \<le> col_max_total_len col \<and>
       (cs \<noteq> [] \<longrightarrow> \<not> pc_final_chunk c \<and> Suc ?n + length cs \<le> col_max_chunks col \<and>
          ?b + length d + length (concat ds) \<le> col_max_total_len col) \<and>
       (\<forall>x \<in> set (butlast cs). \<not> pc_final_chunk x) \<and>
       col' = (?upd d)\<lparr>col_bytes := col_bytes (?upd d) @ concat ds,
                  col_chunk_hashes := col_chunk_hashes (?upd d) @ map pc_blake3 cs,
                  col_chunk_lengths := col_chunk_lengths (?upd d) @ map pc_len cs,
                  col_final_seen := (if cs = [] then pc_final_chunk c else pc_final_chunk (last cs))\<rparr>))"
    unfolding IH by blast
  finally show ?case
    unfolding fits by (rule trans) (intro ex_cong1, rule conj_cong [OF refl], rule conj_cong [OF refl], cases "cs = []"; auto)
qed auto

lemma compare_hashes_Inr: "compare_hashes i as es = Inr u \<longleftrightarrow> (\<forall>(a, e) \<in> set (zip as es). a = e)"
  by (induction i as es rule: compare_hashes.induct) auto

lemma compare_hashes_eq: "length as = length es \<Longrightarrow> compare_hashes i as es = Inr u \<longleftrightarrow> as = es"
  unfolding compare_hashes_Inr by (induction as es rule: list_induct2) auto

lemma check_lengths_Inr:
  "check_lengths m i ls = Inr u \<longleftrightarrow>
     (\<forall>l \<in> set (butlast ls). l = pm_chunk_size m) \<and> (ls \<noteq> [] \<longrightarrow> last ls \<le> pm_chunk_size m)"
  by (induction m i ls rule: check_lengths.induct) (auto simp: Let_def not_less)

lemma finish_bytes_Inr:
  "finish_bytes blake c m = Inr bytes \<longleftrightarrow>
     validate_payload_manifest m = Inr () \<and> unat (pm_total_len m) \<le> col_max_total_len c \<and>
     unat (pm_chunk_count m) \<le> col_max_chunks c \<and> unat (pm_chunk_count m) = length (col_chunk_hashes c) \<and>
     (pm_chunk_count m > 0 \<longrightarrow> col_final_seen c) \<and> col_chunk_hashes c = pm_chunks m \<and>
     (\<forall>l \<in> set (butlast (col_chunk_lengths c)). l = pm_chunk_size m) \<and>
     (col_chunk_lengths c \<noteq> [] \<longrightarrow> last (col_chunk_lengths c) \<le> pm_chunk_size m) \<and>
     bytes = col_bytes c \<and> unat (pm_total_len m) = length bytes \<and> blake bytes = pm_blake3 m"
  (is "?L \<longleftrightarrow> ?R")
proof (cases "validate_payload_manifest m = Inr () \<and> unat (pm_chunk_count m) = length (col_chunk_hashes c)")
  case False
  then have "\<not> ?R" by blast
  moreover have "\<not> ?L" using False unfolding finish_bytes_def by (auto split: if_splits)
  ultimately show ?thesis by blast
next
  case True
  then have v: "validate_payload_manifest m = Inr ()"
    and n: "u64_try (length (col_chunk_hashes c)) LengthOverflow = Inr (pm_chunk_count m)"
    by simp_all
  have len: "length (col_chunk_hashes c) = length (pm_chunks m)"
    using True by (simp add: validate_payload_manifest_Inr)
  have "?L \<longleftrightarrow> unat (pm_total_len m) \<le> col_max_total_len c \<and> unat (pm_chunk_count m) \<le> col_max_chunks c \<and>
     (pm_chunk_count m > 0 \<longrightarrow> col_final_seen c) \<and> compare_hashes 0 (col_chunk_hashes c) (pm_chunks m) = Inr () \<and>
     check_lengths m 0 (col_chunk_lengths c) = Inr () \<and> check_root blake m (col_bytes c) = Inr bytes"
    unfolding finish_bytes_def v n by (auto simp: not_less)
  then show ?thesis
    unfolding compare_hashes_eq [OF len] check_lengths_Inr check_root_Inr using True by blast
qed

lemma fits_from_nth: "fits_from blake idx off cs ds \<longleftrightarrow>
    length cs = length ds \<and>
    (\<forall>j < length cs. chunk_fits blake (idx + j) (off + length (concat (take j ds))) (cs ! j) (ds ! j))"
proof (induction blake idx off cs ds rule: fits_from.induct)
  case (2 blake idx off c cs ds)
  show ?case
  proof (cases ds)
    case (Cons d ds')
    have "(\<forall>j < length (c # cs). chunk_fits blake (idx + j) (off + length (concat (take j ds))) ((c # cs) ! j) (ds ! j)) \<longleftrightarrow>
        chunk_fits blake idx off c d \<and>
        (\<forall>j < length cs. chunk_fits blake (Suc idx + j) (off + length d + length (concat (take j ds'))) (cs ! j) (ds' ! j))"
      by (simp add: all_less_Suc_split Cons add.assoc)
    then show ?thesis using 2 [OF Cons] Cons by auto
  qed simp
qed auto

lemma concat_take_chunks_of: "0 < n \<Longrightarrow> concat (take j (chunks_of n xs)) = take (j * n) xs"
proof (induction j arbitrary: xs)
  case (Suc j)
  then show ?case
    by (cases "xs = []") (simp_all add: chunks_of.simps [of n xs] take_add)
qed simp

lemma chunk_index_less: "0 < k \<Longrightarrow> i < length (chunks_of k bytes) \<longleftrightarrow> i * k < length bytes"
  by (metis not_le length_chunks_of nat_div_ceil_le_iff)

lemma ex_u64: "n < 2 ^ 64 \<Longrightarrow> \<exists>w :: u64. unat w = n"
  by (rule exI [of _ "of_nat n"]) (simp add: unat_of_nat_small)

lemma payload_chunk_at_fits:
  assumes k: "0 < k" and small: "length bytes \<le> ISIZE_MAX" and i: "i < length (chunks_of k bytes)"
    and hex: "\<And>bs. is_hex_len (blake bs) 64"
  shows "\<exists>c. payload_chunk_at blake bytes k (of_nat i) = Inr (Some c) \<and>
             chunk_fits blake i (i * k) c (chunks_of k bytes ! i) \<and>
             (pc_final_chunk c \<longleftrightarrow> i + 1 = length (chunks_of k bytes))"
proof -
  let ?L = "length bytes" and ?d = "chunks_of k bytes ! i"
  have off: "i * k < ?L" using i k by (simp add: chunk_index_less)
  have d: "?d = take k (drop (i * k) bytes)" using chunks_of_nth [OF k off] by simp
  have L: "?L < 2 ^ 64 - 1" using small by (simp add: ISIZE_MAX_def)
  have "i \<le> i * k" using k by simp
  then have "i < 2 ^ 64" using off L by linarith
  then have ui: "unat (of_nat i :: u64) = i" by (simp add: unat_of_nat_small)
  let ?stop = "min (min (i * k + k) (2 ^ 64 - 1)) ?L"
  have e: "?stop = min (i * k + k) ?L" using L by simp
  have chunk: "take (?stop - i * k) (drop (i * k) bytes) = ?d"
    unfolding d e using off by (simp add: min_def take_all)
  have fin: "?stop = ?L \<longleftrightarrow> i + 1 = length (chunks_of k bytes)"
  proof -
    have "?stop = ?L \<longleftrightarrow> ?L \<le> (i + 1) * k" unfolding e by auto
    also have "\<dots> \<longleftrightarrow> \<not> i + 1 < length (chunks_of k bytes)" using chunk_index_less [OF k, of "i + 1" bytes] by linarith
    finally show ?thesis using i by linarith
  qed
  have len: "length ?d < 2 ^ 64" unfolding d using L by simp
  obtain o' l' where o': "unat (o' :: u64) = i * k" and l': "unat (l' :: u64) = length ?d"
    using ex_u64 [OF len] ex_u64 [of "i * k"] off L by auto
  let ?c = "\<lparr>pc_i = of_nat i, pc_offset = o', pc_len = l', pc_blake3 = blake ?d,
             pc_encoding = SESSION_PAYLOAD_CHUNK_ENCODING, pc_data = hex_encode ?d,
             pc_final_chunk = (?stop = ?L)\<rparr>"
  have "u64_try (i * k) LengthOverflow = Inr o'" "u64_try (length ?d) LengthOverflow = Inr l'"
    using o' l' by simp_all
  then have "payload_chunk_at blake bytes k (of_nat i) = Inr (Some ?c)"
    using k off L unfolding payload_chunk_at_def ui Let_def chunk by simp
  moreover have "chunk_fits blake i (i * k) ?c ?d"
    using ui o' l' hex by (simp add: chunk_fits_def validate_payload_chunk_def)
  ultimately show ?thesis using fin by (intro exI [of _ ?c]) simp
qed

text \<open>What \<open>chunk_payload_bytes\<close> produces.\<close>

lemma chunk_payload_bytes_Inr:
  assumes k: "0 < k" "k < 2 ^ 64" and small: "length bytes \<le> ISIZE_MAX" and hex: "\<And>bs. is_hex_len (blake bs) 64"
  obtains m cs where "chunk_payload_bytes blake bytes k = Inr (m, cs)"
    "validate_payload_manifest m = Inr ()" "unat (pm_total_len m) = length bytes" "unat (pm_chunk_size m) = k"
    "unat (pm_chunk_count m) = length (chunks_of k bytes)" "pm_blake3 m = blake bytes"
    "pm_chunks m = map blake (chunks_of k bytes)" "fits_from blake 0 0 cs (chunks_of k bytes)"
    "\<forall>j < length cs. pc_final_chunk (cs ! j) \<longleftrightarrow> j + 1 = length cs"
proof -
  let ?ds = "chunks_of k bytes"
  have L: "length bytes < 2 ^ 64" using small by (simp add: ISIZE_MAX_def)
  have "length ?ds \<le> length bytes" using k by (simp add: length_chunks_of nat_div_ceil_le)
  then have n: "length ?ds < 2 ^ 64" using L by simp
  obtain t s c where w: "unat (t :: u64) = length bytes" "unat (s :: u64) = k" "unat (c :: u64) = length ?ds"
    using ex_u64 [OF L] ex_u64 [OF k(2)] ex_u64 [OF n] by blast
  let ?m = "\<lparr>pm_schema_version = SESSION_PAYLOAD_CHUNK_SCHEMA_VERSION,
             pm_encoding = SESSION_PAYLOAD_CHUNK_ENCODING, pm_total_len = t, pm_chunk_size = s,
             pm_chunk_count = c, pm_blake3 = blake bytes, pm_chunks = map blake ?ds\<rparr>"
  have wt: "u64_try (length bytes) LengthOverflow = Inr t" "u64_try k LengthOverflow = Inr s"
    "u64_try (length ?ds) LengthOverflow = Inr c"
    using w by simp_all
  have m: "payload_chunk_manifest_of blake bytes k = Inr ?m"
    using k unfolding payload_chunk_manifest_of_def Let_def length_map wt by simp
  have "s \<noteq> 0" using w(2) k(1) by auto
  then have v: "validate_payload_manifest ?m = Inr ()" using w hex by (auto simp: validate_payload_manifest_Inr)
  let ?at = "\<lambda>i. rbind (payload_chunk_at blake bytes k (of_nat i)) (\<lambda>c. ok_or c (MissingChunk (of_nat i)))"
  have ex: "\<forall>i < length ?ds. \<exists>x. ?at i = Inr x \<and> chunk_fits blake i (i * k) x (?ds ! i) \<and>
      (pc_final_chunk x \<longleftrightarrow> i + 1 = length ?ds)"
    using payload_chunk_at_fits [OF k(1) small _ hex] by fastforce
  then obtain f where f: "\<And>i. i < length ?ds \<Longrightarrow> ?at i = Inr (f i) \<and> chunk_fits blake i (i * k) (f i) (?ds ! i) \<and>
      (pc_final_chunk (f i) \<longleftrightarrow> i + 1 = length ?ds)"
    by metis
  let ?cs = "map f [0..<length ?ds]"
  have "rmap ?at [0..<unat c] = Inr ?cs"
    unfolding rmap_Inr_iff w(3) using f by (auto simp: list_all2_conv_all_nth)
  then have "chunk_payload_bytes blake bytes k = Inr (?m, ?cs)"
    unfolding chunk_payload_bytes_def m by simp
  moreover have "fits_from blake 0 0 ?cs ?ds"
    unfolding fits_from_nth
  proof (intro conjI allI impI)
    fix j assume "j < length ?cs"
    then have j: "j < length ?ds" by simp
    then have "j * k < length bytes" using chunk_index_less [OF k(1)] by blast
    then have "length (concat (take j ?ds)) = j * k" by (simp add: concat_take_chunks_of k(1))
    then show "chunk_fits blake (0 + j) (0 + length (concat (take j ?ds))) (?cs ! j) (?ds ! j)"
      using f [OF j] j by simp
  qed simp
  moreover have "\<forall>j < length ?cs. pc_final_chunk (?cs ! j) \<longleftrightarrow> j + 1 = length ?cs" using f by simp
  ultimately show thesis using that [of ?m ?cs] v w by simp
qed

text \<open>All chunks but the last have the chunk size, and the last is no longer.\<close>

lemma chunk_lengths_ok:
  assumes k: "0 < k" and len: "length cs = length (chunks_of k bytes)"
    and l: "\<And>j. j < length cs \<Longrightarrow> unat (pc_len (cs ! j)) = length (chunks_of k bytes ! j)"
    and s: "unat s = k"
  shows "(\<forall>l \<in> set (butlast (map pc_len cs)). l = s) \<and> (map pc_len cs \<noteq> [] \<longrightarrow> last (map pc_len cs) \<le> s)"
proof (intro conjI ballI impI)
  fix x assume "x \<in> set (butlast (map pc_len cs))"
  then obtain j where j: "j < length cs - 1" "x = pc_len (cs ! j)"
    by (auto simp: in_set_conv_nth nth_butlast)
  then have "Suc j < length (chunks_of k bytes)" using len by simp
  then have "Suc j * k < length bytes" using chunk_index_less [OF k] by blast
  then have "length (chunks_of k bytes ! j) = k" using chunks_of_nth [OF k, of j bytes] by simp
  then show "x = s" using l [of j] j s by (simp add: unat_eq_u64)
next
  assume "map pc_len cs \<noteq> []"
  then have ne: "length cs - 1 < length cs" "cs \<noteq> []" by auto
  then have "length (chunks_of k bytes ! (length cs - 1)) \<le> k"
    using chunks_of_nth [OF k, of "length cs - 1" bytes] chunk_index_less [OF k, of "length cs - 1" bytes] len by simp
  then show "last (map pc_len cs) \<le> s"
    using l [OF ne(1)] ne(2) s by (simp add: last_map last_conv_nth word_le_nat_alt)
qed

section \<open>Properties\<close>

lemma reassemble_chunked:
  assumes "0 < k" "length bytes \<le> ISIZE_MAX" "validate_payload_manifest m = Inr ()"
    "unat (pm_total_len m) = length bytes" "unat (pm_chunk_count m) = length (chunks_of k bytes)"
    "pm_blake3 m = blake bytes" "pm_chunks m = map blake (chunks_of k bytes)"
    "fits_from blake 0 0 cs (chunks_of k bytes)" "\<forall>j < length cs. pc_final_chunk (cs ! j) \<longleftrightarrow> j + 1 = length cs"
  shows "reassemble_payload_chunks blake m cs = Some (Inr bytes)"
  unfolding reassemble_Inr
  using assms fits_from_length [OF assms(8)] fits_from_hashes [OF assms(8)] concat_chunks_of [OF assms(1), of bytes]
  by (intro conjI exI [of _ "chunks_of k bytes"]) auto

text \<open>
  C28. A payload survives the wire: chunking any payload that fits in memory with a positive chunk
  size succeeds; batch reassembly of the manifest and chunks gives the payload back; and so does a
  collector whose limits admit it, when the chunks are pushed one by one. The digest function is any
  function with 64-digit hexadecimal output.
\<close>

theorem chunk_roundtrip:
  assumes "0 < k" "k < 2 ^ 64" "length bytes \<le> ISIZE_MAX" "\<And>bs. is_hex_len (blake bs) 64"
  shows "\<exists>m cs. chunk_payload_bytes blake bytes k = Inr (m, cs) \<and> length cs = nat_div_ceil (length bytes) k \<and>
           reassemble_payload_chunks blake m cs = Some (Inr bytes) \<and>
           (\<forall>mt mc. length bytes \<le> mt \<and> mt \<le> ISIZE_MAX \<and> length cs \<le> mc \<and> mc < 2 ^ 64 \<longrightarrow>
              (\<exists>c. push_all blake cs (collector_new mt mc) = Inr c \<and> finish_bytes blake c m = Inr bytes))"
proof -
  let ?ds = "chunks_of k bytes"
  obtain m cs where c: "chunk_payload_bytes blake bytes k = Inr (m, cs)" "validate_payload_manifest m = Inr ()"
    "unat (pm_total_len m) = length bytes" "unat (pm_chunk_size m) = k"
    "unat (pm_chunk_count m) = length ?ds" "pm_blake3 m = blake bytes"
    "pm_chunks m = map blake ?ds" "fits_from blake 0 0 cs ?ds"
    "\<forall>j < length cs. pc_final_chunk (cs ! j) \<longleftrightarrow> j + 1 = length cs"
    by (rule chunk_payload_bytes_Inr [OF assms])
  have len: "length cs = length ?ds" using c(8) by (simp add: fits_from_length)
  have cat: "concat ?ds = bytes" using assms(1) by (rule concat_chunks_of)
  have hs: "pm_chunks m = map pc_blake3 cs" using c(7,8) by (simp add: fits_from_hashes)
  have "reassemble_payload_chunks blake m cs = Some (Inr bytes)"
    by (rule reassemble_chunked) (use c assms in simp_all)
  moreover have "\<exists>c. push_all blake cs (collector_new mt mc) = Inr c \<and> finish_bytes blake c m = Inr bytes"
    if lim: "length bytes \<le> mt" "mt \<le> ISIZE_MAX" "length cs \<le> mc" "mc < 2 ^ 64" for mt mc
  proof -
    let ?c = "collector_new mt mc"
    let ?c' = "?c\<lparr>col_bytes := bytes, col_chunk_hashes := map pc_blake3 cs,
                  col_chunk_lengths := map pc_len cs,
                  col_final_seen := (if cs = [] then False else pc_final_chunk (last cs))\<rparr>"
    have fin: "\<forall>x \<in> set (butlast cs). \<not> pc_final_chunk x"
      using c(9) by (auto simp: in_set_conv_nth nth_butlast)
    have last: "cs \<noteq> [] \<Longrightarrow> pc_final_chunk (last cs)" using c(9) by (simp add: last_conv_nth)
    have "push_all blake cs ?c = Inr ?c'"
      by (subst push_all_Inr) (use lim c(8) cat fin in \<open>auto simp: collector_new_def\<close>)
    moreover have lens: "unat (pc_len (cs ! j)) = length (?ds ! j)" if "j < length cs" for j
      using c(8) that unfolding fits_from_nth chunk_fits_def by blast
    have "finish_bytes blake ?c' m = Inr bytes"
      unfolding finish_bytes_Inr
      using lim c(2-6) len hs last chunk_lengths_ok [OF assms(1) len lens c(4)]
      by (auto simp: collector_new_def word_less_nat_alt)
    ultimately show ?thesis by blast
  qed
  ultimately show ?thesis using c(1) len assms(1) by (auto simp: length_chunks_of)
qed

definition const_digest :: "u8 list \<Rightarrow> string" where
  "const_digest bs = replicate 64 CHR ''a''"

lemma const_digest_hex: "is_hex_len (const_digest bs) 64"
  by (simp add: is_hex_len_def const_digest_def is_ascii_hexdigit_def byte_of_def list_all_iff)

lemma two: "0 < (2 :: nat)" "(2 :: nat) < 2 ^ 64"
  by simp_all

theorem chunk_roundtrip_witness:
  "\<exists>m cs. chunk_payload_bytes const_digest [1, 2, 3] 2 = Inr (m, cs) \<and> length cs = 2 \<and>
          reassemble_payload_chunks const_digest m cs = Some (Inr [1, 2, 3])"
proof -
  have "length [1, 2, 3 :: u8] \<le> ISIZE_MAX" by (simp add: ISIZE_MAX_def)
  from chunk_roundtrip [where blake = const_digest, OF two this const_digest_hex]
  obtain m cs where r: "chunk_payload_bytes const_digest [1, 2, 3] 2 = Inr (m, cs)"
    "length cs = nat_div_ceil (length [1, 2, 3 :: u8]) 2"
    "reassemble_payload_chunks const_digest m cs = Some (Inr [1, 2, 3])" by blast
  then have "length cs = 2" by (simp add: nat_div_ceil_def)
  with r show ?thesis by blast
qed

lemma sample_payload: "\<exists>m cs. reassemble_payload_chunks const_digest m cs = Some (Inr [1, 2, 3])"
proof -
  have l: "length [1, 2, 3 :: u8] \<le> ISIZE_MAX" by (simp add: ISIZE_MAX_def)
  obtain m cs where p: "validate_payload_manifest m = Inr ()"
    "unat (pm_total_len m) = length [1, 2, 3 :: u8]"
    "unat (pm_chunk_count m) = length (chunks_of 2 [1, 2, 3 :: u8])" "pm_blake3 m = const_digest [1, 2, 3]"
    "pm_chunks m = map const_digest (chunks_of 2 [1, 2, 3])"
    "fits_from const_digest 0 0 cs (chunks_of 2 [1, 2, 3])"
    "\<forall>j < length cs. pc_final_chunk (cs ! j) \<longleftrightarrow> j + 1 = length cs"
    by (rule chunk_payload_bytes_Inr [OF two l const_digest_hex])
  from reassemble_chunked [OF two(1) l p] show ?thesis by blast
qed

text \<open>
  C23. Reassembly vouches for the bytes: accepted bytes have the manifest's length and root digest, and
  are the concatenation of the decoded chunks, each with the digest the manifest lists for it. Two
  chunk sequences accepted under the same manifest have the same digests throughout, and carry the
  same bytes as long as the digest function does not collide on these two payloads.
\<close>

theorem reassembly_integrity:
  assumes "reassemble_payload_chunks blake m cs = Some (Inr bytes)"
    and "reassemble_payload_chunks blake m cs' = Some (Inr bytes')"
  shows "blake bytes = pm_blake3 m \<and> length bytes = unat (pm_total_len m) \<and>
         (\<exists>ds. bytes = concat ds \<and> map blake ds = pm_chunks m \<and>
               map (\<lambda>c. hex_decode (pc_data c) ''payload chunk data'') cs = map Inr ds) \<and>
         map pc_blake3 cs = map pc_blake3 cs' \<and> (inj_on blake {bytes, bytes'} \<longrightarrow> bytes = bytes')"
proof -
  from assms(1) obtain ds where f: "fits_from blake 0 0 cs ds" "pm_chunks m = map pc_blake3 cs" "bytes = concat ds"
    and r: "unat (pm_total_len m) = length bytes" "blake bytes = pm_blake3 m"
    unfolding reassemble_Inr by blast
  have r': "blake bytes' = pm_blake3 m" "pm_chunks m = map pc_blake3 cs'"
    using assms(2) unfolding reassemble_Inr by (elim conjE exE, simp)+
  have "map (\<lambda>c. hex_decode (pc_data c) ''payload chunk data'') cs = map Inr ds"
    using f(1) unfolding fits_from_nth chunk_fits_def by (intro nth_equalityI) simp_all
  then have "\<exists>ds. bytes = concat ds \<and> map blake ds = pm_chunks m \<and>
      map (\<lambda>c. hex_decode (pc_data c) ''payload chunk data'') cs = map Inr ds"
    using f fits_from_hashes [OF f(1)] by (intro exI [of _ ds]) simp
  moreover have "inj_on blake {bytes, bytes'} \<longrightarrow> bytes = bytes'" using r(2) r'(1) by (metis inj_onD insertI1 insertI2)
  moreover have "map pc_blake3 cs = map pc_blake3 cs'" using r'(2) f(2) by (simp only:)
  ultimately show ?thesis using r(1) [symmetric] r(2) by (intro conjI)
qed

theorem reassembly_integrity_witness:
  "\<exists>m cs. reassemble_payload_chunks const_digest m cs = Some (Inr [1, 2, 3]) \<and>
          length [1 :: u8, 2, 3] = unat (pm_total_len m)"
proof -
  obtain m cs where ok: "reassemble_payload_chunks const_digest m cs = Some (Inr [1, 2, 3])"
    using sample_payload by blast
  have "length [1 :: u8, 2, 3] = unat (pm_total_len m)" using reassembly_integrity [OF ok ok] by simp
  with ok show ?thesis by blast
qed

text \<open>
  The collector stays within its limits whatever it is fed: after any sequence of pushes, accepted
  or refused, it holds at most \<open>max_total_len\<close> bytes and \<open>max_chunks\<close> chunks, a digest and a
  length per accepted chunk, and exactly the bytes those lengths add up to; a refused push changes
  nothing, and nothing is accepted after a final chunk.
\<close>

definition collector_ok :: "payload_chunk_collector \<Rightarrow> bool" where
  "collector_ok c \<longleftrightarrow>
     length (col_bytes c) \<le> col_max_total_len c \<and> length (col_chunk_hashes c) \<le> col_max_chunks c \<and>
     length (col_chunk_lengths c) = length (col_chunk_hashes c) \<and>
     (\<Sum>l \<leftarrow> col_chunk_lengths c. unat l) = length (col_bytes c)"

definition collector_step ::
    "(u8 list \<Rightarrow> string) \<Rightarrow> payload_chunk \<Rightarrow> payload_chunk_collector \<Rightarrow> payload_chunk_collector" where
  "collector_step blake chunk c = snd (collector_push blake c chunk)"

lemma collector_step_cases:
  "(\<exists>c'. push_chunk blake c chunk = Inr c' \<and> collector_push blake c chunk = (Inr (), c')) \<or>
   (\<exists>e. push_chunk blake c chunk = Inl e \<and> collector_push blake c chunk = (Inl e, c))"
  by (cases "push_chunk blake c chunk") (simp_all add: collector_push_def)

lemma push_chunk_ok: "collector_ok c \<Longrightarrow> push_chunk blake c chunk = Inr c' \<Longrightarrow> collector_ok c'"
  unfolding push_chunk_Inr by (auto simp: collector_ok_def chunk_fits_def)

lemma collector_step_ok: "collector_ok c \<Longrightarrow> collector_ok (collector_step blake chunk c)"
  using collector_step_cases [of blake c chunk] push_chunk_ok by (auto simp: collector_step_def)

interpretation collector: machine "collector_step blake" collector_ok for blake
  by unfold_locales (rule collector_step_ok)

lemma collector_step_limits:
  "col_max_total_len (collector_step blake chunk c) = col_max_total_len c \<and>
   col_max_chunks (collector_step blake chunk c) = col_max_chunks c"
  using collector_step_cases [of blake c chunk] unfolding push_chunk_Inr by (auto simp: collector_step_def)

lemma collector_bounded:
  "let c = fold (collector_step blake) chunks (collector_new mt mc) in
     length (col_bytes c) \<le> mt \<and> length (col_chunk_hashes c) \<le> mc \<and>
     length (col_chunk_lengths c) = length (col_chunk_hashes c) \<and>
     (\<Sum>l \<leftarrow> col_chunk_lengths c. unat l) = length (col_bytes c) \<and>
     (\<forall>e c'. collector_push blake c x = (Inl e, c') \<longrightarrow> c' = c) \<and>
     (col_final_seen c \<longrightarrow> (\<exists>e. fst (collector_push blake c x) = Inl e))"
proof -
  let ?c = "fold (collector_step blake) chunks (collector_new mt mc)"
  have "collector_ok ?c"
    by (rule collector.run_inv) (simp add: collector_ok_def collector_new_def)
  moreover have "col_max_total_len ?c = mt" "col_max_chunks ?c = mc"
    using collector.run_stable [where f = col_max_total_len and s = "collector_new mt mc"]
      collector.run_stable [where f = col_max_chunks and s = "collector_new mt mc"]
    by (simp_all add: collector_step_limits collector_ok_def collector_new_def)
  moreover have "\<forall>e c'. collector_push blake ?c x = (Inl e, c') \<longrightarrow> c' = ?c"
    using collector_step_cases [of blake ?c x] by auto
  moreover have "col_final_seen ?c \<longrightarrow> (\<exists>e. fst (collector_push blake ?c x) = Inl e)"
    using collector_step_cases [of blake ?c x] unfolding push_chunk_Inr by auto
  ultimately show ?thesis by (simp add: collector_ok_def Let_def)
qed

lemma collector_bounded_witness:
  "length (col_bytes (fold (collector_step const_digest) [] (collector_new 4 2))) \<le> 4"
  using collector_bounded [of const_digest "[]" 4 2] unfolding Let_def by blast

lemma final_flags_iff:
  "(\<forall>j < length cs. pc_final_chunk (cs ! j) \<longleftrightarrow> j + 1 = length cs) \<longleftrightarrow>
   (\<forall>x \<in> set (butlast cs). \<not> pc_final_chunk x) \<and> (cs \<noteq> [] \<longrightarrow> pc_final_chunk (last cs))"
proof (cases cs rule: rev_cases)
  case (snoc ys y)
  then show ?thesis
    by (auto simp: all_set_conv_all_nth nth_append less_Suc_eq)
qed simp

text \<open>
  C32. The collector and batch reassembly agree: pushing the chunks of a payload one by one and
  finishing against the manifest gives bytes exactly when batch reassembly gives them and the limits
  and the manifest's chunk size are respected. The limits are ones a 64-bit allocation can satisfy.
\<close>

theorem collector_refines_batch:
  assumes "mt \<le> ISIZE_MAX" "mc < 2 ^ 64"
  shows "(\<exists>c. push_all blake cs (collector_new mt mc) = Inr c \<and> finish_bytes blake c m = Inr bytes) \<longleftrightarrow>
         reassemble_payload_chunks blake m cs = Some (Inr bytes) \<and> length bytes \<le> mt \<and> length cs \<le> mc \<and>
         (\<forall>x \<in> set (butlast cs). pc_len x = pm_chunk_size m) \<and>
         (cs \<noteq> [] \<longrightarrow> pc_len (last cs) \<le> pm_chunk_size m)"
  (is "?L \<longleftrightarrow> ?R")
proof -
  let ?c = "\<lambda>ds. (collector_new mt mc)\<lparr>col_bytes := concat ds, col_chunk_hashes := map pc_blake3 cs,
      col_chunk_lengths := map pc_len cs,
      col_final_seen := (if cs = [] then False else pc_final_chunk (last cs))\<rparr>"
  have push: "push_all blake cs (collector_new mt mc) = Inr c \<longleftrightarrow>
      (\<exists>ds. fits_from blake 0 0 cs ds \<and> (cs \<noteq> [] \<longrightarrow> length cs \<le> mc \<and> length (concat ds) \<le> mt) \<and>
            (\<forall>x \<in> set (butlast cs). \<not> pc_final_chunk x) \<and> c = ?c ds)" for c
    by (subst push_all_Inr) (use assms in \<open>simp_all add: collector_new_def\<close>)
  have flags: "(\<forall>j < length cs. pc_final_chunk (cs ! j) \<longleftrightarrow> j + 1 = length cs) \<longleftrightarrow>
      (\<forall>x \<in> set (butlast cs). \<not> pc_final_chunk x) \<and> (cs \<noteq> [] \<longrightarrow> pc_final_chunk (last cs))"
    by (rule final_flags_iff)
  have fin: "finish_bytes blake (?c ds) m = Inr bytes \<longleftrightarrow>
      validate_payload_manifest m = Inr () \<and> unat (pm_total_len m) \<le> mt \<and> unat (pm_chunk_count m) \<le> mc \<and>
      unat (pm_chunk_count m) = length cs \<and> (pm_chunk_count m > 0 \<longrightarrow> cs \<noteq> [] \<and> pc_final_chunk (last cs)) \<and>
      map pc_blake3 cs = pm_chunks m \<and> (\<forall>x \<in> set (butlast cs). pc_len x = pm_chunk_size m) \<and>
      (cs \<noteq> [] \<longrightarrow> pc_len (last cs) \<le> pm_chunk_size m) \<and>
      bytes = concat ds \<and> unat (pm_total_len m) = length bytes \<and> blake bytes = pm_blake3 m" for ds
    unfolding finish_bytes_Inr
    by (simp add: collector_new_def map_butlast [symmetric] last_map cong: conj_cong)
  have "?L \<longleftrightarrow> (\<exists>ds. fits_from blake 0 0 cs ds \<and> (cs \<noteq> [] \<longrightarrow> length cs \<le> mc \<and> length (concat ds) \<le> mt) \<and>
      (\<forall>x \<in> set (butlast cs). \<not> pc_final_chunk x) \<and> finish_bytes blake (?c ds) m = Inr bytes)"
    unfolding push by blast
  also have "\<dots> \<longleftrightarrow> ?R"
  proof
    assume "\<exists>ds. fits_from blake 0 0 cs ds \<and> (cs \<noteq> [] \<longrightarrow> length cs \<le> mc \<and> length (concat ds) \<le> mt) \<and>
      (\<forall>x \<in> set (butlast cs). \<not> pc_final_chunk x) \<and> finish_bytes blake (?c ds) m = Inr bytes"
    then obtain ds where ds: "fits_from blake 0 0 cs ds" "\<forall>x \<in> set (butlast cs). \<not> pc_final_chunk x"
      and f: "finish_bytes blake (?c ds) m = Inr bytes" by blast
    note f = f [unfolded fin]
    have "cs \<noteq> [] \<longrightarrow> pc_final_chunk (last cs)" "cs \<noteq> [] \<longrightarrow> unat (pm_total_len m) \<le> ISIZE_MAX"
      "length bytes \<le> mt" "length cs \<le> mc"
      using f assms(1) by (auto simp: word_less_nat_alt)
    then show ?R unfolding reassemble_Inr flags using ds f by auto
  next
    assume R: ?R
    then obtain ds where ds: "fits_from blake 0 0 cs ds" "pm_chunks m = map pc_blake3 cs" "bytes = concat ds"
      "(\<forall>x \<in> set (butlast cs). \<not> pc_final_chunk x) \<and> (cs \<noteq> [] \<longrightarrow> pc_final_chunk (last cs))"
      unfolding reassemble_Inr flags by blast
    have "finish_bytes blake (?c ds) m = Inr bytes"
      unfolding fin using R ds unfolding reassemble_Inr by (auto simp: word_less_nat_alt)
    then show "\<exists>ds. fits_from blake 0 0 cs ds \<and> (cs \<noteq> [] \<longrightarrow> length cs \<le> mc \<and> length (concat ds) \<le> mt) \<and>
      (\<forall>x \<in> set (butlast cs). \<not> pc_final_chunk x) \<and> finish_bytes blake (?c ds) m = Inr bytes"
      using R ds by (intro exI [of _ ds]) auto
  qed
  finally show ?thesis .
qed

theorem collector_refines_batch_witness:
  "let m = \<lparr>pm_schema_version = 1, pm_encoding = ''hex'', pm_total_len = 0, pm_chunk_size = 2,
            pm_chunk_count = 0, pm_blake3 = const_digest [], pm_chunks = []\<rparr>
   in reassemble_payload_chunks const_digest m [] = Some (Inr [])"
proof -
  let ?m = "\<lparr>pm_schema_version = 1, pm_encoding = ''hex'', pm_total_len = 0, pm_chunk_size = 2,
            pm_chunk_count = 0, pm_blake3 = const_digest [], pm_chunks = []\<rparr>"
  have v: "validate_payload_manifest ?m = Inr ()"
    by (simp add: validate_payload_manifest_Inr const_digest_hex
        SESSION_PAYLOAD_CHUNK_SCHEMA_VERSION_def SESSION_PAYLOAD_CHUNK_ENCODING_def)
  then have "finish_bytes const_digest (collector_new 10 10) ?m = Inr []"
    by (simp add: finish_bytes_Inr collector_new_def)
  then have "\<exists>c. push_all const_digest [] (collector_new 10 10) = Inr c \<and> finish_bytes const_digest c ?m = Inr []"
    by simp
  moreover have "(10 :: nat) \<le> ISIZE_MAX" "(10 :: nat) < 2 ^ 64" by (simp_all add: ISIZE_MAX_def)
  ultimately show ?thesis unfolding Let_def using collector_refines_batch [of 10 10] by blast
qed

text \<open>
  Batch reassembly panics exactly when a well-formed manifest, with as many digests as chunks
  were received and at least one, declares a total length above \<open>isize::MAX\<close>: the capacity is
  reserved from the declared length before any chunk is looked at. The collector has no such case.
\<close>

lemma reassemble_panics_iff:
  "reassemble_payload_chunks blake m cs = None \<longleftrightarrow>
     validate_payload_manifest m = Inr () \<and> unat (pm_chunk_count m) = length cs \<and> cs \<noteq> [] \<and>
     ISIZE_MAX < unat (pm_total_len m)"
proof (cases "validate_payload_manifest m = Inr () \<and> unat (pm_chunk_count m) = length cs")
  case False
  then have "rbind (validate_payload_manifest m) (\<lambda>_. rbind (u64_try (length cs) LengthOverflow) (\<lambda>n.
      if n \<noteq> pm_chunk_count m then Inl (ChunkCountMismatch (pm_chunk_count m) n) else Inr ())) \<noteq> Inr ()"
    by auto
  then show ?thesis
    using False unfolding reassemble_payload_chunks_def by (auto split: sum.splits)
next
  case True
  then have pre: "rbind (validate_payload_manifest m) (\<lambda>_. rbind (u64_try (length cs) LengthOverflow) (\<lambda>n.
      if n \<noteq> pm_chunk_count m then Inl (ChunkCountMismatch (pm_chunk_count m) n) else Inr ())) = Inr ()"
    by auto
  have "pm_chunk_count m = 0 \<longleftrightarrow> cs = []" using True by (simp add: word_unat_eq_iff)
  then show ?thesis using True unfolding reassemble_payload_chunks_def pre by auto
qed

text \<open>
  Hexadecimal: decoding the encoding of any bytes gives the bytes back, the encoding is twice as
  long and consists of hexadecimal digits, and decoding accepts a text exactly when it has an even
  number of characters, all hexadecimal digits of either case.
\<close>

lemma hex_roundtrip:
  "hex_decode (hex_encode bs) label = Inr bs \<and> is_hex_len (hex_encode bs) (2 * length bs) \<and>
   ((\<exists>out. hex_decode v label = Inr out) \<longleftrightarrow>
      even (length v) \<and> list_all (\<lambda>c. is_ascii_hexdigit (byte_of c)) v)"
proof (intro conjI)
  have nib: "hex_nibble b \<noteq> None \<longleftrightarrow> is_ascii_hexdigit b" for b
    by (simp add: hex_nibble_def is_ascii_hexdigit_def)
  have digit: "is_ascii_hexdigit (byte_of (HEX ! unat n))" if "n < 16" for n :: u8
    using hex_nibble_HEX [OF that] nib [of "byte_of (HEX ! unat n)"] by simp
  show "is_hex_len (hex_encode bs) (2 * length bs)"
    unfolding is_hex_len_def
    by (induction bs) (simp_all add: hex_encode_def digit high_nibble_less low_nibble_less)
  have loop: "even (length v) \<Longrightarrow> (\<exists>out. hex_decode_loop label v = Inr out) \<longleftrightarrow>
      list_all (\<lambda>c. is_ascii_hexdigit (byte_of c)) v"
  proof (induction label v rule: hex_decode_loop.induct)
    case (3 label a b rest)
    then show ?case using nib [of "byte_of a"] nib [of "byte_of b"] by auto
  qed simp_all
  show "(\<exists>out. hex_decode v label = Inr out) \<longleftrightarrow>
      even (length v) \<and> list_all (\<lambda>c. is_ascii_hexdigit (byte_of c)) v"
  proof (cases "even (length v)")
    case True
    then have "hex_decode v label = hex_decode_loop label v" by (simp add: hex_decode_def even_iff_mod_2_eq_zero)
    then show ?thesis using loop [OF True] True by simp
  next
    case False
    then have "hex_decode v label = Inl (InvalidHex label)" by (simp add: hex_decode_def odd_iff_mod_2_eq_one)
    then show ?thesis using False by simp
  qed
qed simp

end
