(* ===== verification/Parts_Catalog.thy ===== *)
theory Parts_Catalog
  imports Payload_Chunks "HOL-Library.Multiset"
begin

text \<open>
  The parts catalog of \<open>mayhem-proto/src/parts_catalog.rs\<close>: validation of part records and drafts,
  the index of all parts with its Merkle root, inclusion proofs and their verification. \<open>blake\<close> is
  the hex digest of the third-party BLAKE3 hash (an incremental hasher digests the concatenation of
  its updates); \<open>ser\<close> is \<open>serde_json::to_value\<close> followed by \<open>stable_json_bytes\<close>. A JSON value in
  the free-form \<open>adapter\<close> map is of the type parameter \<open>'j\<close>.
\<close>

section \<open>Data\<close>

definition COMFY_PART_RECORD_SCHEMA_VERSION :: u32 where "COMFY_PART_RECORD_SCHEMA_VERSION = 1"
definition COMFY_PARTS_INDEX_SCHEMA_VERSION :: u32 where "COMFY_PARTS_INDEX_SCHEMA_VERSION = 1"
definition COMFY_PARTS_ANCHOR_SCHEMA_VERSION :: u32 where "COMFY_PARTS_ANCHOR_SCHEMA_VERSION = 1"

definition PART_ID_DOMAIN :: string where "PART_ID_DOMAIN = ''mayhem:comfy-part-id:v1''"
definition PART_LEAF_DOMAIN :: string where "PART_LEAF_DOMAIN = ''mayhem:comfy-parts-leaf:v1''"
definition PART_BRANCH_DOMAIN :: string where "PART_BRANCH_DOMAIN = ''mayhem:comfy-parts-branch:v1''"
definition PART_EMPTY_INDEX_DOMAIN :: string where
  "PART_EMPTY_INDEX_DOMAIN = ''mayhem:comfy-parts-empty-index:v1''"
definition PART_ANCHOR_DOMAIN :: string where "PART_ANCHOR_DOMAIN = ''mayhem:comfy-parts-anchor:v1''"

definition PART_TYPES :: "string list" where
  "PART_TYPES = [''audio-model'', ''checkpoint'', ''clip-vision'', ''controlnet'', ''custom-node'',
     ''lipsync'', ''lora'', ''text-encoder'', ''tts'', ''upscaler'', ''vae'', ''video-model'']"

definition PART_STATUSES :: "string list" where
  "PART_STATUSES = [''draft'', ''linked'', ''policy-review'', ''in-catalog'', ''excluded'']"

record comfy_part_source =
  src_kind :: string
  src_url :: string
  src_repository :: "string option"
  src_path :: "string option"
  src_revision :: "string option"

record comfy_part_sources =
  mirrors :: "comfy_part_source list"
  origins :: "comfy_part_source list"
  require_auth :: bool

record comfy_part_license_evidence =
  le_doc_hash :: string
  le_archived_ref :: string
  le_captured_at :: string

record comfy_part_canary_tolerance =
  tol_method :: string
  tol_max_distance_bps :: u32

record comfy_part_canary =
  can_probe_graph_hash :: string
  can_reference_output_ref :: string
  can_tolerance :: comfy_part_canary_tolerance

record 'j comfy_part_record =
  pr_schema_version :: u32
  pr_part_id :: string
  pr_name :: string
  pr_part_type :: string
  pr_lane :: string
  pr_sha256 :: string
  pr_blake3_root :: string
  pr_size_bytes :: u64
  pr_file_format :: string
  pr_license :: string
  pr_permissions :: "string list"
  pr_policy_flags :: "string list"
  pr_adapter :: "(string, 'j) btree"
  pr_min_runtime :: string
  pr_sources :: comfy_part_sources
  pr_license_evidence :: comfy_part_license_evidence
  pr_canary :: comfy_part_canary
  pr_status :: string

record 'j comfy_part_draft =
  dr_name :: string
  dr_part_type :: string
  dr_lane :: string
  dr_sha256 :: string
  dr_size_bytes :: u64
  dr_size_bytes_exact :: bool
  dr_file_format :: string
  dr_license :: string
  dr_permissions :: "string list"
  dr_policy_flags :: "string list"
  dr_adapter :: "(string, 'j) btree"
  dr_sources :: comfy_part_sources
  dr_status :: string

record comfy_parts_index_entry =
  ie_part_id :: string
  ie_record_hash :: string
  ie_part_type :: string
  ie_lane :: string
  ie_status :: string

record comfy_parts_index =
  pi_schema_version :: u32
  pi_index_ver :: u32
  pi_root :: string
  pi_parts :: "comfy_parts_index_entry list"

datatype comfy_part_merkle_side = LeftSide | RightSide

record comfy_part_merkle_sibling =
  ms_side :: comfy_part_merkle_side
  ms_hash :: string

record comfy_part_merkle_proof =
  mp_leaf_index :: u64
  mp_leaf_count :: u64
  mp_leaf_hash :: string
  mp_siblings :: "comfy_part_merkle_sibling list"

record comfy_parts_anchor =
  an_schema_version :: u32
  an_parts_index_root :: string
  an_index_ver :: u32
  an_blessed_runtimes :: "string list"
  an_whitelist_ver :: u32
  an_outcome_classes_ver :: u32

datatype comfy_parts_catalog_error =
  InvalidSchemaVersion string u32 u32
| InvalidField string string
| DuplicatePartId string
| PartNotFound string
| InvalidProof string
| CatalogJson string
| CatalogYaml string

fun comfy_parts_catalog_error_fmt :: "comfy_parts_catalog_error \<Rightarrow> string" where
  "comfy_parts_catalog_error_fmt (InvalidSchemaVersion k expected got) =
     k @ '' schema version mismatch: expected '' @ show_nat (unat expected) @ '', got '' @ show_nat (unat got)"
| "comfy_parts_catalog_error_fmt (InvalidField field reason) = field @ '' is invalid: '' @ reason"
| "comfy_parts_catalog_error_fmt (DuplicatePartId part_id) = ''duplicate part_id '' @ part_id"
| "comfy_parts_catalog_error_fmt (PartNotFound part_id) = ''part_id '' @ part_id @ '' is not in the index''"
| "comfy_parts_catalog_error_fmt (InvalidProof reason) = ''invalid parts merkle proof: '' @ reason"
| "comfy_parts_catalog_error_fmt (CatalogJson reason) = ''parts catalog JSON error: '' @ reason"
| "comfy_parts_catalog_error_fmt (CatalogYaml reason) = ''parts catalog YAML error: '' @ reason"

type_synonym 'a parts_result = "(comfy_parts_catalog_error, 'a) result"

section \<open>Field validation\<close>

fun str_join :: "string \<Rightarrow> string list \<Rightarrow> string" where
  "str_join sep [] = []"
| "str_join sep [x] = x"
| "str_join sep (x # y # rest) = x @ sep @ str_join sep (y # rest)"

definition validate_non_empty :: "string \<Rightarrow> string \<Rightarrow> unit parts_result" where
  "validate_non_empty field v =
     (if str_trim v = [] then Inl (InvalidField field ''must be non-empty'') else Inr ())"

definition validate_enum :: "string \<Rightarrow> string \<Rightarrow> string list \<Rightarrow> unit parts_result" where
  "validate_enum field v allowed =
     (if v \<in> set allowed then Inr ()
      else Inl (InvalidField field (''must be one of '' @ str_join '', '' allowed)))"

definition validate_hex :: "string \<Rightarrow> string \<Rightarrow> unit parts_result" where
  "validate_hex field v =
     (if length v = 64 \<and> list_all (\<lambda>c. is_ascii_hexdigit (byte_of c)) v then Inr ()
      else Inl (InvalidField field ''must be a 32-byte hex digest''))"

definition validate_https :: "string \<Rightarrow> string \<Rightarrow> unit parts_result" where
  "validate_https field v =
     (if starts_with v ''https://'' then Inr () else Inl (InvalidField field ''must be an HTTPS URL''))"

definition normalize_hex :: "string \<Rightarrow> string parts_result" where
  "normalize_hex v =
     (let normalized = to_ascii_lowercase v
      in rbind (validate_hex ''hex'' normalized) (\<lambda>_. Inr normalized))"

definition source_validate :: "comfy_part_source \<Rightarrow> unit parts_result" where
  "source_validate s =
     rbind (validate_non_empty ''source.kind'' (src_kind s)) (\<lambda>_.
     validate_https ''source.url'' (src_url s))"

definition sources_validate :: "comfy_part_sources \<Rightarrow> unit parts_result" where
  "sources_validate s =
     (if mirrors s = [] \<and> origins s = []
      then Inl (InvalidField ''sources'' ''must contain at least one mirror or origin'')
      else rbind (rmap source_validate (mirrors s @ origins s)) (\<lambda>_. Inr ()))"

definition license_evidence_validate :: "comfy_part_license_evidence \<Rightarrow> unit parts_result" where
  "license_evidence_validate e =
     rbind (validate_hex ''license_evidence.doc_hash'' (le_doc_hash e)) (\<lambda>_.
     rbind (validate_non_empty ''license_evidence.archived_ref'' (le_archived_ref e)) (\<lambda>_.
     validate_non_empty ''license_evidence.captured_at'' (le_captured_at e)))"

definition CANARY_METHODS :: "string list" where
  "CANARY_METHODS = [''phash'', ''average_hash'', ''image_average_hash'', ''seed_perceptual_hash'',
     ''audio_fingerprint'', ''video_av_fingerprint'', ''sha256'', ''exact_sha256'']"

definition tolerance_validate :: "comfy_part_canary_tolerance \<Rightarrow> unit parts_result" where
  "tolerance_validate t =
     rbind (validate_non_empty ''canary.tolerance.method'' (tol_method t)) (\<lambda>_.
     let m = to_ascii_lowercase (str_trim (tol_method t)) in
     if m \<notin> set CANARY_METHODS
     then Inl (InvalidField ''canary.tolerance.method'' (''unsupported method '' @ tol_method t))
     else if tol_max_distance_bps t > 10000
     then Inl (InvalidField ''canary.tolerance.max_distance_bps'' ''must be at most 10000'')
     else Inr ())"

definition canary_validate :: "comfy_part_canary \<Rightarrow> unit parts_result" where
  "canary_validate c =
     rbind (validate_hex ''canary.probe_graph_hash'' (can_probe_graph_hash c)) (\<lambda>_.
     rbind (validate_non_empty ''canary.reference_output_ref'' (can_reference_output_ref c)) (\<lambda>_.
     tolerance_validate (can_tolerance c)))"

section \<open>Hashing\<close>

definition bytes_of :: "string \<Rightarrow> u8 list" where
  "bytes_of s = map byte_of s"

definition derive_comfy_part_id :: "(u8 list \<Rightarrow> string) \<Rightarrow> string \<Rightarrow> string \<Rightarrow> string \<Rightarrow> string" where
  "derive_comfy_part_id blake part_type name sha =
     blake (bytes_of PART_ID_DOMAIN @ [0] @ bytes_of part_type @ [0] @ bytes_of name @ [0]
            @ bytes_of (to_ascii_lowercase sha))"

definition domain_hash_hex :: "(u8 list \<Rightarrow> string) \<Rightarrow> string \<Rightarrow> u8 list list \<Rightarrow> string" where
  "domain_hash_hex blake domain chunks = blake (bytes_of domain @ concat (map (\<lambda>chunk. 0 # chunk) chunks))"

section \<open>Records and drafts\<close>

definition record_validate :: "(u8 list \<Rightarrow> string) \<Rightarrow> 'j comfy_part_record \<Rightarrow> unit parts_result" where
  "record_validate blake r =
     (if pr_schema_version r \<noteq> COMFY_PART_RECORD_SCHEMA_VERSION
      then Inl (InvalidSchemaVersion ''part record'' COMFY_PART_RECORD_SCHEMA_VERSION (pr_schema_version r))
      else
      rbind (validate_non_empty ''part_id'' (pr_part_id r)) (\<lambda>_.
      rbind (validate_non_empty ''name'' (pr_name r)) (\<lambda>_.
      rbind (validate_enum ''type'' (pr_part_type r) PART_TYPES) (\<lambda>_.
      rbind (validate_non_empty ''lane'' (pr_lane r)) (\<lambda>_.
      rbind (validate_hex ''sha256'' (pr_sha256 r)) (\<lambda>_.
      if pr_part_id r \<noteq> derive_comfy_part_id blake (pr_part_type r) (pr_name r) (pr_sha256 r)
      then Inl (InvalidField ''part_id'' ''does not match type/name/sha256 identity'')
      else
      rbind (validate_hex ''blake3_root'' (pr_blake3_root r)) (\<lambda>_.
      if pr_size_bytes r = 0 then Inl (InvalidField ''size_bytes'' ''must be greater than zero'')
      else
      rbind (validate_non_empty ''file_format'' (pr_file_format r)) (\<lambda>_.
      rbind (validate_non_empty ''license'' (pr_license r)) (\<lambda>_.
      rbind (validate_non_empty ''min_runtime'' (pr_min_runtime r)) (\<lambda>_.
      rbind (validate_enum ''status'' (pr_status r) PART_STATUSES) (\<lambda>_.
      rbind (sources_validate (pr_sources r)) (\<lambda>_.
      rbind (license_evidence_validate (pr_license_evidence r)) (\<lambda>_.
      canary_validate (pr_canary r))))))))))))))"

definition draft_validate :: "'j comfy_part_draft \<Rightarrow> unit parts_result" where
  "draft_validate d =
     rbind (validate_non_empty ''name'' (dr_name d)) (\<lambda>_.
     rbind (validate_enum ''type'' (dr_part_type d) PART_TYPES) (\<lambda>_.
     rbind (validate_non_empty ''lane'' (dr_lane d)) (\<lambda>_.
     rbind (validate_hex ''sha256'' (dr_sha256 d)) (\<lambda>_.
     if dr_size_bytes d = 0 then Inl (InvalidField ''size_bytes'' ''must be greater than zero'')
     else
     rbind (validate_non_empty ''file_format'' (dr_file_format d)) (\<lambda>_.
     rbind (validate_non_empty ''license'' (dr_license d)) (\<lambda>_.
     rbind (validate_enum ''status'' (dr_status d) PART_STATUSES) (\<lambda>_.
     sources_validate (dr_sources d))))))))"

definition draft_finalize ::
    "(u8 list \<Rightarrow> string) \<Rightarrow> 'j comfy_part_draft \<Rightarrow> string \<Rightarrow> string \<Rightarrow> comfy_part_license_evidence \<Rightarrow>
       comfy_part_canary \<Rightarrow> 'j comfy_part_record parts_result" where
  "draft_finalize blake d blake3_root min_runtime license_evidence canary =
     (let record =
        \<lparr>pr_schema_version = COMFY_PART_RECORD_SCHEMA_VERSION,
         pr_part_id = derive_comfy_part_id blake (dr_part_type d) (dr_name d) (dr_sha256 d),
         pr_name = dr_name d, pr_part_type = dr_part_type d, pr_lane = dr_lane d,
         pr_sha256 = dr_sha256 d, pr_blake3_root = blake3_root, pr_size_bytes = dr_size_bytes d,
         pr_file_format = dr_file_format d, pr_license = dr_license d,
         pr_permissions = dr_permissions d, pr_policy_flags = dr_policy_flags d,
         pr_adapter = dr_adapter d, pr_min_runtime = min_runtime, pr_sources = dr_sources d,
         pr_license_evidence = license_evidence, pr_canary = canary, pr_status = dr_status d\<rparr>
      in rbind (record_validate blake record) (\<lambda>_. Inr record))"

definition anchor_validate :: "comfy_parts_anchor \<Rightarrow> unit parts_result" where
  "anchor_validate a =
     (if an_schema_version a \<noteq> COMFY_PARTS_ANCHOR_SCHEMA_VERSION
      then Inl (InvalidSchemaVersion ''parts anchor'' COMFY_PARTS_ANCHOR_SCHEMA_VERSION (an_schema_version a))
      else validate_hex ''parts_index_root'' (an_parts_index_root a))"

section \<open>The Merkle tree\<close>

definition merkle_branch_hash :: "(u8 list \<Rightarrow> string) \<Rightarrow> string \<Rightarrow> string \<Rightarrow> string parts_result" where
  "merkle_branch_hash blake left right =
     rbind (validate_hex ''left branch hash'' left) (\<lambda>_.
     rbind (validate_hex ''right branch hash'' right) (\<lambda>_.
     Inr (domain_hash_hex blake PART_BRANCH_DOMAIN [bytes_of left, bytes_of right])))"

text \<open>The next layer: pairs are hashed together, an odd last node moves up as it is.\<close>

fun merkle_next :: "(u8 list \<Rightarrow> string) \<Rightarrow> string list \<Rightarrow> string list parts_result" where
  "merkle_next blake [] = Inr []"
| "merkle_next blake [x] = Inr [x]"
| "merkle_next blake (left # right # rest) =
     rbind (merkle_branch_hash blake left right) (\<lambda>h.
     rbind (merkle_next blake rest) (\<lambda>t. Inr (h # t)))"

lemma merkle_next_length: "merkle_next blake layer = Inr nxt \<Longrightarrow> length nxt = (length layer + 1) div 2"
  by (induction blake layer arbitrary: nxt rule: merkle_next.induct) auto

function merkle_reduce :: "(u8 list \<Rightarrow> string) \<Rightarrow> string list \<Rightarrow> string parts_result" where
  "merkle_reduce blake layer =
     (if length layer > 1
      then (case merkle_next blake layer of Inl e \<Rightarrow> Inl e | Inr nxt \<Rightarrow> merkle_reduce blake nxt)
      else Inr (layer ! 0))"
  by pat_completeness auto
termination
  by (relation "measure (length \<circ> snd)") (auto dest: merkle_next_length)

declare merkle_reduce.simps [simp del]

fun validate_leaves :: "string list \<Rightarrow> unit parts_result" where
  "validate_leaves [] = Inr ()"
| "validate_leaves (leaf # rest) = rbind (validate_hex ''leaf hash'' leaf) (\<lambda>_. validate_leaves rest)"

definition merkle_root_from_leaves :: "(u8 list \<Rightarrow> string) \<Rightarrow> string list \<Rightarrow> string parts_result" where
  "merkle_root_from_leaves blake leaves =
     (if leaves = [] then Inr (blake (bytes_of PART_EMPTY_INDEX_DOMAIN))
      else rbind (validate_leaves leaves) (\<lambda>_. merkle_reduce blake leaves))"

function merkle_siblings_loop ::
    "(u8 list \<Rightarrow> string) \<Rightarrow> nat \<Rightarrow> string list \<Rightarrow> comfy_part_merkle_sibling list \<Rightarrow>
       comfy_part_merkle_sibling list parts_result" where
  "merkle_siblings_loop blake index layer siblings =
     (if length layer > 1
      then (let siblings' =
                  (if index mod 2 = 0
                   then (if index + 1 < length layer
                         then siblings @ [\<lparr>ms_side = RightSide, ms_hash = layer ! (index + 1)\<rparr>]
                         else siblings)
                   else siblings @ [\<lparr>ms_side = LeftSide, ms_hash = layer ! (index - 1)\<rparr>])
            in case merkle_next blake layer of
                 Inl e \<Rightarrow> Inl e
               | Inr nxt \<Rightarrow> merkle_siblings_loop blake (index div 2) nxt siblings')
      else Inr siblings)"
  by pat_completeness auto
termination
  by (relation "measure (\<lambda>(_, _, layer, _). length layer)") (auto dest: merkle_next_length)

declare merkle_siblings_loop.simps [simp del]

definition merkle_siblings ::
    "(u8 list \<Rightarrow> string) \<Rightarrow> string list \<Rightarrow> nat \<Rightarrow> comfy_part_merkle_sibling list parts_result" where
  "merkle_siblings blake leaves position =
     (if leaves = [] \<or> position \<ge> length leaves then Inl (InvalidProof ''leaf position is out of bounds'')
      else merkle_siblings_loop blake position leaves [])"

section \<open>Index, proof, verification\<close>

definition comfy_part_record_hash ::
    "(u8 list \<Rightarrow> string) \<Rightarrow> ('j comfy_part_record \<Rightarrow> string + u8 list) \<Rightarrow> 'j comfy_part_record \<Rightarrow>
       string parts_result" where
  "comfy_part_record_hash blake ser r =
     rbind (record_validate blake r) (\<lambda>_.
     rbind (case ser r of Inl err \<Rightarrow> Inl (CatalogJson err) | Inr bytes \<Rightarrow> Inr bytes) (\<lambda>bytes.
     Inr (domain_hash_hex blake PART_LEAF_DOMAIN [bytes])))"

definition comfy_parts_anchor_hash ::
    "(u8 list \<Rightarrow> string) \<Rightarrow> (comfy_parts_anchor \<Rightarrow> string + u8 list) \<Rightarrow> comfy_parts_anchor \<Rightarrow>
       string parts_result" where
  "comfy_parts_anchor_hash blake ser_anchor a =
     rbind (anchor_validate a) (\<lambda>_.
     rbind (case ser_anchor a of Inl err \<Rightarrow> Inl (CatalogJson err) | Inr bytes \<Rightarrow> Inr bytes) (\<lambda>bytes.
     Inr (domain_hash_hex blake PART_ANCHOR_DOMAIN [bytes])))"

fun check_records ::
    "(u8 list \<Rightarrow> string) \<Rightarrow> 'j comfy_part_record list \<Rightarrow> string set \<Rightarrow> unit parts_result" where
  "check_records blake [] seen = Inr ()"
| "check_records blake (r # rest) seen =
     rbind (record_validate blake r) (\<lambda>_.
     if pr_part_id r \<in> seen then Inl (DuplicatePartId (pr_part_id r))
     else check_records blake rest (insert (pr_part_id r) seen))"

definition sorted_records ::
    "(u8 list \<Rightarrow> string) \<Rightarrow> 'j comfy_part_record list \<Rightarrow> 'j comfy_part_record list parts_result" where
  "sorted_records blake records =
     rbind (check_records blake records {}) (\<lambda>_. Inr (sort_key pr_part_id records))"

definition index_entry :: "'j comfy_part_record \<Rightarrow> string \<Rightarrow> comfy_parts_index_entry" where
  "index_entry r record_hash =
     \<lparr>ie_part_id = pr_part_id r, ie_record_hash = record_hash, ie_part_type = pr_part_type r,
      ie_lane = pr_lane r, ie_status = pr_status r\<rparr>"

definition build_comfy_parts_index ::
    "(u8 list \<Rightarrow> string) \<Rightarrow> ('j comfy_part_record \<Rightarrow> string + u8 list) \<Rightarrow> 'j comfy_part_record list \<Rightarrow> u32 \<Rightarrow>
       comfy_parts_index parts_result" where
  "build_comfy_parts_index blake ser records index_ver =
     rbind (sorted_records blake records) (\<lambda>sorted.
     rbind (rmap (comfy_part_record_hash blake ser) sorted) (\<lambda>leaves.
     rbind (merkle_root_from_leaves blake leaves) (\<lambda>root.
     Inr \<lparr>pi_schema_version = COMFY_PARTS_INDEX_SCHEMA_VERSION, pi_index_ver = index_ver,
          pi_root = root, pi_parts = map2 index_entry sorted leaves\<rparr>)))"

fun position_of :: "('a \<Rightarrow> bool) \<Rightarrow> 'a list \<Rightarrow> nat option" where
  "position_of P [] = None"
| "position_of P (x # xs) = (if P x then Some 0 else map_option Suc (position_of P xs))"

definition prove_comfy_part ::
    "(u8 list \<Rightarrow> string) \<Rightarrow> ('j comfy_part_record \<Rightarrow> string + u8 list) \<Rightarrow> 'j comfy_part_record list \<Rightarrow> string \<Rightarrow>
       comfy_part_merkle_proof parts_result" where
  "prove_comfy_part blake ser records part_id =
     rbind (sorted_records blake records) (\<lambda>sorted.
     rbind (rmap (comfy_part_record_hash blake ser) sorted) (\<lambda>leaves.
     rbind (ok_or (position_of (\<lambda>r. pr_part_id r = part_id) sorted) (PartNotFound part_id)) (\<lambda>position.
     rbind (merkle_siblings blake leaves position) (\<lambda>siblings.
     rbind (u64_try position (InvalidProof ''leaf index overflow'')) (\<lambda>leaf_index.
     rbind (u64_try (length leaves) (InvalidProof ''leaf count overflow'')) (\<lambda>leaf_count.
     Inr \<lparr>mp_leaf_index = leaf_index, mp_leaf_count = leaf_count, mp_leaf_hash = leaves ! position,
          mp_siblings = siblings\<rparr>))))))"

text \<open>
  The verification loop, on the values of the two 64-bit counters: \<open>index < count\<close> holds at each
  round, so neither \<open>index + 1\<close> nor \<open>count.div_ceil(2)\<close> leaves the 64-bit range.
\<close>

function verify_loop ::
    "(u8 list \<Rightarrow> string) \<Rightarrow> string \<Rightarrow> nat \<Rightarrow> nat \<Rightarrow> comfy_part_merkle_sibling list \<Rightarrow>
       (string \<times> comfy_part_merkle_sibling list) parts_result" where
  "verify_loop blake hash index cnt siblings =
     (if cnt > 1
      then (if index mod 2 = 0
            then (if index + 1 < cnt
                  then (case siblings of
                          [] \<Rightarrow> Inl (InvalidProof ''missing right sibling'')
                        | sib # rest \<Rightarrow>
                            if ms_side sib \<noteq> RightSide then Inl (InvalidProof ''expected right sibling'')
                            else (case rbind (validate_hex ''proof sibling hash'' (ms_hash sib)) (\<lambda>_.
                                         merkle_branch_hash blake hash (ms_hash sib)) of
                                    Inl e \<Rightarrow> Inl e
                                  | Inr h \<Rightarrow> verify_loop blake h (index div 2) (nat_div_ceil cnt 2) rest))
                  else verify_loop blake hash (index div 2) (nat_div_ceil cnt 2) siblings)
            else (case siblings of
                    [] \<Rightarrow> Inl (InvalidProof ''missing left sibling'')
                  | sib # rest \<Rightarrow>
                      if ms_side sib \<noteq> LeftSide then Inl (InvalidProof ''expected left sibling'')
                      else (case rbind (validate_hex ''proof sibling hash'' (ms_hash sib)) (\<lambda>_.
                                   merkle_branch_hash blake (ms_hash sib) hash) of
                              Inl e \<Rightarrow> Inl e
                            | Inr h \<Rightarrow> verify_loop blake h (index div 2) (nat_div_ceil cnt 2) rest)))
      else Inr (hash, siblings))"
  by pat_completeness auto
termination
  by (relation "measure (\<lambda>(_, _, _, cnt, _). cnt)") (auto simp: nat_div_ceil_def)

declare verify_loop.simps [simp del]

definition verify_comfy_part_proof ::
    "(u8 list \<Rightarrow> string) \<Rightarrow> ('j comfy_part_record \<Rightarrow> string + u8 list) \<Rightarrow> 'j comfy_part_record \<Rightarrow>
       comfy_part_merkle_proof \<Rightarrow> string \<Rightarrow> unit parts_result" where
  "verify_comfy_part_proof blake ser r mpath root =
     rbind (validate_hex ''parts_index_root'' root) (\<lambda>_.
     if mp_leaf_count mpath = 0 then Inl (InvalidProof ''leaf_count must be greater than zero'')
     else if mp_leaf_index mpath \<ge> mp_leaf_count mpath
     then Inl (InvalidProof ''leaf_index must be less than leaf_count'')
     else rbind (comfy_part_record_hash blake ser r) (\<lambda>expected_leaf.
     if mp_leaf_hash mpath \<noteq> expected_leaf
     then Inl (InvalidProof ''leaf hash does not match the part record'')
     else rbind (verify_loop blake (mp_leaf_hash mpath) (unat (mp_leaf_index mpath))
                   (unat (mp_leaf_count mpath)) (mp_siblings mpath)) (\<lambda>(hash, rest).
     if rest \<noteq> [] then Inl (InvalidProof ''proof contains extra siblings'')
     else if hash = root then Inr ()
     else Inl (InvalidProof ''recomputed root does not match''))))"

section \<open>Layers\<close>

definition branch_input :: "string \<times> string \<Rightarrow> u8 list" where
  "branch_input p = bytes_of PART_BRANCH_DOMAIN @ concat (map (\<lambda>chunk. 0 # chunk) [bytes_of (fst p), bytes_of (snd p)])"

definition branch :: "(u8 list \<Rightarrow> string) \<Rightarrow> string \<Rightarrow> string \<Rightarrow> string" where
  "branch blake l r = blake (branch_input (l, r))"

abbreviation hex64 :: "string \<Rightarrow> bool" where
  "hex64 v \<equiv> is_hex_len v 64"

lemma validate_hex_Inr [simp]: "validate_hex f v = Inr u \<longleftrightarrow> hex64 v"
  by (simp add: validate_hex_def is_hex_len_def)

lemma merkle_branch_hash_Inr [simp]:
  "merkle_branch_hash blake l r = Inr h \<longleftrightarrow> hex64 l \<and> hex64 r \<and> h = branch blake l r"
  by (auto simp: merkle_branch_hash_def domain_hash_hex_def branch_def branch_input_def)

lemma merkle_branch_hash_hex:
  "hex64 l \<Longrightarrow> hex64 r \<Longrightarrow> merkle_branch_hash blake l r = Inr (branch blake l r)"
  by simp

lemma validate_hex_hex: "hex64 v \<Longrightarrow> validate_hex f v = Inr ()"
  by simp

fun pair_up :: "(u8 list \<Rightarrow> string) \<Rightarrow> string list \<Rightarrow> string list" where
  "pair_up blake [] = []"
| "pair_up blake [x] = [x]"
| "pair_up blake (l # r # rest) = branch blake l r # pair_up blake rest"

lemma merkle_next_Inr:
  "merkle_next blake layer = Inr nxt \<Longrightarrow> nxt = pair_up blake layer"
  by (induction blake layer arbitrary: nxt rule: merkle_next.induct) auto

lemma merkle_next_hex: "(\<And>x. x \<in> set layer \<Longrightarrow> hex64 x) \<Longrightarrow> merkle_next blake layer = Inr (pair_up blake layer)"
proof (induction blake layer rule: merkle_next.induct)
  case (3 blake l r rest)
  then have "merkle_branch_hash blake l r = Inr (branch blake l r)" by simp
  then show ?case using 3 by simp
qed simp_all

lemma length_pair_up [simp]: "length (pair_up blake layer) = (length layer + 1) div 2"
  by (induction blake layer rule: pair_up.induct) auto

lemma pair_up_hex:
  assumes "\<And>bs. hex64 (blake bs)" "\<And>x. x \<in> set layer \<Longrightarrow> hex64 x" "x \<in> set (pair_up blake layer)"
  shows "hex64 x"
  using assms
  by (induction blake layer rule: pair_up.induct) (auto simp: branch_def)

lemma pair_up_nth:
  "i < length layer \<Longrightarrow> pair_up blake layer ! (i div 2) =
     (if i mod 2 = 0 then (if i + 1 < length layer then branch blake (layer ! i) (layer ! (i + 1)) else layer ! i)
      else branch blake (layer ! (i - 1)) (layer ! i))"
proof (induction blake layer arbitrary: i rule: pair_up.induct)
  case (3 blake l r rest)
  consider "i = 0" | "i = 1" | j where "i = j + 2" by (metis One_nat_def add_2_eq_Suc' not0_implies_Suc)
  then show ?case
  proof cases
    case (3 j)
    then have "j < length rest" using "3.prems" by simp
    then show ?thesis using "3.IH" [of j] 3 by (auto simp: nth_Cons')
  qed simp_all
qed auto

text \<open>What the sibling loop collects is what the verification loop consumes.\<close>

lemma siblings_verify:
  assumes hex: "\<And>bs. hex64 (blake bs)"
  shows "\<lbrakk>\<And>x. x \<in> set layer \<Longrightarrow> hex64 x; idx < length layer\<rbrakk> \<Longrightarrow>
    \<exists>sibs root. merkle_siblings_loop blake idx layer acc = Inr (acc @ sibs) \<and> merkle_reduce blake layer = Inr root \<and>
      hex64 root \<and> verify_loop blake (layer ! idx) idx (length layer) (sibs @ rest) = Inr (root, rest)"
proof (induction "length layer" arbitrary: layer idx acc rule: less_induct)
  case less
  show ?case
  proof (cases "length layer > 1")
    case False
    then have "idx = 0" using less.prems(2) by simp
    with False less.prems show ?thesis
      by (simp add: merkle_siblings_loop.simps merkle_reduce.simps verify_loop.simps)
  next
    case True
    let ?nxt = "pair_up blake layer" and ?m = "length layer"
    have nxt: "merkle_next blake layer = Inr ?nxt" using less.prems(1) by (rule merkle_next_hex)
    have hx: "\<And>x. x \<in> set ?nxt \<Longrightarrow> hex64 x" by (rule pair_up_hex [OF hex less.prems(1)])
    have short: "length ?nxt < ?m" using True by simp
    have idx: "idx div 2 < length ?nxt" using less.prems(2) by simp
    let ?new = "if idx mod 2 = 0
                then (if idx + 1 < ?m then [\<lparr>ms_side = RightSide, ms_hash = layer ! (idx + 1)\<rparr>] else [])
                else [\<lparr>ms_side = LeftSide, ms_hash = layer ! (idx - 1)\<rparr>]"
    obtain sibs root where IH: "merkle_siblings_loop blake (idx div 2) ?nxt (acc @ ?new) = Inr ((acc @ ?new) @ sibs)"
      "merkle_reduce blake ?nxt = Inr root" "hex64 root"
      "verify_loop blake (?nxt ! (idx div 2)) (idx div 2) (length ?nxt) (sibs @ rest) = Inr (root, rest)"
      using less.hyps [OF short hx idx, of "acc @ ?new"] by auto
    have sib: "merkle_siblings_loop blake idx layer acc = Inr (acc @ ?new @ sibs)"
      using IH(1) True nxt by (subst merkle_siblings_loop.simps) (simp add: Let_def split: if_splits)
    have red: "merkle_reduce blake layer = Inr root"
      using IH(2) True nxt by (subst merkle_reduce.simps) simp
    have mem: "hex64 (layer ! idx)" "idx + 1 < ?m \<Longrightarrow> hex64 (layer ! (idx + 1))" "hex64 (layer ! (idx - 1))"
      using less.prems by simp_all
    have "verify_loop blake (layer ! idx) idx ?m (?new @ sibs @ rest) = Inr (root, rest)"
      using IH(4) True mem pair_up_nth [OF less.prems(2), of blake]
      by (subst verify_loop.simps) (auto simp: nat_div_ceil_def merkle_branch_hash_hex validate_hex_hex split: sum.splits)
    then show ?thesis using sib red IH(3) by (intro exI [of _ "?new @ sibs"] exI [of _ root]) simp
  qed
qed

section \<open>Records and leaves\<close>

definition leaf_input :: "('j comfy_part_record \<Rightarrow> string + u8 list) \<Rightarrow> 'j comfy_part_record \<Rightarrow> u8 list" where
  "leaf_input ser r = bytes_of PART_LEAF_DOMAIN @ 0 # projr (ser r)"

lemma comfy_part_record_hash_Inr:
  "comfy_part_record_hash blake ser r = Inr h \<longleftrightarrow>
     record_validate blake r = Inr () \<and> \<not> isl (ser r) \<and> h = blake (leaf_input ser r)"
  by (cases "ser r") (auto simp: comfy_part_record_hash_def domain_hash_hex_def leaf_input_def)

lemma rmap_hash_Inr:
  "rmap (comfy_part_record_hash blake ser) rs = Inr leaves \<longleftrightarrow>
     (\<forall>r \<in> set rs. record_validate blake r = Inr () \<and> \<not> isl (ser r)) \<and>
     leaves = map (\<lambda>r. blake (leaf_input ser r)) rs"
  by (induction rs arbitrary: leaves) (auto simp: comfy_part_record_hash_Inr)

lemma check_records_Inr:
  "check_records blake rs seen = Inr u \<longleftrightarrow>
     (\<forall>r \<in> set rs. record_validate blake r = Inr ()) \<and> distinct (map pr_part_id rs) \<and>
     (\<forall>r \<in> set rs. pr_part_id r \<notin> seen)"
  by (induction blake rs seen rule: check_records.induct) (auto, metis imageI)

lemma sorted_records_Inr:
  "sorted_records blake rs = Inr ss \<longleftrightarrow>
     (\<forall>r \<in> set rs. record_validate blake r = Inr ()) \<and> distinct (map pr_part_id rs) \<and>
     ss = sort_key pr_part_id rs"
  by (auto simp: sorted_records_def check_records_Inr)

lemma validate_leaves_Inr: "validate_leaves ls = Inr u \<longleftrightarrow> (\<forall>l \<in> set ls. hex64 l)"
  by (induction ls) auto

lemma position_of_Some: "position_of P xs = Some i \<Longrightarrow> i < length xs \<and> P (xs ! i)"
  by (induction xs arbitrary: i) (auto split: if_splits)

lemma position_of_ex: "x \<in> set xs \<Longrightarrow> P x \<Longrightarrow> \<exists>i. position_of P xs = Some i"
  by (induction xs) auto

lemma build_index_Inr:
  "build_comfy_parts_index blake ser rs ver = Inr idx \<longleftrightarrow>
     (\<forall>r \<in> set rs. record_validate blake r = Inr () \<and> \<not> isl (ser r)) \<and> distinct (map pr_part_id rs) \<and>
     (let ss = sort_key pr_part_id rs; leaves = map (\<lambda>r. blake (leaf_input ser r)) ss
      in merkle_root_from_leaves blake leaves = Inr (pi_root idx) \<and>
         idx = \<lparr>pi_schema_version = COMFY_PARTS_INDEX_SCHEMA_VERSION, pi_index_ver = ver,
                pi_root = pi_root idx, pi_parts = map2 index_entry ss leaves\<rparr>)"
  by (cases idx) (auto simp: build_comfy_parts_index_def sorted_records_Inr rmap_hash_Inr Let_def)

section \<open>Properties\<close>

text \<open>
  C37. Inclusion proofs are complete: for a catalog whose index can be built, every record has a proof,
  the proof verifies against the index root, and its leaf index is the position of the record's entry
  in the index. The digest function is any function with 64-digit hexadecimal output.
\<close>

theorem proof_complete:
  assumes "build_comfy_parts_index blake ser rs ver = Inr idx" "r \<in> set rs" "length rs < 2 ^ 64"
    and "\<And>bs. hex64 (blake bs)"
  shows "\<exists>mpath. prove_comfy_part blake ser rs (pr_part_id r) = Inr mpath \<and>
           verify_comfy_part_proof blake ser r mpath (pi_root idx) = Inr () \<and>
           unat (mp_leaf_index mpath) < length (pi_parts idx) \<and>
           pi_parts idx ! unat (mp_leaf_index mpath) = index_entry r (mp_leaf_hash mpath)"
proof -
  let ?ss = "sort_key pr_part_id rs"
  let ?leaves = "map (\<lambda>r. blake (leaf_input ser r)) ?ss"
  have ok: "\<forall>r \<in> set rs. record_validate blake r = Inr () \<and> \<not> isl (ser r)" "distinct (map pr_part_id rs)"
    and root: "merkle_root_from_leaves blake ?leaves = Inr (pi_root idx)"
    and parts: "pi_parts idx = map2 index_entry ?ss ?leaves"
    using assms(1) unfolding build_index_Inr Let_def by (auto dest: arg_cong [where f = pi_parts])
  have ss: "sorted_records blake rs = Inr ?ss" using ok by (simp add: sorted_records_Inr)
  have lv: "rmap (comfy_part_record_hash blake ser) ?ss = Inr ?leaves" using ok(1) by (simp add: rmap_hash_Inr)
  obtain i where i: "position_of (\<lambda>x. pr_part_id x = pr_part_id r) ?ss = Some i"
    using position_of_ex [of r ?ss "\<lambda>x. pr_part_id x = pr_part_id r"] assms(2) by auto
  have ilt: "i < length rs" and id: "pr_part_id (?ss ! i) = pr_part_id r"
    using position_of_Some [OF i] by simp_all
  have mem: "?ss ! i \<in> set rs" using ilt by (metis length_sort nth_mem set_sort)
  then have ri: "?ss ! i = r" using id ok(2) assms(2) by (metis distinct_map inj_onD)
  have ne: "?leaves \<noteq> []" "i < length ?leaves" using ilt by (simp_all flip: length_greater_0_conv)
  have hx: "\<And>x. x \<in> set ?leaves \<Longrightarrow> hex64 x" using assms(4) by auto
  obtain sibs where sibs: "merkle_siblings_loop blake i ?leaves [] = Inr sibs" "hex64 (pi_root idx)"
    "verify_loop blake (?leaves ! i) i (length ?leaves) sibs = Inr (pi_root idx, [])"
    using siblings_verify [where blake = blake and acc = "[]" and rest = "[]", OF assms(4) hx ne(2)] root ne(1)
    by (auto simp: merkle_root_from_leaves_def)
  obtain wi wn where w: "unat (wi :: u64) = i" "unat (wn :: u64) = length rs"
    using ex_u64 assms(3) ilt by (metis less_trans)
  let ?mpath = "\<lparr>mp_leaf_index = wi, mp_leaf_count = wn, mp_leaf_hash = ?leaves ! i, mp_siblings = sibs\<rparr>"
  have wt: "u64_try i e = Inr wi" "u64_try (length rs) e = Inr wn" for e :: comfy_parts_catalog_error
    using w by simp_all
  have leaf: "?leaves ! i = blake (leaf_input ser r)" using ilt ri by simp
  have "prove_comfy_part blake ser rs (pr_part_id r) = Inr ?mpath"
    using ne ilt by (simp add: prove_comfy_part_def ss lv merkle_siblings_def sibs(1) i wt
        del: rbind_Inr_iff u64_try_Inr_iff)
  moreover have "verify_comfy_part_proof blake ser r ?mpath (pi_root idx) = Inr ()"
  proof -
    have "comfy_part_record_hash blake ser r = Inr (blake (leaf_input ser r))"
      using ok(1) assms(2) by (simp add: comfy_part_record_hash_Inr)
    moreover have "wn \<noteq> 0" "\<not> wn \<le> wi" using w ilt by (auto simp: word_le_nat_alt)
    ultimately show ?thesis
      using sibs(2,3) ilt w leaf by (simp add: verify_comfy_part_proof_def validate_hex_hex)
  qed
  moreover have "i < length (pi_parts idx)" "pi_parts idx ! i = index_entry r (?leaves ! i)"
    unfolding parts using ilt ri by simp_all
  ultimately show ?thesis using w by (intro exI [of _ ?mpath]) simp
qed

text \<open>The pairs hashed while the tree over a layer is built, and while a proof is verified.\<close>

fun layer_pairs :: "string list \<Rightarrow> (string \<times> string) list" where
  "layer_pairs (l # r # rest) = (l, r) # layer_pairs rest"
| "layer_pairs _ = []"

function tree_pairs :: "(u8 list \<Rightarrow> string) \<Rightarrow> string list \<Rightarrow> (string \<times> string) list" where
  "tree_pairs blake layer =
     (if length layer > 1 then layer_pairs layer @ tree_pairs blake (pair_up blake layer) else [])"
  by pat_completeness auto
termination by (relation "measure (length \<circ> snd)") auto

declare tree_pairs.simps [simp del]

function verify_pairs ::
    "(u8 list \<Rightarrow> string) \<Rightarrow> string \<Rightarrow> nat \<Rightarrow> nat \<Rightarrow> comfy_part_merkle_sibling list \<Rightarrow> (string \<times> string) list" where
  "verify_pairs blake h index cnt sibs =
     (if cnt > 1
      then (if index mod 2 = 0 \<and> \<not> index + 1 < cnt
            then verify_pairs blake h (index div 2) (nat_div_ceil cnt 2) sibs
            else (case sibs of
                    [] \<Rightarrow> []
                  | sib # rest \<Rightarrow>
                      (let p = (if index mod 2 = 0 then (h, ms_hash sib) else (ms_hash sib, h))
                       in p # verify_pairs blake (branch blake (fst p) (snd p)) (index div 2) (nat_div_ceil cnt 2) rest)))
      else [])"
  by pat_completeness auto
termination
  by (relation "measure (\<lambda>(_, _, _, cnt, _). cnt)") (auto simp: nat_div_ceil_def)

declare verify_pairs.simps [simp del]

definition tree_nodes :: "(u8 list \<Rightarrow> string) \<Rightarrow> string list \<Rightarrow> string set" where
  "tree_nodes blake layer = set layer \<union> (\<lambda>(a, b). branch blake a b) ` set (tree_pairs blake layer)"

lemma layer_pairs_mem: "(a, b) \<in> set (layer_pairs layer) \<Longrightarrow> a \<in> set layer \<and> b \<in> set layer"
  by (induction layer rule: layer_pairs.induct) auto

lemma pair_up_mem:
  "x \<in> set (pair_up blake layer) \<Longrightarrow> x \<in> set layer \<or> (\<exists>(a, b) \<in> set (layer_pairs layer). x = branch blake a b)"
  by (induction blake layer rule: pair_up.induct) auto

lemma tree_nodes_step:
  assumes "length layer > 1"
  shows "tree_nodes blake (pair_up blake layer) \<subseteq> tree_nodes blake layer"
proof
  fix x assume "x \<in> tree_nodes blake (pair_up blake layer)"
  then consider "x \<in> set (pair_up blake layer)"
    | "x \<in> (\<lambda>(a, b). branch blake a b) ` set (tree_pairs blake (pair_up blake layer))"
    by (auto simp: tree_nodes_def)
  then show "x \<in> tree_nodes blake layer"
    using assms pair_up_mem [of x blake layer]
    by cases (auto simp: tree_nodes_def tree_pairs.simps [of blake layer])
qed

lemma tree_nodes_pairs:
  "(a, b) \<in> set (tree_pairs blake layer) \<Longrightarrow> a \<in> tree_nodes blake layer \<and> b \<in> tree_nodes blake layer"
proof (induction blake layer rule: tree_pairs.induct)
  case (1 blake layer)
  show ?case
  proof (cases "length layer > 1")
    case True
    then consider "(a, b) \<in> set (layer_pairs layer)" | "(a, b) \<in> set (tree_pairs blake (pair_up blake layer))"
      using "1.prems" by (auto simp: tree_pairs.simps [of blake layer])
    then show ?thesis
    proof cases
      case 1
      then show ?thesis using layer_pairs_mem by (auto simp: tree_nodes_def)
    next
      case 2
      then show ?thesis using "1.IH" [OF True] tree_nodes_step [OF True] by blast
    qed
  next
    case False
    then show ?thesis using "1.prems" by (simp add: tree_pairs.simps [of blake layer])
  qed
qed

lemma merkle_reduce_node:
  "layer \<noteq> [] \<Longrightarrow> merkle_reduce blake layer = Inr root \<Longrightarrow> root \<in> tree_nodes blake layer"
proof (induction blake layer rule: tree_pairs.induct)
  case (1 blake layer)
  show ?case
  proof (cases "length layer > 1")
    case True
    have "merkle_next blake layer = Inr (pair_up blake layer)"
    proof (cases "merkle_next blake layer")
      case (Inl e)
      then show ?thesis using "1.prems"(2) True by (simp add: merkle_reduce.simps [of blake layer])
    next
      case (Inr nxt)
      then show ?thesis using merkle_next_Inr by blast
    qed
    then have "merkle_reduce blake (pair_up blake layer) = Inr root"
      using "1.prems"(2) True by (simp add: merkle_reduce.simps [of blake layer])
    moreover have "pair_up blake layer \<noteq> []" using True by (cases layer rule: layer_pairs.cases) auto
    ultimately show ?thesis using "1.IH" [OF True] tree_nodes_step [OF True] by blast
  next
    case False
    then have "root = layer ! 0" using "1.prems"(2) by (simp add: merkle_reduce.simps [of blake layer])
    then show ?thesis using "1.prems"(1) by (simp add: tree_nodes_def)
  qed
qed

text \<open>A verified path, read from the root down: every hash on it is an ancestor-or-self of the leaf.\<close>

lemma verify_path:
  assumes "verify_loop blake h index cnt sibs = Inr (root, rest)"
    and "root \<in> N"
    and down: "\<And>a b. (a, b) \<in> set (verify_pairs blake h index cnt sibs) \<Longrightarrow> hex64 a \<Longrightarrow> hex64 b \<Longrightarrow>
                 branch blake a b \<in> N \<Longrightarrow> a \<in> N \<and> b \<in> N"
  shows "h \<in> N"
  using assms
proof (induction blake h index cnt sibs rule: verify_pairs.induct)
  case (1 blake h index cnt sibs)
  note simps = verify_loop.simps [of blake h index cnt sibs] verify_pairs.simps [of blake h index cnt sibs]
  show ?case
  proof (cases "cnt > 1")
    case False
    then show ?thesis using "1.prems"(1,2) by (simp add: simps)
  next
    case big: True
    show ?thesis
    proof (cases "index mod 2 = 0 \<and> \<not> index + 1 < cnt")
      case True
      then show ?thesis using "1.IH"(1) [OF big True] "1.prems" big by (simp add: simps)
    next
      case False
      then obtain sib more where sibs: "sibs = sib # more"
        using "1.prems"(1) [unfolded simps] big by (cases sibs) (auto split: if_splits)
      define p where "p = (if index mod 2 = 0 then (h, ms_hash sib) else (ms_hash sib, h))"
      have hx: "hex64 (fst p)" "hex64 (snd p)"
        and next_loop: "verify_loop blake (branch blake (fst p) (snd p)) (index div 2) (nat_div_ceil cnt 2) more = Inr (root, rest)"
        using "1.prems"(1) [unfolded simps] big False
        by (auto simp: sibs p_def split: if_splits sum.splits)
      have vp: "verify_pairs blake h index cnt sibs =
          p # verify_pairs blake (branch blake (fst p) (snd p)) (index div 2) (nat_div_ceil cnt 2) more"
        unfolding simps using big False by (auto simp: sibs p_def Let_def)
      have "branch blake (fst p) (snd p) \<in> N"
        by (rule "1.IH"(2) [OF big False sibs p_def next_loop "1.prems"(2)])
           (use "1.prems"(3) vp in auto)
      then have "fst p \<in> N \<and> snd p \<in> N" using "1.prems"(3) [of "fst p" "snd p"] vp hx by simp
      then show ?thesis by (auto simp: p_def split: if_splits)
    qed
  qed
qed

text \<open>All the inputs digested when an index is built, and when a proof is verified.\<close>

definition index_inputs ::
    "(u8 list \<Rightarrow> string) \<Rightarrow> ('j comfy_part_record \<Rightarrow> string + u8 list) \<Rightarrow> 'j comfy_part_record list \<Rightarrow> u8 list set" where
  "index_inputs blake ser rs =
     insert (bytes_of PART_EMPTY_INDEX_DOMAIN)
       (leaf_input ser ` set rs \<union>
        branch_input ` set (tree_pairs blake (map (\<lambda>r. blake (leaf_input ser r)) (sort_key pr_part_id rs))))"

definition proof_inputs ::
    "(u8 list \<Rightarrow> string) \<Rightarrow> ('j comfy_part_record \<Rightarrow> string + u8 list) \<Rightarrow> 'j comfy_part_record \<Rightarrow>
       comfy_part_merkle_proof \<Rightarrow> u8 list set" where
  "proof_inputs blake ser r mpath =
     insert (leaf_input ser r)
       (branch_input ` set (verify_pairs blake (mp_leaf_hash mpath) (unat (mp_leaf_index mpath))
                              (unat (mp_leaf_count mpath)) (mp_siblings mpath)))"

lemma inj_bytes_of: "bytes_of s = bytes_of t \<Longrightarrow> s = t"
  unfolding bytes_of_def by (rule map_injective) (auto intro!: inj_onI dest: arg_cong [where f = char_of_byte])

lemma branch_input_inj:
  "branch_input (a, b) = branch_input (x, y) \<Longrightarrow> length a = length x \<Longrightarrow> a = x \<and> b = y"
  by (auto simp: branch_input_def bytes_of_def append_eq_append_conv dest: inj_bytes_of [unfolded bytes_of_def])

lemma domain_inputs_differ [simp]:
  "branch_input p \<noteq> leaf_input ser r" "leaf_input ser r \<noteq> branch_input p"
  "branch_input p \<noteq> bytes_of PART_EMPTY_INDEX_DOMAIN" "leaf_input ser r \<noteq> bytes_of PART_EMPTY_INDEX_DOMAIN"
  by (simp_all add: branch_input_def leaf_input_def bytes_of_def PART_BRANCH_DOMAIN_def PART_LEAF_DOMAIN_def
      PART_EMPTY_INDEX_DOMAIN_def byte_of_def)

lemma verify_Inr:
  "verify_comfy_part_proof blake ser r mpath root = Inr u \<Longrightarrow>
     hex64 root \<and> comfy_part_record_hash blake ser r = Inr (mp_leaf_hash mpath) \<and>
     verify_loop blake (mp_leaf_hash mpath) (unat (mp_leaf_index mpath)) (unat (mp_leaf_count mpath)) (mp_siblings mpath)
       = Inr (root, [])"
  by (auto simp: verify_comfy_part_proof_def split: if_splits prod.splits)

text \<open>
  C24. Inclusion proofs are sound: when a record verifies against the root of an index, whatever proof
  came with it (its leaf count included), then the index was built over a record with the same
  canonical JSON, as long as the digest function does not collide on the inputs digested by the two
  computations. Leaves, branches and the empty index are kept apart by their domains.
\<close>

theorem proof_sound:
  assumes "build_comfy_parts_index blake ser rs ver = Inr idx"
    and "verify_comfy_part_proof blake ser r mpath (pi_root idx) = Inr ()"
    and "inj_on blake (index_inputs blake ser rs \<union> proof_inputs blake ser r mpath)"
    and "\<And>bs. hex64 (blake bs)"
  shows "\<exists>r' \<in> set rs. ser r' = ser r"
proof -
  let ?ss = "sort_key pr_part_id rs"
  let ?leaves = "map (\<lambda>r. blake (leaf_input ser r)) ?ss"
  let ?I = "index_inputs blake ser rs" and ?V = "proof_inputs blake ser r mpath"
  let ?vp = "verify_pairs blake (mp_leaf_hash mpath) (unat (mp_leaf_index mpath)) (unat (mp_leaf_count mpath)) (mp_siblings mpath)"
  have ok: "\<forall>r \<in> set rs. \<not> isl (ser r)" and root: "merkle_root_from_leaves blake ?leaves = Inr (pi_root idx)"
    using assms(1) unfolding build_index_Inr Let_def by auto
  have ver: "comfy_part_record_hash blake ser r = Inr (mp_leaf_hash mpath)"
    and loop: "verify_loop blake (mp_leaf_hash mpath) (unat (mp_leaf_index mpath)) (unat (mp_leaf_count mpath)) (mp_siblings mpath)
       = Inr (pi_root idx, [])"
    using verify_Inr [OF assms(2)] by simp_all
  have leaf: "mp_leaf_hash mpath = blake (leaf_input ser r)" "\<not> isl (ser r)"
    using ver by (simp_all add: comfy_part_record_hash_Inr)
  have same: "x = y" if "blake x = blake y" "x \<in> ?I \<union> ?V" "y \<in> ?I \<union> ?V" for x y
    using inj_onD [OF assms(3) that] .
  let ?base = "insert (blake (bytes_of PART_EMPTY_INDEX_DOMAIN)) (set ?leaves)"
  let ?N = "?base \<union> tree_nodes blake ?leaves"
  have top: "pi_root idx \<in> ?N"
    using root merkle_reduce_node [of ?leaves blake "pi_root idx"]
    by (auto simp: merkle_root_from_leaves_def split: if_splits)
  have node: "x \<in> ?N \<Longrightarrow> x \<in> ?base \<or> (\<exists>a b. x = branch blake a b \<and> (a, b) \<in> set (tree_pairs blake ?leaves))" for x
    by (auto simp: tree_nodes_def)
  have base: "\<exists>i \<in> ?I. x = blake i \<and> (i = bytes_of PART_EMPTY_INDEX_DOMAIN \<or> (\<exists>r' \<in> set rs. i = leaf_input ser r'))"
    if "x \<in> ?base" for x
    using that by (auto simp: index_inputs_def)
  have down: "a \<in> ?N \<and> b \<in> ?N"
    if ab: "(a, b) \<in> set ?vp" "hex64 a" "hex64 b" "branch blake a b \<in> ?N" for a b
  proof -
    have iv: "branch_input (a, b) \<in> ?V" using ab(1) by (auto simp: proof_inputs_def)
    have "branch blake a b \<notin> ?base"
    proof
      assume "branch blake a b \<in> ?base"
      from base [OF this] obtain i where i: "i \<in> ?I" "blake (branch_input (a, b)) = blake i"
        "i = bytes_of PART_EMPTY_INDEX_DOMAIN \<or> (\<exists>r' \<in> set rs. i = leaf_input ser r')"
        unfolding branch_def by blast
      then have "branch_input (a, b) = i" using same iv by blast
      then show False using i(3) by auto
    qed
    then obtain x y where xy: "branch blake a b = branch blake x y" "(x, y) \<in> set (tree_pairs blake ?leaves)"
      using node [OF ab(4)] by blast
    have "branch_input (x, y) \<in> ?I" using xy(2) by (auto simp: index_inputs_def)
    then have "branch_input (a, b) = branch_input (x, y)" using same xy(1) iv by (auto simp: branch_def)
    moreover have "hex64 x" using tree_nodes_pairs [OF xy(2)] assms(4) by (auto simp: tree_nodes_def branch_def)
    ultimately have "a = x \<and> b = y" using ab(2) by (intro branch_input_inj) (simp_all add: is_hex_len_def)
    then show ?thesis using tree_nodes_pairs [OF xy(2)] by simp
  qed
  have "mp_leaf_hash mpath \<in> ?N" using loop top down by (rule verify_path)
  moreover have iv: "leaf_input ser r \<in> ?V" by (simp add: proof_inputs_def)
  have "mp_leaf_hash mpath \<noteq> branch blake a b" if "(a, b) \<in> set (tree_pairs blake ?leaves)" for a b
    using that iv same [of "leaf_input ser r" "branch_input (a, b)"] leaf(1)
    by (auto simp: branch_def index_inputs_def)
  ultimately have "mp_leaf_hash mpath \<in> ?base" using node by blast
  then obtain i where i: "i \<in> ?I" "blake (leaf_input ser r) = blake i"
      "i = bytes_of PART_EMPTY_INDEX_DOMAIN \<or> (\<exists>r' \<in> set rs. i = leaf_input ser r')"
    using base leaf(1) by metis
  have "leaf_input ser r = i" using same [OF i(2)] i(1) iv by blast
  then obtain r' where "r' \<in> set rs" "leaf_input ser r = leaf_input ser r'" using i(3) by auto
  moreover from this ok have "ser r' = ser r"
    using leaf(2) by (cases "ser r"; cases "ser r'") (auto simp: leaf_input_def)
  ultimately show ?thesis by blast
qed

text \<open>
  The index does not depend on the order the records come in: a permutation of the records has the
  same index, root and entries included, and the entries are strictly ascending in the part id.
\<close>

theorem index_order_independent:
  assumes "build_comfy_parts_index blake ser rs ver = Inr idx" "mset rs' = mset rs"
  shows "build_comfy_parts_index blake ser rs' ver = Inr idx \<and>
         sorted_wrt (<) (map ie_part_id (pi_parts idx))"
proof
  have ok: "distinct (map pr_part_id rs)" using assms(1) unfolding build_index_Inr by blast
  have parts: "pi_parts idx = map2 index_entry (sort_key pr_part_id rs)
      (map (\<lambda>r. blake (leaf_input ser r)) (sort_key pr_part_id rs))"
    using assms(1) unfolding build_index_Inr Let_def by (auto dest: arg_cong [where f = pi_parts])
  have "mset (map pr_part_id rs') = mset (map pr_part_id rs)" using assms(2) by simp
  then have d': "distinct (map pr_part_id rs')" using ok by (metis mset_eq_imp_distinct_iff)
  have "inj_on pr_part_id (set rs')" using d' by (simp add: distinct_map)
  then have same: "sort_key pr_part_id rs' = sort_key pr_part_id rs"
    using assms(2) by (intro sort_key_inj_key_eq) simp_all
  have "set rs' = set rs" using assms(2) by (rule mset_eq_setD)
  then show "build_comfy_parts_index blake ser rs' ver = Inr idx"
    using assms(1) d' ok unfolding build_index_Inr same by simp
  have ids: "map ie_part_id (pi_parts idx) = map pr_part_id (sort_key pr_part_id rs)"
    unfolding parts by (intro nth_equalityI) (simp_all add: index_entry_def)
  have "distinct (map pr_part_id (sort_key pr_part_id rs))"
    using ok by (metis mset_map mset_sort mset_eq_imp_distinct_iff)
  then show "sorted_wrt (<) (map ie_part_id (pi_parts idx))"
    unfolding ids strict_sorted_iff by simp
qed

lemma drop_chars_stop: "(\<And>w. w \<in> set ws \<Longrightarrow> w \<noteq> [] \<and> hd w \<noteq> c) \<Longrightarrow> drop_chars n ws (c # cs) = c # cs"
proof (cases n)
  case (Suc m)
  assume ws: "\<And>w. w \<in> set ws \<Longrightarrow> w \<noteq> [] \<and> hd w \<noteq> c"
  have "\<not> starts_with (c # cs) w" if "w \<in> set ws" for w
    using ws [OF that] by (cases w) (auto simp: starts_with_def)
  then have "find (starts_with (c # cs)) ws = None" by (simp add: find_None_iff)
  then show ?thesis using Suc by simp
qed simp

lemma white_space_not_hex:
  "list_all (\<lambda>w. w \<noteq> [] \<and> \<not> is_ascii_hexdigit (byte_of (hd w))) white_space"
  "list_all (\<lambda>w. w \<noteq> [] \<and> \<not> is_ascii_hexdigit (byte_of (hd w))) (map rev white_space)"
  by code_simp+

lemma str_trim_hex: "hex64 v \<Longrightarrow> str_trim v \<noteq> []"
proof -
  assume h: "hex64 v"
  then have ne: "v \<noteq> []" and hx: "\<And>c. c \<in> set v \<Longrightarrow> is_ascii_hexdigit (byte_of c)"
    by (auto simp: is_hex_len_def list_all_iff)
  have stop: "drop_chars n ws u = u"
    if "list_all (\<lambda>w. w \<noteq> [] \<and> \<not> is_ascii_hexdigit (byte_of (hd w))) ws" "u \<noteq> []" "set u = set v" for n ws u
  proof (cases u)
    case (Cons c cs)
    then have "is_ascii_hexdigit (byte_of c)" using hx that(3) by auto
    then show ?thesis unfolding Cons using that(1) by (intro drop_chars_stop) (auto simp: list_all_iff)
  qed (use that(2) in simp)
  show "str_trim v \<noteq> []"
    unfolding str_trim_def Let_def using stop white_space_not_hex ne by simp
qed

lemma validate_non_empty_Inr: "validate_non_empty f v = Inr u \<longleftrightarrow> str_trim v \<noteq> []"
  by (simp add: validate_non_empty_def)

lemma validate_enum_Inr: "validate_enum f v as = Inr u \<longleftrightarrow> v \<in> set as"
  by (simp add: validate_enum_def)

text \<open>
  A validated draft always becomes a catalog record: with a hexadecimal content root, a non-blank
  runtime, valid license evidence and a valid canary, finalizing succeeds, the record validates and
  carries the identity derived from its type, name and content hash; and without them it is refused.
\<close>

theorem draft_finalizes:
  assumes "draft_validate d = Inr ()" "\<And>bs. hex64 (blake bs)"
  shows "((\<exists>r. draft_finalize blake d root runtime ev can = Inr r) \<longleftrightarrow>
            hex64 root \<and> str_trim runtime \<noteq> [] \<and> license_evidence_validate ev = Inr () \<and>
            canary_validate can = Inr ()) \<and>
         (\<forall>r. draft_finalize blake d root runtime ev can = Inr r \<longrightarrow>
            record_validate blake r = Inr () \<and>
            pr_part_id r = derive_comfy_part_id blake (dr_part_type d) (dr_name d) (dr_sha256 d))"
proof -
  have id: "str_trim (derive_comfy_part_id blake t n h) \<noteq> []" for t n h
    unfolding derive_comfy_part_id_def by (rule str_trim_hex) (rule assms(2))
  show ?thesis
    using assms(1) id
    by (auto simp: draft_validate_def draft_finalize_def record_validate_def Let_def
        validate_non_empty_Inr validate_enum_Inr split: if_splits)
qed

section \<open>Witnesses\<close>

text \<open>
  A digest with hexadecimal output that tells the empty index from everything else, and a catalog of
  one part under it.
\<close>

definition sample_digest :: "u8 list \<Rightarrow> string" where
  "sample_digest bs = (if bs = bytes_of PART_EMPTY_INDEX_DOMAIN then replicate 64 CHR ''b'' else replicate 64 CHR ''a'')"

definition sample_sources :: comfy_part_sources where
  "sample_sources =
     \<lparr>mirrors = [\<lparr>src_kind = ''hf'', src_url = ''https://hf.co/x'', src_repository = None, src_path = None,
                  src_revision = None\<rparr>], origins = [], require_auth = False\<rparr>"

definition sample_evidence :: comfy_part_license_evidence where
  "sample_evidence = \<lparr>le_doc_hash = replicate 64 CHR ''a'', le_archived_ref = ''ref'', le_captured_at = ''2026''\<rparr>"

definition sample_canary :: comfy_part_canary where
  "sample_canary = \<lparr>can_probe_graph_hash = replicate 64 CHR ''a'', can_reference_output_ref = ''out'',
     can_tolerance = \<lparr>tol_method = ''sha256'', tol_max_distance_bps = 0\<rparr>\<rparr>"

definition sample_draft :: "unit comfy_part_draft" where
  "sample_draft =
     \<lparr>dr_name = ''part'', dr_part_type = ''lora'', dr_lane = ''all'', dr_sha256 = replicate 64 CHR ''a'',
      dr_size_bytes = 1, dr_size_bytes_exact = True, dr_file_format = ''safetensors'', dr_license = ''mit'',
      dr_permissions = [], dr_policy_flags = [], dr_adapter = [], dr_sources = sample_sources,
      dr_status = ''draft''\<rparr>"

definition sample_record :: "unit comfy_part_record" where
  "sample_record = projr (draft_finalize sample_digest sample_draft (replicate 64 CHR ''a'') ''v1'' sample_evidence sample_canary)"

definition sample_ser :: "unit comfy_part_record \<Rightarrow> string + u8 list" where
  "sample_ser r = Inr (bytes_of (pr_name r))"

lemma hex_replicate: "is_ascii_hexdigit (byte_of c) \<Longrightarrow> hex64 (replicate 64 c)"
  by (simp add: is_hex_len_def list_all_iff)

lemma sample_digest_hex: "hex64 (sample_digest bs)"
  by (simp add: sample_digest_def hex_replicate is_ascii_hexdigit_def byte_of_def)

lemma sample_parts_valid:
  "draft_validate sample_draft = Inr ()" "hex64 (replicate 64 CHR ''a'')" "str_trim ''v1'' \<noteq> []"
  "license_evidence_validate sample_evidence = Inr ()" "canary_validate sample_canary = Inr ()"
  by code_simp+

theorem draft_finalizes_witness:
  "\<exists>r. draft_finalize sample_digest sample_draft (replicate 64 CHR ''a'') ''v1'' sample_evidence sample_canary = Inr r"
  using draft_finalizes [where blake = sample_digest, OF sample_parts_valid(1) sample_digest_hex] sample_parts_valid(2-5)
  by blast

lemma sample_record_valid: "record_validate sample_digest sample_record = Inr ()"
  by code_simp

lemma sample_index:
  "\<exists>idx. build_comfy_parts_index sample_digest sample_ser [sample_record] 1 = Inr idx"
  unfolding build_index_Inr Let_def
  by (rule exI [of _ "\<lparr>pi_schema_version = COMFY_PARTS_INDEX_SCHEMA_VERSION, pi_index_ver = 1,
        pi_root = sample_digest (leaf_input sample_ser sample_record),
        pi_parts = [index_entry sample_record (sample_digest (leaf_input sample_ser sample_record))]\<rparr>"])
     (simp add: sample_record_valid sample_ser_def merkle_root_from_leaves_def validate_leaves_Inr
        sample_digest_hex merkle_reduce.simps validate_hex_hex)

theorem proof_complete_witness:
  "\<exists>idx mpath. build_comfy_parts_index sample_digest sample_ser [sample_record] 1 = Inr idx \<and>
             verify_comfy_part_proof sample_digest sample_ser sample_record mpath (pi_root idx) = Inr ()"
proof -
  obtain idx where i: "build_comfy_parts_index sample_digest sample_ser [sample_record] 1 = Inr idx"
    using sample_index by blast
  have "sample_record \<in> set [sample_record]" "length [sample_record] < 2 ^ 64" by simp_all
  from proof_complete [where blake = sample_digest, OF i this sample_digest_hex] i show ?thesis by blast
qed

theorem proof_sound_witness:
  "\<exists>r' \<in> set [sample_record]. sample_ser r' = sample_ser sample_record"
proof -
  let ?leaf = "sample_digest (leaf_input sample_ser sample_record)"
  let ?mpath = "\<lparr>mp_leaf_index = 0, mp_leaf_count = 1, mp_leaf_hash = ?leaf, mp_siblings = []\<rparr>"
  obtain idx where i: "build_comfy_parts_index sample_digest sample_ser [sample_record] 1 = Inr idx"
    using sample_index by blast
  have root: "pi_root idx = ?leaf"
    using i unfolding build_index_Inr Let_def
    by (simp add: merkle_root_from_leaves_def merkle_reduce.simps split: if_splits)
  have v: "verify_comfy_part_proof sample_digest sample_ser sample_record ?mpath (pi_root idx) = Inr ()"
    unfolding root
    by (simp add: verify_comfy_part_proof_def validate_hex_hex sample_digest_hex comfy_part_record_hash_Inr
        sample_record_valid sample_ser_def verify_loop.simps)
  have "inj_on sample_digest (index_inputs sample_digest sample_ser [sample_record] \<union>
      proof_inputs sample_digest sample_ser sample_record ?mpath)"
    by (auto simp: index_inputs_def proof_inputs_def tree_pairs.simps verify_pairs.simps sample_digest_def
        inj_on_def replicate_eq_replicate split: if_splits)
  from proof_sound [OF i v this sample_digest_hex] show ?thesis .
qed

theorem index_order_independent_witness:
  "\<exists>idx. build_comfy_parts_index sample_digest sample_ser [sample_record] 1 = Inr idx \<and>
         sorted_wrt (<) (map ie_part_id (pi_parts idx))"
  using sample_index index_order_independent [of sample_digest sample_ser "[sample_record]" 1 _ "[sample_record]"]
  by blast

end
