(* ===== verification/F64_Ops.thy ===== *)
theory F64_Ops
  imports Mayhem_Prelude
begin

text \<open>
  The operations of Rust's \<open>f64\<close> that the scheduler, the heartbeat receiver and the provider table
  use, as one record \<open>fl\<close> that those definitions take as an argument. The theorems hold for every
  value of the record, so nothing is assumed of rounding, of NaN or of the infinities; the comparison
  \<open>a >= b\<close> of the code is \<open>f_le fl b a\<close> and \<open>a > b\<close> is \<open>f_lt fl b a\<close>, which agree with IEEE 754 on NaN
  too. \<open>f_lit m e\<close> is the decimal literal \<open>m\<close> times ten to the power minus \<open>e\<close>,
  \<open>f_total_le\<close> is \<open>total_cmp\<close> different from \<open>Greater\<close>, \<open>f_sum\<close> is \<open>Iterator::sum\<close> and \<open>f_fmt_0\<close> the format
  with no decimals.
\<close>

record 'f f64_ops =
  f_zero :: 'f
  f_one :: 'f
  f_lit :: "nat \<Rightarrow> nat \<Rightarrow> 'f"
  f_epsilon :: 'f
  f_of_u32 :: "u32 \<Rightarrow> 'f"
  f_of_u64 :: "u64 \<Rightarrow> 'f"
  f_of_u128 :: "u128 \<Rightarrow> 'f"
  f_max :: "'f \<Rightarrow> 'f \<Rightarrow> 'f"
  f_add :: "'f \<Rightarrow> 'f \<Rightarrow> 'f"
  f_sub :: "'f \<Rightarrow> 'f \<Rightarrow> 'f"
  f_mul :: "'f \<Rightarrow> 'f \<Rightarrow> 'f"
  f_div :: "'f \<Rightarrow> 'f \<Rightarrow> 'f"
  f_powf :: "'f \<Rightarrow> 'f \<Rightarrow> 'f"
  f_abs :: "'f \<Rightarrow> 'f"
  f_sum :: "'f list \<Rightarrow> 'f"
  f_clamp :: "'f \<Rightarrow> 'f \<Rightarrow> 'f \<Rightarrow> 'f"
  f_eq :: "'f \<Rightarrow> 'f \<Rightarrow> bool"
  f_le :: "'f \<Rightarrow> 'f \<Rightarrow> bool"
  f_lt :: "'f \<Rightarrow> 'f \<Rightarrow> bool"
  f_total_le :: "'f \<Rightarrow> 'f \<Rightarrow> bool"
  f_is_finite :: "'f \<Rightarrow> bool"
  f_fract :: "'f \<Rightarrow> 'f"
  f_fmt_0 :: "'f \<Rightarrow> string"

text \<open>Two carriers for the examples: one point, and fixed-point numbers.\<close>

definition unit_ops :: "unit f64_ops" where
  "unit_ops = \<lparr>f_zero = (), f_one = (), f_lit = (\<lambda>_ _. ()), f_epsilon = (), f_of_u32 = (\<lambda>_. ()),
     f_of_u64 = (\<lambda>_. ()), f_of_u128 = (\<lambda>_. ()), f_max = (\<lambda>_ _. ()), f_add = (\<lambda>_ _. ()),
     f_sub = (\<lambda>_ _. ()), f_mul = (\<lambda>_ _. ()), f_div = (\<lambda>_ _. ()), f_powf = (\<lambda>_ _. ()),
     f_abs = (\<lambda>_. ()), f_sum = (\<lambda>_. ()), f_clamp = (\<lambda>_ _ _. ()), f_eq = (\<lambda>_ _. True),
     f_le = (\<lambda>_ _. True), f_lt = (\<lambda>_ _. False), f_total_le = (\<lambda>_ _. True), f_is_finite = (\<lambda>_. True),
     f_fract = (\<lambda>_. ()), f_fmt_0 = (\<lambda>_. [])\<rparr>"

text \<open>Fixed-point numbers with four decimal digits; \<open>powf\<close> is the identity on its base.\<close>

definition fixed_ops :: "nat f64_ops" where
  "fixed_ops = \<lparr>f_zero = 0, f_one = 10000, f_lit = (\<lambda>m e. m * 10000 div 10 ^ e), f_epsilon = 0,
     f_of_u32 = (\<lambda>w. unat w * 10000), f_of_u64 = (\<lambda>w. unat w * 10000), f_of_u128 = (\<lambda>w. unat w * 10000),
     f_max = max, f_add = (+), f_sub = (-), f_mul = (\<lambda>a b. a * b div 10000),
     f_div = (\<lambda>a b. a * 10000 div b), f_powf = (\<lambda>a _. a), f_abs = id, f_sum = sum_list,
     f_clamp = (\<lambda>x lo hi. min (max x lo) hi), f_eq = (=), f_le = (\<le>), f_lt = (<),
     f_total_le = (\<le>), f_is_finite = (\<lambda>_. True), f_fract = (\<lambda>a. a mod 10000),
     f_fmt_0 = (\<lambda>a. show_nat (a div 10000))\<rparr>"

end
