(* ===== verification/Enclave_Scheduler.thy ===== *)
theory Enclave_Scheduler
  imports F64_Ops "HOL-Library.Multiset"
begin

text \<open>
  The session scheduler of \<open>mayhem-enclave/src/lib.rs\<close>: admission of sessions, per-session request
  queues served round-robin in batches, token metering and checkpoints, the load snapshot. The
  waiting-time average and the load ratios are 64-bit floats; the operations of \<open>f64\<close> the code uses
  are the record \<open>fl\<close> of \<open>F64_Ops\<close>, so that nothing is assumed of floating-point arithmetic.
\<close>

section \<open>Data\<close>

record scheduler_config =
  sc_max_sessions :: u32
  sc_max_queue :: u32
  sc_kv_cache_bytes_budget :: u64
  sc_target_wait_ms :: u64

record session_usage =
  su_session_id :: string
  su_in_tokens :: u64
  su_out_tokens :: u64

record meter_checkpoint =
  mc_session_id :: string
  mc_seq :: u64
  mc_final_checkpoint :: bool
  mc_usage :: session_usage

record scheduled_request =
  rq_request_id :: string
  rq_session_id :: string
  rq_queued_at_ms :: u64
  rq_in_tokens_hint :: u32
  rq_max_out_tokens_hint :: u32

record 'f saturation_input =
  si_active_sessions :: u32
  si_max_sessions :: u32
  si_queued_requests :: u32
  si_max_queue :: u32
  si_kv_cache_bytes_used :: u64
  si_kv_cache_bytes_budget :: u64
  si_ewma_batch_wait_ms :: 'f
  si_target_wait_ms :: u64

record 'f saturation_breakdown =
  sb_slot_pressure :: 'f
  sb_queue_pressure :: 'f
  sb_memory_pressure :: 'f
  sb_latency_pressure :: 'f
  sb_saturation :: 'f

record 'f scheduler_snapshot =
  ss_active_sessions :: u32
  ss_max_sessions :: u32
  ss_queued_requests :: u32
  ss_max_queue :: u32
  ss_kv_cache_bytes_used :: u64
  ss_kv_cache_bytes_budget :: u64
  ss_ewma_batch_wait_ms :: 'f
  ss_target_wait_ms :: u64
  ss_saturation :: "'f saturation_breakdown"
  ss_heartbeat_saturation :: 'f
  ss_should_answer_want :: bool

datatype admission_outcome =
  Accepted string u32 u32
| RejectedBusy string u32 u32 u32 u64 "string list"

record session_state =
  st_usage :: session_usage
  st_next_checkpoint_seq :: u64

record 'f enclave_scheduler =
  es_config :: scheduler_config
  es_sessions :: "(string, session_state) btree"
  es_request_queues :: "(string, scheduled_request list) btree"
  es_ready_sessions :: "string list"
  es_kv_cache_bytes_used :: u64
  es_ewma_batch_wait_ms :: 'f

datatype enclave_error =
  InvalidInput string
| SessionAlreadyActive string
| SessionNotFound string
| SchedulerQueueFull u32 u32

section \<open>Load\<close>

definition bounded_ratio_u32 :: "'f f64_ops \<Rightarrow> u32 \<Rightarrow> u32 \<Rightarrow> 'f" where
  "bounded_ratio_u32 fl n d =
     (if d = 0 then (if n = 0 then f_zero fl else f_one fl)
      else f_clamp fl (f_div fl (f_of_u32 fl n) (f_of_u32 fl d)) (f_zero fl) (f_one fl))"

definition bounded_ratio_u64 :: "'f f64_ops \<Rightarrow> u64 \<Rightarrow> u64 \<Rightarrow> 'f" where
  "bounded_ratio_u64 fl n d =
     (if d = 0 then (if n = 0 then f_zero fl else f_one fl)
      else f_clamp fl (f_div fl (f_of_u64 fl n) (f_of_u64 fl d)) (f_zero fl) (f_one fl))"

definition bounded_ratio_f64 :: "'f f64_ops \<Rightarrow> 'f \<Rightarrow> 'f \<Rightarrow> 'f" where
  "bounded_ratio_f64 fl n d =
     (if f_le fl d (f_zero fl) then (if f_le fl n (f_zero fl) then f_zero fl else f_one fl)
      else f_clamp fl (f_div fl n d) (f_zero fl) (f_one fl))"

definition calculate_saturation :: "'f f64_ops \<Rightarrow> 'f saturation_input \<Rightarrow> 'f saturation_breakdown" where
  "calculate_saturation fl i =
     (let slot_pressure = bounded_ratio_u32 fl (si_active_sessions i) (si_max_sessions i);
          queue_pressure = bounded_ratio_u32 fl (si_queued_requests i) (si_max_queue i);
          memory_pressure = bounded_ratio_u64 fl (si_kv_cache_bytes_used i) (si_kv_cache_bytes_budget i);
          latency_pressure = bounded_ratio_f64 fl (si_ewma_batch_wait_ms i) (f_of_u64 fl (si_target_wait_ms i));
          saturation = f_clamp fl
            (f_max fl (f_max fl (f_max fl slot_pressure queue_pressure) memory_pressure) latency_pressure)
            (f_zero fl) (f_one fl)
      in \<lparr>sb_slot_pressure = slot_pressure, sb_queue_pressure = queue_pressure,
          sb_memory_pressure = memory_pressure, sb_latency_pressure = latency_pressure,
          sb_saturation = saturation\<rparr>)"

section \<open>Operations\<close>

definition scheduler_config_new :: "u32 \<Rightarrow> u32 \<Rightarrow> u64 \<Rightarrow> u64 \<Rightarrow> scheduler_config" where
  "scheduler_config_new max_sessions max_queue budget target_wait =
     \<lparr>sc_max_sessions = max_sessions, sc_max_queue = max_queue, sc_kv_cache_bytes_budget = budget,
      sc_target_wait_ms = target_wait\<rparr>"

definition scheduled_request_new :: "string \<Rightarrow> string \<Rightarrow> u64 \<Rightarrow> scheduled_request" where
  "scheduled_request_new session_id request_id queued_at_ms =
     \<lparr>rq_request_id = request_id, rq_session_id = session_id, rq_queued_at_ms = queued_at_ms,
      rq_in_tokens_hint = 0, rq_max_out_tokens_hint = 0\<rparr>"

definition validate_scheduler_config :: "scheduler_config \<Rightarrow> (enclave_error, unit) result" where
  "validate_scheduler_config config =
     (if sc_max_sessions config = 0 then Inl (InvalidInput ''max_sessions must be greater than zero'')
      else if sc_target_wait_ms config = 0
      then Inl (InvalidInput ''target_wait_ms must be greater than zero'')
      else Inr ())"

definition scheduler_new :: "'f f64_ops \<Rightarrow> scheduler_config \<Rightarrow> (enclave_error, 'f enclave_scheduler) result" where
  "scheduler_new fl config =
     rbind (validate_scheduler_config config) (\<lambda>_.
     Inr \<lparr>es_config = config, es_sessions = [], es_request_queues = [], es_ready_sessions = [],
          es_kv_cache_bytes_used = 0, es_ewma_batch_wait_ms = f_zero fl\<rparr>)"

definition active_sessions :: "'f enclave_scheduler \<Rightarrow> u32" where
  "active_sessions s = of_nat (length (es_sessions s))"

definition queued_total :: "(string, scheduled_request list) btree \<Rightarrow> nat" where
  "queued_total qs = (\<Sum>q \<leftarrow> map snd qs. length q)"

definition queued_requests :: "'f enclave_scheduler \<Rightarrow> u32" where
  "queued_requests s = of_nat (queued_total (es_request_queues s))"

text \<open>\<open>queued_requests() + 1\<close> is a 32-bit addition.\<close>

definition retry_after_ms :: "'f enclave_scheduler \<Rightarrow> u64" where
  "retry_after_ms s =
     (let queue_factor = (ucast (queued_requests s + 1) :: u64)
      in max (sat_mul (sc_target_wait_ms (es_config s)) queue_factor) 1000)"

definition open_session ::
    "'f enclave_scheduler \<Rightarrow> string \<Rightarrow> string list \<Rightarrow>
       (enclave_error, admission_outcome) result \<times> 'f enclave_scheduler" where
  "open_session s session_id alt_rooms =
     (if bt_get (es_sessions s) session_id \<noteq> None then (Inl (SessionAlreadyActive session_id), s)
      else (let active = active_sessions s in
        if active \<ge> sc_max_sessions (es_config s)
        then (Inr (RejectedBusy session_id active (sc_max_sessions (es_config s)) (queued_requests s)
                     (retry_after_ms s) alt_rooms), s)
        else (Inr (Accepted session_id (active + 1) (sc_max_sessions (es_config s))),
              s\<lparr>es_sessions := bt_insert session_id
                   \<lparr>st_usage = \<lparr>su_session_id = session_id, su_in_tokens = 0, su_out_tokens = 0\<rparr>,
                    st_next_checkpoint_seq = 1\<rparr> (es_sessions s)\<rparr>)))"

definition close_session ::
    "'f enclave_scheduler \<Rightarrow> string \<Rightarrow> (enclave_error, session_usage) result \<times> 'f enclave_scheduler" where
  "close_session s session_id =
     (case bt_get (es_sessions s) session_id of
        None \<Rightarrow> (Inl (SessionNotFound session_id), s)
      | Some state \<Rightarrow>
          (Inr (st_usage state),
           s\<lparr>es_sessions := bt_remove session_id (es_sessions s),
             es_request_queues := bt_remove session_id (es_request_queues s),
             es_ready_sessions := filter (\<lambda>queued. queued \<noteq> session_id) (es_ready_sessions s)\<rparr>))"

definition enqueue_request ::
    "'f enclave_scheduler \<Rightarrow> scheduled_request \<Rightarrow> (enclave_error, unit) result \<times> 'f enclave_scheduler" where
  "enqueue_request s req =
     (if bt_get (es_sessions s) (rq_session_id req) = None then (Inl (SessionNotFound (rq_session_id req)), s)
      else if queued_requests s \<ge> sc_max_queue (es_config s)
      then (Inl (SchedulerQueueFull (queued_requests s) (sc_max_queue (es_config s))), s)
      else (let queue = (case bt_get (es_request_queues s) (rq_session_id req) of None \<Rightarrow> [] | Some q \<Rightarrow> q);
                ready = (if queue = [] \<and> rq_session_id req \<notin> set (es_ready_sessions s)
                         then es_ready_sessions s @ [rq_session_id req] else es_ready_sessions s)
            in (Inr (), s\<lparr>es_ready_sessions := ready,
                          es_request_queues := bt_insert (rq_session_id req) (queue @ [req]) (es_request_queues s)\<rparr>)))"

definition record_batch_wait_ms :: "'f f64_ops \<Rightarrow> 'f \<Rightarrow> 'f enclave_scheduler \<Rightarrow> 'f enclave_scheduler" where
  "record_batch_wait_ms fl observed_wait_ms s =
     (let observed = f_max fl observed_wait_ms (f_zero fl)
      in s\<lparr>es_ewma_batch_wait_ms :=
             (if f_eq fl (es_ewma_batch_wait_ms s) (f_zero fl) then observed
              else f_add fl (f_mul fl (f_lit fl 8 1) (es_ewma_batch_wait_ms s)) (f_mul fl (f_lit fl 2 1) observed))\<rparr>)"

function next_batch_loop ::
    "'f f64_ops \<Rightarrow> nat \<Rightarrow> u64 \<Rightarrow> 'f enclave_scheduler \<Rightarrow> scheduled_request list \<Rightarrow>
       scheduled_request list \<times> 'f enclave_scheduler" where
  "next_batch_loop fl max_items now s batch =
     (if length batch < max_items
      then (case es_ready_sessions s of
              [] \<Rightarrow> (batch, s)
            | sid # ready \<Rightarrow>
                (let s1 = s\<lparr>es_ready_sessions := ready\<rparr> in
                 if bt_get (es_sessions s1) sid = None
                 then next_batch_loop fl max_items now
                        (s1\<lparr>es_request_queues := bt_remove sid (es_request_queues s1)\<rparr>) batch
                 else (case bt_get (es_request_queues s1) sid of
                         None \<Rightarrow> next_batch_loop fl max_items now s1 batch
                       | Some [] \<Rightarrow> next_batch_loop fl max_items now s1 batch
                       | Some (req # queue) \<Rightarrow>
                           (let s2 = record_batch_wait_ms fl (f_of_u64 fl (sat_sub now (rq_queued_at_ms req)))
                                       (s1\<lparr>es_request_queues := bt_insert sid queue (es_request_queues s1)\<rparr>);
                                s3 = (if queue \<noteq> [] then s2\<lparr>es_ready_sessions := es_ready_sessions s2 @ [sid]\<rparr>
                                      else s2\<lparr>es_request_queues := bt_remove sid (es_request_queues s2)\<rparr>)
                            in next_batch_loop fl max_items now s3 (batch @ [req])))))
      else (batch, s))"
  by pat_completeness auto
termination
  by (relation "measures [\<lambda>(_, m, _, _, b). m - length b, \<lambda>(_, _, _, s, _). length (es_ready_sessions s)]")
     auto

declare next_batch_loop.simps [simp del]

definition next_batch ::
    "'f f64_ops \<Rightarrow> 'f enclave_scheduler \<Rightarrow> nat \<Rightarrow> u64 \<Rightarrow> scheduled_request list \<times> 'f enclave_scheduler" where
  "next_batch fl s max_items now_ms = next_batch_loop fl max_items now_ms s []"

definition record_tokens ::
    "'f enclave_scheduler \<Rightarrow> string \<Rightarrow> u64 \<Rightarrow> u64 \<Rightarrow>
       (enclave_error, session_usage) result \<times> 'f enclave_scheduler" where
  "record_tokens s session_id in_tokens out_tokens =
     (case bt_get (es_sessions s) session_id of
        None \<Rightarrow> (Inl (SessionNotFound session_id), s)
      | Some state \<Rightarrow>
          (let usage = (st_usage state)\<lparr>su_in_tokens := sat_add (su_in_tokens (st_usage state)) in_tokens,
                                        su_out_tokens := sat_add (su_out_tokens (st_usage state)) out_tokens\<rparr>
           in (Inr usage, s\<lparr>es_sessions := bt_insert session_id (state\<lparr>st_usage := usage\<rparr>) (es_sessions s)\<rparr>)))"

definition checkpoint_session ::
    "'f enclave_scheduler \<Rightarrow> string \<Rightarrow> bool \<Rightarrow>
       (enclave_error, meter_checkpoint) result \<times> 'f enclave_scheduler" where
  "checkpoint_session s session_id final_checkpoint =
     (case bt_get (es_sessions s) session_id of
        None \<Rightarrow> (Inl (SessionNotFound session_id), s)
      | Some state \<Rightarrow>
          (Inr \<lparr>mc_session_id = session_id, mc_seq = st_next_checkpoint_seq state,
                mc_final_checkpoint = final_checkpoint, mc_usage = st_usage state\<rparr>,
           s\<lparr>es_sessions := bt_insert session_id
                (state\<lparr>st_next_checkpoint_seq := sat_add (st_next_checkpoint_seq state) 1\<rparr>) (es_sessions s)\<rparr>))"

definition update_kv_cache_bytes_used :: "'f enclave_scheduler \<Rightarrow> u64 \<Rightarrow> 'f enclave_scheduler" where
  "update_kv_cache_bytes_used s bytes = s\<lparr>es_kv_cache_bytes_used := bytes\<rparr>"

definition set_ewma_batch_wait_ms :: "'f f64_ops \<Rightarrow> 'f enclave_scheduler \<Rightarrow> 'f \<Rightarrow> 'f enclave_scheduler" where
  "set_ewma_batch_wait_ms fl s wait_ms = s\<lparr>es_ewma_batch_wait_ms := f_max fl wait_ms (f_zero fl)\<rparr>"

definition snapshot :: "'f f64_ops \<Rightarrow> 'f enclave_scheduler \<Rightarrow> 'f scheduler_snapshot" where
  "snapshot fl s =
     (let i = \<lparr>si_active_sessions = active_sessions s, si_max_sessions = sc_max_sessions (es_config s),
               si_queued_requests = queued_requests s, si_max_queue = sc_max_queue (es_config s),
               si_kv_cache_bytes_used = es_kv_cache_bytes_used s,
               si_kv_cache_bytes_budget = sc_kv_cache_bytes_budget (es_config s),
               si_ewma_batch_wait_ms = es_ewma_batch_wait_ms s,
               si_target_wait_ms = sc_target_wait_ms (es_config s)\<rparr>;
          saturation = calculate_saturation fl i;
          shedding = f_lt fl (f_lit fl 9 1) (sb_saturation saturation)
      in \<lparr>ss_active_sessions = si_active_sessions i, ss_max_sessions = si_max_sessions i,
          ss_queued_requests = si_queued_requests i, ss_max_queue = si_max_queue i,
          ss_kv_cache_bytes_used = si_kv_cache_bytes_used i,
          ss_kv_cache_bytes_budget = si_kv_cache_bytes_budget i,
          ss_ewma_batch_wait_ms = si_ewma_batch_wait_ms i, ss_target_wait_ms = si_target_wait_ms i,
          ss_saturation = saturation,
          ss_heartbeat_saturation = (if shedding then f_one fl else sb_saturation saturation),
          ss_should_answer_want = (\<not> shedding \<and> si_active_sessions i < si_max_sessions i)\<rparr>)"

section \<open>The invariant\<close>

definition queue_of :: "'f enclave_scheduler \<Rightarrow> string \<Rightarrow> scheduled_request list" where
  "queue_of s sid = (case bt_get (es_request_queues s) sid of None \<Rightarrow> [] | Some q \<Rightarrow> q)"

definition sched_ok :: "'f enclave_scheduler \<Rightarrow> bool" where
  "sched_ok s \<longleftrightarrow>
     bt_wf (es_sessions s) \<and> bt_wf (es_request_queues s) \<and>
     length (es_sessions s) \<le> unat (sc_max_sessions (es_config s)) \<and>
     queued_total (es_request_queues s) \<le> unat (sc_max_queue (es_config s)) \<and>
     (\<forall>sid q. bt_get (es_request_queues s) sid = Some q \<longrightarrow>
        q \<noteq> [] \<and> bt_get (es_sessions s) sid \<noteq> None \<and> (\<forall>r \<in> set q. rq_session_id r = sid)) \<and>
     distinct (es_ready_sessions s) \<and>
     (\<forall>sid. sid \<in> set (es_ready_sessions s) \<longleftrightarrow> bt_get (es_request_queues s) sid \<noteq> None)"

lemma queued_total_Nil [simp]: "queued_total [] = 0"
  by (simp add: queued_total_def)

lemma queued_total_Cons [simp]: "queued_total ((k, q) # qs) = length q + queued_total qs"
  by (simp add: queued_total_def)

lemma queued_total_bt_sum: "queued_total qs = bt_sum length qs"
  by (simp add: queued_total_def bt_sum_def comp_def case_prod_unfold)

lemma queued_total_insert:
  "bt_wf qs \<Longrightarrow> queued_total (bt_insert k q qs) + (case bt_get qs k of None \<Rightarrow> 0 | Some q' \<Rightarrow> length q') =
     queued_total qs + length q"
  unfolding queued_total_bt_sum by (rule bt_sum_insert)

lemma queued_total_remove:
  "bt_wf qs \<Longrightarrow> queued_total (bt_remove k qs) + (case bt_get qs k of None \<Rightarrow> 0 | Some q' \<Rightarrow> length q') = queued_total qs"
  unfolding queued_total_bt_sum by (rule bt_sum_remove)

lemma sched_okD:
  assumes "sched_ok s"
  shows "bt_wf (es_sessions s)" "bt_wf (es_request_queues s)"
    "length (es_sessions s) \<le> unat (sc_max_sessions (es_config s))"
    "queued_total (es_request_queues s) \<le> unat (sc_max_queue (es_config s))"
    "distinct (es_ready_sessions s)"
    "sid \<in> set (es_ready_sessions s) \<longleftrightarrow> bt_get (es_request_queues s) sid \<noteq> None"
    "bt_get (es_request_queues s) sid = Some q \<Longrightarrow>
       q \<noteq> [] \<and> bt_get (es_sessions s) sid \<noteq> None \<and> (\<forall>r \<in> set q. rq_session_id r = sid)"
  using assms unfolding sched_ok_def by blast+

lemma unat_active_sessions: "sched_ok s \<Longrightarrow> unat (active_sessions s) = length (es_sessions s)"
  using sched_okD(3) [of s] unat_lt_pow [of "sc_max_sessions (es_config s)"]
  unfolding active_sessions_def by (intro unat_of_nat_small) (simp del: unat_lt_pow)

lemma unat_queued_requests: "sched_ok s \<Longrightarrow> unat (queued_requests s) = queued_total (es_request_queues s)"
  using sched_okD(4) [of s] unat_lt_pow [of "sc_max_queue (es_config s)"]
  unfolding queued_requests_def by (intro unat_of_nat_small) (simp del: unat_lt_pow)

lemma open_session_ok: "sched_ok s \<Longrightarrow> sched_ok (snd (open_session s sid alt))"
proof -
  assume ok: "sched_ok s"
  note d = sched_okD [OF ok]
  show ?thesis
  proof (cases "bt_get (es_sessions s) sid \<noteq> None \<or> active_sessions s \<ge> sc_max_sessions (es_config s)")
    case True
    then show ?thesis using ok by (auto simp: open_session_def Let_def)
  next
    case False
    then have new: "bt_get (es_sessions s) sid = None"
      and room: "length (es_sessions s) < unat (sc_max_sessions (es_config s))"
      using unat_active_sessions [OF ok] by (simp_all add: not_le word_less_nat_alt)
    have "Suc (length (es_sessions s)) \<le> unat (sc_max_sessions (es_config s))" using room by simp
    then show ?thesis
      using False new ok unfolding sched_ok_def
      by (auto simp: open_session_def Let_def length_bt_insert btree_simps)
  qed
qed

lemma close_session_ok: "sched_ok s \<Longrightarrow> sched_ok (snd (close_session s sid))"
proof (cases "bt_get (es_sessions s) sid")
  case None
  assume "sched_ok s"
  then show ?thesis using None by (simp add: close_session_def)
next
  case (Some st)
  assume ok: "sched_ok s"
  note d = sched_okD [OF ok]
  have "queued_total (bt_remove sid (es_request_queues s)) \<le> unat (sc_max_queue (es_config s))"
    using queued_total_remove [OF d(2), of sid] d(4) by linarith
  moreover have "length (bt_remove sid (es_sessions s)) \<le> unat (sc_max_sessions (es_config s))"
    using length_bt_remove d(3) by (rule order_trans)
  ultimately show ?thesis
    using Some ok unfolding sched_ok_def by (auto simp: close_session_def btree_simps)
qed

lemma enqueue_request_ok: "sched_ok s \<Longrightarrow> sched_ok (snd (enqueue_request s r))"
proof (cases "bt_get (es_sessions s) (rq_session_id r) = None \<or> queued_requests s \<ge> sc_max_queue (es_config s)")
  case True
  assume "sched_ok s"
  then show ?thesis using True by (auto simp: enqueue_request_def)
next
  case False
  assume ok: "sched_ok s"
  note d = sched_okD [OF ok]
  let ?sid = "rq_session_id r"
  have room: "queued_total (es_request_queues s) < unat (sc_max_queue (es_config s))"
    using False unat_queued_requests [OF ok] by (simp add: not_le word_less_nat_alt)
  have eq: "snd (enqueue_request s r) =
      s\<lparr>es_ready_sessions := (if queue_of s ?sid = [] then es_ready_sessions s @ [?sid] else es_ready_sessions s),
        es_request_queues := bt_insert ?sid (queue_of s ?sid @ [r]) (es_request_queues s)\<rparr>"
    using False d(6) [of ?sid] d(7) [of ?sid]
    by (auto simp: enqueue_request_def queue_of_def Let_def split: option.splits)
  have total: "queued_total (bt_insert ?sid (queue_of s ?sid @ [r]) (es_request_queues s)) =
      Suc (queued_total (es_request_queues s))"
    using queued_total_insert [OF d(2), of ?sid "queue_of s ?sid @ [r]"]
    by (simp add: queue_of_def split: option.splits)
  have "queue_of s ?sid = [] \<longleftrightarrow> bt_get (es_request_queues s) ?sid = None"
    using d(7) [of ?sid] by (auto simp: queue_of_def split: option.splits)
  then show ?thesis
    using ok room total False unfolding eq sched_ok_def
    by (auto simp: btree_simps queue_of_def split: option.splits)
qed

subsection \<open>Batches\<close>

text \<open>One round of the batch loop: the first ready session gives the head of its queue.\<close>

definition serve :: "'f f64_ops \<Rightarrow> u64 \<Rightarrow> string \<Rightarrow> string list \<Rightarrow> scheduled_request \<Rightarrow> scheduled_request list \<Rightarrow>
    'f enclave_scheduler \<Rightarrow> 'f enclave_scheduler" where
  "serve fl now sid ready r q s =
     (let s2 = record_batch_wait_ms fl (f_of_u64 fl (sat_sub now (rq_queued_at_ms r)))
                 (s\<lparr>es_ready_sessions := ready, es_request_queues := bt_insert sid q (es_request_queues s)\<rparr>)
      in if q \<noteq> [] then s2\<lparr>es_ready_sessions := es_ready_sessions s2 @ [sid]\<rparr>
         else s2\<lparr>es_request_queues := bt_remove sid (es_request_queues s2)\<rparr>)"

lemma serve_fields:
  "es_config (serve fl now sid ready r q s) = es_config s"
  "es_sessions (serve fl now sid ready r q s) = es_sessions s"
  "es_ready_sessions (serve fl now sid ready r q s) = (if q = [] then ready else ready @ [sid])"
  "es_request_queues (serve fl now sid ready r q s) =
     (if q = [] then bt_remove sid (bt_insert sid q (es_request_queues s)) else bt_insert sid q (es_request_queues s))"
  by (simp_all add: serve_def record_batch_wait_ms_def Let_def)

lemma next_batch_serve:
  assumes ok: "sched_ok s" and b: "length batch < m" and ready: "es_ready_sessions s = sid # ready"
  obtains r q where "bt_get (es_request_queues s) sid = Some (r # q)" "rq_session_id r = sid"
    "next_batch_loop fl m now s batch = next_batch_loop fl m now (serve fl now sid ready r q s) (batch @ [r])"
proof -
  obtain rq where "bt_get (es_request_queues s) sid = Some rq" using sched_okD(6) [OF ok, of sid] ready by auto
  moreover from sched_okD(7) [OF ok this] obtain r q where "rq = r # q" "rq_session_id r = sid"
    "bt_get (es_sessions s) sid \<noteq> None"
    by (cases rq) auto
  ultimately have q: "bt_get (es_request_queues s) sid = Some (r # q)" "rq_session_id r = sid"
    "bt_get (es_sessions s) sid \<noteq> None" by simp_all
  have "next_batch_loop fl m now s batch = next_batch_loop fl m now (serve fl now sid ready r q s) (batch @ [r])"
    using b ready q by (subst next_batch_loop.simps) (auto simp: serve_def Let_def)
  then show thesis by (rule that [OF q(1,2)])
qed

lemma queued_total_serve:
  assumes "bt_wf qs" "bt_get qs sid = Some (r # q)"
  shows "Suc (queued_total (if q = [] then bt_remove sid (bt_insert sid q qs) else bt_insert sid q qs)) = queued_total qs"
proof -
  have i: "queued_total (bt_insert sid q qs) + Suc (length q) = queued_total qs + length q"
    using queued_total_insert [OF assms(1), of sid q] assms(2) by simp
  have "queued_total (bt_remove sid (bt_insert sid q qs)) + length q = queued_total (bt_insert sid q qs)"
    using queued_total_remove [of "bt_insert sid q qs" sid] assms(1) by (simp add: btree_simps)
  then show ?thesis using i by auto
qed

lemma serve_ok:
  assumes ok: "sched_ok s" and ready: "es_ready_sessions s = sid # ready"
    and q: "bt_get (es_request_queues s) sid = Some (r # q)"
  shows "sched_ok (serve fl now sid ready r q s)"
proof -
  note d = sched_okD [OF ok]
  have q': "bt_get (es_sessions s) sid \<noteq> None" "\<forall>x \<in> set q. rq_session_id x = sid"
    using d(7) [OF q] by auto
  have "queued_total (es_request_queues (serve fl now sid ready r q s)) \<le> unat (sc_max_queue (es_config s))"
    unfolding serve_fields using queued_total_serve [OF d(2) q] d(4) by linarith
  then show ?thesis
    using ok q' ready q unfolding sched_ok_def serve_fields by (auto simp: btree_simps)
qed

lemma queue_of_serve:
  assumes "bt_get (es_request_queues s) sid = Some (r # q)"
  shows "queue_of s x = (if x = sid then [r] else []) @ queue_of (serve fl now sid ready r q s) x"
  using assms by (auto simp: queue_of_def serve_fields btree_simps)

lemma next_batch_loop_spec:
  assumes "sched_ok s" "next_batch_loop fl m now s batch = (batch', s')"
  shows "\<exists>new. batch' = batch @ new \<and> sched_ok s' \<and> es_config s' = es_config s \<and> es_sessions s' = es_sessions s \<and>
           length new = min (m - length batch) (queued_total (es_request_queues s)) \<and>
           queued_total (es_request_queues s') + length new = queued_total (es_request_queues s) \<and>
           (\<forall>sid. filter (\<lambda>r. rq_session_id r = sid) new @ queue_of s' sid = queue_of s sid) \<and>
           (\<forall>n. n \<le> m - length batch \<and> n \<le> length (es_ready_sessions s) \<longrightarrow>
              map rq_session_id (take n new) = take n (es_ready_sessions s))"
  using assms
proof (induction "m - length batch" arbitrary: s batch)
  case 0
  then have "batch' = batch" "s' = s" by (simp_all add: next_batch_loop.simps)
  then show ?case using 0 by simp
next
  case (Suc k)
  then have b: "length batch < m" by simp
  note d = sched_okD [OF Suc.prems(1)]
  show ?case
  proof (cases "es_ready_sessions s")
    case Nil
    then have "batch' = batch" "s' = s" using Suc.prems(2) by (simp_all add: next_batch_loop.simps split: if_splits)
    moreover have "es_request_queues s = []"
    proof (cases "es_request_queues s")
      case (Cons x xs)
      then show ?thesis using d(6) [of "fst x"] Nil by (cases x) simp
    qed simp
    ultimately show ?thesis using Nil Suc.prems(1) by simp
  next
    case (Cons sid ready)
    obtain r q where q: "bt_get (es_request_queues s) sid = Some (r # q)" "rq_session_id r = sid"
      and loop: "next_batch_loop fl m now s batch = next_batch_loop fl m now (serve fl now sid ready r q s) (batch @ [r])"
      using next_batch_serve [OF Suc.prems(1) b Cons] .
    let ?s = "serve fl now sid ready r q s"
    have ok: "sched_ok ?s" by (rule serve_ok [OF Suc.prems(1) Cons q(1)])
    have k: "k = m - length (batch @ [r])" using Suc.hyps(2) by simp
    obtain new where new: "batch' = (batch @ [r]) @ new" "sched_ok s'" "es_config s' = es_config ?s"
      "es_sessions s' = es_sessions ?s"
      "length new = min (m - length (batch @ [r])) (queued_total (es_request_queues ?s))"
      "queued_total (es_request_queues s') + length new = queued_total (es_request_queues ?s)"
      "\<forall>x. filter (\<lambda>r. rq_session_id r = x) new @ queue_of s' x = queue_of ?s x"
      "\<forall>n. n \<le> m - length (batch @ [r]) \<and> n \<le> length (es_ready_sessions ?s) \<longrightarrow>
         map rq_session_id (take n new) = take n (es_ready_sessions ?s)"
      using Suc.hyps(1) [OF k ok] Suc.prems(2) loop by auto
    have total: "Suc (queued_total (es_request_queues ?s)) = queued_total (es_request_queues s)"
      unfolding serve_fields by (rule queued_total_serve [OF d(2) q(1)])
    have "\<forall>x. filter (\<lambda>r. rq_session_id r = x) (r # new) @ queue_of s' x = queue_of s x"
      using new(7) queue_of_serve [OF q(1), of _ fl now ready] q(2) by auto
    moreover have "map rq_session_id (take n (r # new)) = take n (es_ready_sessions s)"
      if n: "n \<le> m - length batch" "n \<le> length (es_ready_sessions s)" for n
    proof (cases n)
      case (Suc j)
      then have "map rq_session_id (take j new) = take j (es_ready_sessions ?s)"
        using new(8) n Cons by (simp add: serve_fields)
      also have "\<dots> = take j ready" using n Suc Cons by (simp add: serve_fields)
      finally show ?thesis using Suc q(2) Cons by simp
    qed simp
    ultimately show ?thesis
      using new(1-6) total b by (intro exI [of _ "r # new"]) (simp add: serve_fields)
  qed
qed

lemma record_tokens_ok: "sched_ok s \<Longrightarrow> sched_ok (snd (record_tokens s sid i j))"
  unfolding sched_ok_def record_tokens_def Let_def
  by (auto simp: length_bt_insert btree_simps split: option.splits)

lemma checkpoint_session_ok: "sched_ok s \<Longrightarrow> sched_ok (snd (checkpoint_session s sid fin))"
  unfolding sched_ok_def checkpoint_session_def
  by (auto simp: length_bt_insert btree_simps split: option.splits)

section \<open>Sequences of calls\<close>

datatype 'f sched_op =
  OpenSession string "string list"
| CloseSession string
| Enqueue scheduled_request
| NextBatch nat u64
| RecordTokens string u64 u64
| Checkpoint string bool
| UpdateKv u64
| SetEwma 'f

fun sched_step :: "'f f64_ops \<Rightarrow> 'f sched_op \<Rightarrow> 'f enclave_scheduler \<Rightarrow> 'f enclave_scheduler" where
  "sched_step fl (OpenSession sid alt) s = snd (open_session s sid alt)"
| "sched_step fl (CloseSession sid) s = snd (close_session s sid)"
| "sched_step fl (Enqueue r) s = snd (enqueue_request s r)"
| "sched_step fl (NextBatch n now) s = snd (next_batch fl s n now)"
| "sched_step fl (RecordTokens sid i j) s = snd (record_tokens s sid i j)"
| "sched_step fl (Checkpoint sid fin) s = snd (checkpoint_session s sid fin)"
| "sched_step fl (UpdateKv b) s = update_kv_cache_bytes_used s b"
| "sched_step fl (SetEwma w) s = set_ewma_batch_wait_ms fl s w"

lemma next_batch_ok: "sched_ok s \<Longrightarrow> sched_ok (snd (next_batch fl s n now))"
  using next_batch_loop_spec [of s fl n now "[]"] by (cases "next_batch_loop fl n now s []") (auto simp: next_batch_def)

lemma sched_step_ok: "sched_ok s \<Longrightarrow> sched_ok (sched_step fl op s)"
proof (cases op)
  case (UpdateKv b)
  assume "sched_ok s"
  then show ?thesis using UpdateKv by (simp add: sched_ok_def update_kv_cache_bytes_used_def)
next
  case (SetEwma w)
  assume "sched_ok s"
  then show ?thesis using SetEwma by (simp add: sched_ok_def set_ewma_batch_wait_ms_def)
qed (simp_all add: open_session_ok close_session_ok enqueue_request_ok next_batch_ok record_tokens_ok
      checkpoint_session_ok)

interpretation sched: machine "sched_step fl" sched_ok for fl
  by unfold_locales (rule sched_step_ok)

lemma sched_ok_new: "scheduler_new fl config = Inr s \<Longrightarrow> sched_ok s \<and> es_config s = config"
  by (auto simp: scheduler_new_def sched_ok_def)

lemma sched_step_config: "sched_ok s \<Longrightarrow> es_config (sched_step fl op s) = es_config s"
proof (cases op)
  case (NextBatch n now)
  assume "sched_ok s"
  then show ?thesis
    using NextBatch next_batch_loop_spec [of s fl n now "[]"]
    by (cases "next_batch_loop fl n now s []") (auto simp: next_batch_def)
qed (auto simp: open_session_def close_session_def enqueue_request_def record_tokens_def
      checkpoint_session_def update_kv_cache_bytes_used_def set_ewma_batch_wait_ms_def Let_def split: option.splits)

lemma sched_run:
  assumes "scheduler_new fl config = Inr s0" "s = fold (sched_step fl) ops s0"
  shows "sched_ok s" "es_config s = config"
proof -
  have ok: "sched_ok s0" "es_config s0 = config" using sched_ok_new [OF assms(1)] by simp_all
  show "sched_ok s" unfolding assms(2) by (rule sched.run_inv [OF ok(1)])
  have "es_config (fold (sched_step fl) ops s0) = es_config s0"
    by (rule sched.run_stable [OF sched_step_config ok(1)])
  then show "es_config s = config" using assms(2) ok(2) by simp
qed

section \<open>Properties\<close>

text \<open>
  C35. The scheduler keeps its limits and its bookkeeping over any sequence of calls: never more than
  \<open>max_sessions\<close> sessions nor \<open>max_queue\<close> queued requests, so the reported counts are exact; the
  ready list names, without repetition, exactly the sessions with queued requests, which are open
  sessions, and each queue holds only requests of its session.
\<close>

theorem scheduler_invariant:
  assumes "scheduler_new fl config = Inr s0" "s = fold (sched_step fl) ops s0"
  shows "unat (active_sessions s) = length (es_sessions s) \<and>
         length (es_sessions s) \<le> unat (sc_max_sessions config) \<and>
         unat (queued_requests s) = queued_total (es_request_queues s) \<and>
         queued_total (es_request_queues s) \<le> unat (sc_max_queue config) \<and>
         distinct (es_ready_sessions s) \<and>
         (\<forall>sid. sid \<in> set (es_ready_sessions s) \<longleftrightarrow> queue_of s sid \<noteq> []) \<and>
         (\<forall>sid. \<forall>r \<in> set (queue_of s sid). rq_session_id r = sid \<and> bt_get (es_sessions s) sid \<noteq> None)"
proof -
  note run = sched_run [OF assms]
  note d = sched_okD [OF run(1)]
  have "sid \<in> set (es_ready_sessions s) \<longleftrightarrow> queue_of s sid \<noteq> []" for sid
    using d(6) [of sid] d(7) [of sid] by (auto simp: queue_of_def split: option.splits)
  moreover have "rq_session_id r = sid \<and> bt_get (es_sessions s) sid \<noteq> None" if "r \<in> set (queue_of s sid)" for sid r
    using that d(7) [of sid] by (cases "bt_get (es_request_queues s) sid") (simp_all add: queue_of_def)
  ultimately show ?thesis
    using d(3-5) run unat_active_sessions [OF run(1)] unat_queued_requests [OF run(1)] by simp
qed

text \<open>
  Admission is exact: over any history, opening a session that is not open is refused as busy
  exactly when \<open>max_sessions\<close> are open, with at least a second to wait and the queue length it reports;
  otherwise it is accepted, becomes active with zero usage, and nothing else changes. A request is
  queued exactly when its session is open and fewer than \<open>max_queue\<close> are waiting, at the end of its
  session's queue.
\<close>

lemma admission_exact:
  assumes "scheduler_new fl config = Inr s0" "s = fold (sched_step fl) ops s0"
    and "bt_get (es_sessions s) sid = None"
  shows "(length (es_sessions s) = unat (sc_max_sessions config) \<longrightarrow>
            (\<exists>wait. open_session s sid alt =
               (Inr (RejectedBusy sid (active_sessions s) (sc_max_sessions config) (queued_requests s) wait alt), s) \<and>
               1000 \<le> wait)) \<and>
         (length (es_sessions s) < unat (sc_max_sessions config) \<longrightarrow>
            (\<exists>s' n. open_session s sid alt = (Inr (Accepted sid n (sc_max_sessions config)), s') \<and>
               unat n = Suc (length (es_sessions s)) \<and>
               map_option (\<lambda>st. (su_in_tokens (st_usage st), su_out_tokens (st_usage st))) (bt_get (es_sessions s') sid)
                 = Some (0, 0) \<and>
               (\<forall>x. x \<noteq> sid \<longrightarrow> bt_get (es_sessions s') x = bt_get (es_sessions s) x) \<and>
               es_request_queues s' = es_request_queues s)) \<and>
         (fst (enqueue_request s r) = Inr () \<longleftrightarrow>
            bt_get (es_sessions s) (rq_session_id r) \<noteq> None \<and>
            queued_total (es_request_queues s) < unat (sc_max_queue config)) \<and>
         (fst (enqueue_request s r) = Inr () \<longrightarrow>
            queue_of (snd (enqueue_request s r)) x = queue_of s x @ (if x = rq_session_id r then [r] else []))"
proof -
  note run = sched_run [OF assms(1,2)]
  note cnt = unat_active_sessions [OF run(1)] unat_queued_requests [OF run(1)]
  have wait: "1000 \<le> retry_after_ms s" by (simp add: retry_after_ms_def Let_def)
  have busy: "\<exists>wait. open_session s sid alt =
         (Inr (RejectedBusy sid (active_sessions s) (sc_max_sessions config) (queued_requests s) wait alt), s) \<and>
         1000 \<le> wait" if "length (es_sessions s) = unat (sc_max_sessions config)"
  proof -
    have "sc_max_sessions config \<le> active_sessions s" using that cnt(1) by (simp add: word_le_nat_alt)
    then show ?thesis using run(2) assms(3) wait by (simp add: open_session_def Let_def)
  qed
  have "unat (active_sessions s + 1) = Suc (unat (active_sessions s))"
    if "length (es_sessions s) < unat (sc_max_sessions config)"
    using that cnt(1) unat_lt_pow [of "sc_max_sessions config"]
    by (simp add: unat_word_ariths)
  then have free: "length (es_sessions s) < unat (sc_max_sessions config) \<Longrightarrow>
      (\<exists>s' n. open_session s sid alt = (Inr (Accepted sid n (sc_max_sessions config)), s') \<and>
         unat n = Suc (length (es_sessions s)) \<and>
         map_option (\<lambda>st. (su_in_tokens (st_usage st), su_out_tokens (st_usage st))) (bt_get (es_sessions s') sid)
           = Some (0, 0) \<and>
         (\<forall>x. x \<noteq> sid \<longrightarrow> bt_get (es_sessions s') x = bt_get (es_sessions s) x) \<and>
         es_request_queues s' = es_request_queues s)"
    using cnt(1) run(2) assms(3) by (auto simp: open_session_def Let_def word_le_nat_alt btree_simps)
  have "fst (enqueue_request s r) = Inr () \<longleftrightarrow>
      bt_get (es_sessions s) (rq_session_id r) \<noteq> None \<and> queued_total (es_request_queues s) < unat (sc_max_queue config)"
    using cnt(2) run(2) by (auto simp: enqueue_request_def Let_def word_le_nat_alt)
  moreover have "fst (enqueue_request s r) = Inr () \<Longrightarrow>
      queue_of (snd (enqueue_request s r)) x = queue_of s x @ (if x = rq_session_id r then [r] else [])"
    by (auto simp: enqueue_request_def queue_of_def Let_def btree_simps split: if_splits option.splits)
  ultimately show ?thesis using busy free by blast
qed

definition sample_scheduler :: "unit enclave_scheduler" where
  "sample_scheduler = projr (scheduler_new unit_ops (scheduler_config_new 2 4 0 50))"

lemma sample_scheduler_new: "scheduler_new unit_ops (scheduler_config_new 2 4 0 50) = Inr sample_scheduler"
  by (simp add: sample_scheduler_def scheduler_new_def validate_scheduler_config_def scheduler_config_new_def)

definition sample_ops :: "unit sched_op list" where
  "sample_ops = [OpenSession ''a'' [], OpenSession ''b'' [], Enqueue (scheduled_request_new ''a'' ''a1'' 0),
     Enqueue (scheduled_request_new ''a'' ''a2'' 0), Enqueue (scheduled_request_new ''b'' ''b1'' 0)]"

theorem scheduler_invariant_witness:
  "let s = fold (sched_step unit_ops) sample_ops sample_scheduler
   in queued_total (es_request_queues s) \<le> 4 \<and> length (es_sessions s) \<le> 2"
  unfolding Let_def
  using scheduler_invariant [OF sample_scheduler_new refl, of sample_ops] by (simp add: scheduler_config_new_def)

lemma admission_exact_witness:
  "\<exists>wait. open_session (fold (sched_step unit_ops) sample_ops sample_scheduler) ''c'' [''r2''] =
     (Inr (RejectedBusy ''c'' 2 2 3 wait [''r2'']), fold (sched_step unit_ops) sample_ops sample_scheduler)"
proof -
  let ?s = "fold (sched_step unit_ops) sample_ops sample_scheduler"
  have "bt_get (es_sessions ?s) ''c'' = None" "length (es_sessions ?s) = 2" "active_sessions ?s = 2"
    "queued_requests ?s = 3"
    by code_simp+
  then show ?thesis
    using admission_exact [OF sample_scheduler_new refl, of sample_ops "''c''" "[''r2'']"
        "scheduled_request_new ''a'' ''z'' 0" "''a''"]
    by (auto simp: scheduler_config_new_def)
qed

text \<open>
  C40. Batches are complete, ordered and fair: over any history, a batch of at most \<open>n\<close> items takes
  \<open>min n queued\<close> requests, none lost or repeated; each session's requests leave in the order they
  came, the rest staying queued; and the first items go round the ready sessions in order, one each,
  so a batch at least as long as the ready list serves every waiting session. Sessions are untouched.
\<close>

theorem batch_fair_fifo:
  assumes "scheduler_new fl config = Inr s0" "s = fold (sched_step fl) ops s0"
    and "next_batch fl s n now = (batch, s')"
  shows "length batch = min n (queued_total (es_request_queues s)) \<and>
         queued_total (es_request_queues s') = queued_total (es_request_queues s) - length batch \<and>
         (\<forall>sid. filter (\<lambda>r. rq_session_id r = sid) batch @ queue_of s' sid = queue_of s sid) \<and>
         map rq_session_id (take (min n (length (es_ready_sessions s))) batch) =
           take (min n (length (es_ready_sessions s))) (es_ready_sessions s) \<and>
         (length (es_ready_sessions s) \<le> n \<longrightarrow>
            (\<forall>sid. queue_of s sid \<noteq> [] \<longrightarrow> (\<exists>r \<in> set batch. rq_session_id r = sid))) \<and>
         es_sessions s' = es_sessions s"
proof -
  have ok: "sched_ok s" by (rule sched_run [OF assms(1,2)])
  from next_batch_loop_spec [OF ok assms(3) [unfolded next_batch_def]]
  obtain new where spec: "batch = [] @ new" "sched_ok s'" "es_config s' = es_config s" "es_sessions s' = es_sessions s"
    "length new = min (n - length ([] :: scheduled_request list)) (queued_total (es_request_queues s))"
    "queued_total (es_request_queues s') + length new = queued_total (es_request_queues s)"
    "\<forall>sid. filter (\<lambda>r. rq_session_id r = sid) new @ queue_of s' sid = queue_of s sid"
    "\<forall>k. k \<le> n - length ([] :: scheduled_request list) \<and> k \<le> length (es_ready_sessions s) \<longrightarrow>
       map rq_session_id (take k new) = take k (es_ready_sessions s)"
    by (elim exE conjE) (rule that)
  have new: "batch = [] @ new" "es_sessions s' = es_sessions s"
    "length new = min n (queued_total (es_request_queues s))"
    "queued_total (es_request_queues s') + length new = queued_total (es_request_queues s)"
    "\<forall>sid. filter (\<lambda>r. rq_session_id r = sid) new @ queue_of s' sid = queue_of s sid"
    "\<forall>k. k \<le> n \<and> k \<le> length (es_ready_sessions s) \<longrightarrow> map rq_session_id (take k new) = take k (es_ready_sessions s)"
    using spec by simp_all
  have all: "\<exists>r \<in> set batch. rq_session_id r = sid"
    if "length (es_ready_sessions s) \<le> n" "queue_of s sid \<noteq> []" for sid
  proof -
    have "map rq_session_id (take (length (es_ready_sessions s)) new) = es_ready_sessions s"
      using new(6) that(1) by simp
    moreover have "sid \<in> set (es_ready_sessions s)"
      using that(2) sched_okD(6) [OF ok, of sid] by (auto simp: queue_of_def split: option.splits)
    ultimately have "sid \<in> rq_session_id ` set (take (length (es_ready_sessions s)) new)" by (metis set_map)
    then show ?thesis using new(1) by (auto dest: in_set_takeD)
  qed
  have b: "batch = new" using new(1) by simp
  have "queued_total (es_request_queues s') = queued_total (es_request_queues s) - length new"
    using new(4) by linarith
  then show ?thesis using new(2,3,5,6) all unfolding b by simp
qed

theorem batch_fair_fifo_witness:
  "let s = fold (sched_step unit_ops) sample_ops sample_scheduler
   in length (fst (next_batch unit_ops s 2 9)) = 2 \<and>
      map rq_session_id (take 2 (fst (next_batch unit_ops s 2 9))) = [''a'', ''b'']"
proof -
  let ?s = "fold (sched_step unit_ops) sample_ops sample_scheduler"
  have s: "es_ready_sessions ?s = [''a'', ''b'']" "queued_total (es_request_queues ?s) = 3" by code_simp+
  obtain b s' where b: "next_batch unit_ops ?s 2 9 = (b, s')" by force
  have "length b = min 2 (queued_total (es_request_queues ?s))"
    "map rq_session_id (take (min 2 (length (es_ready_sessions ?s))) b) =
       take (min 2 (length (es_ready_sessions ?s))) (es_ready_sessions ?s)"
    using batch_fair_fifo [OF sample_scheduler_new refl b] by blast+
  then show ?thesis unfolding Let_def b s by simp
qed

text \<open>
  Metering is exact: while a session stays open, its usage is the saturated sum of the token counts
  recorded for it, whatever is recorded for other sessions; a checkpoint reports that usage under the
  next sequence number; and closing the session hands the usage back and forgets the session.
\<close>

definition record_all :: "(string \<times> u64 \<times> u64) list \<Rightarrow> 'f enclave_scheduler \<Rightarrow> 'f enclave_scheduler" where
  "record_all rs s = fold (\<lambda>(sid, i, j) s. snd (record_tokens s sid i j)) rs s"

lemma record_all_get:
  "bt_get (es_sessions s) sid = Some st \<Longrightarrow>
     \<exists>st'. bt_get (es_sessions (record_all rs s)) sid = Some st' \<and>
       st_next_checkpoint_seq st' = st_next_checkpoint_seq st \<and>
       su_session_id (st_usage st') = su_session_id (st_usage st) \<and>
       unat (su_in_tokens (st_usage st')) =
         min (unat (su_in_tokens (st_usage st)) + (\<Sum>(x, i, j) \<leftarrow> rs. if x = sid then unat i else 0)) (2 ^ 64 - 1) \<and>
       unat (su_out_tokens (st_usage st')) =
         min (unat (su_out_tokens (st_usage st)) + (\<Sum>(x, i, j) \<leftarrow> rs. if x = sid then unat j else 0)) (2 ^ 64 - 1)"
proof (induction rs arbitrary: s st)
  case Nil
  have "unat w \<le> 2 ^ 64 - 1" for w :: u64 using unat_le_max [of w] by simp
  then show ?case using Nil by (simp add: record_all_def min_absorb1)
next
  case (Cons r rs)
  obtain x i j where r: "r = (x, i, j)" by (cases r)
  let ?s = "snd (record_tokens s x i j)"
  let ?u = "st_usage st"
  let ?st = "if x = sid then st\<lparr>st_usage := ?u\<lparr>su_in_tokens := sat_add (su_in_tokens ?u) i,
                                             su_out_tokens := sat_add (su_out_tokens ?u) j\<rparr>\<rparr> else st"
  have st1: "bt_get (es_sessions ?s) sid = Some ?st"
    using Cons.prems by (cases "bt_get (es_sessions s) x") (auto simp: record_tokens_def Let_def btree_simps)
  have all: "record_all (r # rs) s = record_all rs ?s" by (simp add: record_all_def r)
  show ?case
    using Cons.IH [OF st1] unfolding all
    by (cases "x = sid") (simp_all add: r unat_sat_add min_min_add add.assoc)
qed

lemma metering_exact:
  assumes "bt_get (es_sessions s) sid = Some st"
  shows "\<exists>u st'. fst (close_session (record_all rs s) sid) = Inr u \<and>
       bt_get (es_sessions (snd (close_session (record_all rs s) sid))) sid = None \<and>
       unat (su_in_tokens u) =
         min (unat (su_in_tokens (st_usage st)) + (\<Sum>(x, i, j) \<leftarrow> rs. if x = sid then unat i else 0)) (2 ^ 64 - 1) \<and>
       unat (su_out_tokens u) =
         min (unat (su_out_tokens (st_usage st)) + (\<Sum>(x, i, j) \<leftarrow> rs. if x = sid then unat j else 0)) (2 ^ 64 - 1) \<and>
       fst (checkpoint_session (record_all rs s) sid fin) =
         Inr \<lparr>mc_session_id = sid, mc_seq = st_next_checkpoint_seq st, mc_final_checkpoint = fin, mc_usage = u\<rparr> \<and>
       bt_get (es_sessions (snd (checkpoint_session (record_all rs s) sid fin))) sid = Some st' \<and>
       st_usage st' = u \<and> st_next_checkpoint_seq st' = sat_add (st_next_checkpoint_seq st) 1"
proof -
  obtain st1 where st1: "bt_get (es_sessions (record_all rs s)) sid = Some st1"
    "st_next_checkpoint_seq st1 = st_next_checkpoint_seq st"
    "unat (su_in_tokens (st_usage st1)) =
       min (unat (su_in_tokens (st_usage st)) + (\<Sum>(x, i, j) \<leftarrow> rs. if x = sid then unat i else 0)) (2 ^ 64 - 1)"
    "unat (su_out_tokens (st_usage st1)) =
       min (unat (su_out_tokens (st_usage st)) + (\<Sum>(x, i, j) \<leftarrow> rs. if x = sid then unat j else 0)) (2 ^ 64 - 1)"
    using record_all_get [OF assms, of rs] by blast
  show ?thesis
    by (rule exI [of _ "st_usage st1"],
        rule exI [of _ "st1\<lparr>st_next_checkpoint_seq := sat_add (st_next_checkpoint_seq st) 1\<rparr>"])
       (use st1 in \<open>simp add: close_session_def checkpoint_session_def btree_simps\<close>)
qed

lemma metering_exact_witness:
  "\<exists>u. fst (close_session (record_all [(''a'', 3, 5), (''b'', 7, 7), (''a'', 1, 1)]
            (fold (sched_step unit_ops) sample_ops sample_scheduler)) ''a'') = Inr u \<and> unat (su_in_tokens u) = 4"
proof -
  let ?s = "fold (sched_step unit_ops) sample_ops sample_scheduler"
  have "bt_get (es_sessions ?s) ''a'' =
      Some \<lparr>st_usage = \<lparr>su_session_id = ''a'', su_in_tokens = 0, su_out_tokens = 0\<rparr>, st_next_checkpoint_seq = 1\<rparr>"
    by code_simp
  from metering_exact [OF this, of "[(''a'', 3, 5), (''b'', 7, 7), (''a'', 1, 1)]" True]
  show ?thesis by auto
qed

end
