(* ===== verification/Contract_Tables.thy ===== *)
theory Contract_Tables
  imports Mayhem_Prelude
begin

text \<open>
  Contract data of \<open>mayhem-proto/src/lib.rs\<close>: money amounts as canonical decimal strings, and the
  versioned table of context brackets a request is priced and routed by.
\<close>

section \<open>Money amounts\<close>

text \<open>The value of a string of decimal digits; \<open>u128::from_str\<close> fails exactly when it exceeds 128 bits.\<close>

definition dec_value :: "string \<Rightarrow> nat" where
  "dec_value s = foldl (\<lambda>n c. 10 * n + (of_char c - 48)) 0 s"

definition decimal_u128_serialize :: "u128 \<Rightarrow> string" where
  "decimal_u128_serialize v = show_nat (unat v)"

definition parse_decimal_u128 :: "string \<Rightarrow> (string, u128) result" where
  "parse_decimal_u128 v =
     (if v = [] then Inl ''money amount must be a decimal string''
      else if length v > 1 \<and> hd v = CHR ''0''
      then Inl ''money amount must be canonical without leading zeros''
      else if \<not> list_all is_ascii_digit v then Inl ''money amount must contain only decimal digits''
      else if dec_value v < 2 ^ 128 then Inr (of_nat (dec_value v))
      else Inl ''money amount exceeds u128'')"

definition optional_decimal_u128_serialize :: "u128 option \<Rightarrow> string option" where
  "optional_decimal_u128_serialize v = map_option decimal_u128_serialize v"

definition optional_decimal_u128_deserialize :: "string option \<Rightarrow> (string, u128 option) result" where
  "optional_decimal_u128_deserialize v =
     (case v of None \<Rightarrow> Inr None
      | Some s \<Rightarrow> (case parse_decimal_u128 s of Inl e \<Rightarrow> Inl e | Inr n \<Rightarrow> Inr (Some n)))"

section \<open>Context brackets\<close>

definition CTX_BRACKET_TABLE_VERSION :: u32 where "CTX_BRACKET_TABLE_VERSION = 1"

definition CTX_BRACKETS :: "(u32 \<times> string) list" where
  "CTX_BRACKETS = [(8192, ''le8k''), (32768, ''le32k''), (131072, ''le128k''), (262144, ''le256k'')]"

definition CTX_BRACKET_UNBOUNDED_ID :: string where "CTX_BRACKET_UNBOUNDED_ID = ''gt256k''"

definition CONTRACT_VERSION :: u32 where "CONTRACT_VERSION = 25"
definition RECOVERABLE_RECEIPT_CONTRACT_VERSIONS :: "u32 list" where
  "RECOVERABLE_RECEIPT_CONTRACT_VERSIONS = [23, 24]"

definition receipt_contract_version_is_supported :: "u64 \<Rightarrow> bool" where
  "receipt_contract_version_is_supported version \<longleftrightarrow>
     version = ucast CONTRACT_VERSION \<or>
     list_ex (\<lambda>prior. version = ucast prior) RECOVERABLE_RECEIPT_CONTRACT_VERSIONS"

definition ctx_bracket_for_tokens :: "u32 \<Rightarrow> string" where
  "ctx_bracket_for_tokens tokens =
     (case find (\<lambda>(max_ctx, _). tokens \<le> max_ctx) CTX_BRACKETS of
        Some (_, bracket) \<Rightarrow> bracket
      | None \<Rightarrow> CTX_BRACKET_UNBOUNDED_ID)"

record ctx_bracket_entry =
  cb_id :: string
  cb_max_ctx :: "u64 option"

record ctx_bracket_table_record =
  ct_ver :: u32
  ct_brackets :: "ctx_bracket_entry list"
  ct_submitted_at :: u64
  ct_effective_at :: u64

record ctx_bracket_schedule =
  cs_current :: ctx_bracket_table_record
  cs_pending :: "ctx_bracket_table_record option"

definition default_ctx_bracket_table_record :: ctx_bracket_table_record where
  "default_ctx_bracket_table_record =
     \<lparr>ct_ver = CTX_BRACKET_TABLE_VERSION,
      ct_brackets = map (\<lambda>(max_ctx, bid). \<lparr>cb_id = bid, cb_max_ctx = Some (ucast max_ctx)\<rparr>) CTX_BRACKETS
                    @ [\<lparr>cb_id = CTX_BRACKET_UNBOUNDED_ID, cb_max_ctx = None\<rparr>],
      ct_submitted_at = 0, ct_effective_at = 0\<rparr>"

definition default_ctx_bracket_schedule :: ctx_bracket_schedule where
  "default_ctx_bracket_schedule = \<lparr>cs_current = default_ctx_bracket_table_record, cs_pending = None\<rparr>"

definition bracket_id_byte :: "char \<Rightarrow> bool" where
  "bracket_id_byte c \<longleftrightarrow>
     (let b = (of_char c :: nat)
      in 97 \<le> b \<and> b \<le> 122 \<or> 65 \<le> b \<and> b \<le> 90 \<or> 48 \<le> b \<and> b \<le> 57 \<or> c = CHR ''_'' \<or> c = CHR ''-'')"

fun validate_brackets :: "ctx_bracket_entry list \<Rightarrow> u64 \<Rightarrow> string set \<Rightarrow> (string, unit) result" where
  "validate_brackets [] previous_max ids = Inr ()"
| "validate_brackets (entry # rest) previous_max ids =
     (if cb_id entry = [] \<or> length (cb_id entry) > 128 \<or> list_ex (\<lambda>c. \<not> bracket_id_byte c) (cb_id entry)
      then Inl (''invalid context bracket id '' @ cb_id entry)
      else if cb_id entry \<in> ids then Inl (''duplicate context bracket id '' @ cb_id entry)
      else (case (rest = [], cb_max_ctx entry) of
              (True, None) \<Rightarrow> validate_brackets rest previous_max (insert (cb_id entry) ids)
            | (True, Some _) \<Rightarrow> Inl ''last context bracket max_ctx must be null''
            | (False, None) \<Rightarrow> Inl ''only the last context bracket may have null max_ctx''
            | (False, Some max_ctx) \<Rightarrow>
                if max_ctx > previous_max then validate_brackets rest max_ctx (insert (cb_id entry) ids)
                else Inl ''context bracket max_ctx values must increase''))"

definition validate_ctx_bracket_table :: "ctx_bracket_table_record \<Rightarrow> (string, unit) result" where
  "validate_ctx_bracket_table r =
     (if ct_ver r = 0 then Inl ''context bracket table version must be positive''
      else if ct_brackets r = [] \<or> length (ct_brackets r) > 32
      then Inl ''context bracket table must contain 1..=32 entries''
      else validate_brackets (ct_brackets r) 0 {})"

definition validate_ctx_bracket_schedule :: "ctx_bracket_schedule \<Rightarrow> (string, unit) result" where
  "validate_ctx_bracket_schedule schedule =
     rbind (validate_ctx_bracket_table (cs_current schedule)) (\<lambda>_.
     case cs_pending schedule of
       None \<Rightarrow> Inr ()
     | Some pending \<Rightarrow>
         rbind (validate_ctx_bracket_table pending) (\<lambda>_.
         if ct_ver pending \<le> ct_ver (cs_current schedule)
         then Inl ''pending context bracket version must advance'' else Inr ()))"

definition ctx_bracket_table_at :: "ctx_bracket_schedule \<Rightarrow> u64 \<Rightarrow> ctx_bracket_table_record" where
  "ctx_bracket_table_at schedule at =
     (case cs_pending schedule of
        Some pending \<Rightarrow> if ct_effective_at pending \<le> at then pending else cs_current schedule
      | None \<Rightarrow> cs_current schedule)"

definition admits :: "u32 \<Rightarrow> ctx_bracket_entry \<Rightarrow> bool" where
  "admits tokens entry = (case cb_max_ctx entry of Some max_ctx \<Rightarrow> ucast tokens \<le> max_ctx | None \<Rightarrow> True)"

definition ctx_bracket_for_tokens_in_table :: "u32 \<Rightarrow> ctx_bracket_table_record \<Rightarrow> string option" where
  "ctx_bracket_for_tokens_in_table tokens table = map_option cb_id (find (admits tokens) (ct_brackets table))"

definition ctx_bracket_for_tokens_in_schedule ::
    "u32 \<Rightarrow> ctx_bracket_schedule \<Rightarrow> u64 \<Rightarrow> (string \<times> u32) option" where
  "ctx_bracket_for_tokens_in_schedule tokens schedule at =
     (let table = ctx_bracket_table_at schedule at
      in map_option (\<lambda>bracket. (bracket, ct_ver table)) (ctx_bracket_for_tokens_in_table tokens table))"

section \<open>Decimal lemmas\<close>

lemma dec_value_snoc [simp]: "dec_value (s @ [c]) = 10 * dec_value s + (of_char c - 48)"
  by (simp add: dec_value_def)

lemma dec_value_Nil [simp]: "dec_value [] = 0"
  by (simp add: dec_value_def)

lemma of_digit_char [simp]: "d < 10 \<Longrightarrow> (of_char (digit_char d) :: nat) = 48 + d"
  by (simp add: digit_char_def)

lemma digit_char_of [simp]: "is_ascii_digit c \<Longrightarrow> digit_char (of_char c - 48) = c"
  by (simp add: is_ascii_digit_def digit_char_def)

lemma show_nat_value: "dec_value (show_nat n) = n \<and> list_all is_ascii_digit (show_nat n) \<and> show_nat n \<noteq> []"
proof (induction n rule: show_nat.induct)
  case (1 n)
  show ?case
  proof (cases "n < 10")
    case True
    then have "show_nat n = [] @ [digit_char n]" by (simp add: show_nat.simps)
    then show ?thesis using True by (simp del: append.simps add: is_ascii_digit_def)
  next
    case False
    have "n mod 10 < 10" by simp
    then have "is_ascii_digit (digit_char (n mod 10))" unfolding is_ascii_digit_def by (subst (1 2) of_digit_char) auto
    moreover have "n mod 10 \<le> 9" using mod_less_divisor [of 10 n] by linarith
    ultimately show ?thesis using 1 [OF False] False by (subst (1 2 3) show_nat.simps) simp
  qed
qed

lemma show_nat_lead: "n \<noteq> 0 \<Longrightarrow> hd (show_nat n) \<noteq> CHR ''0''"
proof (induction n rule: show_nat.induct)
  case (1 n)
  show ?case
  proof (cases "n < 10")
    case True
    then have "(of_char (hd (show_nat n)) :: nat) = 48 + n" by (simp add: show_nat.simps)
    then show ?thesis using 1(2) by auto
  next
    case False
    then have "hd (show_nat n) = hd (show_nat (n div 10))"
      using show_nat_value [of "n div 10"] by (subst show_nat.simps) simp
    then show ?thesis using 1(1) [OF False] False by simp
  qed
qed

lemma dec_value_pos: "s \<noteq> [] \<Longrightarrow> list_all is_ascii_digit s \<Longrightarrow> hd s \<noteq> CHR ''0'' \<Longrightarrow> 0 < dec_value s"
proof (induction s rule: rev_induct)
  case (snoc c s)
  show ?case
  proof (cases "s = []")
    case True
    have "(of_char c :: nat) \<noteq> 48"
    proof
      assume "(of_char c :: nat) = 48"
      then have "c = char_of (48 :: nat)" by (metis char_of_char)
      also have "\<dots> = CHR ''0''" by code_simp
      finally have "c = CHR ''0''" .
      then show False using snoc.prems(3) True by simp
    qed
    then show ?thesis using snoc.prems True by (simp add: is_ascii_digit_def dec_value_def)
  next
    case False
    then show ?thesis using snoc by simp
  qed
qed simp

lemma show_dec_value:
  "s \<noteq> [] \<Longrightarrow> list_all is_ascii_digit s \<Longrightarrow> length s = 1 \<or> hd s \<noteq> CHR ''0'' \<Longrightarrow> show_nat (dec_value s) = s"
proof (induction s rule: rev_induct)
  case (snoc c s)
  have d: "of_char c - 48 < (10 :: nat)" using snoc.prems(2) by (auto simp: is_ascii_digit_def)
  show ?case
  proof (cases "s = []")
    case True
    then show ?thesis using d snoc.prems(2) by (simp add: show_nat.simps dec_value_def)
  next
    case False
    then have "hd s \<noteq> CHR ''0''" using snoc.prems(3) by simp
    moreover from this have "0 < dec_value s" using False snoc.prems(2) by (intro dec_value_pos) simp_all
    ultimately show ?thesis
      using snoc.IH False snoc.prems(2) d by (subst show_nat.simps) simp
  qed
qed simp

section \<open>Properties\<close>

text \<open>
  Money amounts have one spelling: a string is accepted as an amount exactly when it is the decimal
  rendering of a 128-bit number, and is then read as that number; so rendering and reading back is
  the identity, for present and absent amounts, and no two spellings denote the same amount.
\<close>

theorem money_roundtrip:
  "(parse_decimal_u128 s = Inr v \<longleftrightarrow> s = decimal_u128_serialize v) \<and>
   optional_decimal_u128_deserialize (optional_decimal_u128_serialize w) = Inr w"
proof
  have rt: "parse_decimal_u128 (decimal_u128_serialize v) = Inr v" for v :: u128
  proof -
    have d: "dec_value (show_nat (unat v)) = unat v" "list_all is_ascii_digit (show_nat (unat v))"
      "show_nat (unat v) \<noteq> []"
      using show_nat_value [of "unat v"] by simp_all
    have "\<not> (length (show_nat (unat v)) > 1 \<and> hd (show_nat (unat v)) = CHR ''0'')"
      using show_nat_lead [of "unat v"] by (cases "unat v = 0") (simp_all add: show_nat.simps)
    then show ?thesis
      using d unat_lt_pow [of v] by (simp add: parse_decimal_u128_def decimal_u128_serialize_def)
  qed
  show "parse_decimal_u128 s = Inr v \<longleftrightarrow> s = decimal_u128_serialize v"
  proof
    assume p: "parse_decimal_u128 s = Inr v"
    then have s: "s \<noteq> []" "\<not> (length s > 1 \<and> hd s = CHR ''0'')" "list_all is_ascii_digit s"
      "dec_value s < 2 ^ 128" "v = of_nat (dec_value s)"
      by (auto simp: parse_decimal_u128_def split: if_splits)
    then have "unat v = dec_value s" by (simp add: unat_of_nat_small)
    moreover have "show_nat (dec_value s) = s" using s(1-3) by (intro show_dec_value) (auto simp: Suc_lessI)
    ultimately show "s = decimal_u128_serialize v" by (simp add: decimal_u128_serialize_def)
  qed (simp add: rt)
  show "optional_decimal_u128_deserialize (optional_decimal_u128_serialize w) = Inr w"
    by (cases w) (simp_all add: optional_decimal_u128_deserialize_def optional_decimal_u128_serialize_def rt)
qed

lemma validate_brackets_bounds:
  "validate_brackets es p ids = Inr u \<Longrightarrow> es \<noteq> [] \<Longrightarrow>
     cb_max_ctx (last es) = None \<and>
     (\<exists>ms. map cb_max_ctx (butlast es) = map Some ms \<and> sorted_wrt (<) (p # ms))"
proof (induction es p ids rule: validate_brackets.induct)
  case (2 e rest p ids)
  show ?case
  proof (cases "rest = []")
    case True
    then show ?thesis using "2.prems" by (auto split: if_splits option.splits)
  next
    case False
    then obtain m where m: "cb_max_ctx e = Some m" "p < m"
      and v: "validate_brackets rest m (insert (cb_id e) ids) = Inr u"
      using "2.prems"(1) by (auto split: if_splits option.splits)
    have ok: "\<not> (cb_id e = [] \<or> 128 < length (cb_id e) \<or> list_ex (\<lambda>c. \<not> bracket_id_byte c) (cb_id e))"
      "cb_id e \<notin> ids"
      using "2.prems"(1) by (auto split: if_splits)
    from False m v obtain ms where
      "cb_max_ctx (last rest) = None" "map cb_max_ctx (butlast rest) = map Some ms" "sorted_wrt (<) (m # ms)"
      using "2.IH"(2) [OF ok, of False "Some m" m] by auto
    then show ?thesis using False m by (auto intro!: exI [of _ "m # ms"] dest: less_trans)
  qed
qed simp

lemma find_first:
  "i < length xs \<Longrightarrow> P (xs ! i) \<Longrightarrow> (\<And>j. j < i \<Longrightarrow> \<not> P (xs ! j)) \<Longrightarrow> find P xs = Some (xs ! i)"
proof (induction xs arbitrary: i)
  case (Cons x xs)
  show ?case
  proof (cases i)
    case (Suc k)
    have "\<not> P x" using Cons.prems(3) [of 0] Suc by simp
    moreover have "find P xs = Some (xs ! k)"
    proof (rule Cons.IH)
      show "\<And>j. j < k \<Longrightarrow> \<not> P (xs ! j)" using Cons.prems(3) Suc by force
    qed (use Cons.prems Suc in auto)
    ultimately show ?thesis using Suc by simp
  qed (use Cons.prems in simp)
qed simp

text \<open>In a validated table a prefix of the brackets is too small for the tokens and the rest admits them.\<close>

lemma table_split:
  assumes "validate_ctx_bracket_table t = Inr u"
  obtains i where "i < length (ct_brackets t)"
    "\<forall>j < i. \<exists>m. cb_max_ctx (ct_brackets t ! j) = Some m \<and> m < ucast (tokens :: u32)"
    "\<forall>j. i \<le> j \<and> j < length (ct_brackets t) \<longrightarrow> admits tokens (ct_brackets t ! j)"
proof -
  let ?bs = "ct_brackets t"
  have ne: "?bs \<noteq> []" and v: "validate_brackets ?bs 0 {} = Inr u"
    using assms by (auto simp: validate_ctx_bracket_table_def split: if_splits)
  obtain ms where last: "cb_max_ctx (last ?bs) = None" and ms: "map cb_max_ctx (butlast ?bs) = map Some ms"
    and srt: "sorted_wrt (<) (0 # ms)"
    using validate_brackets_bounds [OF v ne] by auto
  have len: "length ms = length ?bs - 1" using arg_cong [OF ms, of length] by simp
  have nth: "cb_max_ctx (?bs ! j) = Some (ms ! j)" if "j < length ms" for j
    using arg_cong [OF ms, of "\<lambda>l. l ! j"] that len by (simp add: nth_butlast)
  have sm: "sorted ms" using srt by (simp add: strict_sorted_imp_sorted)
  let ?i = "length (takeWhile (\<lambda>m. m < ucast tokens) ms)"
  have il: "?i \<le> length ms" by (rule length_takeWhile_le)
  have less: "ms ! j < ucast tokens" if "j < ?i" for j
    using nth_mem [OF that] that by (metis set_takeWhileD takeWhile_nth)
  have ge: "ucast tokens \<le> ms ! j" if "?i \<le> j" "j < length ms" for j
  proof -
    have "?i < length ms" using that by simp
    then have "\<not> ms ! ?i < ucast tokens" by (rule nth_length_takeWhile)
    then show ?thesis using sorted_nth_mono [OF sm that] by simp
  qed
  show thesis
  proof (rule that [of ?i])
    show "?i < length ?bs" using il len ne by (metis One_nat_def Suc_pred length_greater_0_conv less_Suc_eq_le)
    show "\<forall>j < ?i. \<exists>m. cb_max_ctx (?bs ! j) = Some m \<and> m < ucast tokens"
    proof (intro allI impI)
      fix j assume j: "j < ?i"
      then have "j < length ms" using il by linarith
      from nth [OF this] less [OF j] show "\<exists>m. cb_max_ctx (?bs ! j) = Some m \<and> m < ucast tokens" by blast
    qed
    show "\<forall>j. ?i \<le> j \<and> j < length ?bs \<longrightarrow> admits tokens (?bs ! j)"
    proof (intro allI impI)
      fix j assume j: "?i \<le> j \<and> j < length ?bs"
      show "admits tokens (?bs ! j)"
      proof (cases "j < length ms")
        case True
        then show ?thesis using j ge nth by (simp add: admits_def)
      next
        case False
        then have "j = length ?bs - 1" using j len by linarith
        then show ?thesis using last ne by (simp add: admits_def last_conv_nth)
      qed
    qed
  qed
qed

lemma find_default:
  "map_option cb_id (find (admits tokens)
       (map (\<lambda>(m, bid). \<lparr>cb_id = bid, cb_max_ctx = Some (ucast m)\<rparr>) ts @ [\<lparr>cb_id = dflt, cb_max_ctx = None\<rparr>])) =
     Some (case find (\<lambda>(m, _). tokens \<le> m) ts of Some (_, b) \<Rightarrow> b | None \<Rightarrow> dflt)"
proof (induction ts)
  case (Cons t ts)
  have "(ucast tokens :: u64) \<le> ucast m \<longleftrightarrow> tokens \<le> m" for m :: u32
    by (simp only: word_le_nat_alt unat_u32_u64)
  then show ?case using Cons by (cases t) (simp add: admits_def)
qed (simp add: admits_def)

text \<open>
  A validated bracket schedule answers every request, at every time, with the bracket that fits: a
  bracket of the table in force, all smaller brackets being too small for the token count and all
  later ones admitting it, together with the version of the table; and versions never go back in
  time. The built-in table validates and agrees with the built-in classification.
\<close>

theorem brackets_total:
  assumes "validate_ctx_bracket_schedule sch = Inr ()"
  shows "(\<exists>i. let t = ctx_bracket_table_at sch at in
            i < length (ct_brackets t) \<and>
            ctx_bracket_for_tokens_in_schedule tokens sch at = Some (cb_id (ct_brackets t ! i), ct_ver t) \<and>
            (\<forall>j < i. \<exists>m. cb_max_ctx (ct_brackets t ! j) = Some m \<and> m < ucast tokens) \<and>
            (\<forall>j. i \<le> j \<and> j < length (ct_brackets t) \<longrightarrow> admits tokens (ct_brackets t ! j))) \<and>
         (at \<le> at' \<longrightarrow> ct_ver (ctx_bracket_table_at sch at) \<le> ct_ver (ctx_bracket_table_at sch at')) \<and>
         validate_ctx_bracket_schedule default_ctx_bracket_schedule = Inr () \<and>
         ctx_bracket_for_tokens_in_table tokens default_ctx_bracket_table_record = Some (ctx_bracket_for_tokens tokens)"
proof (intro conjI impI)
  let ?t = "ctx_bracket_table_at sch at"
  have v: "validate_ctx_bracket_table ?t = Inr ()"
    using assms by (auto simp: validate_ctx_bracket_schedule_def ctx_bracket_table_at_def split: option.splits if_splits)
  obtain i where i: "i < length (ct_brackets ?t)"
    "\<forall>j < i. \<exists>m. cb_max_ctx (ct_brackets ?t ! j) = Some m \<and> m < ucast tokens"
    "\<forall>j. i \<le> j \<and> j < length (ct_brackets ?t) \<longrightarrow> admits tokens (ct_brackets ?t ! j)"
    by (rule table_split [OF v])
  have "find (admits tokens) (ct_brackets ?t) = Some (ct_brackets ?t ! i)"
    using i by (intro find_first) (auto simp: admits_def not_le)
  then show "\<exists>i. let t = ?t in
      i < length (ct_brackets t) \<and>
      ctx_bracket_for_tokens_in_schedule tokens sch at = Some (cb_id (ct_brackets t ! i), ct_ver t) \<and>
      (\<forall>j < i. \<exists>m. cb_max_ctx (ct_brackets t ! j) = Some m \<and> m < ucast tokens) \<and>
      (\<forall>j. i \<le> j \<and> j < length (ct_brackets t) \<longrightarrow> admits tokens (ct_brackets t ! j))"
    using i by (intro exI [of _ i])
      (simp add: Let_def ctx_bracket_for_tokens_in_schedule_def ctx_bracket_for_tokens_in_table_def)
  show "ct_ver ?t \<le> ct_ver (ctx_bracket_table_at sch at')" if "at \<le> at'"
    using assms that
    by (auto simp: validate_ctx_bracket_schedule_def ctx_bracket_table_at_def not_le split: option.splits if_splits)
  show "validate_ctx_bracket_schedule default_ctx_bracket_schedule = Inr ()"
    by code_simp
  show "ctx_bracket_for_tokens_in_table tokens default_ctx_bracket_table_record = Some (ctx_bracket_for_tokens tokens)"
    unfolding ctx_bracket_for_tokens_in_table_def ctx_bracket_for_tokens_def default_ctx_bracket_table_record_def
    by (simp add: find_default)
qed

theorem brackets_total_witness:
  "ctx_bracket_for_tokens_in_table 9000 default_ctx_bracket_table_record = Some (ctx_bracket_for_tokens 9000)"
proof -
  have "validate_ctx_bracket_schedule default_ctx_bracket_schedule = Inr ()" by code_simp
  from brackets_total [OF this] show ?thesis by blast
qed

end
