(* ===== verification/Json_Value.thy ===== *)
theory Json_Value
  imports Mayhem_Prelude
begin

text \<open>
  JSON values as the crates use them through \<open>serde_json::Value\<close>: the value type, member access and
  equality. An object is the sequence of its members with distinct keys (the crates are built with
  \<open>preserve_order\<close>), and two objects are equal when they have the same members in any order. A number
  is a value of the type parameter \<open>'n\<close>.
\<close>

datatype 'n json =
  JNull
| JBool bool
| JNumber 'n
| JString string
| JArray "'n json list"
| JObject "(string \<times> 'n json) list"

text \<open>\<open>Value::get\<close> with a string index, \<open>Value::as_str\<close>, and \<open>Value::pointer\<close> at a path of plain member names.\<close>

definition json_get :: "'n json \<Rightarrow> string \<Rightarrow> 'n json option" where
  "json_get v key = (case v of JObject kvs \<Rightarrow> map_of kvs key | _ \<Rightarrow> None)"

definition json_as_str :: "'n json \<Rightarrow> string option" where
  "json_as_str v = (case v of JString s \<Rightarrow> Some s | _ \<Rightarrow> None)"

definition json_as_array :: "'n json \<Rightarrow> 'n json list option" where
  "json_as_array v = (case v of JArray vs \<Rightarrow> Some vs | _ \<Rightarrow> None)"

primrec json_pointer :: "'n json \<Rightarrow> string list \<Rightarrow> 'n json option" where
  "json_pointer v [] = Some v"
| "json_pointer v (key # path) = (case json_get v key of None \<Rightarrow> None | Some w \<Rightarrow> json_pointer w path)"

definition json_str :: "'n json \<Rightarrow> string \<Rightarrow> string option" where
  "json_str raw key =
     (case raw of
        JObject kvs \<Rightarrow> (case map_of kvs key of Some (JString v) \<Rightarrow> Some v | _ \<Rightarrow> None)
      | _ \<Rightarrow> None)"

text \<open>\<open>PartialEq\<close> of values.\<close>

primrec json_eq :: "'n json \<Rightarrow> 'n json \<Rightarrow> bool" where
  "json_eq JNull = (\<lambda>w. w = JNull)"
| "json_eq (JBool b) = (\<lambda>w. w = JBool b)"
| "json_eq (JNumber n) = (\<lambda>w. w = JNumber n)"
| "json_eq (JString s) = (\<lambda>w. w = JString s)"
| "json_eq (JArray vs) =
     (\<lambda>w. case w of JArray ws \<Rightarrow> list_all2 (\<lambda>f x. f x) (map json_eq vs) ws | _ \<Rightarrow> False)"
| "json_eq (JObject kvs) =
     (\<lambda>w. case w of
            JObject kws \<Rightarrow>
              length kvs = length kws \<and>
              list_all (\<lambda>(k, f). case map_of kws k of None \<Rightarrow> False | Some x \<Rightarrow> f x)
                (map (map_prod id json_eq) kvs)
          | _ \<Rightarrow> False)"

definition json_opt_eq :: "'n json option \<Rightarrow> 'n json option \<Rightarrow> bool" where
  "json_opt_eq a b = (case (a, b) of (None, None) \<Rightarrow> True | (Some v, Some w) \<Rightarrow> json_eq v w | _ \<Rightarrow> False)"

text \<open>The keys of every object in a value are distinct.\<close>

primrec json_wf :: "'n json \<Rightarrow> bool" where
  "json_wf JNull = True"
| "json_wf (JBool b) = True"
| "json_wf (JNumber n) = True"
| "json_wf (JString s) = True"
| "json_wf (JArray vs) = list_all id (map json_wf vs)"
| "json_wf (JObject kvs) = (distinct (map fst kvs) \<and> list_all snd (map (map_prod id json_wf) kvs))"

text \<open>The nesting depth of a value and the numbers in it.\<close>

primrec json_depth :: "'n json \<Rightarrow> nat" where
  "json_depth JNull = 0"
| "json_depth (JBool b) = 0"
| "json_depth (JNumber n) = 0"
| "json_depth (JString s) = 0"
| "json_depth (JArray vs) = Suc (foldr max (map json_depth vs) 0)"
| "json_depth (JObject kvs) = Suc (foldr max (map snd (map (map_prod id json_depth) kvs)) 0)"

primrec json_numbers :: "'n json \<Rightarrow> 'n list" where
  "json_numbers JNull = []"
| "json_numbers (JBool b) = []"
| "json_numbers (JNumber n) = [n]"
| "json_numbers (JString s) = []"
| "json_numbers (JArray vs) = concat (map json_numbers vs)"
| "json_numbers (JObject kvs) = concat (map snd (map (map_prod id json_numbers) kvs))"

text \<open>Every string in a value is a \<open>String\<close>, so valid UTF-8.\<close>

primrec json_utf8 :: "'n json \<Rightarrow> bool" where
  "json_utf8 JNull = True"
| "json_utf8 (JBool b) = True"
| "json_utf8 (JNumber n) = True"
| "json_utf8 (JString s) = utf8 s"
| "json_utf8 (JArray vs) = list_all id (map json_utf8 vs)"
| "json_utf8 (JObject kvs) = list_all (\<lambda>(k, b). utf8 k \<and> b) (map (map_prod id json_utf8) kvs)"

lemma json_utf8_get: "json_utf8 v \<Longrightarrow> json_get v key = Some w \<Longrightarrow> json_utf8 w"
  by (cases v) (auto simp: json_get_def list_all_iff dest!: map_of_SomeD)

lemma json_utf8_str: "json_utf8 v \<Longrightarrow> json_as_str v = Some s \<Longrightarrow> utf8 s"
  by (cases v) (auto simp: json_as_str_def)

lemma json_utf8_array: "json_utf8 v \<Longrightarrow> json_as_array v = Some vs \<Longrightarrow> list_all json_utf8 vs"
  by (cases v) (auto simp: json_as_array_def list_all_iff)

lemma json_eq_refl: "json_wf v \<Longrightarrow> json_eq v v"
proof (induction v)
  case (JArray vs)
  then show ?case by (auto simp: list_all2_conv_all_nth list_all_iff)
next
  case (JObject kvs)
  have "json_eq v v" if "(k, v) \<in> set kvs" for k v
    using JObject that by (force simp: list_all_iff)
  then show ?case using JObject.prems by (auto simp: list_all_iff map_of_eq_Some_iff split: option.splits dest: eq_key_imp_eq_value)
qed simp_all

end
