(* ===== verification/Heartbeat_Receiver.thy ===== *)
theory Heartbeat_Receiver
  imports Rate_Pricing Contract_Tables F64_Ops Json_Value
begin

text \<open>
  Signed provider heartbeats (\<open>mayhem-gateway/src/lib.rs\<close>): the heartbeat and its parts, the canonical
  JSON text a provider signs, field and clock validation, the signature check, the bounded replay
  cache and the receiver that drives them. \<open>serde_json\<close>, \<open>hex\<close> and \<open>ed25519_dalek\<close> are parameters:
  \<open>jo\<close> holds the JSON operations, \<open>co\<close> the cryptographic ones, \<open>parse\<close> is \<open>serde_json::from_value\<close>
  at the heartbeat type.

  The replay cache refines a specification that remembers every nonce it ever accepted; acceptance
  is characterised field by field, and a message that is refused leaves the cache alone.
\<close>

section \<open>Data\<close>

definition HEARTBEAT_SCHEMA_VERSION :: u32 where "HEARTBEAT_SCHEMA_VERSION = 4"
definition EXECUTION_MODE_HEARTBEAT_SCHEMA_VERSION :: u32 where "EXECUTION_MODE_HEARTBEAT_SCHEMA_VERSION = 5"
definition MAX_EXECUTION_MODE_ID_BYTES :: nat where "MAX_EXECUTION_MODE_ID_BYTES = 64"
definition DEFAULT_PROVIDER_HEARTBEAT_TTL_MILLIS :: u64 where "DEFAULT_PROVIDER_HEARTBEAT_TTL_MILLIS = 60000"
definition DEFAULT_HEARTBEAT_MAX_CLOCK_SKEW_MILLIS :: u64 where "DEFAULT_HEARTBEAT_MAX_CLOCK_SKEW_MILLIS = 5000"
definition DEFAULT_HEARTBEAT_REPLAY_CACHE_CAPACITY :: nat where "DEFAULT_HEARTBEAT_REPLAY_CACHE_CAPACITY = 5000"

record execution_mode_binding =
  em_mode_id :: string
  em_policy_hash :: string

record heartbeat_workflow_class =
  wc_min_ask_au :: money_au
  wc_max_concurrent :: u32
  wc_active :: u32

record heartbeat_slots =
  hs_active :: u32
  hs_active_requests :: u32
  hs_max :: u32

record heartbeat_queue =
  hq_free_slots :: u32
  hq_engine_backlog :: u32
  hq_est_wait_ms :: u64

record 'f heartbeat_perf =
  hp_tok_s :: "'f option"
  hp_ttft_ms :: u64

record heartbeat_modality_capacity =
  mo_unit :: string
  mo_max_inflight_items :: u32
  mo_active_items :: u32
  mo_max_items_per_request :: u32
  mo_max_item_bytes :: u64
  mo_max_item_units :: u64
  mo_working_set_bytes_per_item :: u64

record heartbeat_caps =
  ca_tools :: bool
  ca_json :: bool
  ca_ctx :: u32
  ca_vision :: bool
  ca_served_modalities :: "string list"
  ca_modality_capacity :: "(string, heartbeat_modality_capacity) btree"
  ca_served_specialities :: "(string, string list) btree"

record heartbeat_attestation =
  ha_epoch :: u64
  ha_head :: string

record 'f provider_heartbeat =
  hb_prefix_caching :: "bool option"
  hb_t :: string
  hb_v :: u32
  hb_contract_version :: u32
  hb_provider :: string
  hb_enclave_id :: string
  hb_model_id :: string
  hb_room_id :: string
  hb_sat :: 'f
  hb_slots :: heartbeat_slots
  hb_q :: heartbeat_queue
  hb_perf :: "'f heartbeat_perf"
  hb_price_ver :: u64
  hb_min_ask_au :: money_au
  hb_transport_peer :: "string option"
  hb_identity_anchor :: "string option"
  hb_inventory_root :: "string option"
  hb_runtime_id :: "string option"
  hb_execution_mode :: "execution_mode_binding option"
  hb_workflow_classes :: "(string, heartbeat_workflow_class) btree"
  hb_accepting_new :: bool
  hb_caps :: heartbeat_caps
  hb_att :: heartbeat_attestation
  hb_ts :: u64
  hb_nonce :: string
  hb_sig :: string

text \<open>The heartbeat errors of \<open>GatewayError\<close>; \<open>Unreachable\<close> is the panic of \<open>unreachable!\<close>.\<close>

datatype gateway_error =
  HeartbeatJson string
| BadHeartbeatSchema u32
| ContractUpgradeRequired u32 u32
| BadHeartbeatField string string
| BadHeartbeatSignature string
| HeartbeatReplay string
| HeartbeatStaleError u64 u64
| HeartbeatFromFuture u64 u64
| Unreachable

definition word_str :: "'a::len word \<Rightarrow> string" where
  "word_str w = show_nat (unat w)"

fun gateway_error_fmt :: "gateway_error \<Rightarrow> string" where
  "gateway_error_fmt (HeartbeatJson e) = ''heartbeat JSON error: '' @ e"
| "gateway_error_fmt (BadHeartbeatSchema expected_version) =
     ''heartbeat must have t='' @ [CHR 0x22] @ ''hb'' @ [CHR 0x22] @
     '' and a supported schema/execution_mode combination (baseline v='' @ word_str expected_version @ '')''"
| "gateway_error_fmt (ContractUpgradeRequired expected actual) =
     ''contract upgrade required: expected CONTRACT_VERSION '' @ word_str expected @ '', got '' @ word_str actual"
| "gateway_error_fmt (BadHeartbeatField field reason) = ''heartbeat field '' @ field @ '' is invalid: '' @ reason"
| "gateway_error_fmt (BadHeartbeatSignature reason) = ''heartbeat signature is invalid: '' @ reason"
| "gateway_error_fmt (HeartbeatReplay nonce) = ''heartbeat nonce was already seen: '' @ nonce"
| "gateway_error_fmt (HeartbeatStaleError age_millis max_age_millis) =
     ''heartbeat is stale: age '' @ word_str age_millis @ ''ms exceeds '' @ word_str max_age_millis @ ''ms''"
| "gateway_error_fmt (HeartbeatFromFuture skew_millis max_skew_millis) =
     ''heartbeat timestamp is too far in the future: skew '' @ word_str skew_millis @ ''ms exceeds '' @
     word_str max_skew_millis @ ''ms''"
| "gateway_error_fmt Unreachable = []"

type_synonym 'a gateway_result = "(gateway_error, 'a) result"

record heartbeat_drop =
  hd_provider :: "string option"
  hd_room_id :: "string option"
  hd_nonce :: "string option"
  hd_reason :: string

record heartbeat_replay_cache =
  rc_capacity :: nat
  rc_seen :: "string set"
  rc_order :: "string list"

record heartbeat_receiver =
  re_replay_cache :: heartbeat_replay_cache
  re_drops :: "heartbeat_drop list"
  re_max_age_millis :: u64
  re_max_clock_skew_millis :: u64

record ('n, 'f) json_ops =
  jo_as_i64 :: "'n \<Rightarrow> int option"
  jo_as_u64 :: "'n \<Rightarrow> nat option"
  jo_as_f64 :: "'n \<Rightarrow> 'f option"
  jo_number_to_string :: "'n \<Rightarrow> string"
  jo_to_string :: "string \<Rightarrow> string + string"
  jo_remove :: "string \<Rightarrow> (string \<times> 'n json) list \<Rightarrow> (string \<times> 'n json) list"

record ('k, 's) crypto_ops =
  co_hex_decode :: "string \<Rightarrow> string + u8 list"
  co_key_from_bytes :: "u8 list \<Rightarrow> string + 'k"
  co_signature_from_slice :: "u8 list \<Rightarrow> string + 's"
  co_verify_strict :: "'k \<Rightarrow> string \<Rightarrow> 's \<Rightarrow> string + unit"

section \<open>The signed text\<close>

definition map_err :: "('e \<Rightarrow> 'd) \<Rightarrow> 'e + 'a \<Rightarrow> 'd + 'a" where
  "map_err f r = (case r of Inl e \<Rightarrow> Inl (f e) | Inr v \<Rightarrow> Inr v)"

definition show_int :: "int \<Rightarrow> string" where
  "show_int i = (if i < 0 then ''-'' @ show_nat (nat (- i)) else show_nat (nat i))"

definition canonical_json_number :: "'f f64_ops \<Rightarrow> ('n, 'f) json_ops \<Rightarrow> 'n \<Rightarrow> string gateway_result" where
  "canonical_json_number fl jo number =
     (case jo_as_i64 jo number of
        Some v \<Rightarrow> Inr (show_int v)
      | None \<Rightarrow> (case jo_as_u64 jo number of
          Some v \<Rightarrow> Inr (show_nat v)
        | None \<Rightarrow>
            rbind (ok_or (jo_as_f64 jo number) (HeartbeatJson ''invalid JSON number'')) (\<lambda>v.
              if \<not> f_is_finite fl v then Inl (HeartbeatJson ''non-finite JSON number'')
              else if f_eq fl (f_fract fl v) (f_zero fl) then Inr (f_fmt_0 fl v)
              else Inr (jo_number_to_string jo number))))"

fun write_items :: "bool \<Rightarrow> string gateway_result list \<Rightarrow> string gateway_result" where
  "write_items first [] = Inr []"
| "write_items first (r # rs) =
     rbind r (\<lambda>t. rbind (write_items False rs) (\<lambda>rest. Inr ((if first then [] else '','') @ t @ rest)))"

definition write_member ::
    "('n, 'f) json_ops \<Rightarrow> (string \<times> string gateway_result) list \<Rightarrow> string \<Rightarrow> string gateway_result" where
  "write_member jo members key =
     rbind (map_err HeartbeatJson (jo_to_string jo key)) (\<lambda>encoded_key.
     rbind (ok_or (map_of members key) (HeartbeatJson ''missing object key'')) (\<lambda>child.
     rbind child (\<lambda>text. Inr (encoded_key @ '':'' @ text))))"

definition write_object ::
    "('n, 'f) json_ops \<Rightarrow> (string \<times> string gateway_result) list \<Rightarrow> string gateway_result" where
  "write_object jo members =
     rbind (write_items True (map (write_member jo members) (sort (map fst members))))
       (\<lambda>body. Inr (''{'' @ body @ ''}''))"

primrec write_canonical_json ::
    "'f f64_ops \<Rightarrow> ('n, 'f) json_ops \<Rightarrow> 'n json \<Rightarrow> string gateway_result" where
  "write_canonical_json fl jo JNull = Inr ''null''"
| "write_canonical_json fl jo (JBool b) = Inr (if b then ''true'' else ''false'')"
| "write_canonical_json fl jo (JNumber number) = canonical_json_number fl jo number"
| "write_canonical_json fl jo (JString v) = map_err HeartbeatJson (jo_to_string jo v)"
| "write_canonical_json fl jo (JArray vs) =
     rbind (write_items True (map (write_canonical_json fl jo) vs)) (\<lambda>body. Inr (''['' @ body @ '']''))"
| "write_canonical_json fl jo (JObject kvs) =
     write_object jo (map (map_prod id (write_canonical_json fl jo)) kvs)"

definition canonical_json_bytes :: "'f f64_ops \<Rightarrow> ('n, 'f) json_ops \<Rightarrow> 'n json \<Rightarrow> string gateway_result" where
  "canonical_json_bytes fl jo v = write_canonical_json fl jo v"

definition heartbeat_signing_payload ::
    "'f f64_ops \<Rightarrow> ('n, 'f) json_ops \<Rightarrow> 'n json \<Rightarrow> string gateway_result" where
  "heartbeat_signing_payload fl jo raw =
     (case raw of
        JObject kvs \<Rightarrow> canonical_json_bytes fl jo (JObject (jo_remove jo ''sig'' kvs))
      | _ \<Rightarrow> Inl (HeartbeatJson ''heartbeat must be a JSON object''))"

definition hex_to_array :: "('k, 's) crypto_ops \<Rightarrow> nat \<Rightarrow> string \<Rightarrow> string + u8 list" where
  "hex_to_array co n v =
     rbind (co_hex_decode co v) (\<lambda>bytes.
       if length bytes = n then Inr bytes else Inl (''expected '' @ show_nat n @ '' bytes of hex''))"

definition verify_heartbeat_signature ::
    "'f f64_ops \<Rightarrow> ('n, 'f) json_ops \<Rightarrow> ('k, 's) crypto_ops \<Rightarrow> 'n json \<Rightarrow> string \<Rightarrow> string \<Rightarrow> unit gateway_result" where
  "verify_heartbeat_signature fl jo co raw provider signature_hex =
     (let bad_key = (\<lambda>err. BadHeartbeatSignature (''provider public key is invalid: '' @ err)) in
      rbind (map_err bad_key (hex_to_array co 32 provider)) (\<lambda>public_key_bytes.
      rbind (map_err bad_key (co_key_from_bytes co public_key_bytes)) (\<lambda>public_key.
      rbind (map_err BadHeartbeatSignature (co_hex_decode co signature_hex)) (\<lambda>signature_bytes.
      rbind (map_err BadHeartbeatSignature (co_signature_from_slice co signature_bytes)) (\<lambda>signature.
      rbind (heartbeat_signing_payload fl jo raw) (\<lambda>payload.
      map_err BadHeartbeatSignature (co_verify_strict co public_key payload signature)))))))"

section \<open>Validation\<close>

definition hb_field :: "string \<Rightarrow> string \<Rightarrow> 'a gateway_result" where
  "hb_field field reason = Inl (BadHeartbeatField field reason)"

definition validate_hex_field :: "string \<Rightarrow> string \<Rightarrow> nat \<Rightarrow> unit gateway_result" where
  "validate_hex_field field v bytes =
     (if length v = bytes * 2 \<and> list_all (\<lambda>c. is_ascii_hexdigit (byte_of c)) v then Inr ()
      else hb_field field (''must be '' @ show_nat bytes @ '' bytes of hex''))"

definition validate_identity_anchor :: "string \<Rightarrow> unit gateway_result" where
  "validate_identity_anchor v =
     (case split_once (CHR '':'') v of
        None \<Rightarrow> hb_field ''identity_anchor'' ''must be kind:32-byte-hex''
      | Some (kind, digest) \<Rightarrow>
          if kind \<notin> {''device'', ''fingerprint'', ''kyb'', ''provider''}
          then hb_field ''identity_anchor'' ''kind must be device, fingerprint, kyb, or provider''
          else validate_hex_field ''identity_anchor'' digest 32)"

definition validate_execution_mode_id :: "string \<Rightarrow> string + unit" where
  "validate_execution_mode_id v =
     (if v \<noteq> [] \<and> length v \<le> MAX_EXECUTION_MODE_ID_BYTES \<and> v \<noteq> ''baseline'' \<and>
         list_all (\<lambda>c. 0x61 \<le> byte_of c \<and> byte_of c \<le> 0x7A \<or> is_ascii_digit c \<or> c = CHR ''_'' \<or> c = CHR ''-'') v
      then Inr ()
      else Inl (''execution mode id must be a 1..='' @ show_nat MAX_EXECUTION_MODE_ID_BYTES @
                '' byte portable identifier''))"

definition validate_execution_mode_policy_hash :: "string \<Rightarrow> string + unit" where
  "validate_execution_mode_policy_hash v =
     (if length v = 64 \<and> list_all (\<lambda>c. is_ascii_digit c \<or> 0x61 \<le> byte_of c \<and> byte_of c \<le> 0x66) v
      then Inr () else Inl ''execution mode policy hash must be canonical lowercase 64-hex'')"

definition execution_mode_validate :: "execution_mode_binding \<Rightarrow> string + unit" where
  "execution_mode_validate b =
     rbind (validate_execution_mode_id (em_mode_id b)) (\<lambda>_.
       validate_execution_mode_policy_hash (em_policy_hash b))"

definition valid_heartbeat_capability_name :: "string \<Rightarrow> bool" where
  "valid_heartbeat_capability_name v \<longleftrightarrow>
     v \<noteq> [] \<and> length v \<le> 64 \<and>
     list_all (\<lambda>c. is_ascii_alphanumeric c \<or> c \<in> {CHR ''_'', CHR ''-'', CHR ''.''}) v"

definition valid_heartbeat_safe_ref :: "string \<Rightarrow> bool" where
  "valid_heartbeat_safe_ref v \<longleftrightarrow>
     v \<noteq> [] \<and> length v \<le> 128 \<and>
     list_all (\<lambda>c. is_ascii_alphanumeric c \<or> c \<in> {CHR ''_'', CHR ''-'', CHR ''.'', CHR '':''}) v"

definition opt_check :: "('a \<Rightarrow> unit gateway_result) \<Rightarrow> 'a option \<Rightarrow> unit gateway_result" where
  "opt_check f x = (case x of None \<Rightarrow> Inr () | Some v \<Rightarrow> f v)"

fun for_each :: "('a \<Rightarrow> unit gateway_result) \<Rightarrow> 'a list \<Rightarrow> unit gateway_result" where
  "for_each f [] = Inr ()"
| "for_each f (x # xs) = rbind (f x) (\<lambda>_. for_each f xs)"

definition validate_runtime_id :: "string \<Rightarrow> unit gateway_result" where
  "validate_runtime_id runtime_id =
     (if valid_heartbeat_safe_ref runtime_id then Inr ()
      else hb_field ''runtime_id'' ''must be a safe bounded runtime id'')"

definition validate_workflow_class :: "string \<times> heartbeat_workflow_class \<Rightarrow> unit gateway_result" where
  "validate_workflow_class entry =
     (case entry of (class, summary) \<Rightarrow>
        if \<not> valid_heartbeat_safe_ref class
        then hb_field ''workflow_classes'' (class @ '' must be a safe bounded class id'')
        else if wc_max_concurrent summary = 0
        then hb_field ''workflow_classes'' (class @ '' must have a positive capacity'')
        else if wc_active summary > wc_max_concurrent summary
        then hb_field ''workflow_classes'' (class @ '' active count exceeds capacity'')
        else Inr ())"

text \<open>The loop over the served modalities returns the set of those it has seen.\<close>

fun validate_modalities :: "string list \<Rightarrow> string set \<Rightarrow> string set gateway_result" where
  "validate_modalities [] modalities = Inr modalities"
| "validate_modalities (modality # rest) modalities =
     (if modality \<notin> {''text'', ''embedding'', ''image'', ''video'', ''audio''}
      then hb_field ''caps.served_modalities'' (''contains unsupported modality '' @ modality)
      else if modality \<in> modalities
      then hb_field ''caps.served_modalities'' (''contains duplicate modality '' @ modality)
      else validate_modalities rest (insert modality modalities))"

definition expected_unit :: "string \<Rightarrow> string option" where
  "expected_unit modality =
     (if modality = ''image'' then Some ''pixel''
      else if modality = ''audio'' then Some ''second''
      else if modality = ''video'' then Some ''frame''
      else if modality = ''embedding'' then Some ''input_token''
      else None)"

definition validate_capacity ::
    "(string, heartbeat_modality_capacity) btree \<Rightarrow> string \<Rightarrow> unit gateway_result" where
  "validate_capacity capacities modality =
     (case bt_get capacities modality of
        None \<Rightarrow> hb_field ''caps.modality_capacity'' (''missing served modality '' @ modality)
      | Some capacity \<Rightarrow>
          (case expected_unit modality of
             None \<Rightarrow> Inl Unreachable
           | Some unit \<Rightarrow>
               if mo_unit capacity \<noteq> unit \<or> mo_max_inflight_items capacity = 0 \<or>
                  mo_active_items capacity > mo_max_inflight_items capacity \<or>
                  mo_max_items_per_request capacity = 0 \<or>
                  mo_max_items_per_request capacity > mo_max_inflight_items capacity \<or>
                  mo_max_item_bytes capacity = 0 \<or> mo_max_item_units capacity = 0 \<or>
                  mo_working_set_bytes_per_item capacity = 0
               then hb_field ''caps.modality_capacity''
                      (modality @ '' must advertise unit '' @ unit @
                       '', positive measured limits, active <= in-flight, and per-request <= in-flight'')
               else Inr ()))"

definition validate_capacity_key :: "string set \<Rightarrow> string \<Rightarrow> unit gateway_result" where
  "validate_capacity_key modalities modality =
     (if modality = ''text'' \<or> modality \<notin> modalities
      then hb_field ''caps.modality_capacity'' (''contains unserved or text modality '' @ modality)
      else Inr ())"

text \<open>\<open>levels.iter().any(..)\<close> with the set of levels met so far.\<close>

fun bad_level :: "string list \<Rightarrow> string set \<Rightarrow> bool" where
  "bad_level [] unique = False"
| "bad_level (level # rest) unique =
     (\<not> valid_heartbeat_capability_name level \<or> level \<in> unique \<or> bad_level rest (insert level unique))"

definition validate_speciality :: "string \<times> string list \<Rightarrow> unit gateway_result" where
  "validate_speciality entry =
     (case entry of (name, levels) \<Rightarrow>
        if \<not> valid_heartbeat_capability_name name \<or> levels = [] \<or> length levels > 16
        then hb_field ''caps.served_specialities''
               (name @ '' must have a safe name and contain 1..=16 served levels'')
        else if bad_level levels {}
        then hb_field ''caps.served_specialities'' (name @ '' contains an invalid or duplicate served level'')
        else Inr ())"

definition reject_if :: "bool \<Rightarrow> string \<Rightarrow> string \<Rightarrow> unit gateway_result" where
  "reject_if b field reason = (if b then hb_field field reason else Inr ())"

definition validate_identity_fields :: "'f provider_heartbeat \<Rightarrow> unit gateway_result" where
  "validate_identity_fields h =
     rbind (validate_hex_field ''provider'' (hb_provider h) 32) (\<lambda>_.
     rbind (validate_hex_field ''enclave_id'' (hb_enclave_id h) 32) (\<lambda>_.
     rbind (validate_hex_field ''room_id'' (hb_room_id h) 16) (\<lambda>_.
     rbind (opt_check (\<lambda>v. validate_hex_field ''transport_peer'' v 32) (hb_transport_peer h)) (\<lambda>_.
     rbind (opt_check validate_identity_anchor (hb_identity_anchor h)) (\<lambda>_.
     rbind (opt_check (\<lambda>v. validate_hex_field ''inventory_root'' v 32) (hb_inventory_root h)) (\<lambda>_.
     rbind (opt_check validate_runtime_id (hb_runtime_id h)) (\<lambda>_.
     rbind (reject_if (length (hb_workflow_classes h) > 32) ''workflow_classes'' ''must contain at most 32 classes'') (\<lambda>_.
     rbind (for_each validate_workflow_class (hb_workflow_classes h)) (\<lambda>_.
     rbind (validate_hex_field ''att.head'' (ha_head (hb_att h)) 32) (\<lambda>_.
     rbind (validate_hex_field ''nonce'' (hb_nonce h) 32) (\<lambda>_.
     rbind (validate_hex_field ''sig'' (hb_sig h) 64) (\<lambda>_.
     reject_if (str_is_blank (hb_model_id h)) ''model_id'' ''must not be empty''))))))))))))"

definition validate_load_fields :: "'f f64_ops \<Rightarrow> 'f provider_heartbeat \<Rightarrow> unit gateway_result" where
  "validate_load_fields fl h =
     rbind (reject_if (\<not> (f_le fl (f_zero fl) (hb_sat h) \<and> f_le fl (hb_sat h) (f_one fl)) \<or> \<not> f_is_finite fl (hb_sat h))
              ''sat'' ''must be finite and in [0, 1]'') (\<lambda>_.
     rbind (reject_if (hs_max (hb_slots h) = 0) ''slots.max'' ''must be greater than zero'') (\<lambda>_.
     rbind (reject_if (hs_active (hb_slots h) > hs_max (hb_slots h)) ''slots.active'' ''must not exceed slots.max'') (\<lambda>_.
     rbind (reject_if (hs_active_requests (hb_slots h) > hs_active (hb_slots h))
              ''slots.active_requests'' ''must not exceed slots.active'') (\<lambda>_.
     rbind (reject_if (hq_free_slots (hb_q h) > hs_max (hb_slots h)) ''q.free_slots'' ''must not exceed slots.max'') (\<lambda>_.
     reject_if (ca_ctx (hb_caps h) = 0) ''caps.ctx'' ''must be greater than zero'')))))"

definition validate_caps_fields :: "heartbeat_caps \<Rightarrow> unit gateway_result" where
  "validate_caps_fields caps =
     rbind (reject_if (ca_served_modalities caps = [] \<or> length (ca_served_modalities caps) > 8)
              ''caps.served_modalities'' ''must contain 1..=8 entries'') (\<lambda>_.
     rbind (validate_modalities (ca_served_modalities caps) {}) (\<lambda>modalities.
     rbind (for_each (validate_capacity (ca_modality_capacity caps))
              (filter (\<lambda>modality. modality \<noteq> ''text'') (ca_served_modalities caps))) (\<lambda>_.
     rbind (for_each (validate_capacity_key modalities) (map fst (ca_modality_capacity caps))) (\<lambda>_.
     rbind (reject_if (length (ca_served_specialities caps) > 16)
              ''caps.served_specialities'' ''must contain at most 16 specialities'') (\<lambda>_.
     for_each validate_speciality (ca_served_specialities caps))))))"

definition validate_heartbeat_fields :: "'f f64_ops \<Rightarrow> 'f provider_heartbeat \<Rightarrow> unit gateway_result" where
  "validate_heartbeat_fields fl h =
     rbind (validate_identity_fields h) (\<lambda>_.
     rbind (validate_load_fields fl h) (\<lambda>_.
     rbind (validate_caps_fields (hb_caps h)) (\<lambda>_.
     reject_if (case hp_tok_s (hb_perf h) of None \<Rightarrow> False
                | Some tok_s \<Rightarrow> \<not> f_is_finite fl tok_s \<or> f_lt fl tok_s (f_zero fl))
       ''perf.tok_s'' ''must be finite and non-negative'')))"

definition validate_heartbeat_time :: "u64 \<Rightarrow> u64 \<Rightarrow> u64 \<Rightarrow> u64 \<Rightarrow> unit gateway_result" where
  "validate_heartbeat_time ts now_millis max_age_millis max_clock_skew_millis =
     (if ts > now_millis
      then (let skew_millis = ts - now_millis
            in if skew_millis > max_clock_skew_millis
               then Inl (HeartbeatFromFuture skew_millis max_clock_skew_millis) else Inr ())
      else (let age_millis = now_millis - ts
            in if age_millis > max_age_millis
               then Inl (HeartbeatStaleError age_millis max_age_millis) else Inr ()))"

section \<open>Replay cache and receiver\<close>

definition replay_cache_new :: "nat \<Rightarrow> heartbeat_replay_cache" where
  "replay_cache_new capacity = \<lparr>rc_capacity = max capacity 1, rc_seen = {}, rc_order = []\<rparr>"

definition replay_cache_default :: heartbeat_replay_cache where
  "replay_cache_default = replay_cache_new DEFAULT_HEARTBEAT_REPLAY_CACHE_CAPACITY"

text \<open>The eviction loop: pop the oldest nonce while the queue is longer than the capacity.\<close>

fun evict :: "nat \<Rightarrow> string list \<Rightarrow> string set \<Rightarrow> string list \<times> string set" where
  "evict capacity [] seen = ([], seen)"
| "evict capacity (oldest # order) seen =
     (if length (oldest # order) > capacity then evict capacity order (seen - {oldest})
      else (oldest # order, seen))"

definition remember :: "string \<Rightarrow> heartbeat_replay_cache \<Rightarrow> bool \<times> heartbeat_replay_cache" where
  "remember nonce c =
     (if nonce \<in> rc_seen c then (False, c)
      else (let (order, seen) = evict (rc_capacity c) (rc_order c @ [nonce]) (insert nonce (rc_seen c))
            in (True, c\<lparr>rc_order := order, rc_seen := seen\<rparr>)))"

definition receiver_with_limits :: "u64 \<Rightarrow> u64 \<Rightarrow> heartbeat_receiver" where
  "receiver_with_limits max_age_millis max_clock_skew_millis =
     \<lparr>re_replay_cache = replay_cache_default, re_drops = [], re_max_age_millis = max_age_millis,
      re_max_clock_skew_millis = max_clock_skew_millis\<rparr>"

definition receiver_new :: heartbeat_receiver where
  "receiver_new = receiver_with_limits DEFAULT_PROVIDER_HEARTBEAT_TTL_MILLIS DEFAULT_HEARTBEAT_MAX_CLOCK_SKEW_MILLIS"

definition validate_schema :: "'f provider_heartbeat \<Rightarrow> unit gateway_result" where
  "validate_schema h =
     (if hb_t h \<noteq> ''hb'' then Inl (BadHeartbeatSchema HEARTBEAT_SCHEMA_VERSION)
      else rbind
        (case hb_execution_mode h of
           None \<Rightarrow> (if hb_v h = HEARTBEAT_SCHEMA_VERSION then Inr ()
                    else Inl (BadHeartbeatSchema HEARTBEAT_SCHEMA_VERSION))
         | Some binding \<Rightarrow>
             (if hb_v h = EXECUTION_MODE_HEARTBEAT_SCHEMA_VERSION
              then map_err (BadHeartbeatField ''execution_mode'') (execution_mode_validate binding)
              else Inl (BadHeartbeatSchema HEARTBEAT_SCHEMA_VERSION))) (\<lambda>_.
        if hb_contract_version h \<noteq> CONTRACT_VERSION
        then Inl (ContractUpgradeRequired CONTRACT_VERSION (hb_contract_version h)) else Inr ()))"

definition heartbeat_checks ::
    "'f f64_ops \<Rightarrow> ('n, 'f) json_ops \<Rightarrow> ('k, 's) crypto_ops \<Rightarrow> ('n json \<Rightarrow> string + 'f provider_heartbeat) \<Rightarrow>
     'n json \<Rightarrow> u64 \<Rightarrow> u64 \<Rightarrow> u64 \<Rightarrow> 'f provider_heartbeat gateway_result" where
  "heartbeat_checks fl jo co parse raw now_millis max_age_millis max_clock_skew_millis =
     rbind (map_err HeartbeatJson (parse raw)) (\<lambda>h.
     rbind (validate_schema h) (\<lambda>_.
     rbind (validate_heartbeat_fields fl h) (\<lambda>_.
     rbind (validate_heartbeat_time (hb_ts h) now_millis max_age_millis max_clock_skew_millis) (\<lambda>_.
     rbind (verify_heartbeat_signature fl jo co raw (hb_provider h) (hb_sig h)) (\<lambda>_. Inr h)))))"

definition validate_provider_heartbeat ::
    "'f f64_ops \<Rightarrow> ('n, 'f) json_ops \<Rightarrow> ('k, 's) crypto_ops \<Rightarrow> ('n json \<Rightarrow> string + 'f provider_heartbeat) \<Rightarrow>
     'n json \<Rightarrow> u64 \<Rightarrow> u64 \<Rightarrow> u64 \<Rightarrow> heartbeat_replay_cache \<Rightarrow>
     'f provider_heartbeat gateway_result \<times> heartbeat_replay_cache" where
  "validate_provider_heartbeat fl jo co parse raw now_millis max_age_millis max_clock_skew_millis cache =
     (case heartbeat_checks fl jo co parse raw now_millis max_age_millis max_clock_skew_millis of
        Inl err \<Rightarrow> (Inl err, cache)
      | Inr h \<Rightarrow>
          (let (fresh, cache) = remember (hb_nonce h) cache
           in if fresh then (Inr h, cache) else (Inl (HeartbeatReplay (hb_nonce h)), cache)))"

definition receive ::
    "'f f64_ops \<Rightarrow> ('n, 'f) json_ops \<Rightarrow> ('k, 's) crypto_ops \<Rightarrow> ('n json \<Rightarrow> string + 'f provider_heartbeat) \<Rightarrow>
     'n json \<Rightarrow> u64 \<Rightarrow> heartbeat_receiver \<Rightarrow> 'f provider_heartbeat option \<times> heartbeat_receiver" where
  "receive fl jo co parse raw now_millis r =
     (case validate_provider_heartbeat fl jo co parse raw now_millis (re_max_age_millis r)
             (re_max_clock_skew_millis r) (re_replay_cache r) of
        (Inr h, cache) \<Rightarrow> (Some h, r\<lparr>re_replay_cache := cache\<rparr>)
      | (Inl err, cache) \<Rightarrow>
          (None, r\<lparr>re_replay_cache := cache,
                   re_drops := re_drops r @
                     [\<lparr>hd_provider = json_str raw ''provider'', hd_room_id = json_str raw ''room_id'',
                       hd_nonce = json_str raw ''nonce'', hd_reason = gateway_error_fmt err\<rparr>]\<rparr>))"

section \<open>The replay cache against its specification\<close>

text \<open>
  The specification keeps the history of every accepted nonce and refuses a nonce that is among the
  last \<open>cap\<close> of them.
\<close>

definition recent :: "nat \<Rightarrow> 'a list \<Rightarrow> 'a list" where
  "recent cap h = drop (length h - cap) h"

definition spec_remember :: "nat \<Rightarrow> string \<Rightarrow> string list \<Rightarrow> bool \<times> string list" where
  "spec_remember cap nonce h = (if nonce \<in> set (recent cap h) then (False, h) else (True, h @ [nonce]))"

definition cache_rel :: "nat \<Rightarrow> heartbeat_replay_cache \<Rightarrow> string list \<Rightarrow> bool" where
  "cache_rel cap c h \<longleftrightarrow>
     rc_capacity c = cap \<and> 0 < cap \<and> rc_order c = recent cap h \<and> rc_seen c = set (recent cap h) \<and> distinct (recent cap h)"

lemma length_recent: "length (recent cap h) \<le> cap"
  by (simp add: recent_def)

lemma evict_recent: "distinct order \<Longrightarrow> evict cap order (set order) = (recent cap order, set (recent cap order))"
proof (induction order)
  case (Cons x order)
  then have "insert x (set order) - {x} = set order" by auto
  with Cons show ?case by (auto simp: recent_def Suc_diff_le not_less not_le)
qed (simp add: recent_def)

lemma recent_snoc: "recent cap (recent cap h @ [x]) = recent cap (h @ [x])"
  by (cases "cap \<le> length h") (simp_all add: recent_def Suc_diff_le)

lemma recent_distinct_snoc:
  assumes "distinct (recent cap h)" "x \<notin> set (recent cap h)"
  shows "distinct (recent cap (h @ [x]))"
proof -
  have "distinct (recent cap h @ [x])" using assms by simp
  then have "distinct (recent cap (recent cap h @ [x]))" unfolding recent_def [of cap "recent cap h @ [x]"]
    by (rule distinct_drop)
  then show ?thesis by (simp only: recent_snoc)
qed

lemma remember_sim:
  assumes "cache_rel cap c h"
  shows "fst (remember n c) = fst (spec_remember cap n h) \<and> cache_rel cap (snd (remember n c)) (snd (spec_remember cap n h))"
proof (cases "n \<in> set (recent cap h)")
  case True
  then show ?thesis using assms unfolding cache_rel_def remember_def spec_remember_def by auto
next
  case False
  have d: "distinct (recent cap h @ [n])" using assms False by (simp add: cache_rel_def)
  have "insert n (set (recent cap h)) = set (recent cap h @ [n])" by simp
  then have "evict cap (recent cap h @ [n]) (insert n (set (recent cap h))) =
      (recent cap (h @ [n]), set (recent cap (h @ [n])))"
    by (simp only: evict_recent [OF d] recent_snoc)
  then show ?thesis using assms False recent_distinct_snoc [of cap h n]
    by (simp add: cache_rel_def remember_def spec_remember_def)
qed

interpretation replay: simulation remember "spec_remember cap" "cache_rel cap" for cap
  by unfold_locales (rule remember_sim)

lemma cache_rel_new: "cache_rel (max cap 1) (replay_cache_new cap) []"
  by (simp add: cache_rel_def replay_cache_new_def recent_def)

text \<open>
  C34. The replay cache answers every sequence of nonces like the specification that refuses a nonce
  exactly when it is among the last \<open>max capacity 1\<close> accepted ones; what it stores are those last
  nonces, without repetition, in the order of their arrival.
\<close>

theorem replay_cache_refines:
  "fst (run_outputs remember nonces (replay_cache_new cap)) =
     fst (run_outputs (spec_remember (max cap 1)) nonces []) \<and>
   rc_order (snd (run_outputs remember nonces (replay_cache_new cap))) =
     recent (max cap 1) (snd (run_outputs (spec_remember (max cap 1)) nonces [])) \<and>
   rc_seen (snd (run_outputs remember nonces (replay_cache_new cap))) =
     set (rc_order (snd (run_outputs remember nonces (replay_cache_new cap)))) \<and>
   distinct (rc_order (snd (run_outputs remember nonces (replay_cache_new cap)))) \<and>
   length (rc_order (snd (run_outputs remember nonces (replay_cache_new cap)))) \<le> max cap 1"
  using replay.run_sim [OF cache_rel_new [of cap], where ?is = nonces] length_recent [of "max cap 1"]
  by (simp add: cache_rel_def)

section \<open>Well-formed heartbeats\<close>

text \<open>What the field validation demands, as a predicate over the finished heartbeat.\<close>

definition hex_of :: "nat \<Rightarrow> string \<Rightarrow> bool" where
  "hex_of n v \<longleftrightarrow> length v = 2 * n \<and> (\<forall>c \<in> set v. is_ascii_hexdigit (byte_of c))"

definition anchor_wf :: "string \<Rightarrow> bool" where
  "anchor_wf v \<longleftrightarrow> (\<exists>kind \<in> {''device'', ''fingerprint'', ''kyb'', ''provider''}. \<exists>digest.
     v = kind @ CHR '':'' # digest \<and> hex_of 32 digest)"

definition identity_wf :: "'f provider_heartbeat \<Rightarrow> bool" where
  "identity_wf h \<longleftrightarrow>
     hex_of 32 (hb_provider h) \<and> hex_of 32 (hb_enclave_id h) \<and> hex_of 16 (hb_room_id h) \<and>
     (\<forall>v. hb_transport_peer h = Some v \<longrightarrow> hex_of 32 v) \<and>
     (\<forall>v. hb_identity_anchor h = Some v \<longrightarrow> anchor_wf v) \<and>
     (\<forall>v. hb_inventory_root h = Some v \<longrightarrow> hex_of 32 v) \<and>
     (\<forall>v. hb_runtime_id h = Some v \<longrightarrow> valid_heartbeat_safe_ref v) \<and>
     length (hb_workflow_classes h) \<le> 32 \<and>
     (\<forall>(class, s) \<in> set (hb_workflow_classes h).
        valid_heartbeat_safe_ref class \<and> 0 < wc_max_concurrent s \<and> wc_active s \<le> wc_max_concurrent s) \<and>
     hex_of 32 (ha_head (hb_att h)) \<and> hex_of 32 (hb_nonce h) \<and> hex_of 64 (hb_sig h) \<and>
     \<not> str_is_blank (hb_model_id h)"

definition load_wf :: "'f f64_ops \<Rightarrow> 'f provider_heartbeat \<Rightarrow> bool" where
  "load_wf fl h \<longleftrightarrow>
     f_le fl (f_zero fl) (hb_sat h) \<and> f_le fl (hb_sat h) (f_one fl) \<and> f_is_finite fl (hb_sat h) \<and>
     0 < hs_max (hb_slots h) \<and> hs_active_requests (hb_slots h) \<le> hs_active (hb_slots h) \<and>
     hs_active (hb_slots h) \<le> hs_max (hb_slots h) \<and> hq_free_slots (hb_q h) \<le> hs_max (hb_slots h) \<and>
     0 < ca_ctx (hb_caps h)"

definition capacity_wf :: "string \<Rightarrow> heartbeat_modality_capacity \<Rightarrow> bool" where
  "capacity_wf modality c \<longleftrightarrow>
     expected_unit modality = Some (mo_unit c) \<and> mo_active_items c \<le> mo_max_inflight_items c \<and>
     0 < mo_max_items_per_request c \<and> mo_max_items_per_request c \<le> mo_max_inflight_items c \<and>
     0 < mo_max_item_bytes c \<and> 0 < mo_max_item_units c \<and> 0 < mo_working_set_bytes_per_item c"

definition caps_wf :: "heartbeat_caps \<Rightarrow> bool" where
  "caps_wf caps \<longleftrightarrow>
     0 < length (ca_served_modalities caps) \<and> length (ca_served_modalities caps) \<le> 8 \<and>
     distinct (ca_served_modalities caps) \<and>
     set (ca_served_modalities caps) \<subseteq> {''text'', ''embedding'', ''image'', ''video'', ''audio''} \<and>
     fst ` set (ca_modality_capacity caps) = set (ca_served_modalities caps) - {''text''} \<and>
     (\<forall>m c. bt_get (ca_modality_capacity caps) m = Some c \<longrightarrow> capacity_wf m c) \<and>
     length (ca_served_specialities caps) \<le> 16 \<and>
     (\<forall>(name, levels) \<in> set (ca_served_specialities caps).
        valid_heartbeat_capability_name name \<and> 0 < length levels \<and> length levels \<le> 16 \<and> distinct levels \<and>
        (\<forall>level \<in> set levels. valid_heartbeat_capability_name level))"

definition heartbeat_wf :: "'f f64_ops \<Rightarrow> 'f provider_heartbeat \<Rightarrow> bool" where
  "heartbeat_wf fl h \<longleftrightarrow>
     identity_wf h \<and> load_wf fl h \<and> caps_wf (hb_caps h) \<and>
     (\<forall>t. hp_tok_s (hb_perf h) = Some t \<longrightarrow> f_is_finite fl t \<and> \<not> f_lt fl t (f_zero fl))"

lemma for_each_Inr [simp]: "for_each f xs = Inr u \<longleftrightarrow> (\<forall>x \<in> set xs. f x = Inr ())"
  by (induction xs) auto

lemma for_each_Inl: "for_each f xs = Inl e \<Longrightarrow> \<exists>x \<in> set xs. f x = Inl e"
  by (induction xs) (auto simp: rbind_Inl_iff)

lemma reject_if_Inr [simp]: "reject_if b field reason = Inr u \<longleftrightarrow> \<not> b"
  by (simp add: reject_if_def hb_field_def)

lemma hb_field_not_Inr [simp]: "hb_field field reason \<noteq> Inr u"
  by (simp add: hb_field_def)

lemma opt_check_Inr [simp]: "opt_check f x = Inr u \<longleftrightarrow> (\<forall>v. x = Some v \<longrightarrow> f v = Inr ())"
  by (auto simp: opt_check_def split: option.splits)

lemma split_once_Some: "split_once sep s = Some (l, r) \<longleftrightarrow> s = l @ sep # r \<and> sep \<notin> set l"
proof (induction s arbitrary: l)
  case (Cons c s)
  then show ?case by (cases l) auto
qed simp

lemma validate_hex_field_Inr [simp]: "validate_hex_field field v n = Inr u \<longleftrightarrow> hex_of n v"
  by (simp add: validate_hex_field_def hex_of_def list_all_iff mult.commute)

lemma validate_identity_anchor_Inr [simp]: "validate_identity_anchor v = Inr u \<longleftrightarrow> anchor_wf v"
proof -
  have "CHR '':'' \<notin> set kind" if "kind \<in> {''device'', ''fingerprint'', ''kyb'', ''provider''}" for kind
    using that by auto
  then have "anchor_wf v \<longleftrightarrow> (\<exists>kind digest. split_once (CHR '':'') v = Some (kind, digest) \<and>
      kind \<in> {''device'', ''fingerprint'', ''kyb'', ''provider''} \<and> hex_of 32 digest)"
    unfolding anchor_wf_def split_once_Some by blast
  then show ?thesis
    by (cases "split_once (CHR '':'') v")
      (simp_all add: validate_identity_anchor_def split_beta del: insert_iff split: if_split, auto)
qed

lemma validate_runtime_id_Inr [simp]: "validate_runtime_id v = Inr u \<longleftrightarrow> valid_heartbeat_safe_ref v"
  by (simp add: validate_runtime_id_def)

lemma validate_workflow_class_Inr [simp]:
  "validate_workflow_class e = Inr u \<longleftrightarrow>
     (case e of (class, s) \<Rightarrow> valid_heartbeat_safe_ref class \<and> 0 < wc_max_concurrent s \<and> wc_active s \<le> wc_max_concurrent s)"
  by (auto simp: validate_workflow_class_def not_less word_gt_0 split: prod.splits)

lemma validate_modalities_Inr:
  "validate_modalities ms seen = Inr served \<longleftrightarrow>
     set ms \<subseteq> {''text'', ''embedding'', ''image'', ''video'', ''audio''} \<and> distinct ms \<and> set ms \<inter> seen = {} \<and>
     served = seen \<union> set ms"
proof (induction ms arbitrary: seen)
  case (Cons m ms)
  show ?case
    by (simp only: validate_modalities.simps Cons.IH hb_field_not_Inr split: if_split) auto
qed auto

lemma bad_level_iff: "bad_level ls seen \<longleftrightarrow>
    \<not> ((\<forall>l \<in> set ls. valid_heartbeat_capability_name l) \<and> distinct ls \<and> set ls \<inter> seen = {})"
  by (induction ls arbitrary: seen) auto

lemma validate_speciality_Inr [simp]:
  "validate_speciality e = Inr u \<longleftrightarrow>
     (case e of (name, levels) \<Rightarrow> valid_heartbeat_capability_name name \<and> 0 < length levels \<and> length levels \<le> 16 \<and>
        distinct levels \<and> (\<forall>level \<in> set levels. valid_heartbeat_capability_name level))"
  by (auto simp: validate_speciality_def bad_level_iff split: prod.splits)

lemma capacity_checks:
  assumes "set served \<subseteq> {''text'', ''embedding'', ''image'', ''video'', ''audio''}"
  shows "(\<forall>m \<in> set (filter (\<lambda>m. m \<noteq> ''text'') served). validate_capacity caps m = Inr ()) \<and>
      (\<forall>m \<in> set (map fst caps). validate_capacity_key (set served) m = Inr ()) \<longleftrightarrow>
    fst ` set caps = set served - {''text''} \<and> (\<forall>m c. bt_get caps m = Some c \<longrightarrow> capacity_wf m c)"
proof -
  have one: "validate_capacity caps m = Inr () \<longleftrightarrow> (\<exists>c. bt_get caps m = Some c \<and> capacity_wf m c)" for m
    by (cases "bt_get caps m"; cases "expected_unit m")
      (auto simp: validate_capacity_def capacity_wf_def not_less word_gt_0)
  have key: "validate_capacity_key (set served) m = Inr () \<longleftrightarrow> m \<in> set served - {''text''}" for m
    by (simp add: validate_capacity_key_def)
  have dom: "m \<in> fst ` set caps \<longleftrightarrow> (\<exists>c. bt_get caps m = Some c)" for m
    using bt_get_None_iff [of caps m] by auto
  have filt: "m \<in> set (filter (\<lambda>m. m \<noteq> ''text'') served) \<longleftrightarrow> m \<in> set served - {''text''}" for m by auto
  show ?thesis
  proof (intro iffI conjI)
    assume L: "(\<forall>m \<in> set (filter (\<lambda>m. m \<noteq> ''text'') served). validate_capacity caps m = Inr ()) \<and>
      (\<forall>m \<in> set (map fst caps). validate_capacity_key (set served) m = Inr ())"
    have into: "m \<in> set served - {''text''}" if "m \<in> fst ` set caps" for m
      using conjunct2 [OF L] that unfolding key set_map by (rule bspec)
    have covered: "\<exists>c. bt_get caps m = Some c \<and> capacity_wf m c" if "m \<in> set served - {''text''}" for m
      using bspec [OF conjunct1 [OF L], of m] that unfolding one filt by blast
    show "fst ` set caps = set served - {''text''}"
      using into covered dom by blast
    show "\<forall>m c. bt_get caps m = Some c \<longrightarrow> capacity_wf m c"
    proof (intro allI impI)
      fix m c
      assume "bt_get caps m = Some c"
      then show "capacity_wf m c" using covered [OF into, of m] dom [of m] by auto
    qed
  next
    assume R: "fst ` set caps = set served - {''text''} \<and> (\<forall>m c. bt_get caps m = Some c \<longrightarrow> capacity_wf m c)"
    then show "\<forall>m \<in> set (filter (\<lambda>m. m \<noteq> ''text'') served). validate_capacity caps m = Inr ()"
      using dom unfolding one key filt Ball_def by metis
    from R show "\<forall>m \<in> set (map fst caps). validate_capacity_key (set served) m = Inr ()"
      unfolding key by simp
  qed
qed

lemma validate_capacity_reachable:
  assumes "m \<in> {''text'', ''embedding'', ''image'', ''video'', ''audio''}" "m \<noteq> ''text''"
  shows "validate_capacity caps m \<noteq> Inl Unreachable"
proof -
  have "expected_unit m \<noteq> None" using assms by (auto simp: expected_unit_def)
  then show ?thesis
    by (auto simp: validate_capacity_def hb_field_def split: option.splits if_splits)
qed

lemma validate_caps_fields_Inr: "validate_caps_fields caps = Inr u \<longleftrightarrow> caps_wf caps"
proof (cases "set (ca_served_modalities caps) \<subseteq> {''text'', ''embedding'', ''image'', ''video'', ''audio''}")
  case True
  have "validate_caps_fields caps = Inr u \<longleftrightarrow>
      0 < length (ca_served_modalities caps) \<and> length (ca_served_modalities caps) \<le> 8 \<and>
      distinct (ca_served_modalities caps) \<and>
      ((\<forall>m \<in> set (filter (\<lambda>m. m \<noteq> ''text'') (ca_served_modalities caps)).
          validate_capacity (ca_modality_capacity caps) m = Inr ()) \<and>
       (\<forall>m \<in> set (map fst (ca_modality_capacity caps)).
          validate_capacity_key (set (ca_served_modalities caps)) m = Inr ())) \<and>
      length (ca_served_specialities caps) \<le> 16 \<and>
      (\<forall>e \<in> set (ca_served_specialities caps). validate_speciality e = Inr ())"
    unfolding validate_caps_fields_def using True
    by (simp only: rbind_Inr_iff reject_if_Inr for_each_Inr validate_modalities_Inr) auto
  also have "\<dots> \<longleftrightarrow> caps_wf caps"
    unfolding capacity_checks [OF True] caps_wf_def using True
    by (simp only: validate_speciality_Inr) (simp only: conj_assoc simp_thms)
  finally show ?thesis .
next
  case False
  then show ?thesis
    unfolding validate_caps_fields_def caps_wf_def by (simp only: rbind_Inr_iff validate_modalities_Inr) blast
qed

lemma validate_identity_fields_Inr: "validate_identity_fields h = Inr u \<longleftrightarrow> identity_wf h"
  unfolding validate_identity_fields_def identity_wf_def
  by (simp only: rbind_Inr_iff reject_if_Inr for_each_Inr opt_check_Inr validate_hex_field_Inr
      validate_identity_anchor_Inr validate_runtime_id_Inr validate_workflow_class_Inr not_less) auto

lemma validate_load_fields_Inr: "validate_load_fields fl h = Inr u \<longleftrightarrow> load_wf fl h"
  unfolding validate_load_fields_def load_wf_def
  by (simp only: rbind_Inr_iff reject_if_Inr not_less word_gt_0) auto

lemma validate_heartbeat_fields_Inr: "validate_heartbeat_fields fl h = Inr u \<longleftrightarrow> heartbeat_wf fl h"
  unfolding validate_heartbeat_fields_def heartbeat_wf_def
  by (simp only: rbind_Inr_iff reject_if_Inr validate_identity_fields_Inr validate_load_fields_Inr
      validate_caps_fields_Inr) (auto split: option.splits)

text \<open>No field check reaches the \<open>unreachable!\<close> arm: the served modalities were checked before.\<close>

lemmas field_check_defs =
  reject_if_def hb_field_def opt_check_def validate_hex_field_def validate_identity_anchor_def
  validate_runtime_id_def validate_workflow_class_def validate_speciality_def validate_capacity_key_def

lemma field_checks_reachable [simp]:
  "reject_if b f r \<noteq> Inl Unreachable" "validate_hex_field f v n \<noteq> Inl Unreachable"
  "validate_identity_anchor v \<noteq> Inl Unreachable" "validate_runtime_id v \<noteq> Inl Unreachable"
  "validate_workflow_class e \<noteq> Inl Unreachable" "validate_speciality e' \<noteq> Inl Unreachable"
  "validate_capacity_key s v \<noteq> Inl Unreachable"
  by (auto simp: field_check_defs split: option.splits prod.splits if_splits)

lemma validate_modalities_reachable [simp]: "validate_modalities ms seen \<noteq> Inl Unreachable"
  by (induction ms arbitrary: seen) (simp_all add: hb_field_def del: insert_iff)

lemma opt_check_reachable [simp]: "(\<And>v. f v \<noteq> Inl Unreachable) \<Longrightarrow> opt_check f x \<noteq> Inl Unreachable"
  by (simp add: opt_check_def split: option.splits)

lemma for_each_reachable [simp]: "(\<And>x. x \<in> set xs \<Longrightarrow> f x \<noteq> Inl Unreachable) \<Longrightarrow> for_each f xs \<noteq> Inl Unreachable"
  using for_each_Inl [of f xs Unreachable] by blast

lemma validate_caps_reachable: "validate_caps_fields caps \<noteq> Inl Unreachable"
proof -
  have "for_each (validate_capacity (ca_modality_capacity caps))
      (filter (\<lambda>m. m \<noteq> ''text'') (ca_served_modalities caps)) \<noteq> Inl Unreachable"
    if "validate_modalities (ca_served_modalities caps) {} = Inr s" for s
    using that unfolding validate_modalities_Inr
    by (intro for_each_reachable validate_capacity_reachable) auto
  then show ?thesis unfolding validate_caps_fields_def by (simp add: rbind_Inl_iff) blast
qed

text \<open>
  The field validation accepts exactly the well-formed heartbeats: hexadecimal identities,
  bounded and distinct modalities, a positive measured capacity for exactly the served modalities
  other than text, loads within their limits. It never reaches the panic in the unit table.
\<close>

lemma heartbeat_fields_exact:
  "(validate_heartbeat_fields fl h = Inr () \<longleftrightarrow> heartbeat_wf fl h) \<and>
   validate_heartbeat_fields fl h \<noteq> Inl Unreachable"
proof
  show "validate_heartbeat_fields fl h = Inr () \<longleftrightarrow> heartbeat_wf fl h"
    by (rule validate_heartbeat_fields_Inr)
  have "validate_identity_fields h \<noteq> Inl Unreachable" "validate_load_fields fl h \<noteq> Inl Unreachable"
    by (simp_all add: validate_identity_fields_def validate_load_fields_def rbind_Inl_iff)
  then show "validate_heartbeat_fields fl h \<noteq> Inl Unreachable"
    by (simp add: validate_heartbeat_fields_def rbind_Inl_iff validate_caps_reachable)
qed

section \<open>Acceptance\<close>

definition schema_wf :: "'f provider_heartbeat \<Rightarrow> bool" where
  "schema_wf h \<longleftrightarrow>
     hb_t h = ''hb'' \<and> hb_contract_version h = 25 \<and>
     (case hb_execution_mode h of
        None \<Rightarrow> hb_v h = 4
      | Some b \<Rightarrow> hb_v h = 5 \<and> execution_mode_validate b = Inr ())"

text \<open>The provider's key, read from the heartbeat's own \<open>provider\<close> field, verifies the canonical text.\<close>

definition signed_by :: "'f f64_ops \<Rightarrow> ('n, 'f) json_ops \<Rightarrow> ('k, 's) crypto_ops \<Rightarrow> 'n json \<Rightarrow> string \<Rightarrow> string \<Rightarrow> bool" where
  "signed_by fl jo co raw provider signature_hex \<longleftrightarrow>
     (\<exists>kb key sb signature payload.
        co_hex_decode co provider = Inr kb \<and> length kb = 32 \<and> co_key_from_bytes co kb = Inr key \<and>
        co_hex_decode co signature_hex = Inr sb \<and> co_signature_from_slice co sb = Inr signature \<and>
        heartbeat_signing_payload fl jo raw = Inr payload \<and> co_verify_strict co key payload signature = Inr ())"

lemma map_err_Inr [simp]: "map_err f r = Inr v \<longleftrightarrow> r = Inr v"
  by (cases r) (simp_all add: map_err_def)

lemma validate_schema_Inr: "validate_schema h = Inr u \<longleftrightarrow> schema_wf h"
  by (cases "hb_execution_mode h")
    (auto simp: validate_schema_def schema_wf_def HEARTBEAT_SCHEMA_VERSION_def
      EXECUTION_MODE_HEARTBEAT_SCHEMA_VERSION_def CONTRACT_VERSION_def)

lemma validate_heartbeat_time_Inr:
  "validate_heartbeat_time ts now age skew = Inr u \<longleftrightarrow>
     unat ts \<le> unat now + unat skew \<and> unat now \<le> unat ts + unat age"
  by (auto simp: validate_heartbeat_time_def Let_def word_less_nat_alt unat_sub_if' not_less)

lemma verify_heartbeat_signature_Inr:
  "verify_heartbeat_signature fl jo co raw provider sg = Inr u \<longleftrightarrow> signed_by fl jo co raw provider sg"
proof -
  have "hex_to_array co n v = Inr b \<longleftrightarrow> co_hex_decode co v = Inr b \<and> length b = n" for n v b
    by (auto simp: hex_to_array_def)
  then show ?thesis
    unfolding verify_heartbeat_signature_def signed_by_def by (simp add: Let_def)
qed

lemma heartbeat_checks_Inr:
  "heartbeat_checks fl jo co parse raw now age skew = Inr h \<longleftrightarrow>
     parse raw = Inr h \<and> schema_wf h \<and> heartbeat_wf fl h \<and> unat (hb_ts h) \<le> unat now + unat skew \<and>
     unat now \<le> unat (hb_ts h) + unat age \<and> signed_by fl jo co raw (hb_provider h) (hb_sig h)"
  unfolding heartbeat_checks_def
  by (simp add: validate_schema_Inr validate_heartbeat_fields_Inr validate_heartbeat_time_Inr
      verify_heartbeat_signature_Inr)

lemma receive_cases:
  "receive fl jo co parse raw now r =
     (case heartbeat_checks fl jo co parse raw now (re_max_age_millis r) (re_max_clock_skew_millis r) of
        Inl err \<Rightarrow> (None, r\<lparr>re_drops := re_drops r @ [\<lparr>hd_provider = json_str raw ''provider'',
          hd_room_id = json_str raw ''room_id'', hd_nonce = json_str raw ''nonce'', hd_reason = gateway_error_fmt err\<rparr>]\<rparr>)
      | Inr h \<Rightarrow>
          if hb_nonce h \<in> rc_seen (re_replay_cache r)
          then (None, r\<lparr>re_drops := re_drops r @ [\<lparr>hd_provider = json_str raw ''provider'',
            hd_room_id = json_str raw ''room_id'', hd_nonce = json_str raw ''nonce'',
            hd_reason = gateway_error_fmt (HeartbeatReplay (hb_nonce h))\<rparr>]\<rparr>)
          else (Some h, r\<lparr>re_replay_cache := snd (remember (hb_nonce h) (re_replay_cache r))\<rparr>))"
  by (simp add: receive_def validate_provider_heartbeat_def remember_def split_beta split: sum.split)

text \<open>
  C4. The receiver returns a heartbeat exactly when the message parses to it, its schema and
  contract version are the supported ones, it is well formed, its timestamp lies between the maximal
  age behind and the maximal skew ahead of the clock, the key named by its provider field verifies
  its canonical text, and its nonce is not remembered. A message that is not returned only adds to
  the drop log: it cannot take a place in the replay cache.
\<close>

theorem receive_exact:
  "(fst (receive fl jo co parse raw now r) = Some h \<longleftrightarrow>
      parse raw = Inr h \<and> schema_wf h \<and> heartbeat_wf fl h \<and>
      unat (hb_ts h) \<le> unat now + unat (re_max_clock_skew_millis r) \<and>
      unat now \<le> unat (hb_ts h) + unat (re_max_age_millis r) \<and>
      signed_by fl jo co raw (hb_provider h) (hb_sig h) \<and>
      hb_nonce h \<notin> rc_seen (re_replay_cache r)) \<and>
   (\<exists>d. snd (receive fl jo co parse raw now r) =
     (case fst (receive fl jo co parse raw now r) of
        None \<Rightarrow> r\<lparr>re_drops := re_drops r @ [d]\<rparr>
      | Some h \<Rightarrow> r\<lparr>re_replay_cache := snd (remember (hb_nonce h) (re_replay_cache r))\<rparr>))"
proof (cases "heartbeat_checks fl jo co parse raw now (re_max_age_millis r) (re_max_clock_skew_millis r)")
  case (Inl e)
  then show ?thesis
    using heartbeat_checks_Inr [of fl jo co parse raw now "re_max_age_millis r" "re_max_clock_skew_millis r" h]
    by (auto simp: receive_cases)
next
  case (Inr g)
  then show ?thesis
    using heartbeat_checks_Inr [of fl jo co parse raw now "re_max_age_millis r" "re_max_clock_skew_millis r" h]
    by (cases "hb_nonce g \<in> rc_seen (re_replay_cache r)") (auto simp: receive_cases)
qed

section \<open>The signed text does not depend on the order of members\<close>

text \<open>Two JSON values that differ only in the order of object members, at any depth.\<close>

inductive same_json :: "'n json \<Rightarrow> 'n json \<Rightarrow> bool" where
  same_refl: "same_json v v"
| same_array: "list_all2 same_json vs ws \<Longrightarrow> same_json (JArray vs) (JArray ws)"
| same_object: "distinct (map fst kvs) \<Longrightarrow> mset kvs = mset lvs \<Longrightarrow> list_all2 (rel_prod (=) same_json) lvs mvs \<Longrightarrow>
    same_json (JObject kvs) (JObject mvs)"

lemma write_object_mset:
  assumes "distinct (map fst ms)" "mset ms = mset ns"
  shows "write_object jo ms = write_object jo ns"
proof -
  have keys: "sort (map fst ms) = sort (map fst ns)"
    by (rule properties_for_sort) (simp_all add: mset_map assms(2))
  have "distinct (map fst ns)"
    using assms by (metis mset_eq_imp_distinct_iff mset_map)
  with assms have "map_of ms = map_of ns"
    using map_of_eqI [of ms ns] by (metis map_of_inject_set set_mset_mset)
  then have "write_member jo ms = write_member jo ns" by (simp add: fun_eq_iff write_member_def)
  with keys show ?thesis by (simp add: write_object_def)
qed

lemma write_same: "same_json v w \<Longrightarrow> write_canonical_json fl jo v = write_canonical_json fl jo w"
proof (induction rule: same_json.induct)
  case (same_array vs ws)
  then have "map (write_canonical_json fl jo) vs = map (write_canonical_json fl jo) ws"
    by (auto simp: list_all2_conv_all_nth list_eq_iff_nth_eq)
  then show ?case by simp
next
  case (same_object kvs lvs mvs)
  let ?w = "map (map_prod id (write_canonical_json fl jo))"
  have "?w lvs = ?w mvs"
    using same_object(3) by (auto simp: list_all2_conv_all_nth list_eq_iff_nth_eq rel_prod_sel map_prod_def split_beta)
  moreover have "write_object jo (?w kvs) = write_object jo (?w lvs)"
  proof (rule write_object_mset)
    show "distinct (map fst (?w kvs))" using same_object(1) by (simp add: comp_def)
    show "mset (?w kvs) = mset (?w lvs)" using same_object(2) by (simp add: mset_map)
  qed
  ultimately show ?case by simp
qed simp

lemma same_permuted:
  assumes "distinct (map fst kvs)" "mset kvs = mset mvs"
  shows "same_json (JObject kvs) (JObject mvs)"
proof (rule same_object [OF assms])
  show "list_all2 (rel_prod (=) same_json) mvs mvs"
    by (rule list.rel_refl) (auto simp: rel_prod_sel intro: same_refl)
qed

definition removes_member :: "('n, 'f) json_ops \<Rightarrow> bool" where
  "removes_member jo \<longleftrightarrow> (\<forall>key kvs. distinct (map fst kvs) \<longrightarrow>
     mset (jo_remove jo key kvs) = mset (filter (\<lambda>m. fst m \<noteq> key) kvs))"

lemma payload_filter:
  assumes "removes_member jo" "distinct (map fst kvs)"
  shows "heartbeat_signing_payload fl jo (JObject kvs) =
    write_canonical_json fl jo (JObject (filter (\<lambda>m. fst m \<noteq> ''sig'') kvs))"
proof -
  let ?u = "filter (\<lambda>m. fst m \<noteq> ''sig'') kvs"
  have "mset ?u = mset (jo_remove jo ''sig'' kvs)" using assms unfolding removes_member_def by metis
  moreover have "distinct (map fst ?u)" using assms(2) by (rule distinct_map_filter)
  ultimately have "same_json (JObject ?u) (JObject (jo_remove jo ''sig'' kvs))" by (intro same_permuted)
  from write_same [OF this, of fl jo] show ?thesis
    by (simp add: heartbeat_signing_payload_def canonical_json_bytes_def)
qed

text \<open>
  The text a provider signs is canonical: two messages whose members other than \<open>sig\<close> agree up to
  the order of object members, at any depth, have the same signing payload, whatever their signature
  members hold and wherever they stand. The one fact used of \<open>serde_json\<close> is that removing a key
  deletes that member and keeps the others in some order.
\<close>

lemma signing_payload_canonical:
  assumes "removes_member jo" "distinct (map fst kvs)" "distinct (map fst mvs)"
    and "same_json (JObject (filter (\<lambda>m. fst m \<noteq> ''sig'') kvs)) (JObject (filter (\<lambda>m. fst m \<noteq> ''sig'') mvs))"
  shows "heartbeat_signing_payload fl jo (JObject kvs) = heartbeat_signing_payload fl jo (JObject mvs)"
  unfolding payload_filter [OF assms(1,2)] payload_filter [OF assms(1,3)] by (rule write_same [OF assms(4)])

definition plain_json :: "(nat, nat) json_ops" where
  "plain_json = \<lparr>jo_as_i64 = (\<lambda>n. Some (int n)), jo_as_u64 = (\<lambda>n. Some n), jo_as_f64 = (\<lambda>n. Some (n * 10000)),
     jo_number_to_string = show_nat, jo_to_string = (\<lambda>s. Inr ([CHR 0x22] @ s @ [CHR 0x22])),
     jo_remove = (\<lambda>key kvs. filter (\<lambda>m. fst m \<noteq> key) kvs)\<rparr>"

lemma signing_payload_canonical_witness:
  "heartbeat_signing_payload fixed_ops plain_json
     (JObject [(''ts'', JNumber 7), (''sig'', JString ''aa''), (''provider'', JString ''p'')]) =
   heartbeat_signing_payload fixed_ops plain_json
     (JObject [(''sig'', JNull), (''provider'', JString ''p''), (''ts'', JNumber 7)])"
proof (rule signing_payload_canonical)
  show "removes_member plain_json" by (simp add: removes_member_def plain_json_def)
  show "same_json
      (JObject (filter (\<lambda>m. fst m \<noteq> ''sig'')
        [(''ts'', JNumber 7), (''sig'', JString ''aa''), (''provider'', JString ''p'')]))
      (JObject (filter (\<lambda>m. fst m \<noteq> ''sig'')
        [(''sig'', JNull), (''provider'', JString ''p''), (''ts'', JNumber (7 :: nat))]))"
    by (rule same_permuted) simp_all
qed simp_all

end
