(* ===== verification/Attestation_Types.thy ===== *)
theory Attestation_Types
  imports Mayhem_Prelude "HOL-Library.Product_Lexorder" "HOL-Library.Option_ord"
begin

text \<open>
  The attestation records of \<open>mayhem-proto/src/lib.rs\<close>: quote kinds, verifier profiles and measurement
  layers with their derived order, the administrator's policy, the trust data it pins, and the exact
  approvals of enclaves. A \<open>BTreeSet\<close> is a list in ascending order.
\<close>

section \<open>Enumerations\<close>

datatype hardware_quote_kind =
  AppleAppAttestJwt | AmdSevSnpVcek | IntelTdxDcap | NvidiaGb10DeviceJwt | NvidiaNrasJwt
| NvidiaNvtrustOfflineJwt | Tpm2QuoteEk

datatype attestation_verifier_profile =
  AppleAppAttestNativeV1 | AmdSevSnpVcekV1 | IntelTdxDcapV1 | NvidiaGb10DeviceV1 | NvidiaNrasCompositeV1
| NvidiaNvtrustOfflineCompositeV1 | Tpm2EkActivateCredentialV1

datatype attestation_measurement_layer = Cpu | Gpu | Workload

datatype attestation_trust_data_kind = TrustAnchor | VerificationKey | Revocation | Measurement

definition all_quote_kinds :: "hardware_quote_kind list" where
  "all_quote_kinds =
     [AppleAppAttestJwt, AmdSevSnpVcek, IntelTdxDcap, NvidiaGb10DeviceJwt, NvidiaNrasJwt,
      NvidiaNvtrustOfflineJwt, Tpm2QuoteEk]"

lemma mem_all_quote_kinds [simp]: "kind \<in> set all_quote_kinds"
  by (cases kind) (simp_all add: all_quote_kinds_def)

definition TIER2_DEVICE_IDENTITY_TIER :: u8 where "TIER2_DEVICE_IDENTITY_TIER = 2"
definition TIER3_CONFIDENTIAL_COMPUTE_TIER :: u8 where "TIER3_CONFIDENTIAL_COMPUTE_TIER = 3"

definition quote_kind_tier :: "hardware_quote_kind \<Rightarrow> u8" where
  "quote_kind_tier kind =
     (case kind of
        AppleAppAttestJwt \<Rightarrow> TIER2_DEVICE_IDENTITY_TIER
      | NvidiaGb10DeviceJwt \<Rightarrow> TIER2_DEVICE_IDENTITY_TIER
      | Tpm2QuoteEk \<Rightarrow> TIER2_DEVICE_IDENTITY_TIER
      | AmdSevSnpVcek \<Rightarrow> TIER3_CONFIDENTIAL_COMPUTE_TIER
      | IntelTdxDcap \<Rightarrow> TIER3_CONFIDENTIAL_COMPUTE_TIER
      | NvidiaNrasJwt \<Rightarrow> TIER3_CONFIDENTIAL_COMPUTE_TIER
      | NvidiaNvtrustOfflineJwt \<Rightarrow> TIER3_CONFIDENTIAL_COMPUTE_TIER)"

fun kind_as_str :: "hardware_quote_kind \<Rightarrow> string" where
  "kind_as_str AppleAppAttestJwt = ''apple_app_attest_jwt''"
| "kind_as_str AmdSevSnpVcek = ''amd_sev_snp_vcek''"
| "kind_as_str IntelTdxDcap = ''intel_tdx_dcap''"
| "kind_as_str NvidiaGb10DeviceJwt = ''nvidia_gb10_device_jwt''"
| "kind_as_str NvidiaNrasJwt = ''nvidia_nras_jwt''"
| "kind_as_str NvidiaNvtrustOfflineJwt = ''nvidia_nvtrust_offline_jwt''"
| "kind_as_str Tpm2QuoteEk = ''tpm2_quote_ek''"

lemma kind_as_str_inj [simp]: "kind_as_str a = kind_as_str b \<longleftrightarrow> a = b"
  by (cases a; cases b) simp_all

fun profile_quote_kind :: "attestation_verifier_profile \<Rightarrow> hardware_quote_kind" where
  "profile_quote_kind AppleAppAttestNativeV1 = AppleAppAttestJwt"
| "profile_quote_kind AmdSevSnpVcekV1 = AmdSevSnpVcek"
| "profile_quote_kind IntelTdxDcapV1 = IntelTdxDcap"
| "profile_quote_kind NvidiaGb10DeviceV1 = NvidiaGb10DeviceJwt"
| "profile_quote_kind NvidiaNrasCompositeV1 = NvidiaNrasJwt"
| "profile_quote_kind NvidiaNvtrustOfflineCompositeV1 = NvidiaNvtrustOfflineJwt"
| "profile_quote_kind Tpm2EkActivateCredentialV1 = Tpm2QuoteEk"

section \<open>Derived order\<close>

text \<open>A derived \<open>Ord\<close> compares variants by their position in the declaration.\<close>

fun kind_rank :: "hardware_quote_kind \<Rightarrow> nat" where
  "kind_rank AppleAppAttestJwt = 0" | "kind_rank AmdSevSnpVcek = 1" | "kind_rank IntelTdxDcap = 2"
| "kind_rank NvidiaGb10DeviceJwt = 3" | "kind_rank NvidiaNrasJwt = 4"
| "kind_rank NvidiaNvtrustOfflineJwt = 5" | "kind_rank Tpm2QuoteEk = 6"

lemma kind_rank_inj: "kind_rank a = kind_rank b \<Longrightarrow> a = b"
  by (cases a; cases b) simp_all

fun profile_rank :: "attestation_verifier_profile \<Rightarrow> nat" where
  "profile_rank p = kind_rank (profile_quote_kind p)"

lemma profile_rank_inj: "profile_rank a = profile_rank b \<Longrightarrow> a = b"
  by (cases a; cases b) simp_all

fun layer_rank :: "attestation_measurement_layer \<Rightarrow> nat" where
  "layer_rank Cpu = 0" | "layer_rank Gpu = 1" | "layer_rank Workload = 2"

lemma layer_rank_inj: "layer_rank a = layer_rank b \<Longrightarrow> a = b"
  by (cases a; cases b) simp_all

instantiation hardware_quote_kind :: linorder
begin

definition less_eq_hardware_quote_kind :: "hardware_quote_kind \<Rightarrow> hardware_quote_kind \<Rightarrow> bool" where
  "less_eq_hardware_quote_kind a b \<longleftrightarrow> kind_rank a \<le> kind_rank b"

definition less_hardware_quote_kind :: "hardware_quote_kind \<Rightarrow> hardware_quote_kind \<Rightarrow> bool" where
  "less_hardware_quote_kind a b \<longleftrightarrow> kind_rank a < kind_rank b"

instance
  by standard (auto simp: less_eq_hardware_quote_kind_def less_hardware_quote_kind_def dest: kind_rank_inj)

end

instantiation attestation_verifier_profile :: linorder
begin

definition less_eq_attestation_verifier_profile :: "attestation_verifier_profile \<Rightarrow> attestation_verifier_profile \<Rightarrow> bool" where
  "less_eq_attestation_verifier_profile a b \<longleftrightarrow> profile_rank a \<le> profile_rank b"

definition less_attestation_verifier_profile :: "attestation_verifier_profile \<Rightarrow> attestation_verifier_profile \<Rightarrow> bool" where
  "less_attestation_verifier_profile a b \<longleftrightarrow> profile_rank a < profile_rank b"

instance
  by standard
    (auto simp: less_eq_attestation_verifier_profile_def less_attestation_verifier_profile_def
       simp del: profile_rank.simps dest: profile_rank_inj)

end

instantiation attestation_measurement_layer :: linorder
begin

definition less_eq_attestation_measurement_layer :: "attestation_measurement_layer \<Rightarrow> attestation_measurement_layer \<Rightarrow> bool" where
  "less_eq_attestation_measurement_layer a b \<longleftrightarrow> layer_rank a \<le> layer_rank b"

definition less_attestation_measurement_layer :: "attestation_measurement_layer \<Rightarrow> attestation_measurement_layer \<Rightarrow> bool" where
  "less_attestation_measurement_layer a b \<longleftrightarrow> layer_rank a < layer_rank b"

instance
  by standard
    (auto simp: less_eq_attestation_measurement_layer_def less_attestation_measurement_layer_def dest: layer_rank_inj)

end

section \<open>Policy records\<close>

record attestation_origin_pin =
  pin_id :: string
  pin_https_origin :: string

record attestation_trust_data_source =
  tsrc_origin_pin :: string
  tsrc_path :: string

record attestation_trust_data_ref =
  td_id :: string
  td_kind :: attestation_trust_data_kind
  td_sha256 :: string
  td_media_type :: string
  td_max_bytes :: u64
  td_valid_from_epoch :: "u64 option"
  td_valid_until_epoch :: "u64 option"
  td_source :: "attestation_trust_data_source option"

record attestation_quote_kind_policy =
  qk_kind :: hardware_quote_kind
  qk_enabled :: bool
  qk_verifier_profile :: attestation_verifier_profile
  qk_evidence_schema_version :: u32
  qk_required_trust_data :: "string list"
  qk_measurement_trust_data :: "string list"
  qk_platforms :: "string list"
  qk_required_measurement_layers :: "attestation_measurement_layer list"

record admin_attestation_policy =
  pol_schema_version :: u32
  pol_sequence :: u64
  pol_previous_policy_digest :: "string option"
  pol_issued_epoch :: u64
  pol_effective_epoch :: u64
  pol_expires_epoch :: "u64 option"
  pol_min_verifier_version :: u32
  pol_emergency_disabled_quote_kinds :: "hardware_quote_kind list"
  pol_origin_pins :: "attestation_origin_pin list"
  pol_trust_data :: "attestation_trust_data_ref list"
  pol_quote_kinds :: "attestation_quote_kind_policy list"

record admin_enclave_attestation_binding =
  eb_enclave_id :: string
  eb_kind :: hardware_quote_kind
  eb_platform :: "string option"
  eb_measurement_trust_data :: "(attestation_measurement_layer, string) btree"

record hardware_quote_route_advertisement =
  ra_kind :: hardware_quote_kind
  ra_declared_platform :: "string option"

record hardware_quote_route_policy_binding =
  rb_enclave_id :: string
  rb_device_id :: string
  rb_kind :: hardware_quote_kind
  rb_evidence_schema_version :: u32
  rb_policy_sequence :: u64
  rb_policy_digest :: string
  rb_platform :: "string option"

type_synonym binding_key = "string \<times> hardware_quote_kind \<times> string option"

definition binding_key_of :: "admin_enclave_attestation_binding \<Rightarrow> binding_key" where
  "binding_key_of b = (eb_enclave_id b, eb_kind b, eb_platform b)"

definition ATTESTATION_POLICY_SCHEMA_VERSION :: u32 where "ATTESTATION_POLICY_SCHEMA_VERSION = 1"
definition ATTESTATION_EVIDENCE_BINDING_VERSION :: u32 where "ATTESTATION_EVIDENCE_BINDING_VERSION = 1"

text \<open>A lowercase hexadecimal digest of 32 bytes, as the crate checks it in each of its files.\<close>

definition is_lower_hex :: "char \<Rightarrow> bool" where
  "is_lower_hex c \<longleftrightarrow> is_ascii_digit c \<or> 0x61 \<le> byte_of c \<and> byte_of c \<le> 0x66"

definition valid_sha256 :: "string \<Rightarrow> bool" where
  "valid_sha256 value \<longleftrightarrow> length value = 64 \<and> list_all is_lower_hex value"

section \<open>Collecting entries under unique keys\<close>

text \<open>
  The shape of the validation loops: every entry is checked, then inserted into an ordered map, and a
  second entry with the same key is an error.
\<close>

fun collect_unique ::
  "('a \<Rightarrow> 'k::linorder) \<Rightarrow> ('a \<Rightarrow> 'e + unit) \<Rightarrow> ('a \<Rightarrow> 'e) \<Rightarrow> 'a list \<Rightarrow> ('k, 'a) btree \<Rightarrow> 'e + ('k, 'a) btree" where
  "collect_unique key check dup [] m = Inr m"
| "collect_unique key check dup (x # xs) m =
     rbind (check x) (\<lambda>_.
       if bt_get m (key x) \<noteq> None then Inl (dup x)
       else collect_unique key check dup xs (bt_insert (key x) x m))"

definition keyed :: "('a \<Rightarrow> 'k::linorder) \<Rightarrow> 'a list \<Rightarrow> ('k, 'a) btree \<Rightarrow> ('k, 'a) btree" where
  "keyed key xs m = fold (\<lambda>x. bt_insert (key x) x) xs m"

lemma collect_unique_Inr_iff:
  "collect_unique key check dup xs m = Inr m' \<longleftrightarrow>
     (\<forall>x \<in> set xs. check x = Inr ()) \<and> distinct (map key xs) \<and> (\<forall>x \<in> set xs. bt_get m (key x) = None) \<and>
     m' = keyed key xs m"
proof (induction xs arbitrary: m)
  case (Cons x xs)
  show ?case
  proof (cases "check x = Inr () \<and> bt_get m (key x) = None")
    case True
    have "(\<forall>y \<in> set xs. bt_get (bt_insert (key x) x m) (key y) = None) \<longleftrightarrow>
        (\<forall>y \<in> set xs. bt_get m (key y) = None) \<and> key x \<notin> key ` set xs"
      by (auto simp: btree_simps split: if_splits) (metis image_eqI option.distinct(1))
    then show ?thesis using Cons [of "bt_insert (key x) x m"] True by (auto simp: keyed_def)
  qed auto
qed (auto simp: keyed_def)

lemma collect_unique_Inl:
  "collect_unique key check dup xs m = Inl e \<Longrightarrow> \<exists>x \<in> set xs. check x = Inl e \<or> dup x = e"
proof (induction xs arbitrary: m)
  case (Cons x xs)
  then show ?case by (simp add: rbind_Inl_iff split: if_splits) blast+
qed simp

lemma keyed_wf: "bt_wf m \<Longrightarrow> bt_wf (keyed key xs m)"
  unfolding keyed_def by (induction xs arbitrary: m) auto

lemma keyed_get:
  "distinct (map key xs) \<Longrightarrow> bt_get (keyed key xs m) k = (case find (\<lambda>x. key x = k) xs of Some x \<Rightarrow> Some x | None \<Rightarrow> bt_get m k)"
proof (induction xs arbitrary: m)
  case (Cons x xs)
  have "find (\<lambda>y. key y = key x) xs = None" using Cons.prems by (auto simp: find_None_iff image_iff)
  then show ?case using Cons by (auto simp: keyed_def btree_simps split: option.split)
qed (simp add: keyed_def)

lemma keyed_get_iff:
  "distinct (map key xs) \<Longrightarrow> bt_get (keyed key xs []) k = Some x \<longleftrightarrow> x \<in> set xs \<and> key x = k"
proof -
  assume d: "distinct (map key xs)"
  then have "find (\<lambda>x. key x = k) xs = Some x \<longleftrightarrow> x \<in> set xs \<and> key x = k"
    by (induction xs) (auto simp: rev_image_eqI)
  then show ?thesis using keyed_get [OF d, of "[]" k] by (auto split: option.splits)
qed

lemma keyed_get_None: "distinct (map key xs) \<Longrightarrow> bt_get (keyed key xs []) k = None \<longleftrightarrow> k \<notin> key ` set xs"
proof -
  assume "distinct (map key xs)"
  note iff = keyed_get_iff [OF this, of k]
  show ?thesis
  proof (cases "bt_get (keyed key xs []) k")
    case None
    then show ?thesis using iff by (auto simp: image_iff)
  next
    case (Some x)
    then show ?thesis using iff [of x] by auto
  qed
qed

lemma keyed_values: "distinct (map key xs) \<Longrightarrow> snd ` set (keyed key xs []) = set xs"
proof -
  assume d: "distinct (map key xs)"
  have wf: "bt_wf (keyed key xs [])" by (simp add: keyed_wf)
  show ?thesis
  proof (rule set_eqI)
    fix x
    have "x \<in> snd ` set (keyed key xs []) \<longleftrightarrow> (\<exists>k. bt_get (keyed key xs []) k = Some x)"
      by (force simp: bt_get_Some_iff [OF wf])
    then show "x \<in> snd ` set (keyed key xs []) \<longleftrightarrow> x \<in> set xs" by (simp add: keyed_get_iff [OF d])
  qed
qed

lemma keyed_perm:
  assumes "distinct (map key xs)" "set xs = set ys" "distinct (map key ys)"
  shows "keyed key xs [] = keyed key ys []"
proof (rule bt_ext)
  fix k show "bt_get (keyed key xs []) k = bt_get (keyed key ys []) k"
    using keyed_get_iff [OF assms(1), of k] keyed_get_iff [OF assms(3), of k] assms(2)
    by (metis not_None_eq)
qed (simp_all add: keyed_wf)

end
