(* ===== verification/Provider_Table.thy ===== *)
theory Provider_Table
  imports Heartbeat_Receiver Provider_Key Attestation_Types
begin

text \<open>
  The gateway's table of providers (\<open>mayhem-gateway/src/provider_table.rs\<close>): contract snapshots, the
  last heartbeat of each route, what the gateway observed of it (latency, throughput, errors, the
  circuit breaker, capacity refusals), and the cached attestation heads. Routes are keyed by
  \<open>ProviderKey\<close>; the operations of \<open>f64\<close> are the record \<open>fl\<close>.

  Shown here: no operation makes a heartbeat timestamp or an attestation epoch go back, the circuit
  breaker opens on three failures in a row and closes on a success, and a capacity mismatch is
  reported once per streak of refusals under distinct heartbeats.
\<close>

section \<open>Data\<close>

definition DEFAULT_ATTESTATION_HEAD_MAX_AGE_MILLIS :: u64 where
  "DEFAULT_ATTESTATION_HEAD_MAX_AGE_MILLIS = 24 * 60 * 60 * 1000"
definition DEFAULT_UNDERDELIVERY_EVENT_STREAK :: u32 where "DEFAULT_UNDERDELIVERY_EVENT_STREAK = 2"
definition DEFAULT_ERROR_CIRCUIT_BREAKER_MIN_SAMPLES :: u64 where "DEFAULT_ERROR_CIRCUIT_BREAKER_MIN_SAMPLES = 3"
definition DEFAULT_ERROR_CIRCUIT_BREAKER_CONSECUTIVE_FAILURES :: u32 where
  "DEFAULT_ERROR_CIRCUIT_BREAKER_CONSECUTIVE_FAILURES = 3"
definition DEFAULT_ERROR_CIRCUIT_BREAKER_COOLOFF_MILLIS :: u64 where
  "DEFAULT_ERROR_CIRCUIT_BREAKER_COOLOFF_MILLIS = 30000"
definition DEFAULT_CAPACITY_MISMATCH_EVENT_STREAK :: u32 where "DEFAULT_CAPACITY_MISMATCH_EVENT_STREAK = 3"

text \<open>The \<open>f64\<close> constants of the file, as literals of \<open>fl\<close>.\<close>

definition DEFAULT_OBSERVATION_EWMA_ALPHA :: "'f f64_ops \<Rightarrow> 'f" where "DEFAULT_OBSERVATION_EWMA_ALPHA fl = f_lit fl 2 1"
definition DEFAULT_SATURATION_CUTOFF :: "'f f64_ops \<Rightarrow> 'f" where "DEFAULT_SATURATION_CUTOFF fl = f_lit fl 85 2"
definition DEFAULT_THROUGHPUT_RATIO_GRACE :: "'f f64_ops \<Rightarrow> 'f" where "DEFAULT_THROUGHPUT_RATIO_GRACE fl = f_lit fl 8 1"
definition DEFAULT_UNDERDELIVERY_RATIO :: "'f f64_ops \<Rightarrow> 'f" where "DEFAULT_UNDERDELIVERY_RATIO fl = f_lit fl 5 1"
definition DEFAULT_ERROR_CIRCUIT_BREAKER_EWMA_THRESHOLD :: "'f f64_ops \<Rightarrow> 'f" where
  "DEFAULT_ERROR_CIRCUIT_BREAKER_EWMA_THRESHOLD fl = f_lit fl 8 1"

record route_attestation_policy_readiness =
  ap_attestation_tier :: u8
  ap_policy_required :: bool
  ap_locally_ready :: bool
  ap_tpm_activation_pending :: bool
  ap_quote_kind :: "hardware_quote_kind option"
  ap_policy_sequence :: "u64 option"
  ap_policy_digest :: "string option"
  ap_policy_effective_epoch :: "u64 option"
  ap_evaluated_epoch :: "u64 option"
  ap_verifier_profile :: "attestation_verifier_profile option"
  ap_evidence_schema_version :: "u32 option"
  ap_required_measurement_layers :: "attestation_measurement_layer set"
  ap_runtime_binary_hash_evidence_only :: bool
  ap_reason :: "string option"

record probation_caps =
  pb_max_concurrent_sessions_per_user :: u32
  pb_price_max_bps :: u32
  pb_weight_bps :: u32

record provider_probation =
  pp_active :: bool
  pp_since_seconds :: u64
  pp_successful_sessions :: u64
  pp_required_successful_sessions :: u64
  pp_required_seconds :: u64
  pp_caps :: probation_caps

record 'f contract_provider_snapshot =
  cs_provider :: string
  cs_provider_status :: "string option"
  cs_enclave_id :: string
  cs_model_id :: string
  cs_room_id :: string
  cs_consent_ver :: u64
  cs_reputation :: 'f
  cs_price_ver :: u64
  cs_rate_map :: "rate_map_entry list"
  cs_per_req_au :: money_au
  cs_min_session_au :: money_au
  cs_ref_rate_map :: "rate_map_entry list"
  cs_probation :: "provider_probation option"
  cs_caps :: heartbeat_caps
  cs_attestation_head :: "string option"
  cs_hardware_fingerprint :: "string option"
  cs_device_key :: "string option"
  cs_attestation_policy :: route_attestation_policy_readiness

record 'f provider_observation_sample =
  os_ttft_ms :: u64
  os_tok_s :: "'f option"
  os_error :: bool

record 'f provider_observation =
  ob_ewma_ttft_ms :: "'f option"
  ob_ewma_tok_s :: "'f option"
  ob_ewma_throughput_ratio :: "'f option"
  ob_ewma_error_rate :: 'f
  ob_consecutive_failures :: u32
  ob_underdelivery_streak :: u32
  ob_underdelivery_event_emitted :: bool
  ob_capacity_mismatch_streak :: u32
  ob_capacity_mismatch_event_emitted :: bool
  ob_capacity_mismatch_last_heartbeat_received_at_millis :: "u64 option"
  ob_circuit_open_until_millis :: "u64 option"
  ob_samples :: u64

record 'f provider_underdelivery_event =
  ue_key :: provider_key
  ue_advertised_throughput :: 'f
  ue_measured_throughput :: 'f
  ue_ratio :: 'f
  ue_streak :: u32
  ue_observed_at_millis :: u64

record provider_capacity_mismatch_event =
  ce_key :: provider_key
  ce_advertised_free_slots :: u32
  ce_advertised_engine_backlog :: u32
  ce_streak :: u32
  ce_observed_at_millis :: u64

record attestation_head_cache_entry =
  ah_provider :: string
  ah_enclave_id :: string
  ah_head :: string
  ah_epoch :: u64
  ah_observed_at_millis :: u64

record 'f provider_table_entry =
  te_key :: provider_key
  te_contract :: "'f contract_provider_snapshot"
  te_heartbeat :: "'f provider_heartbeat option"
  te_heartbeat_age_millis :: "u64 option"
  te_observed :: "'f provider_observation"
  te_attestation_head :: "attestation_head_cache_entry option"

record 'f live_heartbeat =
  lh_heartbeat :: "'f provider_heartbeat"
  lh_received_at_millis :: u64
  lh_freshness_at_millis :: u64

record 'f provider_table =
  pt_contract :: "(provider_key, 'f contract_provider_snapshot) btree"
  pt_heartbeats :: "(provider_key, 'f live_heartbeat) btree"
  pt_observations :: "(provider_key, 'f provider_observation) btree"
  pt_attestation_heads :: "(string \<times> string, attestation_head_cache_entry) btree"
  pt_heartbeat_ttl_millis :: u64
  pt_observation_alpha :: 'f

section \<open>Operations\<close>

definition from_contract :: "'f contract_provider_snapshot \<Rightarrow> provider_key" where
  "from_contract record = ProviderKey (cs_provider record) (cs_enclave_id record) (cs_room_id record)"

definition from_heartbeat :: "'f provider_heartbeat \<Rightarrow> provider_key" where
  "from_heartbeat h = ProviderKey (hb_provider h) (hb_enclave_id h) (hb_room_id h)"

definition not_required :: "u8 \<Rightarrow> route_attestation_policy_readiness" where
  "not_required attestation_tier =
     \<lparr>ap_attestation_tier = attestation_tier, ap_policy_required = False, ap_locally_ready = True,
      ap_tpm_activation_pending = False, ap_quote_kind = None, ap_policy_sequence = None,
      ap_policy_digest = None, ap_policy_effective_epoch = None, ap_evaluated_epoch = None,
      ap_verifier_profile = None, ap_evidence_schema_version = None, ap_required_measurement_layers = {},
      ap_runtime_binary_hash_evidence_only = True, ap_reason = None\<rparr>"

definition policy_unavailable :: "u8 \<Rightarrow> string \<Rightarrow> route_attestation_policy_readiness" where
  "policy_unavailable attestation_tier reason =
     \<lparr>ap_attestation_tier = attestation_tier, ap_policy_required = True, ap_locally_ready = False,
      ap_tpm_activation_pending = False, ap_quote_kind = None, ap_policy_sequence = None,
      ap_policy_digest = None, ap_policy_effective_epoch = None, ap_evaluated_epoch = None,
      ap_verifier_profile = None, ap_evidence_schema_version = None, ap_required_measurement_layers = {},
      ap_runtime_binary_hash_evidence_only = True, ap_reason = Some reason\<rparr>"

definition observation_default :: "'f f64_ops \<Rightarrow> 'f provider_observation" where
  "observation_default fl =
     \<lparr>ob_ewma_ttft_ms = None, ob_ewma_tok_s = None, ob_ewma_throughput_ratio = None,
      ob_ewma_error_rate = f_zero fl, ob_consecutive_failures = 0, ob_underdelivery_streak = 0,
      ob_underdelivery_event_emitted = False, ob_capacity_mismatch_streak = 0,
      ob_capacity_mismatch_event_emitted = False, ob_capacity_mismatch_last_heartbeat_received_at_millis = None,
      ob_circuit_open_until_millis = None, ob_samples = 0\<rparr>"

definition has_fresh_heartbeat :: "'f provider_table_entry \<Rightarrow> u64 \<Rightarrow> bool" where
  "has_fresh_heartbeat entry heartbeat_ttl_millis \<longleftrightarrow>
     te_heartbeat entry \<noteq> None \<and>
     (case te_heartbeat_age_millis entry of None \<Rightarrow> False | Some age \<Rightarrow> age \<le> heartbeat_ttl_millis)"

definition with_config :: "'f f64_ops \<Rightarrow> u64 \<Rightarrow> 'f \<Rightarrow> 'f provider_table" where
  "with_config fl heartbeat_ttl_millis observation_alpha =
     \<lparr>pt_contract = [], pt_heartbeats = [], pt_observations = [], pt_attestation_heads = [],
      pt_heartbeat_ttl_millis = heartbeat_ttl_millis,
      pt_observation_alpha = f_clamp fl observation_alpha (f_zero fl) (f_one fl)\<rparr>"

definition table_new :: "'f f64_ops \<Rightarrow> 'f provider_table" where
  "table_new fl = with_config fl DEFAULT_PROVIDER_HEARTBEAT_TTL_MILLIS (DEFAULT_OBSERVATION_EWMA_ALPHA fl)"

definition set_heartbeat_ttl_millis :: "u64 \<Rightarrow> 'f provider_table \<Rightarrow> 'f provider_table" where
  "set_heartbeat_ttl_millis ttl t = t\<lparr>pt_heartbeat_ttl_millis := ttl\<rparr>"

definition canonical_room_id :: "string \<Rightarrow> bool" where
  "canonical_room_id v \<longleftrightarrow> length v = 32 \<and> list_all (\<lambda>c. is_ascii_hexdigit (byte_of c)) v"

definition provider_status_allows_routing :: "string option \<Rightarrow> bool" where
  "provider_status_allows_routing v =
     (case v of None \<Rightarrow> False | Some status \<Rightarrow> eq_ignore_ascii_case status ''active'')"

definition upsert_attestation_head ::
    "string \<Rightarrow> string \<Rightarrow> string \<Rightarrow> u64 \<Rightarrow> u64 \<Rightarrow> 'f provider_table \<Rightarrow> 'f provider_table" where
  "upsert_attestation_head provider enclave_id head epoch observed_at_millis t =
     (let key = (provider, enclave_id);
          should_update = (case bt_get (pt_attestation_heads t) key of
            Some existing \<Rightarrow> epoch \<ge> ah_epoch existing
          | None \<Rightarrow> True)
      in if should_update
         then t\<lparr>pt_attestation_heads :=
                  bt_insert key \<lparr>ah_provider = provider, ah_enclave_id = enclave_id, ah_head = head,
                                 ah_epoch = epoch, ah_observed_at_millis = observed_at_millis\<rparr>
                    (pt_attestation_heads t)\<rparr>
         else t)"

definition upsert_contract :: "'f contract_provider_snapshot \<Rightarrow> 'f provider_table \<Rightarrow> 'f provider_table" where
  "upsert_contract record t =
     (if \<not> provider_status_allows_routing (cs_provider_status record) then t
      else if \<not> canonical_room_id (cs_room_id record) then t
      else
        let key = from_contract record;
            t = (case cs_attestation_head record of
                   None \<Rightarrow> t
                 | Some head \<Rightarrow> upsert_attestation_head (cs_provider record) (cs_enclave_id record) head 0 0 t)
        in t\<lparr>pt_contract := bt_insert key record (pt_contract t)\<rparr>)"

definition replace_contract_snapshot ::
    "'f contract_provider_snapshot list \<Rightarrow> 'f provider_table \<Rightarrow> 'f provider_table" where
  "replace_contract_snapshot records t = fold upsert_contract records (t\<lparr>pt_contract := []\<rparr>)"

definition upsert_heartbeat :: "'f provider_heartbeat \<Rightarrow> u64 \<Rightarrow> 'f provider_table \<Rightarrow> 'f provider_table" where
  "upsert_heartbeat h received_at_millis t =
     (let key = from_heartbeat h
      in if (case bt_get (pt_heartbeats t) key of None \<Rightarrow> False | Some live \<Rightarrow> hb_ts h < hb_ts (lh_heartbeat live))
         then t
         else
           let freshness_at_millis = (if hb_sig h = [] then received_at_millis else min (hb_ts h) received_at_millis);
               t = upsert_attestation_head (hb_provider h) (hb_enclave_id h) (ha_head (hb_att h))
                     (ha_epoch (hb_att h)) freshness_at_millis t
           in t\<lparr>pt_heartbeats :=
                  bt_insert key \<lparr>lh_heartbeat = h, lh_received_at_millis = received_at_millis,
                                 lh_freshness_at_millis = freshness_at_millis\<rparr> (pt_heartbeats t)\<rparr>)"

definition upsert_fallback_heartbeat :: "'f provider_heartbeat \<Rightarrow> u64 \<Rightarrow> 'f provider_table \<Rightarrow> 'f provider_table" where
  "upsert_fallback_heartbeat h received_at_millis t =
     (let key = from_heartbeat h
      in if (case bt_get (pt_heartbeats t) key of None \<Rightarrow> False
             | Some live \<Rightarrow> hb_sig (lh_heartbeat live) \<noteq> [] \<and>
                 sat_sub received_at_millis (lh_freshness_at_millis live) \<le> pt_heartbeat_ttl_millis t)
         then t else upsert_heartbeat h received_at_millis t)"

definition heartbeat_received_at_millis :: "'f provider_table \<Rightarrow> provider_key \<Rightarrow> u64 option" where
  "heartbeat_received_at_millis t key = map_option lh_received_at_millis (bt_get (pt_heartbeats t) key)"

definition update_ewma :: "'f f64_ops \<Rightarrow> 'f option \<Rightarrow> 'f \<Rightarrow> 'f \<Rightarrow> 'f" where
  "update_ewma fl current sample alpha =
     (case current of
        Some current \<Rightarrow> f_add fl (f_mul fl alpha sample) (f_mul fl (f_sub fl (f_one fl) alpha) current)
      | None \<Rightarrow> sample)"

definition filter_option :: "('a \<Rightarrow> bool) \<Rightarrow> 'a option \<Rightarrow> 'a option" where
  "filter_option P x = (case x of None \<Rightarrow> None | Some v \<Rightarrow> if P v then Some v else None)"

text \<open>The throughput part of \<open>record_observation_at\<close>, for a measured and an advertised rate.\<close>

definition observe_ratio ::
    "'f f64_ops \<Rightarrow> provider_key \<Rightarrow> 'f \<Rightarrow> 'f \<Rightarrow> 'f \<Rightarrow> u64 \<Rightarrow> 'f provider_observation \<Rightarrow>
     'f provider_underdelivery_event option \<times> 'f provider_observation" where
  "observe_ratio fl key alpha advertised_tok_s tok_s now_millis observed =
     (let ratio = f_clamp fl (f_div fl tok_s advertised_tok_s) (f_zero fl) (f_lit fl 10 0);
          observed = observed\<lparr>ob_ewma_throughput_ratio :=
            Some (update_ewma fl (ob_ewma_throughput_ratio observed) ratio alpha)\<rparr>
      in if f_lt fl ratio (DEFAULT_UNDERDELIVERY_RATIO fl)
         then (let observed = observed\<lparr>ob_underdelivery_streak := sat_add (ob_underdelivery_streak observed) 1\<rparr>
               in if ob_underdelivery_streak observed \<ge> DEFAULT_UNDERDELIVERY_EVENT_STREAK \<and>
                     \<not> ob_underdelivery_event_emitted observed
                  then (Some \<lparr>ue_key = key, ue_advertised_throughput = advertised_tok_s,
                              ue_measured_throughput = tok_s, ue_ratio = ratio,
                              ue_streak = ob_underdelivery_streak observed, ue_observed_at_millis = now_millis\<rparr>,
                        observed\<lparr>ob_underdelivery_event_emitted := True\<rparr>)
                  else (None, observed))
         else if f_le fl (DEFAULT_THROUGHPUT_RATIO_GRACE fl) ratio
         then (None, observed\<lparr>ob_underdelivery_streak := 0, ob_underdelivery_event_emitted := False\<rparr>)
         else (None, observed))"

definition observe_throughput ::
    "'f f64_ops \<Rightarrow> provider_key \<Rightarrow> 'f \<Rightarrow> 'f option \<Rightarrow> 'f option \<Rightarrow> u64 \<Rightarrow> 'f provider_observation \<Rightarrow>
     'f provider_underdelivery_event option \<times> 'f provider_observation" where
  "observe_throughput fl key alpha advertised_tok_s sample_tok_s now_millis observed =
     (case filter_option (\<lambda>v. f_is_finite fl v \<and> f_le fl (f_zero fl) v) sample_tok_s of
        None \<Rightarrow> (None, observed)
      | Some tok_s \<Rightarrow>
          (let observed = observed\<lparr>ob_ewma_tok_s := Some (update_ewma fl (ob_ewma_tok_s observed) tok_s alpha)\<rparr>
           in case advertised_tok_s of
                None \<Rightarrow> (None, observed)
              | Some advertised \<Rightarrow> observe_ratio fl key alpha advertised tok_s now_millis observed))"

text \<open>The error part: the error average, the failure count, the circuit breaker, the sample count.\<close>

definition observe_error ::
    "'f f64_ops \<Rightarrow> 'f \<Rightarrow> bool \<Rightarrow> u64 \<Rightarrow> 'f provider_observation \<Rightarrow> 'f provider_observation" where
  "observe_error fl alpha error now_millis observed =
     (let observed = observed\<lparr>ob_ewma_error_rate :=
            update_ewma fl (if ob_samples observed = 0 then None else Some (ob_ewma_error_rate observed))
              (if error then f_one fl else f_zero fl) alpha\<rparr>;
          observed =
            (if error
             then (let observed = observed\<lparr>ob_consecutive_failures := sat_add (ob_consecutive_failures observed) 1\<rparr>
                   in if ob_consecutive_failures observed \<ge> DEFAULT_ERROR_CIRCUIT_BREAKER_CONSECUTIVE_FAILURES \<or>
                         (ob_samples observed + 1 \<ge> DEFAULT_ERROR_CIRCUIT_BREAKER_MIN_SAMPLES \<and>
                          f_le fl (DEFAULT_ERROR_CIRCUIT_BREAKER_EWMA_THRESHOLD fl) (ob_ewma_error_rate observed))
                      then observed\<lparr>ob_circuit_open_until_millis :=
                             Some (sat_add now_millis DEFAULT_ERROR_CIRCUIT_BREAKER_COOLOFF_MILLIS)\<rparr>
                      else observed)
             else observed\<lparr>ob_consecutive_failures := 0, ob_circuit_open_until_millis := None,
                           ob_capacity_mismatch_streak := 0, ob_capacity_mismatch_event_emitted := False,
                           ob_capacity_mismatch_last_heartbeat_received_at_millis := None\<rparr>)
      in observed\<lparr>ob_samples := ob_samples observed + 1\<rparr>)"

definition observation_of :: "'f f64_ops \<Rightarrow> 'f provider_table \<Rightarrow> provider_key \<Rightarrow> 'f provider_observation" where
  "observation_of fl t key = (case bt_get (pt_observations t) key of None \<Rightarrow> observation_default fl | Some ob \<Rightarrow> ob)"

definition record_observation_at ::
    "'f f64_ops \<Rightarrow> provider_key \<Rightarrow> 'f provider_observation_sample \<Rightarrow> u64 \<Rightarrow> 'f provider_table \<Rightarrow>
     'f provider_underdelivery_event option \<times> 'f provider_table" where
  "record_observation_at fl key sample now_millis t =
     (let alpha = pt_observation_alpha t;
          advertised_tok_s = filter_option (\<lambda>v. f_is_finite fl v \<and> f_lt fl (f_zero fl) v)
            (Option.bind (bt_get (pt_heartbeats t) key) (\<lambda>live. hp_tok_s (hb_perf (lh_heartbeat live))));
          observed = observation_of fl t key;
          observed = observed\<lparr>ob_ewma_ttft_ms :=
            Some (update_ewma fl (ob_ewma_ttft_ms observed) (f_of_u64 fl (os_ttft_ms sample)) alpha)\<rparr>;
          (underdelivery_event, observed) =
            observe_throughput fl key alpha advertised_tok_s (os_tok_s sample) now_millis observed;
          observed = observe_error fl alpha (os_error sample) now_millis observed
      in (underdelivery_event, t\<lparr>pt_observations := bt_insert key observed (pt_observations t)\<rparr>))"

definition record_observation ::
    "'f f64_ops \<Rightarrow> provider_key \<Rightarrow> 'f provider_observation_sample \<Rightarrow> 'f provider_table \<Rightarrow>
     'f provider_underdelivery_event option \<times> 'f provider_table" where
  "record_observation fl key sample t = record_observation_at fl key sample 0 t"

text \<open>\<open>refuse\<close> is \<open>record_capacity_refusal_at\<close> on the observation of a route with a fresh heartbeat.\<close>

definition advertised_free_capacity :: "'f f64_ops \<Rightarrow> 'f provider_heartbeat \<Rightarrow> bool" where
  "advertised_free_capacity fl h \<longleftrightarrow>
     hb_accepting_new h \<and> f_lt fl (hb_sat h) (DEFAULT_SATURATION_CUTOFF fl) \<and>
     (hq_free_slots (hb_q h) > 0 \<or> hs_active (hb_slots h) < hs_max (hb_slots h))"

definition refuse ::
    "'f f64_ops \<Rightarrow> provider_key \<Rightarrow> 'f live_heartbeat \<Rightarrow> u64 \<Rightarrow> 'f provider_observation \<Rightarrow>
     provider_capacity_mismatch_event option \<times> 'f provider_observation" where
  "refuse fl key live now_millis observed =
     (let h = lh_heartbeat live
      in if \<not> advertised_free_capacity fl h
         then (None, observed\<lparr>ob_capacity_mismatch_streak := 0, ob_capacity_mismatch_event_emitted := False,
                              ob_capacity_mismatch_last_heartbeat_received_at_millis := None\<rparr>)
         else if ob_capacity_mismatch_last_heartbeat_received_at_millis observed = Some (lh_received_at_millis live)
         then (None, observed)
         else
           let observed = observed\<lparr>
                 ob_capacity_mismatch_last_heartbeat_received_at_millis := Some (lh_received_at_millis live),
                 ob_capacity_mismatch_streak := sat_add (ob_capacity_mismatch_streak observed) 1\<rparr>
           in if ob_capacity_mismatch_streak observed < DEFAULT_CAPACITY_MISMATCH_EVENT_STREAK \<or>
                 ob_capacity_mismatch_event_emitted observed
              then (None, observed)
              else (Some \<lparr>ce_key = key, ce_advertised_free_slots = hq_free_slots (hb_q h),
                          ce_advertised_engine_backlog = hq_engine_backlog (hb_q h),
                          ce_streak = ob_capacity_mismatch_streak observed, ce_observed_at_millis = now_millis\<rparr>,
                    observed\<lparr>ob_capacity_mismatch_event_emitted := True\<rparr>))"

definition record_capacity_refusal_at ::
    "'f f64_ops \<Rightarrow> provider_key \<Rightarrow> u64 \<Rightarrow> 'f provider_table \<Rightarrow>
     provider_capacity_mismatch_event option \<times> 'f provider_table" where
  "record_capacity_refusal_at fl key now_millis t =
     (case bt_get (pt_heartbeats t) key of
        None \<Rightarrow> (None, t)
      | Some live \<Rightarrow>
          if sat_sub now_millis (lh_freshness_at_millis live) > pt_heartbeat_ttl_millis t then (None, t)
          else (let (event, observed) = refuse fl key live now_millis (observation_of fl t key)
                in (event, t\<lparr>pt_observations := bt_insert key observed (pt_observations t)\<rparr>)))"

definition attestation_head :: "'f provider_table \<Rightarrow> string \<Rightarrow> string \<Rightarrow> attestation_head_cache_entry option" where
  "attestation_head t provider enclave_id = bt_get (pt_attestation_heads t) (provider, enclave_id)"

definition table_entry ::
    "'f f64_ops \<Rightarrow> 'f provider_table \<Rightarrow> u64 \<Rightarrow> provider_key \<times> 'f contract_provider_snapshot \<Rightarrow> 'f provider_table_entry" where
  "table_entry fl t now_millis kc =
     (case kc of (key, contract) \<Rightarrow>
        (let live = bt_get (pt_heartbeats t) key
         in \<lparr>te_key = key, te_contract = contract,
             te_heartbeat = map_option lh_heartbeat
               (filter_option (\<lambda>live. sat_sub now_millis (lh_freshness_at_millis live) \<le> pt_heartbeat_ttl_millis t) live),
             te_heartbeat_age_millis = map_option (\<lambda>live. sat_sub now_millis (lh_freshness_at_millis live)) live,
             te_observed = observation_of fl t key,
             te_attestation_head = attestation_head t (pk_provider key) (pk_enclave_id key)\<rparr>))"

definition entries :: "'f f64_ops \<Rightarrow> 'f provider_table \<Rightarrow> u64 \<Rightarrow> 'f provider_table_entry list" where
  "entries fl t now_millis = map (table_entry fl t now_millis) (pt_contract t)"

definition contract_len :: "'f provider_table \<Rightarrow> nat" where
  "contract_len t = length (pt_contract t)"

definition heartbeat_len :: "'f provider_table \<Rightarrow> nat" where
  "heartbeat_len t = length (pt_heartbeats t)"

definition heartbeat_matches :: "'f provider_table \<Rightarrow> provider_key \<Rightarrow> u64 \<Rightarrow> string \<Rightarrow> bool" where
  "heartbeat_matches t key ts nonce =
     (case bt_get (pt_heartbeats t) key of None \<Rightarrow> False
      | Some live \<Rightarrow> hb_ts (lh_heartbeat live) = ts \<and> hb_nonce (lh_heartbeat live) = nonce)"

section \<open>The table under any sequence of operations\<close>

datatype 'f table_op =
  SetTtl u64
| ReplaceContracts "'f contract_provider_snapshot list"
| UpsertContract "'f contract_provider_snapshot"
| Heartbeat "'f provider_heartbeat" u64
| FallbackHeartbeat "'f provider_heartbeat" u64
| Observe provider_key "'f provider_observation_sample" u64
| CapacityRefusal provider_key u64

fun table_step :: "'f f64_ops \<Rightarrow> 'f table_op \<Rightarrow> 'f provider_table \<Rightarrow> 'f provider_table" where
  "table_step fl (SetTtl ttl) t = set_heartbeat_ttl_millis ttl t"
| "table_step fl (ReplaceContracts records) t = replace_contract_snapshot records t"
| "table_step fl (UpsertContract record) t = upsert_contract record t"
| "table_step fl (Heartbeat h now) t = upsert_heartbeat h now t"
| "table_step fl (FallbackHeartbeat h now) t = upsert_fallback_heartbeat h now t"
| "table_step fl (Observe key sample now) t = snd (record_observation_at fl key sample now t)"
| "table_step fl (CapacityRefusal key now) t = snd (record_capacity_refusal_at fl key now t)"

definition live_wf :: "provider_key \<times> 'f live_heartbeat \<Rightarrow> bool" where
  "live_wf kl \<longleftrightarrow> from_heartbeat (lh_heartbeat (snd kl)) = fst kl \<and>
     lh_freshness_at_millis (snd kl) \<le> lh_received_at_millis (snd kl) \<and>
     (hb_sig (lh_heartbeat (snd kl)) \<noteq> [] \<longrightarrow> lh_freshness_at_millis (snd kl) \<le> hb_ts (lh_heartbeat (snd kl)))"

definition contract_wf :: "provider_key \<times> 'f contract_provider_snapshot \<Rightarrow> bool" where
  "contract_wf kc \<longleftrightarrow> from_contract (snd kc) = fst kc \<and> provider_status_allows_routing (cs_provider_status (snd kc)) \<and>
     canonical_room_id (cs_room_id (snd kc))"

definition table_wf :: "'f provider_table \<Rightarrow> bool" where
  "table_wf t \<longleftrightarrow>
     bt_wf (pt_contract t) \<and> bt_wf (pt_heartbeats t) \<and> bt_wf (pt_observations t) \<and> bt_wf (pt_attestation_heads t) \<and>
     (\<forall>kc \<in> set (pt_contract t). contract_wf kc) \<and> (\<forall>kl \<in> set (pt_heartbeats t). live_wf kl) \<and>
     (\<forall>kh \<in> set (pt_attestation_heads t). fst kh = (ah_provider (snd kh), ah_enclave_id (snd kh)))"

text \<open>
  \<open>hb_stamp\<close> is zero for a route without a heartbeat and one more than its timestamp otherwise;
  \<open>head_stamp\<close> is the same for the epoch of a cached attestation head.
\<close>

definition hb_stamp :: "provider_key \<Rightarrow> 'f provider_table \<Rightarrow> nat" where
  "hb_stamp key t = (case bt_get (pt_heartbeats t) key of None \<Rightarrow> 0 | Some live \<Rightarrow> Suc (unat (hb_ts (lh_heartbeat live))))"

definition head_stamp :: "string \<times> string \<Rightarrow> 'f provider_table \<Rightarrow> nat" where
  "head_stamp key t = (case bt_get (pt_attestation_heads t) key of None \<Rightarrow> 0 | Some a \<Rightarrow> Suc (unat (ah_epoch a)))"

lemma set_bt_insertD: "x \<in> set (bt_insert k v m) \<Longrightarrow> x = (k, v) \<or> x \<in> set m"
  by (induction m) (auto split: if_splits)

lemma upsert_attestation_head_fields [simp]:
  "pt_contract (upsert_attestation_head p e hh ep at t) = pt_contract t"
  "pt_heartbeats (upsert_attestation_head p e hh ep at t) = pt_heartbeats t"
  "pt_observations (upsert_attestation_head p e hh ep at t) = pt_observations t"
  "pt_heartbeat_ttl_millis (upsert_attestation_head p e hh ep at t) = pt_heartbeat_ttl_millis t"
  by (simp_all add: upsert_attestation_head_def Let_def)

lemma upsert_attestation_head_wf: "table_wf t \<Longrightarrow> table_wf (upsert_attestation_head p e hh ep at t)"
  unfolding upsert_attestation_head_def Let_def
  by (simp only: table_wf_def split: if_split) (auto dest!: set_bt_insertD)

lemma upsert_attestation_head_stamp: "head_stamp k t \<le> head_stamp k (upsert_attestation_head p e hh ep at t)"
  by (auto simp: head_stamp_def upsert_attestation_head_def Let_def btree_simps word_le_nat_alt split: option.splits)

lemma upsert_contract_fields [simp]:
  "pt_heartbeats (upsert_contract r t) = pt_heartbeats t" "pt_observations (upsert_contract r t) = pt_observations t"
  by (simp_all add: upsert_contract_def Let_def split: option.splits)

lemma upsert_contract_wf:
  assumes "table_wf t"
  shows "table_wf (upsert_contract r t)"
proof -
  let ?t = "case cs_attestation_head r of None \<Rightarrow> t
    | Some hh \<Rightarrow> upsert_attestation_head (cs_provider r) (cs_enclave_id r) hh 0 0 t"
  have "table_wf ?t" using assms by (auto intro: upsert_attestation_head_wf split: option.split)
  moreover have "contract_wf (from_contract r, r)"
    if "provider_status_allows_routing (cs_provider_status r)" "canonical_room_id (cs_room_id r)"
    using that by (simp add: contract_wf_def)
  ultimately have "table_wf (?t\<lparr>pt_contract := bt_insert (from_contract r) r (pt_contract ?t)\<rparr>)"
    if "provider_status_allows_routing (cs_provider_status r)" "canonical_room_id (cs_room_id r)"
    using that unfolding table_wf_def by (auto dest!: set_bt_insertD)
  then show ?thesis using assms by (auto simp: upsert_contract_def Let_def)
qed

lemma head_stamp_contract [simp]: "head_stamp k (t\<lparr>pt_contract := m\<rparr>) = head_stamp k t"
  by (simp add: head_stamp_def)

lemma upsert_contract_stamp: "head_stamp k t \<le> head_stamp k (upsert_contract r t)"
  by (simp add: upsert_contract_def Let_def upsert_attestation_head_stamp split: option.split)

lemma replace_contract_snapshot_keeps:
  fixes t :: "'f provider_table"
  assumes "table_wf t"
  shows "table_wf (replace_contract_snapshot rs t)"
    and "pt_heartbeats (replace_contract_snapshot rs t) = pt_heartbeats t"
    and "pt_observations (replace_contract_snapshot rs t) = pt_observations t"
    and "head_stamp k t \<le> head_stamp k (replace_contract_snapshot rs t)"
proof -
  have all: "table_wf s \<Longrightarrow> table_wf (fold upsert_contract rs s) \<and> pt_heartbeats (fold upsert_contract rs s) = pt_heartbeats s \<and>
      pt_observations (fold upsert_contract rs s) = pt_observations s \<and>
      head_stamp k s \<le> head_stamp k (fold upsert_contract rs s)" for s :: "'f provider_table"
  proof (induction rs arbitrary: s)
    case (Cons r rs)
    from Cons.IH [OF upsert_contract_wf [OF Cons.prems, of r]] upsert_contract_stamp [of k s r]
    show ?case by (simp add: order_trans)
  qed simp
  have "table_wf (t\<lparr>pt_contract := []\<rparr>)" using assms by (simp add: table_wf_def)
  from all [OF this]
  show "table_wf (replace_contract_snapshot rs t)"
    and "pt_heartbeats (replace_contract_snapshot rs t) = pt_heartbeats t"
    and "pt_observations (replace_contract_snapshot rs t) = pt_observations t"
    and "head_stamp k t \<le> head_stamp k (replace_contract_snapshot rs t)"
    by (simp_all add: replace_contract_snapshot_def head_stamp_def)
qed

lemma upsert_heartbeat_get:
  "bt_get (pt_heartbeats (upsert_heartbeat h now t)) k =
     (if k = from_heartbeat h \<and> hb_stamp k t \<le> Suc (unat (hb_ts h))
      then Some \<lparr>lh_heartbeat = h, lh_received_at_millis = now,
                 lh_freshness_at_millis = (if hb_sig h = [] then now else min (hb_ts h) now)\<rparr>
      else bt_get (pt_heartbeats t) k)"
  by (auto simp: upsert_heartbeat_def hb_stamp_def Let_def btree_simps word_less_nat_alt split: option.splits)

lemma upsert_heartbeat_keeps:
  fixes h :: "'f provider_heartbeat" and now :: u64 and k :: provider_key and q :: "string \<times> string"
  assumes "table_wf t"
  shows "table_wf (upsert_heartbeat h now t)" and "pt_contract (upsert_heartbeat h now t) = pt_contract t"
    and "pt_observations (upsert_heartbeat h now t) = pt_observations t"
    and "hb_stamp k t \<le> hb_stamp k (upsert_heartbeat h now t)"
    and "head_stamp q t \<le> head_stamp q (upsert_heartbeat h now t)"
proof -
  let ?f = "if hb_sig h = [] then now else min (hb_ts h) now"
  let ?u = "upsert_attestation_head (hb_provider h) (hb_enclave_id h) (ha_head (hb_att h)) (ha_epoch (hb_att h)) ?f t"
  let ?l = "\<lparr>lh_heartbeat = h, lh_received_at_millis = now, lh_freshness_at_millis = ?f\<rparr>"
  have cases: "upsert_heartbeat h now t = t \<or>
      upsert_heartbeat h now t = ?u\<lparr>pt_heartbeats := bt_insert (from_heartbeat h) ?l (pt_heartbeats ?u)\<rparr>"
    by (simp add: upsert_heartbeat_def Let_def)
  have "live_wf (from_heartbeat h, ?l)" by (simp add: live_wf_def)
  moreover have "table_wf ?u" using assms by (rule upsert_attestation_head_wf)
  ultimately have "table_wf (?u\<lparr>pt_heartbeats := bt_insert (from_heartbeat h) ?l (pt_heartbeats ?u)\<rparr>)"
    unfolding table_wf_def by (auto dest!: set_bt_insertD)
  with cases assms show "table_wf (upsert_heartbeat h now t)" by metis
  show "pt_contract (upsert_heartbeat h now t) = pt_contract t"
    "pt_observations (upsert_heartbeat h now t) = pt_observations t"
    using cases by auto
  show "hb_stamp k t \<le> hb_stamp k (upsert_heartbeat h now t)"
    unfolding hb_stamp_def [of k "upsert_heartbeat h now t"] upsert_heartbeat_get
    by (auto simp: hb_stamp_def [symmetric])
  have "head_stamp q (?u\<lparr>pt_heartbeats := bt_insert (from_heartbeat h) ?l (pt_heartbeats ?u)\<rparr>) = head_stamp q ?u"
    by (simp add: head_stamp_def)
  with cases upsert_attestation_head_stamp show "head_stamp q t \<le> head_stamp q (upsert_heartbeat h now t)"
    by (metis order_refl)
qed

lemma upsert_fallback_cases:
  "upsert_fallback_heartbeat h now t = t \<or> upsert_fallback_heartbeat h now t = upsert_heartbeat h now t"
  by (simp add: upsert_fallback_heartbeat_def Let_def)

lemma record_fields [simp]:
  "pt_contract (snd (record_observation_at fl key s now t)) = pt_contract t"
  "pt_heartbeats (snd (record_observation_at fl key s now t)) = pt_heartbeats t"
  "pt_attestation_heads (snd (record_observation_at fl key s now t)) = pt_attestation_heads t"
  "pt_contract (snd (record_capacity_refusal_at fl key now t)) = pt_contract t"
  "pt_heartbeats (snd (record_capacity_refusal_at fl key now t)) = pt_heartbeats t"
  "pt_attestation_heads (snd (record_capacity_refusal_at fl key now t)) = pt_attestation_heads t"
  by (simp_all add: record_observation_at_def record_capacity_refusal_at_def Let_def split_beta split: option.split)

lemma record_wf:
  assumes "table_wf t"
  shows "table_wf (snd (record_observation_at fl key s now t))" "table_wf (snd (record_capacity_refusal_at fl key now t))"
proof -
  have "bt_wf (pt_observations (snd (record_observation_at fl key s now t)))"
    "bt_wf (pt_observations (snd (record_capacity_refusal_at fl key now t)))"
    using assms by (auto simp: record_observation_at_def record_capacity_refusal_at_def table_wf_def Let_def split_beta
        split: option.split)
  then show "table_wf (snd (record_observation_at fl key s now t))" "table_wf (snd (record_capacity_refusal_at fl key now t))"
    using assms by (simp_all add: table_wf_def)
qed

lemma table_step_keeps:
  assumes "table_wf t"
  shows "table_wf (table_step fl op t)" and "hb_stamp k t \<le> hb_stamp k (table_step fl op t)"
    and "head_stamp q t \<le> head_stamp q (table_step fl op t)"
proof -
  have stay: "hb_stamp k t' = hb_stamp k t" if "pt_heartbeats t' = pt_heartbeats t" for t' :: "'a provider_table"
    using that by (simp add: hb_stamp_def)
  have "table_wf (table_step fl op t) \<and> hb_stamp k t \<le> hb_stamp k (table_step fl op t) \<and>
      head_stamp q t \<le> head_stamp q (table_step fl op t)"
  proof (cases op)
    case (SetTtl ttl)
    then show ?thesis using assms
      by (simp add: set_heartbeat_ttl_millis_def table_wf_def hb_stamp_def head_stamp_def)
  next
    case (FallbackHeartbeat h now)
    then show ?thesis
      using upsert_fallback_cases [of h now t] upsert_heartbeat_keeps(1) [OF assms, of h now]
        upsert_heartbeat_keeps(4) [OF assms, of k h now] upsert_heartbeat_keeps(5) [OF assms, of q h now] assms by auto
  next
    case (Observe key s now)
    then show ?thesis using record_wf [OF assms] by (simp add: hb_stamp_def head_stamp_def)
  next
    case (CapacityRefusal key now)
    then show ?thesis using record_wf [OF assms] by (simp add: hb_stamp_def head_stamp_def)
  next
    case (ReplaceContracts rs)
    show ?thesis unfolding ReplaceContracts table_step.simps
      using replace_contract_snapshot_keeps(1,4) [OF assms] stay [OF replace_contract_snapshot_keeps(2) [OF assms]]
      by (metis order_refl)
  next
    case (UpsertContract r)
    show ?thesis unfolding UpsertContract table_step.simps
      using upsert_contract_wf [OF assms] upsert_contract_stamp stay [OF upsert_contract_fields(1)]
      by (metis order_refl)
  next
    case (Heartbeat h now)
    show ?thesis unfolding Heartbeat table_step.simps
      using upsert_heartbeat_keeps(1,4,5) [OF assms] by blast
  qed
  then show "table_wf (table_step fl op t)" and "hb_stamp k t \<le> hb_stamp k (table_step fl op t)"
    and "head_stamp q t \<le> head_stamp q (table_step fl op t)"
    by auto
qed

interpretation table: machine "table_step fl" table_wf for fl :: "'f f64_ops"
  by unfold_locales (rule table_step_keeps(1))

lemma table_wf_new [simp]: "table_wf (table_new fl)"
  by (simp add: table_wf_def table_new_def with_config_def)

definition table_run :: "'f f64_ops \<Rightarrow> 'f table_op list \<Rightarrow> 'f provider_table" where
  "table_run fl ops = fold (table_step fl) ops (table_new fl)"

lemma table_run_wf: "table_wf (table_run fl ops)"
  unfolding table_run_def by (rule table.run_inv) simp

text \<open>
  C25. Time only moves forward in the table: from a new table, after any operations \<open>ops\<close> and any
  further operations \<open>later\<close>, a route that had a heartbeat still has one with a timestamp at least as
  late, and a cached attestation head is replaced only by one of at least its epoch. Every stored
  heartbeat is filed under the route it names, counts as fresh no later than it was received and, when
  signed, no later than the time its provider signed; every stored contract has an active provider and
  a canonical room.
\<close>

theorem table_never_goes_back:
  "(\<forall>live. bt_get (pt_heartbeats (table_run fl ops)) key = Some live \<longrightarrow>
      (\<exists>live'. bt_get (pt_heartbeats (table_run fl (ops @ later))) key = Some live' \<and>
         hb_ts (lh_heartbeat live) \<le> hb_ts (lh_heartbeat live'))) \<and>
   (\<forall>a. attestation_head (table_run fl ops) p e = Some a \<longrightarrow>
      (\<exists>a'. attestation_head (table_run fl (ops @ later)) p e = Some a' \<and> ah_epoch a \<le> ah_epoch a')) \<and>
   table_wf (table_run fl ops)"
proof -
  have wf: "table_wf (table_run fl ops)" by (rule table_run_wf)
  have split: "table_run fl (ops @ later) = fold (table_step fl) later (table_run fl ops)"
    by (simp add: table_run_def)
  have ts: "hb_stamp key (table_run fl ops) \<le> hb_stamp key (table_run fl (ops @ later))"
    unfolding split by (rule table.run_mono [OF table_step_keeps(2) wf])
  have ep: "head_stamp (p, e) (table_run fl ops) \<le> head_stamp (p, e) (table_run fl (ops @ later))"
    unfolding split by (rule table.run_mono [OF table_step_keeps(3) wf])
  have "\<exists>live'. bt_get (pt_heartbeats (table_run fl (ops @ later))) key = Some live' \<and>
      hb_ts (lh_heartbeat live) \<le> hb_ts (lh_heartbeat live')"
    if "bt_get (pt_heartbeats (table_run fl ops)) key = Some live" for live
    using that ts by (auto simp: hb_stamp_def word_le_nat_alt split: option.splits)
  moreover have "\<exists>a'. attestation_head (table_run fl (ops @ later)) p e = Some a' \<and> ah_epoch a \<le> ah_epoch a'"
    if "attestation_head (table_run fl ops) p e = Some a" for a
    using that ep by (auto simp: head_stamp_def attestation_head_def word_le_nat_alt split: option.splits)
  ultimately show ?thesis using wf by blast
qed

section \<open>Failures, the circuit breaker and capacity refusals\<close>

text \<open>The number of failures in a row that a history of operations ends in, for one route.\<close>

fun fail_count :: "provider_key \<Rightarrow> 'f table_op \<Rightarrow> nat \<Rightarrow> nat" where
  "fail_count key (Observe k s now) n = (if k \<noteq> key then n else if os_error s then Suc n else 0)"
| "fail_count key op n = n"

definition failures :: "provider_key \<Rightarrow> 'f table_op list \<Rightarrow> nat" where
  "failures key ops = fold (fail_count key) ops 0"

lemma observe_throughput_keeps [simp]:
  "ob_consecutive_failures (snd (observe_throughput fl key a adv tok now ob)) = ob_consecutive_failures ob"
  "ob_circuit_open_until_millis (snd (observe_throughput fl key a adv tok now ob)) = ob_circuit_open_until_millis ob"
  by (simp_all add: observe_throughput_def observe_ratio_def Let_def split: option.split)

lemma refuse_keeps [simp]:
  "ob_consecutive_failures (snd (refuse fl key live now ob)) = ob_consecutive_failures ob"
  "ob_circuit_open_until_millis (snd (refuse fl key live now ob)) = ob_circuit_open_until_millis ob"
  by (simp_all add: refuse_def Let_def)

lemma observation_of_record:
  "observation_of fl (snd (record_observation_at fl key s now t)) k =
     (if k = key
      then observe_error fl (pt_observation_alpha t) (os_error s) now
             (snd (observe_throughput fl key (pt_observation_alpha t)
                (filter_option (\<lambda>v. f_is_finite fl v \<and> f_lt fl (f_zero fl) v)
                   (Option.bind (bt_get (pt_heartbeats t) key) (\<lambda>live. hp_tok_s (hb_perf (lh_heartbeat live)))))
                (os_tok_s s) now
                ((observation_of fl t key)\<lparr>ob_ewma_ttft_ms := Some (update_ewma fl
                   (ob_ewma_ttft_ms (observation_of fl t key)) (f_of_u64 fl (os_ttft_ms s)) (pt_observation_alpha t))\<rparr>)))
      else observation_of fl t k)"
  by (simp add: record_observation_at_def Let_def split_beta btree_simps
      observation_of_def [of fl "pt_observations_update _ _"] observation_of_def [of fl t k])

lemma observe_error_failures:
  "ob_consecutive_failures (observe_error fl a err now ob) =
     (if err then sat_add (ob_consecutive_failures ob) 1 else 0)"
  by (simp add: observe_error_def Let_def)

lemma observe_error_circuit:
  "ob_circuit_open_until_millis (observe_error fl a False now ob) = None"
  "3 \<le> unat (sat_add (ob_consecutive_failures ob) 1) \<Longrightarrow>
     ob_circuit_open_until_millis (observe_error fl a True now ob) = Some (sat_add now 30000)"
  by (simp_all add: observe_error_def Let_def DEFAULT_ERROR_CIRCUIT_BREAKER_CONSECUTIVE_FAILURES_def
      DEFAULT_ERROR_CIRCUIT_BREAKER_COOLOFF_MILLIS_def word_le_nat_alt)

lemma observation_of_refusal:
  "ob_consecutive_failures (observation_of fl (snd (record_capacity_refusal_at fl key now t)) k) =
     ob_consecutive_failures (observation_of fl t k)"
  by (auto simp: record_capacity_refusal_at_def observation_of_def Let_def split_beta btree_simps split: option.split)

lemma observation_of_cong: "pt_observations t' = pt_observations t \<Longrightarrow> observation_of fl t' k = observation_of fl t k"
  by (simp add: observation_of_def)

lemma step_failures:
  assumes "table_wf t"
  shows "unat (ob_consecutive_failures (observation_of fl (table_step fl op t) key)) =
    min (fail_count key op (unat (ob_consecutive_failures (observation_of fl t key)))) (2 ^ 32 - 1)"
proof -
  have le: "min (unat (w :: u32)) (2 ^ 32 - 1) = unat w" for w
    using unat_le_max [of w] by (simp add: min_def)
  have keep: "unat (ob_consecutive_failures (observation_of fl t' key)) =
      min (unat (ob_consecutive_failures (observation_of fl t key))) (2 ^ 32 - 1)"
    if "pt_observations t' = pt_observations t" for t'
    unfolding le observation_of_cong [OF that] ..
  show ?thesis
  proof (cases op)
    case (SetTtl ttl)
    then show ?thesis by (simp only: table_step.simps fail_count.simps) (rule keep, simp add: set_heartbeat_ttl_millis_def)
  next
    case (ReplaceContracts rs)
    then show ?thesis by (simp only: table_step.simps fail_count.simps) (rule keep, rule replace_contract_snapshot_keeps(3) [OF assms])
  next
    case (UpsertContract r)
    then show ?thesis by (simp only: table_step.simps fail_count.simps) (rule keep, simp)
  next
    case (Heartbeat h now)
    then show ?thesis by (simp only: table_step.simps fail_count.simps) (rule keep, rule upsert_heartbeat_keeps(3) [OF assms])
  next
    case (FallbackHeartbeat h now)
    have "pt_observations (upsert_fallback_heartbeat h now t) = pt_observations t"
      using upsert_fallback_cases [of h now t] upsert_heartbeat_keeps(3) [OF assms, of h now] by auto
    with FallbackHeartbeat show ?thesis by (simp only: table_step.simps fail_count.simps) (rule keep)
  next
    case (CapacityRefusal k now)
    then show ?thesis by (simp only: table_step.simps fail_count.simps observation_of_refusal le)
  next
    case (Observe k s now)
    then show ?thesis using le [of "ob_consecutive_failures (observation_of fl t key)"]
      by (auto simp: observation_of_record observe_error_failures unat_sat_add)
  qed
qed

lemma run_failures:
  "unat (ob_consecutive_failures (observation_of fl (table_run fl ops) key)) = min (failures key ops) (2 ^ 32 - 1)"
proof (induction ops rule: rev_induct)
  case Nil
  show ?case by (simp add: table_run_def table_new_def with_config_def observation_of_def observation_default_def failures_def)
next
  case (snoc op ops)
  have run: "table_run fl (ops @ [op]) = table_step fl op (table_run fl ops)" by (simp add: table_run_def)
  have "min (fail_count key op (min n (2 ^ 32 - 1))) (2 ^ 32 - 1) = min (fail_count key op n) (2 ^ 32 - 1)" for n
    by (cases op) auto
  then show ?case unfolding run step_failures [OF table_run_wf] snoc.IH by (simp add: failures_def)
qed

text \<open>A route whose history ends in three failures is closed for thirty seconds from the last one.\<close>

lemma circuit_after_failure:
  assumes "os_error s" "3 \<le> failures key (ops @ [Observe key s now])"
  shows "ob_circuit_open_until_millis (observation_of fl (table_run fl (ops @ [Observe key s now])) key) =
    Some (sat_add now 30000)"
proof -
  let ?t = "table_run fl ops"
  have run: "table_run fl (ops @ [Observe key s now]) = snd (record_observation_at fl key s now ?t)"
    by (simp add: table_run_def)
  have "unat (sat_add (ob_consecutive_failures (observation_of fl ?t key)) 1) = min (Suc (failures key ops)) (2 ^ 32 - 1)"
    by (simp add: unat_sat_add run_failures)
  moreover have "3 \<le> Suc (failures key ops)" using assms by (simp add: failures_def)
  ultimately have "3 \<le> unat (sat_add (ob_consecutive_failures (observation_of fl ?t key)) 1)" by simp
  then show ?thesis unfolding run observation_of_record using assms(1) by (simp add: observe_error_circuit(2))
qed

lemma circuit_after_success:
  assumes "\<not> os_error s"
  shows "ob_circuit_open_until_millis (observation_of fl (table_run fl (ops @ [Observe key s now])) key) = None"
  using assms by (simp add: table_run_def observation_of_record observe_error_circuit(1))

text \<open>
  Refusals of one route, each with the heartbeat that was live at the time, from an observation
  without a mismatch: \<open>rounds\<close> counts the runs of refusals under different heartbeats.
\<close>

definition rounds :: "'f live_heartbeat list \<Rightarrow> nat" where
  "rounds lives = length (remdups_adj (map lh_received_at_millis lives))"

definition mismatch_state :: "'f live_heartbeat list \<Rightarrow> 'f provider_observation \<Rightarrow> bool" where
  "mismatch_state lives ob \<longleftrightarrow>
     unat (ob_capacity_mismatch_streak ob) = min (rounds lives) (2 ^ 32 - 1) \<and>
     ob_capacity_mismatch_event_emitted ob = (3 \<le> rounds lives) \<and>
     ob_capacity_mismatch_last_heartbeat_received_at_millis ob =
       (if lives = [] then None else Some (lh_received_at_millis (last lives)))"

lemma remdups_adj_snoc:
  "remdups_adj (xs @ [x]) = (if xs \<noteq> [] \<and> last xs = x then remdups_adj xs else remdups_adj xs @ [x])"
  by (induction xs rule: remdups_adj.induct) auto

lemma refuse_mismatch:
  assumes "mismatch_state lives ob" "advertised_free_capacity fl (lh_heartbeat live)"
  shows "mismatch_state (lives @ [live]) (snd (refuse fl key live now ob))"
    and "(fst (refuse fl key live now ob) \<noteq> None) = (rounds lives = 2 \<and> rounds (lives @ [live]) = 3)"
    and "fst (refuse fl key live now ob) = Some ev \<Longrightarrow> ce_key ev = key \<and> ce_streak ev = 3 \<and> ce_observed_at_millis ev = now"
proof -
  let ?new = "\<not> (lives \<noteq> [] \<and> lh_received_at_millis (last lives) = lh_received_at_millis live)"
  have rounds: "rounds (lives @ [live]) = (if ?new then Suc (rounds lives) else rounds lives)"
    by (auto simp: rounds_def remdups_adj_snoc last_map)
  have new: "ob_capacity_mismatch_last_heartbeat_received_at_millis ob = Some (lh_received_at_millis live) \<longleftrightarrow> \<not> ?new"
    using assms(1) by (auto simp: mismatch_state_def)
  have streak: "unat (sat_add (ob_capacity_mismatch_streak ob) 1) = min (Suc (rounds lives)) (2 ^ 32 - 1)"
    using assms(1) by (simp add: mismatch_state_def unat_sat_add)
  have below: "sat_add (ob_capacity_mismatch_streak ob) 1 < (3 :: u32) \<longleftrightarrow> Suc (rounds lives) < 3"
    by (simp add: word_less_nat_alt streak min_less_iff_disj)
  have all: "mismatch_state (lives @ [live]) (snd (refuse fl key live now ob)) \<and>
      (fst (refuse fl key live now ob) \<noteq> None) = (rounds lives = 2 \<and> rounds (lives @ [live]) = 3) \<and>
      (fst (refuse fl key live now ob) = Some ev \<longrightarrow> ce_key ev = key \<and> ce_streak ev = 3 \<and> ce_observed_at_millis ev = now)"
  proof (cases ?new)
    case False
    then show ?thesis using assms new rounds by (auto simp: refuse_def Let_def mismatch_state_def)
  next
    case True
    have "sat_add (ob_capacity_mismatch_streak ob) 1 = 3" if "rounds lives = 2"
      using that streak by (simp add: word_unat_eq_iff)
    then show ?thesis using assms new rounds streak True below
      by (auto simp: refuse_def Let_def mismatch_state_def DEFAULT_CAPACITY_MISMATCH_EVENT_STREAK_def)
  qed
  then show "mismatch_state (lives @ [live]) (snd (refuse fl key live now ob))"
    and "(fst (refuse fl key live now ob) \<noteq> None) = (rounds lives = 2 \<and> rounds (lives @ [live]) = 3)"
    and "fst (refuse fl key live now ob) = Some ev \<Longrightarrow> ce_key ev = key \<and> ce_streak ev = 3 \<and> ce_observed_at_millis ev = now"
    by auto
qed

lemma rounds_snoc: "rounds (lives @ [live]) = rounds lives \<or> rounds (lives @ [live]) = Suc (rounds lives)"
  by (simp add: rounds_def remdups_adj_snoc)

lemma refusals_run:
  assumes "mismatch_state lives ob" "list_all (\<lambda>(live, now). advertised_free_capacity fl (lh_heartbeat live)) refusals"
  shows "let (events, ob') = run_outputs (\<lambda>(live, now). refuse fl key live now) refusals ob
    in mismatch_state (lives @ map fst refusals) ob' \<and>
       length (filter (\<lambda>e. e \<noteq> None) events) =
         (if rounds lives < 3 \<and> 3 \<le> rounds (lives @ map fst refusals) then 1 else 0)"
  using assms
proof (induction refusals arbitrary: lives ob)
  case (Cons r refusals)
  obtain live now where r: "r = (live, now)" by (cases r)
  have adv: "advertised_free_capacity fl (lh_heartbeat live)" using Cons.prems(2) r by simp
  note step = refuse_mismatch [OF Cons.prems(1) adv, of key now]
  have "rounds (lives @ [live]) \<le> rounds ((lives @ [live]) @ ls)" for ls :: "'a live_heartbeat list"
  proof (induction ls rule: rev_induct)
    case (snoc l ls)
    then show ?case using rounds_snoc [of "(lives @ [live]) @ ls" l] by auto
  qed simp
  from this [of "map fst refusals"] rounds_snoc [of lives live]
    Cons.IH [OF step(1)] Cons.prems(2) step(2)
  show ?case by (simp add: r Let_def split_beta) force
qed (simp add: Let_def)

text \<open>
  Over any sequence of refusals of a route that advertised free capacity, from an observation
  without a mismatch, the gateway reports a capacity mismatch exactly once, when the refusals span
  three heartbeats, and never again; refusals under one and the same heartbeat count once. The streak
  is the number of heartbeats spanned, saturating at 32 bits.
\<close>

lemma capacity_mismatch_once:
  assumes "mismatch_state [] ob" "list_all (\<lambda>(live, now). advertised_free_capacity fl (lh_heartbeat live)) refusals"
  shows "length (filter (\<lambda>e. e \<noteq> None) (fst (run_outputs (\<lambda>(live, now). refuse fl key live now) refusals ob))) =
      (if 3 \<le> rounds (map fst refusals) then 1 else 0) \<and>
    unat (ob_capacity_mismatch_streak (snd (run_outputs (\<lambda>(live, now). refuse fl key live now) refusals ob))) =
      min (rounds (map fst refusals)) (2 ^ 32 - 1)"
  using refusals_run [OF assms, of key] by (simp add: Let_def split_beta rounds_def mismatch_state_def)

lemma upsert_heartbeat_stored:
  "kl \<in> set (pt_heartbeats (upsert_heartbeat h now t)) \<Longrightarrow>
     kl \<in> set (pt_heartbeats t) \<or> lh_heartbeat (snd kl) = h \<and> lh_received_at_millis (snd kl) = now"
  by (auto simp: upsert_heartbeat_def Let_def split: if_splits dest!: set_bt_insertD)

text \<open>Every stored heartbeat was filed by one of the two operations, at the time that is stored with it.\<close>

lemma stored_heartbeat:
  "kl \<in> set (pt_heartbeats (table_run fl ops)) \<Longrightarrow>
     Heartbeat (lh_heartbeat (snd kl)) (lh_received_at_millis (snd kl)) \<in> set ops \<or>
     FallbackHeartbeat (lh_heartbeat (snd kl)) (lh_received_at_millis (snd kl)) \<in> set ops"
proof (induction ops rule: rev_induct)
  case Nil
  then show ?case by (simp add: table_run_def table_new_def with_config_def)
next
  case (snoc op ops)
  let ?t = "table_run fl ops"
  let ?filed = "{Heartbeat (lh_heartbeat (snd kl)) (lh_received_at_millis (snd kl)), FallbackHeartbeat (lh_heartbeat (snd kl)) (lh_received_at_millis (snd kl))}"
  have stored: "kl \<in> set (pt_heartbeats (table_step fl op ?t))" using snoc.prems by (simp add: table_run_def)
  have "kl \<in> set (pt_heartbeats ?t) \<or> op \<in> ?filed"
  proof (cases op)
    case (Heartbeat h now)
    then show ?thesis using stored upsert_heartbeat_stored by fastforce
  next
    case (FallbackHeartbeat h now)
    then show ?thesis
      using stored upsert_heartbeat_stored [of kl h now ?t] upsert_fallback_cases [of h now ?t] by auto
  next
    case (ReplaceContracts rs)
    then show ?thesis using stored replace_contract_snapshot_keeps(2) [OF table_run_wf, of rs fl ops] by simp
  qed (use stored in \<open>simp_all add: set_heartbeat_ttl_millis_def\<close>)
  with snoc.IH show ?case by auto
qed

section \<open>Examples\<close>

definition sample_key :: provider_key where
  "sample_key = ProviderKey (replicate 64 CHR ''a'') (replicate 64 CHR ''b'') (replicate 32 CHR ''c'')"

definition sample_caps :: heartbeat_caps where
  "sample_caps = \<lparr>ca_tools = True, ca_json = True, ca_ctx = 8192, ca_vision = False,
     ca_served_modalities = [''text''], ca_modality_capacity = [], ca_served_specialities = []\<rparr>"

definition sample_heartbeat :: "u64 \<Rightarrow> nat provider_heartbeat" where
  "sample_heartbeat ts =
     \<lparr>hb_prefix_caching = Some True, hb_t = ''hb'', hb_v = 4, hb_contract_version = 25,
      hb_provider = pk_provider sample_key, hb_enclave_id = pk_enclave_id sample_key, hb_model_id = ''m'',
      hb_room_id = pk_room_id sample_key, hb_sat = 1000,
      hb_slots = \<lparr>hs_active = 1, hs_active_requests = 1, hs_max = 4\<rparr>,
      hb_q = \<lparr>hq_free_slots = 3, hq_engine_backlog = 0, hq_est_wait_ms = 0\<rparr>,
      hb_perf = \<lparr>hp_tok_s = Some 400000, hp_ttft_ms = 200\<rparr>, hb_price_ver = 1, hb_min_ask_au = 0,
      hb_transport_peer = None, hb_identity_anchor = None, hb_inventory_root = None, hb_runtime_id = None,
      hb_execution_mode = None, hb_workflow_classes = [], hb_accepting_new = True, hb_caps = sample_caps,
      hb_att = \<lparr>ha_epoch = 2, ha_head = replicate 64 CHR ''d''\<rparr>, hb_ts = ts, hb_nonce = replicate 64 CHR ''e'',
      hb_sig = replicate 128 CHR ''f''\<rparr>"

definition sample_live :: "u64 \<Rightarrow> nat live_heartbeat" where
  "sample_live at = \<lparr>lh_heartbeat = sample_heartbeat at, lh_received_at_millis = at, lh_freshness_at_millis = at\<rparr>"

theorem table_never_goes_back_witness:
  "\<exists>live'. bt_get (pt_heartbeats (table_run fixed_ops
      ([Heartbeat (sample_heartbeat 5) 6] @ [Heartbeat (sample_heartbeat 9) 10, Heartbeat (sample_heartbeat 7) 11])))
      sample_key = Some live' \<and> 5 \<le> hb_ts (lh_heartbeat live')"
proof -
  have key: "from_heartbeat (sample_heartbeat 5) = sample_key"
    by (simp add: from_heartbeat_def sample_heartbeat_def sample_key_def)
  have "bt_get (pt_heartbeats (table_run fixed_ops [Heartbeat (sample_heartbeat 5) 6])) sample_key =
      Some \<lparr>lh_heartbeat = sample_heartbeat 5, lh_received_at_millis = 6, lh_freshness_at_millis = 5\<rparr>"
    by (simp add: table_run_def upsert_heartbeat_get key hb_stamp_def table_new_def with_config_def)
      (simp add: sample_heartbeat_def min_def)
  from table_never_goes_back [THEN conjunct1, rule_format, OF this] show ?thesis
    by (auto simp: sample_heartbeat_def)
qed

lemma capacity_mismatch_once_witness:
  "length (filter (\<lambda>e. e \<noteq> None) (fst (run_outputs (\<lambda>(live, now). refuse fixed_ops sample_key live now)
      [(sample_live 1, 2), (sample_live 1, 3), (sample_live 4, 5), (sample_live 6, 7), (sample_live 8, 9)]
      (observation_default fixed_ops)))) = 1"
proof -
  have "mismatch_state [] (observation_default fixed_ops)"
    by (simp add: mismatch_state_def observation_default_def rounds_def)
  moreover have "list_all (\<lambda>(live, now). advertised_free_capacity fixed_ops (lh_heartbeat live))
      [(sample_live 1, 2 :: u64), (sample_live 1, 3), (sample_live 4, 5), (sample_live 6, 7), (sample_live 8, 9)]"
    by (simp add: advertised_free_capacity_def sample_live_def sample_heartbeat_def fixed_ops_def
        DEFAULT_SATURATION_CUTOFF_def)
  ultimately show ?thesis
    using capacity_mismatch_once [of "observation_default fixed_ops" fixed_ops
        "[(sample_live 1, 2), (sample_live 1, 3), (sample_live 4, 5), (sample_live 6, 7), (sample_live 8, 9)]" sample_key]
    by (simp add: rounds_def sample_live_def)
qed

end
