(* ===== verification/Route_Eligibility.thy ===== *)
theory Route_Eligibility
  imports Provider_Table
begin

text \<open>
  Which routes a request may use (\<open>mayhem-gateway/src/provider_table.rs\<close>): the baseline state of a
  route, and the eligibility check that returns the estimated price or the first reason to refuse.
  The code is a chain of early returns; \<open>eligible\<close> states the condition it decides, and the two are
  proved equivalent.
\<close>

section \<open>Data\<close>

record 'f baseline_route_requirements =
  br_current_rules_ver :: u64
  br_requires_transport_peer :: bool
  br_now_millis :: u64
  br_max_attestation_head_age_millis :: u64
  br_heartbeat_ttl_millis :: u64
  br_saturation_cutoff :: 'f

datatype baseline_state =
  Live | ConsentVersionState | CircuitOpenState | AttestationPolicyNotReady | PrefixCachingRequiredState
| HeartbeatMissingState | HeartbeatStaleState | TransportPeerMissingState | DrainingState | SaturatedState
| AtCapacity | AttestationMissingState | AttestationStaleState

record workflow_route_requirements =
  wr_runtime_id :: string
  wr_outcome_class :: string
  wr_inventory_root :: "string option"

record modality_request_load =
  ml_item_count :: u32
  ml_max_item_bytes :: u64
  ml_max_item_units :: u64

record 'f request_requirements =
  rr_current_rules_ver :: u64
  rr_min_reputation :: 'f
  rr_requires_transport_peer :: bool
  rr_requires_tools :: bool
  rr_requires_json :: bool
  rr_requires_vision :: bool
  rr_required_modalities :: "string list"
  rr_required_specialities :: "(string, string) btree"
  rr_workflow :: "workflow_route_requirements option"
  rr_compatible_execution_modes :: "execution_mode_binding list option"
  rr_modality_load :: "(string, modality_request_load) btree"
  rr_min_ctx :: u32
  rr_input_tokens :: u64
  rr_output_tokens :: u64
  rr_usage :: receipt_usage
  rr_max_price_au :: "money_au option"
  rr_min_throughput :: "'f option"
  rr_now_millis :: u64
  rr_max_attestation_head_age_millis :: u64
  rr_heartbeat_ttl_millis :: u64
  rr_saturation_cutoff :: 'f
  rr_provider_user_active_sessions :: "(string, u32) btree"

datatype ineligibility_reason =
  PrefixCachingRequired | ConsentVersion | Reputation | AttestationPolicy | HeartbeatMissing | HeartbeatStale
| TransportPeerMissing | Draining | Saturated | Capabilities | Speciality | ModalityCapacity | Price
| ProviderMinAsk | ProbationConcurrentLimit | ProbationPriceCap | AttestationMissing | AttestationStale
| CircuitOpen | ThroughputFloor | Workflow | ExecutionMode

fun ineligibility_code :: "ineligibility_reason \<Rightarrow> string" where
  "ineligibility_code ConsentVersion = ''consent_version''"
| "ineligibility_code Reputation = ''reputation''"
| "ineligibility_code AttestationPolicy = ''attestation_policy''"
| "ineligibility_code HeartbeatMissing = ''heartbeat_missing''"
| "ineligibility_code HeartbeatStale = ''heartbeat_stale''"
| "ineligibility_code TransportPeerMissing = ''transport_peer_missing''"
| "ineligibility_code Draining = ''not_accepting''"
| "ineligibility_code Saturated = ''saturated''"
| "ineligibility_code Capabilities = ''capabilities''"
| "ineligibility_code Speciality = ''speciality''"
| "ineligibility_code ModalityCapacity = ''modality_capacity''"
| "ineligibility_code Price = ''price''"
| "ineligibility_code ProviderMinAsk = ''provider_min_ask''"
| "ineligibility_code ProbationConcurrentLimit = ''probation_concurrent_limit''"
| "ineligibility_code ProbationPriceCap = ''probation_price_cap''"
| "ineligibility_code AttestationMissing = ''attestation_missing''"
| "ineligibility_code AttestationStale = ''attestation_stale''"
| "ineligibility_code CircuitOpen = ''circuit_open''"
| "ineligibility_code ThroughputFloor = ''throughput_floor''"
| "ineligibility_code Workflow = ''workflow''"
| "ineligibility_code ExecutionMode = ''execution_mode''"
| "ineligibility_code PrefixCachingRequired = ''prefix_caching_required''"

fun state_ineligibility_reason :: "baseline_state \<Rightarrow> ineligibility_reason option" where
  "state_ineligibility_reason Live = None"
| "state_ineligibility_reason PrefixCachingRequiredState = Some PrefixCachingRequired"
| "state_ineligibility_reason ConsentVersionState = Some ConsentVersion"
| "state_ineligibility_reason CircuitOpenState = Some CircuitOpen"
| "state_ineligibility_reason AttestationPolicyNotReady = Some AttestationPolicy"
| "state_ineligibility_reason HeartbeatMissingState = Some HeartbeatMissing"
| "state_ineligibility_reason HeartbeatStaleState = Some HeartbeatStale"
| "state_ineligibility_reason TransportPeerMissingState = Some TransportPeerMissing"
| "state_ineligibility_reason DrainingState = Some Draining"
| "state_ineligibility_reason SaturatedState = Some Saturated"
| "state_ineligibility_reason AtCapacity = Some Saturated"
| "state_ineligibility_reason AttestationMissingState = Some AttestationMissing"
| "state_ineligibility_reason AttestationStaleState = Some AttestationStale"

definition is_live :: "baseline_state \<Rightarrow> bool" where
  "is_live s \<longleftrightarrow> s = Live"

definition baseline_requirements_default :: "'f f64_ops \<Rightarrow> 'f baseline_route_requirements" where
  "baseline_requirements_default fl =
     \<lparr>br_current_rules_ver = 1, br_requires_transport_peer = False, br_now_millis = 0,
      br_max_attestation_head_age_millis = DEFAULT_ATTESTATION_HEAD_MAX_AGE_MILLIS,
      br_heartbeat_ttl_millis = DEFAULT_PROVIDER_HEARTBEAT_TTL_MILLIS,
      br_saturation_cutoff = DEFAULT_SATURATION_CUTOFF fl\<rparr>"

definition baseline_from_request :: "'f request_requirements \<Rightarrow> 'f baseline_route_requirements" where
  "baseline_from_request request =
     \<lparr>br_current_rules_ver = rr_current_rules_ver request,
      br_requires_transport_peer = rr_requires_transport_peer request,
      br_now_millis = rr_now_millis request,
      br_max_attestation_head_age_millis = rr_max_attestation_head_age_millis request,
      br_heartbeat_ttl_millis = rr_heartbeat_ttl_millis request,
      br_saturation_cutoff = rr_saturation_cutoff request\<rparr>"

definition request_requirements_default :: "'f f64_ops \<Rightarrow> 'f request_requirements" where
  "request_requirements_default fl =
     \<lparr>rr_current_rules_ver = 1, rr_min_reputation = f_zero fl, rr_requires_transport_peer = False,
      rr_requires_tools = False, rr_requires_json = False, rr_requires_vision = False,
      rr_required_modalities = [], rr_required_specialities = [], rr_workflow = None,
      rr_compatible_execution_modes = None, rr_modality_load = [], rr_min_ctx = 0, rr_input_tokens = 0,
      rr_output_tokens = 0, rr_usage = usage_default, rr_max_price_au = None, rr_min_throughput = None,
      rr_now_millis = 0, rr_max_attestation_head_age_millis = DEFAULT_ATTESTATION_HEAD_MAX_AGE_MILLIS,
      rr_heartbeat_ttl_millis = DEFAULT_PROVIDER_HEARTBEAT_TTL_MILLIS,
      rr_saturation_cutoff = DEFAULT_SATURATION_CUTOFF fl, rr_provider_user_active_sessions = []\<rparr>"

section \<open>The baseline state of a route\<close>

definition some_and :: "'a option \<Rightarrow> ('a \<Rightarrow> bool) \<Rightarrow> bool" where
  "some_and x P = (case x of None \<Rightarrow> False | Some v \<Rightarrow> P v)"

definition baseline_route_state ::
    "'f f64_ops \<Rightarrow> 'f provider_table_entry \<Rightarrow> 'f baseline_route_requirements \<Rightarrow> baseline_state" where
  "baseline_route_state fl entry requirements =
     (if cs_consent_ver (te_contract entry) \<noteq> br_current_rules_ver requirements then ConsentVersionState
      else if some_and (ob_circuit_open_until_millis (te_observed entry)) (\<lambda>until. until > br_now_millis requirements)
      then CircuitOpenState
      else if ap_policy_required (cs_attestation_policy (te_contract entry)) \<and>
              \<not> ap_locally_ready (cs_attestation_policy (te_contract entry))
      then AttestationPolicyNotReady
      else case te_heartbeat entry of
        None \<Rightarrow>
          (if some_and (te_heartbeat_age_millis entry) (\<lambda>age. age > br_heartbeat_ttl_millis requirements)
           then HeartbeatStaleState else HeartbeatMissingState)
      | Some h \<Rightarrow>
          if te_heartbeat_age_millis entry = None \<or>
             some_and (te_heartbeat_age_millis entry) (\<lambda>age. age > br_heartbeat_ttl_millis requirements)
          then HeartbeatStaleState
          else if list_ex (\<lambda>rate. rate_unit rate = USAGE_OUTPUT_TOKEN)
                    (cs_ref_rate_map (te_contract entry) @ cs_rate_map (te_contract entry)) \<and>
                  hb_prefix_caching h \<noteq> Some True
          then PrefixCachingRequiredState
          else if br_requires_transport_peer requirements \<and> hb_transport_peer h = None
          then TransportPeerMissingState
          else if \<not> hb_accepting_new h then DrainingState
          else if f_le fl (br_saturation_cutoff requirements) (hb_sat h) then SaturatedState
          else if hs_active (hb_slots h) \<ge> hs_max (hb_slots h) \<or> hq_free_slots (hb_q h) = 0 then AtCapacity
          else case te_attestation_head entry of
            None \<Rightarrow> AttestationMissingState
          | Some attestation \<Rightarrow>
              if sat_sub (br_now_millis requirements) (ah_observed_at_millis attestation) >
                 br_max_attestation_head_age_millis requirements
              then AttestationStaleState else Live)"

section \<open>The eligibility check\<close>

definition estimate_request_price_au :: "'f contract_provider_snapshot \<Rightarrow> 'f request_requirements \<Rightarrow> money_au" where
  "estimate_request_price_au contract request =
     priced_usage_au (cs_rate_map contract) (cs_per_req_au contract) (cs_min_session_au contract) (rr_usage request)"

definition estimate_reference_request_price_au ::
    "'f contract_provider_snapshot \<Rightarrow> 'f request_requirements \<Rightarrow> money_au" where
  "estimate_reference_request_price_au contract request = text_usage_au (cs_ref_rate_map contract) (rr_usage request)"

text \<open>The products are the plain \<open>u128\<close> operator: they wrap in a release build.\<close>

definition probation_price_over_cap :: "money_au \<Rightarrow> money_au \<Rightarrow> u32 \<Rightarrow> bool" where
  "probation_price_over_cap estimated_price_au reference_price_au cap_bps \<longleftrightarrow>
     estimated_price_au * 10000 > reference_price_au * ucast cap_bps"

definition effective_throughput :: "'f f64_ops \<Rightarrow> 'f provider_table_entry \<Rightarrow> 'f option" where
  "effective_throughput fl entry =
     filter_option (\<lambda>v. f_is_finite fl v \<and> f_le fl (f_zero fl) v)
       (case ob_ewma_tok_s (te_observed entry) of
          Some v \<Rightarrow> Some v
        | None \<Rightarrow> Option.bind (te_heartbeat entry) (\<lambda>h. hp_tok_s (hb_perf h)))"

definition mode_incompatible :: "'f request_requirements \<Rightarrow> 'f provider_heartbeat \<Rightarrow> bool" where
  "mode_incompatible request h =
     (case (rr_compatible_execution_modes request, hb_execution_mode h) of
        (Some compatible, Some actual) \<Rightarrow> actual \<notin> set compatible
      | _ \<Rightarrow> False)"

definition lacks_capability ::
    "'f provider_table_entry \<Rightarrow> 'f request_requirements \<Rightarrow> 'f provider_heartbeat \<Rightarrow> bool" where
  "lacks_capability entry request h \<longleftrightarrow>
     rr_requires_tools request \<and> \<not> ca_tools (hb_caps h) \<or>
     rr_requires_json request \<and> \<not> ca_json (hb_caps h) \<or>
     rr_requires_vision request \<and> \<not> ca_vision (hb_caps h) \<or>
     list_ex (\<lambda>modality. modality \<notin> set (ca_served_modalities (hb_caps h)) \<or>
                modality \<notin> set (ca_served_modalities (cs_caps (te_contract entry)))) (rr_required_modalities request) \<or>
     ca_ctx (hb_caps h) < rr_min_ctx request"

definition serves_level :: "heartbeat_caps \<Rightarrow> string \<Rightarrow> string \<Rightarrow> bool" where
  "serves_level caps name level = some_and (bt_get (ca_served_specialities caps) name) (\<lambda>levels. level \<in> set levels)"

definition lacks_speciality ::
    "'f provider_table_entry \<Rightarrow> 'f request_requirements \<Rightarrow> 'f provider_heartbeat \<Rightarrow> bool" where
  "lacks_speciality entry request h =
     list_ex (\<lambda>(name, level). \<not> serves_level (hb_caps h) name level \<or>
                \<not> serves_level (cs_caps (te_contract entry)) name level) (rr_required_specialities request)"

text \<open>The workflow gate; it yields the floor the provider asks for.\<close>

definition workflow_min_ask ::
    "'f request_requirements \<Rightarrow> 'f provider_heartbeat \<Rightarrow> ineligibility_reason + money_au" where
  "workflow_min_ask request h =
     (case rr_workflow request of
        None \<Rightarrow> Inr (hb_min_ask_au h)
      | Some workflow \<Rightarrow>
          if hb_runtime_id h \<noteq> Some (wr_runtime_id workflow) \<or>
             some_and (wr_inventory_root workflow) (\<lambda>inventory_root. hb_inventory_root h \<noteq> Some inventory_root)
          then Inl Workflow
          else case bt_get (hb_workflow_classes h) (wr_outcome_class workflow) of
            None \<Rightarrow> Inl Workflow
          | Some class \<Rightarrow>
              if wc_active class \<ge> wc_max_concurrent class then Inl Saturated else Inr (wc_min_ask_au class))"

definition empty_load :: "modality_request_load \<Rightarrow> bool" where
  "empty_load load \<longleftrightarrow> ml_item_count load = 0 \<or> ml_max_item_bytes load = 0 \<or> ml_max_item_units load = 0"

definition exceeds_capacity :: "modality_request_load \<Rightarrow> heartbeat_modality_capacity \<Rightarrow> bool" where
  "exceeds_capacity load capacity \<longleftrightarrow>
     empty_load load \<or>
     ml_item_count load > mo_max_items_per_request capacity \<or>
     ml_max_item_bytes load > mo_max_item_bytes capacity \<or>
     ml_max_item_units load > mo_max_item_units capacity \<or>
     sat_add (mo_active_items capacity) (ml_item_count load) > mo_max_inflight_items capacity"

fun check_modality_loads ::
    "'f request_requirements \<Rightarrow> 'f provider_heartbeat \<Rightarrow> string list \<Rightarrow> ineligibility_reason + unit" where
  "check_modality_loads request h [] = Inr ()"
| "check_modality_loads request h (modality # rest) =
     rbind (ok_or (bt_get (rr_modality_load request) modality) ModalityCapacity) (\<lambda>load.
     rbind (ok_or (bt_get (ca_modality_capacity (hb_caps h)) modality) ModalityCapacity) (\<lambda>capacity.
     rbind (ensure (\<not> exceeds_capacity load capacity) ModalityCapacity) (\<lambda>_.
     check_modality_loads request h rest)))"

definition stray_load :: "'f request_requirements \<Rightarrow> bool" where
  "stray_load request =
     list_ex (\<lambda>(modality, load). modality = ''text'' \<or> modality \<notin> set (rr_required_modalities request) \<or> empty_load load)
       (rr_modality_load request)"

definition below_throughput_floor :: "'f f64_ops \<Rightarrow> 'f provider_table_entry \<Rightarrow> 'f request_requirements \<Rightarrow> bool" where
  "below_throughput_floor fl entry request =
     some_and (filter_option (\<lambda>v. f_is_finite fl v \<and> f_lt fl (f_zero fl) v) (rr_min_throughput request))
       (\<lambda>floor. some_and (effective_throughput fl entry) (\<lambda>throughput. f_lt fl throughput floor))"

definition check_probation ::
    "'f provider_table_entry \<Rightarrow> 'f request_requirements \<Rightarrow> money_au \<Rightarrow> ineligibility_reason + unit" where
  "check_probation entry request estimated_price_au =
     (case filter_option pp_active (cs_probation (te_contract entry)) of
        None \<Rightarrow> Inr ()
      | Some probation \<Rightarrow>
          (let active_sessions =
                 (case bt_get (rr_provider_user_active_sessions request) (cs_provider (te_contract entry)) of
                    None \<Rightarrow> 0 | Some n \<Rightarrow> n)
           in rbind (ensure (\<not> active_sessions \<ge> pb_max_concurrent_sessions_per_user (pp_caps probation))
                       ProbationConcurrentLimit) (\<lambda>_.
              ensure (\<not> probation_price_over_cap estimated_price_au
                          (estimate_reference_request_price_au (te_contract entry) request)
                          (pb_price_max_bps (pp_caps probation))) ProbationPriceCap)))"

definition evaluate_eligibility ::
    "'f f64_ops \<Rightarrow> 'f provider_table_entry \<Rightarrow> 'f request_requirements \<Rightarrow> ineligibility_reason + money_au" where
  "evaluate_eligibility fl entry request =
     rbind (ensure (cs_consent_ver (te_contract entry) = rr_current_rules_ver request) ConsentVersion) (\<lambda>_.
     rbind (ensure (\<not> f_lt fl (cs_reputation (te_contract entry)) (rr_min_reputation request)) Reputation) (\<lambda>_.
     case state_ineligibility_reason (baseline_route_state fl entry (baseline_from_request request)) of
       Some reason \<Rightarrow> Inl reason
     | None \<Rightarrow>
     rbind (ok_or (te_heartbeat entry) HeartbeatMissing) (\<lambda>h.
     rbind (ensure (\<not> mode_incompatible request h) ExecutionMode) (\<lambda>_.
     rbind (ensure (\<not> lacks_capability entry request h) Capabilities) (\<lambda>_.
     rbind (ensure (\<not> lacks_speciality entry request h) Speciality) (\<lambda>_.
     rbind (workflow_min_ask request h) (\<lambda>provider_min_ask_au.
     rbind (check_modality_loads request h
              (filter (\<lambda>modality. modality \<noteq> ''text'') (rr_required_modalities request))) (\<lambda>_.
     rbind (ensure (\<not> stray_load request) ModalityCapacity) (\<lambda>_.
     let estimated_price_au = estimate_request_price_au (te_contract entry) request;
         market_rate_au = rate_gate_basis_au (cs_rate_map (te_contract entry)) (cs_per_req_au (te_contract entry))
           (cs_min_session_au (te_contract entry))
     in
     rbind (ensure (\<not> some_and (rr_max_price_au request) (\<lambda>max_price_au. market_rate_au > max_price_au)) Price) (\<lambda>_.
     rbind (ensure (\<not> (provider_min_ask_au > 0 \<and> provider_min_ask_au > market_rate_au)) ProviderMinAsk) (\<lambda>_.
     rbind (ensure (\<not> below_throughput_floor fl entry request) ThroughputFloor) (\<lambda>_.
     rbind (check_probation entry request estimated_price_au) (\<lambda>_.
     Inr estimated_price_au)))))))))))))"

section \<open>What the checks decide\<close>

definition route_live ::
    "'f f64_ops \<Rightarrow> 'f provider_table_entry \<Rightarrow> 'f baseline_route_requirements \<Rightarrow> 'f provider_heartbeat \<Rightarrow> bool" where
  "route_live fl entry req h \<longleftrightarrow>
     cs_consent_ver (te_contract entry) = br_current_rules_ver req \<and>
     (\<forall>until. ob_circuit_open_until_millis (te_observed entry) = Some until \<longrightarrow> until \<le> br_now_millis req) \<and>
     (ap_policy_required (cs_attestation_policy (te_contract entry)) \<longrightarrow>
        ap_locally_ready (cs_attestation_policy (te_contract entry))) \<and>
     te_heartbeat entry = Some h \<and>
     (\<exists>age. te_heartbeat_age_millis entry = Some age \<and> age \<le> br_heartbeat_ttl_millis req) \<and>
     ((\<exists>rate \<in> set (cs_ref_rate_map (te_contract entry)) \<union> set (cs_rate_map (te_contract entry)).
         rate_unit rate = USAGE_OUTPUT_TOKEN) \<longrightarrow> hb_prefix_caching h = Some True) \<and>
     (br_requires_transport_peer req \<longrightarrow> hb_transport_peer h \<noteq> None) \<and>
     hb_accepting_new h \<and> \<not> f_le fl (br_saturation_cutoff req) (hb_sat h) \<and>
     hs_active (hb_slots h) < hs_max (hb_slots h) \<and> 0 < hq_free_slots (hb_q h) \<and>
     (\<exists>a. te_attestation_head entry = Some a \<and>
        unat (br_now_millis req) \<le> unat (ah_observed_at_millis a) + unat (br_max_attestation_head_age_millis req))"

definition modes_fit :: "'f request_requirements \<Rightarrow> 'f provider_heartbeat \<Rightarrow> bool" where
  "modes_fit request h \<longleftrightarrow>
     (\<forall>compatible actual. rr_compatible_execution_modes request = Some compatible \<longrightarrow>
        hb_execution_mode h = Some actual \<longrightarrow> actual \<in> set compatible)"

definition capabilities_fit ::
    "'f provider_table_entry \<Rightarrow> 'f request_requirements \<Rightarrow> 'f provider_heartbeat \<Rightarrow> bool" where
  "capabilities_fit entry request h \<longleftrightarrow>
     (rr_requires_tools request \<longrightarrow> ca_tools (hb_caps h)) \<and> (rr_requires_json request \<longrightarrow> ca_json (hb_caps h)) \<and>
     (rr_requires_vision request \<longrightarrow> ca_vision (hb_caps h)) \<and> rr_min_ctx request \<le> ca_ctx (hb_caps h) \<and>
     set (rr_required_modalities request) \<subseteq>
       set (ca_served_modalities (hb_caps h)) \<inter> set (ca_served_modalities (cs_caps (te_contract entry)))"

definition specialities_fit ::
    "'f provider_table_entry \<Rightarrow> 'f request_requirements \<Rightarrow> 'f provider_heartbeat \<Rightarrow> bool" where
  "specialities_fit entry request h \<longleftrightarrow>
     (\<forall>(name, level) \<in> set (rr_required_specialities request). \<forall>caps \<in> {hb_caps h, cs_caps (te_contract entry)}.
        \<exists>levels. bt_get (ca_served_specialities caps) name = Some levels \<and> level \<in> set levels)"

text \<open>The ask of a provider, for a plain request and for a workflow it can run now.\<close>

definition asks :: "'f request_requirements \<Rightarrow> 'f provider_heartbeat \<Rightarrow> money_au \<Rightarrow> bool" where
  "asks request h ask \<longleftrightarrow>
     (case rr_workflow request of
        None \<Rightarrow> ask = hb_min_ask_au h
      | Some w \<Rightarrow>
          hb_runtime_id h = Some (wr_runtime_id w) \<and>
          (\<forall>root. wr_inventory_root w = Some root \<longrightarrow> hb_inventory_root h = Some root) \<and>
          (\<exists>class. bt_get (hb_workflow_classes h) (wr_outcome_class w) = Some class \<and>
             wc_active class < wc_max_concurrent class \<and> ask = wc_min_ask_au class))"

text \<open>The throughput that counts: what was measured, or else what the heartbeat advertises.\<close>

definition delivers :: "'f provider_table_entry \<Rightarrow> 'f \<Rightarrow> bool" where
  "delivers entry v \<longleftrightarrow>
     ob_ewma_tok_s (te_observed entry) = Some v \<or>
     ob_ewma_tok_s (te_observed entry) = None \<and> (\<exists>h. te_heartbeat entry = Some h \<and> hp_tok_s (hb_perf h) = Some v)"

definition throughput_fits :: "'f f64_ops \<Rightarrow> 'f provider_table_entry \<Rightarrow> 'f request_requirements \<Rightarrow> bool" where
  "throughput_fits fl entry request \<longleftrightarrow>
     (\<forall>floor v. rr_min_throughput request = Some floor \<longrightarrow> f_is_finite fl floor \<longrightarrow> f_lt fl (f_zero fl) floor \<longrightarrow>
        delivers entry v \<longrightarrow> f_is_finite fl v \<longrightarrow> f_le fl (f_zero fl) v \<longrightarrow> \<not> f_lt fl v floor)"

definition loads_fit :: "'f request_requirements \<Rightarrow> 'f provider_heartbeat \<Rightarrow> bool" where
  "loads_fit request h \<longleftrightarrow>
     (\<forall>m \<in> set (rr_required_modalities request) - {''text''}.
        \<exists>load cap. bt_get (rr_modality_load request) m = Some load \<and>
          bt_get (ca_modality_capacity (hb_caps h)) m = Some cap \<and>
          ml_item_count load \<le> mo_max_items_per_request cap \<and> ml_max_item_bytes load \<le> mo_max_item_bytes cap \<and>
          ml_max_item_units load \<le> mo_max_item_units cap \<and>
          min (unat (mo_active_items cap) + unat (ml_item_count load)) (2 ^ 32 - 1) \<le> unat (mo_max_inflight_items cap)) \<and>
     (\<forall>(m, load) \<in> set (rr_modality_load request). m \<in> set (rr_required_modalities request) - {''text''} \<and>
        0 < ml_item_count load \<and> 0 < ml_max_item_bytes load \<and> 0 < ml_max_item_units load)"

definition price_fits ::
    "'f provider_table_entry \<Rightarrow> 'f request_requirements \<Rightarrow> money_au \<Rightarrow> money_au \<Rightarrow> bool" where
  "price_fits entry request market_rate ask \<longleftrightarrow>
     (\<forall>cap. rr_max_price_au request = Some cap \<longrightarrow> market_rate \<le> cap) \<and> ask \<le> market_rate"

definition sessions_of :: "'f provider_table_entry \<Rightarrow> 'f request_requirements \<Rightarrow> nat" where
  "sessions_of entry request =
     (case bt_get (rr_provider_user_active_sessions request) (cs_provider (te_contract entry)) of
        None \<Rightarrow> 0 | Some n \<Rightarrow> unat n)"

text \<open>The price cap of a provider on probation; both products are taken modulo \<open>2 ^ 128\<close>, as the code takes them.\<close>

definition within_cap :: "'f provider_table_entry \<Rightarrow> 'f request_requirements \<Rightarrow> money_au \<Rightarrow> provider_probation \<Rightarrow> bool" where
  "within_cap entry request price p \<longleftrightarrow>
     (unat price * 10000) mod 2 ^ 128 \<le>
       (unat (usage_map_au (cs_ref_rate_map (te_contract entry)) (rr_usage request)) * unat (pb_price_max_bps (pp_caps p))) mod 2 ^ 128"

definition probation_fits :: "'f provider_table_entry \<Rightarrow> 'f request_requirements \<Rightarrow> money_au \<Rightarrow> bool" where
  "probation_fits entry request price \<longleftrightarrow>
     (\<forall>p. cs_probation (te_contract entry) = Some p \<longrightarrow> pp_active p \<longrightarrow>
        sessions_of entry request < unat (pb_max_concurrent_sessions_per_user (pp_caps p)) \<and> within_cap entry request price p)"

abbreviation market_rate :: "'f provider_table_entry \<Rightarrow> money_au" where
  "market_rate entry \<equiv> rate_gate_basis_au (cs_rate_map (te_contract entry)) (cs_per_req_au (te_contract entry))
     (cs_min_session_au (te_contract entry))"

definition eligible :: "'f f64_ops \<Rightarrow> 'f provider_table_entry \<Rightarrow> 'f request_requirements \<Rightarrow> bool" where
  "eligible fl entry request \<longleftrightarrow>
     (\<exists>h ask. route_live fl entry (baseline_from_request request) h \<and>
        \<not> f_lt fl (cs_reputation (te_contract entry)) (rr_min_reputation request) \<and>
        modes_fit request h \<and> capabilities_fit entry request h \<and> specialities_fit entry request h \<and>
        asks request h ask \<and> loads_fit request h \<and> price_fits entry request (market_rate entry) ask \<and>
        throughput_fits fl entry request \<and>
        probation_fits entry request (estimate_request_price_au (te_contract entry) request))"

text \<open>What it means for a reason to refuse a route that the condition it names really fails.\<close>

definition heartbeat_lacks :: "'f provider_table_entry \<Rightarrow> ('f provider_heartbeat \<Rightarrow> bool) \<Rightarrow> bool" where
  "heartbeat_lacks entry P \<longleftrightarrow> (\<exists>h. te_heartbeat entry = Some h \<and> \<not> P h)"

fun refused_for :: "'f f64_ops \<Rightarrow> 'f provider_table_entry \<Rightarrow> 'f request_requirements \<Rightarrow> ineligibility_reason \<Rightarrow> bool" where
  "refused_for fl e q ConsentVersion \<longleftrightarrow> cs_consent_ver (te_contract e) \<noteq> rr_current_rules_ver q"
| "refused_for fl e q Reputation \<longleftrightarrow> f_lt fl (cs_reputation (te_contract e)) (rr_min_reputation q)"
| "refused_for fl e q CircuitOpen \<longleftrightarrow> (\<exists>until. ob_circuit_open_until_millis (te_observed e) = Some until \<and> rr_now_millis q < until)"
| "refused_for fl e q AttestationPolicy \<longleftrightarrow>
     ap_policy_required (cs_attestation_policy (te_contract e)) \<and> \<not> ap_locally_ready (cs_attestation_policy (te_contract e))"
| "refused_for fl e q HeartbeatMissing \<longleftrightarrow> te_heartbeat e = None"
| "refused_for fl e q HeartbeatStale \<longleftrightarrow> \<not> (\<exists>age. te_heartbeat_age_millis e = Some age \<and> age \<le> rr_heartbeat_ttl_millis q)"
| "refused_for fl e q PrefixCachingRequired \<longleftrightarrow>
     (\<exists>rate \<in> set (cs_ref_rate_map (te_contract e)) \<union> set (cs_rate_map (te_contract e)). rate_unit rate = USAGE_OUTPUT_TOKEN) \<and>
     heartbeat_lacks e (\<lambda>h. hb_prefix_caching h = Some True)"
| "refused_for fl e q TransportPeerMissing \<longleftrightarrow> rr_requires_transport_peer q \<and> heartbeat_lacks e (\<lambda>h. hb_transport_peer h \<noteq> None)"
| "refused_for fl e q Draining \<longleftrightarrow> heartbeat_lacks e hb_accepting_new"
| "refused_for fl e q Saturated \<longleftrightarrow>
     heartbeat_lacks e (\<lambda>h. \<not> f_le fl (rr_saturation_cutoff q) (hb_sat h) \<and> hs_active (hb_slots h) < hs_max (hb_slots h) \<and>
       0 < hq_free_slots (hb_q h) \<and>
       (\<forall>w class. rr_workflow q = Some w \<longrightarrow> bt_get (hb_workflow_classes h) (wr_outcome_class w) = Some class \<longrightarrow>
          wc_active class < wc_max_concurrent class))"
| "refused_for fl e q AttestationMissing \<longleftrightarrow> te_attestation_head e = None"
| "refused_for fl e q AttestationStale \<longleftrightarrow>
     (\<exists>a. te_attestation_head e = Some a \<and>
        unat (ah_observed_at_millis a) + unat (rr_max_attestation_head_age_millis q) < unat (rr_now_millis q))"
| "refused_for fl e q ExecutionMode \<longleftrightarrow> heartbeat_lacks e (modes_fit q)"
| "refused_for fl e q Capabilities \<longleftrightarrow> heartbeat_lacks e (capabilities_fit e q)"
| "refused_for fl e q Speciality \<longleftrightarrow> heartbeat_lacks e (specialities_fit e q)"
| "refused_for fl e q Workflow \<longleftrightarrow>
     (\<exists>w. rr_workflow q = Some w \<and> heartbeat_lacks e (\<lambda>h. hb_runtime_id h = Some (wr_runtime_id w) \<and>
        (\<forall>root. wr_inventory_root w = Some root \<longrightarrow> hb_inventory_root h = Some root) \<and>
        bt_get (hb_workflow_classes h) (wr_outcome_class w) \<noteq> None))"
| "refused_for fl e q ModalityCapacity \<longleftrightarrow> heartbeat_lacks e (loads_fit q)"
| "refused_for fl e q Price \<longleftrightarrow> (\<exists>cap. rr_max_price_au q = Some cap \<and> cap < market_rate e)"
| "refused_for fl e q ProviderMinAsk \<longleftrightarrow> heartbeat_lacks e (\<lambda>h. \<forall>ask. asks q h ask \<longrightarrow> ask \<le> market_rate e)"
| "refused_for fl e q ThroughputFloor \<longleftrightarrow> \<not> throughput_fits fl e q"
| "refused_for fl e q ProbationConcurrentLimit \<longleftrightarrow>
     (\<exists>p. cs_probation (te_contract e) = Some p \<and> pp_active p \<and>
        unat (pb_max_concurrent_sessions_per_user (pp_caps p)) \<le> sessions_of e q)"
| "refused_for fl e q ProbationPriceCap \<longleftrightarrow>
     (\<exists>p. cs_probation (te_contract e) = Some p \<and> pp_active p \<and>
        \<not> within_cap e q (estimate_request_price_au (te_contract e) q) p)"

lemma some_and_iff: "some_and x P \<longleftrightarrow> (\<exists>v. x = Some v \<and> P v)"
  by (cases x) (simp_all add: some_and_def)

lemma sat_sub_le_iff: "sat_sub a b \<le> c \<longleftrightarrow> unat a \<le> unat b + unat c" for a b c :: "'a::len word"
  by (simp add: word_le_nat_alt unat_sat_sub) linarith

lemma less_sat_sub_iff: "c < sat_sub a b \<longleftrightarrow> unat b + unat c < unat a" for a b c :: "'a::len word"
  using sat_sub_le_iff [of a b c] by (simp only: not_le [symmetric])

lemma baseline_route_state_Live:
  "baseline_route_state fl entry req = Live \<longleftrightarrow> (\<exists>h. route_live fl entry req h)"
  unfolding baseline_route_state_def route_live_def
  by (cases "te_heartbeat entry"; cases "te_heartbeat_age_millis entry"; cases "te_attestation_head entry")
    (auto simp: some_and_iff not_less not_le less_sat_sub_iff list_ex_iff word_gt_0)

lemma route_liveD:
  "route_live fl entry req h \<Longrightarrow>
     te_heartbeat entry = Some h \<and> cs_consent_ver (te_contract entry) = br_current_rules_ver req"
  by (simp add: route_live_def)

lemma state_ineligibility_reason_None: "state_ineligibility_reason s = None \<longleftrightarrow> s = Live"
  by (cases s) simp_all

lemma mode_incompatible_iff: "mode_incompatible request h \<longleftrightarrow> \<not> modes_fit request h"
  by (cases "rr_compatible_execution_modes request"; cases "hb_execution_mode h") (auto simp: mode_incompatible_def modes_fit_def)

lemma lacks_capability_iff: "lacks_capability entry request h \<longleftrightarrow> \<not> capabilities_fit entry request h"
  by (auto simp: lacks_capability_def capabilities_fit_def list_ex_iff not_less)

lemma lacks_speciality_iff: "lacks_speciality entry request h \<longleftrightarrow> \<not> specialities_fit entry request h"
  by (auto simp: lacks_speciality_def specialities_fit_def serves_level_def some_and_iff list_ex_iff)

lemma workflow_min_ask_Inr: "workflow_min_ask request h = Inr ask \<longleftrightarrow> asks request h ask"
  by (cases "rr_workflow request")
    (auto simp: workflow_min_ask_def asks_def some_and_iff not_le split: option.splits)

lemma below_throughput_floor_iff: "below_throughput_floor fl entry request \<longleftrightarrow> \<not> throughput_fits fl entry request"
proof -
  have "effective_throughput fl entry = Some v \<longleftrightarrow> delivers entry v \<and> f_is_finite fl v \<and> f_le fl (f_zero fl) v" for v
    by (cases "ob_ewma_tok_s (te_observed entry)"; cases "te_heartbeat entry")
      (auto simp: effective_throughput_def delivers_def filter_option_def split: option.splits if_splits)
  then show ?thesis
    by (cases "rr_min_throughput request") (auto simp: below_throughput_floor_def throughput_fits_def filter_option_def some_and_iff)
qed

lemma unat_ucast_bps: "unat (ucast (bps :: u32) :: u128) = unat bps"
proof -
  have "unat bps < 2 ^ 128" using unat_lt_pow [of bps] by simp
  then show ?thesis by (simp add: unsigned_ucast_eq take_bit_eq_mod)
qed

lemma probation_price_over_cap_iff:
  "probation_price_over_cap price (estimate_reference_request_price_au (te_contract entry) request) (pb_price_max_bps (pp_caps p)) \<longleftrightarrow>
     \<not> within_cap entry request price p"
  by (simp add: probation_price_over_cap_def within_cap_def estimate_reference_request_price_au_def text_usage_au_def
      word_less_nat_alt unat_word_ariths unat_ucast_bps not_le)

lemma check_modality_loads_Inr:
  "check_modality_loads request h ms = Inr u \<longleftrightarrow>
     (\<forall>m \<in> set ms. \<exists>load cap. bt_get (rr_modality_load request) m = Some load \<and>
        bt_get (ca_modality_capacity (hb_caps h)) m = Some cap \<and> \<not> exceeds_capacity load cap)"
  by (induction ms) auto

lemma loads_fit_iff:
  "check_modality_loads request h (filter (\<lambda>m. m \<noteq> ''text'') (rr_required_modalities request)) = Inr u \<and>
     \<not> stray_load request \<longleftrightarrow> loads_fit request h"
proof -
  have fits: "\<not> exceeds_capacity load cap \<longleftrightarrow> \<not> empty_load load \<and> ml_item_count load \<le> mo_max_items_per_request cap \<and>
      ml_max_item_bytes load \<le> mo_max_item_bytes cap \<and> ml_max_item_units load \<le> mo_max_item_units cap \<and>
      min (unat (mo_active_items cap) + unat (ml_item_count load)) (2 ^ 32 - 1) \<le> unat (mo_max_inflight_items cap)" for load cap
    by (simp add: exceeds_capacity_def not_less word_le_nat_alt unat_sat_add del: min_le_iff_disj)
  have stray: "\<not> stray_load request \<longleftrightarrow> (\<forall>(m, load) \<in> set (rr_modality_load request).
      m \<in> set (rr_required_modalities request) - {''text''} \<and> \<not> empty_load load)"
    by (auto simp: stray_load_def list_ex_iff)
  have full: "\<not> empty_load load" if "\<not> stray_load request" "bt_get (rr_modality_load request) m = Some load" for m load
    using that bt_getD [of "rr_modality_load request" m load] unfolding stray by auto
  have empty: "\<not> empty_load load \<longleftrightarrow> 0 < ml_item_count load \<and> 0 < ml_max_item_bytes load \<and> 0 < ml_max_item_units load" for load
    by (auto simp: empty_load_def word_gt_0)
  have "check_modality_loads request h (filter (\<lambda>m. m \<noteq> ''text'') (rr_required_modalities request)) = Inr u \<and>
      \<not> stray_load request \<longleftrightarrow>
    (\<forall>m \<in> set (rr_required_modalities request) - {''text''}. \<exists>load cap. bt_get (rr_modality_load request) m = Some load \<and>
        bt_get (ca_modality_capacity (hb_caps h)) m = Some cap \<and> \<not> exceeds_capacity load cap) \<and> \<not> stray_load request"
    unfolding check_modality_loads_Inr by auto
  also have "\<dots> \<longleftrightarrow> loads_fit request h"
    unfolding loads_fit_def fits stray [symmetric, unfolded empty] using full by blast
  finally show ?thesis .
qed

lemma sessions_less:
  "(case bt_get (rr_provider_user_active_sessions request) (cs_provider (te_contract entry)) of None \<Rightarrow> 0 | Some n \<Rightarrow> n) < k \<longleftrightarrow>
     sessions_of entry request < unat k"
  by (auto simp: sessions_of_def word_less_nat_alt split: option.split)

lemma check_probation_Inr: "check_probation entry request price = Inr u \<longleftrightarrow> probation_fits entry request price"
  by (cases "cs_probation (te_contract entry)")
    (auto simp: check_probation_def probation_fits_def filter_option_def Let_def not_le sessions_less probation_price_over_cap_iff)

lemma price_fits_iff:
  "\<not> some_and (rr_max_price_au request) (\<lambda>cap. cap < market) \<and> \<not> (0 < ask \<and> market < ask) \<longleftrightarrow>
     price_fits entry request market ask"
  by (auto simp: some_and_iff price_fits_def not_less word_gt_0)

lemmas check_iffs = mode_incompatible_iff lacks_capability_iff lacks_speciality_iff below_throughput_floor_iff

lemma evaluate_eligibility_Inr:
  "evaluate_eligibility fl entry request = Inr price \<longleftrightarrow>
     eligible fl entry request \<and> price = estimate_request_price_au (te_contract entry) request"
proof -
  let ?price = "estimate_request_price_au (te_contract entry) request"
  have live: "cs_consent_ver (te_contract entry) = rr_current_rules_ver request \<and>
      state_ineligibility_reason (baseline_route_state fl entry (baseline_from_request request)) = None \<and>
      te_heartbeat entry = Some h \<longleftrightarrow> route_live fl entry (baseline_from_request request) h" for h
  proof -
    have "br_current_rules_ver (baseline_from_request request) = rr_current_rules_ver request"
      by (simp add: baseline_from_request_def)
    then show ?thesis unfolding state_ineligibility_reason_None baseline_route_state_Live
      using route_liveD [of fl entry "baseline_from_request request"] by (metis option.inject)
  qed
  have "evaluate_eligibility fl entry request = Inr price \<longleftrightarrow>
      (\<exists>h ask. (cs_consent_ver (te_contract entry) = rr_current_rules_ver request \<and>
          state_ineligibility_reason (baseline_route_state fl entry (baseline_from_request request)) = None \<and>
          te_heartbeat entry = Some h) \<and>
        \<not> f_lt fl (cs_reputation (te_contract entry)) (rr_min_reputation request) \<and>
        modes_fit request h \<and> capabilities_fit entry request h \<and> specialities_fit entry request h \<and>
        asks request h ask \<and>
        (check_modality_loads request h (filter (\<lambda>m. m \<noteq> ''text'') (rr_required_modalities request)) = Inr () \<and>
          \<not> stray_load request) \<and>
        (\<not> some_and (rr_max_price_au request) (\<lambda>cap. cap < market_rate entry) \<and> \<not> (0 < ask \<and> market_rate entry < ask)) \<and>
        throughput_fits fl entry request \<and> check_probation entry request ?price = Inr ()) \<and> price = ?price"
    unfolding evaluate_eligibility_def
    by (cases "state_ineligibility_reason (baseline_route_state fl entry (baseline_from_request request))")
      (auto simp: Let_def check_iffs workflow_min_ask_Inr)
  also have "\<dots> \<longleftrightarrow> eligible fl entry request \<and> price = ?price"
    unfolding live loads_fit_iff check_probation_Inr eligible_def price_fits_iff [where entry = entry] ..
  finally show ?thesis .
qed

section \<open>Reasons\<close>

lemma baseline_reason:
  assumes "state_ineligibility_reason (baseline_route_state fl entry (baseline_from_request request)) = Some reason"
  shows "refused_for fl entry request reason"
proof (cases "te_heartbeat entry")
  case None
  then show ?thesis using assms unfolding baseline_route_state_def
    by (auto simp: baseline_from_request_def some_and_iff split: if_splits)
next
  case (Some h)
  have "\<not> f_le fl (rr_saturation_cutoff request) (hb_sat h) \<and> hs_active (hb_slots h) < hs_max (hb_slots h) \<and> 0 < hq_free_slots (hb_q h) \<longleftrightarrow>
      \<not> (f_le fl (rr_saturation_cutoff request) (hb_sat h) \<or> hs_active (hb_slots h) \<ge> hs_max (hb_slots h) \<or> hq_free_slots (hb_q h) = 0)"
    by (auto simp: word_gt_0)
  then show ?thesis using assms Some unfolding baseline_route_state_def
    by (cases "te_attestation_head entry"; cases "te_heartbeat_age_millis entry")
      (auto simp: baseline_from_request_def some_and_iff heartbeat_lacks_def less_sat_sub_iff list_ex_iff split: if_splits)
qed

lemma workflow_reason:
  assumes "te_heartbeat entry = Some h" "workflow_min_ask request h = Inl reason"
  shows "refused_for fl entry request reason"
  using assms
  by (cases "rr_workflow request")
    (auto simp: workflow_min_ask_def heartbeat_lacks_def some_and_iff not_less split: if_splits option.splits)

lemma check_modality_loads_Inl: "check_modality_loads request h ms = Inl reason \<Longrightarrow> reason = ModalityCapacity"
  by (induction ms) (auto simp: rbind_Inl_iff ok_or_def ensure_def split: option.splits if_splits)

lemma modality_reason:
  "check_modality_loads request h (filter (\<lambda>m. m \<noteq> ''text'') (rr_required_modalities request)) = Inl reason \<Longrightarrow>
     reason = ModalityCapacity \<and> \<not> loads_fit request h"
  "stray_load request \<Longrightarrow> \<not> loads_fit request h"
  using loads_fit_iff [of request h "()"] by (auto dest: check_modality_loads_Inl)

lemma probation_reason:
  assumes "check_probation entry request (estimate_request_price_au (te_contract entry) request) = Inl reason"
  shows "refused_for fl entry request reason"
  using assms
  by (cases "cs_probation (te_contract entry)")
    (auto simp: check_probation_def filter_option_def Let_def rbind_Inl_iff ensure_def sessions_less probation_price_over_cap_iff
      not_less [symmetric] split: if_splits)

lemma ensure_Inl_iff: "ensure b e = Inl e' \<longleftrightarrow> \<not> b \<and> e' = e"
  by (auto simp: ensure_def)

lemma evaluate_eligibility_Inl:
  assumes "evaluate_eligibility fl entry request = Inl reason"
  shows "refused_for fl entry request reason"
proof (cases "state_ineligibility_reason (baseline_route_state fl entry (baseline_from_request request))")
  case (Some r)
  then show ?thesis using assms baseline_reason [OF Some]
    by (auto simp: evaluate_eligibility_def rbind_Inl_iff ensure_Inl_iff)
next
  case None
  show ?thesis
  proof (cases "te_heartbeat entry")
    case (Some h)
    then show ?thesis
      using assms None workflow_reason [OF Some] modality_reason(2) [of request h] probation_reason [of entry request reason fl]
      by (auto simp: evaluate_eligibility_def rbind_Inl_iff ensure_Inl_iff Let_def check_iffs workflow_min_ask_Inr heartbeat_lacks_def
          some_and_iff not_le dest!: modality_reason(1))
  qed (use assms None in \<open>auto simp: evaluate_eligibility_def rbind_Inl_iff ensure_Inl_iff\<close>)
qed

text \<open>
  C13. The eligibility check accepts exactly the eligible routes and then returns the estimated
  price: the route is live (rules version, circuit closed, attestation policy ready and its head
  recent, heartbeat fresh, prefix caching for generation routes, not draining, saturated or full), its
  reputation is high enough, it serves the modes, modalities and specialities asked for by heartbeat
  and by contract, it runs the workflow asked for on the inventory asked for and has a free place for its
  class, every media load fits the advertised capacity, the market rate is within the request's cap and
  not below the provider's ask, the throughput floor is met, and the probation limits hold. A refused
  route is not eligible, and the reason that is reported names a condition that fails.
\<close>

theorem eligibility_exact:
  "case evaluate_eligibility fl entry request of
     Inr price \<Rightarrow> eligible fl entry request \<and> price = estimate_request_price_au (te_contract entry) request
   | Inl reason \<Rightarrow> \<not> eligible fl entry request \<and> refused_for fl entry request reason"
  using evaluate_eligibility_Inr [of fl entry request] evaluate_eligibility_Inl [of fl entry request]
  by (cases "evaluate_eligibility fl entry request") auto

section \<open>The circuit breaker and the probation cap\<close>

lemma entries_observed: "entry \<in> set (entries fl t at) \<Longrightarrow> te_observed entry = observation_of fl t (te_key entry)"
  by (auto simp: entries_def table_entry_def Let_def)

lemma circuit_open_refused:
  assumes "ob_circuit_open_until_millis (te_observed entry) = Some until" "rr_now_millis request < until"
  shows "evaluate_eligibility fl entry request \<in> Inl ` {ConsentVersion, Reputation, CircuitOpen}"
proof -
  have "some_and (ob_circuit_open_until_millis (te_observed entry)) (\<lambda>u. br_now_millis (baseline_from_request request) < u)"
    using assms by (simp add: some_and_def baseline_from_request_def)
  then have "baseline_route_state fl entry (baseline_from_request request) \<in> {ConsentVersionState, CircuitOpenState}"
    unfolding baseline_route_state_def by simp
  then have "state_ineligibility_reason (baseline_route_state fl entry (baseline_from_request request)) \<in>
      Some ` {ConsentVersion, CircuitOpen}"
    by auto
  then show ?thesis unfolding evaluate_eligibility_def by (auto simp: ensure_def)
qed

text \<open>
  C26. A route whose recorded samples end in three failures is refused for thirty seconds after the
  last one, at every reading of the table and for every request, whatever operations came before; the
  next recorded success closes the circuit at once.
\<close>

theorem circuit_breaker:
  assumes "os_error s" "3 \<le> failures key (ops @ [Observe key s now])"
    and "entry \<in> set (entries fl (table_run fl (ops @ [Observe key s now])) at)" "te_key entry = key"
    and "unat (rr_now_millis request) < min (unat now + 30000) (2 ^ 64 - 1)" and "\<not> os_error ok"
  shows "evaluate_eligibility fl entry request \<in> Inl ` {ConsentVersion, Reputation, CircuitOpen} \<and>
    ob_circuit_open_until_millis
      (observation_of fl (table_run fl ((ops @ [Observe key s now]) @ [Observe key ok later])) key) = None"
proof
  have "ob_circuit_open_until_millis (te_observed entry) = Some (sat_add now 30000)"
    using entries_observed [OF assms(3)] circuit_after_failure [OF assms(1,2)] assms(4) by simp
  moreover have "rr_now_millis request < sat_add now 30000"
    using assms(5) by (simp add: word_less_nat_alt unat_sat_add)
  ultimately show "evaluate_eligibility fl entry request \<in> Inl ` {ConsentVersion, Reputation, CircuitOpen}"
    by (rule circuit_open_refused)
  show "ob_circuit_open_until_millis
      (observation_of fl (table_run fl ((ops @ [Observe key s now]) @ [Observe key ok later])) key) = None"
    using assms(6) by (rule circuit_after_success)
qed

text \<open>
  The probation price cap compares exact products as long as neither overflows 128 bits. Beyond that
  the products wrap: an estimate of \<open>2 ^ 124\<close> times 10000 is zero, so it passes every cap.
\<close>

lemma probation_cap_exact:
  assumes "unat estimated * 10000 < 2 ^ 128" "unat reference * unat bps < 2 ^ 128"
  shows "probation_price_over_cap estimated reference bps \<longleftrightarrow> unat reference * unat bps < unat estimated * 10000"
proof -
  have "unat (estimated * 10000) = unat estimated * 10000"
    using assms(1) by (simp add: unat_word_ariths)
  then show ?thesis
    using assms(2) by (simp add: probation_price_over_cap_def word_less_nat_alt unat_word_ariths unat_ucast_bps)
qed

lemma probation_cap_wraps: "\<not> probation_price_over_cap (2 ^ 124) reference bps"
proof -
  have "(2 ^ 124 :: u128) * 10000 = 0" by (simp add: word_eq_iff_unsigned)
  then show ?thesis by (simp only: probation_price_over_cap_def) simp
qed

definition sample_contract :: "nat contract_provider_snapshot" where
  "sample_contract =
     \<lparr>cs_provider = pk_provider sample_key, cs_provider_status = Some ''Active'', cs_enclave_id = pk_enclave_id sample_key,
      cs_model_id = ''m'', cs_room_id = pk_room_id sample_key, cs_consent_ver = 1, cs_reputation = 9000,
      cs_price_ver = 1, cs_rate_map = text_generation_rate_map 20 40, cs_per_req_au = 0, cs_min_session_au = 0,
      cs_ref_rate_map = text_generation_rate_map 20 40, cs_probation = None, cs_caps = sample_caps,
      cs_attestation_head = None, cs_hardware_fingerprint = None, cs_device_key = None,
      cs_attestation_policy = not_required 1\<rparr>"

definition sample_sample :: "bool \<Rightarrow> nat provider_observation_sample" where
  "sample_sample err = \<lparr>os_ttft_ms = 100, os_tok_s = None, os_error = err\<rparr>"

lemma sample_contract_routable:
  "provider_status_allows_routing (cs_provider_status sample_contract)" "canonical_room_id (cs_room_id sample_contract)"
proof -
  have "eq_ignore_ascii_case ''Active'' ''active''" by code_simp
  then show "provider_status_allows_routing (cs_provider_status sample_contract)"
    by (simp add: sample_contract_def provider_status_allows_routing_def)
  have "is_ascii_hexdigit (byte_of CHR ''c'')" by code_simp
  then show "canonical_room_id (cs_room_id sample_contract)"
    by (simp add: sample_contract_def canonical_room_id_def sample_key_def list_all_iff)
qed

lemma sample_entry:
  "pt_contract (table_run fixed_ops [UpsertContract sample_contract, Observe sample_key s1 n1, Observe sample_key s2 n2,
     Observe sample_key s3 n3]) = [(sample_key, sample_contract)]"
  using sample_contract_routable
  by (simp add: table_run_def upsert_contract_def table_new_def with_config_def Let_def)
    (simp add: sample_contract_def from_contract_def)

theorem circuit_breaker_witness:
  "\<exists>entry \<in> set (entries fixed_ops (table_run fixed_ops
      ([UpsertContract sample_contract, Observe sample_key (sample_sample True) 1, Observe sample_key (sample_sample True) 2] @
       [Observe sample_key (sample_sample True) 3])) 10).
    evaluate_eligibility fixed_ops entry ((request_requirements_default fixed_ops)\<lparr>rr_now_millis := 30000\<rparr>) \<in>
      Inl ` {ConsentVersion, Reputation, CircuitOpen}"
proof -
  let ?ops = "[UpsertContract sample_contract, Observe sample_key (sample_sample True) 1,
    Observe sample_key (sample_sample True) 2]"
  let ?t = "table_run fixed_ops (?ops @ [Observe sample_key (sample_sample True) 3])"
  let ?e = "table_entry fixed_ops ?t 10 (sample_key, sample_contract)"
  have e: "?e \<in> set (entries fixed_ops ?t 10)" by (simp add: entries_def sample_entry)
  have "evaluate_eligibility fixed_ops ?e ((request_requirements_default fixed_ops)\<lparr>rr_now_millis := 30000\<rparr>) \<in>
      Inl ` {ConsentVersion, Reputation, CircuitOpen}"
    by (rule circuit_breaker [OF _ _ e, where ok = "sample_sample False", THEN conjunct1])
      (simp_all add: sample_sample_def failures_def table_entry_def Let_def)
  then show ?thesis using e by (rule bexI)
qed

end
