(* ===== verification/Route_Selection.thy ===== *)
theory Route_Selection
  imports Route_Eligibility
begin

text \<open>
  Choosing a route (\<open>mayhem-gateway/src/provider_table.rs\<close>): the weighted candidates of a request, the
  sharing of weight within a capacity group, two weighted draws and the better of the two. An index
  outside a slice and the median of no values panic in the code; here they are \<open>None\<close>, and the
  selection is proved to be \<open>Some\<close>. The random source is a parameter \<open>next_unit\<close> on a state \<open>'r\<close>; the
  generator of the crate is \<open>lcg_next_unit_f64\<close>.
\<close>

section \<open>Data\<close>

definition DEFAULT_THROUGHPUT_FACTOR_FLOOR :: "'f f64_ops \<Rightarrow> 'f" where "DEFAULT_THROUGHPUT_FACTOR_FLOOR fl = f_lit fl 1 1"
definition DEFAULT_TRANSIENT_THROUGHPUT_FACTOR_FLOOR :: "'f f64_ops \<Rightarrow> 'f" where
  "DEFAULT_TRANSIENT_THROUGHPUT_FACTOR_FLOOR fl = f_lit fl 5 1"
definition DEFAULT_CAPACITY_MISMATCH_FACTOR_FLOOR :: "'f f64_ops \<Rightarrow> 'f" where
  "DEFAULT_CAPACITY_MISMATCH_FACTOR_FLOOR fl = f_lit fl 1 1"
definition P2C_REPUTATION_DECISION_DELTA :: "'f f64_ops \<Rightarrow> 'f" where "P2C_REPUTATION_DECISION_DELTA fl = f_lit fl 5 2"
definition DEFAULT_REPUTATION_ALPHA :: "'f f64_ops \<Rightarrow> 'f" where "DEFAULT_REPUTATION_ALPHA fl = f_lit fl 15 1"
definition DEFAULT_SATURATION_BETA :: "'f f64_ops \<Rightarrow> 'f" where "DEFAULT_SATURATION_BETA fl = f_lit fl 10 1"
definition DEFAULT_PRICE_GAMMA :: "'f f64_ops \<Rightarrow> 'f" where "DEFAULT_PRICE_GAMMA fl = f_lit fl 7 1"
definition UNVERIFIED_CAPACITY_GROUP :: string where "UNVERIFIED_CAPACITY_GROUP = ''unverified:identity_anchor''"

record 'f selection_weights =
  sw_reputation_alpha :: 'f
  sw_saturation_beta :: 'f
  sw_price_gamma :: 'f

record 'f selection_candidate =
  sc_entry :: "'f provider_table_entry"
  sc_estimated_price_au :: money_au
  sc_effective_ttft_ms :: 'f
  sc_latency_factor :: 'f
  sc_price_norm :: 'f
  sc_throughput_ratio :: "'f option"
  sc_throughput_factor :: 'f
  sc_free_slots :: u32
  sc_engine_backlog :: u32
  sc_engine_backlog_factor :: 'f
  sc_capacity_mismatch_factor :: 'f
  sc_capacity_group :: string
  sc_capacity_group_factor :: 'f
  sc_weight :: 'f

record 'f provider_selection =
  ps_selected :: "'f selection_candidate"
  ps_sampled :: "provider_key list"

definition selection_weights_default :: "'f f64_ops \<Rightarrow> 'f selection_weights" where
  "selection_weights_default fl =
     \<lparr>sw_reputation_alpha = DEFAULT_REPUTATION_ALPHA fl, sw_saturation_beta = DEFAULT_SATURATION_BETA fl,
      sw_price_gamma = DEFAULT_PRICE_GAMMA fl\<rparr>"

definition lcg_next_unit_f64 :: "'f f64_ops \<Rightarrow> u64 \<Rightarrow> 'f \<times> u64" where
  "lcg_next_unit_f64 fl state =
     (let state = state * 6364136223846793005 + 1442695040888963407;
          bits = drop_bit 11 state
      in (f_mul fl (f_of_u64 fl bits) (f_div fl (f_one fl) (f_of_u64 fl (push_bit 53 1))), state))"

section \<open>Factors of the weight\<close>

definition effective_ttft_ms :: "'f f64_ops \<Rightarrow> 'f provider_table_entry \<Rightarrow> 'f" where
  "effective_ttft_ms fl entry =
     (case ob_ewma_ttft_ms (te_observed entry) of
        Some v \<Rightarrow> v
      | None \<Rightarrow> (case te_heartbeat entry of Some h \<Rightarrow> f_of_u64 fl (hp_ttft_ms (hb_perf h)) | None \<Rightarrow> f_one fl))"

definition throughput_delivery_ratio :: "'f f64_ops \<Rightarrow> 'f provider_table_entry \<Rightarrow> 'f option" where
  "throughput_delivery_ratio fl entry =
     (case ob_ewma_throughput_ratio (te_observed entry) of
        Some v \<Rightarrow> Some v
      | None \<Rightarrow>
          Option.bind (ob_ewma_tok_s (te_observed entry)) (\<lambda>measured.
          Option.bind (te_heartbeat entry) (\<lambda>h.
          Option.bind (hp_tok_s (hb_perf h)) (\<lambda>advertised.
            if f_is_finite fl advertised \<and> f_lt fl (f_zero fl) advertised \<and> f_is_finite fl measured \<and>
               f_le fl (f_zero fl) measured
            then Some (f_clamp fl (f_div fl measured advertised) (f_zero fl) (f_lit fl 10 0))
            else None))))"

definition throughput_standing_factor :: "'f f64_ops \<Rightarrow> 'f option \<Rightarrow> u32 \<Rightarrow> 'f" where
  "throughput_standing_factor fl ratio underdelivery_streak =
     (case filter_option (f_is_finite fl) ratio of
        None \<Rightarrow> f_one fl
      | Some ratio \<Rightarrow>
          if f_le fl (DEFAULT_THROUGHPUT_RATIO_GRACE fl) ratio then f_one fl
          else
            let floor = (if underdelivery_streak \<ge> DEFAULT_UNDERDELIVERY_EVENT_STREAK
                         then DEFAULT_THROUGHPUT_FACTOR_FLOOR fl else DEFAULT_TRANSIENT_THROUGHPUT_FACTOR_FLOOR fl)
            in if f_le fl ratio (DEFAULT_UNDERDELIVERY_RATIO fl) then floor
               else
                 let span = f_sub fl (DEFAULT_THROUGHPUT_RATIO_GRACE fl) (DEFAULT_UNDERDELIVERY_RATIO fl);
                     progress = f_div fl (f_sub fl ratio (DEFAULT_UNDERDELIVERY_RATIO fl)) span
                 in f_add fl floor (f_mul fl (f_sub fl (f_one fl) floor) progress))"

definition engine_backlog_factor :: "'f f64_ops \<Rightarrow> u32 \<Rightarrow> 'f" where
  "engine_backlog_factor fl backlog = f_div fl (f_one fl) (f_add fl (f_one fl) (f_of_u32 fl backlog))"

definition capacity_mismatch_factor :: "'f f64_ops \<Rightarrow> 'f provider_table_entry \<Rightarrow> 'f" where
  "capacity_mismatch_factor fl entry =
     (if ob_capacity_mismatch_streak (te_observed entry) < DEFAULT_CAPACITY_MISMATCH_EVENT_STREAK then f_one fl
      else
        let excess = sat_add (sat_sub (ob_capacity_mismatch_streak (te_observed entry))
              DEFAULT_CAPACITY_MISMATCH_EVENT_STREAK) 1
        in f_clamp fl (f_div fl (f_one fl) (f_add fl (f_one fl) (f_mul fl (f_of_u32 fl excess) (f_lit fl 25 2))))
             (DEFAULT_CAPACITY_MISMATCH_FACTOR_FLOOR fl) (f_one fl))"

definition weight_multiplier :: "'f f64_ops \<Rightarrow> provider_probation \<Rightarrow> 'f" where
  "weight_multiplier fl p =
     (if pp_active p then f_div fl (f_of_u32 fl (pb_weight_bps (pp_caps p))) (f_lit fl 10000 0) else f_one fl)"

definition probation_weight_multiplier :: "'f f64_ops \<Rightarrow> 'f provider_table_entry \<Rightarrow> 'f" where
  "probation_weight_multiplier fl entry =
     (case cs_probation (te_contract entry) of None \<Rightarrow> f_one fl | Some p \<Rightarrow> weight_multiplier fl p)"

fun insort_by :: "('a \<Rightarrow> 'a \<Rightarrow> bool) \<Rightarrow> 'a \<Rightarrow> 'a list \<Rightarrow> 'a list" where
  "insort_by le x [] = [x]"
| "insort_by le x (y # ys) = (if le x y then x # y # ys else y # insort_by le x ys)"

definition sort_by :: "('a \<Rightarrow> 'a \<Rightarrow> bool) \<Rightarrow> 'a list \<Rightarrow> 'a list" where
  "sort_by le xs = foldr (insort_by le) xs []"

definition index_opt :: "'a list \<Rightarrow> nat \<Rightarrow> 'a option" where
  "index_opt xs i = (if i < length xs then Some (xs ! i) else None)"

definition median :: "'f f64_ops \<Rightarrow> 'f list \<Rightarrow> 'f option" where
  "median fl values =
     (let values = sort_by (f_total_le fl) values;
          mid = length values div 2
      in if length values mod 2 = 0
         then (if mid = 0 then None
               else Option.bind (index_opt values (mid - 1)) (\<lambda>lower.
                    Option.bind (index_opt values mid) (\<lambda>upper.
                      Some (f_div fl (f_add fl lower upper) (f_lit fl 2 0)))))
         else index_opt values mid)"

definition verified_capacity_group_key :: "'f provider_table_entry \<Rightarrow> string \<Rightarrow> string option" where
  "verified_capacity_group_key entry anchor =
     Option.bind (split_once (CHR '':'') anchor) (\<lambda>(kind, digest).
       let digest = str_trim digest
       in if length digest \<noteq> 64 \<or> \<not> list_all (\<lambda>c. is_ascii_hexdigit (byte_of c)) digest then None
          else
            let digest = to_ascii_lowercase digest
            in Option.bind
                 (if kind = ''fingerprint'' then cs_hardware_fingerprint (te_contract entry)
                  else if kind = ''device'' then cs_device_key (te_contract entry)
                  else None)
                 (\<lambda>trusted. if eq_ignore_ascii_case trusted digest
                            then Some (to_ascii_lowercase kind @ '':'' @ digest) else None))"

definition capacity_group_key :: "'f provider_table_entry \<Rightarrow> string" where
  "capacity_group_key entry =
     (case filter_option (\<lambda>v. v \<noteq> [])
             (map_option str_trim (Option.bind (te_heartbeat entry) hb_identity_anchor)) of
        None \<Rightarrow> UNVERIFIED_CAPACITY_GROUP
      | Some anchor \<Rightarrow>
          (case verified_capacity_group_key entry anchor of None \<Rightarrow> UNVERIFIED_CAPACITY_GROUP | Some g \<Rightarrow> g))"

section \<open>Candidates\<close>

definition base_candidates ::
    "'f f64_ops \<Rightarrow> 'f provider_table_entry list \<Rightarrow> 'f request_requirements \<Rightarrow> ('f provider_table_entry \<times> money_au \<times> 'f) list" where
  "base_candidates fl es request =
     List.map_filter (\<lambda>entry.
       case evaluate_eligibility fl entry request of
         Inl _ \<Rightarrow> None
       | Inr estimated_price_au \<Rightarrow>
           Some (entry, estimated_price_au, f_max fl (effective_ttft_ms fl entry) (f_one fl))) es"

definition make_candidate ::
    "'f f64_ops \<Rightarrow> 'f selection_weights \<Rightarrow> 'f \<Rightarrow> 'f \<Rightarrow> 'f provider_table_entry \<times> money_au \<times> 'f \<Rightarrow>
     'f selection_candidate option" where
  "make_candidate fl weights median_ttft median_price b =
     (case b of (entry, estimated_price_au, ttft) \<Rightarrow>
        Option.bind (te_heartbeat entry) (\<lambda>h.
          let reputation = f_clamp fl (cs_reputation (te_contract entry)) (f_zero fl) (f_one fl);
              available = f_clamp fl (f_sub fl (f_one fl) (hb_sat h)) (f_zero fl) (f_one fl);
              price_norm = f_max fl (f_div fl (f_of_u128 fl (max estimated_price_au 1)) median_price) (f_epsilon fl);
              latency_factor = f_clamp fl (f_div fl median_ttft ttft) (f_lit fl 25 2) (f_lit fl 4 0);
              error_factor = f_clamp fl (f_sub fl (f_one fl) (ob_ewma_error_rate (te_observed entry)))
                (f_lit fl 5 2) (f_one fl);
              throughput_ratio = throughput_delivery_ratio fl entry;
              throughput_factor = throughput_standing_factor fl throughput_ratio (ob_underdelivery_streak (te_observed entry));
              backlog_factor = engine_backlog_factor fl (hq_engine_backlog (hb_q h));
              mismatch_factor = capacity_mismatch_factor fl entry;
              weight = foldl (f_mul fl) (f_powf fl reputation (sw_reputation_alpha weights))
                [f_powf fl available (sw_saturation_beta weights),
                 f_powf fl (f_div fl (f_one fl) price_norm) (sw_price_gamma weights),
                 latency_factor, throughput_factor, error_factor, backlog_factor, mismatch_factor,
                 probation_weight_multiplier fl entry]
          in Some \<lparr>sc_entry = entry, sc_estimated_price_au = estimated_price_au, sc_effective_ttft_ms = ttft,
                   sc_latency_factor = latency_factor, sc_price_norm = price_norm,
                   sc_throughput_ratio = throughput_ratio, sc_throughput_factor = throughput_factor,
                   sc_free_slots = hq_free_slots (hb_q h), sc_engine_backlog = hq_engine_backlog (hb_q h),
                   sc_engine_backlog_factor = backlog_factor, sc_capacity_mismatch_factor = mismatch_factor,
                   sc_capacity_group = capacity_group_key entry, sc_capacity_group_factor = f_one fl,
                   sc_weight = weight\<rparr>))"

definition group_add ::
    "'f f64_ops \<Rightarrow> 'f selection_candidate \<Rightarrow> (string, 'f \<times> 'f) btree \<Rightarrow> (string, 'f \<times> 'f) btree" where
  "group_add fl candidate groups =
     (let weight = f_max fl (sc_weight candidate) (f_zero fl)
      in if \<not> f_is_finite fl weight \<or> f_le fl weight (f_epsilon fl) then groups
         else
           let (total_weight, strongest) = (case bt_get groups (sc_capacity_group candidate) of
                 None \<Rightarrow> (f_zero fl, f_zero fl) | Some g \<Rightarrow> g)
           in bt_insert (sc_capacity_group candidate) (f_add fl total_weight weight, f_max fl strongest weight) groups)"

definition group_factor :: "'f f64_ops \<Rightarrow> (string, 'f \<times> 'f) btree \<Rightarrow> string \<Rightarrow> 'f" where
  "group_factor fl groups name =
     (case bt_get groups name of
        None \<Rightarrow> f_one fl
      | Some (total_weight, strongest) \<Rightarrow>
          if f_lt fl (f_epsilon fl) total_weight \<and> f_lt fl (f_epsilon fl) strongest
          then f_clamp fl (f_div fl strongest total_weight) (f_zero fl) (f_one fl) else f_one fl)"

definition apply_capacity_group_factors ::
    "'f f64_ops \<Rightarrow> 'f selection_candidate list \<Rightarrow> 'f selection_candidate list" where
  "apply_capacity_group_factors fl candidates =
     (let groups = fold (group_add fl) candidates []
      in map (\<lambda>candidate.
           let factor = group_factor fl groups (sc_capacity_group candidate)
           in candidate\<lparr>sc_capacity_group_factor := factor, sc_weight := f_mul fl (sc_weight candidate) factor\<rparr>) candidates)"

definition eligible_candidates ::
    "'f f64_ops \<Rightarrow> 'f provider_table_entry list \<Rightarrow> 'f request_requirements \<Rightarrow> 'f selection_weights \<Rightarrow>
     'f selection_candidate list option" where
  "eligible_candidates fl es request weights =
     (let base = base_candidates fl es request
      in if base = [] then Some []
         else
           Option.bind (median fl (map (\<lambda>(_, _, ttft). ttft) base)) (\<lambda>median_ttft.
           Option.bind (median fl (map (\<lambda>(_, price, _). f_of_u128 fl (max price 1)) base)) (\<lambda>median_price.
             let median_ttft = f_max fl median_ttft (f_one fl);
                 median_price = f_max fl median_price (f_one fl)
             in Some (apply_capacity_group_factors fl
                  (List.map_filter (make_candidate fl weights median_ttft median_price) base)))))"

definition tpm_activation_pending :: "'f provider_table_entry \<Rightarrow> bool" where
  "tpm_activation_pending entry \<longleftrightarrow>
     ap_policy_required (cs_attestation_policy (te_contract entry)) \<and>
     \<not> ap_locally_ready (cs_attestation_policy (te_contract entry)) \<and>
     ap_tpm_activation_pending (cs_attestation_policy (te_contract entry)) \<and>
     ap_quote_kind (cs_attestation_policy (te_contract entry)) = Some Tpm2QuoteEk"

definition mark_activated :: "'f provider_table_entry \<Rightarrow> 'f provider_table_entry" where
  "mark_activated entry =
     entry\<lparr>te_contract := (te_contract entry)\<lparr>cs_attestation_policy :=
       (cs_attestation_policy (te_contract entry))\<lparr>ap_locally_ready := True, ap_tpm_activation_pending := False\<rparr>\<rparr>\<rparr>"

definition eligible_tpm_activation_candidates ::
    "'f f64_ops \<Rightarrow> 'f provider_table_entry list \<Rightarrow> 'f request_requirements \<Rightarrow> 'f selection_weights \<Rightarrow>
     'f selection_candidate list option" where
  "eligible_tpm_activation_candidates fl es request weights =
     (let activation_entries = map mark_activated (filter tpm_activation_pending es)
      in eligible_candidates fl activation_entries request weights)"

section \<open>Two choices\<close>

fun sample_loop :: "'f f64_ops \<Rightarrow> nat option \<Rightarrow> (nat \<times> 'f selection_candidate) list \<Rightarrow> 'f \<Rightarrow> nat option \<Rightarrow> nat option" where
  "sample_loop fl excluded [] target fallback = fallback"
| "sample_loop fl excluded ((idx, candidate) # rest) target fallback =
     (if Some idx = excluded then sample_loop fl excluded rest target fallback
      else
        let weight = f_max fl (sc_weight candidate) (f_zero fl)
        in if f_lt fl target weight then Some idx
           else sample_loop fl excluded rest (f_sub fl target weight) (Some idx))"

definition weighted_sample_index ::
    "'f f64_ops \<Rightarrow> ('r \<Rightarrow> 'f \<times> 'r) \<Rightarrow> 'f selection_candidate list \<Rightarrow> nat option \<Rightarrow> 'r \<Rightarrow> nat option \<times> 'r" where
  "weighted_sample_index fl next_unit candidates excluded rng =
     (let numbered = List.enumerate 0 candidates;
          total_weight = f_sum fl (map (\<lambda>(_, candidate). f_max fl (sc_weight candidate) (f_zero fl))
            (filter (\<lambda>(idx, _). Some idx \<noteq> excluded) numbered))
      in if f_le fl total_weight (f_epsilon fl)
         then (map_option fst (find (\<lambda>(idx, _). Some idx \<noteq> excluded) numbered), rng)
         else
           let (unit, rng) = next_unit rng;
               unit = (if f_is_finite fl unit then f_clamp fl unit (f_zero fl) (f_sub fl (f_one fl) (f_epsilon fl))
                       else f_zero fl)
           in (sample_loop fl excluded numbered (f_mul fl unit total_weight) None, rng))"

definition standing :: "'f f64_ops \<Rightarrow> 'f selection_candidate \<Rightarrow> 'f" where
  "standing fl c = f_mul fl (f_clamp fl (cs_reputation (te_contract (sc_entry c))) (f_zero fl) (f_one fl))
     (probation_weight_multiplier fl (sc_entry c))"

definition candidate_sat :: "'f f64_ops \<Rightarrow> 'f selection_candidate \<Rightarrow> 'f" where
  "candidate_sat fl c = (case te_heartbeat (sc_entry c) of None \<Rightarrow> f_one fl | Some h \<Rightarrow> hb_sat h)"

definition better_p2c_index ::
    "'f f64_ops \<Rightarrow> 'f selection_candidate list \<Rightarrow> nat \<Rightarrow> nat \<Rightarrow> nat option" where
  "better_p2c_index fl candidates left right =
     Option.bind (index_opt candidates left) (\<lambda>l.
     Option.bind (index_opt candidates right) (\<lambda>r.
       Some
         (if f_le fl (P2C_REPUTATION_DECISION_DELTA fl) (f_abs fl (f_sub fl (standing fl l) (standing fl r)))
          then (if f_lt fl (standing fl r) (standing fl l) then left else right)
          else if f_le fl (f_lit fl 5 2) (f_abs fl (f_sub fl (sc_throughput_factor l) (sc_throughput_factor r)))
          then (if f_lt fl (sc_throughput_factor r) (sc_throughput_factor l) then left else right)
          else if \<not> f_total_le fl (candidate_sat fl r) (candidate_sat fl l) then left
          else if \<not> f_total_le fl (candidate_sat fl l) (candidate_sat fl r) then right
          else if sc_engine_backlog l < sc_engine_backlog r then left
          else if sc_engine_backlog l > sc_engine_backlog r then right
          else if f_le fl (sc_effective_ttft_ms l) (sc_effective_ttft_ms r) then left else right)))"

definition select_weighted_p2c ::
    "'f f64_ops \<Rightarrow> ('r \<Rightarrow> 'f \<times> 'r) \<Rightarrow> 'f provider_table_entry list \<Rightarrow> 'f request_requirements \<Rightarrow> 'f selection_weights \<Rightarrow>
     'r \<Rightarrow> ('f provider_selection option \<times> 'r) option" where
  "select_weighted_p2c fl next_unit es request weights rng =
     Option.bind (eligible_candidates fl es request weights) (\<lambda>candidates.
       if candidates = [] then Some (None, rng)
       else if length candidates = 1
       then Some (Some \<lparr>ps_selected = candidates ! 0, ps_sampled = [te_key (sc_entry (candidates ! 0))]\<rparr>, rng)
       else
         case weighted_sample_index fl next_unit candidates None rng of
           (None, rng) \<Rightarrow> Some (None, rng)
         | (Some first, rng) \<Rightarrow>
             let (second, rng) = weighted_sample_index fl next_unit candidates (Some first) rng;
                 second = (case second of None \<Rightarrow> first | Some i \<Rightarrow> i)
             in Option.bind (better_p2c_index fl candidates first second) (\<lambda>selected.
                Option.bind (index_opt candidates selected) (\<lambda>sel.
                Option.bind (index_opt candidates first) (\<lambda>c1.
                Option.bind (index_opt candidates second) (\<lambda>c2.
                  Some (Some \<lparr>ps_selected = sel, ps_sampled = [te_key (sc_entry c1), te_key (sc_entry c2)]\<rparr>, rng))))))"

section \<open>Selection is sound and never panics\<close>

lemma length_insort_by [simp]: "length (insort_by le x ys) = Suc (length ys)"
  by (induction ys) auto

lemma length_sort_by [simp]: "length (sort_by le xs) = length xs"
  by (induction xs) (auto simp: sort_by_def)

lemma median_Some:
  assumes "xs \<noteq> []"
  shows "\<exists>m. median fl xs = Some m"
proof -
  have "0 < length xs" using assms by simp
  then have "length xs div 2 - 1 < length xs" "length xs div 2 < length xs" by linarith+
  moreover have "length xs div 2 \<noteq> 0" if "length xs mod 2 = 0"
    using that \<open>0 < length xs\<close> by presburger
  ultimately show ?thesis using assms by (cases "length xs mod 2 = 0") (simp_all add: median_def index_opt_def Let_def)
qed

lemma map_filter_all:
  "(\<And>x. x \<in> set xs \<Longrightarrow> \<exists>c. f x = Some c \<and> g c = h x) \<Longrightarrow> map g (List.map_filter f xs) = map h xs"
proof (induction xs)
  case (Cons x xs)
  then obtain c where "f x = Some c" "g c = h x" by auto
  with Cons show ?case by (simp add: List.map_filter_simps)
qed (simp add: List.map_filter_simps)

lemma base_candidates_eq:
  "base_candidates fl es request =
     map (\<lambda>e. (e, estimate_request_price_au (te_contract e) request, f_max fl (effective_ttft_ms fl e) (f_one fl)))
       (filter (\<lambda>e. eligible fl e request) es)"
proof (induction es)
  case (Cons e es)
  show ?case
  proof (cases "evaluate_eligibility fl e request")
    case (Inl r)
    then have "\<not> eligible fl e request" using evaluate_eligibility_Inr [of fl e request] by auto
    with Inl Cons show ?thesis by (simp add: base_candidates_def List.map_filter_simps)
  next
    case (Inr price)
    then have "eligible fl e request" "price = estimate_request_price_au (te_contract e) request"
      by (simp_all add: evaluate_eligibility_Inr)
    with Inr Cons show ?thesis by (simp add: base_candidates_def List.map_filter_simps)
  qed
qed (simp add: base_candidates_def List.map_filter_simps)

lemma eligible_heartbeat: "eligible fl e request \<Longrightarrow> te_heartbeat e \<noteq> None"
  by (auto simp: eligible_def route_live_def)

lemma make_candidate_Some:
  assumes "te_heartbeat e \<noteq> None"
  shows "\<exists>c. make_candidate fl w mt mp (e, price, ttft) = Some c \<and> (sc_entry c, sc_estimated_price_au c) = (e, price)"
  using assms by (auto simp: make_candidate_def Let_def)

lemma map_apply_factors:
  "map (\<lambda>c. (sc_entry c, sc_estimated_price_au c)) (apply_capacity_group_factors fl cs) =
     map (\<lambda>c. (sc_entry c, sc_estimated_price_au c)) cs"
  by (simp add: apply_capacity_group_factors_def Let_def)

text \<open>The candidates are the eligible entries, in table order, each with its estimated price.\<close>

lemma eligible_candidates_spec:
  obtains cs where "eligible_candidates fl es request w = Some cs"
    "map (\<lambda>c. (sc_entry c, sc_estimated_price_au c)) cs =
       map (\<lambda>e. (e, estimate_request_price_au (te_contract e) request)) (filter (\<lambda>e. eligible fl e request) es)"
proof (cases "filter (\<lambda>e. eligible fl e request) es = []")
  case True
  then show ?thesis by (intro that [of "[]"]) (simp_all only: eligible_candidates_def base_candidates_eq Let_def, simp_all)
next
  case False
  let ?base = "base_candidates fl es request"
  have ne: "?base \<noteq> []" using False by (simp add: base_candidates_eq)
  obtain mt where mt: "median fl (map (\<lambda>(_, _, ttft). ttft) ?base) = Some mt"
    using median_Some [of "map (\<lambda>(_, _, ttft). ttft) ?base" fl] ne by auto
  obtain mp where mp: "median fl (map (\<lambda>(_, price, _). f_of_u128 fl (max price 1)) ?base) = Some mp"
    using median_Some [of "map (\<lambda>(_, price, _). f_of_u128 fl (max price 1)) ?base" fl] ne by auto
  let ?mk = "make_candidate fl w (f_max fl mt (f_one fl)) (f_max fl mp (f_one fl))"
  have "map (\<lambda>c. (sc_entry c, sc_estimated_price_au c)) (List.map_filter ?mk ?base) = map (\<lambda>b. (fst b, fst (snd b))) ?base"
  proof (rule map_filter_all)
    fix b
    assume "b \<in> set ?base"
    then obtain e price ttft where b: "b = (e, price, ttft)" "eligible fl e request" by (auto simp: base_candidates_eq)
    show "\<exists>c. ?mk b = Some c \<and> (sc_entry c, sc_estimated_price_au c) = (fst b, fst (snd b))"
      unfolding b(1) fst_conv snd_conv by (rule make_candidate_Some [OF eligible_heartbeat [OF b(2)]])
  qed
  then have "map (\<lambda>c. (sc_entry c, sc_estimated_price_au c))
      (apply_capacity_group_factors fl (List.map_filter ?mk ?base)) =
    map (\<lambda>e. (e, estimate_request_price_au (te_contract e) request)) (filter (\<lambda>e. eligible fl e request) es)"
    by (simp add: map_apply_factors base_candidates_eq)
  moreover have "eligible_candidates fl es request w = Some (apply_capacity_group_factors fl (List.map_filter ?mk ?base))"
    unfolding eligible_candidates_def Let_def using ne by (simp only: if_False mt mp bind.bind_lunit)
  ultimately show ?thesis by (intro that)
qed

lemma sample_loop_mem:
  "sample_loop fl ex xs t fb = Some j \<Longrightarrow> fb = Some j \<or> j \<in> fst ` set xs \<and> Some j \<noteq> ex"
  by (induction fl ex xs t fb rule: sample_loop.induct) (auto simp: Let_def split: if_splits)

lemma sample_loop_Some:
  "fb \<noteq> None \<or> (\<exists>p \<in> set xs. Some (fst p) \<noteq> ex) \<Longrightarrow> sample_loop fl ex xs t fb \<noteq> None"
  by (induction fl ex xs t fb rule: sample_loop.induct) (auto simp: Let_def)

lemma fst_enumerate: "fst ` set (List.enumerate 0 xs) = {..<length xs}"
proof -
  have "fst ` set (List.enumerate 0 xs) = set (map fst (List.enumerate 0 xs))" by (rule set_map [symmetric])
  also have "\<dots> = {..<length xs}" unfolding map_fst_enumerate by auto
  finally show ?thesis .
qed

text \<open>A draw succeeds when an index is left to draw, and avoids the excluded one.\<close>

lemma weighted_sample_index_spec:
  assumes "i < length cs" "Some i \<noteq> ex"
  obtains j rng' where "weighted_sample_index fl nx cs ex rng = (Some j, rng')" "j < length cs" "Some j \<noteq> ex"
proof -
  let ?num = "List.enumerate 0 cs"
  have "i \<in> fst ` set ?num" using assms(1) by (simp add: fst_enumerate)
  then have mem: "\<exists>p \<in> set ?num. Some (fst p) \<noteq> ex" using assms(2) by blast
  then obtain p where p: "find (\<lambda>(idx, _). Some idx \<noteq> ex) ?num = Some p"
    by (cases "find (\<lambda>(idx, _). Some idx \<noteq> ex) ?num") (auto simp: find_None_iff split_beta)
  then have "p \<in> set ?num" "Some (fst p) \<noteq> ex"
    by (auto simp: find_Some_iff split_beta)
  then have fp: "fst p < length cs" "Some (fst p) \<noteq> ex"
    using fst_enumerate [of cs] by blast+
  have loop: "\<exists>j. sample_loop fl ex ?num t None = Some j \<and> j < length cs \<and> Some j \<noteq> ex" for t
    using sample_loop_Some [OF disjI2 [OF mem], of fl t None] sample_loop_mem [of fl ex ?num t None] fst_enumerate [of cs]
    by auto
  let ?total = "f_sum fl (map (\<lambda>(_, c). f_max fl (sc_weight c) (f_zero fl)) (filter (\<lambda>(idx, _). Some idx \<noteq> ex) ?num))"
  let ?u = "fst (nx rng)"
  let ?t = "f_mul fl (if f_is_finite fl ?u then f_clamp fl ?u (f_zero fl) (f_sub fl (f_one fl) (f_epsilon fl))
    else f_zero fl) ?total"
  have draw: "weighted_sample_index fl nx cs ex rng =
      (if f_le fl ?total (f_epsilon fl) then (Some (fst p), rng) else (sample_loop fl ex ?num ?t None, snd (nx rng)))"
    unfolding weighted_sample_index_def Let_def p by (simp only: split_beta fst_conv snd_conv option.map)
  show ?thesis
  proof (cases "f_le fl ?total (f_epsilon fl)")
    case True
    with draw fp show ?thesis by (intro that [of "fst p" rng]) (simp_all only: if_True simp_thms)
  next
    case False
    from loop [of ?t] obtain j where "sample_loop fl ex ?num ?t None = Some j" "j < length cs" "Some j \<noteq> ex" by blast
    with draw False show ?thesis by (intro that [of j "snd (nx rng)"]) (simp_all only: if_False simp_thms)
  qed
qed

lemma better_p2c_index_spec:
  assumes "l < length cs" "r < length cs"
  shows "better_p2c_index fl cs l r = Some l \<or> better_p2c_index fl cs l r = Some r"
  using assms unfolding better_p2c_index_def by (simp add: index_opt_def)

lemma select_weighted_p2c_spec:
  assumes "distinct (map te_key es)"
  shows "\<exists>sel rng'. select_weighted_p2c fl nx es request w rng = Some (sel, rng') \<and>
    (case sel of
       None \<Rightarrow> filter (\<lambda>e. eligible fl e request) es = []
     | Some s \<Rightarrow> sc_entry (ps_selected s) \<in> set es \<and> eligible fl (sc_entry (ps_selected s)) request \<and>
         sc_estimated_price_au (ps_selected s) =
           estimate_request_price_au (te_contract (sc_entry (ps_selected s))) request \<and>
         te_key (sc_entry (ps_selected s)) \<in> set (ps_sampled s) \<and> distinct (ps_sampled s) \<and>
         length (ps_sampled s) = min 2 (length (filter (\<lambda>e. eligible fl e request) es)))"
proof -
  let ?el = "filter (\<lambda>e. eligible fl e request) es"
  obtain cs where cs: "eligible_candidates fl es request w = Some cs"
    "map (\<lambda>c. (sc_entry c, sc_estimated_price_au c)) cs =
       map (\<lambda>e. (e, estimate_request_price_au (te_contract e) request)) ?el"
    by (rule eligible_candidates_spec)
  have len: "length cs = length ?el" using arg_cong [OF cs(2), of length] by simp
  have nth: "sc_entry (cs ! i) = ?el ! i \<and>
      sc_estimated_price_au (cs ! i) = estimate_request_price_au (te_contract (?el ! i)) request"
    if "i < length cs" for i
    using arg_cong [OF cs(2), of "\<lambda>xs. xs ! i"] that len by simp
  have good: "sc_entry (cs ! i) \<in> set es \<and> eligible fl (sc_entry (cs ! i)) request \<and>
      sc_estimated_price_au (cs ! i) = estimate_request_price_au (te_contract (sc_entry (cs ! i))) request"
    if "i < length cs" for i
    using nth [OF that] nth_mem [of i ?el] that len by simp
  consider (none) "cs = []" | (one) "length cs = 1" | (more) "2 \<le> length cs" by (cases cs; cases "tl cs") auto
  then show ?thesis
  proof cases
    case none
    then show ?thesis using cs(1) len by (simp add: select_weighted_p2c_def)
  next
    case one
    then have "cs \<noteq> []" by auto
    with one show ?thesis using cs(1) len good [of 0] by (simp add: select_weighted_p2c_def)
  next
    case more
    have "0 < length cs" "Some 0 \<noteq> (None :: nat option)" using more by auto
    then obtain i rng1 where i: "weighted_sample_index fl nx cs None rng = (Some i, rng1)" "i < length cs"
      by (rule weighted_sample_index_spec)
    obtain k where k: "k < length cs" "Some k \<noteq> Some i" using more by (cases "i = 0") (auto intro: that [of 1] that [of 0])
    obtain j rng2 where j: "weighted_sample_index fl nx cs (Some i) rng1 = (Some j, rng2)" "j < length cs" "j \<noteq> i"
      by (rule weighted_sample_index_spec [OF k]) auto
    obtain m where m: "better_p2c_index fl cs i j = Some m" "m = i \<or> m = j"
      using better_p2c_index_spec [OF i(2) j(2)] by blast
    have ne: "cs \<noteq> []" "length cs \<noteq> 1" using more by auto
    have "select_weighted_p2c fl nx es request w rng =
        Some (Some \<lparr>ps_selected = cs ! m, ps_sampled = [te_key (sc_entry (cs ! i)), te_key (sc_entry (cs ! j))]\<rparr>, rng2)"
      unfolding select_weighted_p2c_def cs(1) using i j m ne by (auto simp: index_opt_def)
    moreover have "te_key (sc_entry (cs ! i)) \<noteq> te_key (sc_entry (cs ! j))"
    proof -
      have "distinct (map te_key ?el)" using assms by (rule distinct_map_filter)
      then show ?thesis using nth i(2) j(2,3) len by (metis length_map nth_eq_iff_index_eq nth_map)
    qed
    ultimately show ?thesis using good [of m] m(2) i(2) j(2) more len by auto
  qed
qed

text \<open>
  C12. Selection never panics. It returns no route exactly when no entry is eligible; otherwise the
  selected candidate is an eligible entry with its estimated price, it is one of the sampled ones, and
  when the entries have distinct keys and two or more are eligible the two draws are different routes.
\<close>

theorem selection_sound:
  assumes "distinct (map te_key es)"
  shows "\<exists>sel rng'. select_weighted_p2c fl nx es request w rng = Some (sel, rng') \<and>
    (case sel of
       None \<Rightarrow> filter (\<lambda>e. eligible fl e request) es = []
     | Some s \<Rightarrow> sc_entry (ps_selected s) \<in> set es \<and> eligible fl (sc_entry (ps_selected s)) request \<and>
         sc_estimated_price_au (ps_selected s) =
           estimate_request_price_au (te_contract (sc_entry (ps_selected s))) request \<and>
         te_key (sc_entry (ps_selected s)) \<in> set (ps_sampled s) \<and> distinct (ps_sampled s) \<and>
         length (ps_sampled s) = min 2 (length (filter (\<lambda>e. eligible fl e request) es)))"
  using assms by (rule select_weighted_p2c_spec)

text \<open>
  The candidates for the TPM activation handshake come from pending routes only, but their entries
  carry the attestation policy already marked as ready.
\<close>

lemma tpm_candidates_marked_ready:
  assumes "eligible_tpm_activation_candidates fl es request w = Some cs" "c \<in> set cs"
  shows "ap_locally_ready (cs_attestation_policy (te_contract (sc_entry c))) \<and>
    \<not> ap_tpm_activation_pending (cs_attestation_policy (te_contract (sc_entry c))) \<and>
    (\<exists>e \<in> set es. tpm_activation_pending e \<and> sc_entry c = mark_activated e)"
proof -
  let ?es = "map mark_activated (filter tpm_activation_pending es)"
  obtain cs' where cs': "eligible_candidates fl ?es request w = Some cs'"
    "map (\<lambda>c. (sc_entry c, sc_estimated_price_au c)) cs' =
       map (\<lambda>e. (e, estimate_request_price_au (te_contract e) request)) (filter (\<lambda>e. eligible fl e request) ?es)"
    by (rule eligible_candidates_spec)
  with assms(1) have "cs' = cs" by (simp add: eligible_tpm_activation_candidates_def Let_def)
  with assms(2) have "(sc_entry c, sc_estimated_price_au c) \<in> set (map (\<lambda>c. (sc_entry c, sc_estimated_price_au c)) cs')"
    by simp
  then have "sc_entry c \<in> set ?es" unfolding cs'(2) by auto
  then show ?thesis by (auto simp: mark_activated_def)
qed

text \<open>The entries of a table have distinct keys, so the hypothesis holds for every table.\<close>

lemma entries_distinct: "table_wf t \<Longrightarrow> distinct (map te_key (entries fl t now))"
proof -
  have "map te_key (entries fl t now) = map fst (pt_contract t)"
    by (simp add: entries_def table_entry_def Let_def split_beta)
  then show "table_wf t \<Longrightarrow> distinct (map te_key (entries fl t now))"
    by (simp add: table_wf_def bt_wf_distinct)
qed

definition sample_entry_of :: "provider_key \<Rightarrow> nat provider_table_entry" where
  "sample_entry_of key =
     \<lparr>te_key = key, te_contract = sample_contract, te_heartbeat = Some (sample_heartbeat 1000),
      te_heartbeat_age_millis = Some 10, te_observed = observation_default fixed_ops,
      te_attestation_head = Some \<lparr>ah_provider = pk_provider key, ah_enclave_id = pk_enclave_id key, ah_head = ''h'',
        ah_epoch = 2, ah_observed_at_millis = 1000\<rparr>\<rparr>"

lemma sample_entry_eligible:
  "eligible fixed_ops (sample_entry_of key) ((request_requirements_default fixed_ops)\<lparr>rr_now_millis := 1010\<rparr>)"
  by (simp add: eligible_def route_live_def sample_entry_of_def sample_contract_def request_requirements_default_def
      baseline_from_request_def observation_default_def not_required_def sample_heartbeat_def fixed_ops_def
      DEFAULT_SATURATION_CUTOFF_def DEFAULT_PROVIDER_HEARTBEAT_TTL_MILLIS_def DEFAULT_ATTESTATION_HEAD_MAX_AGE_MILLIS_def
      modes_fit_def capabilities_fit_def specialities_fit_def asks_def loads_fit_def price_fits_def throughput_fits_def
      probation_fits_def)

theorem selection_sound_witness:
  "\<exists>s rng'. select_weighted_p2c fixed_ops (lcg_next_unit_f64 fixed_ops)
      [sample_entry_of (ProviderKey ''a'' ''e'' ''r''), sample_entry_of (ProviderKey ''b'' ''e'' ''r'')]
      ((request_requirements_default fixed_ops)\<lparr>rr_now_millis := 1010\<rparr>) (selection_weights_default fixed_ops) 7 =
        Some (Some s, rng') \<and> length (ps_sampled s) = 2 \<and> distinct (ps_sampled s)"
proof -
  let ?es = "[sample_entry_of (ProviderKey ''a'' ''e'' ''r''), sample_entry_of (ProviderKey ''b'' ''e'' ''r'')]"
  have "distinct (map te_key ?es)" by (simp add: sample_entry_of_def)
  from selection_sound [OF this, of fixed_ops "lcg_next_unit_f64 fixed_ops"
      "(request_requirements_default fixed_ops)\<lparr>rr_now_millis := 1010\<rparr>" "selection_weights_default fixed_ops" 7]
  show ?thesis by (auto simp: sample_entry_eligible split: option.splits)
qed

end
