(* ===== verification/State_Result.thy ===== *)
theory State_Result
  imports Mayhem_Prelude
begin

text \<open>
  Methods that take \<open>&mut self\<close>, touch the file system and return a \<open>Result\<close>: a function from the state
  to a result and a new state. The state reached before an error is kept, as in the code, where a
  failed call does not undo what was already written. \<open>st_bind\<close> is the \<open>?\<close> operator.

  \<open>triple P m Q E\<close> is a specification of such a method: from a state that satisfies \<open>P\<close> it ends with
  a value and a state that satisfy \<open>Q\<close>, or with an error and a state that satisfy \<open>E\<close>.
\<close>

type_synonym ('s, 'e, 'a) st_result = "'s \<Rightarrow> ('e + 'a) \<times> 's"

definition st_ok :: "'a \<Rightarrow> ('s, 'e, 'a) st_result" where
  "st_ok x s = (Inr x, s)"

definition st_err :: "'e \<Rightarrow> ('s, 'e, 'a) st_result" where
  "st_err e s = (Inl e, s)"

definition st_lift :: "'e + 'a \<Rightarrow> ('s, 'e, 'a) st_result" where
  "st_lift r s = (r, s)"

definition st_modify :: "('s \<Rightarrow> 's) \<Rightarrow> ('s, 'e, unit) st_result" where
  "st_modify f s = (Inr (), f s)"

definition st_bind :: "('s, 'e, 'a) st_result \<Rightarrow> ('a \<Rightarrow> ('s, 'e, 'b) st_result) \<Rightarrow> ('s, 'e, 'b) st_result" where
  "st_bind m f s = (case m s of (Inl e, s') \<Rightarrow> (Inl e, s') | (Inr x, s') \<Rightarrow> f x s')"

text \<open>The state as a value, for the statements that read \<open>self\<close>.\<close>

definition st_read :: "('s \<Rightarrow> ('s, 'e, 'a) st_result) \<Rightarrow> ('s, 'e, 'a) st_result" where
  "st_read f s = f s s"

text \<open>\<open>if result.is_err() { let _ = cleanup; }\<close>: run \<open>h\<close> for its effect when \<open>m\<close> fails.\<close>

definition st_on_error :: "('s, 'e, 'a) st_result \<Rightarrow> ('s, 'e, 'b) st_result \<Rightarrow> ('s, 'e, 'a) st_result" where
  "st_on_error m h s = (case m s of (Inl e, s') \<Rightarrow> (Inl e, snd (h s')) | (Inr x, s') \<Rightarrow> (Inr x, s'))"

text \<open>\<open>for x in xs { ...? }\<close>.\<close>

primrec st_for :: "'a list \<Rightarrow> ('a \<Rightarrow> ('s, 'e, unit) st_result) \<Rightarrow> ('s, 'e, unit) st_result" where
  "st_for [] f = st_ok ()"
| "st_for (x # xs) f = st_bind (f x) (\<lambda>_. st_for xs f)"

definition triple ::
    "('s \<Rightarrow> bool) \<Rightarrow> ('s, 'e, 'a) st_result \<Rightarrow> ('a \<Rightarrow> 's \<Rightarrow> bool) \<Rightarrow> ('e \<Rightarrow> 's \<Rightarrow> bool) \<Rightarrow> bool" where
  "triple P m Q E \<longleftrightarrow>
     (\<forall>s. P s \<longrightarrow> (case m s of (Inl e, s') \<Rightarrow> E e s' | (Inr x, s') \<Rightarrow> Q x s'))"

lemma tripleI:
  assumes "\<And>s e s'. P s \<Longrightarrow> m s = (Inl e, s') \<Longrightarrow> E e s'"
    and "\<And>s x s'. P s \<Longrightarrow> m s = (Inr x, s') \<Longrightarrow> Q x s'"
  shows "triple P m Q E"
  unfolding triple_def using assms by (auto split: prod.splits sum.splits)

lemma tripleD_Inr: "triple P m Q E \<Longrightarrow> P s \<Longrightarrow> m s = (Inr x, s') \<Longrightarrow> Q x s'"
  unfolding triple_def by fastforce

lemma tripleD_Inl: "triple P m Q E \<Longrightarrow> P s \<Longrightarrow> m s = (Inl e, s') \<Longrightarrow> E e s'"
  unfolding triple_def by fastforce

lemma triple_conseq:
  assumes "triple P m Q E" "\<And>s. P' s \<Longrightarrow> P s" "\<And>x s. Q x s \<Longrightarrow> Q' x s" "\<And>e s. E e s \<Longrightarrow> E' e s"
  shows "triple P' m Q' E'"
proof (rule tripleI)
  fix s e s' assume "P' s" "m s = (Inl e, s')"
  then show "E' e s'" using assms(2, 4) tripleD_Inl [OF assms(1)] by blast
next
  fix s x s' assume "P' s" "m s = (Inr x, s')"
  then show "Q' x s'" using assms(2, 3) tripleD_Inr [OF assms(1)] by blast
qed

lemma triple_pre: "triple P m Q E \<Longrightarrow> (\<And>s. P' s \<Longrightarrow> P s) \<Longrightarrow> triple P' m Q E"
  by (rule triple_conseq)

lemma triple_ok: "(\<And>s. P s \<Longrightarrow> Q x s) \<Longrightarrow> triple P (st_ok x) Q E"
  by (simp add: triple_def st_ok_def)

lemma triple_err: "(\<And>s. P s \<Longrightarrow> E e s) \<Longrightarrow> triple P (st_err e) Q E"
  by (simp add: triple_def st_err_def)

lemma triple_lift:
  "(\<And>s e. r = Inl e \<Longrightarrow> P s \<Longrightarrow> E e s) \<Longrightarrow> (\<And>s x. r = Inr x \<Longrightarrow> P s \<Longrightarrow> Q x s) \<Longrightarrow> triple P (st_lift r) Q E"
  by (auto simp: triple_def st_lift_def split: sum.splits)

lemma triple_modify: "(\<And>s. P s \<Longrightarrow> Q () (f s)) \<Longrightarrow> triple P (st_modify f) Q E"
  by (simp add: triple_def st_modify_def)

lemma triple_bind:
  assumes "triple P m R E" "\<And>x. triple (R x) (f x) Q E"
  shows "triple P (st_bind m f) Q E"
proof (unfold triple_def, intro allI impI)
  fix s assume P: "P s"
  show "case st_bind m f s of (Inl e, s') \<Rightarrow> E e s' | (Inr x, s') \<Rightarrow> Q x s'"
  proof (cases "m s")
    case (Pair r s')
    show ?thesis
    proof (cases r)
      case (Inl e)
      then show ?thesis using tripleD_Inl [OF assms(1) P] Pair by (simp add: st_bind_def)
    next
      case (Inr x)
      then have "R x s'" using tripleD_Inr [OF assms(1) P] Pair by simp
      then show ?thesis using assms(2) [of x] Inr Pair by (simp add: st_bind_def triple_def)
    qed
  qed
qed

lemma triple_read: "(\<And>t. P t \<Longrightarrow> triple (\<lambda>s. s = t) (f t) Q E) \<Longrightarrow> triple P (st_read f) Q E"
  by (simp add: triple_def st_read_def)

lemma triple_each: "(\<And>t. P t \<Longrightarrow> triple (\<lambda>s. s = t) m Q E) \<Longrightarrow> triple P m Q E"
  by (simp add: triple_def)

lemma triple_if:
  "(b \<Longrightarrow> triple P m Q E) \<Longrightarrow> (\<not> b \<Longrightarrow> triple P n Q E) \<Longrightarrow> triple P (if b then m else n) Q E"
  by simp

lemma triple_on_error:
  assumes "triple P m Q F" "\<And>e. triple (F e) h (\<lambda>_. E e) (\<lambda>_. E e)"
  shows "triple P (st_on_error m h) Q E"
proof (unfold triple_def, intro allI impI)
  fix s assume P: "P s"
  obtain r s' where ms: "m s = (r, s')" by (cases "m s")
  show "case st_on_error m h s of (Inl e, s') \<Rightarrow> E e s' | (Inr x, s') \<Rightarrow> Q x s'"
  proof (cases r)
    case (Inl e)
    then have F: "F e s'" using tripleD_Inl [OF assms(1) P] ms by simp
    obtain r' s'' where h: "h s' = (r', s'')" by (cases "h s'")
    have "E e s''"
      using tripleD_Inl [OF assms(2) F] tripleD_Inr [OF assms(2) F] h by (cases r') auto
    then show ?thesis using ms Inl h by (simp add: st_on_error_def)
  next
    case (Inr x)
    then show ?thesis using tripleD_Inr [OF assms(1) P] ms by (simp add: st_on_error_def)
  qed
qed

lemma triple_for:
  assumes "\<And>x. x \<in> set xs \<Longrightarrow> triple P (f x) (\<lambda>_. P) E"
  shows "triple P (st_for xs f) (\<lambda>_. P) E"
  using assms
proof (induction xs)
  case Nil
  then show ?case by (simp add: triple_ok)
next
  case (Cons x xs)
  have "triple P (st_for xs f) (\<lambda>_. P) E" using Cons by simp
  then show ?case using Cons.prems by (auto intro!: triple_bind)
qed

lemma st_bind_Inr_iff:
  "st_bind m f s = (Inr y, s'') \<longleftrightarrow> (\<exists>x s'. m s = (Inr x, s') \<and> f x s' = (Inr y, s''))"
  by (auto simp: st_bind_def split: prod.splits sum.splits)

lemma st_lift_Inr_iff: "st_lift r s = (Inr x, s') \<longleftrightarrow> r = Inr x \<and> s' = s"
  by (auto simp: st_lift_def)

lemma st_ok_Inr_iff: "st_ok x s = (Inr y, s') \<longleftrightarrow> y = x \<and> s' = s"
  by (auto simp: st_ok_def)

lemma st_err_Inr_iff: "st_err e s \<noteq> (Inr y, s')"
  by (simp add: st_err_def)

lemma st_modify_Inr_iff: "st_modify f s = (Inr u, s') \<longleftrightarrow> s' = f s"
  by (auto simp: st_modify_def)

lemma st_read_iff: "st_read f s = f s s"
  by (simp add: st_read_def)

lemmas st_Inr_simps = st_bind_Inr_iff st_lift_Inr_iff st_ok_Inr_iff st_err_Inr_iff st_modify_Inr_iff st_read_iff

text \<open>Two updates in a row are one.\<close>

lemma st_modify_modify: "st_bind (st_modify f) (\<lambda>_. st_bind (st_modify g) h) = st_bind (st_modify (g \<circ> f)) h"
  by (simp add: fun_eq_iff st_bind_def st_modify_def)

lemma st_read_const: "st_read (\<lambda>_. m) = m"
  by (simp add: fun_eq_iff st_read_def)

end
