(* ===== verification/Job_Vault.thy ===== *)
theory Job_Vault
  imports State_Result Json_Value
begin

text \<open>
  The encrypted job vault of \<open>mayhem-gateway/src/job_store.rs\<close>: the job records, the format of a sealed
  record, and the directory it is published in. The third-party code (\<open>blake3\<close>, \<open>aes_gcm\<close>, \<open>serde_json\<close>,
  \<open>hex\<close>, \<open>getrandom\<close>) is the record \<open>env\<close>. The operating system is part of it: \<open>je_fails env n\<close> says
  whether the \<open>n\<close>-th call fails, so that the theorems about failing calls hold for every pattern of
  failures, and \<open>je_order\<close> is the order in which a directory is listed.
\<close>

section \<open>Data\<close>

definition JOB_SCHEMA_VERSION :: u32 where "JOB_SCHEMA_VERSION = 1"
definition JOB_FILE_MAGIC :: string where "JOB_FILE_MAGIC = ''MYHMJOB1''"
definition JOB_NONCE_BYTES :: nat where "JOB_NONCE_BYTES = 12"
definition JOB_CONTEXT_LENGTH_BYTES :: nat where "JOB_CONTEXT_LENGTH_BYTES = 2"
definition JOB_MAX_KEY_CONTEXT_BYTES :: nat where "JOB_MAX_KEY_CONTEXT_BYTES = 512"
definition JOB_FILE_SUFFIX :: string where "JOB_FILE_SUFFIX = ''mjob''"
definition JOB_KEY_DOMAIN :: string where "JOB_KEY_DOMAIN = ''mayhem-gateway-job-vault-key-v1''"
definition JOB_RECORD_KEY_DOMAIN :: string where "JOB_RECORD_KEY_DOMAIN = ''mayhem-gateway-job-record-key-v1''"
definition JOB_ID_DOMAIN :: string where "JOB_ID_DOMAIN = ''mayhem-gateway-job-id-v1''"

datatype gateway_job_status = ReconciliationPending | Completed | Cancelled | Failed

fun status_as_str :: "gateway_job_status \<Rightarrow> string" where
  "status_as_str ReconciliationPending = ''reconciliation_pending''"
| "status_as_str Completed = ''completed''"
| "status_as_str Cancelled = ''cancelled''"
| "status_as_str Failed = ''failed''"

record gateway_job_artifact =
  ga_id :: string
  ga_content_type :: string
  ga_bytes :: "u8 list"
  ga_blake3 :: string

record gateway_job_artifact_summary =
  gas_id :: string
  gas_content_type :: string
  gas_bytes :: nat
  gas_blake3 :: string

record gateway_job_error_info =
  ei_code :: string
  ei_category :: string
  ei_retryable :: bool

record 'n stored_gateway_job =
  sj_schema_version :: u32
  sj_id :: string
  sj_endpoint_family :: string
  sj_model :: string
  sj_owner_token_id :: "string option"
  sj_request_fingerprint :: string
  sj_status :: gateway_job_status
  sj_created_at :: u64
  sj_finished_at :: u64
  sj_expires_at :: u64
  sj_result :: "'n json option"
  sj_artifacts :: "gateway_job_artifact list"
  sj_receipt :: "'n json option"
  sj_error :: "string option"
  sj_error_info :: "gateway_job_error_info option"

record 'n active_gateway_job =
  aj_id :: string
  aj_endpoint_family :: string
  aj_model :: string
  aj_owner_token_id :: "string option"
  aj_request_fingerprint :: string
  aj_created_at :: u64
  aj_recovery :: "'n stored_gateway_job option"

record 'n gateway_job_store =
  js_key :: "u8 list"
  js_directory :: "string option"
  js_records :: "(string, 'n stored_gateway_job) btree"
  js_sealed_sizes :: "(string, u64) btree"
  js_active :: "(string, 'n active_gateway_job) btree"
  js_reconciling :: "(string, unit) btree"
  js_total_bytes :: u64
  js_max_jobs :: u64
  js_max_bytes :: u64
  js_ttl_seconds :: u64

text \<open>The store together with the files of its directory and the number of system calls made so far.\<close>

record 'n job_vault = "'n gateway_job_store" +
  jw_files :: "(string, u8 list) btree"
  jw_calls :: nat

text \<open>
  One constructor per error message. The last two are no messages: \<open>ActiveRecoveryOwner\<close> is the panic of
  an \<open>expect\<close>, and \<open>EndlessLoop\<close> a \<open>while\<close> loop that does not end.
\<close>

datatype job_error =
  IdempotencyConflict string
| RunningConflict string
| NotActive string
| LiveJobLimit nat u64 nat
| DifferentTerminalResult string
| AboveVaultLimit string u64 u64
| CannotFit u64
| CannotSatisfyBounds
| CannotFinishAs string gateway_job_status
| NoReconciliationState string
| CannotFinishFrom string gateway_job_status
| CannotUpdateFrom string gateway_job_status
| RemovalWhilePending string
| JobFileExists string
| JobFileMissing string
| InvalidJobId
| InvalidIdentityOrSchema string
| InvalidHeader string
| InvalidContext string
| NonUtf8Context string
| NonUtf8Filename string
| InvalidKeyContext
| KeyContextTooLong
| InvalidIdempotencyKey
| Serializing string string
| Encrypting string
| CipherInit
| Authenticating string
| Decoding string string
| Entropy string
| OsError string string
| ActiveRecoveryOwner
| EndlessLoop

record 'n job_env =
  je_keyed_hash :: "u8 list \<Rightarrow> u8 list \<Rightarrow> u8 list"
  je_hex :: "u8 list \<Rightarrow> string"
  je_encrypt :: "u8 list \<Rightarrow> u8 list \<Rightarrow> u8 list \<Rightarrow> u8 list \<Rightarrow> u8 list option"
  je_decrypt :: "u8 list \<Rightarrow> u8 list \<Rightarrow> u8 list \<Rightarrow> u8 list \<Rightarrow> u8 list option"
  je_to_vec :: "'n stored_gateway_job \<Rightarrow> string + u8 list"
  je_from_slice :: "u8 list \<Rightarrow> string + 'n stored_gateway_job"
  je_exact :: "'n \<Rightarrow> bool"
  je_getrandom :: "nat \<Rightarrow> nat \<Rightarrow> string + u8 list"
  je_fails :: "nat \<Rightarrow> string option"
  je_partial :: "nat \<Rightarrow> nat"
  je_order :: "string list \<Rightarrow> string list"

type_synonym ('n, 'a) vault_op = "('n job_vault, job_error, 'a) st_result"

section \<open>Bytes and text\<close>

definition u16_to_be_bytes :: "nat \<Rightarrow> u8 list" where
  "u16_to_be_bytes n = [of_nat (n div 256), of_nat (n mod 256)]"

definition u16_from_be_bytes :: "u8 list \<Rightarrow> nat" where
  "u16_from_be_bytes bs = unat (bs ! 0) * 256 + unat (bs ! 1)"

lemma u16_be_roundtrip: "n < 65536 \<Longrightarrow> u16_from_be_bytes (u16_to_be_bytes n) = n"
  by (simp add: u16_from_be_bytes_def u16_to_be_bytes_def unat_of_nat_small)

section \<open>Sealed records\<close>

definition getrandom :: "'n job_env \<Rightarrow> nat \<Rightarrow> ('n, u8 list) vault_op" where
  "getrandom env n s =
     (map_sum Entropy id (je_getrandom env (jw_calls s) n), s\<lparr>jw_calls := Suc (jw_calls s)\<rparr>)"

definition derive_job_store_key :: "'n job_env \<Rightarrow> u8 list \<Rightarrow> u8 list" where
  "derive_job_store_key env wallet_seed = je_keyed_hash env wallet_seed (as_bytes JOB_KEY_DOMAIN)"

definition job_key_context :: "'n stored_gateway_job \<Rightarrow> string" where
  "job_key_context job =
     (let session_id =
            Option.bind
              (Option.bind (sj_receipt job) (\<lambda>receipt.
                 case json_pointer receipt [''body'', ''session_id''] of
                   Some v \<Rightarrow> Some v
                 | None \<Rightarrow> json_get receipt ''session_id''))
              json_as_str
      in case session_id of
           Some sid \<Rightarrow> if sid \<noteq> [] then ''session:'' @ sid else ''job:'' @ sj_id job
         | None \<Rightarrow> ''job:'' @ sj_id job)"

definition derive_job_record_key :: "'n job_env \<Rightarrow> u8 list \<Rightarrow> string \<Rightarrow> string \<Rightarrow> u8 list" where
  "derive_job_record_key env master_key jid context =
     je_keyed_hash env master_key
       (as_bytes JOB_RECORD_KEY_DOMAIN @ [0] @ as_bytes jid @ [0] @ as_bytes context)"

definition validate_key_context :: "string \<Rightarrow> job_error + unit" where
  "validate_key_context context =
     (if context = [] \<or> length context > JOB_MAX_KEY_CONTEXT_BYTES \<or> \<not> list_all is_ascii_graphic context
      then Inl InvalidKeyContext else Inr ())"

definition job_aad :: "string \<Rightarrow> string \<Rightarrow> string" where
  "job_aad jid context = ''mayhem-gateway-job-vault-v1'' @ [CHR 0x00] @ jid @ [CHR 0x00] @ context"

definition seal_job :: "'n job_env \<Rightarrow> u8 list \<Rightarrow> 'n stored_gateway_job \<Rightarrow> ('n, u8 list) vault_op" where
  "seal_job env master_key job =
     st_bind (st_lift (map_sum (Serializing (sj_id job)) id (je_to_vec env job))) (\<lambda>plaintext.
     let context = job_key_context job in
     st_bind (st_lift (validate_key_context context)) (\<lambda>_.
     st_bind (st_lift (ensure (length context < 65536) KeyContextTooLong)) (\<lambda>_.
     st_bind (getrandom env JOB_NONCE_BYTES) (\<lambda>nonce.
     let record_key = derive_job_record_key env master_key (sj_id job) context in
     st_bind (st_lift (ensure (length record_key = 32) CipherInit)) (\<lambda>_.
     st_bind (st_lift (ok_or (je_encrypt env record_key nonce plaintext (as_bytes (job_aad (sj_id job) context)))
                         (Encrypting (sj_id job)))) (\<lambda>ciphertext.
     st_ok (as_bytes JOB_FILE_MAGIC @ u16_to_be_bytes (length context) @ as_bytes context @ nonce @ ciphertext)))))))"

definition open_job :: "'n job_env \<Rightarrow> u8 list \<Rightarrow> string \<Rightarrow> u8 list \<Rightarrow> job_error + 'n stored_gateway_job" where
  "open_job env master_key jid sealed =
     (let minimum = length JOB_FILE_MAGIC + JOB_CONTEXT_LENGTH_BYTES + JOB_NONCE_BYTES + 1 in
      if length sealed < minimum \<or> take (length JOB_FILE_MAGIC) sealed \<noteq> as_bytes JOB_FILE_MAGIC
      then Inl (InvalidHeader jid)
      else
        let length_start = length JOB_FILE_MAGIC;
            length_end = length_start + JOB_CONTEXT_LENGTH_BYTES;
            context_length = u16_from_be_bytes (take JOB_CONTEXT_LENGTH_BYTES (drop length_start sealed));
            context_end = length_end + context_length;
            nonce_start = context_end;
            nonce_end = nonce_start + JOB_NONCE_BYTES
        in
        if context_length = 0 \<or> context_length > JOB_MAX_KEY_CONTEXT_BYTES \<or> nonce_end \<ge> length sealed
        then Inl (InvalidContext jid)
        else
          let context_bytes = take (context_end - length_end) (drop length_end sealed);
              context = of_bytes context_bytes
          in
          rbind (ensure (utf8_valid context_bytes) (NonUtf8Context jid)) (\<lambda>_.
          rbind (validate_key_context context) (\<lambda>_.
          let record_key = derive_job_record_key env master_key jid context in
          rbind (ensure (length record_key = 32) CipherInit) (\<lambda>_.
          rbind (ok_or (je_decrypt env record_key (take (nonce_end - nonce_start) (drop nonce_start sealed))
                          (drop nonce_end sealed) (as_bytes (job_aad jid context)))
                   (Authenticating jid)) (\<lambda>plaintext.
          map_sum (Decoding jid) id (je_from_slice env plaintext))))))"

section \<open>The directory\<close>

definition validate_job_id :: "string \<Rightarrow> job_error + unit" where
  "validate_job_id jid =
     (if length jid < 5 \<or> length jid > 128 \<or>
         \<not> list_all (\<lambda>c. is_ascii_alphanumeric c \<or> c = CHR ''_'' \<or> c = CHR ''-'') jid
      then Inl InvalidJobId else Inr ())"

definition job_path :: "string \<Rightarrow> string" where
  "job_path jid = jid @ ''.'' @ JOB_FILE_SUFFIX"

text \<open>
  A system call. \<open>Path::exists\<close> is \<open>false\<close> when the call fails; a failed write leaves a prefix of the
  bytes; \<open>remove_file\<close> reports a missing file apart from the other errors.
\<close>

definition os_call :: "'n job_env \<Rightarrow> string \<Rightarrow> ('n, unit) vault_op" where
  "os_call env what s =
     (case je_fails env (jw_calls s) of None \<Rightarrow> Inr () | Some err \<Rightarrow> Inl (OsError what err),
      s\<lparr>jw_calls := Suc (jw_calls s)\<rparr>)"

definition path_exists :: "'n job_env \<Rightarrow> string \<Rightarrow> ('n, bool) vault_op" where
  "path_exists env name s =
     (Inr (je_fails env (jw_calls s) = None \<and> bt_get (jw_files s) name \<noteq> None),
      s\<lparr>jw_calls := Suc (jw_calls s)\<rparr>)"

definition set_file :: "string \<Rightarrow> u8 list \<Rightarrow> 'n job_vault \<Rightarrow> 'n job_vault" where
  "set_file name bytes s = s\<lparr>jw_files := bt_insert name bytes (jw_files s)\<rparr>"

definition unlink :: "string \<Rightarrow> 'n job_vault \<Rightarrow> 'n job_vault" where
  "unlink name s = s\<lparr>jw_files := bt_remove name (jw_files s)\<rparr>"

definition create_new :: "'n job_env \<Rightarrow> string \<Rightarrow> ('n, unit) vault_op" where
  "create_new env name =
     st_bind (os_call env ''creating encrypted job'') (\<lambda>_.
     st_read (\<lambda>s. if bt_get (jw_files s) name \<noteq> None then st_err (OsError ''creating encrypted job'' ''AlreadyExists'')
                  else st_modify (set_file name [])))"

definition write_all :: "'n job_env \<Rightarrow> string \<Rightarrow> u8 list \<Rightarrow> ('n, unit) vault_op" where
  "write_all env name bytes s =
     (case os_call env ''writing encrypted job'' s of
        (Inl e, s') \<Rightarrow> (Inl e, set_file name (take (je_partial env (jw_calls s)) bytes) s')
      | (Inr _, s') \<Rightarrow> (Inr (), set_file name bytes s'))"

definition rename_file :: "'n job_env \<Rightarrow> string \<Rightarrow> string \<Rightarrow> ('n, unit) vault_op" where
  "rename_file env source dest =
     st_bind (os_call env ''publishing encrypted job'') (\<lambda>_.
     st_read (\<lambda>s. case bt_get (jw_files s) source of
                    None \<Rightarrow> st_err (OsError ''publishing encrypted job'' ''NotFound'')
                  | Some bytes \<Rightarrow> st_modify (set_file dest bytes \<circ> unlink source)))"

definition remove_file :: "'n job_env \<Rightarrow> string \<Rightarrow> ('n, bool) vault_op" where
  "remove_file env name =
     st_bind (os_call env ''removing encrypted job'') (\<lambda>_.
     st_read (\<lambda>s. if bt_get (jw_files s) name = None then st_ok False
                  else st_bind (st_modify (unlink name)) (\<lambda>_. st_ok True)))"

definition read_file :: "'n job_env \<Rightarrow> string \<Rightarrow> ('n, u8 list) vault_op" where
  "read_file env name =
     st_bind (os_call env ''reading encrypted job'') (\<lambda>_.
     st_read (\<lambda>s. st_lift (ok_or (bt_get (jw_files s) name) (OsError ''reading encrypted job'' ''NotFound''))))"

definition sync_directory :: "'n job_env \<Rightarrow> ('n, unit) vault_op" where
  "sync_directory env = os_call env ''syncing gateway job vault''"

definition create_private_directory :: "'n job_env \<Rightarrow> ('n, unit) vault_op" where
  "create_private_directory env =
     st_bind (os_call env ''creating gateway job vault'') (\<lambda>_. os_call env ''securing gateway job vault'')"

definition temporary_path :: "'n job_env \<Rightarrow> string \<Rightarrow> u8 list \<Rightarrow> string" where
  "temporary_path env jid random = ''.'' @ jid @ ''.'' @ je_hex env random @ ''.tmp''"

definition publish :: "'n job_env \<Rightarrow> string \<Rightarrow> string \<Rightarrow> u8 list \<Rightarrow> ('n, unit) vault_op" where
  "publish env temporary dest sealed =
     st_on_error
       (st_bind (write_all env temporary sealed) (\<lambda>_.
        st_bind (os_call env ''syncing encrypted job'') (\<lambda>_.
        st_bind (rename_file env temporary dest) (\<lambda>_.
        sync_directory env))))
       (remove_file env temporary)"

definition persist :: "'n job_env \<Rightarrow> string \<Rightarrow> u8 list \<Rightarrow> bool \<Rightarrow> ('n, unit) vault_op" where
  "persist env jid sealed replace =
     st_read (\<lambda>s. case js_directory s of
        None \<Rightarrow> st_ok ()
      | Some _ \<Rightarrow>
          st_bind (st_lift (validate_job_id jid)) (\<lambda>_.
          st_bind (path_exists env (job_path jid)) (\<lambda>present.
          if \<not> replace \<and> present then st_err (JobFileExists jid)
          else if replace \<and> \<not> present then st_err (JobFileMissing jid)
          else
            st_bind (getrandom env 8) (\<lambda>random.
            st_bind (create_new env (temporary_path env jid random)) (\<lambda>_.
            publish env (temporary_path env jid random) (job_path jid) sealed)))))"

definition persist_replace :: "'n job_env \<Rightarrow> string \<Rightarrow> u8 list \<Rightarrow> ('n, unit) vault_op" where
  "persist_replace env jid sealed = persist env jid sealed True"

definition remove_sealed_record :: "'n job_env \<Rightarrow> string \<Rightarrow> ('n, unit) vault_op" where
  "remove_sealed_record env jid =
     st_bind (st_modify (\<lambda>s.
        case bt_get (js_sealed_sizes s) jid of
          None \<Rightarrow> s
        | Some bytes \<Rightarrow>
            s\<lparr>js_sealed_sizes := bt_remove jid (js_sealed_sizes s),
              js_total_bytes := sat_sub (js_total_bytes s) bytes\<rparr>)) (\<lambda>_.
     st_read (\<lambda>s. case js_directory s of
        None \<Rightarrow> st_ok ()
      | Some _ \<Rightarrow>
          st_bind (remove_file env (job_path jid)) (\<lambda>removed.
          if removed then sync_directory env else st_ok ())))"

section \<open>Sealing and opening\<close>

text \<open>
  What the code relies on. \<open>serde_json\<close> reads back the jobs it has written, within its documented limits:
  \<open>Some(Value::Null)\<close> in an optional field is read as \<open>None\<close>, a document is refused beyond 128 levels, and a
  floating-point number need not be parsed to the number that was printed; \<open>je_exact\<close> holds of the numbers
  that are. The cipher decrypts what it encrypted under the same key, nonce and associated data and its
  output carries a tag, and a filled random buffer has the length asked for.
\<close>

definition value_reads_back :: "'n job_env \<Rightarrow> 'n json \<Rightarrow> bool" where
  "value_reads_back env v \<longleftrightarrow>
     v \<noteq> JNull \<and> json_wf v \<and> json_depth v \<le> 120 \<and> list_all (je_exact env) (json_numbers v)"

definition reads_back :: "'n job_env \<Rightarrow> 'n stored_gateway_job \<Rightarrow> bool" where
  "reads_back env job \<longleftrightarrow>
     pred_option (value_reads_back env) (sj_result job) \<and> pred_option (value_reads_back env) (sj_receipt job)"

definition codec_ok :: "'n job_env \<Rightarrow> bool" where
  "codec_ok env \<longleftrightarrow>
     (\<forall>j bytes. reads_back env j \<longrightarrow> je_to_vec env j = Inr bytes \<longrightarrow> je_from_slice env bytes = Inr j) \<and>
     (\<forall>k nonce msg aad c. je_encrypt env k nonce msg aad = Some c \<longrightarrow>
        je_decrypt env k nonce c aad = Some msg \<and> c \<noteq> []) \<and>
     (\<forall>i n bytes. je_getrandom env i n = Inr bytes \<longrightarrow> length bytes = n)"

lemma utf8_valid_graphic: "list_all is_ascii_graphic s \<Longrightarrow> utf8_valid (as_bytes s)"
proof (rule utf8_valid_ascii)
  assume "list_all is_ascii_graphic s"
  then show "list_all (\<lambda>b. b < 0x80) (as_bytes s)"
    by (auto simp: list_all_iff as_bytes_def is_ascii_graphic_def word_less_nat_alt word_le_nat_alt dest!: bspec)
qed

lemma map_sum_id_Inr_iff: "map_sum f id r = Inr x \<longleftrightarrow> r = Inr x"
  by (cases r) auto

lemma seal_job_Inr:
  assumes "seal_job env k job s = (Inr sealed, s')"
  obtains plaintext nonce ciphertext where
    "je_to_vec env job = Inr plaintext" "validate_key_context (job_key_context job) = Inr ()"
    "length (job_key_context job) < 65536" "je_getrandom env (jw_calls s) JOB_NONCE_BYTES = Inr nonce"
    "length (derive_job_record_key env k (sj_id job) (job_key_context job)) = 32"
    "je_encrypt env (derive_job_record_key env k (sj_id job) (job_key_context job)) nonce plaintext
       (as_bytes (job_aad (sj_id job) (job_key_context job))) = Some ciphertext"
    "sealed = as_bytes JOB_FILE_MAGIC @ u16_to_be_bytes (length (job_key_context job)) @
       as_bytes (job_key_context job) @ nonce @ ciphertext"
    "s' = s\<lparr>jw_calls := Suc (jw_calls s)\<rparr>"
  using assms
  by (auto simp: seal_job_def Let_def st_Inr_simps getrandom_def map_sum_id_Inr_iff)

lemma open_seal:
  assumes "codec_ok env" "reads_back env job" "seal_job env k job s = (Inr sealed, s')"
  shows "open_job env k (sj_id job) sealed = Inr job"
proof -
  let ?c = "job_key_context job"
  obtain plaintext nonce ciphertext where
    p: "je_to_vec env job = Inr plaintext" and c: "validate_key_context ?c = Inr ()" "length ?c < 65536"
    and n: "je_getrandom env (jw_calls s) JOB_NONCE_BYTES = Inr nonce"
    and k: "length (derive_job_record_key env k (sj_id job) ?c) = 32"
    and e: "je_encrypt env (derive_job_record_key env k (sj_id job) ?c) nonce plaintext
       (as_bytes (job_aad (sj_id job) ?c)) = Some ciphertext"
    and s: "sealed = as_bytes JOB_FILE_MAGIC @ u16_to_be_bytes (length ?c) @ as_bytes ?c @ nonce @ ciphertext"
    using seal_job_Inr [OF assms(3)] by metis
  have j: "je_from_slice env plaintext = Inr job" and len: "length nonce = JOB_NONCE_BYTES"
    and d: "je_decrypt env (derive_job_record_key env k (sj_id job) ?c) nonce ciphertext
       (as_bytes (job_aad (sj_id job) ?c)) = Some plaintext" and ne: "ciphertext \<noteq> []"
    using assms(1, 2) p n e by (auto simp: codec_ok_def)
  have ctx: "?c \<noteq> []" "length ?c \<le> JOB_MAX_KEY_CONTEXT_BYTES" "list_all is_ascii_graphic ?c"
    using c(1) by (auto simp: validate_key_context_def split: if_splits)
  have two: "length (u16_to_be_bytes m) = JOB_CONTEXT_LENGTH_BYTES" for m
    by (simp add: u16_to_be_bytes_def JOB_CONTEXT_LENGTH_BYTES_def)
  show ?thesis
    unfolding open_job_def s
    using ctx c ne by (simp add: Let_def two len k d j u16_be_roundtrip utf8_valid_graphic Suc_leI)
qed

section \<open>System calls leave the store alone\<close>

definition mem :: "('n, 'z) gateway_job_store_scheme \<Rightarrow> 'n gateway_job_store" where
  "mem s = gateway_job_store.truncate s"

lemma mem_fields [simp]:
  "js_key (mem s) = js_key s" "js_directory (mem s) = js_directory s" "js_records (mem s) = js_records s"
  "js_sealed_sizes (mem s) = js_sealed_sizes s" "js_active (mem s) = js_active s"
  "js_reconciling (mem s) = js_reconciling s" "js_total_bytes (mem s) = js_total_bytes s"
  "js_max_jobs (mem s) = js_max_jobs s" "js_max_bytes (mem s) = js_max_bytes s"
  "js_ttl_seconds (mem s) = js_ttl_seconds s"
  by (simp_all add: mem_def gateway_job_store.truncate_def)

lemma mem_files [simp]:
  "mem (s\<lparr>jw_files := f\<rparr>) = mem s" "mem (s\<lparr>jw_calls := c\<rparr>) = mem s"
  "mem (set_file name bytes s) = mem s" "mem (unlink name s) = mem s"
  by (simp_all add: mem_def gateway_job_store.truncate_def set_file_def unlink_def)

text \<open>
  An operation that changes only files and whose errors are messages of the code: neither a panic nor a
  loop that does not end.
\<close>

definition proper_error :: "job_error \<Rightarrow> bool" where
  "proper_error e \<longleftrightarrow> e \<noteq> EndlessLoop \<and> e \<noteq> ActiveRecoveryOwner"

definition fs_op :: "('n, 'a) vault_op \<Rightarrow> bool" where
  "fs_op m \<longleftrightarrow> (\<forall>s. mem (snd (m s)) = mem s \<and> (\<forall>e. fst (m s) = Inl e \<longrightarrow> proper_error e))"

named_theorems fs_ops \<open>operations that change only files\<close>

lemma fs_op_ok: "fs_op (st_ok x)"
  by (simp add: fs_op_def st_ok_def)

lemma fs_op_err: "proper_error e \<Longrightarrow> fs_op (st_err e)"
  by (simp add: fs_op_def st_err_def)

lemma fs_op_lift: "(\<And>e. r = Inl e \<Longrightarrow> proper_error e) \<Longrightarrow> fs_op (st_lift r)"
  by (simp add: fs_op_def st_lift_def)

lemma fs_op_modify: "(\<And>s. mem (f s) = mem s) \<Longrightarrow> fs_op (st_modify f)"
  by (simp add: fs_op_def st_modify_def)

lemma fs_op_read: "(\<And>t. fs_op (f t)) \<Longrightarrow> fs_op (st_read f)"
  by (simp add: fs_op_def st_read_def)

lemma fs_op_bind: "fs_op m \<Longrightarrow> (\<And>x. fs_op (f x)) \<Longrightarrow> fs_op (st_bind m f)"
  by (auto simp: fs_op_def st_bind_def split_beta split: sum.splits)

lemma fs_op_on_error: "fs_op m \<Longrightarrow> fs_op h \<Longrightarrow> fs_op (st_on_error m h)"
  by (auto simp: fs_op_def st_on_error_def split_beta split: sum.splits)

lemma fs_op_if: "(b \<Longrightarrow> fs_op m) \<Longrightarrow> (\<not> b \<Longrightarrow> fs_op n) \<Longrightarrow> fs_op (if b then m else n)"
  by simp

lemma fs_op_case_option:
  "(x = None \<Longrightarrow> fs_op m) \<Longrightarrow> (\<And>y. x = Some y \<Longrightarrow> fs_op (f y)) \<Longrightarrow> fs_op (case x of None \<Rightarrow> m | Some y \<Rightarrow> f y)"
  by (cases x) auto

lemmas fs_op_rules = fs_op_ok fs_op_read fs_op_bind fs_op_on_error fs_op_if fs_op_case_option fs_op_modify fs_op_lift fs_op_err

lemma fs_os_call [fs_ops]: "fs_op (os_call env what)"
  by (auto simp: fs_op_def os_call_def proper_error_def split: option.splits)

lemma fs_getrandom [fs_ops]: "fs_op (getrandom env n)"
  by (auto simp: fs_op_def getrandom_def proper_error_def map_sum_def split: sum.splits)

lemma fs_path_exists [fs_ops]: "fs_op (path_exists env name)"
  by (simp add: fs_op_def path_exists_def)

lemma fs_write_all [fs_ops]: "fs_op (write_all env name bytes)"
  by (auto simp: fs_op_def write_all_def os_call_def proper_error_def split: option.splits)

lemma fs_create_new [fs_ops]: "fs_op (create_new env name)"
  unfolding create_new_def by (intro fs_op_rules fs_ops) (simp_all add: proper_error_def)

lemma fs_rename_file [fs_ops]: "fs_op (rename_file env source dest)"
  unfolding rename_file_def by (intro fs_op_rules fs_ops) (simp_all add: proper_error_def)

lemma fs_remove_file [fs_ops]: "fs_op (remove_file env name)"
  unfolding remove_file_def by (intro fs_op_rules fs_ops) simp

lemma fs_read_file [fs_ops]: "fs_op (read_file env name)"
  unfolding read_file_def by (intro fs_op_rules fs_ops) (auto simp: proper_error_def ok_or_def split: option.splits)

lemma fs_sync_directory [fs_ops]: "fs_op (sync_directory env)"
  unfolding sync_directory_def by (rule fs_os_call)

lemma fs_publish [fs_ops]: "fs_op (publish env temporary dest sealed)"
  unfolding publish_def by (intro fs_op_rules fs_ops)

lemma proper_errors:
  "validate_job_id jid = Inl e \<Longrightarrow> proper_error e" "validate_key_context context = Inl e \<Longrightarrow> proper_error e"
  "ensure b KeyContextTooLong = Inl e \<Longrightarrow> proper_error e" "ensure b CipherInit = Inl e \<Longrightarrow> proper_error e"
  "ok_or x (Encrypting jid) = Inl e \<Longrightarrow> proper_error e" "map_sum (Serializing jid) id r = Inl e \<Longrightarrow> proper_error e"
  "proper_error (JobFileExists jid)" "proper_error (JobFileMissing jid)"
  by (auto simp: proper_error_def validate_job_id_def validate_key_context_def ensure_def ok_or_def map_sum_def
           split: if_splits option.splits sum.splits)

lemma fs_persist [fs_ops]: "fs_op (persist env jid sealed replace)"
  unfolding persist_def by (intro fs_op_rules fs_ops) (auto intro: proper_errors)

lemma fs_persist_replace [fs_ops]: "fs_op (persist_replace env jid sealed)"
  unfolding persist_replace_def by (rule fs_persist)

lemma fs_seal_job [fs_ops]: "fs_op (seal_job env k job)"
  unfolding seal_job_def Let_def by (intro fs_op_rules fs_ops) (auto intro: proper_errors)

lemma fs_op_triple: "fs_op m \<Longrightarrow> triple (\<lambda>s. Q (mem s)) m (\<lambda>_ s. Q (mem s)) (\<lambda>e s. proper_error e \<and> Q (mem s))"
  unfolding fs_op_def by (auto simp: triple_def split_beta split: sum.splits)

definition drop_size :: "string \<Rightarrow> 'n job_vault \<Rightarrow> 'n job_vault" where
  "drop_size jid s =
     (case bt_get (js_sealed_sizes s) jid of
        None \<Rightarrow> s
      | Some bytes \<Rightarrow>
          s\<lparr>js_sealed_sizes := bt_remove jid (js_sealed_sizes s),
            js_total_bytes := sat_sub (js_total_bytes s) bytes\<rparr>)"

lemma remove_sealed_record_mem:
  assumes "\<And>s. P s \<Longrightarrow> Q (mem (drop_size jid s))"
  shows "triple P (remove_sealed_record env jid) (\<lambda>_ s. Q (mem s)) (\<lambda>e s. proper_error e \<and> Q (mem s))"
  unfolding remove_sealed_record_def drop_size_def [symmetric]
proof (rule triple_bind [where R = "\<lambda>_ s. Q (mem s)"])
  show "triple P (st_modify (drop_size jid)) (\<lambda>_ s. Q (mem s)) (\<lambda>e s. proper_error e \<and> Q (mem s))"
    by (rule triple_modify) (rule assms)
qed (rule fs_op_triple, intro fs_op_rules fs_ops)

end
