(* ===== verification/Job_Store.thy ===== *)
theory Job_Store
  imports Job_Vault "HOL-Library.Product_Lexorder"
begin

text \<open>
  The gateway's job store (\<open>GatewayJobStore\<close> of \<open>mayhem-gateway/src/job_store.rs\<close>): idempotent starts,
  recovery records written before inference, completion, receipt reconciliation, expiry, eviction under
  the limits on jobs and bytes, and reopening the directory. Every method of the type is here; a
  method returns its result together with the store and the files it leaves, also when it fails.

  A \<open>while\<close> loop of the code evicts one record per round; its model \<open>evict_while\<close> is bounded by one
  round more than there are records and ends with \<open>EndlessLoop\<close> beyond that, which is shown not to
  happen.
\<close>

section \<open>Operations\<close>

datatype 'n begin_gateway_job = Started | InProgress | Existing "'n stored_gateway_job"

record 'n job_in_progress =
  ip_id :: string
  ip_endpoint_family :: string
  ip_model :: string
  ip_owner_token_id :: "string option"
  ip_created_at :: u64
  ip_receipt :: "'n json option"

datatype 'n gateway_job_lookup = LookupInProgress "'n job_in_progress" | LookupTerminal "'n stored_gateway_job"

record 'n stored_gateway_job_summary =
  ss_id :: string
  ss_endpoint_family :: string
  ss_model :: string
  ss_status :: gateway_job_status
  ss_created_at :: u64
  ss_finished_at :: u64
  ss_expires_at :: u64
  ss_result_metadata :: "'n json option"
  ss_artifacts :: "gateway_job_artifact_summary list"
  ss_receipt :: "'n json option"
  ss_error :: "string option"
  ss_error_info :: "gateway_job_error_info option"

datatype 'n gateway_job_list_entry =
  ListInProgress string string string u64
| ListTerminal "'n stored_gateway_job_summary"

definition summarize_result_metadata :: "'n json option \<Rightarrow> 'n json option" where
  "summarize_result_metadata result =
     (case result of
        Some (JObject kvs) \<Rightarrow>
          (let metadata = concat (map (\<lambda>key. case map_of kvs key of None \<Rightarrow> [] | Some v \<Rightarrow> [(key, v)])
                 [''prompt'', ''size'', ''seconds'', ''usage''])
           in if metadata = [] then None else Some (JObject metadata))
      | _ \<Rightarrow> None)"

definition artifact_summary :: "gateway_job_artifact \<Rightarrow> gateway_job_artifact_summary" where
  "artifact_summary a =
     \<lparr>gas_id = ga_id a, gas_content_type = ga_content_type a, gas_bytes = length (ga_bytes a), gas_blake3 = ga_blake3 a\<rparr>"

definition summary_from :: "'n stored_gateway_job \<Rightarrow> 'n stored_gateway_job_summary" where
  "summary_from job =
     \<lparr>ss_id = sj_id job, ss_endpoint_family = sj_endpoint_family job, ss_model = sj_model job,
      ss_status = sj_status job, ss_created_at = sj_created_at job, ss_finished_at = sj_finished_at job,
      ss_expires_at = sj_expires_at job, ss_result_metadata = summarize_result_metadata (sj_result job),
      ss_artifacts = map artifact_summary (sj_artifacts job), ss_receipt = sj_receipt job,
      ss_error = sj_error job, ss_error_info = sj_error_info job\<rparr>"

definition in_memory ::
    "'n job_env \<Rightarrow> u8 list \<Rightarrow> u64 \<Rightarrow> u64 \<Rightarrow> u64 \<Rightarrow> (string, u8 list) btree \<Rightarrow> nat \<Rightarrow> 'n job_vault" where
  "in_memory env wallet_seed max_jobs max_bytes ttl_seconds files calls =
     \<lparr>js_key = derive_job_store_key env wallet_seed, js_directory = None, js_records = [], js_sealed_sizes = [],
      js_active = [], js_reconciling = [], js_total_bytes = 0, js_max_jobs = max max_jobs 1,
      js_max_bytes = max max_bytes 1, js_ttl_seconds = max ttl_seconds 1, jw_files = files, jw_calls = calls\<rparr>"

definition is_reconciling :: "('n, 'z) gateway_job_store_scheme \<Rightarrow> string \<Rightarrow> bool" where
  "is_reconciling s jid \<longleftrightarrow> bt_get (js_reconciling s) jid \<noteq> None"

definition records_counted_for_job_limit :: "('n, 'z) gateway_job_store_scheme \<Rightarrow> nat" where
  "records_counted_for_job_limit s =
     length (filter (\<lambda>(_, job). \<not> is_reconciling s (sj_id job)) (js_records s))"

definition evict_candidate :: "string option \<Rightarrow> ('n, 'z) gateway_job_store_scheme \<Rightarrow> string option" where
  "evict_candidate preserve s =
     map_option sj_id
       (min_by_key (\<lambda>job. (sj_finished_at job, sj_id job))
         (filter (\<lambda>job. Some (sj_id job) \<noteq> preserve \<and> \<not> is_reconciling s (sj_id job)) (map snd (js_records s))))"

primrec evict_while ::
    "'n job_env \<Rightarrow> ('n job_vault \<Rightarrow> bool) \<Rightarrow> string option \<Rightarrow> ('n job_vault \<Rightarrow> job_error) \<Rightarrow> nat \<Rightarrow> ('n, unit) vault_op" where
  "evict_while env over preserve full 0 = st_err EndlessLoop"
| "evict_while env over preserve full (Suc n) =
     st_read (\<lambda>s. if \<not> over s then st_ok ()
       else case evict_candidate preserve s of
         None \<Rightarrow> st_err (full s)
       | Some evict \<Rightarrow>
           st_bind (st_modify (\<lambda>s. s\<lparr>js_records := bt_remove evict (js_records s)\<rparr>)) (\<lambda>_.
           st_bind (remove_sealed_record env evict) (\<lambda>_.
           evict_while env over preserve full n)))"

text \<open>\<open>saturating_add\<close> of two collection sizes, compared with the limit.\<close>

definition jobs_full :: "('n, 'z) gateway_job_store_scheme \<Rightarrow> bool" where
  "jobs_full s \<longleftrightarrow>
     unat (js_max_jobs s) \<le> min (records_counted_for_job_limit s + length (js_active s)) (2 ^ 64 - 1)"

definition make_room_for_job :: "'n job_env \<Rightarrow> ('n, unit) vault_op" where
  "make_room_for_job env =
     st_read (\<lambda>s. evict_while env jobs_full None
       (\<lambda>s. LiveJobLimit (length (js_active s)) (js_max_jobs s) (length (js_reconciling s)))
       (Suc (length (js_records s))))"

definition over_bounds :: "('n, 'z) gateway_job_store_scheme \<Rightarrow> bool" where
  "over_bounds s \<longleftrightarrow>
     records_counted_for_job_limit s > unat (js_max_jobs s) \<or> js_total_bytes s > js_max_bytes s"

definition enforce_bounds :: "'n job_env \<Rightarrow> string option \<Rightarrow> ('n, unit) vault_op" where
  "enforce_bounds env preserve =
     st_read (\<lambda>s. evict_while env over_bounds preserve (\<lambda>_. CannotSatisfyBounds) (Suc (length (js_records s))))"

definition sealed_size :: "('n, 'z) gateway_job_store_scheme \<Rightarrow> string \<Rightarrow> u64" where
  "sealed_size s jid = (case bt_get (js_sealed_sizes s) jid of None \<Rightarrow> 0 | Some n \<Rightarrow> n)"

definition bytes_over :: "u64 \<Rightarrow> u64 \<Rightarrow> ('n, 'z) gateway_job_store_scheme \<Rightarrow> bool" where
  "bytes_over replaced_bytes incoming_bytes s \<longleftrightarrow>
     sat_add (sat_sub (js_total_bytes s) replaced_bytes) incoming_bytes > js_max_bytes s"

definition make_room_for_bytes :: "'n job_env \<Rightarrow> u64 \<Rightarrow> string option \<Rightarrow> ('n, unit) vault_op" where
  "make_room_for_bytes env incoming_bytes replacing =
     st_read (\<lambda>s.
       let replaced_bytes = (case replacing of None \<Rightarrow> 0 | Some jid \<Rightarrow> sealed_size s jid) in
       evict_while env (bytes_over replaced_bytes incoming_bytes) replacing (\<lambda>_. CannotFit incoming_bytes)
         (Suc (length (js_records s))))"

definition purge_one :: "'n job_env \<Rightarrow> string \<Rightarrow> ('n, unit) vault_op" where
  "purge_one env jid =
     st_bind (st_modify (\<lambda>s. s\<lparr>js_records := bt_remove jid (js_records s),
                               js_reconciling := bt_remove jid (js_reconciling s)\<rparr>)) (\<lambda>_.
     remove_sealed_record env jid)"

definition purge_expired :: "'n job_env \<Rightarrow> u64 \<Rightarrow> ('n, unit) vault_op" where
  "purge_expired env now =
     st_read (\<lambda>s. st_for
       (map sj_id (filter (\<lambda>job. sj_status job \<noteq> ReconciliationPending \<and> sj_expires_at job \<le> now) (map snd (js_records s))))
       (purge_one env))"

definition validate_job_identity ::
    "'n stored_gateway_job \<Rightarrow> string \<Rightarrow> string \<Rightarrow> string option \<Rightarrow> string \<Rightarrow> job_error + unit" where
  "validate_job_identity job endpoint_family model owner_token_id request_fingerprint =
     (if sj_endpoint_family job \<noteq> endpoint_family \<or> sj_model job \<noteq> model \<or>
         sj_owner_token_id job \<noteq> owner_token_id \<or> sj_request_fingerprint job \<noteq> request_fingerprint
      then Inl (IdempotencyConflict (sj_id job)) else Inr ())"

definition validate_active_job_identity ::
    "'n active_gateway_job \<Rightarrow> string \<Rightarrow> string \<Rightarrow> string option \<Rightarrow> string \<Rightarrow> job_error + unit" where
  "validate_active_job_identity job endpoint_family model owner_token_id request_fingerprint =
     (if aj_endpoint_family job \<noteq> endpoint_family \<or> aj_model job \<noteq> model \<or>
         aj_owner_token_id job \<noteq> owner_token_id \<or> aj_request_fingerprint job \<noteq> request_fingerprint
      then Inl (RunningConflict (aj_id job)) else Inr ())"

definition begin_job ::
    "'n job_env \<Rightarrow> string \<Rightarrow> string \<Rightarrow> string \<Rightarrow> string option \<Rightarrow> string \<Rightarrow> u64 \<Rightarrow> ('n, 'n begin_gateway_job) vault_op" where
  "begin_job env jid endpoint_family model owner_token_id request_fingerprint now =
     st_bind (purge_expired env now) (\<lambda>_.
     st_read (\<lambda>s. case bt_get (js_records s) jid of
       Some existing \<Rightarrow>
         st_bind (st_lift (validate_job_identity existing endpoint_family model owner_token_id request_fingerprint)) (\<lambda>_.
         st_ok (Existing existing))
     | None \<Rightarrow> (case bt_get (js_active s) jid of
         Some active \<Rightarrow>
           st_bind (st_lift (validate_active_job_identity active endpoint_family model owner_token_id request_fingerprint)) (\<lambda>_.
           st_ok InProgress)
       | None \<Rightarrow>
           st_bind (make_room_for_job env) (\<lambda>_.
           st_bind (st_modify (\<lambda>s. s\<lparr>js_active := bt_insert jid
             \<lparr>aj_id = jid, aj_endpoint_family = endpoint_family, aj_model = model, aj_owner_token_id = owner_token_id,
              aj_request_fingerprint = request_fingerprint, aj_created_at = now, aj_recovery = None\<rparr> (js_active s)\<rparr>)) (\<lambda>_.
           st_ok Started)))))"

text \<open>The update of \<open>sealed_sizes\<close> and \<open>total_bytes\<close> that follows every write.\<close>

definition account :: "string \<Rightarrow> u64 \<Rightarrow> 'n job_vault \<Rightarrow> 'n job_vault" where
  "account jid len s =
     s\<lparr>js_sealed_sizes := bt_insert jid len (js_sealed_sizes s),
       js_total_bytes := sat_add (sat_sub (js_total_bytes s) (sealed_size s jid)) len\<rparr>"

definition vec_len :: "'a list \<Rightarrow> u64" where
  "vec_len xs = of_nat (length xs)"

definition set_recovery :: "string \<Rightarrow> 'n stored_gateway_job \<Rightarrow> ('n, unit) vault_op" where
  "set_recovery jid recovery =
     st_read (\<lambda>s. case bt_get (js_active s) jid of
       None \<Rightarrow> st_err ActiveRecoveryOwner
     | Some active \<Rightarrow>
         st_modify (\<lambda>s. s\<lparr>js_active := bt_insert jid (active\<lparr>aj_recovery := Some recovery\<rparr>) (js_active s)\<rparr>))"

definition persist_active_recovery :: "'n job_env \<Rightarrow> 'n stored_gateway_job \<Rightarrow> ('n, unit) vault_op" where
  "persist_active_recovery env recovery =
     st_read (\<lambda>s. st_bind (seal_job env (js_key s) recovery) (\<lambda>sealed.
     st_bind (make_room_for_bytes env (vec_len sealed) (Some (sj_id recovery))) (\<lambda>_.
     st_read (\<lambda>s. st_bind (persist env (sj_id recovery) sealed (bt_get (js_sealed_sizes s) (sj_id recovery) \<noteq> None)) (\<lambda>_.
     st_bind (st_modify (account (sj_id recovery) (vec_len sealed))) (\<lambda>_.
     set_recovery (sj_id recovery) recovery))))))"

definition interrupted_record :: "'n active_gateway_job \<Rightarrow> u64 \<Rightarrow> u64 \<Rightarrow> 'n stored_gateway_job" where
  "interrupted_record active ttl_seconds now =
     \<lparr>sj_schema_version = JOB_SCHEMA_VERSION, sj_id = aj_id active, sj_endpoint_family = aj_endpoint_family active,
      sj_model = aj_model active, sj_owner_token_id = aj_owner_token_id active,
      sj_request_fingerprint = aj_request_fingerprint active, sj_status = Failed,
      sj_created_at = aj_created_at active, sj_finished_at = now, sj_expires_at = sat_add now ttl_seconds,
      sj_result = None, sj_artifacts = [], sj_receipt = None,
      sj_error = Some ''gateway execution interrupted; billing outcome is unknown without a signed receipt; do not redispatch this request'',
      sj_error_info = Some \<lparr>ei_code = ''gateway_execution_interrupted'', ei_category = ''execution_unknown'', ei_retryable = False\<rparr>\<rparr>"

definition protect_active :: "'n job_env \<Rightarrow> string \<Rightarrow> u64 \<Rightarrow> ('n, unit) vault_op" where
  "protect_active env jid now =
     st_read (\<lambda>s. case bt_get (js_active s) jid of
       None \<Rightarrow> st_err (NotActive jid)
     | Some active \<Rightarrow>
         if aj_recovery active \<noteq> None then st_ok ()
         else persist_active_recovery env (interrupted_record active (js_ttl_seconds s) now))"

definition active_recovery :: "('n, 'z) gateway_job_store_scheme \<Rightarrow> string \<Rightarrow> 'n stored_gateway_job option" where
  "active_recovery s jid = Option.bind (bt_get (js_active s) jid) aj_recovery"

definition update_active_receipt :: "'n job_env \<Rightarrow> string \<Rightarrow> 'n json \<Rightarrow> u64 \<Rightarrow> ('n, unit) vault_op" where
  "update_active_receipt env jid receipt now =
     st_read (\<lambda>s. case active_recovery s jid of
       None \<Rightarrow> st_ok ()
     | Some recovery \<Rightarrow>
         persist_active_recovery env
           (recovery\<lparr>sj_status := ReconciliationPending, sj_receipt := Some receipt, sj_finished_at := now,
                     sj_error := Some ''stream interrupted before terminal receipt; checkpoint reconciliation is pending'',
                     sj_error_info := None\<rparr>))"

definition same_outcome ::
    "'n stored_gateway_job \<Rightarrow> gateway_job_status \<Rightarrow> 'n json option \<Rightarrow> gateway_job_artifact list \<Rightarrow>
     'n json option \<Rightarrow> string option \<Rightarrow> gateway_job_error_info option \<Rightarrow> bool" where
  "same_outcome existing status result artifacts receipt err err_info \<longleftrightarrow>
     sj_status existing = status \<and> json_opt_eq (sj_result existing) result \<and> sj_artifacts existing = artifacts \<and>
     json_opt_eq (sj_receipt existing) receipt \<and> sj_error existing = err \<and> sj_error_info existing = err_info"

definition terminal_record ::
    "'n active_gateway_job \<Rightarrow> u64 \<Rightarrow> gateway_job_status \<Rightarrow> 'n json option \<Rightarrow> gateway_job_artifact list \<Rightarrow>
     'n json option \<Rightarrow> string option \<Rightarrow> gateway_job_error_info option \<Rightarrow> u64 \<Rightarrow> 'n stored_gateway_job" where
  "terminal_record active ttl_seconds status result artifacts receipt err err_info now =
     (let job =
        \<lparr>sj_schema_version = JOB_SCHEMA_VERSION, sj_id = aj_id active, sj_endpoint_family = aj_endpoint_family active,
         sj_model = aj_model active, sj_owner_token_id = aj_owner_token_id active,
         sj_request_fingerprint = aj_request_fingerprint active, sj_status = status,
         sj_created_at = aj_created_at active, sj_finished_at = now, sj_expires_at = sat_add now ttl_seconds,
         sj_result = result, sj_artifacts = artifacts, sj_receipt = receipt, sj_error = err, sj_error_info = err_info\<rparr>
      in if status = Failed \<or> status = Cancelled then
           (case aj_recovery active of
              Some recovery \<Rightarrow>
                if sj_receipt recovery \<noteq> None
                then job\<lparr>sj_status := sj_status recovery, sj_receipt := sj_receipt recovery\<rparr> else job
            | None \<Rightarrow> job)
         else job)"

definition insert_record :: "'n stored_gateway_job \<Rightarrow> 'n job_vault \<Rightarrow> 'n job_vault" where
  "insert_record job s = s\<lparr>js_records := bt_insert (sj_id job) job (js_records s)\<rparr>"

definition mark_reconciling :: "string \<Rightarrow> 'n job_vault \<Rightarrow> 'n job_vault" where
  "mark_reconciling jid s = s\<lparr>js_reconciling := bt_insert jid () (js_reconciling s)\<rparr>"

definition unmark_reconciling :: "string \<Rightarrow> 'n job_vault \<Rightarrow> 'n job_vault" where
  "unmark_reconciling jid s = s\<lparr>js_reconciling := bt_remove jid (js_reconciling s)\<rparr>"

definition check_sealed_len :: "'n stored_gateway_job \<Rightarrow> u8 list \<Rightarrow> u64 \<Rightarrow> job_error + unit" where
  "check_sealed_len job sealed max_bytes =
     ensure (\<not> vec_len sealed > max_bytes) (AboveVaultLimit (sj_id job) (vec_len sealed) max_bytes)"

definition complete_with_error_info ::
    "'n job_env \<Rightarrow> string \<Rightarrow> gateway_job_status \<Rightarrow> 'n json option \<Rightarrow> gateway_job_artifact list \<Rightarrow> 'n json option \<Rightarrow>
     string option \<Rightarrow> gateway_job_error_info option \<Rightarrow> u64 \<Rightarrow> ('n, 'n stored_gateway_job) vault_op" where
  "complete_with_error_info env jid status result artifacts receipt err err_info now =
     st_read (\<lambda>s. case bt_get (js_records s) jid of
       Some existing \<Rightarrow>
         if same_outcome existing status result artifacts receipt err err_info then
           st_bind (st_modify (if status = ReconciliationPending then mark_reconciling jid else id)) (\<lambda>_.
           st_ok existing)
         else st_err (DifferentTerminalResult jid)
     | None \<Rightarrow> (case bt_get (js_active s) jid of
         None \<Rightarrow> st_err (NotActive jid)
       | Some active \<Rightarrow>
           let job = terminal_record active (js_ttl_seconds s) status result artifacts receipt err err_info now in
           st_bind (seal_job env (js_key s) job) (\<lambda>sealed.
           st_bind (st_lift (check_sealed_len job sealed (js_max_bytes s))) (\<lambda>_.
           st_bind (make_room_for_bytes env (vec_len sealed) (Some jid)) (\<lambda>_.
           st_read (\<lambda>s. st_bind (persist env (sj_id job) sealed (bt_get (js_sealed_sizes s) jid \<noteq> None)) (\<lambda>_.
           st_bind (st_modify (\<lambda>s. s\<lparr>js_active := bt_remove jid (js_active s)\<rparr>)) (\<lambda>_.
           st_bind (st_modify (account (sj_id job) (vec_len sealed))) (\<lambda>_.
           st_bind (st_modify (insert_record job)) (\<lambda>_.
           st_bind (st_modify (if sj_status job = ReconciliationPending then mark_reconciling (sj_id job) else id)) (\<lambda>_.
           st_bind (enforce_bounds env (Some (sj_id job))) (\<lambda>_.
           st_ok job))))))))))))"

definition complete ::
    "'n job_env \<Rightarrow> string \<Rightarrow> gateway_job_status \<Rightarrow> 'n json option \<Rightarrow> gateway_job_artifact list \<Rightarrow> 'n json option \<Rightarrow>
     string option \<Rightarrow> u64 \<Rightarrow> ('n, 'n stored_gateway_job) vault_op" where
  "complete env jid status result artifacts receipt err now =
     complete_with_error_info env jid status result artifacts receipt err None now"

text \<open>Both reconciliation methods write the changed record in place of the old one.\<close>

definition replace_record ::
    "'n job_env \<Rightarrow> string \<Rightarrow> 'n stored_gateway_job \<Rightarrow> ('n job_vault \<Rightarrow> 'n job_vault) \<Rightarrow> ('n, 'n stored_gateway_job) vault_op" where
  "replace_record env jid job unmark =
     st_read (\<lambda>s. st_bind (seal_job env (js_key s) job) (\<lambda>sealed.
     st_bind (st_lift (check_sealed_len job sealed (js_max_bytes s))) (\<lambda>_.
     st_bind (make_room_for_bytes env (vec_len sealed) (Some jid)) (\<lambda>_.
     st_bind (persist_replace env (sj_id job) sealed) (\<lambda>_.
     st_bind (st_modify (account (sj_id job) (vec_len sealed))) (\<lambda>_.
     st_bind (st_modify unmark) (\<lambda>_.
     st_bind (st_modify (insert_record job)) (\<lambda>_.
     st_bind (enforce_bounds env (Some (sj_id job))) (\<lambda>_.
     st_ok job)))))))))"

definition finish_reconciliation ::
    "'n job_env \<Rightarrow> string \<Rightarrow> gateway_job_status \<Rightarrow> string option \<Rightarrow> u64 \<Rightarrow> ('n, 'n stored_gateway_job) vault_op" where
  "finish_reconciliation env jid status err now =
     (if status = ReconciliationPending then st_err (CannotFinishAs jid status)
      else st_read (\<lambda>s. case bt_get (js_records s) jid of
        None \<Rightarrow> st_err (NoReconciliationState jid)
      | Some existing \<Rightarrow>
          if sj_status existing = status \<and> sj_error existing = err then
            st_bind (st_modify (unmark_reconciling jid)) (\<lambda>_. st_ok existing)
          else if sj_status existing \<noteq> ReconciliationPending then st_err (CannotFinishFrom jid (sj_status existing))
          else replace_record env jid
                 (existing\<lparr>sj_status := status, sj_finished_at := now,
                           sj_expires_at := sat_add now (js_ttl_seconds s), sj_error := err\<rparr>)
                 (unmark_reconciling jid)))"

definition update_reconciliation_receipt ::
    "'n job_env \<Rightarrow> string \<Rightarrow> 'n json \<Rightarrow> u64 \<Rightarrow> ('n, 'n stored_gateway_job) vault_op" where
  "update_reconciliation_receipt env jid receipt now =
     st_read (\<lambda>s. case bt_get (js_records s) jid of
       None \<Rightarrow> st_err (NoReconciliationState jid)
     | Some existing \<Rightarrow>
         if sj_status existing \<noteq> ReconciliationPending then st_err (CannotUpdateFrom jid (sj_status existing))
         else if json_opt_eq (sj_receipt existing) (Some receipt) then st_ok existing
         else replace_record env jid (existing\<lparr>sj_receipt := Some receipt, sj_finished_at := now\<rparr>) id)"

definition get_job :: "'n job_env \<Rightarrow> string \<Rightarrow> u64 \<Rightarrow> ('n, 'n stored_gateway_job option) vault_op" where
  "get_job env jid now =
     st_bind (purge_expired env now) (\<lambda>_. st_read (\<lambda>s. st_ok (bt_get (js_records s) jid)))"

definition lookup_read_only :: "('n, 'z) gateway_job_store_scheme \<Rightarrow> string \<Rightarrow> u64 \<Rightarrow> 'n gateway_job_lookup option" where
  "lookup_read_only s jid now =
     (case bt_get (js_records s) jid of
        Some job \<Rightarrow>
          if sj_status job = ReconciliationPending \<or> sj_expires_at job > now then Some (LookupTerminal job) else None
      | None \<Rightarrow>
          map_option (\<lambda>job. LookupInProgress
            \<lparr>ip_id = aj_id job, ip_endpoint_family = aj_endpoint_family job, ip_model = aj_model job,
             ip_owner_token_id = aj_owner_token_id job, ip_created_at = aj_created_at job,
             ip_receipt = Option.bind (aj_recovery job) sj_receipt\<rparr>) (bt_get (js_active s) jid))"

definition lookup_job :: "'n job_env \<Rightarrow> string \<Rightarrow> u64 \<Rightarrow> ('n, 'n gateway_job_lookup option) vault_op" where
  "lookup_job env jid now =
     st_bind (purge_expired env now) (\<lambda>_. st_read (\<lambda>s. st_ok (lookup_read_only s jid now)))"

definition pending_reconciliations :: "'n job_env \<Rightarrow> u64 \<Rightarrow> ('n, 'n stored_gateway_job list) vault_op" where
  "pending_reconciliations env now =
     st_bind (purge_expired env now) (\<lambda>_. st_read (\<lambda>s. st_ok
       (filter (\<lambda>job. sj_status job = ReconciliationPending) (map snd (js_records s)))))"

definition is_active :: "('n, 'z) gateway_job_store_scheme \<Rightarrow> string \<Rightarrow> bool" where
  "is_active s jid \<longleftrightarrow> bt_get (js_active s) jid \<noteq> None"

definition owned_summaries ::
    "string option \<Rightarrow> ('n, 'z) gateway_job_store_scheme \<Rightarrow> 'n stored_gateway_job_summary list" where
  "owned_summaries owner_token_id s =
     map summary_from (filter (\<lambda>job. sj_owner_token_id job = owner_token_id) (map snd (js_records s)))"

definition list_summaries_for_owner ::
    "'n job_env \<Rightarrow> string option \<Rightarrow> u64 \<Rightarrow> ('n, 'n stored_gateway_job_summary list) vault_op" where
  "list_summaries_for_owner env owner_token_id now =
     st_bind (purge_expired env now) (\<lambda>_. st_read (\<lambda>s. st_ok (owned_summaries owner_token_id s)))"

definition list_entries_for_owner ::
    "'n job_env \<Rightarrow> string option \<Rightarrow> u64 \<Rightarrow> ('n, 'n gateway_job_list_entry list) vault_op" where
  "list_entries_for_owner env owner_token_id now =
     st_bind (purge_expired env now) (\<lambda>_. st_read (\<lambda>s. st_ok
       (map ListTerminal (owned_summaries owner_token_id s) @
        map (\<lambda>job. ListInProgress (aj_id job) (aj_endpoint_family job) (aj_model job) (aj_created_at job))
          (filter (\<lambda>job. aj_owner_token_id job = owner_token_id) (map snd (js_active s))))))"

definition remove_job ::
    "'n job_env \<Rightarrow> string \<Rightarrow> string option \<Rightarrow> u64 \<Rightarrow> ('n, 'n stored_gateway_job option) vault_op" where
  "remove_job env jid owner_token_id now =
     st_bind (purge_expired env now) (\<lambda>_.
     st_read (\<lambda>s. case bt_get (js_records s) jid of
       None \<Rightarrow> st_ok None
     | Some job \<Rightarrow>
         if sj_owner_token_id job \<noteq> owner_token_id then st_ok None
         else if is_reconciling s jid then st_err (RemovalWhilePending jid)
         else
           st_bind (st_modify (\<lambda>s. s\<lparr>js_records := bt_remove jid (js_records s)\<rparr>)) (\<lambda>_.
           st_bind (remove_sealed_record env jid) (\<lambda>_.
           st_ok (Some job)))))"

section \<open>Reopening the directory\<close>

text \<open>\<open>Path::extension\<close> and \<open>Path::file_stem\<close> of a file name: the parts after and before the last dot.\<close>

definition split_extension :: "string \<Rightarrow> string \<times> string option" where
  "split_extension name =
     (if name = ''..'' then (name, None)
      else let after = rev (takeWhile (\<lambda>c. c \<noteq> CHR ''.'') (rev name)) in
        if length after = length name then (name, None)
        else let before = take (length name - length after - 1) name in
          if before = [] then (name, None) else (before, Some after))"

definition interrupted_checkpoint :: "'n stored_gateway_job \<Rightarrow> bool" where
  "interrupted_checkpoint job \<longleftrightarrow>
     sj_status job \<noteq> ReconciliationPending \<and>
     (case sj_receipt job of
        None \<Rightarrow> False
      | Some receipt \<Rightarrow>
          json_pointer receipt [''body'', ''final''] = Some (JBool False) \<and>
          json_get receipt ''canonical_settlement'' = None)"

definition load_record :: "'n job_env \<Rightarrow> string \<Rightarrow> 'n stored_gateway_job \<Rightarrow> u8 list \<Rightarrow> ('n, unit) vault_op" where
  "load_record env jid job sealed =
     st_modify (\<lambda>s.
       (if sj_status job = ReconciliationPending then mark_reconciling jid s else s)
         \<lparr>js_total_bytes := sat_add (js_total_bytes s) (vec_len sealed),
          js_sealed_sizes := bt_insert jid (vec_len sealed) (js_sealed_sizes s),
          js_records := bt_insert jid job (js_records s)\<rparr>)"

definition load_entry :: "'n job_env \<Rightarrow> string \<Rightarrow> ('n, unit) vault_op" where
  "load_entry env name =
     st_bind (os_call env ''reading gateway job-vault entry'') (\<lambda>_.
     if snd (split_extension name) \<noteq> Some JOB_FILE_SUFFIX then st_ok ()
     else
       st_bind (read_file env name) (\<lambda>sealed.
       let jid = fst (split_extension name) in
       st_bind (st_lift (ensure (utf8_valid (as_bytes jid)) (NonUtf8Filename name))) (\<lambda>_.
       st_bind (st_lift (validate_job_id jid)) (\<lambda>_.
       st_read (\<lambda>s. st_bind (st_lift (open_job env (js_key s) jid sealed)) (\<lambda>job.
       if sj_schema_version job \<noteq> JOB_SCHEMA_VERSION \<or> sj_id job \<noteq> jid then st_err (InvalidIdentityOrSchema jid)
       else if interrupted_checkpoint job then
         let job = job\<lparr>sj_status := ReconciliationPending\<rparr> in
         st_bind (seal_job env (js_key s) job) (\<lambda>repaired.
         st_bind (persist_replace env jid repaired) (\<lambda>_.
         load_record env jid job repaired))
       else load_record env jid job sealed))))))"

definition load :: "'n job_env \<Rightarrow> u64 \<Rightarrow> ('n, unit) vault_op" where
  "load env now =
     st_read (\<lambda>s. case js_directory s of
       None \<Rightarrow> st_ok ()
     | Some _ \<Rightarrow>
         st_bind (os_call env ''reading gateway job vault'') (\<lambda>_.
         st_bind (st_for (je_order env (map fst (jw_files s))) (load_entry env)) (\<lambda>_.
         st_bind (purge_expired env now) (\<lambda>_.
         enforce_bounds env None))))"

definition durable ::
    "'n job_env \<Rightarrow> u8 list \<Rightarrow> string \<Rightarrow> u64 \<Rightarrow> u64 \<Rightarrow> u64 \<Rightarrow> u64 \<Rightarrow> (string, u8 list) btree \<Rightarrow> nat \<Rightarrow>
     (job_error + unit) \<times> 'n job_vault" where
  "durable env wallet_seed directory max_jobs max_bytes ttl_seconds now files calls =
     st_bind (create_private_directory env) (\<lambda>_. load env now)
       ((in_memory env wallet_seed max_jobs max_bytes ttl_seconds files calls)\<lparr>js_directory := Some directory\<rparr>)"

section \<open>Job identifiers\<close>

definition validate_idempotency_key :: "string \<Rightarrow> job_error + unit" where
  "validate_idempotency_key key =
     (if key = [] \<or> length key > 255 \<or> \<not> list_all (\<lambda>c. is_ascii_graphic c \<or> c = CHR '' '') key
      then Inl InvalidIdempotencyKey else Inr ())"

definition gateway_job_id ::
    "'n job_env \<Rightarrow> u8 list \<Rightarrow> string option \<Rightarrow> string \<Rightarrow> string option \<Rightarrow> ('n, string) vault_op" where
  "gateway_job_id env wallet_seed owner_token_id endpoint_family idempotency_key =
     (let key = derive_job_store_key env wallet_seed;
          finish = (\<lambda>bytes. ''job_'' @ je_hex env (je_keyed_hash env key (as_bytes JOB_ID_DOMAIN @ bytes)))
      in case idempotency_key of
           Some idempotency_key \<Rightarrow>
             st_bind (st_lift (validate_idempotency_key idempotency_key)) (\<lambda>_.
             st_ok (finish (as_bytes ''idempotent'' @ [0] @
               as_bytes (case owner_token_id of None \<Rightarrow> ''local'' | Some owner \<Rightarrow> owner) @ [0] @
               as_bytes endpoint_family @ [0] @ as_bytes idempotency_key)))
         | None \<Rightarrow>
             st_bind (getrandom env 32) (\<lambda>random. st_ok (finish (as_bytes ''random'' @ [0] @ random))))"

end
