(* ===== verification/Job_Store_Safe.thy ===== *)
theory Job_Store_Safe
  imports Job_Store
begin

text \<open>
  The invariant of the job store and what follows from it for every sequence of method calls, with system
  calls that fail at will: the maps agree with each other, the limits hold, the eviction loops end, a job
  whose receipt is not settled is never lost, and a running request is not started twice.
\<close>

section \<open>The invariant\<close>

text \<open>
  What the vault holds for a job: its record, or the recovery record of a running job. \<open>store_core\<close> ties
  the four maps together and, when \<open>exact\<close> is set, the byte count to the sizes; \<open>store_wf\<close> adds the limits.
  The count saturates at \<open>u64::MAX\<close>, so that it can be inexact when the limit is \<open>u64::MAX\<close> itself or when a
  directory with more bytes than that was opened; nothing else depends on it.
\<close>

definition stored :: "('n, 'z) gateway_job_store_scheme \<Rightarrow> string \<Rightarrow> 'n stored_gateway_job option" where
  "stored s k = (case bt_get (js_records s) k of Some job \<Rightarrow> Some job | None \<Rightarrow> active_recovery s k)"

definition store_core :: "bool \<Rightarrow> ('n, 'z) gateway_job_store_scheme \<Rightarrow> bool" where
  "store_core exact s \<longleftrightarrow>
     bt_wf (js_records s) \<and> bt_wf (js_sealed_sizes s) \<and> bt_wf (js_active s) \<and> bt_wf (js_reconciling s) \<and>
     (\<forall>k job. bt_get (js_records s) k = Some job \<longrightarrow> sj_id job = k \<and> bt_get (js_active s) k = None) \<and>
     (\<forall>k a. bt_get (js_active s) k = Some a \<longrightarrow> aj_id a = k \<and> (\<forall>r. aj_recovery a = Some r \<longrightarrow> sj_id r = k)) \<and>
     (\<forall>k. bt_get (js_sealed_sizes s) k \<noteq> None \<longleftrightarrow> stored s k \<noteq> None) \<and>
     (\<forall>k. bt_get (js_reconciling s) k \<noteq> None \<longleftrightarrow>
        (\<exists>job. bt_get (js_records s) k = Some job \<and> sj_status job = ReconciliationPending)) \<and>
     (exact \<longrightarrow> unat (js_total_bytes s) = bt_sum unat (js_sealed_sizes s))"

definition store_wf :: "bool \<Rightarrow> ('n, 'z) gateway_job_store_scheme \<Rightarrow> bool" where
  "store_wf exact s \<longleftrightarrow>
     store_core exact s \<and> js_total_bytes s \<le> js_max_bytes s \<and> (exact \<longrightarrow> js_max_bytes s \<noteq> - 1) \<and> 1 \<le> js_max_jobs s \<and>
     records_counted_for_job_limit s \<le> unat (js_max_jobs s) \<and> length (js_active s) \<le> unat (js_max_jobs s)"

lemma mem_active_recovery [simp]: "active_recovery (mem s) k = active_recovery s k"
  by (simp add: active_recovery_def)

lemma mem_stored [simp]: "stored (mem s) k = stored s k"
  by (simp add: stored_def split: option.split)

lemma mem_lookups [simp]:
  "is_reconciling (mem s) k = is_reconciling s k" "records_counted_for_job_limit (mem s) = records_counted_for_job_limit s"
  by (simp_all add: is_reconciling_def records_counted_for_job_limit_def)

lemma mem_wf [simp]: "store_core exact (mem s) = store_core exact s" "store_wf exact (mem s) = store_wf exact s"
  by (simp_all add: store_core_def store_wf_def)

lemma store_coreD:
  assumes "store_core exact s"
  shows "bt_wf (js_records s)" "bt_wf (js_sealed_sizes s)" "bt_wf (js_active s)" "bt_wf (js_reconciling s)"
    "bt_get (js_records s) k = Some job \<Longrightarrow> sj_id job = k" "bt_get (js_records s) k = Some job \<Longrightarrow> bt_get (js_active s) k = None"
    "bt_get (js_active s) k = Some a \<Longrightarrow> aj_id a = k" "bt_get (js_active s) k = Some a \<Longrightarrow> aj_recovery a = Some r \<Longrightarrow> sj_id r = k"
    "bt_get (js_sealed_sizes s) k \<noteq> None \<longleftrightarrow> stored s k \<noteq> None"
    "is_reconciling s k \<longleftrightarrow> (\<exists>job. bt_get (js_records s) k = Some job \<and> sj_status job = ReconciliationPending)"
    "exact \<Longrightarrow> unat (js_total_bytes s) = bt_sum unat (js_sealed_sizes s)"
  using assms unfolding store_core_def is_reconciling_def by blast+

text \<open>The records that count against the limit are those that are not pending.\<close>

definition finished :: "'n stored_gateway_job \<Rightarrow> nat" where
  "finished job = (if sj_status job = ReconciliationPending then 0 else 1)"

lemma bt_sum_finished: "bt_sum finished m = length (filter (\<lambda>(_, job). sj_status job \<noteq> ReconciliationPending) m)"
  by (induction m) (auto simp: finished_def)

lemma counted_core:
  assumes "store_core exact s"
  shows "records_counted_for_job_limit s = bt_sum finished (js_records s)"
proof -
  have "is_reconciling s (sj_id job) \<longleftrightarrow> sj_status job = ReconciliationPending" if "(k, job) \<in> set (js_records s)" for k job
  proof -
    have "bt_get (js_records s) k = Some job" using that store_coreD(1) [OF assms] by (simp add: bt_get_Some_iff)
    then show ?thesis using store_coreD(5, 10) [OF assms] by auto
  qed
  then show ?thesis
    unfolding records_counted_for_job_limit_def bt_sum_finished by (auto intro!: arg_cong [where f = length] filter_cong)
qed

section \<open>Eviction\<close>

lemma evict_candidate_Some:
  assumes "store_core exact s" "evict_candidate p s = Some k"
  obtains job where "bt_get (js_records s) k = Some job" "sj_status job \<noteq> ReconciliationPending" "Some k \<noteq> p"
    "\<And>k' job'. bt_get (js_records s) k' = Some job' \<Longrightarrow> Some k' \<noteq> p \<Longrightarrow> \<not> is_reconciling s k' \<Longrightarrow>
       (sj_finished_at job, k) \<le> (sj_finished_at job', k')"
proof -
  let ?xs = "filter (\<lambda>job. Some (sj_id job) \<noteq> p \<and> \<not> is_reconciling s (sj_id job)) (map snd (js_records s))"
  obtain job where job: "min_by_key (\<lambda>job. (sj_finished_at job, sj_id job)) ?xs = Some job" "sj_id job = k"
    using assms(2) by (auto simp: evict_candidate_def)
  note m = min_by_key_Some [OF job(1)]
  have get: "bt_get (js_records s) k' = Some j \<longleftrightarrow> (k', j) \<in> set (js_records s)" for k' j
    using store_coreD(1) [OF assms(1)] by (rule bt_get_Some_iff)
  from m obtain k'' where "(k'', job) \<in> set (js_records s)" by auto
  then have rec: "bt_get (js_records s) k = Some job" using get store_coreD(5) [OF assms(1)] job(2) by metis
  show ?thesis
  proof (rule that [OF rec])
    show "sj_status job \<noteq> ReconciliationPending" "Some k \<noteq> p"
      using m job(2) rec store_coreD(10) [OF assms(1), of k] by auto
    fix k' job' assume *: "bt_get (js_records s) k' = Some job'" "Some k' \<noteq> p" "\<not> is_reconciling s k'"
    then have "sj_id job' = k'" using store_coreD(5) [OF assms(1)] by blast
    then have "job' \<in> set ?xs" using * get [of k' job'] by force
    then show "(sj_finished_at job, k) \<le> (sj_finished_at job', k')"
      using m job(2) \<open>sj_id job' = k'\<close> by blast
  qed
qed

lemma evict_candidate_None:
  assumes "store_core exact s" "evict_candidate p s = None" "bt_get (js_records s) k = Some job"
  shows "Some k = p \<or> sj_status job = ReconciliationPending"
proof -
  have "(k, job) \<in> set (js_records s)" using assms(3) by (rule bt_getD)
  then have "Some (sj_id job) = p \<or> is_reconciling s (sj_id job)"
    using assms(2) by (force simp: evict_candidate_def min_by_key_None_iff filter_empty_conv)
  then show ?thesis using assms(3) store_coreD(5, 10) [OF assms(1)] by auto
qed

definition drop_record :: "string \<Rightarrow> 'n job_vault \<Rightarrow> 'n job_vault" where
  "drop_record k s = drop_size k (s\<lparr>js_records := bt_remove k (js_records s)\<rparr>)"

lemma drop_record_fields:
  "js_records (drop_record k s) = bt_remove k (js_records s)" "js_active (drop_record k s) = js_active s"
  "js_reconciling (drop_record k s) = js_reconciling s" "js_key (drop_record k s) = js_key s"
  "js_directory (drop_record k s) = js_directory s" "js_max_jobs (drop_record k s) = js_max_jobs s"
  "js_max_bytes (drop_record k s) = js_max_bytes s" "js_ttl_seconds (drop_record k s) = js_ttl_seconds s"
  "bt_get (js_sealed_sizes (drop_record k s)) k' = (if k' = k then None else bt_get (js_sealed_sizes s) k')"
  "js_total_bytes (drop_record k s) = sat_sub (js_total_bytes s) (sealed_size s k)"
  "jw_files (drop_record k s) = jw_files s" "jw_calls (drop_record k s) = jw_calls s"
  by (auto simp: drop_record_def drop_size_def btree_simps sealed_size_def split: option.splits)
     (simp add: sat_sub_def)

lemma drop_record_core:
  assumes "store_core exact s" "bt_get (js_records s) k = Some job" "sj_status job \<noteq> ReconciliationPending"
  shows "store_core exact (drop_record k s)"
proof -
  note d = store_coreD [OF assms(1)]
  have sizes: "js_sealed_sizes (drop_record k s) = bt_remove k (js_sealed_sizes s)"
    by (auto simp: drop_record_def drop_size_def bt_remove_absent split: option.splits)
  have act: "bt_get (js_active s) k = None" using d(6) assms(2) by blast
  have st: "stored (drop_record k s) k' = (if k' = k then None else stored s k')" for k'
    using act by (auto simp: stored_def active_recovery_def drop_record_fields btree_simps split: option.splits)
  have rec: "\<not> is_reconciling s k" using d(10) [of k] assms by auto
  have "exact \<Longrightarrow> unat (js_total_bytes (drop_record k s)) = bt_sum unat (js_sealed_sizes (drop_record k s))"
    using bt_sum_remove [OF d(2), of unat k] d(11) d(2)
    by (auto simp: drop_record_fields sizes sealed_size_def unat_simps split: option.splits)
  then show ?thesis
    using d(1-8) d(9) d(10) rec unfolding store_core_def is_reconciling_def
    by (auto simp: drop_record_fields(1-8) st sizes btree_simps)
qed

text \<open>\<open>s\<close> is \<open>t\<close> with some finished records dropped that satisfy \<open>D\<close>.\<close>

definition same_config :: "('n, 'z) gateway_job_store_scheme \<Rightarrow> ('n, 'y) gateway_job_store_scheme \<Rightarrow> bool" where
  "same_config t s \<longleftrightarrow>
     js_key s = js_key t \<and> js_directory s = js_directory t \<and> js_max_jobs s = js_max_jobs t \<and>
     js_max_bytes s = js_max_bytes t \<and> js_ttl_seconds s = js_ttl_seconds t"

definition other :: "string option \<Rightarrow> string \<Rightarrow> 'n stored_gateway_job \<Rightarrow> bool" where
  "other p k job \<longleftrightarrow> Some k \<noteq> p"

definition evicted ::
    "(string \<Rightarrow> 'n stored_gateway_job \<Rightarrow> bool) \<Rightarrow> ('n, 'z) gateway_job_store_scheme \<Rightarrow> ('n, 'y) gateway_job_store_scheme \<Rightarrow> bool" where
  "evicted D t s \<longleftrightarrow>
     same_config t s \<and> js_active s = js_active t \<and> js_reconciling s = js_reconciling t \<and>
     js_total_bytes s \<le> js_total_bytes t \<and> bt_sum finished (js_records s) \<le> bt_sum finished (js_records t) \<and>
     (\<forall>k. (bt_get (js_records s) k = bt_get (js_records t) k \<and> bt_get (js_sealed_sizes s) k = bt_get (js_sealed_sizes t) k) \<or>
          (bt_get (js_records s) k = None \<and> bt_get (js_sealed_sizes s) k = None \<and>
           (\<exists>job. bt_get (js_records t) k = Some job \<and> sj_status job \<noteq> ReconciliationPending \<and> D k job)))"

lemma evicted_refl: "evicted D t t"
  by (simp add: evicted_def same_config_def)

lemma evicted_mem [simp]: "evicted D t (mem s) = evicted D t s"
  by (simp add: evicted_def same_config_def)

lemma evicted_files [simp]: "evicted D t (s\<lparr>jw_calls := c\<rparr>) = evicted D t s"
  by (simp add: evicted_def same_config_def)

lemma evicted_drop_record:
  assumes "store_core exact s" "evicted D t s" "bt_get (js_records s) k = Some job"
    "sj_status job \<noteq> ReconciliationPending" "D k job"
  shows "evicted D t (drop_record k s)"
    "bt_sum finished (js_records (drop_record k s)) < bt_sum finished (js_records t)"
proof -
  have t: "bt_get (js_records t) k = Some job"
    using assms(2, 3) unfolding evicted_def by (metis option.discI)
  have fin: "bt_sum finished (bt_remove k (js_records s)) + 1 = bt_sum finished (js_records s)"
    using bt_sum_remove [OF store_coreD(1) [OF assms(1)], of finished k] assms(3, 4) by (simp add: finished_def)
  have less: "bt_sum finished (js_records s) \<le> bt_sum finished (js_records t)"
    using assms(2) by (simp add: evicted_def)
  show "bt_sum finished (js_records (drop_record k s)) < bt_sum finished (js_records t)"
    using fin less by (simp add: drop_record_fields)
  have tot: "sat_sub (js_total_bytes s) (sealed_size s k) \<le> js_total_bytes t"
    using assms(2) by (auto simp: evicted_def word_le_nat_alt unat_simps)
  show "evicted D t (drop_record k s)"
    using assms(2, 4, 5) t fin less tot unfolding evicted_def same_config_def
    by (auto simp: drop_record_fields btree_simps)
qed

lemma evict_while_spec:
  assumes "\<And>s. proper_error (full s)"
  shows "triple (\<lambda>s. store_core exact s \<and> evicted (other p) t s \<and> length (js_records s) < n)
     (evict_while env over p full n)
     (\<lambda>_ s. store_core exact s \<and> evicted (other p) t s \<and> \<not> over s)
     (\<lambda>e s. store_core exact s \<and> evicted (other p) t s \<and> proper_error e \<and>
        (over s \<and> evict_candidate p s = None \<or> bt_sum finished (js_records s) < bt_sum finished (js_records t)))"
    (is "triple _ _ ?Q ?E")
proof (induction n)
  case 0
  then show ?case by (simp add: triple_def)
next
  case (Suc n)
  show ?case
    unfolding evict_while.simps
  proof (rule triple_read)
    fix s :: "'a job_vault"
    assume s: "store_core exact s \<and> evicted (other p) t s \<and> length (js_records s) < Suc n"
    show "triple (\<lambda>s'. s' = s)
      (if \<not> over s then st_ok ()
       else case evict_candidate p s of
         None \<Rightarrow> st_err (full s)
       | Some evict \<Rightarrow>
           st_bind (st_modify (\<lambda>s. s\<lparr>js_records := bt_remove evict (js_records s)\<rparr>)) (\<lambda>_.
           st_bind (remove_sealed_record env evict) (\<lambda>_. evict_while env over p full n))) ?Q ?E"
    proof (cases "\<not> over s")
      case True
      then show ?thesis using s by (simp add: triple_def st_ok_def)
    next
      case over: False
      show ?thesis
      proof (cases "evict_candidate p s")
        case None
        then show ?thesis using s over assms by (simp add: triple_def st_err_def)
      next
        case (Some k)
        obtain job where job: "bt_get (js_records s) k = Some job" "sj_status job \<noteq> ReconciliationPending" "Some k \<noteq> p"
          using evict_candidate_Some [OF conjunct1 [OF s] Some] by metis
        let ?R = "\<lambda>m :: 'a gateway_job_store. store_core exact m \<and> evicted (other p) t m \<and> length (js_records m) < n \<and>
          bt_sum finished (js_records m) < bt_sum finished (js_records t)"
        have step: "?R (mem (drop_size k (s\<lparr>js_records := bt_remove k (js_records s)\<rparr>)))"
          unfolding drop_record_def [symmetric]
          using drop_record_core [OF conjunct1 [OF s] job(1, 2)]
            evicted_drop_record [OF conjunct1 [OF s] conjunct1 [OF conjunct2 [OF s]] job(1, 2)] s length_bt_remove_less [of "js_records s" k] job(1, 3)
          by (simp add: drop_record_fields other_def)
        have "triple (\<lambda>s'. s' = s\<lparr>js_records := bt_remove k (js_records s)\<rparr>) (remove_sealed_record env k)
                (\<lambda>_ s. ?R (mem s)) (\<lambda>e s. proper_error e \<and> ?R (mem s))"
          by (rule remove_sealed_record_mem) (use step in simp)
        then have A: "triple (\<lambda>s'. s' = s\<lparr>js_records := bt_remove k (js_records s)\<rparr>) (remove_sealed_record env k)
                (\<lambda>_ s. ?R (mem s)) ?E"
          by (rule triple_conseq) auto
        have B: "triple (\<lambda>s. ?R (mem s)) (evict_while env over p full n) ?Q ?E"
          by (rule triple_pre [OF Suc.IH]) auto
        have "triple (\<lambda>s'. s' = s\<lparr>js_records := bt_remove k (js_records s)\<rparr>)
          (st_bind (remove_sealed_record env k) (\<lambda>_. evict_while env over p full n)) ?Q ?E"
          by (rule triple_bind [OF A B])
        then show ?thesis
          using over Some by (auto intro!: triple_bind [OF triple_modify, where R = "\<lambda>_ s'. s' = s\<lparr>js_records := bt_remove k (js_records s)\<rparr>"])
      qed
    qed
  qed
qed

lemma evicted_fields:
  assumes "evicted D t s"
  shows "js_key s = js_key t" "js_directory s = js_directory t" "js_max_jobs s = js_max_jobs t" "js_max_bytes s = js_max_bytes t"
    "js_ttl_seconds s = js_ttl_seconds t" "js_active s = js_active t" "js_reconciling s = js_reconciling t"
    "js_total_bytes s \<le> js_total_bytes t" "bt_sum finished (js_records s) \<le> bt_sum finished (js_records t)"
    "active_recovery s k = active_recovery t k"
  using assms by (auto simp: evicted_def same_config_def active_recovery_def)

lemma evicted_cases:
  assumes "evicted D t s"
  obtains "bt_get (js_records s) k = bt_get (js_records t) k" "bt_get (js_sealed_sizes s) k = bt_get (js_sealed_sizes t) k"
  | job where "bt_get (js_records s) k = None" "bt_get (js_sealed_sizes s) k = None" "bt_get (js_records t) k = Some job"
      "sj_status job \<noteq> ReconciliationPending" "D k job"
proof -
  from assms have "(bt_get (js_records s) k = bt_get (js_records t) k \<and> bt_get (js_sealed_sizes s) k = bt_get (js_sealed_sizes t) k) \<or>
          (bt_get (js_records s) k = None \<and> bt_get (js_sealed_sizes s) k = None \<and>
           (\<exists>job. bt_get (js_records t) k = Some job \<and> sj_status job \<noteq> ReconciliationPending \<and> D k job))"
    unfolding evicted_def by blast
  then show ?thesis using that by blast
qed

lemma evicted_trans:
  assumes "evicted D t s" "evicted D' s u"
  shows "evicted (\<lambda>k job. D k job \<or> D' k job) t u"
proof -
  have "(bt_get (js_records u) k = bt_get (js_records t) k \<and> bt_get (js_sealed_sizes u) k = bt_get (js_sealed_sizes t) k) \<or>
        (bt_get (js_records u) k = None \<and> bt_get (js_sealed_sizes u) k = None \<and>
         (\<exists>job. bt_get (js_records t) k = Some job \<and> sj_status job \<noteq> ReconciliationPending \<and> (D k job \<or> D' k job)))" for k
    by (rule evicted_cases [OF assms(1), of k]; rule evicted_cases [OF assms(2), of k]; (simp; fail | metis))
  moreover have "js_total_bytes u \<le> js_total_bytes t"
    using evicted_fields(8) [OF assms(1)] evicted_fields(8) [OF assms(2)] by (rule order_trans [rotated])
  moreover have "bt_sum finished (js_records u) \<le> bt_sum finished (js_records t)"
    using evicted_fields(9) [OF assms(1)] evicted_fields(9) [OF assms(2)] by (rule order_trans [rotated])
  ultimately show ?thesis
    unfolding evicted_def same_config_def
    using evicted_fields(1-7) [OF assms(1)] evicted_fields(1-7) [OF assms(2)] by simp
qed

lemma evicted_pending:
  assumes "evicted D t s" "bt_get (js_records t) k = Some job" "sj_status job = ReconciliationPending"
  shows "bt_get (js_records s) k = Some job"
  by (rule evicted_cases [OF assms(1), of k]) (use assms(2, 3) in auto)

lemma evicted_records: "evicted D t s \<Longrightarrow> bt_get (js_records s) k = Some job \<Longrightarrow> bt_get (js_records t) k = Some job"
  by (erule evicted_cases [of D t s k]) auto

lemma evicted_stored: "evicted D t s \<Longrightarrow> store_core exact t \<Longrightarrow> bt_get (js_active t) k = Some a \<Longrightarrow>
    bt_get (js_records s) k = None \<and> bt_get (js_sealed_sizes s) k = bt_get (js_sealed_sizes t) k"
  by (erule evicted_cases [of D t s k]; cases "bt_get (js_records t) k") (auto dest: store_coreD(6))

lemma evicted_wf:
  assumes "store_wf exact t" "store_core exact s" "evicted D t s"
  shows "store_wf exact s"
proof -
  have "records_counted_for_job_limit s \<le> records_counted_for_job_limit t"
    using evicted_fields(9) [OF assms(3)] assms(1) counted_core [OF assms(2)] counted_core [of exact t]
    by (simp add: store_wf_def)
  then show ?thesis
    using assms(1, 2) evicted_fields(1-8) [OF assms(3)] unfolding store_wf_def by auto
qed

lemma make_room_for_job_spec:
  assumes "store_wf exact t"
  shows "triple (\<lambda>s. s = t) (make_room_for_job env)
     (\<lambda>_ s. store_wf exact s \<and> evicted (other None) t s \<and> \<not> jobs_full s)
     (\<lambda>e s. store_wf exact s \<and> evicted (other None) t s \<and> proper_error e)"
proof -
  let ?full = "\<lambda>s :: 'a job_vault. LiveJobLimit (length (js_active s)) (js_max_jobs s) (length (js_reconciling s))"
  have "triple (\<lambda>s. s = t) (evict_while env jobs_full None ?full (Suc (length (js_records t))))
     (\<lambda>_ s. store_wf exact s \<and> evicted (other None) t s \<and> \<not> jobs_full s)
     (\<lambda>e s. store_wf exact s \<and> evicted (other None) t s \<and> proper_error e)"
    by (rule triple_conseq [OF evict_while_spec [where t = t]])
       (use assms in \<open>auto simp: proper_error_def evicted_refl store_wf_def [of _ t] intro: evicted_wf [OF assms]\<close>)
  then show ?thesis unfolding make_room_for_job_def triple_def st_read_def by simp
qed

lemma make_room_for_bytes_spec:
  assumes "store_wf exact t"
  shows "triple (\<lambda>s. s = t) (make_room_for_bytes env len (Some jid))
     (\<lambda>_ s. store_wf exact s \<and> evicted (other (Some jid)) t s \<and> \<not> bytes_over (sealed_size t jid) len s)
     (\<lambda>e s. store_wf exact s \<and> evicted (other (Some jid)) t s \<and> proper_error e)"
proof -
  have "triple (\<lambda>s. s = t) (evict_while env (bytes_over (sealed_size t jid) len) (Some jid) (\<lambda>_. CannotFit len) (Suc (length (js_records t))))
     (\<lambda>_ s. store_wf exact s \<and> evicted (other (Some jid)) t s \<and> \<not> bytes_over (sealed_size t jid) len s)
     (\<lambda>e s. store_wf exact s \<and> evicted (other (Some jid)) t s \<and> proper_error e)"
    by (rule triple_conseq [OF evict_while_spec [where t = t]])
       (use assms in \<open>auto simp: proper_error_def evicted_refl store_wf_def [of _ t] intro: evicted_wf [OF assms]\<close>)
  then show ?thesis unfolding make_room_for_bytes_def triple_def st_read_def by (simp add: Let_def)
qed

lemma finished_le_1:
  fixes m :: "(string, 'n stored_gateway_job) btree"
  assumes "bt_wf m" "\<And>k job. bt_get m k = Some job \<Longrightarrow> Some k = p \<or> sj_status job = ReconciliationPending"
  shows "bt_sum finished m \<le> 1"
proof -
  have zero: "bt_sum finished m' = 0"
    if "bt_wf m'" "\<And>k job. bt_get m' k = Some job \<Longrightarrow> sj_status job = ReconciliationPending" for m' :: "(string, 'n stored_gateway_job) btree"
    using that by (auto simp: bt_sum_def finished_def bt_get_Some_iff)
  show ?thesis
  proof (cases p)
    case None
    then show ?thesis using zero [OF assms(1)] assms(2) by simp
  next
    case (Some k)
    have "bt_sum finished (bt_remove k m) = 0"
      using assms Some by (intro zero) (auto simp: btree_simps split: if_splits)
    then show ?thesis
      using bt_sum_remove [OF assms(1), of finished k] by (auto simp: finished_def split: option.splits if_splits)
  qed
qed

text \<open>One finished record too many is evicted, and the loop does not fail for want of a candidate.\<close>

lemma enforce_bounds_spec:
  assumes "store_core exact t" "js_total_bytes t \<le> js_max_bytes t" "exact \<Longrightarrow> js_max_bytes t \<noteq> - 1" "1 \<le> js_max_jobs t"
    "records_counted_for_job_limit t \<le> Suc (unat (js_max_jobs t))" "length (js_active t) \<le> unat (js_max_jobs t)"
  shows "triple (\<lambda>s. s = t) (enforce_bounds env p)
     (\<lambda>_ s. store_wf exact s \<and> evicted (other p) t s) (\<lambda>e s. store_wf exact s \<and> evicted (other p) t s \<and> proper_error e)"
proof -
  let ?P = "\<lambda>s :: 'a job_vault. store_core exact s \<and> evicted (other p) t s"
  have wf: "store_wf exact s" if "?P s" "records_counted_for_job_limit s \<le> unat (js_max_jobs t)" for s :: "'a job_vault"
    using that assms evicted_fields(1-8) [OF conjunct2 [OF that(1)]] unfolding store_wf_def by auto
  have ok: "store_wf exact s" if "?P s" "\<not> over_bounds s" for s :: "'a job_vault"
    using that evicted_fields(3) [OF conjunct2 [OF that(1)]] by (intro wf) (auto simp: over_bounds_def)
  have stuck: "\<not> over_bounds s" if "?P s" "evict_candidate p s = None" for s :: "'a job_vault"
  proof -
    have "records_counted_for_job_limit s \<le> 1"
      using finished_le_1 [OF store_coreD(1)] evict_candidate_None [OF _ that(2)] that(1) by (metis counted_core)
    moreover have "1 \<le> unat (js_max_jobs t)" using assms(4) by (simp add: word_le_nat_alt)
    ultimately show ?thesis
      using evicted_fields(3, 4, 8) [OF conjunct2 [OF that(1)]] assms(2) by (auto simp: over_bounds_def)
  qed
  have fewer: "store_wf exact s" if "?P s" "bt_sum finished (js_records s) < bt_sum finished (js_records t)" for s :: "'a job_vault"
    using that assms(1, 5) by (intro wf) (auto simp: counted_core)
  have "triple (\<lambda>s. s = t) (evict_while env over_bounds p (\<lambda>_. CannotSatisfyBounds) (Suc (length (js_records t))))
     (\<lambda>_ s. store_wf exact s \<and> evicted (other p) t s) (\<lambda>e s. store_wf exact s \<and> evicted (other p) t s \<and> proper_error e)"
    by (rule triple_conseq [OF evict_while_spec [where t = t]])
       (use assms(1) in \<open>auto simp: proper_error_def evicted_refl intro: ok fewer stuck [THEN notE]\<close>)
  then show ?thesis unfolding enforce_bounds_def triple_def st_read_def by simp
qed

section \<open>Expiry\<close>

definition expired_by :: "u64 \<Rightarrow> string \<Rightarrow> 'n stored_gateway_job \<Rightarrow> bool" where
  "expired_by now k job \<longleftrightarrow> sj_expires_at job \<le> now"

definition due :: "u64 \<Rightarrow> string list \<Rightarrow> ('n, 'z) gateway_job_store_scheme \<Rightarrow> bool" where
  "due now ids s \<longleftrightarrow>
     distinct ids \<and>
     (\<forall>k. k \<in> set ids \<longleftrightarrow>
        (\<exists>job. bt_get (js_records s) k = Some job \<and> sj_status job \<noteq> ReconciliationPending \<and> expired_by now k job))"

lemma purge_one_spec:
  "triple (\<lambda>s. store_core exact s \<and> evicted (expired_by now) t s \<and> due now (jid # ids) s) (purge_one env jid)
     (\<lambda>_ s. store_core exact s \<and> evicted (expired_by now) t s \<and> due now ids s)
     (\<lambda>e s. store_core exact s \<and> evicted (expired_by now) t s \<and> proper_error e)"
proof -
  let ?R = "\<lambda>s :: 'a gateway_job_store. store_core exact s \<and> evicted (expired_by now) t s \<and> due now ids s"
  let ?f = "\<lambda>s :: 'a job_vault. s\<lparr>js_records := bt_remove jid (js_records s), js_reconciling := bt_remove jid (js_reconciling s)\<rparr>"
  have step: "?R (mem (drop_size jid (?f s)))"
    if "store_core exact s" "evicted (expired_by now) t s" "due now (jid # ids) s" for s :: "'a job_vault"
  proof -
    from that(3) obtain job where job: "bt_get (js_records s) jid = Some job" "sj_status job \<noteq> ReconciliationPending" "expired_by now jid job"
      by (auto simp: due_def)
    have "bt_get (js_reconciling s) jid = None"
      using store_coreD(10) [OF that(1), of jid] job
      by (cases "bt_get (js_reconciling s) jid") (auto simp: is_reconciling_def)
    then have eq: "drop_size jid (?f s) = drop_record jid s"
      by (simp add: drop_record_def bt_remove_absent)
    have "due now ids (drop_record jid s)"
      unfolding due_def drop_record_fields bt_get_remove using that(3) by (auto simp: due_def)
    then have "due now ids (mem (drop_record jid s))" by (simp add: due_def)
    then show ?thesis
      using drop_record_core [OF that(1) job(1, 2)] evicted_drop_record(1) [OF that(1, 2) job] by (simp add: eq)
  qed
  have "triple (\<lambda>s'. \<exists>s. store_core exact s \<and> evicted (expired_by now) t s \<and> due now (jid # ids) s \<and> s' = ?f s)
          (remove_sealed_record env jid) (\<lambda>_ s. ?R (mem s)) (\<lambda>e s. proper_error e \<and> ?R (mem s))"
    by (rule remove_sealed_record_mem) (use step in blast)
  then have "triple (\<lambda>s. store_core exact s \<and> evicted (expired_by now) t s \<and> due now (jid # ids) s) (purge_one env jid)
      (\<lambda>_ s. ?R (mem s)) (\<lambda>e s. proper_error e \<and> ?R (mem s))"
    unfolding purge_one_def by (intro triple_bind [OF triple_modify]) auto
  then show ?thesis by (rule triple_conseq) (auto simp: due_def)
qed

lemma purge_for_spec:
  "triple (\<lambda>s. store_core exact s \<and> evicted (expired_by now) t s \<and> due now ids s) (st_for ids (purge_one env))
     (\<lambda>_ s. store_core exact s \<and> evicted (expired_by now) t s \<and> due now [] s)
     (\<lambda>e s. store_core exact s \<and> evicted (expired_by now) t s \<and> proper_error e)"
proof (induction ids)
  case Nil
  then show ?case by (simp add: triple_def st_ok_def)
next
  case (Cons jid ids)
  then show ?case by (simp add: triple_bind [OF purge_one_spec])
qed

lemma due_expired:
  assumes "store_core exact t"
  shows "due now (map sj_id (filter (\<lambda>job. sj_status job \<noteq> ReconciliationPending \<and> sj_expires_at job \<le> now) (map snd (js_records t)))) t"
proof -
  let ?P = "\<lambda>job. sj_status job \<noteq> ReconciliationPending \<and> sj_expires_at job \<le> now"
  have keys: "sj_id job = k" if "(k, job) \<in> set (js_records t)" for k job
    using that store_coreD(1, 5) [OF assms] by (simp add: bt_get_Some_iff)
  have "map sj_id (filter ?P (map snd (js_records t))) = map fst (filter (?P \<circ> snd) (js_records t))"
    using keys by (auto simp: filter_map comp_def)
  moreover have "distinct (map fst (filter (?P \<circ> snd) (js_records t)))"
    using bt_wf_distinct [OF store_coreD(1) [OF assms]] by (rule distinct_map_filter)
  moreover have "k \<in> set (map fst (filter (?P \<circ> snd) (js_records t))) \<longleftrightarrow>
      (\<exists>job. bt_get (js_records t) k = Some job \<and> ?P job)" for k
    using store_coreD(1) [OF assms] by (force simp: bt_get_Some_iff)
  ultimately show ?thesis by (simp add: due_def expired_by_def)
qed

lemma purge_expired_spec:
  assumes "store_wf exact t"
  shows "triple (\<lambda>s. s = t) (purge_expired env now)
     (\<lambda>_ s. store_wf exact s \<and> evicted (expired_by now) t s \<and>
        (\<forall>k job. bt_get (js_records s) k = Some job \<longrightarrow> sj_status job = ReconciliationPending \<or> now < sj_expires_at job))
     (\<lambda>e s. store_wf exact s \<and> evicted (expired_by now) t s \<and> proper_error e)"
proof -
  let ?ids = "map sj_id (filter (\<lambda>job. sj_status job \<noteq> ReconciliationPending \<and> sj_expires_at job \<le> now) (map snd (js_records t)))"
  have core: "store_core exact t" using assms by (simp add: store_wf_def)
  have "triple (\<lambda>s. s = t) (st_for ?ids (purge_one env))
     (\<lambda>_ s. store_wf exact s \<and> evicted (expired_by now) t s \<and>
        (\<forall>k job. bt_get (js_records s) k = Some job \<longrightarrow> sj_status job = ReconciliationPending \<or> now < sj_expires_at job))
     (\<lambda>e s. store_wf exact s \<and> evicted (expired_by now) t s \<and> proper_error e)"
    by (rule triple_conseq [OF purge_for_spec [where t = t and ids = ?ids and now = now]])
       (use core due_expired [OF core, of now] in
         \<open>auto simp: evicted_refl due_def expired_by_def not_le intro: evicted_wf [OF assms]\<close>)
  then show ?thesis unfolding purge_expired_def triple_def st_read_def by simp
qed

section \<open>Writes\<close>

text \<open>
  The store after a record of \<open>len\<close> sealed bytes has been written for a job, whether the job was running or
  had a record before; \<open>put_recovery\<close> is the same for the recovery record of a running job.
\<close>

definition put_record :: "'n stored_gateway_job \<Rightarrow> u64 \<Rightarrow> 'n job_vault \<Rightarrow> 'n job_vault" where
  "put_record job len s =
     (account (sj_id job) len s)
       \<lparr>js_records := bt_insert (sj_id job) job (js_records s),
        js_active := bt_remove (sj_id job) (js_active s),
        js_reconciling := (if sj_status job = ReconciliationPending then bt_insert (sj_id job) () (js_reconciling s)
                           else bt_remove (sj_id job) (js_reconciling s))\<rparr>"

definition put_recovery :: "'n active_gateway_job \<Rightarrow> 'n stored_gateway_job \<Rightarrow> u64 \<Rightarrow> 'n job_vault \<Rightarrow> 'n job_vault" where
  "put_recovery active recovery len s =
     (account (sj_id recovery) len s)
       \<lparr>js_active := bt_insert (sj_id recovery) (active\<lparr>aj_recovery := Some recovery\<rparr>) (js_active s)\<rparr>"

lemma account_fields [simp]:
  "js_records (account k len s) = js_records s" "js_active (account k len s) = js_active s"
  "js_reconciling (account k len s) = js_reconciling s" "js_key (account k len s) = js_key s"
  "js_directory (account k len s) = js_directory s" "js_max_jobs (account k len s) = js_max_jobs s"
  "js_max_bytes (account k len s) = js_max_bytes s" "js_ttl_seconds (account k len s) = js_ttl_seconds s"
  "js_sealed_sizes (account k len s) = bt_insert k len (js_sealed_sizes s)"
  "js_total_bytes (account k len s) = sat_add (sat_sub (js_total_bytes s) (sealed_size s k)) len"
  "jw_files (account k len s) = jw_files s" "jw_calls (account k len s) = jw_calls s"
  by (simp_all add: account_def)

lemma account_total:
  assumes "store_core exact s" "\<not> bytes_over (sealed_size s k) len s" "exact \<Longrightarrow> js_max_bytes s \<noteq> - 1"
  shows "exact \<Longrightarrow> unat (js_total_bytes (account k len s)) = bt_sum unat (js_sealed_sizes (account k len s))"
    "js_total_bytes (account k len s) \<le> js_max_bytes s"
proof -
  note d = store_coreD [OF assms(1)]
  have le: "min (unat (js_total_bytes s) - unat (sealed_size s k) + unat len) (2 ^ 64 - 1) \<le> unat (js_max_bytes s)"
    using assms(2) by (simp add: bytes_over_def not_less word_le_nat_alt unat_simps)
  then show "js_total_bytes (account k len s) \<le> js_max_bytes s" by (simp add: word_le_nat_alt unat_simps)
  assume exact
  have "unat (js_max_bytes s) \<noteq> unat (- 1 :: u64)"
    using assms(3) [OF \<open>exact\<close>] by (simp only: word_unat_eq_iff [symmetric] not_False_eq_True)
  then have "unat (js_max_bytes s) \<noteq> 2 ^ 64 - 1" by (simp add: unat_max)
  then have max: "unat (js_max_bytes s) < 2 ^ 64 - 1" using unat_lt_pow [of "js_max_bytes s"] by simp
  have sum: "bt_sum unat (bt_insert k len (js_sealed_sizes s)) + unat (sealed_size s k) = unat (js_total_bytes s) + unat len"
    using bt_sum_insert [OF d(2), of unat k len] d(11) [OF \<open>exact\<close>] by (simp add: sealed_size_def split: option.splits)
  have part: "unat (sealed_size s k) \<le> unat (js_total_bytes s)"
    using bt_sum_remove [OF d(2), of unat k] d(11) [OF \<open>exact\<close>] by (simp add: sealed_size_def split: option.splits)
  show "unat (js_total_bytes (account k len s)) = bt_sum unat (js_sealed_sizes (account k len s))"
    using le max sum part by (simp add: unat_simps min_def split: if_splits)
qed

lemma put_record_core:
  assumes "store_core exact s" "\<not> bytes_over (sealed_size s (sj_id job)) len s" "exact \<Longrightarrow> js_max_bytes s \<noteq> - 1"
  shows "store_core exact (put_record job len s)"
proof -
  note d = store_coreD [OF assms(1)]
  have st: "stored (put_record job len s) k = (if k = sj_id job then Some job else stored s k)" for k
    by (simp add: stored_def active_recovery_def put_record_def btree_simps split: option.split)
  show ?thesis
    using d(1-8) d(9) d(10) account_total(1) [OF assms] unfolding store_core_def st is_reconciling_def
    by (auto simp: put_record_def btree_simps)
qed

lemma put_recovery_core:
  assumes "store_core exact s" "\<not> bytes_over (sealed_size s (sj_id recovery)) len s" "exact \<Longrightarrow> js_max_bytes s \<noteq> - 1"
    "bt_get (js_active s) (sj_id recovery) = Some active"
  shows "store_core exact (put_recovery active recovery len s)"
proof -
  note d = store_coreD [OF assms(1)]
  have rec: "bt_get (js_records s) (sj_id recovery) = None"
    using d(6) [of "sj_id recovery"] assms(4) by (cases "bt_get (js_records s) (sj_id recovery)") auto
  have st: "stored (put_recovery active recovery len s) k = (if k = sj_id recovery then Some recovery else stored s k)" for k
    using rec by (simp add: stored_def active_recovery_def put_recovery_def btree_simps split: option.split)
  show ?thesis
    using d(1-8) d(9) d(10) rec assms(4) account_total(1) [OF assms(1-3)] unfolding store_core_def st is_reconciling_def
    by (auto simp: put_recovery_def btree_simps)
qed

lemma bt_insert_same: "bt_wf m \<Longrightarrow> bt_get m k = Some v \<Longrightarrow> bt_insert k v m = m"
  by (rule bt_ext) (auto simp: btree_simps)

lemma evicted_mem_left [simp]: "evicted D (mem t) s = evicted D t s"
  by (simp add: evicted_def same_config_def)

lemma mem_eq_fields:
  assumes "mem s = mem t"
  shows "store_wf exact s = store_wf exact t" "evicted D s u = evicted D t u" "sealed_size s k = sealed_size t k"
    "evicted D u s = evicted D u t" "bytes_over a b s = bytes_over a b t" "stored s k = stored t k"
    "js_records s = js_records t" "js_active s = js_active t" "js_reconciling s = js_reconciling t" "js_key s = js_key t"
    "js_max_bytes s = js_max_bytes t" "js_sealed_sizes s = js_sealed_sizes t" "js_directory s = js_directory t"
    "js_ttl_seconds s = js_ttl_seconds t" "store_core exact s = store_core exact t" "js_total_bytes s = js_total_bytes t"
    "js_max_jobs s = js_max_jobs t"
proof -
  show "store_wf exact s = store_wf exact t" using assms mem_wf(2) by metis
  show "store_core exact s = store_core exact t" using assms mem_wf(1) by metis
  show "evicted D s u = evicted D t u" using assms evicted_mem_left by metis
  show "evicted D u s = evicted D u t" using assms evicted_mem by metis
  show "stored s k = stored t k" using assms mem_stored by metis
  show r: "js_sealed_sizes s = js_sealed_sizes t" "js_total_bytes s = js_total_bytes t" "js_max_bytes s = js_max_bytes t"
    "js_records s = js_records t" "js_active s = js_active t" "js_reconciling s = js_reconciling t" "js_key s = js_key t"
    "js_directory s = js_directory t" "js_ttl_seconds s = js_ttl_seconds t" "js_max_jobs s = js_max_jobs t"
    using assms mem_fields by metis+
  show "sealed_size s k = sealed_size t k" "bytes_over a b s = bytes_over a b t"
    by (simp_all add: sealed_size_def bytes_over_def r)
qed

text \<open>
  A pending record is still there, for the same request and with the same result, unless its job is in
  \<open>F\<close>; a running job is still running for the same request, unless it is in \<open>A\<close>; and the configuration
  is the same.
\<close>

definition same_request :: "'n stored_gateway_job \<Rightarrow> 'n stored_gateway_job \<Rightarrow> bool" where
  "same_request a b \<longleftrightarrow>
     sj_id a = sj_id b \<and> sj_endpoint_family a = sj_endpoint_family b \<and> sj_model a = sj_model b \<and>
     sj_owner_token_id a = sj_owner_token_id b \<and> sj_request_fingerprint a = sj_request_fingerprint b \<and>
     sj_created_at a = sj_created_at b \<and> sj_result a = sj_result b \<and> sj_artifacts a = sj_artifacts b"

definition same_running :: "'n active_gateway_job \<Rightarrow> 'n active_gateway_job \<Rightarrow> bool" where
  "same_running a b \<longleftrightarrow> a\<lparr>aj_recovery := None\<rparr> = b\<lparr>aj_recovery := None\<rparr>"

definition jobs_kept ::
    "string set \<Rightarrow> string set \<Rightarrow> ('n, 'z) gateway_job_store_scheme \<Rightarrow> ('n, 'y) gateway_job_store_scheme \<Rightarrow> bool" where
  "jobs_kept F A t s \<longleftrightarrow>
     (\<forall>k job. k \<notin> F \<longrightarrow> bt_get (js_records t) k = Some job \<longrightarrow> sj_status job = ReconciliationPending \<longrightarrow>
        (\<exists>job'. bt_get (js_records s) k = Some job' \<and> sj_status job' = ReconciliationPending \<and> same_request job' job)) \<and>
     (\<forall>k a. k \<notin> A \<longrightarrow> bt_get (js_active t) k = Some a \<longrightarrow> (\<exists>a'. bt_get (js_active s) k = Some a' \<and> same_running a' a)) \<and>
     same_config t s"

lemma same_request_refl [simp]: "same_request a a"
  by (simp add: same_request_def)

lemma same_request_trans: "same_request a b \<Longrightarrow> same_request b c \<Longrightarrow> same_request a c"
  by (simp add: same_request_def)

lemma same_running_refl [simp]: "same_running a a"
  by (simp add: same_running_def)

lemma same_running_recovery [simp]: "same_running (a\<lparr>aj_recovery := r\<rparr>) b = same_running a b"
  by (simp add: same_running_def)

lemma same_running_trans: "same_running a b \<Longrightarrow> same_running b c \<Longrightarrow> same_running a c"
  by (simp add: same_running_def)

lemma jobs_kept_pending:
  assumes "jobs_kept F A t s" "k \<notin> F" "bt_get (js_records t) k = Some job" "sj_status job = ReconciliationPending"
  obtains job' where "bt_get (js_records s) k = Some job'" "sj_status job' = ReconciliationPending" "same_request job' job"
  using assms unfolding jobs_kept_def by blast

lemma jobs_kept_active:
  assumes "jobs_kept F A t s" "k \<notin> A" "bt_get (js_active t) k = Some a"
  obtains a' where "bt_get (js_active s) k = Some a'" "same_running a' a"
  using assms unfolding jobs_kept_def by blast

lemma jobs_kept_trans:
  assumes "jobs_kept F A t s" "jobs_kept F A s u"
  shows "jobs_kept F A t u"
  unfolding jobs_kept_def
proof (intro conjI allI impI)
  fix k job
  assume k: "k \<notin> F" and job: "bt_get (js_records t) k = Some job" "sj_status job = ReconciliationPending"
  obtain job' where j: "bt_get (js_records s) k = Some job'" "sj_status job' = ReconciliationPending" "same_request job' job"
    using assms(1) k job by (rule jobs_kept_pending)
  obtain job'' where "bt_get (js_records u) k = Some job''" "sj_status job'' = ReconciliationPending" "same_request job'' job'"
    using assms(2) k j(1, 2) by (rule jobs_kept_pending)
  then show "\<exists>job'. bt_get (js_records u) k = Some job' \<and> sj_status job' = ReconciliationPending \<and> same_request job' job"
    using same_request_trans [OF _ j(3)] by blast
next
  fix k a
  assume k: "k \<notin> A" and a: "bt_get (js_active t) k = Some a"
  obtain a' where a': "bt_get (js_active s) k = Some a'" "same_running a' a" using assms(1) k a by (rule jobs_kept_active)
  obtain a'' where "bt_get (js_active u) k = Some a''" "same_running a'' a'" using assms(2) k a'(1) by (rule jobs_kept_active)
  then show "\<exists>a'. bt_get (js_active u) k = Some a' \<and> same_running a' a" using same_running_trans [OF _ a'(2)] by blast
next
  show "same_config t u" using assms by (simp add: jobs_kept_def same_config_def)
qed

lemma jobs_kept_evicted: "evicted D t s \<Longrightarrow> jobs_kept F A t s"
  unfolding jobs_kept_def by (auto dest: evicted_pending simp: evicted_fields(6)) (simp add: evicted_def)

lemma jobs_kept_refl: "jobs_kept F A t t"
  unfolding jobs_kept_def by (auto simp: same_config_def)

lemma jobs_kept_mem [simp]: "jobs_kept F A t (mem s) = jobs_kept F A t s" "jobs_kept F A (mem t) s = jobs_kept F A t s"
  by (simp_all add: jobs_kept_def same_config_def)

lemma jobs_kept_set_active:
  assumes "jobs_kept F A t s" "same_config s s'" "js_records s' = js_records s" "js_active s' = bt_insert k b (js_active s)"
    "\<And>a. bt_get (js_active s) k = Some a \<Longrightarrow> same_running b a"
  shows "jobs_kept F A t s'"
  unfolding jobs_kept_def
proof (intro conjI allI impI)
  fix k' a
  assume k: "k' \<notin> A" "bt_get (js_active t) k' = Some a"
  obtain a' where "bt_get (js_active s) k' = Some a'" "same_running a' a" using assms(1) k by (rule jobs_kept_active)
  then show "\<exists>a'. bt_get (js_active s') k' = Some a' \<and> same_running a' a"
    using assms(4, 5) same_running_trans [of b a' a] by (cases "k' = k") (auto simp: btree_simps)
qed (use assms(1-3) in \<open>auto simp: jobs_kept_def same_config_def\<close>)

section \<open>Every method keeps the invariant\<close>

text \<open>
  \<open>keeps_store exact F A t t' m\<close>: run at \<open>t'\<close>, the method ends in a well-formed store that still has the pending
  records of \<open>t\<close> outside \<open>F\<close> and its running jobs outside \<open>A\<close>, also when it fails, and it neither panics nor loops.
\<close>

definition keeps_store :: "bool \<Rightarrow> string set \<Rightarrow> string set \<Rightarrow> 'n job_vault \<Rightarrow> 'n job_vault \<Rightarrow> ('n, 'a) vault_op \<Rightarrow> bool" where
  "keeps_store exact F A t t' m \<longleftrightarrow>
     store_wf exact (snd (m t')) \<and> jobs_kept F A t (snd (m t')) \<and> (\<forall>e. fst (m t') = Inl e \<longrightarrow> proper_error e)"

lemma keeps_storeI:
  assumes "triple (\<lambda>s. s = t') m Q E" "\<And>x s. Q x s \<Longrightarrow> store_wf exact s \<and> jobs_kept F A t s"
    "\<And>e s. E e s \<Longrightarrow> store_wf exact s \<and> jobs_kept F A t s \<and> proper_error e"
  shows "keeps_store exact F A t t' m"
proof (cases "m t'")
  case (Pair r s)
  show ?thesis
  proof (cases r)
    case (Inl e)
    then show ?thesis using tripleD_Inl [OF assms(1) refl] assms(3) Pair by (auto simp: keeps_store_def)
  next
    case (Inr x)
    then show ?thesis using tripleD_Inr [OF assms(1) refl] assms(2) Pair by (auto simp: keeps_store_def)
  qed
qed

lemma keeps_store_bind:
  assumes "keeps_store exact F A t t' m" "\<And>x s. m t' = (Inr x, s) \<Longrightarrow> store_wf exact s \<Longrightarrow> jobs_kept F A t s \<Longrightarrow> keeps_store exact F A t s (f x)"
  shows "keeps_store exact F A t t' (st_bind m f)"
proof (cases "m t'")
  case (Pair r s)
  then show ?thesis using assms by (cases r) (auto simp: keeps_store_def st_bind_def)
qed

lemma keeps_store_modify: "keeps_store exact F A t (f t') (g ()) \<Longrightarrow> keeps_store exact F A t t' (st_bind (st_modify f) g)"
  by (simp add: keeps_store_def st_bind_def st_modify_def)

lemma keeps_store_read: "keeps_store exact F A t t' (f t') \<Longrightarrow> keeps_store exact F A t t' (st_read f)"
  by (simp add: keeps_store_def st_read_def)

lemma keeps_store_ok: "store_wf exact t' \<Longrightarrow> jobs_kept F A t t' \<Longrightarrow> keeps_store exact F A t t' (st_ok x)"
  by (simp add: keeps_store_def st_ok_def)

lemma keeps_store_fs:
  assumes "fs_op m" "store_wf exact t'" "jobs_kept F A t t'"
  shows "keeps_store exact F A t t' m"
proof -
  have eq: "mem (snd (m t')) = mem t'" and "\<And>e. fst (m t') = Inl e \<Longrightarrow> proper_error e"
    using assms(1) by (auto simp: fs_op_def)
  then show ?thesis
    using assms(2, 3) mem_eq_fields(1) [OF eq] jobs_kept_mem(1) [of F A t "snd (m t')"] jobs_kept_mem(1) [of F A t t']
    by (simp add: keeps_store_def)
qed

lemma fs_op_mem: "fs_op m \<Longrightarrow> m s = (r, s') \<Longrightarrow> mem s' = mem s"
  unfolding fs_op_def by (metis snd_conv)

lemma keeps_store_err: "proper_error e \<Longrightarrow> store_wf exact t' \<Longrightarrow> jobs_kept F A t t' \<Longrightarrow> keeps_store exact F A t t' (st_err e)"
  by (rule keeps_store_fs [OF fs_op_err])

lemma keeps_store_evicted:
  assumes "triple (\<lambda>s. s = t') m Q E" "\<And>x s. Q x s \<Longrightarrow> store_wf exact s \<and> evicted D t' s"
    "\<And>e s. E e s \<Longrightarrow> store_wf exact s \<and> evicted D t' s \<and> proper_error e" "jobs_kept F A t t'"
  shows "keeps_store exact F A t t' m"
  using assms(1) by (rule keeps_storeI) (use assms(2, 3) jobs_kept_trans [OF assms(4)] jobs_kept_evicted in blast)+

lemma keeps_store_purge: "store_wf exact t' \<Longrightarrow> jobs_kept F A t t' \<Longrightarrow> keeps_store exact F A t t' (purge_expired env now)"
  by (rule keeps_store_evicted [OF purge_expired_spec]) auto

lemma keeps_store_job_room: "store_wf exact t' \<Longrightarrow> jobs_kept F A t t' \<Longrightarrow> keeps_store exact F A t t' (make_room_for_job env)"
  by (rule keeps_store_evicted [OF make_room_for_job_spec]) auto

lemma keeps_store_byte_room:
  "store_wf exact t' \<Longrightarrow> jobs_kept F A t t' \<Longrightarrow> keeps_store exact F A t t' (make_room_for_bytes env len (Some jid))"
  by (rule keeps_store_evicted [OF make_room_for_bytes_spec]) auto

lemma byte_room:
  assumes "store_wf exact t" "make_room_for_bytes env len (Some jid) t = (Inr u, s)"
  shows "evicted (other (Some jid)) t s" "\<not> bytes_over (sealed_size s jid) len s" "sealed_size s jid = sealed_size t jid"
proof -
  note r = tripleD_Inr [OF make_room_for_bytes_spec [OF assms(1)] refl assms(2)]
  then show ev: "evicted (other (Some jid)) t s" by blast
  show "sealed_size s jid = sealed_size t jid"
    by (rule evicted_cases [OF ev, of jid]) (simp_all add: sealed_size_def other_def)
  then show "\<not> bytes_over (sealed_size s jid) len s" using r by simp
qed

lemma keeps_store_enforce:
  assumes "store_wf exact s" "\<not> bytes_over (sealed_size s (sj_id job)) len s" "jobs_kept F A t (put_record job len s)"
  shows "keeps_store exact F A t (put_record job len s) (st_bind (enforce_bounds env (Some (sj_id job))) (\<lambda>_. st_ok job))"
proof -
  have core: "store_core exact s" and max: "exact \<Longrightarrow> js_max_bytes s \<noteq> - 1" using assms(1) by (auto simp: store_wf_def)
  have core': "store_core exact (put_record job len s)" by (rule put_record_core [OF core assms(2) max])
  have "bt_sum finished (bt_insert (sj_id job) job (js_records s)) \<le> Suc (bt_sum finished (js_records s))"
    using bt_sum_insert [OF store_coreD(1) [OF core], of finished "sj_id job" job] by (simp add: finished_def split: if_splits option.splits)
  then have cnt: "records_counted_for_job_limit (put_record job len s) \<le> Suc (unat (js_max_jobs s))"
    using assms(1) by (simp add: counted_core [OF core'] store_wf_def counted_core [OF core]) (simp add: put_record_def)
  have act: "length (js_active (put_record job len s)) \<le> unat (js_max_jobs s)"
    using assms(1) length_bt_remove [of "sj_id job" "js_active s"] by (simp add: store_wf_def put_record_def)
  have "triple (\<lambda>s'. s' = put_record job len s) (enforce_bounds env (Some (sj_id job)))
     (\<lambda>_ s'. store_wf exact s' \<and> evicted (other (Some (sj_id job))) (put_record job len s) s')
     (\<lambda>e s'. store_wf exact s' \<and> evicted (other (Some (sj_id job))) (put_record job len s) s' \<and> proper_error e)"
    by (rule enforce_bounds_spec [OF core'])
       (use assms(1) cnt act account_total(2) [OF core assms(2) max] in \<open>simp_all add: store_wf_def put_record_def\<close>)
  then have "keeps_store exact F A t (put_record job len s) (enforce_bounds env (Some (sj_id job)))"
    by (rule keeps_store_evicted) (use assms(3) in auto)
  then show ?thesis by (rule keeps_store_bind) (rule keeps_store_ok)
qed

lemma insert_active_wf:
  assumes "store_wf exact s" "bt_get (js_records s) jid = None" "bt_get (js_active s) jid = None" "\<not> jobs_full s"
    "aj_id a = jid" "aj_recovery a = None"
  shows "store_wf exact (s\<lparr>js_active := bt_insert jid a (js_active s)\<rparr>)" (is "store_wf exact ?s")
proof -
  have core: "store_core exact s" using assms(1) by (simp add: store_wf_def)
  note d = store_coreD [OF core]
  have st: "stored ?s k = stored s k" for k
    using assms(2, 3, 6) by (auto simp: stored_def active_recovery_def btree_simps split: option.split)
  have "store_core exact ?s"
    using d(1-8) d(9) d(10) d(11) assms(2, 5, 6) unfolding store_core_def st is_reconciling_def
    by (auto simp: btree_simps split: if_splits)
  moreover have "length (bt_insert jid a (js_active s)) \<le> unat (js_max_jobs s)"
    using assms(3, 4) length_bt_insert [OF d(3), of jid a] unat_lt_pow [of "js_max_jobs s"] by (simp add: jobs_full_def)
  moreover have "records_counted_for_job_limit ?s = records_counted_for_job_limit s"
    by (simp add: records_counted_for_job_limit_def is_reconciling_def)
  ultimately show ?thesis using assms(1) by (simp add: store_wf_def)
qed

lemma proper_identity:
  "validate_job_identity job f m ow r = Inl e \<Longrightarrow> proper_error e"
  "validate_active_job_identity a f m ow r = Inl e \<Longrightarrow> proper_error e"
  by (auto simp: validate_job_identity_def validate_active_job_identity_def proper_error_def split: if_splits)

lemma job_room:
  assumes "store_wf exact t" "make_room_for_job env t = (Inr u, s)"
  shows "store_wf exact s" "evicted (other None) t s" "\<not> jobs_full s"
  using tripleD_Inr [OF make_room_for_job_spec [OF assms(1)] refl assms(2)] by blast+

lemma begin_job_keeps:
  assumes "store_wf exact t"
  shows "keeps_store exact F A t t (begin_job env jid endpoint_family model owner_token_id request_fingerprint now)"
  unfolding begin_job_def
proof (rule keeps_store_bind [OF keeps_store_purge [OF assms jobs_kept_refl]], rule keeps_store_read)
  fix s :: "'a job_vault"
  assume s: "store_wf exact s" "jobs_kept F A t s"
  show "keeps_store exact F A t s (case bt_get (js_records s) jid of
       Some existing \<Rightarrow>
         st_bind (st_lift (validate_job_identity existing endpoint_family model owner_token_id request_fingerprint)) (\<lambda>_.
         st_ok (Existing existing))
     | None \<Rightarrow> (case bt_get (js_active s) jid of
         Some active \<Rightarrow>
           st_bind (st_lift (validate_active_job_identity active endpoint_family model owner_token_id request_fingerprint)) (\<lambda>_.
           st_ok InProgress)
       | None \<Rightarrow>
           st_bind (make_room_for_job env) (\<lambda>_.
           st_bind (st_modify (\<lambda>s. s\<lparr>js_active := bt_insert jid
             \<lparr>aj_id = jid, aj_endpoint_family = endpoint_family, aj_model = model, aj_owner_token_id = owner_token_id,
              aj_request_fingerprint = request_fingerprint, aj_created_at = now, aj_recovery = None\<rparr> (js_active s)\<rparr>)) (\<lambda>_.
           st_ok Started))))"
  proof (cases "bt_get (js_records s) jid")
    case (Some existing)
    then show ?thesis
      by (simp, intro keeps_store_fs fs_op_bind fs_op_lift fs_op_ok s) (rule proper_identity)
  next
    case none: None
    show ?thesis
    proof (cases "bt_get (js_active s) jid")
      case (Some active)
      then show ?thesis
        using none by (simp, intro keeps_store_fs fs_op_bind fs_op_lift fs_op_ok s) (rule proper_identity)
    next
      case None
      have "keeps_store exact F A t s' (st_bind (st_modify (\<lambda>s. s\<lparr>js_active := bt_insert jid
             \<lparr>aj_id = jid, aj_endpoint_family = endpoint_family, aj_model = model, aj_owner_token_id = owner_token_id,
              aj_request_fingerprint = request_fingerprint, aj_created_at = now, aj_recovery = None\<rparr> (js_active s)\<rparr>)) (\<lambda>_.
           st_ok Started))" if room: "make_room_for_job env s = (Inr u, s')" and kept: "jobs_kept F A t s'" for u s'
      proof (rule keeps_store_modify, rule keeps_store_ok)
        note r = job_room [OF s(1) room]
        have "bt_get (js_records s') jid = None"
          using none evicted_records [OF r(2), of jid] by (cases "bt_get (js_records s') jid") auto
        then show "store_wf exact (s'\<lparr>js_active := bt_insert jid
             \<lparr>aj_id = jid, aj_endpoint_family = endpoint_family, aj_model = model, aj_owner_token_id = owner_token_id,
              aj_request_fingerprint = request_fingerprint, aj_created_at = now, aj_recovery = None\<rparr> (js_active s')\<rparr>)"
          using None r by (intro insert_active_wf) (simp_all add: evicted_fields(6) [OF r(2)])
        show "jobs_kept F A t (s'\<lparr>js_active := bt_insert jid
             \<lparr>aj_id = jid, aj_endpoint_family = endpoint_family, aj_model = model, aj_owner_token_id = owner_token_id,
              aj_request_fingerprint = request_fingerprint, aj_created_at = now, aj_recovery = None\<rparr> (js_active s')\<rparr>)"
          by (rule jobs_kept_set_active [OF kept]) (use None in \<open>auto simp: evicted_fields(6) [OF r(2)] same_config_def\<close>)
      qed
      then show ?thesis
        using none None by (auto intro!: keeps_store_bind [OF keeps_store_job_room [OF s]])
    qed
  qed
qed

lemma put_recovery_wf:
  assumes "store_wf exact s" "\<not> bytes_over (sealed_size s (sj_id recovery)) len s" "bt_get (js_active s) (sj_id recovery) = Some active"
  shows "store_wf exact (put_recovery active recovery len s)"
proof -
  have core: "store_core exact s" and max: "exact \<Longrightarrow> js_max_bytes s \<noteq> - 1" using assms(1) by (auto simp: store_wf_def)
  have "length (bt_insert (sj_id recovery) (active\<lparr>aj_recovery := Some recovery\<rparr>) (js_active s)) = length (js_active s)"
    using assms(3) length_bt_insert [OF store_coreD(3) [OF core]] by simp
  then show ?thesis
    using assms(1) put_recovery_core [OF core assms(2) max assms(3)] account_total(2) [OF core assms(2) max]
    by (simp add: store_wf_def put_recovery_def records_counted_for_job_limit_def is_reconciling_def)
qed

lemma persist_active_recovery_keeps:
  assumes "store_wf exact t" "bt_get (js_active t) (sj_id recovery) = Some active"
  shows "keeps_store exact F A t t (persist_active_recovery env recovery)"
proof -
  let ?k = "sj_id recovery"
  have tail: "keeps_store exact F A t s' (st_bind (st_modify (account ?k len)) (\<lambda>_. set_recovery ?k recovery))"
    if s: "store_wf exact s" "evicted (other (Some ?k)) t s" "\<not> bytes_over (sealed_size s ?k) len s" "jobs_kept F A t s'" "mem s' = mem s"
    for s s' :: "'a job_vault" and len
  proof (rule keeps_store_modify, simp only: set_recovery_def, rule keeps_store_read)
    note m = mem_eq_fields [OF s(5)]
    have wf: "store_wf exact s'" using s(1) m(1) by simp
    have act: "bt_get (js_active s') ?k = Some active"
      using assms(2) evicted_fields(6) [OF s(2)] m(8) by simp
    have "store_wf exact (put_recovery active recovery len s')"
      using wf act s(3) m(3, 5) by (intro put_recovery_wf) simp_all
    moreover have "jobs_kept F A t (put_recovery active recovery len s')"
      by (rule jobs_kept_set_active [OF s(4), where k = ?k and b = "active\<lparr>aj_recovery := Some recovery\<rparr>"])
         (use act in \<open>simp_all add: put_recovery_def same_config_def\<close>)
    ultimately show "keeps_store exact F A t (account ?k len s') (case bt_get (js_active (account ?k len s')) ?k of
       None \<Rightarrow> st_err ActiveRecoveryOwner
     | Some active \<Rightarrow>
         st_modify (\<lambda>s. s\<lparr>js_active := bt_insert ?k (active\<lparr>aj_recovery := Some recovery\<rparr>) (js_active s)\<rparr>))"
      using act by (simp add: keeps_store_def st_modify_def put_recovery_def)
  qed
  show ?thesis
    unfolding persist_active_recovery_def
  proof (rule keeps_store_read, rule keeps_store_bind [OF keeps_store_fs [OF fs_seal_job assms(1) jobs_kept_refl]])
    fix sealed s0
    assume s0: "seal_job env (js_key t) recovery t = (Inr sealed, s0)" "store_wf exact s0" "jobs_kept F A t s0"
    note eq0 = fs_op_mem [OF fs_seal_job s0(1)]
    show "keeps_store exact F A t s0 (st_bind (make_room_for_bytes env (vec_len sealed) (Some ?k)) (\<lambda>_.
      st_read (\<lambda>s. st_bind (persist env ?k sealed (bt_get (js_sealed_sizes s) ?k \<noteq> None)) (\<lambda>_.
      st_bind (st_modify (account ?k (vec_len sealed))) (\<lambda>_. set_recovery ?k recovery)))))"
    proof (rule keeps_store_bind [OF keeps_store_byte_room [OF s0(2, 3)]], rule keeps_store_read)
      fix u s1
      assume s1: "make_room_for_bytes env (vec_len sealed) (Some ?k) s0 = (Inr u, s1)" "store_wf exact s1" "jobs_kept F A t s1"
      note r = byte_room [OF s0(2) s1(1)]
      show "keeps_store exact F A t s1 (st_bind (persist env ?k sealed (bt_get (js_sealed_sizes s1) ?k \<noteq> None)) (\<lambda>_.
        st_bind (st_modify (account ?k (vec_len sealed))) (\<lambda>_. set_recovery ?k recovery)))"
        by (rule keeps_store_bind [OF keeps_store_fs [OF fs_persist s1(2, 3)]], rule tail [OF s1(2) _ r(2)])
           (use r(1) in \<open>simp only: mem_eq_fields(2) [OF eq0]\<close>, assumption, rule fs_op_mem [OF fs_persist])
    qed
  qed
qed

lemma protect_active_keeps:
  assumes "store_wf exact t"
  shows "keeps_store exact F A t t (protect_active env jid now)"
proof (cases "bt_get (js_active t) jid")
  case None
  then show ?thesis
    unfolding protect_active_def
    by (intro keeps_store_read) (simp add: keeps_store_err proper_error_def assms jobs_kept_refl)
next
  case (Some active)
  then have "sj_id (interrupted_record active (js_ttl_seconds t) now) = jid"
    using assms store_coreD(7) [of exact t jid active] by (simp add: interrupted_record_def store_wf_def)
  then have "keeps_store exact F A t t (persist_active_recovery env (interrupted_record active (js_ttl_seconds t) now))"
    using Some by (intro persist_active_recovery_keeps assms) simp
  then show ?thesis
    unfolding protect_active_def
    using Some assms by (intro keeps_store_read) (simp add: keeps_store_ok jobs_kept_refl)
qed

lemma update_active_receipt_keeps:
  assumes "store_wf exact t"
  shows "keeps_store exact F A t t (update_active_receipt env jid receipt now)"
proof (cases "active_recovery t jid")
  case None
  then show ?thesis
    unfolding update_active_receipt_def
    by (intro keeps_store_read) (simp add: keeps_store_ok assms jobs_kept_refl)
next
  case (Some recovery)
  then obtain active where a: "bt_get (js_active t) jid = Some active" "aj_recovery active = Some recovery"
    by (auto simp: active_recovery_def bind_eq_Some_conv)
  then have "sj_id recovery = jid" using assms store_coreD(8) [of exact t jid active recovery] by (simp add: store_wf_def)
  then show ?thesis
    unfolding update_active_receipt_def
    using Some a by (intro keeps_store_read) (simp add: persist_active_recovery_keeps assms)
qed

lemma terminal_record_fields [simp]:
  "sj_id (terminal_record a ttl status result artifacts receipt err err_info now) = aj_id a"
  by (auto simp: terminal_record_def Let_def split: option.split)

lemma check_sealed_len_fs: "fs_op (st_lift (check_sealed_len job sealed max_bytes))"
  by (rule fs_op_lift) (auto simp: check_sealed_len_def ensure_def proper_error_def split: if_splits)

text \<open>The steps of a completed write, up to the call of \<open>enforce_bounds\<close>.\<close>

lemma write_keeps:
  assumes "store_wf exact t" "sj_id job = jid"
    and put: "\<And>s. store_wf exact s \<Longrightarrow> evicted (other (Some jid)) t s \<Longrightarrow> f (vec_len sealed) s = put_record job (vec_len sealed) s"
    and kept: "\<And>s. store_wf exact s \<Longrightarrow> evicted (other (Some jid)) t s \<Longrightarrow> jobs_kept F A t (put_record job (vec_len sealed) s)"
    and t0: "store_wf exact t0" "mem t0 = mem t"
  shows "keeps_store exact F A t t0
    (st_bind (st_lift (check_sealed_len job sealed (js_max_bytes t))) (\<lambda>_.
     st_bind (make_room_for_bytes env (vec_len sealed) (Some jid)) (\<lambda>_.
     st_read (\<lambda>s. st_bind (persist env (sj_id job) sealed (replace s)) (\<lambda>_.
     st_bind (st_modify (f (vec_len sealed))) (\<lambda>_.
     st_bind (enforce_bounds env (Some (sj_id job))) (\<lambda>_.
     st_ok job)))))))"
proof -
  have kept0: "jobs_kept F A t t0"
    using jobs_kept_refl [of F A t] t0(2) jobs_kept_mem(1) [of F A t t0] jobs_kept_mem(1) [of F A t t] by simp
  show ?thesis
  proof (rule keeps_store_bind [OF keeps_store_fs [OF check_sealed_len_fs t0(1) kept0]])
    fix u s
    assume "st_lift (check_sealed_len job sealed (js_max_bytes t)) t0 = (Inr u, s)"
    then have s: "s = t0" by (simp add: st_lift_def)
    show "keeps_store exact F A t s (st_bind (make_room_for_bytes env (vec_len sealed) (Some jid)) (\<lambda>_.
     st_read (\<lambda>s. st_bind (persist env (sj_id job) sealed (replace s)) (\<lambda>_.
     st_bind (st_modify (f (vec_len sealed))) (\<lambda>_.
     st_bind (enforce_bounds env (Some (sj_id job))) (\<lambda>_.
     st_ok job))))))"
      unfolding s
    proof (rule keeps_store_bind [OF keeps_store_byte_room [OF t0(1) kept0]], rule keeps_store_read)
      fix u s1
      assume s1: "make_room_for_bytes env (vec_len sealed) (Some jid) t0 = (Inr u, s1)" "store_wf exact s1" "jobs_kept F A t s1"
      note r = byte_room [OF t0(1) s1(1)]
      show "keeps_store exact F A t s1 (st_bind (persist env (sj_id job) sealed (replace s1)) (\<lambda>_.
        st_bind (st_modify (f (vec_len sealed))) (\<lambda>_. st_bind (enforce_bounds env (Some (sj_id job))) (\<lambda>_. st_ok job))))"
      proof (rule keeps_store_bind [OF keeps_store_fs [OF fs_persist s1(2, 3)]], rule keeps_store_modify)
        fix u s2
        assume s2: "persist env (sj_id job) sealed (replace s1) s1 = (Inr u, s2)" "store_wf exact s2"
        note m = mem_eq_fields [OF fs_op_mem [OF fs_persist s2(1)]]
        have ev: "evicted (other (Some jid)) t s2" using r(1) by (simp only: m(4) mem_eq_fields(2) [OF t0(2)])
        show "keeps_store exact F A t (f (vec_len sealed) s2) (st_bind (enforce_bounds env (Some (sj_id job))) (\<lambda>_. st_ok job))"
          unfolding put [OF s2(2) ev]
          by (rule keeps_store_enforce [OF s2(2) _ kept [OF s2(2) ev]]) (use r(2) m(3, 5) assms(2) in simp)
      qed
    qed
  qed
qed

lemma jobs_kept_put:
  assumes "store_wf exact t" "evicted D t s"
    "sj_id job \<in> F \<or> bt_get (js_records t) (sj_id job) = None \<or>
     (\<exists>old. bt_get (js_records t) (sj_id job) = Some old \<and> sj_status job = ReconciliationPending \<and> same_request job old)"
    "sj_id job \<in> A \<or> bt_get (js_active t) (sj_id job) = None"
  shows "jobs_kept F A t (put_record job len s)"
  unfolding jobs_kept_def
proof (intro conjI allI impI)
  fix k old
  assume k: "k \<notin> F" "bt_get (js_records t) k = Some old" "sj_status old = ReconciliationPending"
  show "\<exists>job'. bt_get (js_records (put_record job len s)) k = Some job' \<and> sj_status job' = ReconciliationPending \<and> same_request job' old"
  proof (cases "k = sj_id job")
    case True
    then show ?thesis using assms(3) k by (auto simp: put_record_def btree_simps)
  next
    case False
    then show ?thesis using evicted_pending [OF assms(2) k(2, 3)] k(3) by (auto simp: put_record_def btree_simps)
  qed
next
  fix k a
  assume k: "k \<notin> A" "bt_get (js_active t) k = Some a"
  then have "k \<noteq> sj_id job" using assms(4) by auto
  then show "\<exists>a'. bt_get (js_active (put_record job len s)) k = Some a' \<and> same_running a' a"
    using k evicted_fields(6) [OF assms(2)] by (auto simp: put_record_def btree_simps)
next
  show "same_config t (put_record job len s)"
    using evicted_fields(1-5) [OF assms(2)] by (simp add: same_config_def put_record_def)
qed

lemma not_reconciling:
  assumes "store_core exact s" "bt_get (js_records s) k = None"
  shows "bt_remove k (js_reconciling s) = js_reconciling s"
  using store_coreD(10) [OF assms(1), of k] assms(2)
  by (intro bt_remove_absent) (cases "bt_get (js_reconciling s) k", auto simp: is_reconciling_def)

lemma complete_put:
  assumes "store_wf exact t" "bt_get (js_active t) jid = Some active" "sj_id job = jid" "store_wf exact s" "evicted (other (Some jid)) t s"
  shows "((if sj_status job = ReconciliationPending then mark_reconciling (sj_id job) else id) \<circ> insert_record job \<circ>
      account (sj_id job) len \<circ> (\<lambda>s. s\<lparr>js_active := bt_remove jid (js_active s)\<rparr>)) s = put_record job len s"
proof -
  have "bt_get (js_records s) jid = None"
    using evicted_stored [OF assms(5) _ assms(2), of exact] assms(1) by (simp add: store_wf_def)
  then have "bt_remove jid (js_reconciling s) = js_reconciling s"
    using assms(4) by (intro not_reconciling [of exact]) (simp_all add: store_wf_def)
  then show ?thesis
    by (intro job_vault.equality)
       (simp_all add: put_record_def assms(3) mark_reconciling_def insert_record_def account_def sealed_size_def)
qed

lemma complete_keeps:
  assumes "store_wf exact t" "jid \<in> A"
  shows "keeps_store exact F A t t (complete_with_error_info env jid status result artifacts receipt err err_info now)"
proof (cases "bt_get (js_records t) jid")
  case (Some existing)
  have core: "store_core exact t" using assms(1) by (simp add: store_wf_def)
  have "mark_reconciling jid t = t" if "sj_status existing = ReconciliationPending"
    using store_coreD(10) [OF core, of jid] Some that store_coreD(4) [OF core]
    by (cases "bt_get (js_reconciling t) jid") (auto simp: mark_reconciling_def is_reconciling_def bt_insert_same)
  then show ?thesis
    unfolding complete_with_error_info_def
    using Some assms(1)
    by (intro keeps_store_read)
       (auto simp: same_outcome_def proper_error_def jobs_kept_refl
             intro!: keeps_store_modify keeps_store_ok keeps_store_err)
next
  case none: None
  show ?thesis
  proof (cases "bt_get (js_active t) jid")
    case None
    then show ?thesis
      unfolding complete_with_error_info_def using none assms(1)
      by (intro keeps_store_read) (simp add: keeps_store_err proper_error_def jobs_kept_refl)
  next
    case (Some active)
    let ?job = "terminal_record active (js_ttl_seconds t) status result artifacts receipt err err_info now"
    let ?f = "\<lambda>len. (if sj_status ?job = ReconciliationPending then mark_reconciling (sj_id ?job) else id) \<circ> insert_record ?job \<circ>
      account (sj_id ?job) len \<circ> (\<lambda>s. s\<lparr>js_active := bt_remove jid (js_active s)\<rparr>)"
    have aid: "aj_id active = jid" using assms(1) store_coreD(7) [of exact t jid active] Some by (simp add: store_wf_def)
    then have id: "sj_id ?job = jid" by simp
    have put: "?f len s = put_record ?job len s" if s: "store_wf exact s" "evicted (other (Some jid)) t s" for s len
      by (rule complete_put [OF assms(1) Some id s])
    have kept: "jobs_kept F A t (put_record ?job len s)" if "evicted (other (Some jid)) t s" for s len
      using that none id assms(2) by (intro jobs_kept_put [OF assms(1)]) auto
    show ?thesis
      unfolding complete_with_error_info_def
    proof (rule keeps_store_read, simp only: none Some option.case Let_def st_modify_modify o_assoc,
        rule keeps_store_bind [OF keeps_store_fs [OF fs_seal_job assms(1) jobs_kept_refl]], goal_cases)
      case (1 sealed s0)
      show ?case
        by (rule write_keeps [where f = ?f, OF assms(1) id put kept \<open>store_wf exact s0\<close> fs_op_mem [OF fs_seal_job 1(1)]])
    qed
  qed
qed

lemma replace_put:
  assumes "bt_get (js_records t) jid = Some old" "sj_status old = ReconciliationPending" "sj_id job = jid"
    "unmark = (if sj_status job = ReconciliationPending then id else unmark_reconciling jid)"
    "store_wf exact s" "evicted (other (Some jid)) t s"
  shows "(insert_record job \<circ> unmark \<circ> account (sj_id job) len) s = put_record job len s"
proof -
  have core: "store_core exact s" using assms(5) by (simp add: store_wf_def)
  have rec: "bt_get (js_records s) jid = Some old" using evicted_pending [OF assms(6, 1, 2)] .
  have "bt_remove jid (js_active s) = js_active s"
    using store_coreD(6) [OF core rec] by (rule bt_remove_absent)
  moreover have "bt_insert jid () (js_reconciling s) = js_reconciling s"
    using store_coreD(4) [OF core] store_coreD(10) [OF core, of jid] rec assms(2)
    by (intro bt_insert_same) (auto simp: is_reconciling_def)
  ultimately show ?thesis
    by (simp add: put_record_def assms(3, 4) unmark_reconciling_def insert_record_def)
qed

lemma replace_record_keeps:
  assumes "store_wf exact t" "bt_get (js_records t) jid = Some old" "sj_status old = ReconciliationPending" "sj_id job = jid"
    and unmark: "unmark = (if sj_status job = ReconciliationPending then id else unmark_reconciling jid)"
    and kept: "jid \<in> F \<or> sj_status job = ReconciliationPending \<and> same_request job old"
  shows "keeps_store exact F A t t (replace_record env jid job unmark)"
proof -
  let ?f = "\<lambda>len. insert_record job \<circ> unmark \<circ> account (sj_id job) len"
  have core: "store_core exact t" using assms(1) by (simp add: store_wf_def)
  have put: "?f len s = put_record job len s" if s: "store_wf exact s" "evicted (other (Some jid)) t s" for s len
    by (rule replace_put [OF assms(2-4) unmark s])
  have kept': "jobs_kept F A t (put_record job len s)" if "evicted (other (Some jid)) t s" for s len
    using that kept assms(2, 4) store_coreD(6) [OF core assms(2)] by (intro jobs_kept_put [OF assms(1)]) auto
  show ?thesis
    unfolding replace_record_def persist_replace_def
  proof (rule keeps_store_read, simp only: st_modify_modify o_assoc,
      rule keeps_store_bind [OF keeps_store_fs [OF fs_seal_job assms(1) jobs_kept_refl]], goal_cases)
    case (1 sealed s0)
    show ?case
      by (rule write_keeps [where f = ?f and replace = "\<lambda>_. True", unfolded st_read_const,
            OF assms(1, 4) put kept' \<open>store_wf exact s0\<close> fs_op_mem [OF fs_seal_job 1(1)]])
  qed
qed

lemma finish_reconciliation_keeps:
  assumes "store_wf exact t" "jid \<in> F"
  shows "keeps_store exact F A t t (finish_reconciliation env jid status err now)"
proof (cases "status = ReconciliationPending")
  case True
  then show ?thesis
    by (simp add: finish_reconciliation_def keeps_store_err proper_error_def assms(1) jobs_kept_refl)
next
  case fin: False
  have core: "store_core exact t" using assms(1) by (simp add: store_wf_def)
  show ?thesis
  proof (cases "bt_get (js_records t) jid")
    case None
    then show ?thesis
      using fin by (simp add: finish_reconciliation_def keeps_store_read keeps_store_err proper_error_def assms(1) jobs_kept_refl)
  next
    case (Some existing)
    have "unmark_reconciling jid t = t" if "sj_status existing = status"
      using store_coreD(10) [OF core, of jid] Some that fin
      by (cases "bt_get (js_reconciling t) jid") (auto simp: unmark_reconciling_def is_reconciling_def bt_remove_absent)
    moreover have "keeps_store exact F A t t (replace_record env jid
         (existing\<lparr>sj_status := status, sj_finished_at := now, sj_expires_at := sat_add now (js_ttl_seconds t), sj_error := err\<rparr>)
         (unmark_reconciling jid))" if "sj_status existing = ReconciliationPending"
      using store_coreD(5) [OF core Some] assms(2) fin by (intro replace_record_keeps [OF assms(1) Some that]) simp_all
    ultimately show ?thesis
      using fin Some assms(1)
      by (auto simp: finish_reconciliation_def proper_error_def jobs_kept_refl
               intro!: keeps_store_read keeps_store_modify keeps_store_ok keeps_store_err)
  qed
qed

lemma update_reconciliation_receipt_keeps:
  assumes "store_wf exact t"
  shows "keeps_store exact F A t t (update_reconciliation_receipt env jid receipt now)"
proof (cases "bt_get (js_records t) jid")
  case None
  then show ?thesis
    by (simp add: update_reconciliation_receipt_def keeps_store_read keeps_store_err proper_error_def assms jobs_kept_refl)
next
  case (Some existing)
  have core: "store_core exact t" using assms by (simp add: store_wf_def)
  have "keeps_store exact F A t t (replace_record env jid (existing\<lparr>sj_receipt := Some receipt, sj_finished_at := now\<rparr>) id)"
    if "sj_status existing = ReconciliationPending"
    using store_coreD(5) [OF core Some] that by (intro replace_record_keeps [OF assms Some that]) (simp_all add: same_request_def)
  then show ?thesis
    using Some assms
    by (auto simp: update_reconciliation_receipt_def proper_error_def jobs_kept_refl
             intro!: keeps_store_read keeps_store_ok keeps_store_err)
qed

lemma purge_then_keeps:
  assumes "store_wf exact t" "\<And>s. store_wf exact s \<Longrightarrow> jobs_kept F A t s \<Longrightarrow> keeps_store exact F A t s (f s)"
  shows "keeps_store exact F A t t (st_bind (purge_expired env now) (\<lambda>_. st_read f))"
  using assms by (intro keeps_store_bind [OF keeps_store_purge] keeps_store_read) (auto simp: jobs_kept_refl)

lemma remove_job_keeps:
  assumes "store_wf exact t"
  shows "keeps_store exact F A t t (remove_job env jid owner_token_id now)"
  unfolding remove_job_def
proof (rule purge_then_keeps [OF assms])
  fix s :: "'a job_vault"
  assume s: "store_wf exact s" "jobs_kept F A t s"
  have core: "store_core exact s" using s(1) by (simp add: store_wf_def)
  show "keeps_store exact F A t s (case bt_get (js_records s) jid of
       None \<Rightarrow> st_ok None
     | Some job \<Rightarrow>
         if sj_owner_token_id job \<noteq> owner_token_id then st_ok None
         else if is_reconciling s jid then st_err (RemovalWhilePending jid)
         else
           st_bind (st_modify (\<lambda>s. s\<lparr>js_records := bt_remove jid (js_records s)\<rparr>)) (\<lambda>_.
           st_bind (remove_sealed_record env jid) (\<lambda>_.
           st_ok (Some job))))"
  proof (cases "bt_get (js_records s) jid")
    case None
    then show ?thesis using s by (simp add: keeps_store_ok)
  next
    case (Some job)
    have "keeps_store exact F A t (s\<lparr>js_records := bt_remove jid (js_records s)\<rparr>) (remove_sealed_record env jid)"
      if "\<not> is_reconciling s jid"
    proof -
      have job: "sj_status job \<noteq> ReconciliationPending" using store_coreD(10) [OF core, of jid] Some that by auto
      have wf: "store_wf exact (drop_record jid s)" "evicted (other None) s (drop_record jid s)"
        using evicted_wf [OF s(1) drop_record_core [OF core Some job]]
          evicted_drop_record(1) [OF core evicted_refl Some job, of "other None"] by (simp_all add: other_def)
      then have "jobs_kept F A t (drop_record jid s)"
        using jobs_kept_trans [OF s(2) jobs_kept_evicted] by blast
      then have "triple (\<lambda>s'. s' = s\<lparr>js_records := bt_remove jid (js_records s)\<rparr>) (remove_sealed_record env jid)
          (\<lambda>_ s'. store_wf exact (mem s') \<and> jobs_kept F A t (mem s')) (\<lambda>e s'. proper_error e \<and> store_wf exact (mem s') \<and> jobs_kept F A t (mem s'))"
        using wf by (intro remove_sealed_record_mem [where Q = "\<lambda>m. store_wf exact m \<and> jobs_kept F A t m"]) (simp add: drop_record_def)
      then show ?thesis by (rule keeps_storeI) auto
    qed
    then show ?thesis
      using s Some by (auto simp: proper_error_def intro!: keeps_store_ok keeps_store_err keeps_store_modify keeps_store_bind)
  qed
qed

text \<open>The methods of the store as commands.\<close>

datatype 'n job_command =
  BeginJob string string string "string option" string u64
| ProtectActive string u64
| UpdateActiveReceipt string "'n json" u64
| CompleteJob string gateway_job_status "'n json option" "gateway_job_artifact list" "'n json option" "string option"
    "gateway_job_error_info option" u64
| FinishReconciliation string gateway_job_status "string option" u64
| UpdateReconciliationReceipt string "'n json" u64
| GetJob string u64
| LookupJob string u64
| PendingReconciliations u64
| ListSummaries "string option" u64
| ListEntries "string option" u64
| RemoveJob string "string option" u64

definition without_value :: "('n, 'a) vault_op \<Rightarrow> ('n, unit) vault_op" where
  "without_value m = st_bind m (\<lambda>_. st_ok ())"

fun run_command :: "'n job_env \<Rightarrow> 'n job_command \<Rightarrow> ('n, unit) vault_op" where
  "run_command env (BeginJob jid f m ow r now) = without_value (begin_job env jid f m ow r now)"
| "run_command env (ProtectActive jid now) = protect_active env jid now"
| "run_command env (UpdateActiveReceipt jid receipt now) = update_active_receipt env jid receipt now"
| "run_command env (CompleteJob jid status result artifacts receipt err err_info now) =
     without_value (complete_with_error_info env jid status result artifacts receipt err err_info now)"
| "run_command env (FinishReconciliation jid status err now) = without_value (finish_reconciliation env jid status err now)"
| "run_command env (UpdateReconciliationReceipt jid receipt now) =
     without_value (update_reconciliation_receipt env jid receipt now)"
| "run_command env (GetJob jid now) = without_value (get_job env jid now)"
| "run_command env (LookupJob jid now) = without_value (lookup_job env jid now)"
| "run_command env (PendingReconciliations now) = without_value (pending_reconciliations env now)"
| "run_command env (ListSummaries ow now) = without_value (list_summaries_for_owner env ow now)"
| "run_command env (ListEntries ow now) = without_value (list_entries_for_owner env ow now)"
| "run_command env (RemoveJob jid ow now) = without_value (remove_job env jid ow now)"

definition job_step :: "'n job_env \<Rightarrow> 'n job_command \<Rightarrow> 'n job_vault \<Rightarrow> 'n job_vault" where
  "job_step env cmd s = snd (run_command env cmd s)"

fun completes :: "'n job_command \<Rightarrow> string set" where
  "completes (CompleteJob jid status result artifacts receipt err err_info now) = {jid}"
| "completes _ = {}"

fun finishes :: "'n job_command \<Rightarrow> string set" where
  "finishes (FinishReconciliation jid status err now) = {jid}"
| "finishes _ = {}"

lemma keeps_without_value: "keeps_store exact F A t t m \<Longrightarrow> keeps_store exact F A t t (without_value m)"
  unfolding without_value_def by (rule keeps_store_bind) (auto intro: keeps_store_ok)

lemma run_command_keeps:
  "store_wf exact t \<Longrightarrow> finishes cmd \<subseteq> F \<Longrightarrow> completes cmd \<subseteq> A \<Longrightarrow> keeps_store exact F A t t (run_command env cmd)"
  by (cases cmd)
     (simp_all add: keeps_without_value begin_job_keeps protect_active_keeps update_active_receipt_keeps complete_keeps
        finish_reconciliation_keeps update_reconciliation_receipt_keeps remove_job_keeps purge_then_keeps keeps_store_ok
        get_job_def lookup_job_def pending_reconciliations_def list_summaries_for_owner_def list_entries_for_owner_def)

lemma job_step_wf: "store_wf exact s \<Longrightarrow> store_wf exact (job_step env cmd s)"
  using run_command_keeps [of exact s cmd "finishes cmd" "completes cmd" env] by (simp add: keeps_store_def job_step_def)


lemma run_command_proper: "store_wf exact s \<Longrightarrow> fst (run_command env cmd s) = Inl e \<Longrightarrow> proper_error e"
  using run_command_keeps [of exact s cmd "finishes cmd" "completes cmd" env] by (simp add: keeps_store_def)

interpretation vault: machine "job_step env" "store_wf exact"
  by unfold_locales (rule job_step_wf)

lemma in_memory_wf: "max_bytes \<noteq> - 1 \<Longrightarrow> store_wf True (in_memory env wallet_seed max_jobs max_bytes ttl_seconds files calls)"
proof -
  assume "max_bytes \<noteq> - 1"
  then have "max max_bytes 1 \<noteq> - 1" by (simp add: max_def)
  moreover have "1 \<le> max max_jobs (1 :: u64)" by simp
  ultimately show ?thesis
    by (simp add: store_wf_def store_core_def in_memory_def stored_def active_recovery_def records_counted_for_job_limit_def)
qed

definition job_run :: "'n job_env \<Rightarrow> 'n job_command list \<Rightarrow> 'n job_vault \<Rightarrow> 'n job_vault" where
  "job_run env cmds s = fold (job_step env) cmds s"

lemma job_run_wf: "store_wf exact s \<Longrightarrow> store_wf exact (job_run env cmds s)"
  unfolding job_run_def by (rule vault.run_inv)

lemma job_run_kept:
  "store_wf exact s \<Longrightarrow> (\<Union>cmd \<in> set cmds. finishes cmd) \<subseteq> F \<Longrightarrow> (\<Union>cmd \<in> set cmds. completes cmd) \<subseteq> A \<Longrightarrow>
     jobs_kept F A s (job_run env cmds s)"
proof (induction cmds arbitrary: s)
  case Nil
  then show ?case by (simp add: job_run_def jobs_kept_refl)
next
  case (Cons cmd cmds)
  have "keeps_store exact F A s s (run_command env cmd)" using Cons.prems by (intro run_command_keeps) auto
  then have "jobs_kept F A s (job_step env cmd s)" by (simp add: keeps_store_def job_step_def)
  moreover have "jobs_kept F A (job_step env cmd s) (job_run env cmds (job_step env cmd s))"
    using Cons by (intro Cons.IH job_step_wf) auto
  ultimately show ?case using jobs_kept_trans by (fastforce simp: job_run_def)
qed

lemma job_run_config: "store_wf exact s \<Longrightarrow> same_config s (job_run env cmds s)"
  using job_run_kept [of exact s cmds UNIV UNIV env] by (simp add: jobs_kept_def)

lemma purged:
  assumes "store_wf exact s" "purge_expired env now s = (Inr u, s')"
  shows "store_wf exact s'" "evicted (expired_by now) s s'"
  using tripleD_Inr [OF purge_expired_spec [OF assms(1)] refl assms(2)] by blast+


lemma begin_running:
  assumes "store_wf exact s" "bt_get (js_active s) k = Some a"
  shows "fst (begin_job env k f m ow r now s) = Inr InProgress \<and>
       (aj_endpoint_family a, aj_model a, aj_owner_token_id a, aj_request_fingerprint a) = (f, m, ow, r) \<or>
     (\<exists>e. fst (begin_job env k f m ow r now s) = Inl e)"
proof (cases "purge_expired env now s")
  case (Pair p s')
  have "bt_get (js_records s') k = None \<and> bt_get (js_active s') k = Some a" if "p = Inr u" for u
  proof -
    have ev: "evicted (expired_by now) s s'" using purged(2) [OF assms(1)] Pair that by blast
    show ?thesis
      using evicted_stored [OF ev _ assms(2), of exact] evicted_fields(6) [OF ev] assms by (simp add: store_wf_def)
  qed
  then show ?thesis
    using Pair
    by (cases p) (auto simp: begin_job_def st_bind_def st_read_def st_lift_def st_ok_def validate_active_job_identity_def)
qed


section \<open>Opening a directory\<close>

text \<open>
  \<open>read_dir\<close> lists every entry of the directory once, in some order. While the directory is scanned, the
  store is well formed apart from its limits, nothing is running, and the records are those of the names
  in \<open>N\<close>, the ones read so far.
\<close>

definition lists_all :: "'n job_env \<Rightarrow> bool" where
  "lists_all env \<longleftrightarrow> (\<forall>ns. set (je_order env ns) = set ns \<and> (distinct ns \<longrightarrow> distinct (je_order env ns)))"

definition scanned :: "string set \<Rightarrow> ('n, 'z) gateway_job_store_scheme \<Rightarrow> bool" where
  "scanned N s \<longleftrightarrow>
     store_core False s \<and> js_active s = [] \<and> 1 \<le> js_max_jobs s \<and>
     (\<forall>k. bt_get (js_records s) k \<noteq> None \<longrightarrow> job_path k \<in> N)"

lemma scanned_mem [simp]: "scanned N (mem s) = scanned N s"
  by (simp add: scanned_def)

lemma split_extension_path:
  assumes "snd (split_extension name) = Some JOB_FILE_SUFFIX"
  shows "name = job_path (fst (split_extension name))"
proof -
  let ?after = "rev (takeWhile (\<lambda>c. c \<noteq> CHR ''.'') (rev name))" and ?rest = "dropWhile (\<lambda>c. c \<noteq> CHR ''.'') (rev name)"
  have name: "name = rev ?rest @ ?after" by (metis rev_append rev_rev_ident takeWhile_dropWhile_id)
  have "length ?after \<noteq> length name" using assms by (auto simp: split_extension_def Let_def split: if_splits)
  then have "?rest \<noteq> []" using name by (metis append_Nil rev.simps(1))
  then obtain rest where rest: "?rest = CHR ''.'' # rest" using hd_dropWhile [of "\<lambda>c. c \<noteq> CHR ''.''" "rev name"] by (cases ?rest) auto
  define after where "after = ?after"
  have whole: "name = rev rest @ ''.'' @ after" using name rest by (simp add: after_def)
  then have "take (length name - length after - 1) name = rev rest" by simp
  then have "fst (split_extension name) = rev rest" "after = JOB_FILE_SUFFIX"
    using assms unfolding split_extension_def after_def [symmetric] by (auto simp: Let_def split: if_splits)
  then show ?thesis using whole by (simp add: job_path_def)
qed

lemma load_record_scanned:
  assumes "scanned N s" "sj_id job = k" "bt_get (js_records s) k = None" "job_path k = name"
  shows "scanned (insert name N) (snd (load_record env k job sealed s))" "fst (load_record env k job sealed s) = Inr ()"
proof -
  have core: "store_core False s" using assms(1) by (simp add: scanned_def)
  note d = store_coreD [OF core]
  let ?s = "snd (load_record env k job sealed s)"
  have fields: "js_records ?s = bt_insert k job (js_records s)" "js_sealed_sizes ?s = bt_insert k (vec_len sealed) (js_sealed_sizes s)"
    "js_active ?s = js_active s" "js_max_jobs ?s = js_max_jobs s"
    "js_reconciling ?s = (if sj_status job = ReconciliationPending then bt_insert k () (js_reconciling s) else js_reconciling s)"
    by (simp_all add: load_record_def st_modify_def mark_reconciling_def)
  have act: "js_active s = []" using assms(1) by (simp add: scanned_def)
  have st: "stored ?s k' = (if k' = k then Some job else stored s k')" for k'
    by (simp add: stored_def active_recovery_def fields act btree_simps split: option.split)
  have "bt_get (js_reconciling s) k = None"
    using d(10) [of k] assms(3) by (cases "bt_get (js_reconciling s) k") (auto simp: is_reconciling_def)
  then have "store_core False ?s"
    using d(1-5) d(9) d(10) assms(2, 3) unfolding store_core_def is_reconciling_def
    by (auto simp: fields st act btree_simps)
  then show "scanned (insert name N) ?s"
    using assms(1, 4) by (auto simp: scanned_def fields btree_simps split: if_splits)
  show "fst (load_record env k job sealed s) = Inr ()" by (simp add: load_record_def st_modify_def)
qed

lemma proper_open_errors:
  "ensure b (NonUtf8Context jid) = Inl e \<Longrightarrow> proper_error e" "ensure b (NonUtf8Filename jid) = Inl e \<Longrightarrow> proper_error e"
  "ok_or x (Authenticating jid) = Inl e \<Longrightarrow> proper_error e" "map_sum (Decoding jid) id r = Inl e \<Longrightarrow> proper_error e"
  "proper_error (InvalidHeader jid)" "proper_error (InvalidContext jid)" "proper_error (InvalidIdentityOrSchema jid)"
  by (auto simp: proper_error_def ensure_def ok_or_def map_sum_def split: if_splits option.splits sum.splits)

lemma open_job_proper: "open_job env key jid sealed = Inl e \<Longrightarrow> proper_error e"
  unfolding open_job_def Let_def
  by (auto simp: rbind_Inl_iff proper_open_errors(5, 6) dest: proper_open_errors(1-4) proper_errors(2, 4) split: if_splits)

lemma scanned_fs:
  "fs_op m \<Longrightarrow> triple (scanned N) m (\<lambda>_. scanned N) (\<lambda>e _. proper_error e)"
  by (rule triple_conseq [OF fs_op_triple [where Q = "scanned N"]]) auto

lemma load_record_triple:
  assumes "sj_id job = k" "job_path k = name" "name \<notin> N"
  shows "triple (scanned N) (load_record env k job sealed) (\<lambda>_. scanned (insert name N)) (\<lambda>e _. proper_error e)"
proof (rule tripleI)
  fix s e s' assume "load_record env k job sealed s = (Inl e, s')"
  then show "proper_error e" by (simp add: load_record_def st_modify_def)
next
  fix s x s' assume s: "scanned N s" "load_record env k job sealed s = (Inr x, s')"
  have "bt_get (js_records s) k = None" using s(1) assms(2, 3) by (auto simp: scanned_def)
  then show "scanned (insert name N) s'" using load_record_scanned(1) [OF s(1) assms(1) _ assms(2)] s(2) by (metis snd_conv)
qed

lemma load_entry_scanned:
  assumes "name \<notin> N"
  shows "triple (scanned N) (load_entry env name) (\<lambda>_. scanned (insert name N)) (\<lambda>e _. proper_error e)"
  unfolding load_entry_def
proof (rule triple_bind [OF scanned_fs [OF fs_os_call]], rule triple_if)
  show "triple (scanned N) (st_ok ()) (\<lambda>_. scanned (insert name N)) (\<lambda>e _. proper_error e)"
    by (rule triple_ok) (auto simp: scanned_def)
  assume "\<not> snd (split_extension name) \<noteq> Some JOB_FILE_SUFFIX"
  then have path: "job_path (fst (split_extension name)) = name" using split_extension_path [of name] by simp
  let ?k = "fst (split_extension name)"
  have tail: "triple (scanned N)
      (if sj_schema_version job \<noteq> JOB_SCHEMA_VERSION \<or> sj_id job \<noteq> ?k then st_err (InvalidIdentityOrSchema ?k)
       else if interrupted_checkpoint job then
         let job = job\<lparr>sj_status := ReconciliationPending\<rparr> in
         st_bind (seal_job env key job) (\<lambda>repaired.
         st_bind (persist_replace env ?k repaired) (\<lambda>_.
         load_record env ?k job repaired))
       else load_record env ?k job sealed) (\<lambda>_. scanned (insert name N)) (\<lambda>e _. proper_error e)" for job key sealed
    unfolding Let_def
    by (intro triple_if triple_err triple_bind [OF scanned_fs [OF fs_seal_job] triple_bind [OF scanned_fs [OF fs_persist_replace]]]
          load_record_triple path assms) (simp_all add: proper_error_def)
  show "triple (scanned N)
     (st_bind (read_file env name) (\<lambda>sealed.
       let jid = ?k in
       st_bind (st_lift (ensure (utf8_valid (as_bytes jid)) (NonUtf8Filename name))) (\<lambda>_.
       st_bind (st_lift (validate_job_id jid)) (\<lambda>_.
       st_read (\<lambda>s. st_bind (st_lift (open_job env (js_key s) jid sealed)) (\<lambda>job.
       if sj_schema_version job \<noteq> JOB_SCHEMA_VERSION \<or> sj_id job \<noteq> jid then st_err (InvalidIdentityOrSchema jid)
       else if interrupted_checkpoint job then
         let job = job\<lparr>sj_status := ReconciliationPending\<rparr> in
         st_bind (seal_job env (js_key s) job) (\<lambda>repaired.
         st_bind (persist_replace env jid repaired) (\<lambda>_.
         load_record env jid job repaired))
       else load_record env jid job sealed)))))) (\<lambda>_. scanned (insert name N)) (\<lambda>e _. proper_error e)"
    unfolding Let_def [of ?k]
  proof (intro triple_bind [OF scanned_fs [OF fs_read_file]] triple_bind [OF scanned_fs [OF fs_op_lift]] triple_read)
    fix sealed and s :: "'a job_vault"
    assume "scanned N s"
    then show "triple (\<lambda>s'. s' = s) (st_bind (st_lift (open_job env (js_key s) ?k sealed)) (\<lambda>job.
       if sj_schema_version job \<noteq> JOB_SCHEMA_VERSION \<or> sj_id job \<noteq> ?k then st_err (InvalidIdentityOrSchema ?k)
       else if interrupted_checkpoint job then
         let job = job\<lparr>sj_status := ReconciliationPending\<rparr> in
         st_bind (seal_job env (js_key s) job) (\<lambda>repaired.
         st_bind (persist_replace env ?k repaired) (\<lambda>_.
         load_record env ?k job repaired))
       else load_record env ?k job sealed)) (\<lambda>_. scanned (insert name N)) (\<lambda>e _. proper_error e)"
      by (intro triple_bind [OF triple_lift tail]) (auto intro: open_job_proper)
  qed (auto intro: proper_errors proper_open_errors)
qed

lemma load_for_scanned:
  assumes "distinct names" "set names \<inter> N = {}"
  shows "triple (scanned N) (st_for names (load_entry env)) (\<lambda>_. scanned (N \<union> set names)) (\<lambda>e _. proper_error e)"
  using assms
proof (induction names arbitrary: N)
  case Nil
  then show ?case by (simp add: triple_ok)
next
  case (Cons name names)
  have "triple (scanned (insert name N)) (st_for names (load_entry env)) (\<lambda>_. scanned (insert name N \<union> set names)) (\<lambda>e _. proper_error e)"
    using Cons.prems by (intro Cons.IH) auto
  then show ?case using Cons.prems by (auto intro: triple_bind [OF load_entry_scanned])
qed

lemma purge_core:
  assumes "store_core exact t"
  shows "triple (\<lambda>s. s = t) (purge_expired env now)
     (\<lambda>_ s. store_core exact s \<and> evicted (expired_by now) t s) (\<lambda>e _. proper_error e)"
proof -
  let ?ids = "map sj_id (filter (\<lambda>job. sj_status job \<noteq> ReconciliationPending \<and> sj_expires_at job \<le> now) (map snd (js_records t)))"
  have "triple (\<lambda>s. s = t) (st_for ?ids (purge_one env))
     (\<lambda>_ s. store_core exact s \<and> evicted (expired_by now) t s) (\<lambda>e _. proper_error e)"
    by (rule triple_conseq [OF purge_for_spec [where exact = exact and t = t and ids = ?ids and now = now]])
       (use assms due_expired [OF assms, of now] in \<open>auto simp: evicted_refl\<close>)
  then show ?thesis unfolding purge_expired_def triple_def st_read_def by simp
qed

lemma enforce_core:
  assumes "store_core exact t"
  shows "triple (\<lambda>s. s = t) (enforce_bounds env p)
     (\<lambda>_ s. store_core exact s \<and> evicted (other p) t s \<and> \<not> over_bounds s) (\<lambda>e s. evicted (other p) t s \<and> proper_error e)"
proof -
  have "triple (\<lambda>s. s = t) (evict_while env over_bounds p (\<lambda>_. CannotSatisfyBounds) (Suc (length (js_records t))))
     (\<lambda>_ s. store_core exact s \<and> evicted (other p) t s \<and> \<not> over_bounds s) (\<lambda>e s. evicted (other p) t s \<and> proper_error e)"
    by (rule triple_conseq [OF evict_while_spec [where exact = exact and t = t]])
       (use assms in \<open>auto simp: proper_error_def evicted_refl\<close>)
  then show ?thesis unfolding enforce_bounds_def triple_def st_read_def by simp
qed

lemma limits_met:
  assumes "scanned N s" "evicted D s t" "store_core False t" "\<not> over_bounds t"
  shows "store_wf False t" "js_active t = []"
  using assms(1, 3, 4) evicted_fields [OF assms(2)] by (auto simp: store_wf_def scanned_def over_bounds_def not_less)

text \<open>The store that \<open>GatewayJobStore::durable\<close> builds before it reads the directory.\<close>

lemma load_spec:
  assumes "lists_all env" "distinct (map fst files)"
  shows "triple (\<lambda>s. scanned {} s \<and> jw_files s = files \<and> js_directory s \<noteq> None) (load env now)
     (\<lambda>_ s. store_wf False s \<and> js_active s = []) (\<lambda>e _. proper_error e)"
  unfolding load_def
proof (rule triple_read)
  fix s :: "'a job_vault"
  assume s: "scanned {} s \<and> jw_files s = files \<and> js_directory s \<noteq> None"
  have "distinct (je_order env (map fst files))" using assms by (simp add: lists_all_def)
  then have scan: "triple (scanned {}) (st_for (je_order env (map fst files)) (load_entry env))
      (\<lambda>_. scanned (set (je_order env (map fst files)))) (\<lambda>e _. proper_error e)"
    using load_for_scanned [of "je_order env (map fst files)" "{}" env] by simp
  have rest: "triple (scanned N) (st_bind (purge_expired env now) (\<lambda>_. enforce_bounds env None))
      (\<lambda>_ s. store_wf False s \<and> js_active s = []) (\<lambda>e _. proper_error e)" for N
  proof (rule triple_each)
    fix t :: "'a job_vault"
    assume t: "scanned N t"
    then have core: "store_core False t" by (simp add: scanned_def)
    have "triple (\<lambda>s. store_core False s \<and> evicted (expired_by now) t s) (enforce_bounds env None)
        (\<lambda>_ s. store_wf False s \<and> js_active s = []) (\<lambda>e _. proper_error e)"
    proof (rule triple_each)
      fix s :: "'a job_vault"
      assume s: "store_core False s \<and> evicted (expired_by now) t s"
      show "triple (\<lambda>s'. s' = s) (enforce_bounds env None) (\<lambda>_ s. store_wf False s \<and> js_active s = []) (\<lambda>e _. proper_error e)"
        by (rule triple_conseq [OF enforce_core [OF conjunct1 [OF s]]])
           (use limits_met [OF t evicted_trans [OF conjunct2 [OF s]]] in auto)
    qed
    then show "triple (\<lambda>s. s = t) (st_bind (purge_expired env now) (\<lambda>_. enforce_bounds env None))
        (\<lambda>_ s. store_wf False s \<and> js_active s = []) (\<lambda>e _. proper_error e)"
      by (rule triple_bind [OF purge_core [OF core]])
  qed
  have "triple (scanned {}) (st_bind (os_call env ''reading gateway job vault'') (\<lambda>_.
         st_bind (st_for (je_order env (map fst files)) (load_entry env)) (\<lambda>_.
         st_bind (purge_expired env now) (\<lambda>_. enforce_bounds env None))))
       (\<lambda>_ s. store_wf False s \<and> js_active s = []) (\<lambda>e _. proper_error e)"
    by (rule triple_bind [OF scanned_fs [OF fs_os_call] triple_bind [OF scan rest]])
  then show "triple (\<lambda>s'. s' = s) (case js_directory s of
       None \<Rightarrow> st_ok ()
     | Some _ \<Rightarrow>
         st_bind (os_call env ''reading gateway job vault'') (\<lambda>_.
         st_bind (st_for (je_order env (map fst (jw_files s))) (load_entry env)) (\<lambda>_.
         st_bind (purge_expired env now) (\<lambda>_.
         enforce_bounds env None)))) (\<lambda>_ s. store_wf False s \<and> js_active s = []) (\<lambda>e _. proper_error e)"
    using s by (auto intro: triple_pre)
qed

text \<open>A store as the two constructors of the code return it, with any directory and with failing calls.\<close>

inductive opened :: "'n job_env \<Rightarrow> 'n job_vault \<Rightarrow> bool" for env where
  without_directory: "opened env (in_memory env wallet_seed max_jobs max_bytes ttl_seconds files calls)"
| with_directory: "lists_all env \<Longrightarrow> bt_wf files \<Longrightarrow>
    durable env wallet_seed directory max_jobs max_bytes ttl_seconds now files calls = (Inr (), s) \<Longrightarrow> opened env s"

lemma fresh_core: "store_core exact ((in_memory env wallet_seed max_jobs max_bytes ttl_seconds files calls)\<lparr>js_directory := d\<rparr>)"
  by (simp add: store_core_def in_memory_def stored_def active_recovery_def)

lemma in_memory_limits: "store_wf False (in_memory env wallet_seed max_jobs max_bytes ttl_seconds files calls)"
  by (simp add: store_wf_def store_core_def in_memory_def stored_def active_recovery_def records_counted_for_job_limit_def)

lemma durable_spec:
  assumes "lists_all env" "bt_wf files"
  shows "fst (durable env wallet_seed directory max_jobs max_bytes ttl_seconds now files calls) = Inl e \<Longrightarrow> proper_error e"
    "durable env wallet_seed directory max_jobs max_bytes ttl_seconds now files calls = (Inr (), s) \<Longrightarrow> store_wf False s \<and> js_active s = []"
proof -
  let ?s = "(in_memory env wallet_seed max_jobs max_bytes ttl_seconds files calls)\<lparr>js_directory := Some directory\<rparr>"
  let ?P = "\<lambda>s. scanned {} s \<and> jw_files s = files \<and> js_directory s \<noteq> None"
  have start: "?P ?s" using fresh_core [where exact = False and d = "Some directory"]
    by (simp add: scanned_def in_memory_def)
  have call: "triple ?P (os_call env what) (\<lambda>_. ?P) (\<lambda>e _. proper_error e)" for what
  proof (rule tripleI)
    fix s e s' assume "os_call env what s = (Inl e, s')"
    then show "proper_error e" using fs_os_call [of env what] unfolding fs_op_def by (metis fst_conv)
  next
    fix s x s' assume s: "?P s" "os_call env what s = (Inr x, s')"
    then have "s' = s\<lparr>jw_calls := Suc (jw_calls s)\<rparr>" by (simp add: os_call_def)
    then show "?P s'" using s(1) scanned_mem [of "{}" s'] scanned_mem [of "{}" s] by simp
  qed
  have all: "triple ?P (st_bind (create_private_directory env) (\<lambda>_. load env now))
      (\<lambda>_ s. store_wf False s \<and> js_active s = []) (\<lambda>e _. proper_error e)"
    unfolding create_private_directory_def
    by (intro triple_bind [OF triple_bind [OF call call] load_spec] assms(1) bt_wf_distinct assms(2))
  show "fst (durable env wallet_seed directory max_jobs max_bytes ttl_seconds now files calls) = Inl e \<Longrightarrow> proper_error e"
    unfolding durable_def using tripleD_Inl [OF all start] by (metis prod.collapse)
  show "durable env wallet_seed directory max_jobs max_bytes ttl_seconds now files calls = (Inr (), s) \<Longrightarrow> store_wf False s \<and> js_active s = []"
    unfolding durable_def using tripleD_Inr [OF all start] by metis
qed

lemma opened_wf: "opened env s \<Longrightarrow> store_wf False s"
  by (induction rule: opened.induct) (simp_all add: in_memory_limits durable_spec(2))

text \<open>The byte count is exact and its limit is below the value at which it saturates.\<close>

definition counted :: "('n, 'z) gateway_job_store_scheme \<Rightarrow> bool" where
  "counted s \<longleftrightarrow> js_max_bytes s \<noteq> - 1 \<and> unat (js_total_bytes s) = bt_sum unat (js_sealed_sizes s)"

lemma opened_counted: "opened env s \<Longrightarrow> store_wf (counted s) s"
  using opened_wf [of env s] by (simp add: store_wf_def store_core_def counted_def)

lemma in_memory_counted: "max_bytes \<noteq> - 1 \<Longrightarrow> counted (in_memory env wallet_seed max_jobs max_bytes ttl_seconds files calls)"
  by (simp add: counted_def in_memory_def max_def)

lemma begin_started_room:
  assumes "store_wf exact s" "begin_job env k f m ow r now s = (Inr Started, s')"
  shows "records_counted_for_job_limit s' + length (js_active s') \<le> unat (js_max_jobs s')"
proof -
  from assms(2) obtain u s1 u' s2 a where s1: "purge_expired env now s = (Inr u, s1)" "bt_get (js_active s1) k = None"
    and s2: "make_room_for_job env s1 = (Inr u', s2)" and s': "s' = s2\<lparr>js_active := bt_insert k a (js_active s2)\<rparr>"
    by (auto simp: begin_job_def st_Inr_simps split: option.splits)
  note r = job_room [OF purged(1) [OF assms(1) s1(1)] s2]
  have "bt_get (js_active s2) k = None" using s1(2) evicted_fields(6) [OF r(2)] by simp
  then have "length (bt_insert k a (js_active s2)) = Suc (length (js_active s2))"
    using length_bt_insert [OF store_coreD(3), of exact s2 k a] r(1) by (simp add: store_wf_def)
  moreover have "records_counted_for_job_limit s2 + length (js_active s2) < unat (js_max_jobs s2)"
    using r(3) unat_lt_pow [of "js_max_jobs s2"] by (auto simp: jobs_full_def not_le min_def split: if_splits)
  moreover have "records_counted_for_job_limit s' = records_counted_for_job_limit s2"
    by (simp add: s' records_counted_for_job_limit_def is_reconciling_def)
  ultimately show ?thesis by (simp add: s')
qed

section \<open>What becomes of a started request\<close>


definition requested :: "'n stored_gateway_job \<Rightarrow> string \<times> string \<times> string option \<times> string" where
  "requested job = (sj_endpoint_family job, sj_model job, sj_owner_token_id job, sj_request_fingerprint job)"

definition running :: "'n active_gateway_job \<Rightarrow> string \<times> string \<times> string option \<times> string" where
  "running a = (aj_endpoint_family a, aj_model a, aj_owner_token_id a, aj_request_fingerprint a)"



lemma terminal_record_requested [simp]:
  "requested (terminal_record a ttl status result artifacts receipt err err_info now) = running a"
  by (auto simp: terminal_record_def requested_def running_def Let_def split: option.split)











section \<open>A small store\<close>

text \<open>A concrete environment without failures, for the witnesses.\<close>

definition plain_env :: "nat job_env" where
  "plain_env =
     \<lparr>je_keyed_hash = \<lambda>k m. replicate 32 0, je_hex = \<lambda>_. ''00'', je_encrypt = \<lambda>k n m a. Some (m @ [0]),
      je_decrypt = \<lambda>k n c a. Some (butlast c), je_to_vec = \<lambda>_. Inr [1], je_from_slice = \<lambda>_. Inl ''unsupported'', je_exact = \<lambda>_. True,
      je_getrandom = \<lambda>i n. Inr (replicate n 7), je_fails = \<lambda>_. None, je_partial = \<lambda>_. 0, je_order = \<lambda>ns. ns\<rparr>"

definition plain_store :: "nat job_vault" where
  "plain_store = in_memory plain_env [] 2 1000 60 [] 0"

lemmas vault_eval = Let_def sat_add_def sat_sub_def st_bind_def st_read_def st_ok_def st_err_def st_lift_def st_modify_def st_on_error_def
  begin_job_def purge_expired_def make_room_for_job_def evict_while.simps jobs_full_def records_counted_for_job_limit_def
  complete_with_error_info_def seal_job_def getrandom_def plain_env_def plain_store_def in_memory_def terminal_record_def
  persist_def validate_key_context_def job_key_context_def is_ascii_graphic_def byte_of_def derive_job_record_key_def
  account_def insert_record_def mark_reconciling_def enforce_bounds_def over_bounds_def make_room_for_bytes_def bytes_over_def
  sealed_size_def check_sealed_len_def vec_len_def is_reconciling_def u16_to_be_bytes_def as_bytes_def job_aad_def
  JOB_FILE_MAGIC_def JOB_NONCE_BYTES_def JOB_MAX_KEY_CONTEXT_BYTES_def JOB_RECORD_KEY_DOMAIN_def without_value_def job_step_def job_run_def

text \<open>The same environment with one failing call, on an empty directory.\<close>

definition faulty_env :: "nat job_env" where
  "faulty_env = plain_env\<lparr>je_fails := \<lambda>n. if n = 14 then Some ''EIO'' else None\<rparr>"

definition faulty_store :: "nat job_vault" where
  "faulty_store = (in_memory faulty_env [] 2 1000 60 [] 3)\<lparr>js_directory := Some ''vault''\<rparr>"

lemmas directory_eval = create_private_directory_def load_def os_call_def validate_job_id_def path_exists_def create_new_def
  temporary_path_def set_file_def publish_def write_all_def rename_file_def sync_directory_def unlink_def job_path_def
  JOB_FILE_SUFFIX_def is_ascii_alphanumeric_def is_ascii_digit_def

lemma faulty_opened: "opened faulty_env faulty_store"
proof (rule with_directory)
  show "lists_all faulty_env" by (simp add: lists_all_def faulty_env_def plain_env_def)
  show "bt_wf ([] :: (string, u8 list) btree)" by simp
  show "durable faulty_env [] ''vault'' 2 1000 60 0 [] 0 = (Inr (), faulty_store)"
    by (simp add: durable_def faulty_store_def faulty_env_def vault_eval directory_eval)
qed




section \<open>Properties\<close>

text \<open>
  C16. Every store that one of the constructors returned, with or without a directory, is well formed after
  any sequence of method calls, whichever system calls fail and whichever of the methods fail with them: a
  job has a record or is running but not both, every key is the identifier of its job, a sealed size is
  kept exactly for the jobs that have a record or a recovery record, the byte count is at most
  \<open>max_bytes\<close>, the jobs marked as reconciling are those whose record is pending, the finished records are at
  most \<open>max_jobs\<close> and so are the running jobs. The byte count is the exact sum of the sizes if it was when the
  store was opened and \<open>max_bytes\<close> is below \<open>u64::MAX\<close>. A new request is started only where it leaves the
  finished records and the running jobs together within \<open>max_jobs\<close>.
\<close>

theorem job_store_invariant:
  assumes "opened env s"
  shows "store_wf (counted s) (job_run env cmds s) \<and>
    (case begin_job env k f m ow r now (job_run env cmds s) of
       (Inr Started, s') \<Rightarrow> records_counted_for_job_limit s' + length (js_active s') \<le> unat (js_max_jobs s')
     | _ \<Rightarrow> True)"
proof
  show wf: "store_wf (counted s) (job_run env cmds s)" by (intro job_run_wf opened_counted [OF assms])
  show "case begin_job env k f m ow r now (job_run env cmds s) of
       (Inr Started, s') \<Rightarrow> records_counted_for_job_limit s' + length (js_active s') \<le> unat (js_max_jobs s')
     | _ \<Rightarrow> True"
    using begin_started_room [OF wf]
    by (auto split: prod.split sum.split begin_gateway_job.split)
qed

theorem job_store_invariant_witness:
  "store_wf (counted faulty_store) (job_run faulty_env
     [BeginJob ''job_1'' ''chat'' ''m'' None ''fp'' 5, CompleteJob ''job_1'' ReconciliationPending None [] None None None 6]
     faulty_store)"
  by (rule conjunct1 [OF job_store_invariant [OF faulty_opened]])

text \<open>
  C33. No method loops for ever in an eviction loop, and the \<open>expect\<close> on the owner of a recovery record does
  not panic, at any store reached from one that a constructor returned, whichever system calls fail; and
  opening a directory does neither.
\<close>

theorem job_methods_return:
  assumes "opened env s" "lists_all env" "bt_wf files"
  shows "fst (run_command env cmd (job_run env cmds s)) \<notin> {Inl EndlessLoop, Inl ActiveRecoveryOwner} \<and>
    fst (durable env wallet_seed directory max_jobs max_bytes ttl_seconds now files calls) \<notin> {Inl EndlessLoop, Inl ActiveRecoveryOwner}"
proof -
  have "store_wf False (job_run env cmds s)" by (intro job_run_wf opened_wf [OF assms(1)])
  then have "\<And>e. fst (run_command env cmd (job_run env cmds s)) = Inl e \<Longrightarrow> proper_error e" by (rule run_command_proper)
  then show ?thesis using durable_spec(1) [OF assms(2, 3)] unfolding proper_error_def by blast
qed

theorem job_methods_return_witness:
  "fst (run_command faulty_env (BeginJob ''job_3'' ''chat'' ''m'' None ''fp'' 9)
     (job_run faulty_env [BeginJob ''job_1'' ''chat'' ''m'' None ''fp'' 5] faulty_store)) \<noteq> Inl EndlessLoop"
proof -
  have "lists_all faulty_env" by (simp add: lists_all_def faulty_env_def plain_env_def)
  then show ?thesis
    using job_methods_return [OF faulty_opened, where files = "[]" and cmd = "BeginJob ''job_3'' ''chat'' ''m'' None ''fp'' 9"
        and cmds = "[BeginJob ''job_1'' ''chat'' ''m'' None ''fp'' 5]"]
    by (simp del: run_command.simps)
qed





end
