(* ===== verification/Job_Store_Durable.thy ===== *)
theory Job_Store_Durable
  imports Job_Store_Safe
begin

text \<open>
  The files of the job store. A write replaces the file of one job or leaves it alone, whichever call
  fails; when no system call fails, the directory holds exactly what the store holds, every file opens to
  its record, and reopening the directory gives the records back. A crash is a run in which every call
  from some point on fails.
\<close>

section \<open>Published files\<close>

definition file_of :: "'n job_vault \<Rightarrow> string \<Rightarrow> u8 list option" where
  "file_of s k = bt_get (jw_files s) (job_path k)"

definition disk :: "(string \<Rightarrow> u8 list option) \<Rightarrow> 'n job_vault \<Rightarrow> bool" where
  "disk D s \<longleftrightarrow> (\<forall>k. file_of s k = D k)"

lemma job_path_inj [simp]: "job_path a = job_path b \<longleftrightarrow> a = b"
  by (simp add: job_path_def)

lemma temporary_not_published [simp]: "temporary_path env jid random \<noteq> job_path k" "job_path k \<noteq> temporary_path env jid random"
proof -
  have "last (temporary_path env jid random) \<noteq> last (job_path k)"
    by (simp add: temporary_path_def job_path_def JOB_FILE_SUFFIX_def)
  then show "temporary_path env jid random \<noteq> job_path k" "job_path k \<noteq> temporary_path env jid random" by metis+
qed

lemma disk_calls [simp]: "disk D (s\<lparr>jw_calls := c\<rparr>) = disk D s"
  by (simp add: disk_def file_of_def)

lemma disk_set_temporary [simp]: "disk D (set_file (temporary_path env jid random) bytes s) = disk D s"
  by (simp add: disk_def file_of_def set_file_def btree_simps)

lemma disk_unlink_temporary [simp]: "disk D (unlink (temporary_path env jid random) s) = disk D s"
  by (simp add: disk_def file_of_def unlink_def btree_simps)

lemma disk_set_job [simp]: "disk D s \<Longrightarrow> disk (D(k := Some bytes)) (set_file (job_path k) bytes s)"
  by (simp add: disk_def file_of_def set_file_def btree_simps)

lemma disk_unlink_job [simp]: "disk D s \<Longrightarrow> disk (D(k := None)) (unlink (job_path k) s)"
  by (simp add: disk_def file_of_def unlink_def btree_simps)

lemma disk_os_call: "triple (\<lambda>s. P (jw_files s)) (os_call env what) (\<lambda>_ s. P (jw_files s)) (\<lambda>_ s. P (jw_files s))"
  by (simp add: triple_def os_call_def split: option.split)

text \<open>A temporary file is written, renamed over the published one, and removed when a step fails.\<close>

lemma publish_disk:
  "triple (disk D) (publish env (temporary_path env jid random) (job_path jid) sealed)
     (\<lambda>_. disk (D(jid := Some sealed))) (\<lambda>_ s. disk D s \<or> disk (D(jid := Some sealed)) s)"
proof -
  let ?tmp = "temporary_path env jid random" and ?D = "D(jid := Some sealed)"
  let ?E = "\<lambda>_ s. disk D s \<or> disk ?D s"
  have w: "triple (disk D) (write_all env ?tmp sealed)
      (\<lambda>_ s. disk D s \<and> bt_get (jw_files s) ?tmp = Some sealed) ?E"
    by (simp add: triple_def write_all_def os_call_def set_file_def btree_simps disk_def file_of_def split: option.split)
  have y: "triple (\<lambda>s. disk D s \<and> bt_get (jw_files s) ?tmp = Some sealed) (os_call env ''syncing encrypted job'')
      (\<lambda>_ s. disk D s \<and> bt_get (jw_files s) ?tmp = Some sealed) ?E"
    by (simp add: triple_def os_call_def split: option.split)
  have r: "triple (\<lambda>s. disk D s \<and> bt_get (jw_files s) ?tmp = Some sealed) (rename_file env ?tmp (job_path jid)) (\<lambda>_. disk ?D) ?E"
    by (simp add: triple_def rename_file_def os_call_def st_bind_def st_read_def st_modify_def split: option.split)
  have z: "triple (disk ?D) (sync_directory env) (\<lambda>_. disk ?D) ?E"
    by (simp add: triple_def sync_directory_def os_call_def split: option.split)
  have c: "triple (?E e) (remove_file env ?tmp) (\<lambda>_. ?E e) (\<lambda>_. ?E e)" for e :: job_error
    by (auto simp: triple_def remove_file_def os_call_def st_bind_def st_read_def st_modify_def st_ok_def split: option.split)
  show ?thesis
    unfolding publish_def by (rule triple_on_error [OF triple_bind [OF w triple_bind [OF y triple_bind [OF r z]]] c])
qed

lemma create_temporary_disk:
  "triple (disk D) (create_new env (temporary_path env jid random)) (\<lambda>_. disk D) (\<lambda>_ s. disk D s \<or> X s)"
  by (simp add: triple_def create_new_def os_call_def st_bind_def st_read_def st_modify_def st_err_def split: option.split)

lemma getrandom_disk: "triple (disk D) (getrandom env n) (\<lambda>_. disk D) (\<lambda>_ s. disk D s \<or> X s)"
  by (auto simp: triple_def getrandom_def map_sum_def split: sum.split)

lemma persist_disk:
  assumes "persist env jid sealed replace s = (r, s')"
  shows "js_directory s \<noteq> None \<Longrightarrow> r = Inr u \<Longrightarrow> file_of s' jid = Some sealed"
    "file_of s' jid = file_of s jid \<or> js_directory s \<noteq> None \<and> file_of s' jid = Some sealed"
    "k \<noteq> jid \<Longrightarrow> file_of s' k = file_of s k"
proof -
  define D where "D = file_of s"
  let ?E = "\<lambda>_ s. disk D s \<or> disk (D(jid := Some sealed)) s"
  let ?m = "st_bind (st_lift (validate_job_id jid)) (\<lambda>_.
          st_bind (path_exists env (job_path jid)) (\<lambda>present.
          if \<not> replace \<and> present then st_err (JobFileExists jid)
          else if replace \<and> \<not> present then st_err (JobFileMissing jid)
          else
            st_bind (getrandom env 8) (\<lambda>random.
            st_bind (create_new env (temporary_path env jid random)) (\<lambda>_.
            publish env (temporary_path env jid random) (job_path jid) sealed))))"
  have e: "triple (disk D) (path_exists env (job_path jid)) (\<lambda>_. disk D) ?E"
    by (simp add: triple_def path_exists_def)
  have "triple (disk D) ?m (\<lambda>_. disk (D(jid := Some sealed))) ?E"
    by (rule triple_bind [OF triple_lift triple_bind [OF e]])
       (auto intro!: triple_err triple_bind [OF getrandom_disk triple_bind [OF create_temporary_disk publish_disk]])
  moreover have "disk D s" by (simp add: disk_def D_def)
  ultimately have some: "(\<forall>u. r = Inr u \<longrightarrow> disk (D(jid := Some sealed)) s') \<and> ?E () s'" if "js_directory s \<noteq> None"
    using assms that unfolding triple_def persist_def st_read_def by (cases r) (auto split: option.splits prod.splits)
  have none: "s' = s" if "js_directory s = None"
    using assms that by (simp add: persist_def st_read_def st_ok_def)
  show "js_directory s \<noteq> None \<Longrightarrow> r = Inr u \<Longrightarrow> file_of s' jid = Some sealed"
    using some by (auto simp: disk_def)
  show "file_of s' jid = file_of s jid \<or> js_directory s \<noteq> None \<and> file_of s' jid = Some sealed"
    using some none by (cases "js_directory s") (auto simp: disk_def D_def)
  show "k \<noteq> jid \<Longrightarrow> file_of s' k = file_of s k"
    using some none by (cases "js_directory s") (auto simp: disk_def D_def)
qed

section \<open>Without failing calls\<close>

definition no_faults :: "'n job_env \<Rightarrow> bool" where
  "no_faults env \<longleftrightarrow> (\<forall>n. je_fails env n = None)"

text \<open>The directory holds published files only.\<close>

definition tidy :: "'n job_vault \<Rightarrow> bool" where
  "tidy s \<longleftrightarrow> bt_wf (jw_files s) \<and> (\<forall>name. bt_get (jw_files s) name \<noteq> None \<longrightarrow> (\<exists>k. name = job_path k))"

lemma os_call_ok: "no_faults env \<Longrightarrow> os_call env what s = (Inr (), s\<lparr>jw_calls := Suc (jw_calls s)\<rparr>)"
  by (simp add: os_call_def no_faults_def)

lemma tidy_temporary: "tidy s \<Longrightarrow> bt_get (jw_files s) (temporary_path env jid random) = None"
  unfolding tidy_def by (metis temporary_not_published(1))

lemma overwrite_temporary:
  assumes "bt_wf m" "bt_get m t = None"
  shows "bt_remove t (bt_insert t a (bt_insert t b m)) = m"
  using assms by (intro bt_ext) (auto simp: btree_simps)

lemma publish_ok:
  assumes "no_faults env" "bt_wf m" "bt_get m (temporary_path env jid random) = None"
    "jw_files s = bt_insert (temporary_path env jid random) [] m"
  obtains s' where "publish env (temporary_path env jid random) (job_path jid) sealed s = (Inr (), s')"
    "jw_files s' = bt_insert (job_path jid) sealed m"
  using assms
  by (simp add: publish_def st_on_error_def st_bind_def write_all_def os_call_ok rename_file_def st_read_def st_modify_def
        sync_directory_def set_file_def unlink_def btree_simps overwrite_temporary)

lemma persist_ok:
  assumes "no_faults env" "tidy s" "js_directory s \<noteq> None" "persist env jid sealed replace s = (r, s')"
  obtains e where "r = Inl e" "jw_files s' = jw_files s"
  | "r = Inr ()" "validate_job_id jid = Inr ()" "jw_files s' = bt_insert (job_path jid) sealed (jw_files s)"
proof (cases "validate_job_id jid")
  case (Inl e)
  then have "r = Inl e \<and> s' = s" using assms(3, 4) by (auto simp: persist_def st_read_def st_bind_def st_lift_def)
  then show ?thesis using that(1) by simp
next
  case (Inr u)
  let ?s = "s\<lparr>jw_calls := Suc (jw_calls s)\<rparr>"
  show ?thesis
  proof (cases "je_getrandom env (jw_calls ?s) 8")
    case (Inl e)
    then show ?thesis
      using assms that Inr
      by (auto simp: persist_def st_read_def st_bind_def st_lift_def path_exists_def getrandom_def st_err_def split: if_splits)
  next
    case r: (Inr random)
    let ?tmp = "temporary_path env jid random"
    have tmp: "bt_get (jw_files s) ?tmp = None" using assms(2) by (rule tidy_temporary)
    have wf: "bt_wf (jw_files s)" using assms(2) by (simp add: tidy_def)
    let ?s3 = "set_file ?tmp [] (s\<lparr>jw_calls := Suc (Suc (Suc (jw_calls s)))\<rparr>)"
    obtain s4 where s4: "publish env ?tmp (job_path jid) sealed ?s3 = (Inr (), s4)" "jw_files s4 = bt_insert (job_path jid) sealed (jw_files s)"
      by (rule publish_ok [OF assms(1) wf tmp, where s = ?s3]) (auto simp: set_file_def)
    have "(\<exists>e. r = Inl e \<and> jw_files s' = jw_files s) \<or> r = Inr () \<and> s' = s4"
      using assms(1, 3, 4) Inr r tmp s4(1)
      by (auto simp: persist_def st_read_def st_bind_def st_lift_def path_exists_def getrandom_def st_err_def create_new_def
            os_call_ok st_modify_def split: if_splits)
    then show ?thesis using that Inr s4(2) by auto
  qed
qed

lemma remove_sealed_record_ok:
  assumes "no_faults env" "js_directory s \<noteq> None"
  obtains s' where "remove_sealed_record env jid s = (Inr (), s')" "mem s' = mem (drop_size jid s)"
    "jw_files s' = bt_remove (job_path jid) (jw_files s)"
proof -
  have d: "js_directory (drop_size jid s) = js_directory s" "jw_files (drop_size jid s) = jw_files s"
    by (simp_all add: drop_size_def split: option.split)
  show ?thesis
    using assms that d
    by (cases "js_directory s"; cases "bt_get (jw_files s) (job_path jid)")
       (auto simp: remove_sealed_record_def drop_size_def [symmetric] st_bind_def st_modify_def st_read_def remove_file_def os_call_ok
          st_ok_def sync_directory_def unlink_def bt_remove_absent split: if_splits)
qed

section \<open>The directory mirrors the store\<close>

text \<open>A job of this version of the format that the codec reads back.\<close>

definition writable :: "'n job_env \<Rightarrow> 'n stored_gateway_job \<Rightarrow> bool" where
  "writable env job \<longleftrightarrow> sj_schema_version job = JOB_SCHEMA_VERSION \<and> reads_back env job"

definition sealed_as :: "'n job_env \<Rightarrow> 'n job_vault \<Rightarrow> string \<Rightarrow> 'n stored_gateway_job \<Rightarrow> bool" where
  "sealed_as env s k job \<longleftrightarrow>
     validate_job_id k = Inr () \<and> writable env job \<and>
     validate_key_context (job_key_context job) = Inr () \<and>
     (\<exists>sealed. file_of s k = Some sealed \<and> open_job env (js_key s) k sealed = Inr job \<and>
        bt_get (js_sealed_sizes s) k = Some (vec_len sealed))"

definition mirrored :: "'n job_env \<Rightarrow> 'n job_vault \<Rightarrow> bool" where
  "mirrored env s \<longleftrightarrow>
     store_core True s \<and> js_directory s \<noteq> None \<and> tidy s \<and>
     (\<forall>k. case stored s k of None \<Rightarrow> file_of s k = None | Some job \<Rightarrow> sealed_as env s k job)"

lemma mirrored_cong:
  assumes "mem s = mem t" "jw_files s = jw_files t"
  shows "mirrored env s = mirrored env t"
  using mem_eq_fields [OF assms(1)] assms(2)
  by (simp add: mirrored_def sealed_as_def file_of_def tidy_def cong: option.case_cong)

lemma mirroredD:
  assumes "mirrored env s"
  shows "store_core True s" "js_directory s \<noteq> None" "tidy s" "stored s k = None \<Longrightarrow> file_of s k = None"
    "stored s k = Some job \<Longrightarrow> sealed_as env s k job"
  using assms by (auto simp: mirrored_def split: option.splits dest: spec [where x = k])

lemma tidy_remove: "tidy s \<Longrightarrow> jw_files s' = bt_remove (job_path k) (jw_files s) \<Longrightarrow> tidy s'"
  by (auto simp: tidy_def btree_simps)

lemma tidy_insert: "tidy s \<Longrightarrow> jw_files s' = bt_insert (job_path k) bytes (jw_files s) \<Longrightarrow> tidy s'"
  by (auto simp: tidy_def btree_simps)

lemma mirrored_drop:
  assumes "mirrored env s" "bt_get (js_records s) k = Some job" "sj_status job \<noteq> ReconciliationPending"
    "mem s' = mem (drop_record k s)" "jw_files s' = bt_remove (job_path k) (jw_files s)"
  shows "mirrored env s'"
proof -
  note d = mirroredD [OF assms(1)] and m = mem_eq_fields [OF assms(4)]
  have act: "bt_get (js_active s) k = None" using store_coreD(6) [OF d(1)] assms(2) by blast
  have st: "stored (drop_record k s) k' = (if k' = k then None else stored s k')" for k'
    using act by (auto simp: stored_def active_recovery_def drop_record_fields btree_simps split: option.splits)
  have fl: "file_of s' k' = (if k' = k then None else file_of s k')" for k'
    by (simp add: file_of_def assms(5) btree_simps)
  have other: "sealed_as env s' k' j = sealed_as env s k' j" if "k' \<noteq> k" for k' j
    using that by (simp add: sealed_as_def fl m drop_record_fields)
  show ?thesis
    unfolding mirrored_def
    using drop_record_core [OF d(1) assms(2, 3)] d(2) tidy_remove [OF d(3) assms(5)] d(4, 5)
    by (auto simp: m drop_record_fields(5) st fl other split: option.split)
qed

lemma seal_context: "seal_job env k job s = (Inr sealed, s') \<Longrightarrow> validate_key_context (job_key_context job) = Inr ()"
  by (erule seal_job_Inr) simp

lemma mirrored_put:
  assumes "mirrored env s" "store_core True s'" "js_key s' = js_key s" "js_directory s' = js_directory s"
    and f: "jw_files s' = bt_insert (job_path k) sealed (jw_files s)"
    and st: "\<And>k'. stored s' k' = (if k' = k then Some job else stored s k')"
    and sz: "\<And>k'. bt_get (js_sealed_sizes s') k' = (if k' = k then Some (vec_len sealed) else bt_get (js_sealed_sizes s) k')"
    and "validate_job_id k = Inr ()" "writable env job" "open_job env (js_key s) k sealed = Inr job"
    "validate_key_context (job_key_context job) = Inr ()"
  shows "mirrored env s'"
proof -
  note d = mirroredD [OF assms(1)]
  have fl: "file_of s' k' = (if k' = k then Some sealed else file_of s k')" for k'
    by (simp add: file_of_def f btree_simps)
  have other: "sealed_as env s' k' j = sealed_as env s k' j" if "k' \<noteq> k" for k' j
    using that by (simp add: sealed_as_def fl sz assms(3))
  have here: "sealed_as env s' k job" using assms(8-11) by (simp add: sealed_as_def fl sz assms(3))
  show ?thesis
    unfolding mirrored_def
    using assms(2, 4) d(2) tidy_insert [OF d(3) f] d(4, 5) here by (auto simp: st fl other split: option.split)
qed

definition keeps_mirror :: "'n job_env \<Rightarrow> 'n job_vault \<Rightarrow> ('n, 'a) vault_op \<Rightarrow> bool" where
  "keeps_mirror env t m \<longleftrightarrow> mirrored env (snd (m t))"

lemma keeps_mirror_bind:
  assumes "keeps_mirror env t m" "\<And>x s. m t = (Inr x, s) \<Longrightarrow> mirrored env s \<Longrightarrow> keeps_mirror env s (f x)"
  shows "keeps_mirror env t (st_bind m f)"
proof (cases "m t")
  case (Pair r s)
  then show ?thesis using assms by (cases r) (auto simp: keeps_mirror_def st_bind_def)
qed

lemma keeps_mirror_read: "keeps_mirror env t (f t) \<Longrightarrow> keeps_mirror env t (st_read f)"
  by (simp add: keeps_mirror_def st_read_def)

lemma keeps_mirror_modify: "keeps_mirror env (f t) (g ()) \<Longrightarrow> keeps_mirror env t (st_bind (st_modify f) g)"
  by (simp add: keeps_mirror_def st_bind_def st_modify_def)

lemma keeps_mirror_basic:
  "mirrored env t \<Longrightarrow> keeps_mirror env t (st_ok x)" "mirrored env t \<Longrightarrow> keeps_mirror env t (st_err e)"
  "mirrored env t \<Longrightarrow> keeps_mirror env t (st_lift r)"
  by (simp_all add: keeps_mirror_def st_ok_def st_err_def st_lift_def)

lemma seal_job_files: "jw_files (snd (seal_job env key job s)) = jw_files s"
  by (simp add: seal_job_def Let_def st_bind_def st_lift_def st_ok_def getrandom_def split_beta split: sum.split)

lemma keeps_mirror_seal: "mirrored env t \<Longrightarrow> keeps_mirror env t (seal_job env key job)"
  unfolding keeps_mirror_def
  by (subst mirrored_cong [where t = t]) (use fs_seal_job [of env key job] in \<open>auto simp: fs_op_def seal_job_files\<close>)

lemma evict_while_mirror:
  assumes "no_faults env"
  shows "mirrored env s \<Longrightarrow> keeps_mirror env s (evict_while env over p full n)"
proof (induction n arbitrary: s)
  case 0
  then show ?case by (simp add: keeps_mirror_basic)
next
  case (Suc n)
  show ?case
  proof (cases "evict_candidate p s")
    case None
    then show ?thesis using Suc.prems by (simp add: keeps_mirror_read keeps_mirror_basic)
  next
    case (Some k)
    note d = mirroredD [OF Suc.prems]
    let ?s = "s\<lparr>js_records := bt_remove k (js_records s)\<rparr>"
    obtain job where job: "bt_get (js_records s) k = Some job" "sj_status job \<noteq> ReconciliationPending"
      using evict_candidate_Some [OF d(1) Some] by metis
    obtain s' where s': "remove_sealed_record env k ?s = (Inr (), s')" "mem s' = mem (drop_size k ?s)"
      "jw_files s' = bt_remove (job_path k) (jw_files s)"
      by (rule remove_sealed_record_ok [OF assms, of ?s k]) (use d(2) in auto)
    have "mirrored env s'" using s'(2, 3) by (intro mirrored_drop [OF Suc.prems job]) (simp_all add: drop_record_def)
    then have "keeps_mirror env s' (evict_while env over p full n)" by (rule Suc.IH)
    then have "keeps_mirror env ?s (st_bind (remove_sealed_record env k) (\<lambda>_. evict_while env over p full n))"
      using s'(1) by (simp add: keeps_mirror_def st_bind_def)
    then show ?thesis
      using Some Suc.prems by (auto intro!: keeps_mirror_read keeps_mirror_modify keeps_mirror_basic)
  qed
qed

lemma room_mirror:
  assumes "no_faults env" "mirrored env t"
  shows "keeps_mirror env t (make_room_for_job env)" "keeps_mirror env t (make_room_for_bytes env len p)"
    "keeps_mirror env t (enforce_bounds env p)"
  unfolding make_room_for_job_def make_room_for_bytes_def enforce_bounds_def Let_def
  by (intro keeps_mirror_read evict_while_mirror assms)+

lemma purge_one_mirror:
  assumes "no_faults env" "mirrored env s" "due now (jid # ids) s"
  obtains s' where "purge_one env jid s = (Inr (), s')" "mirrored env s'" "due now ids s'"
proof -
  note d = mirroredD [OF assms(2)]
  from assms(3) obtain job where job: "bt_get (js_records s) jid = Some job" "sj_status job \<noteq> ReconciliationPending"
    by (auto simp: due_def)
  let ?s = "s\<lparr>js_records := bt_remove jid (js_records s), js_reconciling := bt_remove jid (js_reconciling s)\<rparr>"
  have "bt_remove jid (js_reconciling s) = js_reconciling s"
    using store_coreD(10) [OF d(1), of jid] job
    by (intro bt_remove_absent) (cases "bt_get (js_reconciling s) jid", auto simp: is_reconciling_def)
  then have eq: "drop_size jid ?s = drop_record jid s" by (simp add: drop_record_def)
  obtain s' where s': "remove_sealed_record env jid ?s = (Inr (), s')" "mem s' = mem (drop_size jid ?s)"
    "jw_files s' = bt_remove (job_path jid) (jw_files s)"
    by (rule remove_sealed_record_ok [OF assms(1), of ?s jid]) (use d(2) in auto)
  have run: "purge_one env jid s = (Inr (), s')" using s'(1) by (simp add: purge_one_def st_bind_def st_modify_def)
  show ?thesis
  proof (rule that [OF run])
    show "mirrored env s'" using s'(2, 3) eq by (intro mirrored_drop [OF assms(2) job]) simp_all
    show "due now ids s'"
      using tripleD_Inr [OF purge_one_spec [where t = s and now = now and ids = ids] _ run] assms(3) d(1) evicted_refl by blast
  qed
qed

lemma purge_mirror:
  assumes "no_faults env" "mirrored env t"
  shows "keeps_mirror env t (purge_expired env now)"
proof -
  have "due now ids s \<Longrightarrow> mirrored env s \<Longrightarrow> keeps_mirror env s (st_for ids (purge_one env))" for ids s
  proof (induction ids arbitrary: s)
    case Nil
    then show ?case by (simp add: keeps_mirror_basic)
  next
    case (Cons jid ids)
    obtain s' where s': "purge_one env jid s = (Inr (), s')" "mirrored env s'" "due now ids s'"
      using purge_one_mirror [OF assms(1) Cons.prems(2, 1)] .
    then have "keeps_mirror env s' (st_for ids (purge_one env))" by (intro Cons.IH)
    then show ?case using s'(1) by (simp add: keeps_mirror_def st_bind_def)
  qed
  then show ?thesis
    unfolding purge_expired_def using due_expired [OF mirroredD(1) [OF assms(2)]] assms(2) by (intro keeps_mirror_read) blast
qed

section \<open>Every method keeps the mirror\<close>

lemma byte_room_mirror:
  assumes "no_faults env" "store_wf True t" "mirrored env t" "make_room_for_bytes env len (Some jid) t = (Inr u, s)"
  shows "mirrored env s" "store_wf True s" "evicted (other (Some jid)) t s" "\<not> bytes_over (sealed_size s jid) len s"
proof -
  show "mirrored env s" using room_mirror(2) [OF assms(1, 3), of len "Some jid"] assms(4) by (simp add: keeps_mirror_def)
  show "store_wf True s" using tripleD_Inr [OF make_room_for_bytes_spec [OF assms(2)] refl assms(4)] by blast
qed (use byte_room [OF assms(2, 4)] in auto)

lemma stored_put_record: "stored (put_record job len s) k = (if k = sj_id job then Some job else stored s k)"
  by (simp add: stored_def active_recovery_def put_record_def btree_simps split: option.split)

lemma put_record_mirrored:
  assumes "mirrored env s" "store_wf True s" "\<not> bytes_over (sealed_size s (sj_id job)) (vec_len sealed) s"
    "jw_files s' = bt_insert (job_path (sj_id job)) sealed (jw_files s)" "mem s' = mem (put_record job (vec_len sealed) s)"
    "validate_job_id (sj_id job) = Inr ()" "writable env job"
    "open_job env (js_key s) (sj_id job) sealed = Inr job" "validate_key_context (job_key_context job) = Inr ()"
  shows "mirrored env s'"
proof (rule mirrored_put [OF assms(1) _ _ _ assms(4) _ _ assms(6-9)])
  note m = mem_eq_fields [OF assms(5)]
  show "store_core True s'" unfolding m using assms(2, 3) by (intro put_record_core) (auto simp: store_wf_def)
  show "js_key s' = js_key s" "js_directory s' = js_directory s" unfolding m by (simp_all add: put_record_def)
  show "stored s' k' = (if k' = sj_id job then Some job else stored s k')" for k' unfolding m by (rule stored_put_record)
  show "bt_get (js_sealed_sizes s') k' = (if k' = sj_id job then Some (vec_len sealed) else bt_get (js_sealed_sizes s) k')" for k'
    unfolding m by (simp add: put_record_def btree_simps)
qed

lemma write_mirror:
  assumes env: "no_faults env" "codec_ok env"
    and t: "store_wf True t" "mirrored env t" and job: "sj_id job = jid" "writable env job"
    and seal: "seal_job env (js_key t) job t = (Inr sealed, t0)"
    and put: "\<And>s. store_wf True s \<Longrightarrow> evicted (other (Some jid)) t s \<Longrightarrow> f (vec_len sealed) s = put_record job (vec_len sealed) s"
  shows "keeps_mirror env t0
    (st_bind (st_lift (check_sealed_len job sealed (js_max_bytes t))) (\<lambda>_.
     st_bind (make_room_for_bytes env (vec_len sealed) (Some jid)) (\<lambda>_.
     st_read (\<lambda>s. st_bind (persist env (sj_id job) sealed (replace s)) (\<lambda>_.
     st_bind (st_modify (f (vec_len sealed))) (\<lambda>_.
     st_bind (enforce_bounds env (Some (sj_id job))) (\<lambda>_.
     st_ok job)))))))"
proof -
  note m0 = mem_eq_fields [OF fs_op_mem [OF fs_seal_job seal]]
  have t0: "store_wf True t0" "mirrored env t0"
    using t keeps_mirror_seal [OF t(2), of "js_key t" job] seal by (simp_all add: m0 keeps_mirror_def)
  show ?thesis
  proof (rule keeps_mirror_bind [OF keeps_mirror_basic(3) [OF t0(2)]])
    fix u s
    assume "st_lift (check_sealed_len job sealed (js_max_bytes t)) t0 = (Inr u, s)"
    then have s: "s = t0" by (simp add: st_lift_def)
    show "keeps_mirror env s (st_bind (make_room_for_bytes env (vec_len sealed) (Some jid)) (\<lambda>_.
     st_read (\<lambda>s. st_bind (persist env (sj_id job) sealed (replace s)) (\<lambda>_.
     st_bind (st_modify (f (vec_len sealed))) (\<lambda>_.
     st_bind (enforce_bounds env (Some (sj_id job))) (\<lambda>_. st_ok job))))))"
      unfolding s
    proof (rule keeps_mirror_bind [OF room_mirror(2) [OF env(1) t0(2)]], rule keeps_mirror_read)
      fix u s1
      assume room: "make_room_for_bytes env (vec_len sealed) (Some jid) t0 = (Inr u, s1)"
      note r = byte_room_mirror [OF env(1) t0 room]
      note d = mirroredD [OF r(1)]
      obtain res s2 where p: "persist env (sj_id job) sealed (replace s1) s1 = (res, s2)" by (cases "persist env (sj_id job) sealed (replace s1) s1")
      note m = mem_eq_fields [OF fs_op_mem [OF fs_persist p]]
      have wf2: "store_wf True s2" using r(2) by (simp only: m)
      have ev: "evicted (other (Some jid)) t s2" using r(3) by (simp only: m(4) m0(2))
      show "keeps_mirror env s1 (st_bind (persist env (sj_id job) sealed (replace s1)) (\<lambda>_.
        st_bind (st_modify (f (vec_len sealed))) (\<lambda>_. st_bind (enforce_bounds env (Some (sj_id job))) (\<lambda>_. st_ok job))))"
      proof (rule persist_ok [OF env(1) d(3, 2) p])
        fix e assume "res = Inl e" "jw_files s2 = jw_files s1"
        then show ?thesis
          using p r(1) mirrored_cong [OF fs_op_mem [OF fs_persist p], of env] by (simp add: keeps_mirror_def st_bind_def)
      next
        assume ok: "res = Inr ()" "validate_job_id (sj_id job) = Inr ()"
          "jw_files s2 = bt_insert (job_path (sj_id job)) sealed (jw_files s1)"
        have key: "js_key s1 = js_key t" using evicted_fields(1) [OF r(3)] m0 by simp
        have mem: "mem (put_record job (vec_len sealed) s2) = mem (put_record job (vec_len sealed) s1)"
          using m(7-9, 12, 16) m(3) fs_op_mem [OF fs_persist p]
          by (simp add: put_record_def account_def mem_def gateway_job_store.truncate_def)
        have "mirrored env (put_record job (vec_len sealed) s2)"
          by (rule put_record_mirrored [OF r(1, 2) _ _ mem ok(2) job(2)])
             (use r(4) job(1) ok(3) key open_seal [OF env(2) _ seal] job(2) seal_context [OF seal] in \<open>simp_all add: put_record_def writable_def\<close>)
        then have "keeps_mirror env (put_record job (vec_len sealed) s2) (st_bind (enforce_bounds env (Some (sj_id job))) (\<lambda>_. st_ok job))"
          by (rule keeps_mirror_bind [OF room_mirror(3) [OF env(1)]]) (rule keeps_mirror_basic)
        then show ?thesis
          using p ok(1) put [OF wf2 ev] by (simp add: keeps_mirror_def st_bind_def st_modify_def)
      qed
    qed
  qed
qed

lemma put_recovery_mirrored:
  assumes "mirrored env s" "store_wf True s" "\<not> bytes_over (sealed_size s (sj_id recovery)) (vec_len sealed) s"
    "bt_get (js_active s) (sj_id recovery) = Some active"
    "jw_files s' = bt_insert (job_path (sj_id recovery)) sealed (jw_files s)" "mem s' = mem (put_recovery active recovery (vec_len sealed) s)"
    "validate_job_id (sj_id recovery) = Inr ()" "writable env recovery"
    "open_job env (js_key s) (sj_id recovery) sealed = Inr recovery" "validate_key_context (job_key_context recovery) = Inr ()"
  shows "mirrored env s'"
proof (rule mirrored_put [OF assms(1) _ _ _ assms(5) _ _ assms(7-10)])
  note m = mem_eq_fields [OF assms(6)]
  have core: "store_core True s" using assms(2) by (simp add: store_wf_def)
  have rec: "bt_get (js_records s) (sj_id recovery) = None"
    using store_coreD(6) [OF core, of "sj_id recovery"] assms(4) by (cases "bt_get (js_records s) (sj_id recovery)") auto
  show "store_core True s'" unfolding m using assms(2-4) by (intro put_recovery_core) (auto simp: store_wf_def)
  show "js_key s' = js_key s" "js_directory s' = js_directory s" unfolding m by (simp_all add: put_recovery_def)
  show "stored s' k' = (if k' = sj_id recovery then Some recovery else stored s k')" for k'
    unfolding m using rec by (simp add: stored_def active_recovery_def put_recovery_def btree_simps split: option.split)
  show "bt_get (js_sealed_sizes s') k' = (if k' = sj_id recovery then Some (vec_len sealed) else bt_get (js_sealed_sizes s) k')" for k'
    unfolding m by (simp add: put_recovery_def btree_simps)
qed

lemma persist_active_recovery_mirror:
  assumes env: "no_faults env" "codec_ok env"
    and t: "store_wf True t" "mirrored env t" and act: "bt_get (js_active t) (sj_id recovery) = Some active"
    and ver: "writable env recovery"
  shows "keeps_mirror env t (persist_active_recovery env recovery)"
  unfolding persist_active_recovery_def
proof (rule keeps_mirror_read, rule keeps_mirror_bind [OF keeps_mirror_seal [OF t(2)]])
  let ?k = "sj_id recovery"
  fix sealed t0
  assume seal: "seal_job env (js_key t) recovery t = (Inr sealed, t0)" and t0m: "mirrored env t0"
  note m0 = mem_eq_fields [OF fs_op_mem [OF fs_seal_job seal]]
  have t0: "store_wf True t0" using t(1) by (simp only: m0)
  show "keeps_mirror env t0 (st_bind (make_room_for_bytes env (vec_len sealed) (Some ?k)) (\<lambda>_.
      st_read (\<lambda>s. st_bind (persist env ?k sealed (bt_get (js_sealed_sizes s) ?k \<noteq> None)) (\<lambda>_.
      st_bind (st_modify (account ?k (vec_len sealed))) (\<lambda>_. set_recovery ?k recovery)))))"
  proof (rule keeps_mirror_bind [OF room_mirror(2) [OF env(1) t0m]], rule keeps_mirror_read)
    fix u s1
    assume room: "make_room_for_bytes env (vec_len sealed) (Some ?k) t0 = (Inr u, s1)"
    note r = byte_room_mirror [OF env(1) t0 t0m room]
    note d = mirroredD [OF r(1)]
    let ?p = "persist env ?k sealed (bt_get (js_sealed_sizes s1) ?k \<noteq> None)"
    obtain res s2 where p: "?p s1 = (res, s2)" by (cases "?p s1")
    note m = mem_eq_fields [OF fs_op_mem [OF fs_persist p]]
    have a1: "bt_get (js_active s1) ?k = Some active" using act evicted_fields(6) [OF r(3)] m0(8) by simp
    have key: "js_key s1 = js_key t" using evicted_fields(1) [OF r(3)] m0(10) by simp
    show "keeps_mirror env s1 (st_bind ?p (\<lambda>_. st_bind (st_modify (account ?k (vec_len sealed))) (\<lambda>_. set_recovery ?k recovery)))"
    proof (rule persist_ok [OF env(1) d(3, 2) p])
      fix e assume "res = Inl e" "jw_files s2 = jw_files s1"
      then show ?thesis
        using p r(1) mirrored_cong [OF fs_op_mem [OF fs_persist p], of env] by (simp add: keeps_mirror_def st_bind_def)
    next
      assume ok: "res = Inr ()" "validate_job_id ?k = Inr ()" "jw_files s2 = bt_insert (job_path ?k) sealed (jw_files s1)"
      have mem: "mem (put_recovery active recovery (vec_len sealed) s2) = mem (put_recovery active recovery (vec_len sealed) s1)"
        using m(7-9, 12, 16) m(3) fs_op_mem [OF fs_persist p]
        by (simp add: put_recovery_def account_def mem_def gateway_job_store.truncate_def)
      have "mirrored env (put_recovery active recovery (vec_len sealed) s2)"
        by (rule put_recovery_mirrored [OF r(1, 2) r(4) a1 _ mem ok(2) ver])
           (use ok(3) key open_seal [OF env(2) _ seal] ver seal_context [OF seal] in \<open>simp_all add: put_recovery_def writable_def\<close>)
      moreover have "bt_get (js_active s2) ?k = Some active" using a1 m(8) by simp
      ultimately show ?thesis
        using p ok(1)
        by (simp add: keeps_mirror_def st_bind_def st_modify_def set_recovery_def st_read_def put_recovery_def)
    qed
  qed
qed

lemma begin_job_mirror:
  assumes "no_faults env" "store_wf True t" "mirrored env t"
  shows "keeps_mirror env t (begin_job env jid f m ow r now)"
  unfolding begin_job_def
proof (rule keeps_mirror_bind [OF purge_mirror [OF assms(1, 3)]], rule keeps_mirror_read)
  fix u s
  assume s: "purge_expired env now t = (Inr u, s)" "mirrored env s"
  have wf: "store_wf True s" using purged(1) [OF assms(2) s(1)] .
  have ins: "mirrored env (s'\<lparr>js_active := bt_insert jid a (js_active s')\<rparr>)"
    if "bt_get (js_records s) jid = None" "bt_get (js_active s) jid = None" "make_room_for_job env s = (Inr u, s')" "mirrored env s'"
      "aj_id a = jid" "aj_recovery a = None" for u s' and a :: "'a active_gateway_job"
  proof -
    note r = job_room [OF wf that(3)]
    have none: "bt_get (js_records s') jid = None" "bt_get (js_active s') jid = None"
      using that(1, 2) evicted_records [OF r(2), of jid] evicted_fields(6) [OF r(2)] by (cases "bt_get (js_records s') jid"; auto)+
    let ?s = "s'\<lparr>js_active := bt_insert jid a (js_active s')\<rparr>"
    have core: "store_core True ?s" using insert_active_wf [OF r(1) none r(3) that(5, 6)] by (simp add: store_wf_def)
    have st: "stored ?s k = stored s' k" for k
      using none that(6) by (auto simp: stored_def active_recovery_def btree_simps split: option.split)
    have fl: "file_of ?s k = file_of s' k" for k by (simp add: file_of_def)
    show ?thesis
      using mirroredD(2, 3) [OF that(4)] core that(4)
      by (simp add: mirrored_def st fl tidy_def sealed_as_def cong: option.case_cong)
  qed
  show "keeps_mirror env s (case bt_get (js_records s) jid of
       Some existing \<Rightarrow>
         st_bind (st_lift (validate_job_identity existing f m ow r)) (\<lambda>_. st_ok (Existing existing))
     | None \<Rightarrow> (case bt_get (js_active s) jid of
         Some active \<Rightarrow> st_bind (st_lift (validate_active_job_identity active f m ow r)) (\<lambda>_. st_ok InProgress)
       | None \<Rightarrow>
           st_bind (make_room_for_job env) (\<lambda>_.
           st_bind (st_modify (\<lambda>s. s\<lparr>js_active := bt_insert jid
             \<lparr>aj_id = jid, aj_endpoint_family = f, aj_model = m, aj_owner_token_id = ow,
              aj_request_fingerprint = r, aj_created_at = now, aj_recovery = None\<rparr> (js_active s)\<rparr>)) (\<lambda>_.
           st_ok Started))))"
    using s(2)
    by (auto split: option.split
             intro!: keeps_mirror_bind keeps_mirror_basic room_mirror(1) [OF assms(1)] keeps_mirror_modify ins)
qed

lemma protect_active_mirror:
  assumes "no_faults env" "codec_ok env" "store_wf True t" "mirrored env t"
  shows "keeps_mirror env t (protect_active env jid now)"
proof (cases "bt_get (js_active t) jid")
  case None
  then show ?thesis unfolding protect_active_def by (intro keeps_mirror_read) (simp add: keeps_mirror_basic assms(4))
next
  case (Some active)
  have "keeps_mirror env t (persist_active_recovery env (interrupted_record active (js_ttl_seconds t) now))"
    using Some store_coreD(7) [OF mirroredD(1) [OF assms(4)] Some]
    by (intro persist_active_recovery_mirror [OF assms]) (simp_all add: interrupted_record_def writable_def reads_back_def)
  then show ?thesis
    unfolding protect_active_def using Some by (intro keeps_mirror_read) (simp add: keeps_mirror_basic assms(4))
qed

lemma update_active_receipt_mirror:
  assumes "no_faults env" "codec_ok env" "store_wf True t" "mirrored env t" and receipt: "value_reads_back env receipt"
  shows "keeps_mirror env t (update_active_receipt env jid receipt now)"
proof (cases "active_recovery t jid")
  case None
  then show ?thesis unfolding update_active_receipt_def by (intro keeps_mirror_read) (simp add: keeps_mirror_basic assms(4))
next
  case (Some recovery)
  note core = mirroredD(1) [OF assms(4)]
  from Some obtain active where a: "bt_get (js_active t) jid = Some active" "aj_recovery active = Some recovery"
    by (auto simp: active_recovery_def bind_eq_Some_conv)
  have "bt_get (js_records t) jid = None"
    using store_coreD(6) [OF core, of jid] a(1) by (cases "bt_get (js_records t) jid") auto
  then have "stored t jid = Some recovery" using Some by (simp add: stored_def)
  then have "writable env recovery" using mirroredD(5) [OF assms(4)] by (simp add: sealed_as_def)
  then have "writable env (recovery\<lparr>sj_status := ReconciliationPending, sj_receipt := Some receipt, sj_finished_at := now,
       sj_error := Some ''stream interrupted before terminal receipt; checkpoint reconciliation is pending'', sj_error_info := None\<rparr>)"
    using receipt by (simp add: writable_def reads_back_def)
  then show ?thesis
    unfolding update_active_receipt_def
    using Some a store_coreD(8) [OF core a]
    by (intro keeps_mirror_read) (simp add: persist_active_recovery_mirror [OF assms(1-4)])
qed

lemma terminal_record_writable:
  assumes "pred_option (value_reads_back env) result" "pred_option (value_reads_back env) receipt"
    "\<And>recovery. aj_recovery a = Some recovery \<Longrightarrow> writable env recovery"
  shows "writable env (terminal_record a ttl status result artifacts receipt err err_info now)"
  using assms by (auto simp: terminal_record_def writable_def reads_back_def Let_def split: option.split)

lemma recovery_writable:
  assumes "mirrored env t" "bt_get (js_active t) jid = Some a" "aj_recovery a = Some recovery"
  shows "writable env recovery"
proof -
  have "bt_get (js_records t) jid = None"
    using store_coreD(6) [OF mirroredD(1) [OF assms(1)], of jid] assms(2) by (cases "bt_get (js_records t) jid") auto
  then have "stored t jid = Some recovery" using assms(2, 3) by (simp add: stored_def active_recovery_def)
  then show ?thesis using mirroredD(5) [OF assms(1)] by (simp add: sealed_as_def)
qed

lemma complete_mirror:
  assumes "no_faults env" "codec_ok env" "store_wf True t" "mirrored env t"
    and vals: "pred_option (value_reads_back env) result" "pred_option (value_reads_back env) receipt"
  shows "keeps_mirror env t (complete_with_error_info env jid status result artifacts receipt err err_info now)"
proof (cases "bt_get (js_records t) jid")
  case (Some existing)
  note core = mirroredD(1) [OF assms(4)]
  have "mark_reconciling jid t = t" if "sj_status existing = ReconciliationPending"
    using store_coreD(10) [OF core, of jid] Some that store_coreD(4) [OF core]
    by (cases "bt_get (js_reconciling t) jid") (auto simp: mark_reconciling_def is_reconciling_def bt_insert_same)
  then show ?thesis
    unfolding complete_with_error_info_def using Some assms(4)
    by (intro keeps_mirror_read) (auto simp: same_outcome_def intro!: keeps_mirror_modify keeps_mirror_basic)
next
  case none: None
  show ?thesis
  proof (cases "bt_get (js_active t) jid")
    case None
    then show ?thesis
      unfolding complete_with_error_info_def using none assms(4) by (intro keeps_mirror_read) (simp add: keeps_mirror_basic)
  next
    case (Some active)
    let ?job = "terminal_record active (js_ttl_seconds t) status result artifacts receipt err err_info now"
    let ?f = "\<lambda>len. (if sj_status ?job = ReconciliationPending then mark_reconciling (sj_id ?job) else id) \<circ> insert_record ?job \<circ>
      account (sj_id ?job) len \<circ> (\<lambda>s. s\<lparr>js_active := bt_remove jid (js_active s)\<rparr>)"
    have id: "sj_id ?job = jid" using store_coreD(7) [OF mirroredD(1) [OF assms(4)] Some] by simp
    have wr: "writable env ?job" using recovery_writable [OF assms(4) Some] by (rule terminal_record_writable [OF vals])
    show ?thesis
      unfolding complete_with_error_info_def
    proof (rule keeps_mirror_read, simp only: none Some option.case Let_def st_modify_modify o_assoc,
        rule keeps_mirror_bind [OF keeps_mirror_seal [OF assms(4)]], goal_cases)
      case (1 sealed t0)
      show ?case
        by (rule write_mirror [where f = ?f, OF assms(1-4) id wr 1(1)])
           (rule complete_put [OF assms(3) Some id])
    qed
  qed
qed

lemma replace_record_mirror:
  assumes "no_faults env" "codec_ok env" "store_wf True t" "mirrored env t"
    and old: "bt_get (js_records t) jid = Some old" "sj_status old = ReconciliationPending"
    and job: "sj_id job = jid" "writable env job"
    and unmark: "unmark = (if sj_status job = ReconciliationPending then id else unmark_reconciling jid)"
  shows "keeps_mirror env t (replace_record env jid job unmark)"
  unfolding replace_record_def persist_replace_def
proof (rule keeps_mirror_read, simp only: st_modify_modify o_assoc,
    rule keeps_mirror_bind [OF keeps_mirror_seal [OF assms(4)]], goal_cases)
  case (1 sealed t0)
  show ?case
    by (rule write_mirror [where f = "\<lambda>len. insert_record job \<circ> unmark \<circ> account (sj_id job) len" and replace = "\<lambda>_. True",
          unfolded st_read_const, OF assms(1-4) job 1(1)]) (rule replace_put [OF old job(1) unmark])
qed

lemma record_version:
  assumes "mirrored env t" "bt_get (js_records t) jid = Some job"
  shows "writable env job" "sj_id job = jid"
  using mirroredD(5) [OF assms(1), of jid job] store_coreD(5) [OF mirroredD(1) [OF assms(1)] assms(2)] assms(2)
  by (simp_all add: stored_def sealed_as_def)

lemma finish_reconciliation_mirror:
  assumes "no_faults env" "codec_ok env" "store_wf True t" "mirrored env t"
  shows "keeps_mirror env t (finish_reconciliation env jid status err now)"
proof (cases "bt_get (js_records t) jid")
  case None
  then show ?thesis using assms(4) by (simp add: finish_reconciliation_def keeps_mirror_read keeps_mirror_basic)
next
  case (Some existing)
  note core = mirroredD(1) [OF assms(4)] and ver = record_version [OF assms(4) Some]
  have "unmark_reconciling jid t = t" if "sj_status existing = status" "status \<noteq> ReconciliationPending"
    using store_coreD(10) [OF core, of jid] Some that
    by (cases "bt_get (js_reconciling t) jid") (auto simp: unmark_reconciling_def is_reconciling_def bt_remove_absent)
  moreover have "keeps_mirror env t (replace_record env jid
       (existing\<lparr>sj_status := status, sj_finished_at := now, sj_expires_at := sat_add now (js_ttl_seconds t), sj_error := err\<rparr>)
       (unmark_reconciling jid))" if "sj_status existing = ReconciliationPending" "status \<noteq> ReconciliationPending"
    using ver that by (intro replace_record_mirror [OF assms Some that(1)]) (simp_all add: writable_def reads_back_def)
  ultimately show ?thesis
    using Some assms(4)
    by (auto simp: finish_reconciliation_def intro!: keeps_mirror_read keeps_mirror_modify keeps_mirror_basic)
qed

lemma update_reconciliation_receipt_mirror:
  assumes "no_faults env" "codec_ok env" "store_wf True t" "mirrored env t" and receipt: "value_reads_back env receipt"
  shows "keeps_mirror env t (update_reconciliation_receipt env jid receipt now)"
proof (cases "bt_get (js_records t) jid")
  case None
  then show ?thesis using assms(4) by (simp add: update_reconciliation_receipt_def keeps_mirror_read keeps_mirror_basic)
next
  case (Some existing)
  have "keeps_mirror env t (replace_record env jid (existing\<lparr>sj_receipt := Some receipt, sj_finished_at := now\<rparr>) id)"
    if "sj_status existing = ReconciliationPending"
    using record_version [OF assms(4) Some] that receipt
    by (intro replace_record_mirror [OF assms(1-4) Some that]) (simp_all add: writable_def reads_back_def)
  then show ?thesis
    using Some assms(4) by (auto simp: update_reconciliation_receipt_def intro!: keeps_mirror_read keeps_mirror_basic)
qed

lemma purge_then_mirror:
  assumes "no_faults env" "mirrored env t" "\<And>s. mirrored env s \<Longrightarrow> keeps_mirror env s (f s)"
  shows "keeps_mirror env t (st_bind (purge_expired env now) (\<lambda>_. st_read f))"
  using assms by (intro keeps_mirror_bind [OF purge_mirror] keeps_mirror_read) auto

lemma remove_job_mirror:
  assumes "no_faults env" "mirrored env t"
  shows "keeps_mirror env t (remove_job env jid ow now)"
  unfolding remove_job_def
proof (rule purge_then_mirror [OF assms])
  fix s
  assume s: "mirrored env s"
  note d = mirroredD [OF s]
  let ?s = "s\<lparr>js_records := bt_remove jid (js_records s)\<rparr>"
  have "keeps_mirror env ?s (remove_sealed_record env jid)" if "bt_get (js_records s) jid = Some job" "\<not> is_reconciling s jid" for job
  proof -
    obtain s' where s': "remove_sealed_record env jid ?s = (Inr (), s')" "mem s' = mem (drop_size jid ?s)"
      "jw_files s' = bt_remove (job_path jid) (jw_files s)"
      by (rule remove_sealed_record_ok [OF assms(1), of ?s jid]) (use d(2) in auto)
    have "sj_status job \<noteq> ReconciliationPending" using store_coreD(10) [OF d(1), of jid] that by auto
    then have "mirrored env s'" using s'(2, 3) by (intro mirrored_drop [OF s that(1)]) (simp_all add: drop_record_def)
    then show ?thesis using s'(1) by (simp add: keeps_mirror_def)
  qed
  then show "keeps_mirror env s (case bt_get (js_records s) jid of
       None \<Rightarrow> st_ok None
     | Some job \<Rightarrow>
         if sj_owner_token_id job \<noteq> ow then st_ok None
         else if is_reconciling s jid then st_err (RemovalWhilePending jid)
         else
           st_bind (st_modify (\<lambda>s. s\<lparr>js_records := bt_remove jid (js_records s)\<rparr>)) (\<lambda>_.
           st_bind (remove_sealed_record env jid) (\<lambda>_.
           st_ok (Some job))))"
    using s by (auto split: option.split intro!: keeps_mirror_basic keeps_mirror_modify keeps_mirror_bind)
qed

lemma keeps_mirror_without_value: "keeps_mirror env t m \<Longrightarrow> keeps_mirror env t (without_value m)"
  unfolding without_value_def by (rule keeps_mirror_bind) (auto intro: keeps_mirror_basic)

text \<open>The JSON values a command brings into the store are read back.\<close>

fun values_read_back :: "'n job_env \<Rightarrow> 'n job_command \<Rightarrow> bool" where
  "values_read_back env (UpdateActiveReceipt jid receipt now) = value_reads_back env receipt"
| "values_read_back env (CompleteJob jid status result artifacts receipt err err_info now) =
     (pred_option (value_reads_back env) result \<and> pred_option (value_reads_back env) receipt)"
| "values_read_back env (UpdateReconciliationReceipt jid receipt now) = value_reads_back env receipt"
| "values_read_back env _ = True"

lemma run_command_mirror:
  assumes "no_faults env" "codec_ok env" "store_wf True t" "mirrored env t" "values_read_back env cmd"
  shows "keeps_mirror env t (run_command env cmd)"
  using assms(5)
  by (cases cmd)
     (simp_all add: keeps_mirror_without_value begin_job_mirror protect_active_mirror update_active_receipt_mirror complete_mirror
        finish_reconciliation_mirror update_reconciliation_receipt_mirror remove_job_mirror purge_then_mirror keeps_mirror_basic
        get_job_def lookup_job_def pending_reconciliations_def list_summaries_for_owner_def list_entries_for_owner_def assms(1-4))

lemma job_run_mirror:
  assumes "no_faults env" "codec_ok env"
  shows "store_wf True s \<Longrightarrow> mirrored env s \<Longrightarrow> list_all (values_read_back env) cmds \<Longrightarrow> mirrored env (job_run env cmds s)"
proof (induction cmds arbitrary: s)
  case (Cons cmd cmds)
  then have "mirrored env (job_run env cmds (job_step env cmd s))"
    using run_command_mirror [OF assms Cons.prems(1, 2), of cmd]
    by (intro Cons.IH job_step_wf) (simp_all add: keeps_mirror_def job_step_def)
  then show ?case by (simp add: job_run_def)
qed (simp add: job_run_def)

section \<open>Reopening\<close>

definition repaired :: "'n stored_gateway_job \<Rightarrow> 'n stored_gateway_job" where
  "repaired job = (if interrupted_checkpoint job then job\<lparr>sj_status := ReconciliationPending\<rparr> else job)"

text \<open>
  Every call succeeds, random bytes included, and the jobs of \<open>C\<close> can be sealed, also once an interrupted
  checkpoint is pending again; \<open>L\<close> bounds the size of a sealed file.
\<close>

definition sealable :: "'n job_env \<Rightarrow> nat \<Rightarrow> 'n stored_gateway_job \<Rightarrow> bool" where
  "sealable env L job \<longleftrightarrow>
     (\<exists>bytes. je_to_vec env job = Inr bytes \<and>
        (\<forall>k nonce aad. \<exists>c. je_encrypt env k nonce bytes aad = Some c \<and> length c + 534 \<le> L))"

definition calls_succeed :: "'n job_env \<Rightarrow> nat \<Rightarrow> (string \<Rightarrow> 'n stored_gateway_job option) \<Rightarrow> bool" where
  "calls_succeed env L C \<longleftrightarrow>
     no_faults env \<and> codec_ok env \<and> (\<forall>i n. \<exists>bytes. je_getrandom env i n = Inr bytes) \<and>
     (\<forall>k m. length (je_keyed_hash env k m) = 32) \<and> (\<forall>k job. C k = Some job \<longrightarrow> sealable env L (repaired job))"

lemma repaired_fields [simp]:
  "sj_id (repaired job) = sj_id job" "writable env (repaired job) = writable env job"
  "job_key_context (repaired job) = job_key_context job" "sj_expires_at (repaired job) = sj_expires_at job"
  "sj_finished_at (repaired job) = sj_finished_at job"
  by (simp_all add: repaired_def job_key_context_def writable_def reads_back_def Let_def split: option.split)

lemma seal_succeeds:
  assumes "calls_succeed env L C" "sealable env L job" "validate_key_context (job_key_context job) = Inr ()"
  obtains sealed where "seal_job env k job s = (Inr sealed, s\<lparr>jw_calls := Suc (jw_calls s)\<rparr>)" "length sealed \<le> L"
proof -
  let ?c = "job_key_context job" and ?key = "derive_job_record_key env k (sj_id job) (job_key_context job)"
  obtain bytes where v: "je_to_vec env job = Inr bytes"
    and enc: "\<And>k nonce aad. \<exists>c. je_encrypt env k nonce bytes aad = Some c \<and> length c + 534 \<le> L"
    using assms(2) unfolding sealable_def by blast
  obtain nonce where n: "je_getrandom env (jw_calls s) JOB_NONCE_BYTES = Inr nonce" using assms(1) unfolding calls_succeed_def by blast
  obtain c where c: "je_encrypt env ?key nonce bytes (as_bytes (job_aad (sj_id job) ?c)) = Some c" "length c + 534 \<le> L"
    using enc by blast
  have key: "length ?key = 32" using assms(1) by (simp add: calls_succeed_def derive_job_record_key_def)
  have len: "length ?c \<le> 512" using assms(3) by (auto simp: validate_key_context_def JOB_MAX_KEY_CONTEXT_BYTES_def split: if_splits)
  have nl: "length nonce = 12" using assms(1) n by (simp add: calls_succeed_def codec_ok_def JOB_NONCE_BYTES_def)
  let ?sealed = "as_bytes JOB_FILE_MAGIC @ u16_to_be_bytes (length ?c) @ as_bytes ?c @ nonce @ c"
  show ?thesis
  proof (rule that)
    show "seal_job env k job s = (Inr ?sealed, s\<lparr>jw_calls := Suc (jw_calls s)\<rparr>)"
      using v n c(1) key len assms(3)
      by (simp add: seal_job_def st_bind_def st_lift_def Let_def getrandom_def st_ok_def ensure_def)
    show "length ?sealed \<le> L" using c(2) len nl by (simp add: JOB_FILE_MAGIC_def u16_to_be_bytes_def)
  qed
qed

lemma replace_succeeds:
  assumes "calls_succeed env L C" "tidy s" "js_directory s \<noteq> None" "validate_job_id jid = Inr ()" "file_of s jid \<noteq> None"
  obtains s' where "persist_replace env jid sealed s = (Inr (), s')" "mem s' = mem s"
    "jw_files s' = bt_insert (job_path jid) sealed (jw_files s)"
proof -
  have env: "no_faults env" using assms(1) by (simp add: calls_succeed_def)
  obtain random where r: "je_getrandom env (Suc (jw_calls s)) 8 = Inr random" using assms(1) unfolding calls_succeed_def by blast
  let ?tmp = "temporary_path env jid random"
  have tmp: "bt_get (jw_files s) ?tmp = None" using assms(2) by (rule tidy_temporary)
  have wf: "bt_wf (jw_files s)" using assms(2) by (simp add: tidy_def)
  let ?s3 = "set_file ?tmp [] (s\<lparr>jw_calls := Suc (Suc (Suc (jw_calls s)))\<rparr>)"
  obtain s4 where s4: "publish env ?tmp (job_path jid) sealed ?s3 = (Inr (), s4)" "jw_files s4 = bt_insert (job_path jid) sealed (jw_files s)"
    by (rule publish_ok [OF env wf tmp, where s = ?s3]) (auto simp: set_file_def)
  have run: "persist_replace env jid sealed s = (Inr (), s4)"
    using assms(3-5) r tmp s4(1) env
    by (auto simp: persist_replace_def persist_def st_read_def st_bind_def st_lift_def path_exists_def getrandom_def create_new_def
          os_call_ok st_modify_def file_of_def no_faults_def)
  show ?thesis using that run s4(2) fs_op_mem [OF fs_persist_replace run] by blast
qed

lemma split_job_path:
  assumes "k \<noteq> []"
  shows "split_extension (job_path k) = (k, Some JOB_FILE_SUFFIX)"
proof -
  have "rev (job_path k) = ''bojm'' @ CHR ''.'' # rev k" by (simp add: job_path_def JOB_FILE_SUFFIX_def)
  then have "rev (takeWhile (\<lambda>c. c \<noteq> CHR ''.'') (rev (job_path k))) = ''mjob''" by simp
  then show ?thesis using assms by (simp add: split_extension_def job_path_def JOB_FILE_SUFFIX_def Let_def)
qed

lemma valid_id_utf8: "validate_job_id k = Inr () \<Longrightarrow> k \<noteq> [] \<and> utf8_valid (as_bytes k)"
proof
  assume v: "validate_job_id k = Inr ()"
  then show "k \<noteq> []" by (auto simp: validate_job_id_def split: if_splits)
  have "byte_of c < 0x80" if "c \<in> set k" for c
  proof -
    have "is_ascii_alphanumeric c \<or> c = CHR ''_'' \<or> c = CHR ''-''"
      using v that by (auto simp: validate_job_id_def list_all_iff split: if_splits)
    then show ?thesis
      by (auto simp: is_ascii_alphanumeric_def is_ascii_digit_def word_less_nat_alt word_le_nat_alt)
  qed
  then show "utf8_valid (as_bytes k)" by (intro utf8_valid_ascii) (auto simp: list_all_iff as_bytes_def)
qed

text \<open>The store while the directory is scanned: \<open>C\<close> is what the files hold, \<open>P\<close> the jobs read so far.\<close>

definition file_holds :: "'n job_env \<Rightarrow> nat \<Rightarrow> 'n job_vault \<Rightarrow> string \<Rightarrow> 'n stored_gateway_job \<Rightarrow> 'n stored_gateway_job \<Rightarrow> bool" where
  "file_holds env L s k job content \<longleftrightarrow>
     sj_id job = k \<and> validate_job_id k = Inr () \<and> writable env job \<and>
     validate_key_context (job_key_context job) = Inr () \<and>
     (\<exists>sealed. file_of s k = Some sealed \<and> length sealed \<le> L \<and> open_job env (js_key s) k sealed = Inr content)"

definition loaded ::
    "'n job_env \<Rightarrow> nat \<Rightarrow> (string \<Rightarrow> 'n stored_gateway_job option) \<Rightarrow> string set \<Rightarrow> 'n job_vault \<Rightarrow> bool" where
  "loaded env L C P s \<longleftrightarrow>
     js_directory s \<noteq> None \<and> js_active s = [] \<and> tidy s \<and>
     bt_wf (js_records s) \<and> bt_wf (js_sealed_sizes s) \<and> bt_wf (js_reconciling s) \<and>
     (\<forall>k. bt_get (js_records s) k = (if k \<in> P then map_option repaired (C k) else None)) \<and>
     (\<forall>k. bt_get (js_reconciling s) k \<noteq> None \<longleftrightarrow>
        k \<in> P \<and> (\<exists>job. C k = Some job \<and> sj_status (repaired job) = ReconciliationPending)) \<and>
     (\<forall>k. bt_get (js_sealed_sizes s) k =
        (if k \<in> P \<and> C k \<noteq> None then map_option vec_len (file_of s k) else None)) \<and>
     unat (js_total_bytes s) = bt_sum unat (js_sealed_sizes s) \<and> bt_sum unat (js_sealed_sizes s) \<le> card P * L \<and>
     (\<forall>k. case C k of None \<Rightarrow> file_of s k = None | Some job \<Rightarrow> file_holds env L s k job (if k \<in> P then repaired job else job))"

lemma loadedD:
  assumes "loaded env L C P s"
  shows "js_directory s \<noteq> None" "tidy s" "C k = Some job \<Longrightarrow> file_holds env L s k job (if k \<in> P then repaired job else job)"
    "C k = None \<Longrightarrow> file_of s k = None"
  using assms unfolding loaded_def by (auto split: option.splits dest!: spec [where x = k])

lemma vec_len_unat: "length xs \<le> L \<Longrightarrow> L < 2 ^ 64 \<Longrightarrow> unat (vec_len xs) = length xs"
  by (simp add: vec_len_def unat_of_nat_small)

lemma load_record_loaded:
  assumes "loaded env L C P s" "C k = Some job" "k \<notin> P" "finite P" "Suc (card P) * L < 2 ^ 64"
    and s1: "mem s1 = mem s" "jw_files s1 = jw_files s \<or> jw_files s1 = bt_insert (job_path k) sealed (jw_files s)"
    and new: "file_of s1 k = Some sealed" "length sealed \<le> L" "open_job env (js_key s) k sealed = Inr (repaired job)"
  shows "loaded env L C (insert k P) (snd (load_record env k (repaired job) sealed s1))" (is "loaded env L C _ ?s")
    "fst (load_record env k (repaired job) sealed s1) = Inr ()"
proof -
  note m = mem_eq_fields [OF s1(1)] and d = loadedD [OF assms(1)]
  have L: "L < 2 ^ 64" using assms(5) by (cases "L = 0") (auto intro: le_less_trans [rotated])
  have oth: "file_of s1 k' = file_of s k'" if "k' \<noteq> k" for k'
    using that s1(2) by (auto simp: file_of_def btree_simps)
  have fields: "js_records ?s = bt_insert k (repaired job) (js_records s)" "js_active ?s = js_active s" "js_key ?s = js_key s"
    "js_sealed_sizes ?s = bt_insert k (vec_len sealed) (js_sealed_sizes s)" "js_directory ?s = js_directory s"
    "js_total_bytes ?s = sat_add (js_total_bytes s) (vec_len sealed)" "jw_files ?s = jw_files s1"
    "js_reconciling ?s = (if sj_status (repaired job) = ReconciliationPending then bt_insert k () (js_reconciling s) else js_reconciling s)"
    by (auto simp: load_record_def st_modify_def mark_reconciling_def m)
  have fl: "file_of ?s k' = (if k' = k then Some sealed else file_of s k')" for k'
    using new(1) oth by (simp add: file_of_def fields)
  have tidy: "tidy ?s" using d(2) s1(2) tidy_insert [OF d(2)] fields(7) by (auto simp: tidy_def)
  have none: "bt_get (js_sealed_sizes s) k = None" using assms(1, 3) by (simp add: loaded_def)
  have sum: "bt_sum unat (js_sealed_sizes ?s) = bt_sum unat (js_sealed_sizes s) + length sealed"
    using bt_sum_insert [of "js_sealed_sizes s" unat k "vec_len sealed"] none assms(1) vec_len_unat [OF new(2) L]
    by (simp add: loaded_def fields)
  have le: "bt_sum unat (js_sealed_sizes ?s) \<le> card (insert k P) * L"
    using sum assms(1, 3, 4) new(2) by (simp add: loaded_def)
  have tot: "unat (js_total_bytes ?s) = bt_sum unat (js_sealed_sizes ?s)"
    using sum le assms(1, 3-5) vec_len_unat [OF new(2) L] by (simp add: loaded_def fields unat_simps)
  have holds: "file_holds env L ?s k' j c = file_holds env L s k' j c" if "k' \<noteq> k" for k' j c
    using that by (simp add: file_holds_def fl fields)
  have here: "file_holds env L ?s k job (repaired job)"
    using d(3) [OF assms(2)] assms(3) new by (simp add: file_holds_def fl fields)
  have files: "case C k' of None \<Rightarrow> file_of ?s k' = None
      | Some job \<Rightarrow> file_holds env L ?s k' job (if k' \<in> insert k P then repaired job else job)" for k'
    using d(3, 4) [of k'] here holds [of k'] assms(2) fl by (cases "k' = k") (auto split: option.split)
  have rec: "bt_get (js_reconciling ?s) k' \<noteq> None \<longleftrightarrow>
        k' \<in> insert k P \<and> (\<exists>job. C k' = Some job \<and> sj_status (repaired job) = ReconciliationPending)" for k'
    using assms(1-3) unfolding loaded_def fields(8) by (auto simp: btree_simps)
  have sz: "bt_get (js_sealed_sizes ?s) k' = (if k' \<in> insert k P \<and> C k' \<noteq> None then map_option vec_len (file_of ?s k') else None)" for k'
    using assms(1-3) unfolding loaded_def fields(4) fl by (simp add: btree_simps)
  have wf: "js_directory ?s \<noteq> None" "js_active ?s = []" "bt_wf (js_records ?s)" "bt_wf (js_sealed_sizes ?s)" "bt_wf (js_reconciling ?s)"
    "bt_get (js_records ?s) k' = (if k' \<in> insert k P then map_option repaired (C k') else None)" for k'
    using assms(1-3) unfolding loaded_def fields by (auto simp: btree_simps)
  show "loaded env L C (insert k P) ?s"
    unfolding loaded_def using wf tidy rec sz tot le files by blast
  show "fst (load_record env k (repaired job) sealed s1) = Inr ()" by (simp add: load_record_def st_modify_def)
qed

lemma load_entry_loaded:
  assumes env: "calls_succeed env L C" and s: "loaded env L C P s" "C k = Some job" "k \<notin> P" "finite P" "Suc (card P) * L < 2 ^ 64"
  obtains s' where "load_entry env (job_path k) s = (Inr (), s')" "loaded env L C (insert k P) s'" "same_config s s'"
proof -
  note d = loadedD [OF s(1)]
  have nf: "no_faults env" "codec_ok env" using env by (simp_all add: calls_succeed_def)
  have h: "file_holds env L s k job job" using d(3) [OF s(2)] s(3) by simp
  then obtain sealed where sealed: "file_of s k = Some sealed" "length sealed \<le> L" "open_job env (js_key s) k sealed = Inr job"
    by (auto simp: file_holds_def)
  have job: "sj_id job = k" "validate_job_id k = Inr ()" "writable env job"
    "validate_key_context (job_key_context job) = Inr ()" using h by (auto simp: file_holds_def)
  note u = valid_id_utf8 [OF job(2)]
  let ?s2 = "s\<lparr>jw_calls := Suc (Suc (jw_calls s))\<rparr>"
  have pre: "load_entry env (job_path k) s =
     (if interrupted_checkpoint job then
         let job = job\<lparr>sj_status := ReconciliationPending\<rparr> in
         st_bind (seal_job env (js_key s) job) (\<lambda>repaired.
         st_bind (persist_replace env k repaired) (\<lambda>_.
         load_record env k job repaired))
       else load_record env k job sealed) ?s2"
    using sealed job u
    by (simp add: load_entry_def st_bind_def os_call_ok nf split_job_path read_file_def st_read_def st_lift_def file_of_def Let_def writable_def)
  have cfg: "same_config s (snd (load_record env k j bytes s1))" if "mem s1 = mem s" for j bytes s1
    using mem_eq_fields [OF that] by (simp add: same_config_def load_record_def st_modify_def mark_reconciling_def)
  show ?thesis
  proof (cases "interrupted_checkpoint job")
    case False
    then have "repaired job = job" by (simp add: repaired_def)
    then have r: "loaded env L C (insert k P) (snd (load_record env k job sealed ?s2))" "fst (load_record env k job sealed ?s2) = Inr ()"
      using load_record_loaded [OF s, of ?s2 sealed] sealed by (simp_all add: file_of_def)
    show ?thesis
      by (rule that [of "snd (load_record env k job sealed ?s2)"]) (use False pre r cfg [of ?s2] in \<open>simp_all add: prod_eq_iff\<close>)
  next
    case True
    let ?job = "job\<lparr>sj_status := ReconciliationPending\<rparr>"
    have rep: "repaired job = ?job" using True by (simp add: repaired_def)
    have can: "sealable env L ?job" using env s(2) rep unfolding calls_succeed_def by metis
    obtain bytes where b: "seal_job env (js_key s) ?job ?s2 = (Inr bytes, ?s2\<lparr>jw_calls := Suc (jw_calls ?s2)\<rparr>)" "length bytes \<le> L"
      by (rule seal_succeeds [OF env, of ?job "js_key s" ?s2]) (use can job(4) repaired_fields(3) [of job] rep in auto)
    let ?s3 = "?s2\<lparr>jw_calls := Suc (jw_calls ?s2)\<rparr>"
    obtain s4 where s4: "persist_replace env k bytes ?s3 = (Inr (), s4)" "mem s4 = mem ?s3"
      "jw_files s4 = bt_insert (job_path k) bytes (jw_files ?s3)"
      by (rule replace_succeeds [OF env, of ?s3 k]) (use d(1, 2) job(2) sealed(1) in \<open>auto simp: tidy_def file_of_def\<close>)
    have op: "open_job env (js_key s) k bytes = Inr ?job" using open_seal [OF nf(2) _ b(1)] job(1, 3) by (simp add: writable_def reads_back_def)
    have r: "loaded env L C (insert k P) (snd (load_record env k ?job bytes s4))" "fst (load_record env k ?job bytes s4) = Inr ()"
      using load_record_loaded [OF s, of s4 bytes] s4(2, 3) op b(2) rep by (simp_all add: file_of_def btree_simps)
    have run: "load_entry env (job_path k) s = load_record env k ?job bytes s4"
      using True pre b(1) s4(1) by (simp add: st_bind_def Let_def)
    show ?thesis
      by (rule that [of "snd (load_record env k ?job bytes s4)"])
         (use run r s4(2) cfg [of s4] in \<open>simp_all add: prod_eq_iff\<close>)
  qed
qed

lemma load_for_loaded:
  assumes env: "calls_succeed env L C"
  shows "loaded env L C P s \<Longrightarrow> distinct ks \<Longrightarrow> set ks \<inter> P = {} \<Longrightarrow> \<forall>k \<in> set ks. C k \<noteq> None \<Longrightarrow> finite P \<Longrightarrow>
     (card P + length ks) * L < 2 ^ 64 \<Longrightarrow>
     \<exists>s'. st_for (map job_path ks) (load_entry env) s = (Inr (), s') \<and> loaded env L C (P \<union> set ks) s' \<and> same_config s s'"
proof (induction ks arbitrary: P s)
  case Nil
  then show ?case by (simp add: st_ok_def same_config_def)
next
  case (Cons k ks)
  obtain job where job: "C k = Some job" using Cons.prems(4) by auto
  have "Suc (card P) * L \<le> (card P + length (k # ks)) * L" by (rule mult_le_mono1) simp
  then have lt: "Suc (card P) * L < 2 ^ 64" using Cons.prems(6) by (rule le_less_trans)
  obtain s' where s': "load_entry env (job_path k) s = (Inr (), s')" "loaded env L C (insert k P) s'" "same_config s s'"
    by (rule load_entry_loaded [OF env Cons.prems(1) job _ Cons.prems(5) lt]) (use Cons.prems(3) in auto)
  have "\<exists>s''. st_for (map job_path ks) (load_entry env) s' = (Inr (), s'') \<and> loaded env L C (insert k P \<union> set ks) s'' \<and> same_config s' s''"
    using Cons.prems by (intro Cons.IH s'(2)) auto
  then obtain s'' where s'': "st_for (map job_path ks) (load_entry env) s' = (Inr (), s'')"
    "loaded env L C (insert k P \<union> set ks) s''" "same_config s' s''" by blast
  then show ?case using s' by (simp add: st_bind_def same_config_def)
qed

lemma loaded_mirrored:
  assumes "loaded env L C P s" "\<And>k. C k \<noteq> None \<Longrightarrow> k \<in> P"
  shows "mirrored env s" "stored s k = map_option repaired (C k)"
proof -
  note d = loadedD [OF assms(1)]
  have act: "active_recovery s k = None" for k using assms(1) by (simp add: loaded_def active_recovery_def)
  have rec: "bt_get (js_records s) k = map_option repaired (C k)" for k
    using assms by (cases "C k") (auto simp: loaded_def)
  show st: "stored s k = map_option repaired (C k)" for k by (simp add: stored_def act rec split: option.split)
  have sz: "bt_get (js_sealed_sizes s) k = (if C k = None then None else map_option vec_len (file_of s k))" for k
    using assms by (auto simp: loaded_def)
  have core: "store_core True s"
    unfolding store_core_def
  proof (intro conjI allI impI)
    fix k
    show "bt_get (js_sealed_sizes s) k \<noteq> None \<longleftrightarrow> stored s k \<noteq> None"
      using d(3) [of k] by (auto simp: sz st file_holds_def)
    show "bt_get (js_reconciling s) k \<noteq> None \<longleftrightarrow>
        (\<exists>job. bt_get (js_records s) k = Some job \<and> sj_status job = ReconciliationPending)"
      using assms by (auto simp: loaded_def rec)
    fix job assume "bt_get (js_records s) k = Some job"
    then show "sj_id job = k" using d(3) [of k] by (auto simp: rec file_holds_def)
  qed (use assms(1) in \<open>auto simp: loaded_def\<close>)
  have "case stored s k of None \<Rightarrow> file_of s k = None | Some job \<Rightarrow> sealed_as env s k job" for k
  proof (cases "C k")
    case None
    then show ?thesis using d(4) by (simp add: st)
  next
    case (Some job)
    have "file_holds env L s k job (repaired job)" using d(3) [OF Some] assms(2) [of k] Some by simp
    then show ?thesis using Some by (auto simp: st sealed_as_def file_holds_def sz)
  qed
  then show "mirrored env s" unfolding mirrored_def using core d(1, 2) by blast
qed

lemma purge_for_ok:
  assumes "no_faults env"
  shows "due now ids s \<Longrightarrow> mirrored env s \<Longrightarrow> \<exists>s'. st_for ids (purge_one env) s = (Inr (), s') \<and> mirrored env s'"
proof (induction ids arbitrary: s)
  case Nil
  then show ?case by (simp add: st_ok_def)
next
  case (Cons jid ids)
  obtain s' where s': "purge_one env jid s = (Inr (), s')" "mirrored env s'" "due now ids s'"
    using purge_one_mirror [OF assms Cons.prems(2, 1)] .
  then show ?case using Cons.IH [OF s'(3, 2)] by (simp add: st_bind_def)
qed

lemma purge_ok:
  assumes "no_faults env" "mirrored env t"
  obtains s where "purge_expired env now t = (Inr (), s)" "mirrored env s" "evicted (expired_by now) t s"
    "\<And>k job. bt_get (js_records s) k = Some job \<Longrightarrow> sj_status job = ReconciliationPending \<or> now < sj_expires_at job"
proof -
  note core = mirroredD(1) [OF assms(2)]
  let ?ids = "map sj_id (filter (\<lambda>job. sj_status job \<noteq> ReconciliationPending \<and> sj_expires_at job \<le> now) (map snd (js_records t)))"
  obtain s where s: "st_for ?ids (purge_one env) t = (Inr (), s)" "mirrored env s"
    using purge_for_ok [OF assms(1) due_expired [OF core, of now] assms(2)] by blast
  have "evicted (expired_by now) t s" "due now [] s"
    using tripleD_Inr [OF purge_for_spec [where exact = True and t = t and ids = ?ids and now = now] _ s(1)] core
      due_expired [OF core, of now] evicted_refl by blast+
  then show ?thesis using that s by (auto simp: purge_expired_def st_read_def due_def expired_by_def not_le)
qed

lemma evict_while_ok:
  assumes "no_faults env"
  shows "mirrored env s \<Longrightarrow> length (js_records s) < n \<Longrightarrow>
     \<exists>r s'. evict_while env over p (\<lambda>_. e) n s = (r, s') \<and> (r = Inr () \<or> r = Inl e)"
proof (induction n arbitrary: s)
  case (Suc n)
  show ?case
  proof (cases "evict_candidate p s")
    case None
    then show ?thesis by (auto simp: st_read_def st_ok_def st_err_def)
  next
    case (Some k)
    note d = mirroredD [OF Suc.prems(1)]
    let ?s = "s\<lparr>js_records := bt_remove k (js_records s)\<rparr>"
    obtain job where job: "bt_get (js_records s) k = Some job" "sj_status job \<noteq> ReconciliationPending"
      using evict_candidate_Some [OF d(1) Some] by metis
    obtain s' where s': "remove_sealed_record env k ?s = (Inr (), s')" "mem s' = mem (drop_size k ?s)"
      "jw_files s' = bt_remove (job_path k) (jw_files s)"
      by (rule remove_sealed_record_ok [OF assms, of ?s k]) (use d(2) in auto)
    have eq: "mem s' = mem (drop_record k s)" using s'(2) by (simp add: drop_record_def)
    have "mirrored env s'" using s'(3) eq by (intro mirrored_drop [OF Suc.prems(1) job]) simp_all
    moreover have "length (js_records s') < n"
      using mem_eq_fields(7) [OF eq] length_bt_remove_less [of "js_records s" k] job(1) Suc.prems(2) by (simp add: drop_record_fields)
    ultimately show ?thesis
      using Suc.IH [of s'] s'(1) Some by (auto simp: st_read_def st_ok_def st_bind_def st_modify_def)
  qed
qed simp

text \<open>The oldest finished records go first.\<close>

lemma evict_while_oldest:
  assumes "no_faults env"
  shows "mirrored env s \<Longrightarrow> evict_while env over p full n s = (Inr (), s') \<Longrightarrow>
     (\<forall>k job. bt_get (js_records s') k = Some job \<longrightarrow> bt_get (js_records s) k = Some job) \<and>
     (\<forall>k job k' job'. bt_get (js_records s) k = Some job \<longrightarrow> bt_get (js_records s') k = None \<longrightarrow>
        bt_get (js_records s') k' = Some job' \<longrightarrow> sj_status job' \<noteq> ReconciliationPending \<longrightarrow> Some k' \<noteq> p \<longrightarrow>
        (sj_finished_at job, k) \<le> (sj_finished_at job', k'))"
proof (induction n arbitrary: s)
  case 0
  then show ?case by (simp add: st_err_def)
next
  case (Suc n)
  note d = mirroredD [OF Suc.prems(1)]
  show ?case
  proof (cases "over s")
    case False
    then show ?thesis using Suc.prems(2) by (auto simp: st_read_def st_ok_def)
  next
    case True
    then obtain c where c: "evict_candidate p s = Some c"
      using Suc.prems(2) by (auto simp: st_read_def st_err_def split: option.splits)
    let ?s = "s\<lparr>js_records := bt_remove c (js_records s)\<rparr>"
    obtain old where old: "bt_get (js_records s) c = Some old" "sj_status old \<noteq> ReconciliationPending"
      and least: "\<And>k' job'. bt_get (js_records s) k' = Some job' \<Longrightarrow> Some k' \<noteq> p \<Longrightarrow> \<not> is_reconciling s k' \<Longrightarrow>
        (sj_finished_at old, c) \<le> (sj_finished_at job', k')"
      using evict_candidate_Some [OF d(1) c] by metis
    obtain s1 where s1: "remove_sealed_record env c ?s = (Inr (), s1)" "mem s1 = mem (drop_size c ?s)"
      "jw_files s1 = bt_remove (job_path c) (jw_files s)"
      by (rule remove_sealed_record_ok [OF assms, of ?s c]) (use d(2) in auto)
    have eq: "mem s1 = mem (drop_record c s)" using s1(2) by (simp add: drop_record_def)
    have rec: "bt_get (js_records s1) k = (if k = c then None else bt_get (js_records s) k)" for k
      using mem_eq_fields(7) [OF eq] by (simp add: drop_record_fields btree_simps)
    have "mirrored env s1" using s1(3) eq by (intro mirrored_drop [OF Suc.prems(1) old]) simp_all
    moreover have "evict_while env over p full n s1 = (Inr (), s')"
      using Suc.prems(2) True c s1(1) by (simp add: st_read_def st_bind_def st_modify_def)
    ultimately have ih: "\<And>k job. bt_get (js_records s') k = Some job \<Longrightarrow> bt_get (js_records s1) k = Some job"
      "\<And>k job k' job'. bt_get (js_records s1) k = Some job \<Longrightarrow> bt_get (js_records s') k = None \<Longrightarrow>
        bt_get (js_records s') k' = Some job' \<Longrightarrow> sj_status job' \<noteq> ReconciliationPending \<Longrightarrow> Some k' \<noteq> p \<Longrightarrow>
        (sj_finished_at job, k) \<le> (sj_finished_at job', k')"
      using Suc.IH [of s1] by blast+
    have kept: "bt_get (js_records s) k = Some job" if "bt_get (js_records s') k = Some job" for k job
      using ih(1) [OF that] rec [of k] by (auto split: if_splits)
    have "(sj_finished_at job, k) \<le> (sj_finished_at job', k')"
      if "bt_get (js_records s) k = Some job" "bt_get (js_records s') k = None" "bt_get (js_records s') k' = Some job'"
        "sj_status job' \<noteq> ReconciliationPending" "Some k' \<noteq> p" for k job k' job'
    proof (cases "k = c")
      case True
      have "\<not> is_reconciling s k'" using store_coreD(10) [OF d(1), of k'] kept [OF that(3)] that(4) by auto
      then show ?thesis using least [OF kept [OF that(3)] that(5)] True that(1) old(1) by simp
    next
      case False
      then show ?thesis using ih(2) [OF _ that(2-5)] rec [of k] that(1) by simp
    qed
    then show ?thesis using kept by blast
  qed
qed

lemma enforce_bounds_ok:
  assumes "no_faults env" "mirrored env t" "enforce_bounds env None t = (r, s)"
  shows "mirrored env s" "r = Inr () \<or> r = Inl CannotSatisfyBounds"
    "r = Inr () \<Longrightarrow> evicted (other None) t s \<and> \<not> over_bounds s"
proof -
  note core = mirroredD(1) [OF assms(2)]
  have run: "evict_while env over_bounds None (\<lambda>_. CannotSatisfyBounds) (Suc (length (js_records t))) t = (r, s)"
    using assms(3) by (simp only: enforce_bounds_def st_read_def)
  show "mirrored env s" using room_mirror(3) [OF assms(1, 2), of None] assms(3) by (simp add: keeps_mirror_def)
  show "r = Inr () \<or> r = Inl CannotSatisfyBounds"
    using evict_while_ok [OF assms(1, 2), of "Suc (length (js_records t))" over_bounds None CannotSatisfyBounds] run by auto
  assume "r = Inr ()"
  then have ok: "evict_while env over_bounds None (\<lambda>_. CannotSatisfyBounds) (Suc (length (js_records t))) t = (Inr (), s)"
    using run by simp
  have "store_core True s \<and> evicted (other None) t s \<and> \<not> over_bounds s"
    by (rule tripleD_Inr [OF evict_while_spec [where t = t] _ ok]) (use core in \<open>simp_all add: proper_error_def evicted_refl\<close>)
  then show "evicted (other None) t s \<and> \<not> over_bounds s" by simp
qed

lemma scan_ok:
  assumes env: "calls_succeed env L C" "lists_all env" and s0: "loaded env L C {} s0" "length (jw_files s0) * L < 2 ^ 64"
    and same: "mem s1 = mem s0" "jw_files s1 = jw_files s0"
  obtains s where "st_for (je_order env (map fst (jw_files s0))) (load_entry env) s1 = (Inr (), s)"
    "mirrored env s" "\<And>k. stored s k = map_option repaired (C k)" "js_active s = []" "same_config s0 s"
    "unat (js_total_bytes s) \<le> length (jw_files s0) * L" "bt_sum finished (js_records s) \<le> length (jw_files s0)"
proof -
  note d = loadedD [OF s0(1)]
  let ?ns = "je_order env (map fst (jw_files s0))"
  have dist: "distinct (map fst (jw_files s0))" using d(2) by (auto simp: tidy_def bt_wf_distinct)
  have set: "set ?ns = fst ` set (jw_files s0)" "distinct ?ns" using env(2) dist by (simp_all add: lists_all_def)
  have path: "\<exists>k. n = job_path k" if "n \<in> set ?ns" for n
    using that d(2) bt_get_None_iff [of "jw_files s0" n] set(1) by (auto simp: tidy_def)
  then obtain ks where ks: "?ns = map job_path ks" using ex_map_conv [of ?ns job_path] by auto
  have dks: "distinct ks" using set(2) ks by (simp add: distinct_map)
  have mem: "k \<in> set ks \<longleftrightarrow> C k \<noteq> None" for k
  proof -
    have "k \<in> set ks \<longleftrightarrow> job_path k \<in> set ?ns" using ks by auto
    also have "\<dots> \<longleftrightarrow> file_of s0 k \<noteq> None" using set(1) bt_get_None_iff [of "jw_files s0" "job_path k"] by (simp add: file_of_def)
    also have "\<dots> \<longleftrightarrow> C k \<noteq> None" using d(3, 4) [of k] by (cases "C k") (auto simp: file_holds_def)
    finally show ?thesis .
  qed
  have len: "length ks = length (jw_files s0)"
    using distinct_card [OF set(2)] distinct_card [OF dist] set(1) ks by simp
  then have small: "(card ({} :: string set) + length ks) * L < 2 ^ 64" using s0(2) by simp
  have l1: "loaded env L C {} s1"
    using s0(1) mem_eq_fields [OF same(1)] same(2)
    by (simp add: loaded_def file_of_def tidy_def file_holds_def cong: option.case_cong)
  obtain s where s: "st_for (map job_path ks) (load_entry env) s1 = (Inr (), s)" "loaded env L C ({} \<union> set ks) s" "same_config s1 s"
    using load_for_loaded [OF env(1) l1 dks _ _ _ small] mem by auto
  show ?thesis
  proof (rule that)
    show "st_for ?ns (load_entry env) s1 = (Inr (), s)" using s(1) ks by simp
    show "mirrored env s" "\<And>k. stored s k = map_option repaired (C k)"
      using loaded_mirrored [OF s(2)] mem by auto
    show "js_active s = []" using s(2) by (simp add: loaded_def)
    show "same_config s0 s" using s(3) mem_eq_fields [OF same(1)] by (simp add: same_config_def)
    have "card (set ks) * L \<le> length (jw_files s0) * L" using distinct_card [OF dks] len by simp
    moreover have "unat (js_total_bytes s) \<le> card (set ks) * L" using s(2) by (simp add: loaded_def)
    ultimately show "unat (js_total_bytes s) \<le> length (jw_files s0) * L" by (rule order_trans [rotated])
    have "k \<in> set ks" if "k \<in> fst ` set (js_records s)" for k
    proof -
      have "bt_get (js_records s) k \<noteq> None" using that bt_get_None_iff [of "js_records s" k] by simp
      moreover have "bt_get (js_records s) k = (if k \<in> set ks then map_option repaired (C k) else None)"
        using s(2) by (simp add: loaded_def)
      ultimately show ?thesis by (simp split: if_splits)
    qed
    then have "fst ` set (js_records s) \<subseteq> set ks" by blast
    then have "card (fst ` set (js_records s)) \<le> card (set ks)" by (rule card_mono [rotated]) simp
    moreover have "distinct (map fst (js_records s))" using s(2) by (simp add: loaded_def bt_wf_distinct)
    ultimately have "length (js_records s) \<le> length ks" using distinct_card [OF dks] by (metis distinct_card length_map set_map)
    then show "bt_sum finished (js_records s) \<le> length (jw_files s0)"
      unfolding bt_sum_finished using len length_filter_le [of "\<lambda>(_, job). sj_status job \<noteq> ReconciliationPending" "js_records s"] by linarith
  qed
qed

lemma fresh_mirrored:
  "mirrored env ((in_memory env wallet_seed max_jobs max_bytes ttl_seconds [] calls)\<lparr>js_directory := Some directory\<rparr>)"
  by (simp add: mirrored_def store_core_def in_memory_def stored_def active_recovery_def tidy_def file_of_def)

lemma fresh_wf:
  assumes "max_bytes \<noteq> - 1"
  shows "store_wf True ((in_memory env wallet_seed max_jobs max_bytes ttl_seconds files calls)\<lparr>js_directory := d\<rparr>)"
proof -
  have "max max_bytes 1 \<noteq> - 1" using assms by (simp add: max_def)
  moreover have "1 \<le> max max_jobs (1 :: u64)" by simp
  ultimately show ?thesis
    by (simp add: store_wf_def store_core_def in_memory_def stored_def active_recovery_def records_counted_for_job_limit_def)
qed

lemma open_files_loaded:
  assumes "mirrored env s" "js_key s = derive_job_store_key env wallet_seed" "list_all (\<lambda>(_, bytes). length bytes \<le> L) (jw_files s)"
  shows "loaded env L (stored s) {}
     ((in_memory env wallet_seed max_jobs max_bytes ttl_seconds (jw_files s) calls)\<lparr>js_directory := Some directory\<rparr>)"
    (is "loaded _ _ _ _ ?s0")
proof -
  note d = mirroredD [OF assms(1)]
  have fl: "file_of ?s0 k = file_of s k" for k by (simp add: file_of_def in_memory_def)
  have len: "length sealed \<le> L" if "file_of s k = Some sealed" for k sealed
    using assms(3) that bt_getD [of "jw_files s" "job_path k" sealed] by (force simp: list_all_iff file_of_def)
  have id: "sj_id job = k" if "stored s k = Some job" for k job
    using that store_coreD(5, 8) [OF d(1)] by (auto simp: stored_def active_recovery_def bind_eq_Some_conv split: option.splits)
  have "file_holds env L ?s0 k job job" if "stored s k = Some job" for k job
    using d(5) [OF that] id [OF that] len unfolding file_holds_def sealed_as_def fl by (auto simp: in_memory_def assms(2))
  moreover have "file_of ?s0 k = None" if "stored s k = None" for k using d(4) [OF that] fl by simp
  ultimately have "case stored s k of None \<Rightarrow> file_of ?s0 k = None
      | Some job \<Rightarrow> file_holds env L ?s0 k job (if k \<in> {} then repaired job else job)" for k
    by (simp split: option.split)
  moreover have "tidy ?s0" using d(3) by (simp add: tidy_def in_memory_def)
  ultimately show ?thesis unfolding loaded_def by (simp add: in_memory_def)
qed

text \<open>A vault whose codec knows one job, a recovery record.\<close>

definition sample_recovery :: "nat stored_gateway_job" where
  "sample_recovery =
     interrupted_record
       \<lparr>aj_id = ''job_1'', aj_endpoint_family = ''chat'', aj_model = ''m'', aj_owner_token_id = None,
        aj_request_fingerprint = ''fp'', aj_created_at = 5, aj_recovery = None\<rparr> 60 6"

definition recovery_env :: "nat job_env" where
  "recovery_env =
     plain_env\<lparr>je_to_vec := \<lambda>job. if job = sample_recovery then Inr [1] else Inl ''unsupported'',
               je_from_slice := \<lambda>bytes. if bytes = [1] then Inr sample_recovery else Inl ''unsupported''\<rparr>"

definition sample_sealed :: "u8 list" where
  "sample_sealed = as_bytes ''MYHMJOB1'' @ [0, 9] @ as_bytes ''job:job_1'' @ replicate 12 7 @ [1, 0]"

definition recovery_store :: "nat job_vault" where
  "recovery_store =
     job_run recovery_env [BeginJob ''job_1'' ''chat'' ''m'' None ''fp'' 5, ProtectActive ''job_1'' 6]
       ((in_memory recovery_env [] 2 1000 60 [] 0)\<lparr>js_directory := Some ''vault''\<rparr>)"

lemma recovery_codec: "codec_ok recovery_env"
  by (simp add: codec_ok_def recovery_env_def plain_env_def)

lemma recovery_seal: "seal_job recovery_env k sample_recovery s = (Inr sample_sealed, s\<lparr>jw_calls := Suc (jw_calls s)\<rparr>)"
  by (simp add: recovery_env_def sample_sealed_def vault_eval sample_recovery_def interrupted_record_def)

lemma recovery_fails [simp]: "je_fails recovery_env n = None" "je_getrandom recovery_env n m = Inr (replicate m 7)" "je_hex recovery_env bs = ''00''"
  by (simp_all add: recovery_env_def plain_env_def)

lemma recovery_store_eval:
  "recovery_store =
     (in_memory recovery_env [] 2 1000 60 [(''job_1.mjob'', sample_sealed)] 8)
       \<lparr>js_directory := Some ''vault'',
        js_active := [(''job_1'', \<lparr>aj_id = ''job_1'', aj_endpoint_family = ''chat'', aj_model = ''m'', aj_owner_token_id = None,
          aj_request_fingerprint = ''fp'', aj_created_at = 5, aj_recovery = Some sample_recovery\<rparr>)],
        js_sealed_sizes := [(''job_1'', 33)], js_total_bytes := 33\<rparr>"
proof -
  let ?a = "\<lparr>aj_id = ''job_1'', aj_endpoint_family = ''chat'', aj_model = ''m'', aj_owner_token_id = None,
          aj_request_fingerprint = ''fp'', aj_created_at = 5, aj_recovery = None\<rparr> :: nat active_gateway_job"
  let ?s0 = "(in_memory recovery_env [] 2 1000 60 [] 0)\<lparr>js_directory := Some ''vault''\<rparr>"
  let ?s1 = "?s0\<lparr>js_active := [(''job_1'', ?a)]\<rparr>"
  have 1: "job_step recovery_env (BeginJob ''job_1'' ''chat'' ''m'' None ''fp'' 5) ?s0 = ?s1"
    by (simp add: vault_eval)
  have 2: "protect_active recovery_env ''job_1'' 6 ?s1 = persist_active_recovery recovery_env sample_recovery ?s1"
    by (simp add: protect_active_def st_read_def sample_recovery_def in_memory_def)
  have 3: "sj_id sample_recovery = ''job_1''" by (simp add: sample_recovery_def interrupted_record_def)
  have 4: "length sample_sealed = 33" by (simp add: sample_sealed_def as_bytes_def)
  have "snd (persist_active_recovery recovery_env sample_recovery ?s1) =
     (in_memory recovery_env [] 2 1000 60 [(''job_1.mjob'', sample_sealed)] 8)
       \<lparr>js_directory := Some ''vault'', js_active := [(''job_1'', ?a\<lparr>aj_recovery := Some sample_recovery\<rparr>)],
        js_sealed_sizes := [(''job_1'', 33)], js_total_bytes := 33\<rparr>"
    by (simp add: persist_active_recovery_def recovery_seal 3 4 make_room_for_bytes_def evict_while.simps bytes_over_def persist_def
        in_memory_def vec_len_def validate_job_id_def st_bind_def st_lift_def st_read_def st_ok_def st_err_def st_modify_def st_on_error_def
        sat_add_def sat_sub_def Let_def sealed_size_def check_sealed_len_def
        path_exists_def getrandom_def create_new_def os_call_def temporary_path_def set_file_def publish_def write_all_def rename_file_def
        sync_directory_def unlink_def job_path_def JOB_FILE_SUFFIX_def account_def set_recovery_def is_ascii_alphanumeric_def is_ascii_digit_def byte_of_def bt_remove_def)
  then show ?thesis
    unfolding recovery_store_def job_run_def by (simp add: 1 job_step_def [where cmd = "ProtectActive jid now" for jid now] 2)
qed

lemma recovery_store_stored: "stored recovery_store k = (if k = ''job_1'' then Some sample_recovery else None)"
  by (simp add: recovery_store_eval stored_def active_recovery_def in_memory_def)

lemma recovery_calls_succeed: "calls_succeed recovery_env 1000 (stored recovery_store)"
proof -
  have "\<not> interrupted_checkpoint sample_recovery"
    by (simp add: interrupted_checkpoint_def sample_recovery_def interrupted_record_def)
  then have "sealable recovery_env 1000 (repaired sample_recovery)"
    by (simp add: repaired_def sealable_def recovery_env_def plain_env_def)
  moreover have "length (je_keyed_hash recovery_env k m) = 32" for k m by (simp add: recovery_env_def plain_env_def)
  ultimately show ?thesis
    by (auto simp: calls_succeed_def no_faults_def recovery_codec recovery_store_stored)
qed

lemma restored_or_older:
  assumes "no_faults env" "mirrored env s3" "evicted (expired_by now) s2 s3" "enforce_bounds env None s3 = (r, s')" "r = Inr ()"
  shows "bt_get (js_records s') k = bt_get (js_records s2) k \<or>
    bt_get (js_records s') k = None \<and> (\<exists>job. bt_get (js_records s2) k = Some job \<and> sj_status job \<noteq> ReconciliationPending \<and>
      (expired_by now k job \<or> s' \<noteq> s3 \<and> (\<forall>k' job'. bt_get (js_records s') k' = Some job' \<longrightarrow> sj_status job' \<noteq> ReconciliationPending \<longrightarrow>
         (sj_finished_at job, k) \<le> (sj_finished_at job', k'))))"
proof -
  have ev: "evicted (other None) s3 s'" using enforce_bounds_ok(3) [OF assms(1, 2, 4) assms(5)] by blast
  have old: "(sj_finished_at job, k) \<le> (sj_finished_at job', k')"
    if "bt_get (js_records s3) k = Some job" "bt_get (js_records s') k = None" "bt_get (js_records s') k' = Some job'"
      "sj_status job' \<noteq> ReconciliationPending" for job k' job'
  proof -
    have "evict_while env over_bounds None (\<lambda>_. CannotSatisfyBounds) (Suc (length (js_records s3))) s3 = (Inr (), s')"
      using assms(4, 5) by (simp only: enforce_bounds_def st_read_def)
    from conjunct2 [OF evict_while_oldest [OF assms(1, 2) this]] show ?thesis using that by blast
  qed
  show ?thesis
  proof (rule evicted_cases [OF assms(3), of k])
    assume "bt_get (js_records s3) k = bt_get (js_records s2) k"
    moreover have "s' \<noteq> s3" if "bt_get (js_records s') k = None" "bt_get (js_records s3) k = Some job" for job using that by auto
    ultimately show ?thesis using evicted_cases [OF ev, of k] old by metis
  next
    fix job assume j: "bt_get (js_records s3) k = None" "bt_get (js_records s2) k = Some job" "sj_status job \<noteq> ReconciliationPending"
      "expired_by now k job"
    then have "bt_get (js_records s') k = None" using evicted_records [OF ev, of k] by (cases "bt_get (js_records s') k") auto
    then show ?thesis using j by blast
  qed
qed

lemma recovery_reads_back: "reads_back env sample_recovery"
  by (simp add: reads_back_def sample_recovery_def interrupted_record_def)

section \<open>Properties\<close>

text \<open>
  C9. A write is atomic: whichever system calls fail, and so also when the process dies between two of
  them, writing the sealed record of a job leaves in its file what was there before or the whole new
  record, and every other published file as it was. When the write reports success, the file has the new
  record.
\<close>

theorem write_atomic:
  assumes "persist env jid sealed replace s = (r, s')"
  shows "(file_of s' jid = file_of s jid \<or> js_directory s \<noteq> None \<and> file_of s' jid = Some sealed) \<and>
     (js_directory s \<noteq> None \<and> r = Inr () \<longrightarrow> file_of s' jid = Some sealed) \<and>
     (\<forall>k. k \<noteq> jid \<longrightarrow> file_of s' k = file_of s k)"
  using persist_disk [OF assms] by blast

theorem write_atomic_witness:
  "let s = recovery_store; (r, s') = persist (recovery_env\<lparr>je_fails := \<lambda>n. if n = 12 then Some ''EIO'' else None\<rparr>) ''job_1'' [1] True s
   in file_of s' ''job_1'' = Some sample_sealed \<or> file_of s' ''job_1'' = Some [1]"
proof -
  obtain r s' where run: "persist (recovery_env\<lparr>je_fails := \<lambda>n. if n = 12 then Some ''EIO'' else None\<rparr>) ''job_1'' [1] True recovery_store = (r, s')"
    by (rule prod.exhaust)
  have "file_of recovery_store ''job_1'' = Some sample_sealed"
    by (simp add: recovery_store_eval in_memory_def file_of_def job_path_def JOB_FILE_SUFFIX_def)
  then show ?thesis using write_atomic [OF run] by (auto simp: run Let_def)
qed

text \<open>
  Sealing and opening are inverse: a record that was sealed under the vault's key is opened again
  under the identifier of its job and that key, as the same record.
\<close>

lemma seal_open_roundtrip:
  assumes "codec_ok env" "reads_back env job" "seal_job env k job s = (Inr sealed, s')"
  shows "open_job env k (sj_id job) sealed = Inr job"
  using assms by (rule open_seal)

lemma seal_open_roundtrip_witness:
  "open_job recovery_env [] (sj_id sample_recovery) sample_sealed = Inr sample_recovery"
  by (rule seal_open_roundtrip [OF recovery_codec recovery_reads_back recovery_seal [where s = recovery_store]])

text \<open>
  C11. Reopening restores, when no system call fails: let a store be created on an empty directory and used in
  any way with JSON values that \<open>serde_json\<close> reads back, let its files have at most \<open>L\<close> bytes each and less
  than \<open>2 ^ 64\<close> together, and let the byte limits be below \<open>u64::MAX\<close>. Opening the directory again, at time
  \<open>now\<close> and with other limits, then gives a well-formed store with no running jobs, whose directory mirrors
  it. It has the record of every job that had a record or a recovery record, unchanged but for interrupted
  checkpoints, which become pending again. The exceptions are finished records: an expired one is always
  dropped, and when the files can exceed the new limits, the oldest ones may be evicted, none of them later
  than a finished record that is kept. Only then can opening fail, because the records that are
  not settled do not fit.
\<close>

theorem reopen_restores:
  assumes env: "calls_succeed env L (stored s)" "lists_all env"
    and s: "max_bytes \<noteq> - 1" "list_all (values_read_back env) cmds"
      "s = job_run env cmds ((in_memory env wallet_seed max_jobs max_bytes ttl_seconds [] calls)\<lparr>js_directory := Some directory\<rparr>)"
      "list_all (\<lambda>(_, bytes). length bytes \<le> L) (jw_files s)" "length (jw_files s) * L < 2 ^ 64"
    and reopened: "durable env wallet_seed directory max_jobs' max_bytes' ttl_seconds' now (jw_files s) (jw_calls s) = (r, s')"
      "max_bytes' \<noteq> - 1"
    and crowded: "crowded \<longleftrightarrow> unat max_jobs' < length (jw_files s) \<or> unat max_bytes' < length (jw_files s) * L"
  shows "crowded \<and> r = Inl CannotSatisfyBounds \<or>
     r = Inr () \<and> store_wf True s' \<and> mirrored env s' \<and> js_active s' = [] \<and>
     (\<forall>k. bt_get (js_records s') k = map_option repaired (stored s k) \<or>
          bt_get (js_records s') k = None \<and>
          (\<exists>job. stored s k = Some job \<and> sj_status (repaired job) \<noteq> ReconciliationPending \<and>
             (sj_expires_at job \<le> now \<or>
              crowded \<and> (\<forall>k' job'. bt_get (js_records s') k' = Some job' \<longrightarrow> sj_status job' \<noteq> ReconciliationPending \<longrightarrow>
                (sj_finished_at job, k) \<le> (sj_finished_at job', k'))))) \<and>
     (\<forall>k job. bt_get (js_records s') k = Some job \<longrightarrow> sj_status job = ReconciliationPending \<or> now < sj_expires_at job)"
proof -
  have nf: "no_faults env" "codec_ok env" using env(1) by (simp_all add: calls_succeed_def)
  have ms: "mirrored env s" unfolding s(3) by (rule job_run_mirror [OF nf fresh_wf [OF s(1)] fresh_mirrored s(2)])
  have key: "js_key s = derive_job_store_key env wallet_seed"
    unfolding s(3) using job_run_config [OF fresh_wf [OF s(1)], where env = env and cmds = cmds] by (simp add: same_config_def in_memory_def)
  let ?s0 = "(in_memory env wallet_seed max_jobs' max_bytes' ttl_seconds' (jw_files s) (jw_calls s))\<lparr>js_directory := Some directory\<rparr>"
  let ?s1 = "?s0\<lparr>jw_calls := Suc (Suc (Suc (jw_calls s)))\<rparr>"
  have l0: "loaded env L (stored s) {} ?s0" by (rule open_files_loaded [OF ms key s(4)])
  have files: "jw_files ?s0 = jw_files s" by (simp add: in_memory_def)
  obtain s2 where s2: "st_for (je_order env (map fst (jw_files ?s0))) (load_entry env) ?s1 = (Inr (), s2)" "mirrored env s2"
    "\<And>k. stored s2 k = map_option repaired (stored s k)" "js_active s2 = []" "same_config ?s0 s2"
    "unat (js_total_bytes s2) \<le> length (jw_files ?s0) * L" "bt_sum finished (js_records s2) \<le> length (jw_files ?s0)"
    by (rule scan_ok [OF env l0, of ?s1]) (use s(5) in \<open>auto simp: in_memory_def\<close>)
  obtain s3 where s3: "purge_expired env now s2 = (Inr (), s3)" "mirrored env s3" "evicted (expired_by now) s2 s3"
    "\<And>k job. bt_get (js_records s3) k = Some job \<Longrightarrow> sj_status job = ReconciliationPending \<or> now < sj_expires_at job"
    using purge_ok [OF nf(1) s2(2)] by metis
  have run: "enforce_bounds env None s3 = (r, s')"
    using reopened(1) s2(1) s3(1)
    by (simp add: durable_def load_def create_private_directory_def st_bind_def os_call_ok nf st_read_def in_memory_def)
  have quiet: "r = Inr () \<and> s' = s3" if "\<not> crowded"
  proof -
    have "max_jobs' \<le> js_max_jobs s3" "max_bytes' \<le> js_max_bytes s3"
      using s2(5) evicted_fields(3, 4) [OF s3(3)] by (simp_all add: same_config_def in_memory_def)
    moreover have "unat (js_total_bytes s3) \<le> unat max_bytes'" "records_counted_for_job_limit s3 \<le> unat max_jobs'"
      using that s2(6, 7) evicted_fields(8, 9) [OF s3(3)] counted_core [OF mirroredD(1) [OF s3(2)]]
      by (simp_all add: crowded files word_le_nat_alt)
    ultimately have "\<not> over_bounds s3" by (simp add: over_bounds_def word_le_nat_alt word_less_nat_alt)
    then show ?thesis using run by (simp add: enforce_bounds_def st_read_def st_ok_def)
  qed
  note e = enforce_bounds_ok [OF nf(1) s3(2) run]
  show ?thesis
  proof (cases "r = Inr ()")
    case False
    then show ?thesis using e(2) quiet by blast
  next
    case True
    have ev: "evicted (\<lambda>k job. expired_by now k job \<or> other None k job) s2 s'" using evicted_trans [OF s3(3)] e(3) [OF True] by blast
    note f = evicted_fields [OF ev]
    have rec2: "bt_get (js_records s2) k = map_option repaired (stored s k)" for k
      using s2(3) [of k] s2(4) by (auto simp: stored_def active_recovery_def split: option.splits)
    have "bt_get (js_records s') k = map_option repaired (stored s k) \<or>
          bt_get (js_records s') k = None \<and> (\<exists>job. stored s k = Some job \<and> sj_status (repaired job) \<noteq> ReconciliationPending \<and>
             (sj_expires_at job \<le> now \<or>
              crowded \<and> (\<forall>k' job'. bt_get (js_records s') k' = Some job' \<longrightarrow> sj_status job' \<noteq> ReconciliationPending \<longrightarrow>
                (sj_finished_at job, k) \<le> (sj_finished_at job', k'))))" for k
    proof -
      have late: "crowded" if "s' \<noteq> s3" using that quiet by blast
      have "\<exists>old. stored s k = Some old \<and> job = repaired old" if "bt_get (js_records s2) k = Some job" for job
        using that rec2 [of k] by auto
      then show ?thesis
        using restored_or_older [OF nf(1) s3(2, 3) run True, of k] late rec2 [of k] unfolding expired_by_def
        by (metis repaired_fields(4, 5))
    qed
    moreover have "store_wf True s'"
      using e(1) e(3) [OF True] f(3-6) s2(4, 5) reopened(2)
      by (auto simp: store_wf_def mirrored_def over_bounds_def same_config_def in_memory_def max_def not_less)
    moreover have "sj_status job = ReconciliationPending \<or> now < sj_expires_at job" if "bt_get (js_records s') k = Some job" for k job
      using s3(4) evicted_records [OF _ that] e(3) [OF True] by blast
    ultimately show ?thesis using True e(1) f(6) s2(4) by simp
  qed
qed

theorem reopen_restores_witness:
  "let (r, s') = durable recovery_env [] ''vault'' 2 2000 60 10 (jw_files recovery_store) (jw_calls recovery_store)
   in r = Inr () \<and> bt_get (js_records s') ''job_1'' = Some sample_recovery \<and> bt_get (js_records s') ''job_2'' = None"
proof -
  obtain r s' where run:
      "durable recovery_env [] ''vault'' 2 2000 60 10 (jw_files recovery_store) (jw_calls recovery_store) = (r, s')"
    by (rule prod.exhaust)
  have "list_all (\<lambda>(_, bytes). length bytes \<le> 1000) (jw_files recovery_store)" "length (jw_files recovery_store) = 1"
    by (simp_all add: recovery_store_eval in_memory_def sample_sealed_def as_bytes_def)
  moreover have "lists_all recovery_env" by (simp add: lists_all_def recovery_env_def plain_env_def)
  moreover have "\<not> interrupted_checkpoint sample_recovery" "sj_expires_at sample_recovery = 66"
    by (simp_all add: interrupted_checkpoint_def sample_recovery_def interrupted_record_def sat_add_def)
  ultimately show ?thesis
    using reopen_restores [OF recovery_calls_succeed _ _ _ recovery_store_def _ _ run _ refl]
    by (auto simp: run recovery_store_stored repaired_def split: if_splits dest: spec [where x = "''job_1''"] spec [where x = "''job_2''"])
qed

end
