(* ===== verification/Reasoning_Stream.thy ===== *)
theory Reasoning_Stream
  imports Mayhem_Prelude
begin

text \<open>
  The reasoning view of a stream (\<open>mayhem-gateway/src/openai/incremental_output.rs\<close>): text arrives in
  pieces, the delimiters of the reasoning section are removed, what follows the closing one is dropped,
  and a suffix that may become a delimiter is held back until the next piece. Strings are their UTF-8
  bytes; the delimiters are ASCII, so every cut is at the boundary of a character.

  No two delimiters overlap in a text, because each of them starts with the only \<open><\<close> it has. So the
  reader is a function of the text alone: how the text was cut into pieces does not change what is shown.
\<close>

section \<open>The reader\<close>

record reasoning_stream =
  rs_pending :: string
  rs_ended :: bool

definition reasoning_markers :: "string list" where
  "reasoning_markers = [''<think>'', ''</think>'', ''<|channel>thought'' @ [CHR 0x0A], ''<channel|>'']"

definition reasoning_default :: reasoning_stream where
  "reasoning_default = \<lparr>rs_pending = [], rs_ended = False\<rparr>"

text \<open>\<open>str::find\<close>.\<close>

fun str_find :: "string \<Rightarrow> string \<Rightarrow> nat option" where
  "str_find pat s =
     (if starts_with s pat then Some 0
      else case s of [] \<Rightarrow> None | _ # s' \<Rightarrow> map_option Suc (str_find pat s'))"

declare str_find.simps [simp del]

definition first_marker :: "string \<Rightarrow> (nat \<times> string) option" where
  "first_marker p =
     min_by_key fst (List.map_filter (\<lambda>m. map_option (\<lambda>i. (i, m)) (str_find m p)) reasoning_markers)"

definition retained :: "string \<Rightarrow> nat" where
  "retained p =
     fold max (map length (filter (\<lambda>q. starts_with (rev p) (rev q))
       (concat (map (\<lambda>m. map (\<lambda>n. take n m) [1..<length m]) reasoning_markers)))) 0"

definition closing_marker :: "string \<Rightarrow> bool" where
  "closing_marker m \<longleftrightarrow> m = ''</think>'' \<or> m = ''<channel|>''"

definition hit :: "string \<Rightarrow> nat \<Rightarrow> string \<Rightarrow> bool" where
  "hit p i m \<longleftrightarrow> m \<in> set reasoning_markers \<and> starts_with (drop i p) m"

lemma starts_with_iff: "starts_with s p \<longleftrightarrow> (\<exists>t. s = p @ t)"
  unfolding starts_with_def by (metis append_eq_conv_conj append_take_drop_id)

lemma str_find_Some: "str_find m p = Some i \<Longrightarrow> starts_with (drop i p) m \<and> (\<forall>j < i. \<not> starts_with (drop j p) m)"
proof (induction m p arbitrary: i rule: str_find.induct)
  case (1 m p)
  show ?case
  proof (cases "starts_with p m")
    case True
    then show ?thesis using "1.prems" by (simp add: str_find.simps)
  next
    case False
    then obtain c p' k where p: "p = c # p'" "i = Suc k" "str_find m p' = Some k"
      using "1.prems" by (subst (asm) str_find.simps) (auto split: list.splits)
    then show ?thesis using "1.IH" [OF False p(1) p(3)] False by (auto simp: less_Suc_eq_0_disj)
  qed
qed

lemma str_find_None: "str_find m p = None \<Longrightarrow> \<not> starts_with (drop j p) m"
proof (induction m p arbitrary: j rule: str_find.induct)
  case (1 m p)
  have no: "\<not> starts_with p m" using "1.prems" by (subst (asm) str_find.simps) (auto split: if_splits)
  show ?case
  proof (cases p)
    case Nil
    then show ?thesis using no by simp
  next
    case (Cons c p')
    then have "str_find m p' = None" using "1.prems" no by (subst (asm) str_find.simps) auto
    then show ?thesis using "1.IH" [OF no Cons] no Cons by (cases j) auto
  qed
qed

section \<open>Delimiters do not overlap\<close>

lemma marker_shape:
  assumes "m \<in> set reasoning_markers"
  shows "m \<noteq> []" "m ! 0 = CHR ''<''" "0 < k \<Longrightarrow> k < length m \<Longrightarrow> m ! k \<noteq> CHR ''<''"
proof -
  show "m \<noteq> []" "m ! 0 = CHR ''<''" using assms by (auto simp: reasoning_markers_def)
  have "CHR ''<'' \<notin> set (tl m)" using assms by (auto simp: reasoning_markers_def)
  then show "0 < k \<Longrightarrow> k < length m \<Longrightarrow> m ! k \<noteq> CHR ''<''"
    by (cases m; cases k) (auto dest: nth_mem)
qed

lemma marker_prefix: "m \<in> set reasoning_markers \<Longrightarrow> m' \<in> set reasoning_markers \<Longrightarrow> starts_with s m \<Longrightarrow> starts_with s m' \<Longrightarrow> m = m'"
  by (auto simp: reasoning_markers_def starts_with_iff)

lemma hit_bound: "hit p i m \<Longrightarrow> i + length m \<le> length p"
proof -
  assume h: "hit p i m"
  then obtain t where "drop i p = m @ t" by (auto simp: hit_def starts_with_iff)
  then have "length p - i = length m + length t" "m \<noteq> []" using marker_shape(1) h
    by (auto simp: hit_def dest: arg_cong [where f = length])
  then show ?thesis by (cases m) auto
qed

lemma hit_nth: "hit p i m \<Longrightarrow> k < length m \<Longrightarrow> p ! (i + k) = m ! k"
proof -
  assume h: "hit p i m" and k: "k < length m"
  then obtain t where t: "drop i p = m @ t" by (auto simp: hit_def starts_with_iff)
  have "p ! (i + k) = drop i p ! k" using hit_bound [OF h] by simp
  also have "\<dots> = m ! k" using t k by (simp add: nth_append)
  finally show ?thesis .
qed

lemma hits_apart:
  assumes "hit p j m'" "hit p i m" "j < i"
  shows "j + length m' \<le> i"
proof (rule ccontr)
  assume "\<not> j + length m' \<le> i"
  then have k: "0 < i - j" "i - j < length m'" using assms(3) by auto
  have "p ! i = m' ! (i - j)" using hit_nth [OF assms(1) k(2)] assms(3) by simp
  moreover have "p ! i = CHR ''<''" using hit_nth [OF assms(2), of 0] marker_shape(1, 2) assms(2) by (simp add: hit_def)
  ultimately show False using marker_shape(3) [OF _ k] assms(1) by (simp add: hit_def)
qed

lemma first_marker_Some:
  "first_marker p = Some (i, m) \<longleftrightarrow> hit p i m \<and> (\<forall>j m'. hit p j m' \<longrightarrow> i \<le> j)"
proof -
  let ?found = "List.map_filter (\<lambda>m. map_option (\<lambda>i. (i, m)) (str_find m p)) reasoning_markers"
  have found: "(j, m') \<in> set ?found \<longleftrightarrow> m' \<in> set reasoning_markers \<and> str_find m' p = Some j" for j m'
    by (force simp: List.map_filter_def image_iff)
  have early: "\<exists>j'\<le>j. (j', m') \<in> set ?found" if h: "hit p j m'" for j m'
  proof -
    have "str_find m' p \<noteq> None" using h str_find_None [of m' p j] by (auto simp: hit_def)
    then obtain j' where "str_find m' p = Some j'" by auto
    moreover have "j' \<le> j" using str_find_Some [OF calculation] h by (auto simp: hit_def not_less [symmetric])
    ultimately show ?thesis using h found by (auto simp: hit_def)
  qed
  have hits: "hit p j m'" if "(j, m') \<in> set ?found" for j m'
    using that found str_find_Some by (auto simp: hit_def)
  have dir: "hit p i m \<and> (\<forall>j m'. hit p j m' \<longrightarrow> i \<le> j)" if f: "first_marker p = Some (i, m)" for i m
  proof -
    note least = min_by_key_Some [OF f [unfolded first_marker_def]]
    have "i \<le> j" if "hit p j m'" for j m'
      using early [OF that] least by fastforce
    then show ?thesis using least hits by blast
  qed
  show ?thesis
  proof
    assume h: "hit p i m \<and> (\<forall>j m'. hit p j m' \<longrightarrow> i \<le> j)"
    then have "?found \<noteq> []" using early [of i m] by auto
    then have "first_marker p \<noteq> None" unfolding first_marker_def by simp
    then obtain i' m' where f: "first_marker p = Some (i', m')" by auto
    have d: "hit p i' m'" "i' \<le> i" "i \<le> i'" using dir [OF f] h by auto
    then have "m' = m" using h marker_prefix [of m' m "drop i p"] by (auto simp: hit_def)
    then show "first_marker p = Some (i, m)" using f d by simp
  qed (rule dir)
qed

lemma first_marker_None: "first_marker p = None \<longleftrightarrow> (\<forall>i m. \<not> hit p i m)"
proof
  assume n: "first_marker p = None"
  show "\<forall>i m. \<not> hit p i m"
  proof (rule ccontr)
    assume "\<not> (\<forall>i m. \<not> hit p i m)"
    then obtain i m where h: "hit p i m" by blast
    define k where "k = (LEAST i. \<exists>m. hit p i m)"
    have "\<exists>m. hit p k m" unfolding k_def by (rule LeastI [of _ i]) (use h in blast)
    moreover have "\<forall>j m'. hit p j m' \<longrightarrow> k \<le> j" unfolding k_def by (auto intro: Least_le)
    ultimately show False using first_marker_Some n by (metis option.distinct(1))
  qed
next
  assume "\<forall>i m. \<not> hit p i m"
  then show "first_marker p = None" using first_marker_Some by (cases "first_marker p") auto
qed

section \<open>What is held back\<close>

definition partial_marker :: "string \<Rightarrow> nat \<Rightarrow> bool" where
  "partial_marker p n \<longleftrightarrow>
     0 < n \<and> n \<le> length p \<and> (\<exists>m \<in> set reasoning_markers. n < length m \<and> drop (length p - n) p = take n m)"

lemma fold_max_iff: "fold max xs (k :: nat) \<le> n \<longleftrightarrow> k \<le> n \<and> (\<forall>x \<in> set xs. x \<le> n)"
  by (induction xs arbitrary: k) auto

lemma retained_le: "retained p \<le> n \<longleftrightarrow> (\<forall>k. partial_marker p k \<longrightarrow> k \<le> n)"
proof -
  have ends: "starts_with (rev p) (rev (take k m)) \<longleftrightarrow> k \<le> length p \<and> drop (length p - k) p = take k m" if "k < length m" for k m
    using that by (auto simp: starts_with_def take_rev dest: arg_cong [where f = length])
  have "set (map length (filter (\<lambda>q. starts_with (rev p) (rev q))
      (concat (map (\<lambda>m. map (\<lambda>n. take n m) [1..<length m]) reasoning_markers)))) = {k. partial_marker p k}"
    by (auto simp: ends partial_marker_def image_iff) (metis Suc_leI atLeastLessThan_iff ends length_take less_imp_le min.absorb2)+
  then show ?thesis unfolding retained_def fold_max_iff by auto
qed

lemma retained_bound: "retained p \<le> length p"
  by (simp add: retained_le partial_marker_def)

lemma partial_retained: "partial_marker p k \<Longrightarrow> k \<le> retained p"
  using retained_le [of p "retained p"] by simp

section \<open>The loop\<close>

function reasoning_scan :: "string \<Rightarrow> string \<times> reasoning_stream" where
  "reasoning_scan p =
     (case first_marker p of
        Some (i, m) \<Rightarrow>
          if closing_marker m then (take i p, \<lparr>rs_pending = [], rs_ended = True\<rparr>)
          else let (out, s) = reasoning_scan (drop (i + length m) p) in (take i p @ out, s)
      | None \<Rightarrow>
          let e = length p - retained p in (take e p, \<lparr>rs_pending = drop e p, rs_ended = False\<rparr>))"
  by pat_completeness auto
termination
proof (relation "measure length")
  fix p x i m
  assume "first_marker p = Some x" "(i, m) = x"
  then have "hit p i m" using first_marker_Some by metis
  then show "(drop (i + length m) p, p) \<in> measure length"
    using hit_bound [of p i m] marker_shape(1) [of m] by (cases m) (auto simp: hit_def)
qed simp

declare reasoning_scan.simps [simp del]

definition reasoning_push :: "string \<Rightarrow> reasoning_stream \<Rightarrow> string \<times> reasoning_stream" where
  "reasoning_push txt s = (if rs_ended s then ([], s) else reasoning_scan (rs_pending s @ txt))"

definition reasoning_finish :: "reasoning_stream \<Rightarrow> string \<times> reasoning_stream" where
  "reasoning_finish s = (rs_pending s, s\<lparr>rs_pending := []\<rparr>)"

definition reasoning_text :: "string \<Rightarrow> string" where
  "reasoning_text evidence =
     (let (txt, s) = reasoning_push evidence reasoning_default in txt @ fst (reasoning_finish s))"

lemma hit_append: "hit p i m \<Longrightarrow> hit (p @ b) i m"
  by (auto simp: hit_def starts_with_iff)

lemma hit_append_iff: "i + length m \<le> length p \<Longrightarrow> hit (p @ b) i m \<longleftrightarrow> hit p i m"
  by (auto simp: hit_def starts_with_def)

lemma first_marker_append:
  assumes "first_marker p = Some (i, m)"
  shows "first_marker (p @ b) = Some (i, m)"
proof -
  have h: "hit p i m" "\<And>j m'. hit p j m' \<Longrightarrow> i \<le> j" using assms first_marker_Some by blast+
  have "i \<le> j" if j: "hit (p @ b) j m'" for j m'
  proof (rule ccontr)
    assume lt: "\<not> i \<le> j"
    then have "j + length m' \<le> i" using hits_apart [OF j hit_append [OF h(1)]] by simp
    then have "hit p j m'" using j hit_append_iff [of j m' p b] hit_bound [OF h(1)] by simp
    then show False using h(2) lt by blast
  qed
  then show ?thesis using hit_append [OF h(1)] first_marker_Some by blast
qed

lemma hit_after_retained:
  assumes "first_marker p = None" "hit (p @ b) j m"
  shows "length p - retained p \<le> j"
proof (cases "length p \<le> j")
  case False
  let ?n = "length p - j"
  have m: "m \<in> set reasoning_markers" using assms(2) by (simp add: hit_def)
  have n: "?n < length m"
  proof (rule ccontr)
    assume "\<not> ?n < length m"
    then have "hit p j m" using assms(2) hit_append_iff [of j m p b] False by simp
    then show False using assms(1) first_marker_None by blast
  qed
  obtain t where "drop j (p @ b) = m @ t" using assms(2) by (auto simp: hit_def starts_with_iff)
  then have "drop j p @ b = m @ t" using False by simp
  then have "take ?n (drop j p @ b) = take ?n (m @ t)" by simp
  then have "drop j p = take ?n m" using n by simp
  then have "partial_marker p ?n" using m n False by (auto simp: partial_marker_def)
  then show ?thesis using partial_retained [of p ?n] by linarith
qed simp

lemma hit_shift: "e \<le> length p \<Longrightarrow> hit (drop e p @ b) k m \<longleftrightarrow> hit (p @ b) (e + k) m"
  by (simp add: hit_def drop_append add.commute)

lemma partial_after_retained:
  assumes "partial_marker (p @ b) n"
  shows "n \<le> retained p + length b"
proof (cases "n \<le> length b")
  case False
  let ?k = "n - length b"
  obtain m where m: "m \<in> set reasoning_markers" "n < length m" "drop (length (p @ b) - n) (p @ b) = take n m"
    and n: "n \<le> length (p @ b)" using assms by (auto simp: partial_marker_def)
  have "length (p @ b) - n = length p - ?k" using False by simp
  then have "drop (length p - ?k) p @ b = take n m" using m(3) False by simp
  then have "take ?k (drop (length p - ?k) p @ b) = take ?k (take n m)" by simp
  then have "drop (length p - ?k) p = take ?k m" using False n by (simp add: min_def)
  then have "partial_marker p ?k" unfolding partial_marker_def using m(1, 2) False n by (intro conjI bexI [of _ m]) auto
  then show ?thesis using partial_retained [of p ?k] by linarith
qed simp

lemma retained_append:
  assumes "e = length p - retained p"
  shows "retained (drop e p @ b) = retained (p @ b)"
proof -
  have len: "length (drop e p) = retained p" using assms retained_bound [of p] by simp
  have "partial_marker (drop e p @ b) n \<longleftrightarrow> partial_marker (p @ b) n" for n
  proof (cases "n \<le> retained p + length b")
    case True
    have "drop (length (p @ b) - n) (p @ b) = drop (length (drop e p @ b) - n) (drop e p @ b)"
      using True assms retained_bound [of p] by (simp add: drop_append add.commute)
    then show ?thesis using True assms retained_bound [of p] by (simp add: partial_marker_def)
  next
    case False
    then show ?thesis using partial_after_retained [of p b n] len by (auto simp: partial_marker_def)
  qed
  then have "retained (drop e p @ b) \<le> n \<longleftrightarrow> retained (p @ b) \<le> n" for n by (simp add: retained_le)
  then show ?thesis by (meson order_antisym order_refl)
qed

lemma cut_shift:
  assumes "e \<le> length p"
  shows "take (e + n) (p @ b) = take e p @ take n (drop e p @ b)" "drop (e + n) (p @ b) = drop n (drop e p @ b)"
proof -
  show "take (e + n) (p @ b) = take e p @ take n (drop e p @ b)" using assms by (subst take_add) simp
  show "drop (e + n) (p @ b) = drop n (drop e p @ b)" using assms by (subst add.commute, subst drop_drop [symmetric]) simp
qed

text \<open>A text without delimiters only loses what is held back; the rest of it is read with the next piece.\<close>

lemma reasoning_scan_held:
  assumes "first_marker p = None" "e = length p - retained p"
  shows "reasoning_scan (p @ b) = map_prod ((@) (take e p)) id (reasoning_scan (drop e p @ b))"
proof (cases "first_marker (drop e p @ b)")
  case None
  have le: "e \<le> length p" using assms(2) by simp
  have "\<not> hit (p @ b) i m" for i m
  proof
    assume h: "hit (p @ b) i m"
    then have "hit (drop e p @ b) (i - e) m"
      using hit_after_retained [OF assms(1) h] hit_shift [OF le, of b "i - e" m] assms(2) by simp
    then show False using None first_marker_None by blast
  qed
  then have nohit: "first_marker (p @ b) = None" using first_marker_None by blast
  define n where "n = length (drop e p @ b) - retained (p @ b)"
  have "retained (p @ b) \<le> retained p + length b"
    using partial_after_retained by (simp add: retained_le)
  then have len: "length (p @ b) - retained (p @ b) = e + n" using assms(2) retained_bound [of p] by (simp add: n_def)
  have "reasoning_scan (p @ b) = (take (e + n) (p @ b), \<lparr>rs_pending = drop (e + n) (p @ b), rs_ended = False\<rparr>)"
    using nohit by (subst reasoning_scan.simps) (simp only: len Let_def option.case)
  moreover have "reasoning_scan (drop e p @ b) = (take n (drop e p @ b), \<lparr>rs_pending = drop n (drop e p @ b), rs_ended = False\<rparr>)"
    using None retained_append [OF assms(2), of b] by (subst reasoning_scan.simps) (simp only: n_def Let_def option.case)
  ultimately show ?thesis by (simp only: cut_shift [OF le] map_prod_simp id_apply)
next
  case (Some x)
  have le: "e \<le> length p" using assms(2) by simp
  obtain k m where f: "first_marker (drop e p @ b) = Some (k, m)" using Some by (cases x) auto
  then have h: "hit (drop e p @ b) k m" "\<And>j m'. hit (drop e p @ b) j m' \<Longrightarrow> k \<le> j"
    using first_marker_Some by blast+
  have "e + k \<le> i" if i: "hit (p @ b) i m'" for i m'
    using hit_after_retained [OF assms(1) i] hit_shift [OF le, of b "i - e" m'] i h(2) [of "i - e" m'] assms(2) by auto
  then have "first_marker (p @ b) = Some (e + k, m)"
    using h(1) hit_shift [OF le] first_marker_Some by blast
  then show ?thesis
    using f by (subst (1 2) reasoning_scan.simps) (simp only: option.case prod.case cut_shift [OF le] add.assoc, simp add: split_beta)
qed

lemma reasoning_scan_append:
  "reasoning_scan (p @ b) =
     (let (out, s) = reasoning_scan p; (out', s') = reasoning_push b s in (out @ out', s'))"
proof (induction p rule: reasoning_scan.induct)
  case (1 p)
  show ?case
  proof (cases "first_marker p")
    case None
    then have "reasoning_scan p = (take (length p - retained p) p, \<lparr>rs_pending = drop (length p - retained p) p, rs_ended = False\<rparr>)"
      by (subst reasoning_scan.simps) (simp add: Let_def)
    then show ?thesis
      unfolding reasoning_scan_held [OF None refl, of b] by (simp add: reasoning_push_def split_beta map_prod_def Let_def)
  next
    case (Some x)
    then obtain i m where f: "first_marker p = Some (i, m)" by (cases x) auto
    have le: "i + length m \<le> length p" using f first_marker_Some hit_bound by blast
    show ?thesis
    proof (cases "closing_marker m")
      case True
      then show ?thesis
        using f first_marker_append [OF f, of b] le
        by (subst (1 2) reasoning_scan.simps) (simp add: reasoning_push_def)
    next
      case False
      have ih: "reasoning_scan (drop (i + length m) p @ b) =
          (let (out, s) = reasoning_scan (drop (i + length m) p); (out', s') = reasoning_push b s in (out @ out', s'))"
        using "1.IH" [OF f refl False] .
      show ?thesis
        using f first_marker_append [OF f, of b] le False ih
        by (subst (1 2) reasoning_scan.simps) (simp add: Let_def split_beta)
    qed
  qed
qed

lemma reasoning_push_append:
  "reasoning_push (a @ b) s = (let (out, s') = reasoning_push a s; (out', s'') = reasoning_push b s' in (out @ out', s''))"
  using reasoning_scan_append [of "rs_pending s @ a" b] by (auto simp: reasoning_push_def Let_def split_beta)

lemma reasoning_run:
  "reasoning_push (a @ concat cs) reasoning_default =
     (let (out, s) = reasoning_push a reasoning_default; (outs, s') = run_outputs reasoning_push cs s in (out @ concat outs, s'))"
proof (induction cs arbitrary: a)
  case (Cons c cs)
  have "reasoning_push (a @ concat (c # cs)) reasoning_default = reasoning_push ((a @ c) @ concat cs) reasoning_default" by simp
  then show ?case unfolding Cons.IH by (simp add: reasoning_push_append Let_def split_beta)
qed (simp add: split_beta)

lemma reasoning_idle: "reasoning_push [] reasoning_default = ([], reasoning_default)"
proof -
  have "first_marker [] = None" using first_marker_None hit_bound [of "[]"] marker_shape(1) by (auto simp: hit_def)
  then show ?thesis by (simp add: reasoning_push_def reasoning_default_def reasoning_scan.simps)
qed

lemma reasoning_scan_closed:
  assumes "first_marker a = None"
  shows "reasoning_scan (a @ ''</think>'' @ rest) = (a, \<lparr>rs_pending = [], rs_ended = True\<rparr>)"
proof -
  have m: "''</think>'' \<in> set reasoning_markers" by (simp add: reasoning_markers_def)
  have h: "hit (a @ ''</think>'' @ rest) (length a) ''</think>''"
    using m by (simp add: hit_def starts_with_def)
  have "length a \<le> j" if j: "hit (a @ ''</think>'' @ rest) j m'" for j m'
  proof (rule ccontr)
    assume "\<not> length a \<le> j"
    then have "j + length m' \<le> length a" using hits_apart [OF j h] by simp
    then show False using j hit_append_iff [of j m' a] assms first_marker_None by blast
  qed
  then have "first_marker (a @ ''</think>'' @ rest) = Some (length a, ''</think>'')"
    using h first_marker_Some by blast
  then show ?thesis by (subst reasoning_scan.simps) (simp add: closing_marker_def)
qed

section \<open>Properties\<close>

text \<open>
  C29. The reasoning that is shown does not depend on how the provider cut the text into pieces: what is
  returned for the pieces, together with what is left at the end, is the reasoning text of the whole.
\<close>

theorem reasoning_chunking:
  "(let (outs, s) = run_outputs reasoning_push cs reasoning_default in concat outs @ fst (reasoning_finish s)) =
     reasoning_text (concat cs)"
  using reasoning_run [of "[]" cs] by (simp add: reasoning_text_def reasoning_idle split_beta Let_def)

text \<open>
  The reasoning text of a section is what stands between its delimiters: the delimiters and
  everything after the closing one are removed, and a text without delimiters is shown unchanged.
\<close>

lemma reasoning_section:
  assumes "first_marker a = None"
  shows "reasoning_text (''<think>'' @ a @ ''</think>'' @ rest) = a \<and> reasoning_text (a @ ''</think>'' @ rest) = a \<and>
     reasoning_text a = a"
proof -
  let ?p = "''<think>'' @ a @ ''</think>'' @ rest"
  have h: "hit ?p 0 ''<think>''" by (simp add: hit_def starts_with_def reasoning_markers_def)
  then have "first_marker ?p = Some (0, ''<think>'')" using first_marker_Some by blast
  then have "reasoning_scan ?p = (let (out, s) = reasoning_scan (a @ ''</think>'' @ rest) in ([] @ out, s))"
    by (subst reasoning_scan.simps) (simp add: closing_marker_def)
  moreover have "reasoning_scan a = (take (length a - retained a) a, \<lparr>rs_pending = drop (length a - retained a) a, rs_ended = False\<rparr>)"
    using assms by (subst reasoning_scan.simps) (simp add: Let_def)
  ultimately show ?thesis
    using reasoning_scan_closed [OF assms, of rest]
    by (simp add: reasoning_text_def reasoning_push_def reasoning_default_def reasoning_finish_def)
qed

lemma reasoning_section_witness:
  "reasoning_text (''<think>a < b</think> so'') = ''a < b''"
proof -
  have "first_marker ''a < b'' = None"
    by (simp add: first_marker_def reasoning_markers_def List.map_filter_def str_find.simps starts_with_def)
  from reasoning_section [OF this, of "'' so''"] show ?thesis by simp
qed

end
