(* ===== verification/Tool_Stream.thy ===== *)
theory Tool_Stream
  imports State_Result Json_Value
begin

text \<open>
  Streamed tool calls (\<open>mayhem-gateway/src/openai/incremental_output.rs\<close>): the arguments of a call arrive
  in pieces and are passed on, except that the last byte of a complete value is held back until the
  provider's final answer has been compared with what was streamed. \<open>serde_json\<close> is the record \<open>tx\<close>; a
  slice that ends before it starts, outside the text or inside a character panics, which is the error
  \<open>SlicePanic\<close>.
\<close>

section \<open>Data\<close>

record tool_call_output =
  tc_id :: string
  tc_name :: string
  tc_arguments :: string

record tool_stream =
  ts_calls :: "tool_call_output list"
  ts_public_lengths :: "nat list"
  ts_bytes :: u64
  ts_finalized :: bool

definition tool_stream_default :: tool_stream where
  "tool_stream_default = \<lparr>ts_calls = [], ts_public_lengths = [], ts_bytes = 0, ts_finalized = False\<rparr>"

text \<open>The members of a request that are read, and the messages of \<open>GatewaySessionError\<close>.\<close>

record 'n tool_request =
  tr_tools :: "'n json list option"
  tr_parallel_tool_calls :: "bool option"

datatype tool_error = ToolError string | SlicePanic

text \<open>
  \<open>Value::as_u64\<close>, numbers from integers, \<open>from_str\<close>, and the offset behind the first value of a
  \<open>StreamDeserializer\<close> when it reads one.
\<close>

record 'n json_text =
  jt_as_u64 :: "'n \<Rightarrow> nat option"
  jt_of_nat :: "nat \<Rightarrow> 'n"
  jt_from_str :: "string \<Rightarrow> 'n json option"
  jt_first :: "string \<Rightarrow> nat option"

text \<open>What is passed on: \<open>pd_identity\<close> is set for the first piece of a call.\<close>

record public_delta =
  pd_index :: nat
  pd_identity :: "(string \<times> string) option"
  pd_arguments :: string

definition public_json :: "'n json_text \<Rightarrow> public_delta \<Rightarrow> 'n json" where
  "public_json tx d =
     (case pd_identity d of
        None \<Rightarrow>
          JObject [(''index'', JNumber (jt_of_nat tx (pd_index d))),
            (''function'', JObject [(''arguments'', JString (pd_arguments d))])]
      | Some (cid, name) \<Rightarrow>
          JObject [(''index'', JNumber (jt_of_nat tx (pd_index d))),
            (''function'', JObject [(''arguments'', JString (pd_arguments d)), (''name'', JString name)]),
            (''id'', JString cid), (''type'', JString ''function'')])"

definition final_json :: "'n json_text \<Rightarrow> public_delta \<Rightarrow> 'n json" where
  "final_json tx d =
     (case pd_identity d of
        None \<Rightarrow> public_json tx d
      | Some (cid, name) \<Rightarrow>
          JObject [(''index'', JNumber (jt_of_nat tx (pd_index d))), (''id'', JString cid), (''type'', JString ''function''),
            (''function'', JObject [(''name'', JString name), (''arguments'', JString (pd_arguments d))])])"

definition json_as_u64 :: "'n json_text \<Rightarrow> 'n json \<Rightarrow> nat option" where
  "json_as_u64 tx v = (case v of JNumber n \<Rightarrow> jt_as_u64 tx n | _ \<Rightarrow> None)"

section \<open>Operations\<close>

definition str_trim_start :: "string \<Rightarrow> string" where
  "str_trim_start s = drop_chars (length s) white_space s"

definition str_trim_end :: "string \<Rightarrow> string" where
  "str_trim_end s = rev (drop_chars (length s) (map rev white_space) (rev s))"

text \<open>\<open>s.char_indices().last()\<close>: where the last character starts, behind which only continuation bytes follow.\<close>

definition last_char_index :: "string \<Rightarrow> nat" where
  "last_char_index s =
     length s - 1 - length (takeWhile (\<lambda>c. 0x80 \<le> byte_of c \<and> byte_of c \<le> 0xBF) (rev s))"

definition opens_value :: "string \<Rightarrow> bool" where
  "opens_value s \<longleftrightarrow> starts_with (str_trim_start s) ''{'' \<or> starts_with (str_trim_start s) ''[''"

definition provisional_argument_end :: "'n json_text \<Rightarrow> string \<Rightarrow> nat option" where
  "provisional_argument_end tx arguments =
     (if \<not> opens_value arguments then Some 0
      else case jt_first tx arguments of
        Some offset \<Rightarrow> map_option (\<lambda>text. last_char_index (str_trim_end text)) (str_slice arguments 0 offset)
      | None \<Rightarrow> Some (length arguments))"

definition tool_name :: "'n json \<Rightarrow> string option" where
  "tool_name tool =
     Option.bind
       (case json_pointer tool [''function'', ''name''] of Some v \<Rightarrow> Some v | None \<Rightarrow> json_get tool ''name'')
       json_as_str"

definition advertised :: "'n tool_request \<Rightarrow> string \<Rightarrow> bool" where
  "advertised request name \<longleftrightarrow>
     list_ex (\<lambda>tool. tool_name tool = Some name) (case tr_tools request of None \<Rightarrow> [] | Some tools \<Rightarrow> tools)"

text \<open>\<open>str::len\<close>; a string has fewer than \<open>2 ^ 63\<close> bytes.\<close>

definition str_len :: "string \<Rightarrow> u64" where
  "str_len s = (if length s < 2 ^ 64 then of_nat (length s) else - 1)"

definition start_call :: "'n tool_request \<Rightarrow> nat \<Rightarrow> 'n json \<Rightarrow> (tool_stream, tool_error, (string \<times> string) option) st_result" where
  "start_call request index delta =
     (if index \<ge> 1024 \<or> index > 0 \<and> tr_parallel_tool_calls request = Some False
      then st_err (ToolError ''too many streamed tool calls'')
      else
        st_bind (st_lift (ok_or
          (case Option.bind (json_get delta ''id'') json_as_str of None \<Rightarrow> None | Some i \<Rightarrow> if i \<noteq> [] then Some i else None)
          (ToolError ''first tool delta missing id''))) (\<lambda>cid.
        st_bind (st_lift (ok_or (Option.bind (json_get delta ''name'') json_as_str)
          (ToolError ''first tool delta missing name''))) (\<lambda>name.
        if \<not> advertised request name then st_err (ToolError ''provider streamed an unadvertised tool'')
        else st_read (\<lambda>s.
          if list_ex (\<lambda>call. tc_id call = cid) (ts_calls s) then st_err (ToolError ''duplicate streamed tool id'')
          else
            st_bind (st_modify (\<lambda>s.
              s\<lparr>ts_bytes := sat_add (sat_add (ts_bytes s) (str_len cid)) (str_len name),
                ts_calls := ts_calls s @ [\<lparr>tc_id = cid, tc_name = name, tc_arguments = []\<rparr>],
                ts_public_lengths := ts_public_lengths s @ [0]\<rparr>)) (\<lambda>_.
            st_ok (Some (cid, name)))))))"

definition call_identity :: "'n tool_request \<Rightarrow> nat \<Rightarrow> 'n json \<Rightarrow> (tool_stream, tool_error, (string \<times> string) option) st_result" where
  "call_identity request index delta =
     st_read (\<lambda>s.
       if index = length (ts_calls s) then start_call request index delta
       else if json_get delta ''id'' \<noteq> None \<or> json_get delta ''name'' \<noteq> None
       then st_err (ToolError ''tool delta attempted to replace call identity'')
       else st_ok None)"

definition append_arguments :: "nat \<Rightarrow> string \<Rightarrow> tool_stream \<Rightarrow> tool_stream" where
  "append_arguments index arguments s =
     s\<lparr>ts_calls := (ts_calls s)[index := (ts_calls s ! index)\<lparr>tc_arguments := tc_arguments (ts_calls s ! index) @ arguments\<rparr>]\<rparr>"

definition publish_arguments ::
    "'n json_text \<Rightarrow> nat \<Rightarrow> (string \<times> string) option \<Rightarrow> (tool_stream, tool_error, public_delta) st_result" where
  "publish_arguments tx index identity =
     st_read (\<lambda>s.
       let arguments = tc_arguments (ts_calls s ! index);
           start = ts_public_lengths s ! index
       in case provisional_argument_end tx arguments of
            None \<Rightarrow> st_err SlicePanic
          | Some stop \<Rightarrow> (case str_slice arguments start stop of
              None \<Rightarrow> st_err SlicePanic
            | Some piece \<Rightarrow>
                st_bind (st_modify (\<lambda>s. s\<lparr>ts_public_lengths := (ts_public_lengths s)[index := stop]\<rparr>)) (\<lambda>_.
                st_ok \<lparr>pd_index = index, pd_identity = identity, pd_arguments = piece\<rparr>)))"

definition tool_delta ::
    "'n json_text \<Rightarrow> 'n tool_request \<Rightarrow> u64 \<Rightarrow> 'n json \<Rightarrow> (tool_stream, tool_error, public_delta) st_result" where
  "tool_delta tx request limit delta =
     st_bind (st_lift (ok_or (Option.bind (json_get delta ''index'') (json_as_u64 tx)) (ToolError ''tool delta missing index''))) (\<lambda>index.
     st_read (\<lambda>s.
       if index > length (ts_calls s) then st_err (ToolError ''tool delta skipped a call index'')
       else
         st_bind (st_lift (ok_or (Option.bind (json_get delta ''arguments'') json_as_str)
           (ToolError ''tool delta missing arguments''))) (\<lambda>arguments.
         st_bind (call_identity request index delta) (\<lambda>identity.
         st_bind (st_modify (\<lambda>s. s\<lparr>ts_bytes := sat_add (ts_bytes s) (str_len arguments)\<rparr>)) (\<lambda>_.
         st_read (\<lambda>s.
           if ts_bytes s > limit then st_err (ToolError ''streamed tool arguments exceeded session text limit'')
           else
             st_bind (st_modify (append_arguments index arguments)) (\<lambda>_.
             publish_arguments tx index identity)))))))"

primrec tool_deltas ::
    "'n json_text \<Rightarrow> 'n tool_request \<Rightarrow> u64 \<Rightarrow> 'n json list \<Rightarrow> (tool_stream, tool_error, public_delta list) st_result" where
  "tool_deltas tx request limit [] = st_ok []"
| "tool_deltas tx request limit (delta # deltas) =
     st_bind (tool_delta tx request limit delta) (\<lambda>d.
     st_bind (tool_deltas tx request limit deltas) (\<lambda>ds. st_ok (d # ds)))"

definition tool_frame ::
    "'n json_text \<Rightarrow> 'n tool_request \<Rightarrow> u64 \<Rightarrow> 'n json \<Rightarrow> (tool_stream, tool_error, public_delta list) st_result" where
  "tool_frame tx request limit frame =
     (case json_get frame ''tool_calls_delta'' of
        None \<Rightarrow> st_ok []
      | Some raw \<Rightarrow>
          st_bind (st_lift (ok_or (json_as_array raw) (ToolError ''tool_calls_delta must be an array''))) (\<lambda>deltas.
          st_read (\<lambda>s.
            if ts_finalized s \<and> deltas \<noteq> [] then st_err (ToolError ''tool deltas followed final tool calls'')
            else tool_deltas tx request limit deltas)))"

definition tool_push ::
    "'n json_text \<Rightarrow> 'n tool_request \<Rightarrow> u64 \<Rightarrow> 'n json \<Rightarrow> (tool_stream, tool_error, 'n json list) st_result" where
  "tool_push tx request limit frame =
     st_bind (tool_frame tx request limit frame) (\<lambda>ds. st_ok (map (public_json tx) ds))"

definition final_delta :: "'n json_text \<Rightarrow> tool_stream \<Rightarrow> nat \<Rightarrow> tool_call_output \<Rightarrow> tool_error + public_delta list" where
  "final_delta tx s index call =
     (if index < length (ts_calls s) then
        let prior = ts_calls s ! index;
            shown = ts_public_lengths s ! index;
            rest = (\<lambda>arguments. case str_slice arguments shown (length arguments) of
                None \<Rightarrow> Inl SlicePanic
              | Some tail \<Rightarrow> Inr (if tail \<noteq> [] then [\<lparr>pd_index = index, pd_identity = None, pd_arguments = tail\<rparr>] else []))
        in
        if tc_id prior \<noteq> tc_id call \<or> tc_name prior \<noteq> tc_name call
        then Inl (ToolError ''final tool identity differs from streamed call'')
        else if starts_with (tc_arguments call) (tc_arguments prior) then rest (tc_arguments call)
        else
          rbind (ok_or (jt_from_str tx (tc_arguments prior)) (ToolError ''streamed tool arguments are incomplete'')) (\<lambda>streamed.
          rbind (ok_or (jt_from_str tx (tc_arguments call)) (ToolError ''final tool arguments are invalid'')) (\<lambda>final_args.
          if \<not> json_eq streamed final_args then Inl (ToolError ''final tool arguments differ from streamed call'')
          else rest (tc_arguments prior)))
      else Inr [\<lparr>pd_index = index, pd_identity = Some (tc_id call, tc_name call), pd_arguments = tc_arguments call\<rparr>])"

primrec final_deltas :: "'n json_text \<Rightarrow> tool_stream \<Rightarrow> nat \<Rightarrow> tool_call_output list \<Rightarrow> tool_error + public_delta list" where
  "final_deltas tx s index [] = Inr []"
| "final_deltas tx s index (call # calls) =
     rbind (final_delta tx s index call) (\<lambda>ds. rbind (final_deltas tx s (Suc index) calls) (\<lambda>rest. Inr (ds @ rest)))"

definition tool_final ::
    "'n json_text \<Rightarrow> tool_call_output list \<Rightarrow> (tool_stream, tool_error, public_delta list) st_result" where
  "tool_final tx calls =
     st_read (\<lambda>s.
       if length (ts_calls s) > length calls then st_err (ToolError ''streamed tool call missing from final output'')
       else
         st_bind (st_lift (final_deltas tx s 0 calls)) (\<lambda>ds.
         st_bind (st_modify (\<lambda>s. s\<lparr>ts_finalized := True\<rparr>)) (\<lambda>_. st_ok ds)))"

definition tool_finish ::
    "'n json_text \<Rightarrow> tool_call_output list \<Rightarrow> (tool_stream, tool_error, 'n json list) st_result" where
  "tool_finish tx calls = st_bind (tool_final tx calls) (\<lambda>ds. st_ok (map (final_json tx) ds))"

section \<open>Where a value ends\<close>

text \<open>
  What is relied on of \<open>StreamDeserializer\<close>: the first object or array of a text ends with its closing
  bracket, and whether and where it ends depends on the text up to that bracket only.
\<close>

definition stream_parser :: "'n json_text \<Rightarrow> bool" where
  "stream_parser tx \<longleftrightarrow>
     (\<forall>s k. opens_value s \<and> jt_first tx s = Some k \<longrightarrow> 0 < k \<and> k \<le> length s \<and> (s ! (k - 1) = CHR ''}'' \<or> s ! (k - 1) = CHR '']'')) \<and>
     (\<forall>s t k. opens_value s \<and> jt_first tx s = Some k \<longrightarrow> jt_first tx (s @ t) = Some k) \<and>
     (\<forall>s t k. opens_value s \<and> jt_first tx (s @ t) = Some k \<and> k \<le> length s \<longrightarrow> jt_first tx s = Some k)"

lemma stream_parserD:
  assumes "stream_parser tx" "opens_value s"
  shows "jt_first tx s = Some k \<Longrightarrow> 0 < k \<and> k \<le> length s \<and> (s ! (k - 1) = CHR ''}'' \<or> s ! (k - 1) = CHR '']'')"
    "jt_first tx s = Some k \<Longrightarrow> jt_first tx (s @ t) = Some k"
    "jt_first tx (s @ t) = Some k \<Longrightarrow> k \<le> length s \<Longrightarrow> jt_first tx s = Some k"
  using assms unfolding stream_parser_def by blast+

lemma white_space_codes:
  "list_all (\<lambda>w. list_all (\<lambda>w'. starts_with w' w \<longrightarrow> w = w') white_space) white_space"
  "list_all (\<lambda>w. w \<noteq> [] \<and> hd w \<notin> set ''{[}]'' \<and> last w \<notin> set ''{[}]'') white_space"
  by code_simp+

lemma white_space_prefix_free:
  assumes "w \<in> set white_space" "w' \<in> set white_space" "starts_with s w" "starts_with s w'"
  shows "w = w'"
proof -
  have "take (length w) s = w" "take (length w') s = w'" using assms(3, 4) by (simp_all add: starts_with_def)
  then have "starts_with w' w \<or> starts_with w w'" unfolding starts_with_def by (metis linear min.absorb1 min.commute take_take)
  then show ?thesis using white_space_codes(1) assms(1, 2) by (auto simp: list_all_iff)
qed

lemma white_space_at:
  assumes "starts_with s w" "w \<in> set white_space"
  shows "find (starts_with (s @ t)) white_space = Some w"
proof -
  have st: "starts_with (s @ t) w"
    using assms(1) unfolding starts_with_def by (metis append_eq_conv_conj append.assoc append_take_drop_id)
  then have "find (starts_with (s @ t)) white_space \<noteq> None" using assms(2) by (auto simp: find_None_iff)
  then obtain w' where w': "find (starts_with (s @ t)) white_space = Some w'" by auto
  then have "w' \<in> set white_space" "starts_with (s @ t) w'" by (auto simp: find_Some_iff)
  then show ?thesis using white_space_prefix_free [OF assms(2) _ st] w' by blast
qed

lemma no_white_space:
  assumes "c \<in> set ''{[}]''"
  shows "find (starts_with (c # s)) white_space = None" "find (starts_with (c # s)) (map rev white_space) = None"
proof -
  have ws: "w \<noteq> []" "hd w \<noteq> c" "last w \<noteq> c" if "w \<in> set white_space" for w
    using white_space_codes(2) assms that by (auto simp: list_all_iff)
  show "find (starts_with (c # s)) white_space = None"
    using ws(1, 2) by (auto simp: find_None_iff starts_with_def take_Cons' neq_Nil_conv) (metis list.sel(1))+
  show "find (starts_with (c # s)) (map rev white_space) = None"
  proof (simp add: find_None_iff, intro ballI notI)
    fix w assume w: "w \<in> set white_space" "starts_with (c # s) (rev w)"
    then obtain x xs where x: "rev w = x # xs" using ws(1) by (cases "rev w") auto
    then have "x = c" using w(2) by (simp add: starts_with_def)
    moreover have "x = last w" using x by (metis hd_rev list.sel(1))
    ultimately show False using ws(3) [OF w(1)] by simp
  qed
qed

lemma drop_chars_append:
  "drop_chars n white_space s = c # r \<Longrightarrow> c \<in> {CHR ''{'', CHR ''[''} \<Longrightarrow> n \<le> m \<Longrightarrow> drop_chars m white_space (s @ t) = c # r @ t"
proof (induction n arbitrary: m s)
  case 0
  then show ?case using no_white_space(1) [of c "r @ t"] by (cases m) auto
next
  case (Suc n)
  then obtain m' where m: "m = Suc m'" "n \<le> m'" by (cases m) auto
  show ?case
  proof (cases "find (starts_with s) white_space")
    case None
    then have "s = c # r" using Suc.prems(1) by simp
    then show ?thesis using no_white_space(1) [of c "r @ t"] Suc.prems(2) m by auto
  next
    case (Some w)
    then have w: "w \<in> set white_space" "starts_with s w" by (auto simp: find_Some_iff)
    have "length w \<le> length s" using w(2) unfolding starts_with_def by (metis length_take min.cobounded1)
    then show ?thesis
      using Suc.IH [of "drop (length w) s" m'] Suc.prems(1, 2) m Some white_space_at [OF w(2, 1), of t] by simp
  qed
qed

lemma opens_value_append: "opens_value s \<Longrightarrow> opens_value (s @ t)"
proof -
  assume "opens_value s"
  then obtain c r where c: "drop_chars (length s) white_space s = c # r" "c \<in> {CHR ''{'', CHR ''[''}"
    by (cases "str_trim_start s") (auto simp: opens_value_def starts_with_def str_trim_start_def)
  have "drop_chars (length (s @ t)) white_space (s @ t) = c # r @ t"
    by (rule drop_chars_append [OF c]) simp
  then show ?thesis using c(2) by (auto simp: opens_value_def starts_with_def str_trim_start_def)
qed

text \<open>Where the shown part of the arguments ends: the value of \<open>provisional_argument_end\<close> when it does not panic.\<close>

definition argument_end :: "'n json_text \<Rightarrow> string \<Rightarrow> nat" where
  "argument_end tx s =
     (if \<not> opens_value s then 0 else case jt_first tx s of Some k \<Rightarrow> k - 1 | None \<Rightarrow> length s)"

lemma last_index_of_value:
  assumes "stream_parser tx" "opens_value s" "jt_first tx s = Some k"
  shows "last_char_index (str_trim_end (take k s)) = k - 1"
proof -
  note k = stream_parserD(1) [OF assms]
  obtain c r where r: "rev (take k s) = c # r" by (cases "rev (take k s)") (use k in auto)
  have "c = last (take k s)" using r by (metis hd_rev list.sel(1))
  moreover have "last (take k s) = s ! (k - 1)" using k by (subst last_conv_nth) (auto simp: min_def)
  ultimately have c: "c \<in> {CHR ''}'', CHR '']''}" using k by auto
  have "take k s = rev (c # r)" using r by (metis rev_rev_ident)
  then have "drop_chars (length (take k s)) (map rev white_space) (rev (take k s)) = rev (take k s)"
    using no_white_space(2) [of c r] c r by (cases "length (take k s)") auto
  then have "str_trim_end (take k s) = take k s" by (simp add: str_trim_end_def)
  moreover have len: "length r = k - 1" using arg_cong [OF r, of length] k by simp
  have "last_char_index (take k s) = k - 1"
    using r c k len by (auto simp: last_char_index_def byte_of_def word_le_nat_alt min_def)
  ultimately show ?thesis by simp
qed

lemma provisional_end:
  assumes "stream_parser tx" "provisional_argument_end tx s = Some n"
  shows "n = argument_end tx s"
  using assms(2) last_index_of_value [OF assms(1), of s]
  by (auto simp: provisional_argument_end_def argument_end_def dest: str_slice_Some split: if_splits option.splits)

lemma value_end_ascii:
  assumes "stream_parser tx" "opens_value s" "jt_first tx s = Some k"
  shows "0 < k" "k - 1 < length s" "byte_of (s ! (k - 1)) < 0x80"
  using stream_parserD(1) [OF assms] by (auto simp: byte_of_def word_less_nat_alt)

lemma provisional_end_utf8:
  assumes "stream_parser tx" "utf8 s"
  shows "provisional_argument_end tx s = Some (argument_end tx s)"
proof (cases "opens_value s \<and> jt_first tx s \<noteq> None")
  case True
  then obtain k where k: "opens_value s" "jt_first tx s = Some k" by auto
  note e = value_end_ascii [OF assms(1) k]
  have "is_char_boundary s k" using boundary_after_ascii [OF assms(2) e(2, 3)] e(1) by simp
  then have "str_slice s 0 k = Some (take k s)" by (simp add: str_slice_def is_char_boundary_def)
  then show ?thesis using k last_index_of_value [OF assms(1) k] by (simp add: provisional_argument_end_def argument_end_def)
qed (auto simp: provisional_argument_end_def argument_end_def)

lemma argument_end_le: "stream_parser tx \<Longrightarrow> argument_end tx s \<le> length s"
proof -
  assume p: "stream_parser tx"
  have "k - 1 \<le> length s" if "opens_value s" "jt_first tx s = Some k" for k using stream_parserD(1) [OF p that] by linarith
  then show ?thesis by (auto simp: argument_end_def split: option.split)
qed

lemma argument_end_mono:
  assumes "stream_parser tx"
  shows "argument_end tx s \<le> argument_end tx (s @ t)"
proof (cases "opens_value s")
  case o: True
  note o' = opens_value_append [OF o, of t]
  show ?thesis
  proof (cases "jt_first tx (s @ t)")
    case None
    then show ?thesis using argument_end_le [OF assms, of s] o' by (simp add: argument_end_def)
  next
    case (Some k)
    show ?thesis
    proof (cases "k \<le> length s")
      case True
      then show ?thesis using stream_parserD(3) [OF assms o Some] Some o o' by (simp add: argument_end_def)
    next
      case False
      then show ?thesis using argument_end_le [OF assms, of s] Some o' by (simp add: argument_end_def)
    qed
  qed
qed (simp add: argument_end_def)

lemma argument_end_boundary:
  assumes "stream_parser tx" "utf8 s" "utf8 (s @ t)"
  shows "is_char_boundary (s @ t) (argument_end tx s)"
proof (cases "opens_value s")
  case o: True
  show ?thesis
  proof (cases "jt_first tx s")
    case None
    have "utf8 t" using assms(2, 3) utf8_append by blast
    then show ?thesis using None o boundary_append by (simp add: argument_end_def)
  next
    case (Some k)
    show ?thesis
      using value_end_ascii [OF assms(1) o Some] boundary_at_ascii [of "k - 1" "s @ t"] Some o by (simp add: argument_end_def nth_append)
  qed
qed (simp add: argument_end_def is_char_boundary_def)

text \<open>No complete value is visible before the end.\<close>

lemma argument_end_open:
  assumes "stream_parser tx" "opens_value s"
  shows "opens_value (take (argument_end tx s) s) \<Longrightarrow> jt_first tx (take (argument_end tx s) s) = None"
proof (rule ccontr)
  let ?n = "argument_end tx s"
  assume o: "opens_value (take ?n s)" and "jt_first tx (take ?n s) \<noteq> None"
  then obtain k where k: "jt_first tx (take ?n s) = Some k" by auto
  have "k \<le> ?n" using stream_parserD(1) [OF assms(1) o k] by simp
  moreover have f: "jt_first tx s = Some k" using stream_parserD(2) [OF assms(1) o k, of "drop ?n s"] by simp
  moreover have "?n = k - 1" using f assms(2) by (simp add: argument_end_def)
  ultimately show False using stream_parserD(1) [OF assms f] by linarith
qed

section \<open>What a client has seen\<close>

definition shown :: "nat \<Rightarrow> public_delta list \<Rightarrow> string" where
  "shown i ds = concat (map pd_arguments (filter (\<lambda>d. pd_index d = i) ds))"

definition announced :: "nat \<Rightarrow> public_delta list \<Rightarrow> (string \<times> string) list" where
  "announced i ds = List.map_filter pd_identity (filter (\<lambda>d. pd_index d = i) ds)"

lemma shown_append [simp]: "shown i (ds @ es) = shown i ds @ shown i es"
  by (simp add: shown_def)

lemma announced_append [simp]: "announced i (ds @ es) = announced i ds @ announced i es"
  by (simp add: announced_def List.map_filter_def)

lemma shown_single [simp]: "shown i [d] = (if pd_index d = i then pd_arguments d else [])" "shown i [] = []"
  by (simp_all add: shown_def)

lemma announced_single [simp]:
  "announced i [d] = (if pd_index d = i then case pd_identity d of None \<Rightarrow> [] | Some x \<Rightarrow> [x] else [])" "announced i [] = []"
  by (simp_all add: announced_def List.map_filter_def split: option.split)

lemma shown_absent: "(\<And>d. d \<in> set ds \<Longrightarrow> pd_index d \<noteq> i) \<Longrightarrow> shown i ds = [] \<and> announced i ds = []"
  by (induction ds) (auto simp: shown_def announced_def List.map_filter_def)

definition tool_ok :: "'n json_text \<Rightarrow> public_delta list \<Rightarrow> tool_stream \<Rightarrow> bool" where
  "tool_ok tx ds s \<longleftrightarrow>
     length (ts_public_lengths s) = length (ts_calls s) \<and> (\<forall>d \<in> set ds. pd_index d < length (ts_calls s)) \<and>
     (\<forall>i < length (ts_calls s).
        ts_public_lengths s ! i = argument_end tx (tc_arguments (ts_calls s ! i)) \<and>
        shown i ds = take (ts_public_lengths s ! i) (tc_arguments (ts_calls s ! i)) \<and>
        announced i ds = [(tc_id (ts_calls s ! i), tc_name (ts_calls s ! i))])"

text \<open>A state between the announcement of a call and its first piece.\<close>

definition opened :: "'n json_text \<Rightarrow> public_delta list \<Rightarrow> nat \<Rightarrow> (string \<times> string) option \<Rightarrow> tool_stream \<Rightarrow> bool" where
  "opened tx ds index identity s \<longleftrightarrow>
     index < length (ts_calls s) \<and>
     tool_ok tx (ds @ [\<lparr>pd_index = index, pd_identity = identity, pd_arguments = []\<rparr>]) s"

lemma argument_end_Nil [simp]: "argument_end tx [] = 0"
  by (simp add: argument_end_def opens_value_def str_trim_start_def starts_with_def)

lemma start_call_Inr:
  assumes "start_call request (length (ts_calls s)) delta s = (Inr identity, s')"
  obtains cid name where "identity = Some (cid, name)" "cid \<noteq> []" "advertised request name" "cid \<notin> tc_id ` set (ts_calls s)"
    "length (ts_calls s) < 1024" "length (ts_calls s) > 0 \<Longrightarrow> tr_parallel_tool_calls request \<noteq> Some False"
    "s' = s\<lparr>ts_bytes := sat_add (sat_add (ts_bytes s) (str_len cid)) (str_len name),
            ts_calls := ts_calls s @ [\<lparr>tc_id = cid, tc_name = name, tc_arguments = []\<rparr>],
            ts_public_lengths := ts_public_lengths s @ [0]\<rparr>"
  using assms
  by (auto simp: start_call_def st_Inr_simps list_ex_iff split: if_splits option.splits)

lemma start_call_opened:
  assumes "tool_ok tx ds s" "start_call request (length (ts_calls s)) delta s = (Inr identity, s')"
  shows "opened tx ds (length (ts_calls s)) identity s'"
proof -
  obtain cid name where i: "identity = Some (cid, name)"
    and s': "s' = s\<lparr>ts_bytes := sat_add (sat_add (ts_bytes s) (str_len cid)) (str_len name),
            ts_calls := ts_calls s @ [\<lparr>tc_id = cid, tc_name = name, tc_arguments = []\<rparr>],
            ts_public_lengths := ts_public_lengths s @ [0]\<rparr>"
    using start_call_Inr [OF assms(2)] by metis
  have new: "shown (length (ts_calls s)) ds = []" "announced (length (ts_calls s)) ds = []"
    using shown_absent [of ds "length (ts_calls s)"] assms(1) unfolding tool_ok_def by (metis less_irrefl)+
  show ?thesis
    using assms(1) new unfolding opened_def tool_ok_def s' i
    by (auto simp: nth_append less_Suc_eq)
qed

lemma old_call_opened: "tool_ok tx ds s \<Longrightarrow> index < length (ts_calls s) \<Longrightarrow> opened tx ds index None s"
  by (auto simp: opened_def tool_ok_def)

lemma publish_opened:
  assumes "stream_parser tx" "opened tx ds index identity s"
    "publish_arguments tx index identity (append_arguments index arguments s) = (Inr d, s')"
  shows "tool_ok tx (ds @ [d]) s'"
proof -
  let ?c = "ts_calls s ! index" and ?n = "ts_public_lengths s ! index"
  let ?new = "tc_arguments ?c @ arguments"
  let ?stop = "argument_end tx ?new"
  have ok: "index < length (ts_calls s)" "?n = argument_end tx (tc_arguments ?c)"
    "shown index ds = take ?n (tc_arguments ?c)" "length (ts_public_lengths s) = length (ts_calls s)"
    "announced index ds @ (case identity of None \<Rightarrow> [] | Some x \<Rightarrow> [x]) = [(tc_id ?c, tc_name ?c)]"
    using assms(2) by (auto simp: opened_def tool_ok_def)
  have le: "?n \<le> ?stop" "?n \<le> length (tc_arguments ?c)"
    using argument_end_mono [OF assms(1)] argument_end_le [OF assms(1)] ok(2) by auto
  let ?d = "\<lparr>pd_index = index, pd_identity = identity, pd_arguments = take (?stop - ?n) (drop ?n ?new)\<rparr>"
  let ?s = "(append_arguments index arguments s)\<lparr>ts_public_lengths := (ts_public_lengths s)[index := ?stop]\<rparr>"
  have "take ?stop ?new = take ?n (tc_arguments ?c) @ take (?stop - ?n) (drop ?n ?new)"
    using le take_add [of ?n "?stop - ?n" ?new] by simp
  then have "tool_ok tx (ds @ [?d]) ?s"
    using assms(2) ok le unfolding opened_def tool_ok_def append_arguments_def
    by (auto simp: nth_list_update)
  moreover have "d = ?d \<and> s' = ?s"
    using assms(3) ok
    by (auto simp: publish_arguments_def Let_def st_Inr_simps append_arguments_def
          dest!: provisional_end [OF assms(1)] str_slice_Some split: option.splits)
  ultimately show ?thesis by simp
qed

text \<open>The arguments of every call are valid UTF-8.\<close>

definition texts_valid :: "tool_stream \<Rightarrow> bool" where
  "texts_valid s \<longleftrightarrow> list_all (\<lambda>c. utf8 (tc_arguments c)) (ts_calls s)"

lemma publish_no_panic:
  assumes "stream_parser tx" "opened tx ds index identity s" "texts_valid s" "utf8 arguments"
  shows "\<exists>d s'. publish_arguments tx index identity (append_arguments index arguments s) = (Inr d, s') \<and> texts_valid s'"
proof -
  let ?c = "ts_calls s ! index" and ?n = "ts_public_lengths s ! index"
  let ?new = "tc_arguments ?c @ arguments"
  let ?stop = "argument_end tx ?new"
  have ok: "index < length (ts_calls s)" "?n = argument_end tx (tc_arguments ?c)"
    using assms(2) by (auto simp: opened_def tool_ok_def)
  have u: "utf8 (tc_arguments ?c)" using assms(3) ok(1) by (auto simp: texts_valid_def list_all_length)
  then have u': "utf8 ?new" using assms(4) utf8_append by blast
  have "is_char_boundary ?new ?n" using argument_end_boundary [OF assms(1) u u'] ok(2) by simp
  moreover have "is_char_boundary ?new ?stop" using argument_end_boundary [OF assms(1) u', of "[]"] u' by simp
  moreover have "?n \<le> ?stop" using argument_end_mono [OF assms(1)] ok(2) by simp
  ultimately have slice: "str_slice ?new ?n ?stop = Some (take (?stop - ?n) (drop ?n ?new))" by (simp add: str_slice_def)
  have "texts_valid (append_arguments index arguments s)"
    using assms(3) u' ok(1) by (auto simp: texts_valid_def append_arguments_def list_all_length nth_list_update)
  then show ?thesis
    using ok(1) slice provisional_end_utf8 [OF assms(1) u']
    by (simp add: publish_arguments_def st_read_def st_bind_def st_modify_def st_ok_def append_arguments_def Let_def texts_valid_def)
qed

lemma opened_bytes [simp]: "opened tx ds index identity (s\<lparr>ts_bytes := b\<rparr>) = opened tx ds index identity s"
  by (simp add: opened_def tool_ok_def)

lemma start_call_error: "start_call request index delta s \<noteq> (Inl SlicePanic, s')"
  by (auto simp: start_call_def st_bind_def st_lift_def st_read_def st_err_def st_ok_def st_modify_def ok_or_def split: option.splits)

text \<open>A step that succeeds leaves a consistent state; on valid texts it does not panic.\<close>

definition keeps_tools ::
    "'n json_text \<Rightarrow> public_delta list \<Rightarrow> bool \<Rightarrow> (tool_error + public_delta list) \<times> tool_stream \<Rightarrow> bool" where
  "keeps_tools tx ds valid p \<longleftrightarrow>
     (case p of
        (Inl e, s') \<Rightarrow> valid \<longrightarrow> e \<noteq> SlicePanic
      | (Inr es, s') \<Rightarrow> tool_ok tx (ds @ es) s' \<and> (valid \<longrightarrow> texts_valid s'))"

lemma call_identity_opened:
  assumes "tool_ok tx ds s" "index \<le> length (ts_calls s)" "call_identity request index delta s = (Inr identity, s')"
  shows "opened tx ds index identity s'" "texts_valid s \<Longrightarrow> texts_valid s'"
proof -
  have "opened tx ds index identity s' \<and> (texts_valid s \<longrightarrow> texts_valid s')"
  proof (cases "index = length (ts_calls s)")
    case True
    then have c: "start_call request (length (ts_calls s)) delta s = (Inr identity, s')"
      using assms(3) by (simp add: call_identity_def st_read_def)
    have "texts_valid s \<Longrightarrow> texts_valid s'" by (rule start_call_Inr [OF c]) (simp add: texts_valid_def)
    then show ?thesis using start_call_opened [OF assms(1) c] True by simp
  next
    case False
    then have "s' = s \<and> identity = None"
      using assms(3) by (auto simp: call_identity_def st_read_def st_err_def st_ok_def split: if_splits)
    then show ?thesis using old_call_opened [OF assms(1), of index] assms(2) False by simp
  qed
  then show "opened tx ds index identity s'" "texts_valid s \<Longrightarrow> texts_valid s'" by blast+
qed

lemma call_identity_error: "call_identity request index delta s \<noteq> (Inl SlicePanic, s')"
  using start_call_error [of request index delta s s'] by (auto simp: call_identity_def st_read_def st_err_def st_ok_def)

lemma tool_delta_ok:
  assumes "stream_parser tx" "tool_ok tx ds s" "valid \<Longrightarrow> texts_valid s \<and> json_utf8 delta"
  shows "keeps_tools tx ds valid (map_prod (map_sum id (\<lambda>d. [d])) id (tool_delta tx request limit delta s))"
proof (cases "Option.bind (json_get delta ''index'') (json_as_u64 tx)")
  case None
  then show ?thesis by (simp add: keeps_tools_def tool_delta_def st_bind_def st_lift_def)
next
  case (Some index)
  show ?thesis
  proof (cases "index > length (ts_calls s) \<or> Option.bind (json_get delta ''arguments'') json_as_str = None")
    case True
    then show ?thesis
      using Some by (auto simp: keeps_tools_def tool_delta_def st_bind_def st_lift_def st_read_def st_err_def)
  next
    case False
    then obtain arguments where a: "Option.bind (json_get delta ''arguments'') json_as_str = Some arguments" by auto
    then have utf: "utf8 arguments" if valid
      using assms(3) [OF that] by (auto simp: bind_eq_Some_conv dest: json_utf8_get json_utf8_str)
    obtain q s1 where m: "call_identity request index delta s = (q, s1)" by (cases "call_identity request index delta s") auto
    show ?thesis
    proof (cases q)
      case (Inl e)
      then have "e \<noteq> SlicePanic" using m call_identity_error by metis
      moreover have "tool_delta tx request limit delta s = (Inl e, s1)"
        using Some False a m Inl by (simp add: tool_delta_def st_bind_def st_lift_def st_read_def)
      ultimately show ?thesis by (simp add: keeps_tools_def)
    next
      case (Inr identity)
      have ix: "index \<le> length (ts_calls s)" using False by simp
      let ?s2 = "s1\<lparr>ts_bytes := sat_add (ts_bytes s1) (str_len arguments)\<rparr>"
      note op = call_identity_opened [OF assms(2) ix m [unfolded Inr]]
      have op2: "opened tx ds index identity ?s2" "valid \<Longrightarrow> texts_valid ?s2" using op assms(3) by (simp_all add: texts_valid_def)
      let ?p = "publish_arguments tx index identity (append_arguments index arguments ?s2)"
      have run: "tool_delta tx request limit delta s =
          (if ts_bytes ?s2 > limit then (Inl (ToolError ''streamed tool arguments exceeded session text limit''), ?s2) else ?p)"
        using Some False a m Inr
        by (simp add: tool_delta_def st_bind_def st_lift_def st_read_def st_modify_def st_err_def)
      have good: "\<exists>d s'. ?p = (Inr d, s') \<and> texts_valid s'" if valid
        using publish_no_panic [OF assms(1) op2(1) op2(2) [OF that] utf [OF that]] .
      have "keeps_tools tx ds valid (map_prod (map_sum id (\<lambda>d. [d])) id ?p)"
      proof (cases ?p)
        case (Pair q s')
        then show ?thesis
          using good publish_opened [OF assms(1) op2(1), of arguments] by (cases q) (auto simp: keeps_tools_def)
      qed
      then show ?thesis unfolding run by (simp add: keeps_tools_def)
    qed
  qed
qed

lemma tool_deltas_ok:
  assumes "stream_parser tx"
  shows "tool_ok tx ds s \<Longrightarrow> (valid \<Longrightarrow> texts_valid s \<and> list_all json_utf8 deltas) \<Longrightarrow>
    keeps_tools tx ds valid (tool_deltas tx request limit deltas s)"
proof (induction deltas arbitrary: ds s)
  case Nil
  then show ?case by (simp add: keeps_tools_def st_ok_def)
next
  case (Cons delta deltas)
  obtain q s1 where q: "tool_delta tx request limit delta s = (q, s1)" by (cases "tool_delta tx request limit delta s") auto
  have ok: "keeps_tools tx ds valid (map_prod (map_sum id (\<lambda>d. [d])) id (q, s1))"
    using tool_delta_ok [OF assms Cons.prems(1), of valid delta request limit] Cons.prems(2) q by simp
  show ?case
  proof (cases q)
    case (Inl e)
    then show ?thesis using q ok by (simp add: keeps_tools_def st_bind_def)
  next
    case (Inr d)
    have "keeps_tools tx (ds @ [d]) valid (tool_deltas tx request limit deltas s1)"
      using ok Inr Cons.prems(2) by (intro Cons.IH) (auto simp: keeps_tools_def)
    then show ?thesis using q Inr by (auto simp: keeps_tools_def st_bind_def st_ok_def split: prod.splits sum.splits)
  qed
qed

lemma tool_frame_ok:
  assumes "stream_parser tx" "tool_ok tx ds s" "valid \<Longrightarrow> texts_valid s \<and> json_utf8 frame"
  shows "keeps_tools tx ds valid (tool_frame tx request limit frame s)"
proof (cases "Option.bind (json_get frame ''tool_calls_delta'') json_as_array")
  case None
  then show ?thesis
    using assms(2, 3) by (auto simp: keeps_tools_def tool_frame_def st_ok_def st_bind_def st_lift_def ok_or_def split: option.splits)
next
  case (Some deltas)
  then have "valid \<Longrightarrow> list_all json_utf8 deltas"
    using assms(3) by (auto simp: bind_eq_Some_conv dest: json_utf8_get json_utf8_array)
  then have "keeps_tools tx ds valid (tool_deltas tx request limit deltas s)"
    using assms(3) by (intro tool_deltas_ok [OF assms(1, 2)]) auto
  then show ?thesis
    using Some by (auto simp: tool_frame_def bind_eq_Some_conv st_bind_def st_lift_def st_read_def st_err_def keeps_tools_def [of _ _ _ "(Inl _, _)"])
qed

primrec tool_frames ::
    "'n json_text \<Rightarrow> 'n tool_request \<Rightarrow> u64 \<Rightarrow> 'n json list \<Rightarrow> (tool_stream, tool_error, public_delta list) st_result" where
  "tool_frames tx request limit [] = st_ok []"
| "tool_frames tx request limit (frame # frames) =
     st_bind (tool_frame tx request limit frame) (\<lambda>ds.
     st_bind (tool_frames tx request limit frames) (\<lambda>es. st_ok (ds @ es)))"

lemma tool_frames_ok:
  assumes "stream_parser tx"
  shows "tool_ok tx ds s \<Longrightarrow> (valid \<Longrightarrow> texts_valid s \<and> list_all json_utf8 frames) \<Longrightarrow>
    keeps_tools tx ds valid (tool_frames tx request limit frames s)"
proof (induction frames arbitrary: ds s)
  case Nil
  then show ?case by (simp add: keeps_tools_def st_ok_def)
next
  case (Cons frame frames)
  obtain q s1 where q: "tool_frame tx request limit frame s = (q, s1)" by (cases "tool_frame tx request limit frame s") auto
  have ok: "keeps_tools tx ds valid (q, s1)"
    using tool_frame_ok [OF assms Cons.prems(1), of valid frame request limit] Cons.prems(2) q by simp
  show ?case
  proof (cases q)
    case (Inl e)
    then show ?thesis using q ok by (simp add: keeps_tools_def st_bind_def)
  next
    case (Inr es)
    have "keeps_tools tx (ds @ es) valid (tool_frames tx request limit frames s1)"
      using ok Inr Cons.prems(2) by (intro Cons.IH) (auto simp: keeps_tools_def)
    then show ?thesis using q Inr by (auto simp: keeps_tools_def st_bind_def st_ok_def split: prod.splits sum.splits)
  qed
qed

lemma default_ok: "tool_ok tx [] tool_stream_default"
  by (simp add: tool_ok_def tool_stream_default_def)

definition same_arguments :: "'n json_text \<Rightarrow> string \<Rightarrow> string \<Rightarrow> bool" where
  "same_arguments tx a b \<longleftrightarrow> a = b \<or> (\<exists>v w. jt_from_str tx a = Some v \<and> jt_from_str tx b = Some w \<and> json_eq v w)"

lemma final_delta_ok:
  assumes "stream_parser tx" "tool_ok tx ds s" "final_delta tx s index call = Inr es"
  shows "(\<forall>d \<in> set es. pd_index d = index) \<and> same_arguments tx (shown index (ds @ es)) (tc_arguments call) \<and>
    announced index (ds @ es) = [(tc_id call, tc_name call)]"
proof (cases "index < length (ts_calls s)")
  case False
  then have "shown index ds = []" "announced index ds = []"
    using shown_absent [of ds index] assms(2) unfolding tool_ok_def by blast+
  then show ?thesis using False assms(3) by (auto simp: final_delta_def same_arguments_def)
next
  case True
  let ?p = "ts_calls s ! index" and ?n = "ts_public_lengths s ! index"
  have ok: "?n \<le> length (tc_arguments ?p)" "shown index ds = take ?n (tc_arguments ?p)" "announced index ds = [(tc_id ?p, tc_name ?p)]"
    using assms(2) True argument_end_le [OF assms(1)] by (auto simp: tool_ok_def)
  have prefix: "take ?n (tc_arguments ?p) = take ?n (tc_arguments call)" if "starts_with (tc_arguments call) (tc_arguments ?p)"
  proof -
    have "take (length (tc_arguments ?p)) (tc_arguments call) = tc_arguments ?p" using that by (simp add: starts_with_def)
    then show ?thesis using ok(1) take_take [of ?n "length (tc_arguments ?p)" "tc_arguments call"] by (simp add: min_def)
  qed
  show ?thesis
  proof (cases "starts_with (tc_arguments call) (tc_arguments ?p)")
    case st: True
    then show ?thesis
      using True assms(3) ok prefix [OF st]
      by (auto simp: final_delta_def Let_def same_arguments_def dest!: str_slice_Some split: if_splits option.splits)
  next
    case False
    then show ?thesis
      using True assms(3) ok
      by (auto simp: final_delta_def Let_def same_arguments_def ok_or_def dest!: str_slice_Some split: if_splits option.splits)
  qed
qed

lemma final_delta_no_panic:
  assumes "stream_parser tx" "tool_ok tx ds s" "texts_valid s" "utf8 (tc_arguments call)"
  shows "final_delta tx s index call \<noteq> Inl SlicePanic"
proof (cases "index < length (ts_calls s)")
  case True
  let ?p = "ts_calls s ! index" and ?n = "ts_public_lengths s ! index"
  have n: "?n = argument_end tx (tc_arguments ?p)" using assms(2) True by (simp add: tool_ok_def)
  have u: "utf8 (tc_arguments ?p)" using assms(3) True by (simp add: texts_valid_def list_all_length)
  have slice: "str_slice a ?n (length a) \<noteq> None" if "utf8 a" "a = tc_arguments ?p @ rest" for a rest
    using argument_end_boundary [OF assms(1) u, of rest] argument_end_le [OF assms(1), of "tc_arguments ?p"] that n
    by (simp add: str_slice_def is_char_boundary_def)
  have "str_slice (tc_arguments ?p) ?n (length (tc_arguments ?p)) \<noteq> None" using slice [OF u, of "[]"] by simp
  moreover have "str_slice (tc_arguments call) ?n (length (tc_arguments call)) \<noteq> None"
    if "starts_with (tc_arguments call) (tc_arguments ?p)"
    using slice [OF assms(4)] that unfolding starts_with_def by (metis append_take_drop_id)
  ultimately show ?thesis
    using True by (auto simp: final_delta_def Let_def rbind_Inl_iff ok_or_def split: option.splits)
qed (simp add: final_delta_def)

lemma final_deltas_no_panic:
  assumes "stream_parser tx" "tool_ok tx ds s" "texts_valid s"
  shows "list_all (\<lambda>c. utf8 (tc_arguments c)) calls \<Longrightarrow> final_deltas tx s k calls \<noteq> Inl SlicePanic"
proof (induction calls arbitrary: k)
  case (Cons call calls)
  then show ?case using final_delta_no_panic [OF assms, of call k] by (auto simp: rbind_Inl_iff)
qed simp

lemma final_deltas_ok:
  assumes "stream_parser tx" "tool_ok tx ds s"
  shows "final_deltas tx s k calls = Inr es \<Longrightarrow>
     (\<forall>d \<in> set es. k \<le> pd_index d \<and> pd_index d < k + length calls) \<and>
     (\<forall>i < length calls. same_arguments tx (shown (k + i) (ds @ es)) (tc_arguments (calls ! i)) \<and>
        announced (k + i) (ds @ es) = [(tc_id (calls ! i), tc_name (calls ! i))])"
proof (induction calls arbitrary: k es)
  case (Cons call calls)
  then obtain d1 d2 where d: "final_delta tx s k call = Inr d1" "final_deltas tx s (Suc k) calls = Inr d2" "es = d1 @ d2" by auto
  note first = final_delta_ok [OF assms d(1)] and rest = Cons.IH [OF d(2)]
  have "shown k d2 = [] \<and> announced k d2 = []" using rest by (intro shown_absent) force
  moreover have "shown (Suc k + i) d1 = [] \<and> announced (Suc k + i) d1 = []" for i
    using first by (intro shown_absent) force
  ultimately have "same_arguments tx (shown (k + i) (ds @ d1 @ d2)) (tc_arguments ((call # calls) ! i)) \<and>
       announced (k + i) (ds @ d1 @ d2) = [(tc_id ((call # calls) ! i), tc_name ((call # calls) ! i))]"
    if "i < length (call # calls)" for i
    using that first rest by (cases i) auto
  moreover have "\<forall>d \<in> set (d1 @ d2). k \<le> pd_index d \<and> pd_index d < k + length (call # calls)"
    using first rest by fastforce
  ultimately show ?case using d(3) by simp
qed auto

section \<open>Limits\<close>

definition call_bytes :: "tool_call_output \<Rightarrow> nat" where
  "call_bytes c = length (tc_id c) + length (tc_name c) + length (tc_arguments c)"

definition tool_within :: "'n tool_request \<Rightarrow> tool_stream \<Rightarrow> bool" where
  "tool_within request s \<longleftrightarrow>
     length (ts_calls s) \<le> 1024 \<and> (tr_parallel_tool_calls request = Some False \<longrightarrow> length (ts_calls s) \<le> 1) \<and>
     distinct (map tc_id (ts_calls s)) \<and> list_all (\<lambda>c. tc_id c \<noteq> [] \<and> advertised request (tc_name c)) (ts_calls s) \<and>
     unat (ts_bytes s) = min (sum_list (map call_bytes (ts_calls s))) (2 ^ 64 - 1)"

lemma unat_str_len: "unat (str_len s) = min (length s) (2 ^ 64 - 1)"
  by (simp add: str_len_def unat_of_nat_small unat_max)

lemma start_call_within:
  assumes "tool_within request s" "start_call request (length (ts_calls s)) delta s = (Inr identity, s')"
  shows "tool_within request s'"
proof -
  obtain cid name where new: "cid \<noteq> []" "advertised request name" "cid \<notin> tc_id ` set (ts_calls s)"
    "length (ts_calls s) < 1024" "length (ts_calls s) > 0 \<Longrightarrow> tr_parallel_tool_calls request \<noteq> Some False"
    and s': "s' = s\<lparr>ts_bytes := sat_add (sat_add (ts_bytes s) (str_len cid)) (str_len name),
            ts_calls := ts_calls s @ [\<lparr>tc_id = cid, tc_name = name, tc_arguments = []\<rparr>],
            ts_public_lengths := ts_public_lengths s @ [0]\<rparr>"
    using start_call_Inr [OF assms(2)] by metis
  show ?thesis
    using assms(1) new unfolding s' tool_within_def
    by (auto simp: unat_simps unat_str_len call_bytes_def)
qed

lemma sum_list_update_call:
  "i < length cs \<Longrightarrow>
     sum_list (map call_bytes (cs[i := (cs ! i)\<lparr>tc_arguments := tc_arguments (cs ! i) @ a\<rparr>])) = sum_list (map call_bytes cs) + length a"
  by (induction cs arbitrary: i) (auto simp: call_bytes_def split: nat.split)

lemma append_within:
  assumes "tool_within request s" "i < length (ts_calls s)"
  shows "tool_within request (append_arguments i a (s\<lparr>ts_bytes := sat_add (ts_bytes s) (str_len a)\<rparr>))"
proof -
  have "map tc_id ((ts_calls s)[i := (ts_calls s ! i)\<lparr>tc_arguments := tc_arguments (ts_calls s ! i) @ a\<rparr>]) = map tc_id (ts_calls s)"
    using assms(2) by (simp add: map_update list_update_same_conv)
  then show ?thesis
    using assms sum_list_update_call [OF assms(2), of a] unfolding tool_within_def append_arguments_def
    by (auto simp: unat_simps unat_str_len list_all_length nth_list_update)
qed

lemma tool_delta_within:
  assumes "tool_within request s" "tool_delta tx request limit delta s = (Inr d, s')"
  shows "tool_within request s' \<and> ts_bytes s' \<le> limit"
proof -
  obtain index arguments identity s1 where m: "call_identity request index delta s = (Inr identity, s1)"
    and i: "index \<le> length (ts_calls s)" and b: "\<not> sat_add (ts_bytes s1) (str_len arguments) > limit"
    and p: "publish_arguments tx index identity (append_arguments index arguments (s1\<lparr>ts_bytes := sat_add (ts_bytes s1) (str_len arguments)\<rparr>)) = (Inr d, s')"
    using assms(2) by (auto simp: tool_delta_def st_Inr_simps split: if_splits)
  let ?s2 = "append_arguments index arguments (s1\<lparr>ts_bytes := sat_add (ts_bytes s1) (str_len arguments)\<rparr>)"
  have "tool_within request s1 \<and> index < length (ts_calls s1)"
  proof (cases "index = length (ts_calls s)")
    case True
    then have c: "start_call request (length (ts_calls s)) delta s = (Inr identity, s1)" using m by (simp add: call_identity_def st_read_def)
    have "index < length (ts_calls s1)" by (rule start_call_Inr [OF c]) (use True in simp)
    then show ?thesis using start_call_within [OF assms(1) c] by simp
  next
    case False
    then have "s1 = s" using m by (auto simp: call_identity_def st_read_def st_err_def st_ok_def split: if_splits)
    then show ?thesis using assms(1) i False by simp
  qed
  then have s1: "tool_within request s1" "index < length (ts_calls s1)" by simp_all
  have "ts_calls s' = ts_calls ?s2" "ts_bytes s' = ts_bytes ?s2"
    using p by (auto simp: publish_arguments_def Let_def st_Inr_simps split: option.splits)
  then show ?thesis
    using append_within [OF s1, of arguments] b by (auto simp: tool_within_def append_arguments_def not_less)
qed

lemma tool_deltas_within:
  "tool_within request s \<Longrightarrow> ts_bytes s \<le> limit \<Longrightarrow> tool_deltas tx request limit deltas s = (Inr ds, s') \<Longrightarrow>
     tool_within request s' \<and> ts_bytes s' \<le> limit"
proof (induction deltas arbitrary: s ds)
  case (Cons delta deltas)
  then obtain d es s1 where "tool_delta tx request limit delta s = (Inr d, s1)" "tool_deltas tx request limit deltas s1 = (Inr es, s')"
    by (auto simp: st_Inr_simps)
  then show ?case using tool_delta_within [OF Cons.prems(1)] Cons.IH by blast
qed (simp add: st_Inr_simps)

lemma tool_frames_within:
  "tool_within request s \<Longrightarrow> ts_bytes s \<le> limit \<Longrightarrow> tool_frames tx request limit frames s = (Inr ds, s') \<Longrightarrow>
     tool_within request s' \<and> ts_bytes s' \<le> limit"
proof (induction frames arbitrary: s ds)
  case (Cons frame frames)
  then obtain es fs s1 where f: "tool_frame tx request limit frame s = (Inr es, s1)" "tool_frames tx request limit frames s1 = (Inr fs, s')"
    by (auto simp: st_Inr_simps)
  have "tool_within request s1 \<and> ts_bytes s1 \<le> limit"
    using f(1) Cons.prems(1, 2) tool_deltas_within [OF Cons.prems(1, 2), where tx = tx]
    by (auto simp: tool_frame_def st_Inr_simps split: option.splits if_splits)
  then show ?case using Cons.IH f(2) by blast
qed (simp add: st_Inr_simps)

section \<open>A sample stream\<close>

definition sample_text :: "nat json_text" where
  "sample_text =
     \<lparr>jt_as_u64 = Some, jt_of_nat = id, jt_from_str = \<lambda>_. None,
      jt_first = \<lambda>s. if starts_with s ''{}'' then Some 2 else None\<rparr>"

definition sample_request :: "nat tool_request" where
  "sample_request = \<lparr>tr_tools = Some [JObject [(''name'', JString ''w'')]], tr_parallel_tool_calls = None\<rparr>"

definition sample_frame :: "(string \<times> nat json) list \<Rightarrow> string \<Rightarrow> nat json" where
  "sample_frame identity arguments =
     JObject [(''tool_calls_delta'', JArray [JObject ((''index'', JNumber 0) # (''arguments'', JString arguments) # identity)])]"

definition sample_frames :: "nat json list" where
  "sample_frames = [sample_frame [(''id'', JString ''x''), (''name'', JString ''w'')] ''{'', sample_frame [] ''}'']"

definition sample_end :: tool_stream where
  "sample_end = \<lparr>ts_calls = [\<lparr>tc_id = ''x'', tc_name = ''w'', tc_arguments = ''{}''\<rparr>], ts_public_lengths = [1], ts_bytes = 4, ts_finalized = False\<rparr>"

lemma sample_parser: "stream_parser sample_text"
proof -
  have "starts_with s ''{}'' \<longleftrightarrow> starts_with (s @ t) ''{}''" if "2 \<le> length s" for s t using that by (simp add: starts_with_def)
  moreover have "2 \<le> length s \<and> s ! 1 = CHR ''}''" if "starts_with s ''{}''" for s
    using that unfolding starts_with_def by (cases s; cases "tl s") auto
  ultimately show ?thesis unfolding stream_parser_def sample_text_def by (auto split: if_splits)
qed

lemma sample_run:
  "tool_frames sample_text sample_request 100 sample_frames tool_stream_default =
     (Inr [\<lparr>pd_index = 0, pd_identity = Some (''x'', ''w''), pd_arguments = ''{''\<rparr>, \<lparr>pd_index = 0, pd_identity = None, pd_arguments = []\<rparr>], sample_end)"
proof -
  have "utf8 ''{''" "utf8 ''{}''" by code_simp+
  moreover have "argument_end sample_text ''{'' = Suc 0" "argument_end sample_text ''{}'' = Suc 0"
    using no_white_space(1) [of "CHR ''{''" "[]"] no_white_space(1) [of "CHR ''{''" "''}''"]
    by (simp_all add: argument_end_def sample_text_def starts_with_def opens_value_def str_trim_start_def)
  ultimately have 1: "provisional_argument_end sample_text ''{'' = Some (Suc 0)" "provisional_argument_end sample_text ''{}'' = Some (Suc 0)"
    using provisional_end_utf8 [OF sample_parser] by simp_all
  have 3: "str_slice ''{'' 0 (Suc 0) = Some ''{''" "str_slice ''{}'' (Suc 0) (Suc 0) = Some []" by code_simp+
  have 2: "jt_as_u64 sample_text n = Some n" for n by (simp add: sample_text_def)
  show ?thesis
    by (simp add: sample_frames_def sample_frame_def tool_frame_def json_get_def json_as_array_def json_as_u64_def json_as_str_def
        tool_delta_def call_identity_def start_call_def advertised_def tool_name_def sample_request_def sample_end_def tool_stream_default_def
        publish_arguments_def append_arguments_def st_bind_def st_read_def st_lift_def st_ok_def st_modify_def st_err_def Let_def
        str_len_def sat_add_def 1 2 3)
qed

section \<open>Properties\<close>

text \<open>
  C30. What a client assembles from the streamed pieces of a tool call is the provider's final call: once
  the final calls have been accepted, every call was announced exactly once, under its final identifier
  and name, and the pieces of its arguments make up the final arguments, or a text with the same JSON
  value when the provider rewrote them.
\<close>

theorem tool_client_view:
  assumes "stream_parser tx"
    and "tool_frames tx request limit frames tool_stream_default = (Inr ds, s)"
    and "tool_final tx calls s = (Inr es, s')"
  shows "(\<forall>i < length calls. same_arguments tx (shown i (ds @ es)) (tc_arguments (calls ! i)) \<and>
            announced i (ds @ es) = [(tc_id (calls ! i), tc_name (calls ! i))]) \<and>
     (\<forall>d \<in> set (ds @ es). pd_index d < length calls)"
proof -
  have ok: "tool_ok tx ds s"
    using tool_frames_ok [OF assms(1) default_ok, where valid = False and request = request and limit = limit and frames = frames] assms(2)
    by (simp add: keeps_tools_def)
  have f: "final_deltas tx s 0 calls = Inr es" "length (ts_calls s) \<le> length calls"
    using assms(3) by (auto simp: tool_final_def st_Inr_simps split: if_splits)
  show ?thesis
    using final_deltas_ok [OF assms(1) ok f(1)] ok f(2) unfolding tool_ok_def by fastforce
qed

theorem tool_client_view_witness:
  "announced 0 ([\<lparr>pd_index = 0, pd_identity = Some (''x'', ''w''), pd_arguments = ''{''\<rparr>, \<lparr>pd_index = 0, pd_identity = None, pd_arguments = []\<rparr>] @
     [\<lparr>pd_index = 0, pd_identity = None, pd_arguments = ''}''\<rparr>]) = [(''x'', ''w'')]"
proof -
  have "tool_final sample_text [\<lparr>tc_id = ''x'', tc_name = ''w'', tc_arguments = ''{}''\<rparr>] sample_end =
      (Inr [\<lparr>pd_index = 0, pd_identity = None, pd_arguments = ''}''\<rparr>], sample_end\<lparr>ts_finalized := True\<rparr>)"
    by (simp add: tool_final_def final_delta_def sample_end_def str_slice_def is_char_boundary_def is_continuation_def byte_of_def st_bind_def st_read_def st_lift_def st_modify_def st_ok_def Let_def starts_with_def)
  from tool_client_view [OF sample_parser sample_run this] show ?thesis by (simp del: announced_append)
qed

text \<open>
  C21. Nothing that can be executed is shown early: while frames arrive, what a client has of the arguments of
  a call does not start with a complete object or array, and of arguments that are neither, it has nothing.
  No slice panics, neither while frames arrive nor when the final calls are compared with them, in whatever
  places the provider cuts texts with characters of several bytes; the strings of the frames and of the
  final calls are \<open>String\<close>s, so valid UTF-8.
\<close>

theorem tool_arguments_withheld:
  assumes "stream_parser tx" "list_all json_utf8 frames" "tool_frames tx request limit frames tool_stream_default = (r, s)"
  shows "r \<noteq> Inl SlicePanic \<and>
     (\<forall>ds. r = Inr ds \<longrightarrow>
        (\<forall>i. opens_value (shown i ds) \<longrightarrow> jt_first tx (shown i ds) = None) \<and>
        (\<forall>i < length (ts_calls s). \<not> opens_value (tc_arguments (ts_calls s ! i)) \<longrightarrow> shown i ds = []) \<and>
        (\<forall>calls. list_all (\<lambda>c. utf8 (tc_arguments c)) calls \<longrightarrow> fst (tool_final tx calls s) \<noteq> Inl SlicePanic))"
proof -
  have run: "keeps_tools tx [] True (r, s)"
    using tool_frames_ok [OF assms(1) default_ok, where valid = True and request = request and limit = limit and frames = frames] assms(2, 3)
    by (simp add: texts_valid_def tool_stream_default_def)
  then have fin: "tool_ok tx ds s" "texts_valid s" if "r = Inr ds" for ds using that by (simp_all add: keeps_tools_def)
  have "jt_first tx (shown i ds) = None" if r: "r = Inr ds" and o: "opens_value (shown i ds)" for ds i
  proof -
    note ok = fin(1) [OF r]
    have ne: "shown i ds \<noteq> []" using o by (auto simp: opens_value_def str_trim_start_def starts_with_def)
    have i: "i < length (ts_calls s)"
      using shown_absent [of ds i] ok ne unfolding tool_ok_def by (metis not_less_iff_gr_or_eq)
    let ?a = "tc_arguments (ts_calls s ! i)"
    have sh: "shown i ds = take (argument_end tx ?a) ?a" using ok i by (simp add: tool_ok_def)
    have "opens_value ?a" using opens_value_append [OF o, of "drop (argument_end tx ?a) ?a"] sh by simp
    then show ?thesis using argument_end_open [OF assms(1)] o sh by simp
  qed
  moreover have "shown i ds = []" if "r = Inr ds" "i < length (ts_calls s)" "\<not> opens_value (tc_arguments (ts_calls s ! i))" for ds i
    using fin(1) [OF that(1)] that(2, 3) by (simp add: tool_ok_def argument_end_def)
  moreover have "fst (tool_final tx calls s) \<noteq> Inl SlicePanic" if "r = Inr ds" "list_all (\<lambda>c. utf8 (tc_arguments c)) calls" for ds calls
    using final_deltas_no_panic [OF assms(1) fin [OF that(1)] that(2), of 0]
    by (auto simp: tool_final_def st_read_def st_bind_def st_lift_def st_modify_def st_ok_def st_err_def split: sum.splits)
  ultimately show ?thesis using run by (auto simp: keeps_tools_def split: sum.splits)
qed

theorem tool_arguments_withheld_witness:
  "opens_value ''{'' \<and> jt_first sample_text ''{'' = None"
proof -
  have "opens_value ''{''"
    using no_white_space(1) [of "CHR ''{''" "[]"] by (simp add: opens_value_def str_trim_start_def starts_with_def)
  moreover have "list_all json_utf8 sample_frames" by code_simp
  ultimately show ?thesis
    using tool_arguments_withheld [OF sample_parser _ sample_run] by (auto simp: shown_def dest: spec [where x = 0])
qed

text \<open>
  C38. The state a provider can make the gateway keep is limited: after any frames that were accepted
  there are at most 1024 calls, one when parallel calls are off, with distinct identifiers and with names
  the request advertised, and all their text together is within the limit of the session.
\<close>

theorem tool_state_limited:
  assumes "tool_frames tx request limit frames tool_stream_default = (Inr ds, s)"
  shows "length (ts_calls s) \<le> 1024 \<and> (tr_parallel_tool_calls request = Some False \<longrightarrow> length (ts_calls s) \<le> 1) \<and>
     distinct (map tc_id (ts_calls s)) \<and> list_all (\<lambda>c. advertised request (tc_name c)) (ts_calls s) \<and>
     (limit \<noteq> - 1 \<longrightarrow> sum_list (map call_bytes (ts_calls s)) \<le> unat limit)"
proof -
  have "tool_within request tool_stream_default" "ts_bytes tool_stream_default \<le> limit"
    by (simp_all add: tool_within_def tool_stream_default_def)
  then have w: "tool_within request s" "ts_bytes s \<le> limit" using tool_frames_within [OF _ _ assms] by blast+
  have "sum_list (map call_bytes (ts_calls s)) \<le> unat limit" if "limit \<noteq> - 1"
  proof -
    have "unat limit < 2 ^ 64" using unat_lt_pow [of limit] by simp
    moreover have "unat limit \<noteq> unat (- 1 :: u64)" using that by (metis word_unat_eq_iff)
    moreover have "unat (- 1 :: u64) = 2 ^ 64 - 1" by (simp add: unat_max)
    ultimately have "unat limit < 2 ^ 64 - 1" by linarith
    then show ?thesis using w by (auto simp: tool_within_def word_le_nat_alt min_def split: if_splits)
  qed
  then show ?thesis using w(1) by (auto simp: tool_within_def list_all_iff)
qed

theorem tool_state_limited_witness:
  "sum_list (map call_bytes (ts_calls sample_end)) \<le> 100"
  using tool_state_limited [OF sample_run] by simp

end
