(* ===== verification/Response_Stream.thy ===== *)
theory Response_Stream
  imports State_Result Json_Value
begin

text \<open>
  The adapter from chat-completion chunks to Responses events
  (\<open>mayhem-gateway/src/openai/response_stream.rs\<close>). The JSON objects it builds have fixed members and are
  records here; the chunks it reads are JSON values. \<open>env\<close> holds the clock, \<open>Value::as_u64\<close>, and
  the value of the counter that all streams of the process share at each of the draws of this stream;
  \<open>rs_next_id\<close> numbers the draws of this stream. An early
  \<open>return\<close> of \<open>push\<close> is an error of the state monad whose value is the list of events that is returned.
\<close>

section \<open>Data\<close>

datatype item_kind = ReasoningItem | MessageItem | FunctionItem string string

text \<open>\<open>oi_text\<close> is the text of the only content part, or the arguments of a function call; \<open>None\<close> is no part.\<close>

record output_item =
  oi_kind :: item_kind
  oi_id :: string
  oi_status :: string
  oi_text :: "string option"

record response_error =
  er_code :: string
  er_message :: string
  er_retryable :: "bool option"

record 'n response_usage =
  ru_input_tokens :: "'n json"
  ru_output_tokens :: "'n json"
  ru_total_tokens :: "'n json"
  ru_cached_tokens :: nat
  ru_reasoning_tokens :: nat

record 'n response =
  rp_id :: string
  rp_created_at :: u64
  rp_model :: string
  rp_status :: string
  rp_output :: "output_item list"
  rp_error :: "response_error option"
  rp_incomplete_details :: "string option"
  rp_usage :: "'n response_usage option"
  rp_mayhem :: "'n json option"

record 'n response_stream =
  rs_response :: "'n response"
  rs_output :: "output_item list"
  rs_text_index :: "nat option"
  rs_reasoning_index :: "nat option"
  rs_calls :: "(nat, nat) btree"
  rs_finish_reason :: "string option"
  rs_sequence :: u64
  rs_terminal :: bool
  rs_next_id :: nat

datatype 'n event_body =
  ResponseBody "'n response"
| ItemBody nat output_item
| PartBody nat string string string
| DeltaBody nat string string
| DoneBody nat string string "string option"

record 'n stream_event =
  se_type :: string
  se_sequence :: u64
  se_body :: "'n event_body"

record 'n stream_env =
  en_as_u64 :: "'n \<Rightarrow> nat option"
  en_millis :: "nat \<Rightarrow> nat"
  en_counter :: "nat \<Rightarrow> u64"
  en_secs :: u64

type_synonym ('n, 'a) response_op = "('n response_stream, 'n stream_event list, 'a) st_result"

definition json_index :: "'n json \<Rightarrow> string \<Rightarrow> 'n json" where
  "json_index v key = (case json_get v key of None \<Rightarrow> JNull | Some w \<Rightarrow> w)"

definition json_array :: "'n json option \<Rightarrow> 'n json list" where
  "json_array v = (case v of Some (JArray vs) \<Rightarrow> vs | _ \<Rightarrow> [])"

definition json_as_bool :: "'n json \<Rightarrow> bool option" where
  "json_as_bool v = (case v of JBool b \<Rightarrow> Some b | _ \<Rightarrow> None)"

definition number_or_zero :: "'n stream_env \<Rightarrow> 'n json option \<Rightarrow> nat" where
  "number_or_zero env v =
     (case v of Some (JNumber n) \<Rightarrow> (case en_as_u64 env n of Some k \<Rightarrow> k | None \<Rightarrow> 0) | _ \<Rightarrow> 0)"

definition non_empty_str :: "'n json option \<Rightarrow> string option" where
  "non_empty_str v = (case Option.bind v json_as_str of Some s \<Rightarrow> if s \<noteq> [] then Some s else None | None \<Rightarrow> None)"

section \<open>Operations\<close>

definition response_item_id :: "'n stream_env \<Rightarrow> string \<Rightarrow> nat \<Rightarrow> string" where
  "response_item_id env prefix n = prefix @ ''-mayhem-'' @ show_nat (en_millis env n) @ ''-'' @ show_nat (unat (en_counter env n))"

definition response_new :: "'n stream_env \<Rightarrow> string \<Rightarrow> nat \<Rightarrow> 'n response_stream" where
  "response_new env model start =
     \<lparr>rs_response =
        \<lparr>rp_id = response_item_id env ''resp'' start, rp_created_at = en_secs env, rp_model = model, rp_status = ''in_progress'',
         rp_output = [], rp_error = None, rp_incomplete_details = None, rp_usage = None, rp_mayhem = None\<rparr>,
      rs_output = [], rs_text_index = None, rs_reasoning_index = None, rs_calls = [], rs_finish_reason = None,
      rs_sequence = 0, rs_terminal = False, rs_next_id = Suc start\<rparr>"

definition response_event :: "string \<Rightarrow> 'n event_body \<Rightarrow> 'n response_stream \<Rightarrow> 'n stream_event \<times> 'n response_stream" where
  "response_event kind body s =
     (\<lparr>se_type = kind, se_sequence = rs_sequence s, se_body = body\<rparr>, s\<lparr>rs_sequence := rs_sequence s + 1\<rparr>)"

definition emit :: "string \<Rightarrow> ('n response_stream \<Rightarrow> 'n event_body) \<Rightarrow> ('n, 'n stream_event list) response_op" where
  "emit kind body s = (let (e, s') = response_event kind (body s) s in (Inr [e], s'))"

text \<open>Events are appended to the queue that \<open>push\<close> returns.\<close>

definition st_then :: "('n, 'n stream_event list) response_op \<Rightarrow> ('n, 'n stream_event list) response_op \<Rightarrow>
     ('n, 'n stream_event list) response_op" where
  "st_then m n = st_bind m (\<lambda>es. st_bind n (\<lambda>fs. st_ok (es @ fs)))"

primrec st_each :: "('a \<Rightarrow> ('n, 'n stream_event list) response_op) \<Rightarrow> 'a list \<Rightarrow> ('n, 'n stream_event list) response_op" where
  "st_each f [] = st_ok []"
| "st_each f (x # xs) = st_then (f x) (st_each f xs)"

definition quietly :: "('n response_stream \<Rightarrow> 'n response_stream) \<Rightarrow> ('n, 'n stream_event list) response_op" where
  "quietly f = st_bind (st_modify f) (\<lambda>_. st_ok [])"

definition response_start :: "('n, 'n stream_event list) response_op" where
  "response_start =
     st_then (emit ''response.created'' (\<lambda>s. ResponseBody (rs_response s)))
       (emit ''response.in_progress'' (\<lambda>s. ResponseBody (rs_response s)))"

definition fail_with_error :: "string \<Rightarrow> string \<Rightarrow> bool option \<Rightarrow> 'n response_stream \<Rightarrow> 'n stream_event list \<times> 'n response_stream" where
  "fail_with_error message code retryable s =
     (let output = map (\<lambda>item. item\<lparr>oi_status := ''incomplete''\<rparr>) (rs_output s);
          response = (rs_response s)\<lparr>rp_status := ''failed'',
            rp_error := Some \<lparr>er_code = code, er_message = message, er_retryable = retryable\<rparr>, rp_output := output\<rparr>;
          (e, s') = response_event ''response.failed'' (ResponseBody response)
            (s\<lparr>rs_terminal := True, rs_response := response, rs_output := output\<rparr>)
      in ([e], s'))"

definition response_fail :: "string \<Rightarrow> 'n response_stream \<Rightarrow> 'n stream_event list \<times> 'n response_stream" where
  "response_fail message = fail_with_error message ''server_error'' None"

definition return_fail :: "string \<Rightarrow> ('n, 'a) response_op" where
  "return_fail message s = (let (es, s') = response_fail message s in (Inl es, s'))"

definition read_usage :: "'n stream_env \<Rightarrow> 'n json \<Rightarrow> 'n response_usage" where
  "read_usage env usage =
     \<lparr>ru_input_tokens = json_index usage ''prompt_tokens'', ru_output_tokens = json_index usage ''completion_tokens'',
      ru_total_tokens = json_index usage ''total_tokens'',
      ru_cached_tokens = number_or_zero env (json_pointer usage [''prompt_tokens_details'', ''cached_tokens'']),
      ru_reasoning_tokens = number_or_zero env (json_pointer usage [''completion_tokens_details'', ''reasoning_tokens''])\<rparr>"

text \<open>A new item at the end of the output; the text of an item grows by a piece.\<close>

definition add_item :: "'n stream_env \<Rightarrow> string \<Rightarrow> item_kind \<Rightarrow> string option \<Rightarrow> ('n, 'n stream_event list) response_op" where
  "add_item env prefix kind txt =
     st_read (\<lambda>s.
       let index = length (rs_output s);
           item = \<lparr>oi_kind = kind, oi_id = response_item_id env prefix (rs_next_id s), oi_status = ''in_progress'', oi_text = txt\<rparr>
       in st_then (quietly (\<lambda>s. s\<lparr>rs_next_id := Suc (rs_next_id s)\<rparr>))
            (st_then (emit ''response.output_item.added'' (\<lambda>_. ItemBody index item))
               (quietly (\<lambda>s. s\<lparr>rs_output := rs_output s @ [item]\<rparr>))))"

definition add_part :: "string \<Rightarrow> ('n, 'n stream_event list) response_op" where
  "add_part part_type =
     st_read (\<lambda>s.
       let index = length (rs_output s) - 1; item = rs_output s ! index
       in st_then (emit ''response.content_part.added'' (\<lambda>_. PartBody index (oi_id item) part_type []))
            (quietly (\<lambda>s. s\<lparr>rs_output := (rs_output s)[index := item\<lparr>oi_text := Some []\<rparr>]\<rparr>)))"

definition grow_text :: "nat \<Rightarrow> string \<Rightarrow> 'n response_stream \<Rightarrow> 'n response_stream" where
  "grow_text index txt s =
     s\<lparr>rs_output := (rs_output s)[index :=
         (rs_output s ! index)\<lparr>oi_text := map_option (\<lambda>prior. prior @ txt) (oi_text (rs_output s ! index))\<rparr>]\<rparr>"

definition emit_delta :: "string \<Rightarrow> nat \<Rightarrow> string \<Rightarrow> ('n, 'n stream_event list) response_op" where
  "emit_delta kind index txt =
     st_then (quietly (grow_text index txt))
       (emit kind (\<lambda>s. DeltaBody index (oi_id (rs_output s ! index)) txt))"

text \<open>Reasoning and answer text are handled alike, each in an item of its own.\<close>

definition push_text ::
    "'n stream_env \<Rightarrow> string \<Rightarrow> item_kind \<Rightarrow> string \<Rightarrow> string \<Rightarrow> nat option \<Rightarrow> (nat \<Rightarrow> 'n response_stream \<Rightarrow> 'n response_stream) \<Rightarrow>
     string \<Rightarrow> ('n, 'n stream_event list) response_op" where
  "push_text env prefix kind part_type delta_type known remember txt =
     (case known of
        Some index \<Rightarrow> emit_delta delta_type index txt
      | None \<Rightarrow>
          st_read (\<lambda>s. let index = length (rs_output s) in
            st_then (add_item env prefix kind None)
           (st_then (add_part part_type)
           (st_then (quietly (remember index))
              (emit_delta delta_type index txt)))))"

definition push_reasoning :: "'n stream_env \<Rightarrow> string \<Rightarrow> ('n, 'n stream_event list) response_op" where
  "push_reasoning env txt =
     st_read (\<lambda>s. push_text env ''rs'' ReasoningItem ''reasoning_text'' ''response.reasoning_text.delta''
       (rs_reasoning_index s) (\<lambda>index t. t\<lparr>rs_reasoning_index := Some index\<rparr>) txt)"

definition push_content :: "'n stream_env \<Rightarrow> string \<Rightarrow> ('n, 'n stream_event list) response_op" where
  "push_content env txt =
     st_read (\<lambda>s. push_text env ''msg'' MessageItem ''output_text'' ''response.output_text.delta''
       (rs_text_index s) (\<lambda>index t. t\<lparr>rs_text_index := Some index\<rparr>) txt)"

definition push_call :: "'n stream_env \<Rightarrow> 'n json \<Rightarrow> ('n, 'n stream_event list) response_op" where
  "push_call env call =
     (let call_index = number_or_zero env (json_get call ''index'');
          arguments = (\<lambda>index. case non_empty_str (json_pointer call [''function'', ''arguments'']) of
             Some txt \<Rightarrow> emit_delta ''response.function_call_arguments.delta'' index txt | None \<Rightarrow> st_ok [])
      in st_read (\<lambda>s. case bt_get (rs_calls s) call_index of
           Some index \<Rightarrow> arguments index
         | None \<Rightarrow> (case non_empty_str (json_get call ''id'') of
             None \<Rightarrow> return_fail ''function call is missing its id''
           | Some call_id \<Rightarrow> (case non_empty_str (json_pointer call [''function'', ''name'']) of
               None \<Rightarrow> return_fail ''function call is missing its name''
             | Some name \<Rightarrow>
                 st_then (add_item env ''fc'' (FunctionItem call_id name) (Some []))
                (st_then (quietly (\<lambda>t. t\<lparr>rs_calls := bt_insert call_index (length (rs_output s)) (rs_calls t)\<rparr>))
                   (arguments (length (rs_output s))))))))"

definition push_choice :: "'n stream_env \<Rightarrow> 'n json \<Rightarrow> ('n, 'n stream_event list) response_op" where
  "push_choice env choice =
     (let delta = json_index choice ''delta'' in
      st_then (quietly (\<lambda>s. case Option.bind (json_get choice ''finish_reason'') json_as_str of
                 Some reason \<Rightarrow> s\<lparr>rs_finish_reason := Some reason\<rparr> | None \<Rightarrow> s))
     (st_then (case non_empty_str (json_get delta ''reasoning_content'') of Some txt \<Rightarrow> push_reasoning env txt | None \<Rightarrow> st_ok [])
     (st_then (case non_empty_str (json_get delta ''content'') of Some txt \<Rightarrow> push_content env txt | None \<Rightarrow> st_ok [])
        (st_each (push_call env) (json_array (json_get delta ''tool_calls''))))))"

definition push_metadata :: "'n stream_env \<Rightarrow> 'n json \<Rightarrow> 'n response_stream \<Rightarrow> 'n response_stream" where
  "push_metadata env chunk s =
     (let s = (case json_get chunk ''usage'' of
            Some usage \<Rightarrow> if usage \<noteq> JNull then s\<lparr>rs_response := (rs_response s)\<lparr>rp_usage := Some (read_usage env usage)\<rparr>\<rparr> else s
          | None \<Rightarrow> s)
      in case json_get chunk ''mayhem'' of
           Some meta \<Rightarrow> s\<lparr>rs_response := (rs_response s)\<lparr>rp_mayhem := Some meta\<rparr>\<rparr>
         | None \<Rightarrow> s)"

definition returned :: "('e + 'e) \<times> 's \<Rightarrow> 'e \<times> 's" where
  "returned r = (case r of (Inl es, s) \<Rightarrow> (es, s) | (Inr es, s) \<Rightarrow> (es, s))"

definition response_push :: "'n stream_env \<Rightarrow> 'n json \<Rightarrow> 'n response_stream \<Rightarrow> 'n stream_event list \<times> 'n response_stream" where
  "response_push env chunk s =
     (case json_get chunk ''error'' of
        Some err \<Rightarrow>
          fail_with_error
            (case Option.bind (json_get err ''message'') json_as_str of Some m \<Rightarrow> m | None \<Rightarrow> ''stream failed'')
            (case non_empty_str (json_get err ''code'') of Some c \<Rightarrow> c | None \<Rightarrow> ''server_error'')
            (Option.bind (json_get err ''retryable'') json_as_bool) s
      | None \<Rightarrow>
          returned (st_each (push_choice env) (json_array (json_get chunk ''choices'')) (push_metadata env chunk s)))"

definition incomplete_reason :: "string \<Rightarrow> string option" where
  "incomplete_reason reason =
     (if reason = ''length'' then Some ''max_output_tokens''
      else if reason = ''content_filter'' then Some ''content_filter'' else None)"

definition finish_item :: "string \<Rightarrow> nat \<Rightarrow> ('n, 'n stream_event list) response_op" where
  "finish_item status index =
     st_read (\<lambda>s.
       let item = (rs_output s ! index)\<lparr>oi_status := status\<rparr>;
           txt = (case oi_text item of Some t \<Rightarrow> t | None \<Rightarrow> [])
       in st_then (quietly (\<lambda>s. s\<lparr>rs_output := (rs_output s)[index := item]\<rparr>))
         (st_then
            (case oi_kind item of
               MessageItem \<Rightarrow>
                 st_then (emit ''response.output_text.done'' (\<lambda>_. DoneBody index (oi_id item) txt None))
                   (emit ''response.content_part.done'' (\<lambda>_. PartBody index (oi_id item) ''output_text'' txt))
             | ReasoningItem \<Rightarrow>
                 st_then (emit ''response.reasoning_text.done'' (\<lambda>_. DoneBody index (oi_id item) txt None))
                   (emit ''response.content_part.done'' (\<lambda>_. PartBody index (oi_id item) ''reasoning_text'' txt))
             | FunctionItem call_id name \<Rightarrow>
                 emit ''response.function_call_arguments.done'' (\<lambda>_. DoneBody index (oi_id item) txt (Some name)))
            (emit ''response.output_item.done'' (\<lambda>_. ItemBody index item))))"

definition finish_output :: "string \<Rightarrow> string \<Rightarrow> string option \<Rightarrow> ('n, 'n stream_event list) response_op" where
  "finish_output status kind incomplete =
     st_read (\<lambda>s.
       st_then (st_each (finish_item status) [0..<length (rs_output s)])
      (st_then (quietly (\<lambda>s.
          s\<lparr>rs_response := (rs_response s)\<lparr>rp_status := status, rp_output := rs_output s,
              rp_incomplete_details := (case incomplete of Some r \<Rightarrow> Some r | None \<Rightarrow> rp_incomplete_details (rs_response s))\<rparr>,
            rs_terminal := True\<rparr>))
         (emit kind (\<lambda>s. ResponseBody (rs_response s)))))"

definition response_finish :: "'n response_stream \<Rightarrow> 'n stream_event list \<times> 'n response_stream" where
  "response_finish s =
     (case rs_finish_reason s of
        None \<Rightarrow> response_fail ''stream ended before a deliverable result'' s
      | Some reason \<Rightarrow>
          (case incomplete_reason reason of
             Some r \<Rightarrow> returned (finish_output ''incomplete'' ''response.incomplete'' (Some r) s)
           | None \<Rightarrow> returned (finish_output ''completed'' ''response.completed'' None s)))"

text \<open>
  The stream that drives the adapter. A source item is a chunk, or \<open>None\<close> for the end marker; the end of
  the list is the end of the source. Every queue is drained before the next item is asked for.
\<close>

fun response_drive :: "'n stream_env \<Rightarrow> 'n json option list \<Rightarrow> 'n response_stream \<Rightarrow> 'n stream_event list" where
  "response_drive env source s =
     (if rs_terminal s then []
      else case source of
        [] \<Rightarrow> fst (response_fail ''stream ended without a terminal event'' s)
      | None # rest \<Rightarrow> (let (es, s') = response_finish s in es @ response_drive env rest s')
      | Some chunk # rest \<Rightarrow> (let (es, s') = response_push env chunk s in es @ response_drive env rest s'))"

definition from_chat :: "'n stream_env \<Rightarrow> string \<Rightarrow> nat \<Rightarrow> 'n json option list \<Rightarrow> 'n stream_event list" where
  "from_chat env model start source =
     (case response_start (response_new env model start) of
        (Inl es, s) \<Rightarrow> es
      | (Inr es, s) \<Rightarrow> es @ response_drive env source s)"

section \<open>Shape of the event sequence\<close>

definition terminal_type :: "string \<Rightarrow> bool" where
  "terminal_type t \<longleftrightarrow> t \<in> {''response.completed'', ''response.incomplete'', ''response.failed''}"

primrec numbered :: "u64 \<Rightarrow> 'n stream_event list \<Rightarrow> bool" where
  "numbered n [] \<longleftrightarrow> True"
| "numbered n (e # es) \<longleftrightarrow> se_sequence e = n \<and> numbered (n + 1) es"

lemma numbered_append: "numbered n (es @ fs) \<longleftrightarrow> numbered n es \<and> numbered (n + of_nat (length es)) fs"
  by (induction es arbitrary: n) (auto simp: add.assoc)

text \<open>The failures after which events that were already numbered are not returned.\<close>

definition call_refused :: "'n stream_event \<Rightarrow> bool" where
  "call_refused e \<longleftrightarrow> se_type e = ''response.failed'' \<and>
     (case se_body e of ResponseBody r \<Rightarrow> (case rp_error r of
        Some err \<Rightarrow> er_message err \<in> {''function call is missing its id'', ''function call is missing its name''} | None \<Rightarrow> False)
      | _ \<Rightarrow> False)"

text \<open>An operation either returns numbered events that end nothing, or returns early with a failure.\<close>

definition outcome_shaped :: "'n response_stream \<Rightarrow> ('n stream_event list + 'n stream_event list) \<times> 'n response_stream \<Rightarrow> bool" where
  "outcome_shaped s out \<longleftrightarrow> (case out of
     (Inr es, s') \<Rightarrow>
       numbered (rs_sequence s) es \<and> rs_sequence s' = rs_sequence s + of_nat (length es) \<and>
       (\<forall>e \<in> set es. \<not> terminal_type (se_type e)) \<and> rs_terminal s' = rs_terminal s
   | (Inl es, s') \<Rightarrow> rs_terminal s' \<and> (\<exists>e. es = [e] \<and> call_refused e \<and> terminal_type (se_type e)))"

definition well_shaped :: "('n, 'n stream_event list) response_op \<Rightarrow> bool" where
  "well_shaped m \<longleftrightarrow> (\<forall>s. outcome_shaped s (m s))"

named_theorems shape

lemma shape_emit [shape]: "\<not> terminal_type kind \<Longrightarrow> well_shaped (emit kind body)"
  by (simp add: well_shaped_def outcome_shaped_def emit_def response_event_def)

lemma shape_ok [shape]: "well_shaped (st_ok [])"
  by (simp add: well_shaped_def outcome_shaped_def st_ok_def)

lemma shape_quietly [shape]:
  "(\<And>s. rs_sequence (f s) = rs_sequence s) \<Longrightarrow> (\<And>s. rs_terminal (f s) = rs_terminal s) \<Longrightarrow> well_shaped (quietly f)"
  by (simp add: well_shaped_def outcome_shaped_def quietly_def st_bind_def st_modify_def st_ok_def)

lemma shape_read [shape]: "(\<And>s. well_shaped (f s)) \<Longrightarrow> well_shaped (st_read f)"
  by (simp add: well_shaped_def st_read_def)

lemma shape_fail [shape]:
  "message \<in> {''function call is missing its id'', ''function call is missing its name''} \<Longrightarrow> well_shaped (return_fail message)"
  by (auto simp: well_shaped_def outcome_shaped_def return_fail_def response_fail_def fail_with_error_def Let_def response_event_def call_refused_def terminal_type_def)

lemma shape_then [shape]:
  assumes "well_shaped m" "well_shaped n"
  shows "well_shaped (st_then m n)"
  unfolding well_shaped_def
proof
  fix s
  obtain r s1 where r: "m s = (r, s1)" by (cases "m s")
  obtain q s2 where q: "n s1 = (q, s2)" by (cases "n s1")
  have "outcome_shaped s (r, s1)" "outcome_shaped s1 (q, s2)"
    using assms r q unfolding well_shaped_def by metis+
  then show "outcome_shaped s (st_then m n s)"
    using r q by (cases r; cases q) (auto simp: outcome_shaped_def st_then_def st_bind_def st_ok_def numbered_append add.assoc)
qed

lemma shape_each [shape]: "(\<And>x. well_shaped (f x)) \<Longrightarrow> well_shaped (st_each f xs)"
  by (induction xs) (auto intro: shape)

lemma shape_option [shape]: "(\<And>x. well_shaped (f x)) \<Longrightarrow> well_shaped m \<Longrightarrow> well_shaped (case v of Some x \<Rightarrow> f x | None \<Rightarrow> m)"
  by (cases v) auto

lemma shape_deltas [shape]:
  "\<not> terminal_type kind \<Longrightarrow> well_shaped (emit_delta kind index txt)" "well_shaped (add_item env prefix k t)" "well_shaped (add_part p)"
  unfolding emit_delta_def add_item_def add_part_def Let_def
  by (auto intro!: shape simp: grow_text_def terminal_type_def)

lemma shape_text:
  assumes "\<not> terminal_type delta_type" "\<And>i s. rs_sequence (remember i s) = rs_sequence s" "\<And>i s. rs_terminal (remember i s) = rs_terminal s"
  shows "well_shaped (push_text env prefix kind part_type delta_type known remember txt)"
  unfolding push_text_def Let_def
  by (rule shape_option; intro shape_deltas shape_read shape_then shape_quietly assms)

lemma shape_call: "well_shaped (push_call env call)"
proof -
  have a: "well_shaped (case v of Some txt \<Rightarrow> emit_delta ''response.function_call_arguments.delta'' index txt | None \<Rightarrow> st_ok [])" for v index
    by (rule shape_option; intro shape_deltas shape_ok) (simp add: terminal_type_def)
  show ?thesis
    unfolding push_call_def Let_def
    by (rule shape_read, rule shape_option, rule a, rule shape_option, rule shape_option)
       (intro shape_then shape_deltas shape_quietly a shape_fail; simp)+
qed

lemma shape_choice: "well_shaped (push_choice env choice)"
  unfolding push_choice_def Let_def push_reasoning_def push_content_def
  by (intro shape_then shape_each shape_call shape_option shape_ok shape_read shape_text shape_quietly)
     (simp_all add: terminal_type_def split: option.split)

lemma shape_finish_item: "well_shaped (finish_item status index)"
  unfolding finish_item_def Let_def
  by (intro shape; auto simp: terminal_type_def intro!: shape split: item_kind.split)

text \<open>A complete answer: one terminal event, at the end, and numbers without gaps unless a call was refused.\<close>

definition answer :: "u64 \<Rightarrow> 'n stream_event list \<Rightarrow> bool" where
  "answer n es \<longleftrightarrow> (\<exists>fs e. es = fs @ [e] \<and> terminal_type (se_type e) \<and> (\<forall>x \<in> set fs. \<not> terminal_type (se_type x)) \<and>
     numbered n fs \<and> (numbered n (fs @ [e]) \<or> call_refused e))"

lemma answer_append:
  assumes "numbered n es" "\<forall>e \<in> set es. \<not> terminal_type (se_type e)" "answer (n + of_nat (length es)) fs"
  shows "answer n (es @ fs)"
proof -
  obtain gs e where g: "fs = gs @ [e]" "terminal_type (se_type e)" "\<forall>x \<in> set gs. \<not> terminal_type (se_type x)"
    "numbered (n + of_nat (length es)) gs" "numbered (n + of_nat (length es)) (gs @ [e]) \<or> call_refused e"
    using assms(3) unfolding answer_def by blast
  show ?thesis
    unfolding answer_def using assms(1, 2) g by (intro exI [of _ "es @ gs"] exI [of _ e]) (auto simp: numbered_append add.assoc)
qed

lemma answer_split:
  assumes "answer n es" "xs @ es = fs @ [e]"
  obtains hs where "es = hs @ [e]" "fs = xs @ hs"
  using assms unfolding answer_def by auto

lemma fail_answer:
  fixes s :: "'n response_stream"
  shows "answer (rs_sequence s) (fst (fail_with_error message code retryable s))" "rs_terminal (snd (fail_with_error message code retryable s))"
  unfolding answer_def by (auto simp: fail_with_error_def Let_def response_event_def terminal_type_def)

lemma push_shaped:
  assumes "response_push env chunk s = (es, s')"
  shows "numbered (rs_sequence s) es \<and> rs_sequence s' = rs_sequence s + of_nat (length es) \<and>
      (\<forall>e \<in> set es. \<not> terminal_type (se_type e)) \<and> rs_terminal s' = rs_terminal s \<or>
    rs_terminal s' \<and> answer (rs_sequence s) es"
proof (cases "json_get chunk ''error''")
  case None
  have meta: "rs_sequence (push_metadata env chunk s) = rs_sequence s" "rs_terminal (push_metadata env chunk s) = rs_terminal s"
    by (auto simp: push_metadata_def Let_def split: option.split)
  have "well_shaped (st_each (push_choice env) (json_array (json_get chunk ''choices'')))"
    by (intro shape_each shape_choice)
  then have "outcome_shaped (push_metadata env chunk s) (st_each (push_choice env) (json_array (json_get chunk ''choices'')) (push_metadata env chunk s))"
    by (simp add: well_shaped_def)
  then show ?thesis
    using assms None meta unfolding outcome_shaped_def response_push_def answer_def returned_def by (auto split: prod.splits sum.splits)
next
  case (Some err)
  then show ?thesis using assms fail_answer [where s = s] by (auto simp: response_push_def) (metis fst_conv snd_conv)+
qed

lemma finish_output_answer:
  fixes s :: "'n response_stream"
  assumes "returned (finish_output status kind incomplete s) = (es, s')" "terminal_type kind"
  shows "rs_terminal s' \<and> answer (rs_sequence s) es"
proof -
  let ?m = "st_each (finish_item status) [0..<length (rs_output s)] :: ('n, 'n stream_event list) response_op"
  have "well_shaped ?m" by (intro shape_each shape_finish_item)
  then have sh: "outcome_shaped s (?m s)" by (simp add: well_shaped_def)
  obtain r s1 where m: "?m s = (r, s1)" by (cases "?m s")
  show ?thesis
  proof (cases r)
    case (Inl fs)
    then have "es = fs \<and> s' = s1" using assms m by (simp add: finish_output_def st_read_def returned_def st_then_def st_bind_def)
    then show ?thesis using sh m Inl unfolding outcome_shaped_def answer_def by auto
  next
    case (Inr fs)
    have "\<exists>e. es = fs @ [e] \<and> se_type e = kind \<and> se_sequence e = rs_sequence s1 \<and> rs_terminal s'"
      using assms m Inr
      by (auto simp: finish_output_def st_read_def returned_def st_then_def st_bind_def st_ok_def quietly_def st_modify_def
            emit_def response_event_def)
    then obtain e where e: "es = fs @ [e]" "se_type e = kind" "se_sequence e = rs_sequence s1" "rs_terminal s'" by blast
    then show ?thesis
      using sh m Inr assms(2) unfolding outcome_shaped_def answer_def
      by (intro conjI exI [of _ fs] exI [of _ e]) (auto simp: numbered_append)
  qed
qed

lemma finish_answer:
  assumes "response_finish s = (es, s')"
  shows "rs_terminal s' \<and> answer (rs_sequence s) es"
proof (cases "rs_finish_reason s")
  case None
  then have f: "fail_with_error ''stream ended before a deliverable result'' ''server_error'' None s = (es, s')"
    using assms by (simp add: response_finish_def response_fail_def)
  show ?thesis
    using fail_answer [where s = s and message = "''stream ended before a deliverable result''" and code = "''server_error''" and retryable = None] f
    by simp
next
  case (Some reason)
  then show ?thesis
    using assms finish_output_answer [of _ _ _ s es s'] by (auto simp: response_finish_def terminal_type_def split: option.splits)
qed

declare response_drive.simps [simp del]

lemma drive_terminal [simp]: "rs_terminal s \<Longrightarrow> response_drive env source s = []"
  by (simp add: response_drive.simps)

lemma drive_answer: "\<not> rs_terminal s \<Longrightarrow> answer (rs_sequence s) (response_drive env source s)"
proof (induction source arbitrary: s)
  case Nil
  then show ?case using fail_answer(1) [where s = s] by (simp add: response_drive.simps response_fail_def)
next
  case (Cons item source)
  show ?case
  proof (cases item)
    case None
    obtain es s' where f: "response_finish s = (es, s')" by (cases "response_finish s")
    then show ?thesis using Cons.prems None finish_answer [OF f] by (simp add: response_drive.simps [of env "_ # source"])
  next
    case (Some chunk)
    obtain es s' where f: "response_push env chunk s = (es, s')" by (cases "response_push env chunk s")
    have run: "response_drive env (item # source) s = es @ response_drive env source s'"
      using Cons.prems Some f by (simp add: response_drive.simps [of env "_ # source"])
    show ?thesis
      using push_shaped [OF f] Cons.IH [of s'] Cons.prems answer_append unfolding run by auto
  qed
qed

section \<open>What the events tell about the items\<close>

definition delta_text :: "nat \<Rightarrow> 'n stream_event list \<Rightarrow> string" where
  "delta_text i es = concat (map (\<lambda>e. case se_body e of DeltaBody j _ txt \<Rightarrow> if j = i then txt else [] | _ \<Rightarrow> []) es)"

definition added_ids :: "nat \<Rightarrow> 'n stream_event list \<Rightarrow> string list" where
  "added_ids i es =
     concat (map (\<lambda>e. case se_body e of ItemBody j item \<Rightarrow> if j = i \<and> se_type e = ''response.output_item.added'' then [oi_id item] else [] | _ \<Rightarrow> []) es)"

lemma event_views_append [simp]:
  "delta_text i (es @ fs) = delta_text i es @ delta_text i fs" "added_ids i (es @ fs) = added_ids i es @ added_ids i fs"
  by (simp_all add: delta_text_def added_ids_def)

definition open_item :: "'n response_stream \<Rightarrow> nat \<Rightarrow> bool" where
  "open_item s i \<longleftrightarrow> i < length (rs_output s) \<and> oi_text (rs_output s ! i) \<noteq> None"

definition items_told :: "'n stream_event list \<Rightarrow> 'n response_stream \<Rightarrow> bool" where
  "items_told es s \<longleftrightarrow>
     (\<forall>i < length (rs_output s). oi_text (rs_output s ! i) = Some (delta_text i es) \<and> added_ids i es = [oi_id (rs_output s ! i)]) \<and>
     (\<forall>i \<ge> length (rs_output s). delta_text i es = [] \<and> added_ids i es = []) \<and>
     (\<forall>i. rs_text_index s = Some i \<longrightarrow> i < length (rs_output s)) \<and>
     (\<forall>i. rs_reasoning_index s = Some i \<longrightarrow> i < length (rs_output s)) \<and>
     (\<forall>k i. bt_get (rs_calls s) k = Some i \<longrightarrow> i < length (rs_output s))"

definition tells :: "('n, 'n stream_event list) response_op \<Rightarrow> bool" where
  "tells m \<longleftrightarrow> (\<forall>es s fs s'. items_told es s \<longrightarrow> m s = (Inr fs, s') \<longrightarrow> items_told (es @ fs) s')"

lemma tells_then:
  assumes "tells m" "tells n"
  shows "tells (st_then m n)"
  unfolding tells_def st_then_def st_Inr_simps
proof (intro allI impI, elim exE conjE)
  fix es s fs s' gs t hs t'
  assume "items_told es s" "m s = (Inr gs, t)" "n t = (Inr hs, t')" "fs = gs @ hs" "s' = t'"
  then show "items_told (es @ fs) s'" using assms unfolding tells_def by (metis append.assoc)
qed

lemma tells_ok: "tells (st_ok [])"
  by (simp add: tells_def st_ok_def)

lemma tells_each: "(\<And>x. tells (f x)) \<Longrightarrow> tells (st_each f xs)"
  by (induction xs) (simp_all add: tells_ok tells_then)

lemma tells_option: "(\<And>x. tells (f x)) \<Longrightarrow> tells (case v of Some x \<Rightarrow> f x | None \<Rightarrow> st_ok [])"
  by (cases v) (simp_all add: tells_ok)

lemma told_delta:
  assumes "items_told es s" "index < length (rs_output s)" "emit_delta kind index txt s = (Inr fs, s')"
  shows "items_told (es @ fs) s'"
proof -
  have fs: "fs = [\<lparr>se_type = kind, se_sequence = rs_sequence s, se_body = DeltaBody index (oi_id (rs_output s ! index)) txt\<rparr>]"
    and s': "s' = (grow_text index txt s)\<lparr>rs_sequence := rs_sequence s + 1\<rparr>"
    using assms(2, 3)
    by (auto simp: emit_delta_def st_then_def quietly_def emit_def response_event_def st_bind_def st_modify_def st_ok_def grow_text_def)
  have "delta_text i fs = (if i = index then txt else [])" "added_ids i fs = []" for i
    by (simp_all add: fs delta_text_def added_ids_def)
  then show ?thesis
    using assms(1, 2) unfolding items_told_def s' grow_text_def by (auto simp: nth_list_update)
qed

text \<open>A new item, announced and then given its first text.\<close>

lemma told_new:
  assumes "items_told es s" "oi_text item = Some []" "rs_output s' = rs_output s @ [item]"
    and "\<And>i. delta_text i fs = []" "\<And>i. added_ids i fs = (if i = length (rs_output s) then [oi_id item] else [])"
    and "rs_text_index s' \<in> {rs_text_index s, Some (length (rs_output s))}"
    and "rs_reasoning_index s' \<in> {rs_reasoning_index s, Some (length (rs_output s))}"
    and "rs_calls s' = rs_calls s \<or> (\<exists>k. rs_calls s' = bt_insert k (length (rs_output s)) (rs_calls s))"
  shows "items_told (es @ fs) s'"
proof -
  have "oi_text (rs_output s' ! i) = Some (delta_text i (es @ fs)) \<and> added_ids i (es @ fs) = [oi_id (rs_output s' ! i)]"
    if "i < length (rs_output s')" for i
    using that assms(1-5) unfolding items_told_def by (auto simp: nth_append less_Suc_eq)
  moreover have "bt_get (rs_calls s') k = Some i \<Longrightarrow> i < length (rs_output s')" for k i
    using assms(1, 3, 8) unfolding items_told_def by (auto simp: btree_simps less_Suc_eq split: if_splits)
  ultimately show ?thesis
    using assms(1, 3-7) unfolding items_told_def by (auto simp: less_Suc_eq)
qed

lemma add_text_item:
  fixes s :: "'n response_stream"
  assumes "item = \<lparr>oi_kind = kind, oi_id = response_item_id env prefix (rs_next_id s), oi_status = ''in_progress'', oi_text = None\<rparr>"
  shows "st_then (add_item env prefix kind None) (st_then (add_part part_type) m) s = st_bind m (\<lambda>gs. st_ok
     ([\<lparr>se_type = ''response.output_item.added'', se_sequence = rs_sequence s, se_body = ItemBody (length (rs_output s)) item\<rparr>,
       \<lparr>se_type = ''response.content_part.added'', se_sequence = rs_sequence s + 1,
         se_body = PartBody (length (rs_output s)) (oi_id item) part_type []\<rparr>] @ gs))
     (s\<lparr>rs_next_id := Suc (rs_next_id s), rs_sequence := rs_sequence s + 1 + 1, rs_output := rs_output s @ [item\<lparr>oi_text := Some []\<rparr>]\<rparr>)"
  by (simp add: assms st_read_def add_item_def add_part_def st_then_def quietly_def emit_def response_event_def
        st_bind_def st_modify_def st_ok_def Let_def split: prod.splits sum.splits)

lemma st_quietly_then: "st_then (quietly f) m s = m (f s)"
  by (simp add: st_then_def quietly_def st_bind_def st_modify_def st_ok_def split: prod.splits sum.splits)

lemma told_text:
  assumes told: "items_told es s" and known: "\<And>i. known = Some i \<Longrightarrow> i < length (rs_output s)"
    and run: "push_text env prefix kind part_type delta_type known remember txt s = (Inr fs, s')"
    and remember: "\<And>i t. rs_output (remember i t) = rs_output t" "\<And>i t. rs_text_index (remember i t) \<in> {rs_text_index t, Some i}"
      "\<And>i t. rs_reasoning_index (remember i t) \<in> {rs_reasoning_index t, Some i}" "\<And>i t. rs_calls (remember i t) = rs_calls t"
  shows "items_told (es @ fs) s'"
proof (cases known)
  case (Some index)
  then show ?thesis using run told_delta [OF told] known by (simp add: push_text_def)
next
  case None
  let ?n = "length (rs_output s)"
  let ?item = "\<lparr>oi_kind = kind, oi_id = response_item_id env prefix (rs_next_id s), oi_status = ''in_progress'', oi_text = None\<rparr>"
  let ?new = "[\<lparr>se_type = ''response.output_item.added'', se_sequence = rs_sequence s, se_body = ItemBody ?n ?item\<rparr>,
    \<lparr>se_type = ''response.content_part.added'', se_sequence = rs_sequence s + 1, se_body = PartBody ?n (oi_id ?item) part_type []\<rparr>]"
  let ?s1 = "s\<lparr>rs_next_id := Suc (rs_next_id s), rs_sequence := rs_sequence s + 1 + 1,
    rs_output := rs_output s @ [?item\<lparr>oi_text := Some []\<rparr>]\<rparr>"
  let ?s2 = "remember ?n ?s1"
  obtain gs where gs: "emit_delta delta_type ?n txt ?s2 = (Inr gs, s')" "fs = ?new @ gs"
    using run None by (auto simp: push_text_def st_read_def Let_def add_text_item [OF refl] st_Inr_simps st_quietly_then)
  have told2: "items_told (es @ ?new) ?s2"
    by (rule told_new [OF told, of "?item\<lparr>oi_text := Some []\<rparr>"])
       (use remember [of ?n ?s1] in \<open>auto simp: delta_text_def added_ids_def\<close>)
  show ?thesis
    using told_delta [OF told2 _ gs(1)] gs(2) remember(1) [of ?n ?s1] by simp
qed

lemma tells_text: "tells (push_reasoning env txt)" "tells (push_content env txt)"
proof -
  show "tells (push_reasoning env txt)"
    unfolding tells_def push_reasoning_def st_read_def
    by (intro allI impI, erule told_text [rotated 2]) (auto simp: items_told_def)
  show "tells (push_content env txt)"
    unfolding tells_def push_content_def st_read_def
    by (intro allI impI, erule told_text [rotated 2]) (auto simp: items_told_def)
qed

lemma add_call_item:
  fixes s :: "'n response_stream"
  assumes "item = \<lparr>oi_kind = kind, oi_id = response_item_id env prefix (rs_next_id s), oi_status = ''in_progress'', oi_text = Some []\<rparr>"
  shows "st_then (add_item env prefix kind (Some [])) m s = st_bind m (\<lambda>gs. st_ok
     ([\<lparr>se_type = ''response.output_item.added'', se_sequence = rs_sequence s, se_body = ItemBody (length (rs_output s)) item\<rparr>] @ gs))
     (s\<lparr>rs_next_id := Suc (rs_next_id s), rs_sequence := rs_sequence s + 1, rs_output := rs_output s @ [item]\<rparr>)"
  by (simp add: assms st_read_def add_item_def st_then_def quietly_def emit_def response_event_def
        st_bind_def st_modify_def st_ok_def Let_def split: prod.splits sum.splits)

lemma told_arguments:
  assumes "items_told es s" "index < length (rs_output s)"
    and "(case v of Some txt \<Rightarrow> emit_delta kind index txt | None \<Rightarrow> st_ok []) s = (Inr fs, s')"
  shows "items_told (es @ fs) s'"
  using assms told_delta by (cases v) (auto simp: st_ok_def)

lemma tells_call: "tells (push_call env call)"
  unfolding tells_def
proof (intro allI impI)
  fix es s fs s'
  assume told: "items_told es s" and run: "push_call env call s = (Inr fs, s')"
  let ?k = "number_or_zero env (json_get call ''index'')"
  let ?arguments = "\<lambda>index. case non_empty_str (json_pointer call [''function'', ''arguments'']) of
             Some txt \<Rightarrow> emit_delta ''response.function_call_arguments.delta'' index txt | None \<Rightarrow> st_ok []"
  show "items_told (es @ fs) s'"
  proof (cases "bt_get (rs_calls s) ?k")
    case (Some index)
    moreover have "index < length (rs_output s)" using told Some unfolding items_told_def by blast
    ultimately show ?thesis using run told_arguments [OF told] by (simp add: push_call_def Let_def st_read_def)
  next
    case None
    obtain call_id name where new: "non_empty_str (json_get call ''id'') = Some call_id"
        "non_empty_str (json_pointer call [''function'', ''name'']) = Some name"
      using run None by (auto simp: push_call_def Let_def st_read_def return_fail_def split: option.splits prod.splits)
    let ?n = "length (rs_output s)"
    let ?item = "\<lparr>oi_kind = FunctionItem call_id name, oi_id = response_item_id env ''fc'' (rs_next_id s), oi_status = ''in_progress'', oi_text = Some []\<rparr>"
    let ?new = "[\<lparr>se_type = ''response.output_item.added'', se_sequence = rs_sequence s, se_body = ItemBody ?n ?item\<rparr>]"
    let ?s1 = "s\<lparr>rs_next_id := Suc (rs_next_id s), rs_sequence := rs_sequence s + 1, rs_output := rs_output s @ [?item],
      rs_calls := bt_insert ?k ?n (rs_calls s)\<rparr>"
    obtain gs where gs: "?arguments ?n ?s1 = (Inr gs, s')" "fs = ?new @ gs"
      using run None new by (auto simp: push_call_def Let_def st_read_def add_call_item [OF refl] st_Inr_simps st_quietly_then)
    have told1: "items_told (es @ ?new) ?s1"
      by (rule told_new [OF told, of ?item]) (auto simp: delta_text_def added_ids_def)
    show ?thesis using told_arguments [OF told1 _ gs(1)] gs(2) by simp
  qed
qed

lemma tells_quietly:
  assumes "\<And>s. rs_output (f s) = rs_output s" "\<And>s. rs_text_index (f s) = rs_text_index s"
    "\<And>s. rs_reasoning_index (f s) = rs_reasoning_index s" "\<And>s. rs_calls (f s) = rs_calls s"
  shows "tells (quietly f)"
  using assms by (auto simp: tells_def quietly_def items_told_def st_bind_def st_modify_def st_ok_def)

lemma tells_choice: "tells (push_choice env choice)"
  unfolding push_choice_def Let_def
  by (intro tells_then tells_each tells_call tells_option tells_text tells_quietly) (auto split: option.split)

lemma push_told:
  assumes "items_told es s" "response_push env chunk s = (fs, s')" "\<not> rs_terminal s'"
  shows "items_told (es @ fs) s'"
proof (cases "json_get chunk ''error''")
  case (Some err)
  then show ?thesis using assms(2, 3) by (auto simp: response_push_def fail_with_error_def Let_def response_event_def)
next
  case None
  let ?m = "st_each (push_choice env) (json_array (json_get chunk ''choices''))" and ?t = "push_metadata env chunk s"
  have told: "items_told es ?t"
    using assms(1) by (auto simp: items_told_def push_metadata_def Let_def split: option.split)
  have "well_shaped ?m" by (intro shape_each shape_choice)
  then have sh: "outcome_shaped ?t (?m ?t)" by (simp add: well_shaped_def)
  have run: "returned (?m ?t) = (fs, s')" using assms(2) None by (simp add: response_push_def)
  then have "?m ?t = (Inr fs, s')"
    using sh assms(3) by (auto simp: returned_def outcome_shaped_def split: prod.splits sum.splits)
  moreover have "tells ?m" by (intro tells_each tells_choice)
  ultimately show ?thesis using told unfolding tells_def by blast
qed

lemma tells_finish_item: "tells (finish_item status index)"
  unfolding tells_def
proof (intro allI impI)
  fix es s fs s'
  assume told: "items_told es s" and run: "finish_item status index s = (Inr fs, s')"
  let ?s = "s\<lparr>rs_output := (rs_output s)[index := (rs_output s ! index)\<lparr>oi_status := status\<rparr>]\<rparr>"
  have fs: "delta_text i fs = []" "added_ids i fs = []" for i
    using run
    by (auto simp: finish_item_def st_read_def st_then_def quietly_def emit_def response_event_def Let_def delta_text_def added_ids_def
          st_bind_def st_modify_def st_ok_def split: item_kind.splits)
  have s': "rs_output s' = rs_output ?s" "rs_text_index s' = rs_text_index s" "rs_reasoning_index s' = rs_reasoning_index s" "rs_calls s' = rs_calls s"
    using run
    by (auto simp: finish_item_def st_read_def st_then_def quietly_def emit_def response_event_def Let_def
          st_bind_def st_modify_def st_ok_def split: item_kind.splits)
  have "oi_text (rs_output s' ! i) = oi_text (rs_output s ! i)" "oi_id (rs_output s' ! i) = oi_id (rs_output s ! i)" if "i < length (rs_output s)" for i
    using that s'(1) by (cases "i = index"; simp)+
  then show "items_told (es @ fs) s'"
    using told s' fs unfolding items_told_def by simp
qed

definition told_items :: "'n stream_event list \<Rightarrow> output_item list \<Rightarrow> bool" where
  "told_items es items \<longleftrightarrow>
     (\<forall>i < length items. oi_text (items ! i) = Some (delta_text i es) \<and> added_ids i es = [oi_id (items ! i)]) \<and>
     (\<forall>i \<ge> length items. delta_text i es = [] \<and> added_ids i es = [])"

definition delivered :: "'n stream_event \<Rightarrow> bool" where
  "delivered e \<longleftrightarrow> se_type e = ''response.completed'' \<or> se_type e = ''response.incomplete''"

lemma finish_output_told:
  fixes s :: "'n response_stream"
  assumes "items_told es s" "returned (finish_output status kind incomplete s) = (fs @ [e], s')" "kind \<noteq> ''response.failed''" "delivered e"
  shows "\<exists>r. se_body e = ResponseBody r \<and> told_items (es @ fs @ [e]) (rp_output r)"
proof -
  let ?m = "st_each (finish_item status) [0..<length (rs_output s)] :: ('n, 'n stream_event list) response_op"
  have "well_shaped ?m" by (intro shape_each shape_finish_item)
  then have sh: "outcome_shaped s (?m s)" by (simp add: well_shaped_def)
  obtain r s1 where m: "?m s = (r, s1)" by (cases "?m s")
  show ?thesis
  proof (cases r)
    case (Inl gs)
    then have "fs @ [e] = gs" using assms(2) m by (simp add: finish_output_def st_read_def returned_def st_then_def st_bind_def)
    then have "call_refused e" using sh m Inl unfolding outcome_shaped_def by auto
    then show ?thesis using assms(4) by (auto simp: call_refused_def delivered_def)
  next
    case (Inr gs)
    have e: "fs = gs \<and> (\<exists>r. se_body e = ResponseBody r \<and> rp_output r = rs_output s1)"
      using assms(2) m Inr
      by (auto simp: finish_output_def st_read_def returned_def st_then_def st_bind_def st_ok_def quietly_def st_modify_def
            emit_def response_event_def)
    have "tells ?m" by (intro tells_each tells_finish_item)
    then have "items_told (es @ gs) s1" using assms(1) m Inr unfolding tells_def by blast
    moreover have "delta_text i [e] = []" "added_ids i [e] = []" for i using e by (auto simp: delta_text_def added_ids_def)
    ultimately show ?thesis using e unfolding items_told_def told_items_def by auto
  qed
qed

lemma finish_told:
  assumes "items_told es s" "response_finish s = (fs @ [e], s')" "delivered e"
  shows "\<exists>r. se_body e = ResponseBody r \<and> told_items (es @ fs @ [e]) (rp_output r)"
proof (cases "rs_finish_reason s")
  case None
  then show ?thesis
    using assms(2, 3) by (auto simp: response_finish_def response_fail_def fail_with_error_def Let_def response_event_def delivered_def)
next
  case (Some reason)
  then show ?thesis
    using assms(2) finish_output_told [OF assms(1) _ _ assms(3)] by (auto simp: response_finish_def split: option.splits)
qed

lemma push_failed:
  assumes "response_push env chunk s = (es, s')" "rs_terminal s'" "\<not> rs_terminal s"
  shows "\<exists>e. es = [e] \<and> se_type e = ''response.failed''"
proof (cases "json_get chunk ''error''")
  case (Some err)
  then show ?thesis using assms(1) by (auto simp: response_push_def fail_with_error_def Let_def response_event_def)
next
  case None
  let ?m = "st_each (push_choice env) (json_array (json_get chunk ''choices''))" and ?t = "push_metadata env chunk s"
  have "well_shaped ?m" by (intro shape_each shape_choice)
  then have sh: "outcome_shaped ?t (?m ?t)" by (simp add: well_shaped_def)
  have "\<not> rs_terminal ?t" using assms(3) by (auto simp: push_metadata_def Let_def split: option.split)
  then show ?thesis
    using sh assms(1, 2) None
    by (auto simp: response_push_def returned_def outcome_shaped_def call_refused_def split: prod.splits sum.splits)
qed

lemma drive_told:
  "\<not> rs_terminal s \<Longrightarrow> items_told es s \<Longrightarrow> response_drive env source s = fs @ [e] \<Longrightarrow> delivered e \<Longrightarrow>
     None \<in> set source \<and> (\<exists>r. se_body e = ResponseBody r \<and> told_items (es @ fs @ [e]) (rp_output r))"
proof (induction source arbitrary: s es fs)
  case Nil
  then show ?case
    by (auto simp: response_drive.simps [of env "[]"] response_fail_def fail_with_error_def Let_def response_event_def delivered_def)
next
  case (Cons item source)
  show ?case
  proof (cases item)
    case None
    obtain gs s' where f: "response_finish s = (gs, s')" by (cases "response_finish s")
    have "gs = fs @ [e]"
      using Cons.prems(1, 3) None f finish_answer [OF f] by (simp add: response_drive.simps [of env "_ # source"])
    then show ?thesis using finish_told [OF Cons.prems(2) _ Cons.prems(4)] f None by simp
  next
    case (Some chunk)
    obtain gs s' where f: "response_push env chunk s = (gs, s')" by (cases "response_push env chunk s")
    have run: "gs @ response_drive env source s' = fs @ [e]"
      using Cons.prems(1, 3) Some f by (simp add: response_drive.simps [of env "_ # source"])
    show ?thesis
    proof (cases "rs_terminal s'")
      case True
      then have "gs = fs @ [e]" using run by simp
      then show ?thesis using push_failed [OF f True Cons.prems(1)] Cons.prems(4) by (auto simp: delivered_def)
    next
      case False
      obtain hs where hs: "response_drive env source s' = hs @ [e]" "fs = gs @ hs"
        using answer_split [OF drive_answer [OF False] run] .
      show ?thesis
        using Cons.IH [OF False push_told [OF Cons.prems(2) f False] hs(1) Cons.prems(4)] hs(2) by auto
    qed
  qed
qed

definition start_events :: "'n stream_env \<Rightarrow> string \<Rightarrow> nat \<Rightarrow> 'n stream_event list" where
  "start_events env model start =
     [\<lparr>se_type = ''response.created'', se_sequence = 0, se_body = ResponseBody (rs_response (response_new env model start))\<rparr>,
      \<lparr>se_type = ''response.in_progress'', se_sequence = 1, se_body = ResponseBody (rs_response (response_new env model start))\<rparr>]"

lemma start_eval:
  "response_start (response_new env model start) = (Inr (start_events env model start), (response_new env model start)\<lparr>rs_sequence := 2\<rparr>)"
  by (simp add: response_start_def st_then_def st_bind_def st_ok_def emit_def response_event_def response_new_def start_events_def)

lemma start_events_shape:
  "numbered 0 (start_events env model start)" "length (start_events env model start) = 2"
  "\<forall>e \<in> set (start_events env model start). \<not> terminal_type (se_type e)"
  "items_told (start_events env model start) ((response_new env model start)\<lparr>rs_sequence := 2\<rparr>)"
  by (simp_all add: start_events_def terminal_type_def items_told_def response_new_def delta_text_def added_ids_def)

section \<open>Sample streams\<close>

definition sample_env :: "nat stream_env" where
  "sample_env = \<lparr>en_as_u64 = Some, en_millis = (\<lambda>_. 0), en_counter = of_nat, en_secs = 0\<rparr>"

definition sample_chunk :: "(string \<times> nat json) list \<Rightarrow> nat json \<Rightarrow> nat json" where
  "sample_chunk delta reason = JObject [(''choices'', JArray [JObject [(''delta'', JObject delta), (''finish_reason'', reason)]])]"

lemmas stream_eval = from_chat_def response_start_def response_drive.simps response_push_def push_metadata_def json_get_def json_index_def json_array_def
  json_as_str_def non_empty_str_def number_or_zero_def push_choice_def push_reasoning_def push_content_def push_text_def push_call_def
  add_item_def add_part_def emit_delta_def grow_text_def emit_def response_event_def st_then_def quietly_def returned_def return_fail_def
  response_fail_def fail_with_error_def response_finish_def finish_output_def finish_item_def incomplete_reason_def
  st_bind_def st_read_def st_ok_def st_modify_def Let_def response_new_def

definition sample_source :: "nat json option list" where
  "sample_source = [Some (sample_chunk [(''content'', JString ''x'')] (JString ''stop'')), None]"

lemma stream_sample_end: "from_chat sample_env ''m'' 0 sample_source \<noteq> []" "se_type (last (from_chat sample_env ''m'' 0 sample_source)) = ''response.completed''"
  by (simp_all add: sample_source_def sample_chunk_def stream_eval)

text \<open>A chunk with a text and a function call without identifier: the events of the text are numbered but not returned.\<close>

lemma response_sequence_gap:
  "map se_sequence (from_chat env ''m'' 0
     [Some (sample_chunk [(''content'', JString ''x''), (''tool_calls'', JArray [JObject []])] JNull)]) = [0, 1, 5]"
  by (simp add: sample_chunk_def stream_eval)

section \<open>Properties\<close>

text \<open>
  C22. Every converted stream is a complete answer, whatever the source sends and wherever it stops:
  exactly one terminal event, which is the last one, and events numbered from 0 without a gap; only the
  number of a final failure for a function call without identifier or name may be larger.
\<close>

theorem response_stream_ends:
  "answer 0 (from_chat env model start source)"
proof -
  let ?s = "(response_new env model start)\<lparr>rs_sequence := 2\<rparr>"
  have "answer (rs_sequence ?s) (response_drive env source ?s)" by (rule drive_answer) (simp add: response_new_def)
  then have "answer 0 (start_events env model start @ response_drive env source ?s)"
    by (intro answer_append start_events_shape) (simp add: start_events_shape)
  then show ?thesis unfolding from_chat_def start_eval by simp
qed

text \<open>
  C31. A delivered response contains what was streamed: a stream ends as completed or incomplete only
  after the end marker of the source, and then the response has exactly the announced items, each
  announced once and under its identifier, and the text or arguments of an item are the pieces that
  were sent for it.
\<close>

theorem response_items_streamed:
  assumes "from_chat env model start source = fs @ [e]" "delivered e"
  shows "None \<in> set source \<and> (\<exists>r. se_body e = ResponseBody r \<and> told_items (fs @ [e]) (rp_output r))"
proof -
  let ?s = "(response_new env model start)\<lparr>rs_sequence := 2\<rparr>"
  have run: "start_events env model start @ response_drive env source ?s = fs @ [e]" using assms(1) by (simp add: from_chat_def start_eval)
  have nt: "\<not> rs_terminal ?s" by (simp add: response_new_def)
  obtain hs where hs: "response_drive env source ?s = hs @ [e]" "fs = start_events env model start @ hs"
    using answer_split [OF drive_answer [OF nt] run] .
  show ?thesis using drive_told [OF nt start_events_shape(4) hs(1) assms(2)] hs(2) by simp
qed

theorem response_items_streamed_witness:
  "\<exists>fs e r. from_chat sample_env ''m'' 0 sample_source = fs @ [e] \<and> se_body e = ResponseBody r \<and> told_items (fs @ [e]) (rp_output r)"
proof -
  let ?es = "from_chat sample_env ''m'' 0 sample_source"
  have split: "?es = butlast ?es @ [last ?es]" using stream_sample_end(1) by simp
  have "delivered (last ?es)" using stream_sample_end(2) by (simp add: delivered_def)
  from response_items_streamed [OF split this] obtain r where
    "se_body (last ?es) = ResponseBody r" "told_items (butlast ?es @ [last ?es]) (rp_output r)" by blast
  then show ?thesis using split by blast
qed

end
