(* ===== verification/Attestation_Policy.thy ===== *)
theory Attestation_Policy
  imports Attestation_Types State_Result
begin

text \<open>
  \<open>mayhem-attestation/src/policy.rs\<close>: validation of one administrator policy, the append-only chain of
  policies, the policy that is active at a ledger epoch, emergency disabling, and the exact approvals
  of enclaves. SHA-256, \<open>hex\<close>, \<open>serde_json\<close> and \<open>url\<close> are fields of \<open>policy_env\<close>; an \<open>expect\<close> that fails is the
  error \<open>PolicyPanic\<close>.
\<close>

section \<open>Data\<close>

record parsed_url =
  url_scheme :: string
  url_username :: string
  url_password :: "string option"
  url_query :: "string option"
  url_fragment :: "string option"
  url_path :: string
  url_origin :: string

record policy_env =
  pe_sha256 :: "u8 list \<Rightarrow> u8 list"
  pe_hex_encode :: "u8 list \<Rightarrow> string"
  pe_hex_decode :: "string \<Rightarrow> u8 list option"
  pe_from_slice :: "u8 list \<Rightarrow> string + admin_attestation_policy"
  pe_to_vec :: "admin_attestation_policy \<Rightarrow> string + u8 list"
  pe_parse_url :: "string \<Rightarrow> string + parsed_url"

definition MAX_POLICY_BYTES :: nat where "MAX_POLICY_BYTES = 256 * 1024"
definition MAX_COLLATERAL_BYTES :: u64 where "MAX_COLLATERAL_BYTES = 16 * 1024 * 1024"

datatype policy_error =
  PolicyEmpty
| PolicyTooLarge nat nat
| InvalidPolicyJson string
| UnsupportedPolicySchema u32 u32
| InvalidPolicySequence
| InvalidVerifierVersion
| EffectiveBeforeIssue
| InvalidExpiry
| InvalidPolicyDigest string
| InvalidPolicyIdentifier string
| DuplicateOrigin string
| InvalidOrigin string string
| DuplicateTrustData string
| InvalidTrustData string string
| InvalidManagedVerifierTrustData string string
| IncompleteManagedVerifierTarget string string
| UnknownOrigin string string
| DuplicateQuoteKind string
| MissingQuoteKind string
| ProfileKindMismatch string attestation_verifier_profile
| InvalidEvidenceSchemaVersion string
| MissingKindTrustData string
| MissingKindTrustAnchor string
| UnknownKindTrustData string string
| MeasurementNotRequired string string
| InvalidMeasurementKind string string
| UnclassifiedMeasurement string string
| MissingMeasurementTrustData string
| MissingTpmPcrPolicy
| MissingTier3Platform string
| InvalidTier3MeasurementLayers string "attestation_measurement_layer list" "attestation_measurement_layer list"
| UnreferencedTrustData string
| UnreferencedOrigin string
| InvalidGenesis
| NonConsecutiveSequence u64 u64
| PreviousDigestMismatch
| IssuedEpochRegression u64 u64
| EffectiveEpochRegression u64 u64
| EmptyChain
| BindingWithoutPolicy
| NonCanonicalBindingOrder
| DuplicateEnclaveBinding string string "string option"
| InvalidEnclaveId
| BindingKindNeverEnabled string string
| BindingPlatformMismatch string string "string option" u64
| BindingMeasurementSetMismatch string string "attestation_measurement_layer list" "attestation_measurement_layer list"
| DuplicateBindingMeasurementReference string string string
| UnknownBindingTrustData string string string u64
| BindingTrustDataMismatch string string string u64
| MissingEnclaveBinding string
| BindingsAlreadyConfigured
| PolicyPanic

record validated_policy =
  vp_policy :: admin_attestation_policy
  vp_digest :: string
  vp_canonical_json :: "u8 list"
  vp_origins :: "(string, attestation_origin_pin) btree"
  vp_trust_data :: "(string, attestation_trust_data_ref) btree"
  vp_quote_kinds :: "(hardware_quote_kind, attestation_quote_kind_policy) btree"

record policy_chain =
  ch_policies :: "validated_policy list"
  ch_enclave_bindings :: "(binding_key, admin_enclave_attestation_binding) btree"
  ch_bindings_configured :: bool

section \<open>Identifiers, digests and paths\<close>

definition is_ascii_lowercase :: "char \<Rightarrow> bool" where
  "is_ascii_lowercase c \<longleftrightarrow> 0x61 \<le> byte_of c \<and> byte_of c \<le> 0x7A"

definition valid_identifier :: "string \<Rightarrow> bool" where
  "valid_identifier value \<longleftrightarrow>
     value \<noteq> [] \<and> length value \<le> 128 \<and>
     list_all (\<lambda>(index, c). is_ascii_lowercase c \<or> is_ascii_digit c \<or> index > 0 \<and> c \<in> set ''._-'') (List.enumerate 0 value)"

definition validate_identifier :: "string \<Rightarrow> string \<Rightarrow> policy_error + unit" where
  "validate_identifier field value = ensure (valid_identifier value) (InvalidPolicyIdentifier field)"

definition validate_sha256 :: "string \<Rightarrow> string \<Rightarrow> policy_error + unit" where
  "validate_sha256 field value = ensure (valid_sha256 value) (InvalidPolicyDigest field)"

definition valid_policy_path :: "string \<Rightarrow> bool" where
  "valid_policy_path path \<longleftrightarrow>
     starts_with path ''/'' \<and> length path \<le> 2048 \<and>
     CHR 0x5C \<notin> set path \<and> CHR ''?'' \<notin> set path \<and> CHR ''#'' \<notin> set path \<and> CHR ''%'' \<notin> set path \<and>
     list_all (\<lambda>c. is_ascii_alphanumeric c \<or> c \<in> set ''/-_.~'') path \<and>
     list_all (\<lambda>component. component \<noteq> [] \<and> component \<noteq> ''.'' \<and> component \<noteq> ''..'') (tl (str_split (CHR ''/'') path))"

section \<open>Managed verifiers\<close>

definition MANAGED_VERIFIER_EXECUTABLE_MEDIA_TYPE :: string where
  "MANAGED_VERIFIER_EXECUTABLE_MEDIA_TYPE = ''application/vnd.mayhem.attestation-verifier''"

definition MANAGED_VERIFIER_MANIFEST_MEDIA_TYPE :: string where
  "MANAGED_VERIFIER_MANIFEST_MEDIA_TYPE = ''application/vnd.mayhem.attestation-verifier-manifest+json''"

definition MANAGED_VERIFIER_TARGETS :: "string list" where
  "MANAGED_VERIFIER_TARGETS =
     [''aarch64-apple-darwin'', ''aarch64-pc-windows-msvc'', ''aarch64-unknown-linux-gnu'',
      ''x86_64-apple-darwin'', ''x86_64-pc-windows-msvc'', ''x86_64-unknown-linux-gnu'']"

definition is_managed_verifier_kind :: "hardware_quote_kind \<Rightarrow> bool" where
  "is_managed_verifier_kind kind \<longleftrightarrow> kind \<in> {AmdSevSnpVcek, IntelTdxDcap, NvidiaNrasJwt, NvidiaNvtrustOfflineJwt}"

definition managed_verifier_trust_data_id :: "hardware_quote_kind \<Rightarrow> string \<Rightarrow> string \<Rightarrow> string" where
  "managed_verifier_trust_data_id kind target collateral =
     ''managed-verifier.'' @ kind_as_str kind @ ''.'' @ target @ ''.'' @ collateral"

definition managed_verifier_trust_data_ids :: "hardware_quote_kind \<Rightarrow> string \<Rightarrow> string + (string \<times> string)" where
  "managed_verifier_trust_data_ids kind target =
     (if \<not> is_managed_verifier_kind kind then Inl (kind_as_str kind @ '' is not a managed verifier quote kind'')
      else if target \<notin> set MANAGED_VERIFIER_TARGETS then Inl (''managed verifier target '' @ target @ '' is unsupported'')
      else Inr (managed_verifier_trust_data_id kind target ''executable'', managed_verifier_trust_data_id kind target ''manifest''))"

definition managed_role :: "string \<Rightarrow> (string \<times> string) option" where
  "managed_role role =
     (if role = ''executable'' then Some (''executable'', MANAGED_VERIFIER_EXECUTABLE_MEDIA_TYPE)
      else if role = ''manifest'' then Some (''manifest'', MANAGED_VERIFIER_MANIFEST_MEDIA_TYPE)
      else None)"

definition managed_parts :: "string \<Rightarrow> policy_error + (hardware_quote_kind \<times> string \<times> string)" where
  "managed_parts name =
     (let invalid = InvalidManagedVerifierTrustData name in
      case str_split (CHR ''.'') name of
        [] \<Rightarrow> Inl (invalid ''managed verifier media requires a canonical managed-verifier id'')
      | head # parts \<Rightarrow>
          if head \<noteq> ''managed-verifier'' then Inl (invalid ''managed verifier media requires a canonical managed-verifier id'')
          else case parts of
            [] \<Rightarrow> Inl (invalid ''id is missing its quote kind'')
          | kind_name # parts \<Rightarrow>
              rbind (ok_or (Option.bind (find (\<lambda>kind. kind_as_str kind = kind_name) all_quote_kinds)
                              (\<lambda>kind. if is_managed_verifier_kind kind then Some kind else None))
                       (invalid ''id has an unsupported managed quote kind'')) (\<lambda>kind.
              case parts of
                [] \<Rightarrow> Inl (invalid ''id is missing its release target'')
              | target_name # parts \<Rightarrow>
                  rbind (ok_or (find (\<lambda>target. target = target_name) MANAGED_VERIFIER_TARGETS)
                           (invalid ''id must canonically bind a supported release target'')) (\<lambda>target.
                  case parts of
                    [] \<Rightarrow> Inl (invalid ''id is missing its collateral role'')
                  | role # parts \<Rightarrow>
                      if parts \<noteq> [] then Inl (invalid ''id has unexpected trailing components'')
                      else Inr (kind, target, role))))"

definition parse_managed_verifier_trust_data ::
  "attestation_trust_data_ref \<Rightarrow> policy_error + (hardware_quote_kind \<times> string \<times> string) option" where
  "parse_managed_verifier_trust_data reference =
     (if \<not> (starts_with (td_id reference) ''managed-verifier'' \<or>
            starts_with (td_media_type reference) ''application/vnd.mayhem.attestation-verifier'')
      then Inr None
      else
        rbind (managed_parts (td_id reference)) (\<lambda>(kind, target, role).
        case managed_role role of
          None \<Rightarrow> Inl (InvalidManagedVerifierTrustData (td_id reference) ''id has an unsupported collateral role'')
        | Some (role, expected_media_type) \<Rightarrow>
            if td_kind reference \<noteq> VerificationKey
            then Inl (InvalidManagedVerifierTrustData (td_id reference) ''must be verification-key trust data'')
            else if td_media_type reference \<noteq> expected_media_type
            then Inl (InvalidManagedVerifierTrustData (td_id reference) (''must use media type '' @ expected_media_type))
            else Inr (Some (kind, target, role))))"

section \<open>Validation of one policy\<close>

definition validate_policy_header :: "admin_attestation_policy \<Rightarrow> policy_error + unit" where
  "validate_policy_header policy =
     (if pol_schema_version policy \<noteq> ATTESTATION_POLICY_SCHEMA_VERSION
      then Inl (UnsupportedPolicySchema ATTESTATION_POLICY_SCHEMA_VERSION (pol_schema_version policy))
      else if pol_sequence policy = 0 then Inl InvalidPolicySequence
      else if pol_min_verifier_version policy = 0 then Inl InvalidVerifierVersion
      else if pol_effective_epoch policy < pol_issued_epoch policy then Inl EffectiveBeforeIssue
      else if (case pol_expires_epoch policy of Some expires \<Rightarrow> expires \<le> pol_effective_epoch policy | None \<Rightarrow> False)
      then Inl InvalidExpiry
      else case pol_previous_policy_digest policy of
        Some previous \<Rightarrow> validate_sha256 ''previous_policy_digest'' previous
      | None \<Rightarrow> Inr ())"

definition canonical_https_origin :: "parsed_url \<Rightarrow> attestation_origin_pin \<Rightarrow> bool" where
  "canonical_https_origin parsed entry \<longleftrightarrow>
     url_scheme parsed = ''https'' \<and> url_username parsed = [] \<and> url_password parsed = None \<and>
     url_query parsed = None \<and> url_fragment parsed = None \<and> url_path parsed = ''/'' \<and>
     pin_https_origin entry = url_origin parsed"

definition validate_origin :: "policy_env \<Rightarrow> attestation_origin_pin \<Rightarrow> policy_error + unit" where
  "validate_origin env entry =
     rbind (validate_identifier ''origin_pins.id'' (pin_id entry)) (\<lambda>_.
       case pe_parse_url env (pin_https_origin entry) of
         Inl err \<Rightarrow> Inl (InvalidOrigin (pin_id entry) err)
       | Inr parsed \<Rightarrow> ensure (canonical_https_origin parsed entry)
           (InvalidOrigin (pin_id entry) ''must be a canonical HTTPS origin without credentials, path, query, or fragment''))"

definition validate_origins ::
  "policy_env \<Rightarrow> attestation_origin_pin list \<Rightarrow> policy_error + (string, attestation_origin_pin) btree" where
  "validate_origins env pins = collect_unique pin_id (validate_origin env) (\<lambda>e. DuplicateOrigin (pin_id e)) pins []"

definition validate_source ::
  "(string, attestation_origin_pin) btree \<Rightarrow> attestation_trust_data_ref \<Rightarrow> policy_error + unit" where
  "validate_source origins entry =
     (case td_source entry of
        None \<Rightarrow> Inr ()
      | Some source \<Rightarrow>
          rbind (validate_identifier ''trust_data.source.origin_pin'' (tsrc_origin_pin source)) (\<lambda>_.
          if bt_get origins (tsrc_origin_pin source) = None
          then Inl (UnknownOrigin (td_id entry) (tsrc_origin_pin source))
          else ensure (valid_policy_path (tsrc_path source))
            (InvalidTrustData (td_id entry)
              ''source path must be an absolute canonical path without query, fragment, backslash, empty segment, or traversal'')))"

definition validate_trust_entry ::
  "(string, attestation_origin_pin) btree \<Rightarrow> attestation_trust_data_ref \<Rightarrow> policy_error + unit" where
  "validate_trust_entry origins entry =
     rbind (validate_identifier ''trust_data.id'' (td_id entry)) (\<lambda>_.
     rbind (validate_sha256 (''trust_data.'' @ td_id entry @ ''.sha256'') (td_sha256 entry)) (\<lambda>_.
     if td_media_type entry = [] \<or> length (td_media_type entry) > 128 \<or> \<not> list_all is_ascii_graphic (td_media_type entry)
     then Inl (InvalidTrustData (td_id entry) ''media_type must be 1-128 visible ASCII bytes'')
     else if td_max_bytes entry = 0 \<or> td_max_bytes entry > MAX_COLLATERAL_BYTES
     then Inl (InvalidTrustData (td_id entry) (''max_bytes must be between 1 and '' @ show_nat (unat MAX_COLLATERAL_BYTES)))
     else if (case (td_valid_from_epoch entry, td_valid_until_epoch entry) of
                (Some from, Some until) \<Rightarrow> until \<le> from | _ \<Rightarrow> False)
     then Inl (InvalidTrustData (td_id entry) ''valid_until_epoch must be later than valid_from_epoch'')
     else validate_source origins entry))"

definition validate_trust_data ::
  "attestation_trust_data_ref list \<Rightarrow> (string, attestation_origin_pin) btree \<Rightarrow>
     policy_error + (string, attestation_trust_data_ref) btree" where
  "validate_trust_data refs origins =
     collect_unique td_id (validate_trust_entry origins) (\<lambda>e. DuplicateTrustData (td_id e)) refs []"

definition exact_tier3_measurement_layers :: "hardware_quote_kind \<Rightarrow> attestation_measurement_layer list option" where
  "exact_tier3_measurement_layers kind =
     (if kind \<in> {AmdSevSnpVcek, IntelTdxDcap} then Some [Cpu, Workload]
      else if kind \<in> {NvidiaNrasJwt, NvidiaNvtrustOfflineJwt} then Some [Cpu, Gpu, Workload]
      else None)"

definition trust_kind_in ::
  "(string, attestation_trust_data_ref) btree \<Rightarrow> attestation_trust_data_kind set \<Rightarrow> string \<Rightarrow> bool" where
  "trust_kind_in trust_data kinds i \<longleftrightarrow>
     (case bt_get trust_data i of Some reference \<Rightarrow> td_kind reference \<in> kinds | None \<Rightarrow> False)"

definition check_required ::
  "(string, attestation_trust_data_ref) btree \<Rightarrow> attestation_quote_kind_policy \<Rightarrow> policy_error + unit" where
  "check_required trust_data entry =
     (let kind = kind_as_str (qk_kind entry) in
      if profile_quote_kind (qk_verifier_profile entry) \<noteq> qk_kind entry
      then Inl (ProfileKindMismatch kind (qk_verifier_profile entry))
      else if qk_enabled entry \<and> qk_evidence_schema_version entry = 0 then Inl (InvalidEvidenceSchemaVersion kind)
      else if qk_enabled entry \<and> qk_required_trust_data entry = [] then Inl (MissingKindTrustData kind)
      else rbind (rfor (\<lambda>i. ensure (bt_get trust_data i \<noteq> None) (UnknownKindTrustData kind i)) (qk_required_trust_data entry)) (\<lambda>_.
        ensure (qk_enabled entry \<longrightarrow>
            list_ex (trust_kind_in trust_data {TrustAnchor, VerificationKey}) (qk_required_trust_data entry))
          (MissingKindTrustAnchor kind)))"

definition check_measurement ::
  "(string, attestation_trust_data_ref) btree \<Rightarrow> attestation_quote_kind_policy \<Rightarrow> string \<Rightarrow> policy_error + unit" where
  "check_measurement trust_data entry measurement_id =
     (let kind = kind_as_str (qk_kind entry) in
      if measurement_id \<notin> set (qk_required_trust_data entry) then Inl (MeasurementNotRequired kind measurement_id)
      else case bt_get trust_data measurement_id of
        None \<Rightarrow> Inl PolicyPanic
      | Some reference \<Rightarrow> ensure (td_kind reference = Measurement) (InvalidMeasurementKind kind measurement_id))"

definition check_measurements ::
  "(string, attestation_trust_data_ref) btree \<Rightarrow> attestation_quote_kind_policy \<Rightarrow> policy_error + unit" where
  "check_measurements trust_data entry =
     (let kind = kind_as_str (qk_kind entry) in
      rbind (rfor (check_measurement trust_data entry) (qk_measurement_trust_data entry)) (\<lambda>_.
      rbind (rfor (\<lambda>i. ensure (\<not> (trust_kind_in trust_data {Measurement} i \<and> i \<notin> set (qk_measurement_trust_data entry)))
                (UnclassifiedMeasurement kind i)) (qk_required_trust_data entry)) (\<lambda>_.
      if qk_enabled entry \<and> qk_required_measurement_layers entry \<noteq> [] \<and> qk_measurement_trust_data entry = []
      then Inl (MissingMeasurementTrustData kind)
      else ensure (\<not> (qk_enabled entry \<and> qk_kind entry = Tpm2QuoteEk \<and> qk_measurement_trust_data entry = [])) MissingTpmPcrPolicy)))"

definition check_platforms :: "attestation_quote_kind_policy \<Rightarrow> policy_error + unit" where
  "check_platforms entry =
     (let kind = kind_as_str (qk_kind entry) in
      rbind (rfor (validate_identifier (''quote_kinds.'' @ kind @ ''.platforms'')) (qk_platforms entry)) (\<lambda>_.
      if qk_enabled entry \<and> quote_kind_tier (qk_kind entry) \<ge> TIER3_CONFIDENTIAL_COMPUTE_TIER
      then if qk_platforms entry = [] then Inl (MissingTier3Platform kind)
           else case exact_tier3_measurement_layers (qk_kind entry) of
             None \<Rightarrow> Inl PolicyPanic
           | Some expected \<Rightarrow> ensure (qk_required_measurement_layers entry = expected)
               (InvalidTier3MeasurementLayers kind expected (qk_required_measurement_layers entry))
      else Inr ()))"

definition validate_quote_kind ::
  "(string, attestation_trust_data_ref) btree \<Rightarrow> attestation_quote_kind_policy \<Rightarrow> policy_error + unit" where
  "validate_quote_kind trust_data entry =
     rbind (check_required trust_data entry) (\<lambda>_.
     rbind (check_measurements trust_data entry) (\<lambda>_.
     check_platforms entry))"

definition validate_quote_kinds ::
  "attestation_quote_kind_policy list \<Rightarrow> (string, attestation_trust_data_ref) btree \<Rightarrow>
     policy_error + (hardware_quote_kind, attestation_quote_kind_policy) btree" where
  "validate_quote_kinds kinds trust_data =
     rbind (collect_unique qk_kind (validate_quote_kind trust_data) (\<lambda>e. DuplicateQuoteKind (kind_as_str (qk_kind e))) kinds [])
       (\<lambda>quote_kinds.
     rbind (rfor (\<lambda>kind. ensure (bt_get quote_kinds kind \<noteq> None) (MissingQuoteKind (kind_as_str kind))) all_quote_kinds) (\<lambda>_.
     Inr quote_kinds))"

definition check_managed_target ::
  "(hardware_quote_kind, attestation_quote_kind_policy) btree \<Rightarrow> (string, attestation_trust_data_ref) btree \<Rightarrow>
     hardware_quote_kind \<Rightarrow> attestation_quote_kind_policy \<Rightarrow> string \<Rightarrow> policy_error + unit" where
  "check_managed_target quote_kinds trust_data kind kind_policy target =
     (let executable_id = managed_verifier_trust_data_id kind target ''executable'';
          manifest_id = managed_verifier_trust_data_id kind target ''manifest'';
          executable = bt_get trust_data executable_id;
          manifest = bt_get trust_data manifest_id
      in if (executable \<noteq> None) \<noteq> (manifest \<noteq> None) then Inl (IncompleteManagedVerifierTarget (kind_as_str kind) target)
         else case (executable, manifest) of
           (Some executable, Some manifest) \<Rightarrow>
             if \<not> qk_enabled kind_policy
             then Inl (InvalidManagedVerifierTrustData executable_id (''quote kind '' @ kind_as_str kind @ '' is disabled''))
             else rfor (\<lambda>reference.
               ensure (\<not> list_ex (\<lambda>entry. td_id reference \<in> set (qk_required_trust_data (snd entry))) quote_kinds)
                 (InvalidManagedVerifierTrustData (td_id reference) ''target-specific collateral must not be globally required''))
               [executable, manifest]
         | _ \<Rightarrow> Inr ())"

definition managed_id :: "attestation_trust_data_ref \<Rightarrow> policy_error + string list" where
  "managed_id reference =
     rbind (parse_managed_verifier_trust_data reference) (\<lambda>managed. Inr (if managed \<noteq> None then [td_id reference] else []))"

definition managed_ids :: "(string, attestation_trust_data_ref) btree \<Rightarrow> policy_error + string list" where
  "managed_ids trust_data =
     rbind (rmap managed_id (map snd trust_data)) (\<lambda>ids. Inr (concat ids))"

definition validate_managed_verifier_trust_data ::
  "(hardware_quote_kind, attestation_quote_kind_policy) btree \<Rightarrow> (string, attestation_trust_data_ref) btree \<Rightarrow>
     policy_error + string list" where
  "validate_managed_verifier_trust_data quote_kinds trust_data =
     rbind (managed_ids trust_data) (\<lambda>ids.
     rbind (rfor (\<lambda>kind.
         case bt_get quote_kinds kind of
           None \<Rightarrow> Inl PolicyPanic
         | Some kind_policy \<Rightarrow> rfor (check_managed_target quote_kinds trust_data kind kind_policy) MANAGED_VERIFIER_TARGETS)
       (filter is_managed_verifier_kind all_quote_kinds)) (\<lambda>_.
     Inr ids))"

definition validate_reference_closure ::
  "(string, attestation_origin_pin) btree \<Rightarrow> (string, attestation_trust_data_ref) btree \<Rightarrow>
     (hardware_quote_kind, attestation_quote_kind_policy) btree \<Rightarrow> string list \<Rightarrow> policy_error + unit" where
  "validate_reference_closure origins trust_data quote_kinds managed =
     (let referenced_trust_data = concat (map (\<lambda>entry. qk_required_trust_data (snd entry)) quote_kinds) @ managed;
          referenced_origins = List.map_filter (\<lambda>entry. map_option tsrc_origin_pin (td_source (snd entry))) trust_data
      in case find (\<lambda>i. i \<notin> set referenced_trust_data) (map fst trust_data) of
           Some unreferenced \<Rightarrow> Inl (UnreferencedTrustData unreferenced)
         | None \<Rightarrow>
             (case find (\<lambda>i. i \<notin> set referenced_origins) (map fst origins) of
                Some unreferenced \<Rightarrow> Inl (UnreferencedOrigin unreferenced)
              | None \<Rightarrow> Inr ()))"

definition canonical_policy :: "admin_attestation_policy \<Rightarrow> admin_attestation_policy" where
  "canonical_policy policy =
     policy\<lparr>pol_origin_pins := sort_key pin_id (pol_origin_pins policy),
            pol_trust_data := sort_key td_id (pol_trust_data policy),
            pol_quote_kinds := sort_key qk_kind (pol_quote_kinds policy)\<rparr>"

definition validate_policy :: "policy_env \<Rightarrow> admin_attestation_policy \<Rightarrow> policy_error + validated_policy" where
  "validate_policy env p =
     (let policy = canonical_policy p in
      rbind (validate_policy_header policy) (\<lambda>_.
      rbind (validate_origins env (pol_origin_pins policy)) (\<lambda>origins.
      rbind (validate_trust_data (pol_trust_data policy) origins) (\<lambda>trust_data.
      rbind (validate_quote_kinds (pol_quote_kinds policy) trust_data) (\<lambda>quote_kinds.
      rbind (validate_managed_verifier_trust_data quote_kinds trust_data) (\<lambda>managed.
      rbind (validate_reference_closure origins trust_data quote_kinds managed) (\<lambda>_.
      case pe_to_vec env policy of
        Inl err \<Rightarrow> Inl (InvalidPolicyJson err)
      | Inr canonical_json \<Rightarrow>
          Inr \<lparr>vp_policy = policy, vp_digest = pe_hex_encode env (pe_sha256 env canonical_json), vp_canonical_json = canonical_json,
               vp_origins = origins, vp_trust_data = trust_data, vp_quote_kinds = quote_kinds\<rparr>)))))))"

definition parse_policy_json :: "policy_env \<Rightarrow> u8 list \<Rightarrow> policy_error + validated_policy" where
  "parse_policy_json env bytes =
     (if bytes = [] then Inl PolicyEmpty
      else if length bytes > MAX_POLICY_BYTES then Inl (PolicyTooLarge (length bytes) MAX_POLICY_BYTES)
      else case pe_from_slice env bytes of
        Inl err \<Rightarrow> Inl (InvalidPolicyJson err)
      | Inr policy \<Rightarrow> validate_policy env policy)"

definition origin_pin :: "validated_policy \<Rightarrow> string \<Rightarrow> attestation_origin_pin option" where
  "origin_pin v i = bt_get (vp_origins v) i"

definition trust_data_of :: "validated_policy \<Rightarrow> string \<Rightarrow> attestation_trust_data_ref option" where
  "trust_data_of v i = bt_get (vp_trust_data v) i"

definition quote_kind_of :: "validated_policy \<Rightarrow> hardware_quote_kind \<Rightarrow> attestation_quote_kind_policy option" where
  "quote_kind_of v kind = bt_get (vp_quote_kinds v) kind"

definition policy_source_url :: "validated_policy \<Rightarrow> string \<Rightarrow> string option" where
  "policy_source_url v trust_data_id =
     Option.bind (trust_data_of v trust_data_id) (\<lambda>reference.
     Option.bind (td_source reference) (\<lambda>source.
     Option.bind (origin_pin v (tsrc_origin_pin source)) (\<lambda>origin.
     Some (pin_https_origin origin @ tsrc_path source))))"

section \<open>Approvals of enclaves\<close>

definition kind_string :: "admin_enclave_attestation_binding \<Rightarrow> string" where
  "kind_string binding = kind_as_str (eb_kind binding)"

definition check_binding_key ::
  "binding_key option \<Rightarrow> admin_enclave_attestation_binding \<Rightarrow> policy_error + unit" where
  "check_binding_key previous_key binding =
     (if \<not> valid_sha256 (eb_enclave_id binding) then Inl InvalidEnclaveId
      else rbind (case eb_platform binding of
                    Some platform \<Rightarrow> validate_identifier ''enclave_attestation_bindings.platform'' platform
                  | None \<Rightarrow> Inr ()) (\<lambda>_.
      case previous_key of
        None \<Rightarrow> Inr ()
      | Some previous \<Rightarrow>
          if binding_key_of binding = previous
          then Inl (DuplicateEnclaveBinding (eb_enclave_id binding) (kind_string binding) (eb_platform binding))
          else ensure (\<not> binding_key_of binding < previous) NonCanonicalBindingOrder))"

fun check_unique_references :: "admin_enclave_attestation_binding \<Rightarrow> string list \<Rightarrow> string list \<Rightarrow> policy_error + unit" where
  "check_unique_references binding [] seen = Inr ()"
| "check_unique_references binding (trust_data # refs) seen =
     (if trust_data \<in> set seen
      then Inl (DuplicateBindingMeasurementReference (eb_enclave_id binding) (kind_string binding) trust_data)
      else check_unique_references binding refs (trust_data # seen))"

definition check_binding_reference ::
  "validated_policy \<Rightarrow> attestation_quote_kind_policy \<Rightarrow> admin_enclave_attestation_binding \<Rightarrow> string \<Rightarrow> policy_error + unit" where
  "check_binding_reference policy kind_policy binding trust_data_id =
     (case trust_data_of policy trust_data_id of
        None \<Rightarrow> Inl (UnknownBindingTrustData (eb_enclave_id binding) (kind_string binding) trust_data_id (pol_sequence (vp_policy policy)))
      | Some reference \<Rightarrow>
          ensure (\<not> (td_kind reference \<noteq> Measurement \<or> trust_data_id \<notin> set (qk_required_trust_data kind_policy) \<or>
                    trust_data_id \<notin> set (qk_measurement_trust_data kind_policy)))
            (BindingTrustDataMismatch (eb_enclave_id binding) (kind_string binding) trust_data_id (pol_sequence (vp_policy policy))))"

definition platform_allowed :: "string option \<Rightarrow> string list \<Rightarrow> bool" where
  "platform_allowed platform allowed \<longleftrightarrow>
     (case platform of None \<Rightarrow> allowed = [] | Some platform \<Rightarrow> platform \<in> set allowed)"

definition check_binding_policy ::
  "admin_enclave_attestation_binding \<Rightarrow> validated_policy \<Rightarrow> policy_error + bool" where
  "check_binding_policy binding policy =
     (case quote_kind_of policy (eb_kind binding) of
        None \<Rightarrow> Inl PolicyPanic
      | Some kind_policy \<Rightarrow>
          let actual_layers = map fst (eb_measurement_trust_data binding);
              sequence = pol_sequence (vp_policy policy)
          in if \<not> qk_enabled kind_policy then Inr False
             else if \<not> platform_allowed (eb_platform binding) (qk_platforms kind_policy)
             then Inl (BindingPlatformMismatch (eb_enclave_id binding) (kind_string binding) (eb_platform binding) sequence)
             else if actual_layers \<noteq> qk_required_measurement_layers kind_policy
             then Inl (BindingMeasurementSetMismatch (eb_enclave_id binding) (kind_string binding)
                    (qk_required_measurement_layers kind_policy) actual_layers)
             else rbind (rfor (check_binding_reference policy kind_policy binding) (map snd (eb_measurement_trust_data binding)))
               (\<lambda>_. Inr True))"

definition check_binding ::
  "validated_policy list \<Rightarrow> binding_key option \<Rightarrow> admin_enclave_attestation_binding \<Rightarrow> policy_error + unit" where
  "check_binding policies previous_key binding =
     rbind (check_binding_key previous_key binding) (\<lambda>_.
     rbind (check_unique_references binding (map snd (eb_measurement_trust_data binding)) []) (\<lambda>_.
     rbind (rmap (check_binding_policy binding) policies) (\<lambda>enabled.
     ensure (True \<in> set enabled) (BindingKindNeverEnabled (eb_enclave_id binding) (kind_string binding)))))"

fun validate_bindings_loop ::
  "validated_policy list \<Rightarrow> binding_key option \<Rightarrow> admin_enclave_attestation_binding list \<Rightarrow>
     (binding_key, admin_enclave_attestation_binding) btree \<Rightarrow>
     policy_error + (binding_key, admin_enclave_attestation_binding) btree" where
  "validate_bindings_loop policies previous_key [] validated = Inr validated"
| "validate_bindings_loop policies previous_key (binding # bindings) validated =
     rbind (check_binding policies previous_key binding) (\<lambda>_.
       validate_bindings_loop policies (Some (binding_key_of binding)) bindings
         (bt_insert (binding_key_of binding) binding validated))"

definition kind_enabled :: "hardware_quote_kind \<Rightarrow> validated_policy \<Rightarrow> bool" where
  "kind_enabled kind policy \<longleftrightarrow>
     (case quote_kind_of policy kind of Some kind_policy \<Rightarrow> qk_enabled kind_policy | None \<Rightarrow> False)"

definition validate_enclave_bindings ::
  "validated_policy list \<Rightarrow> admin_enclave_attestation_binding list \<Rightarrow>
     policy_error + (binding_key, admin_enclave_attestation_binding) btree" where
  "validate_enclave_bindings policies bindings =
     rbind (validate_bindings_loop policies None bindings []) (\<lambda>validated.
     rbind (rfor (\<lambda>kind.
         ensure (\<not> (list_ex (kind_enabled kind) policies \<and> \<not> list_ex (\<lambda>((_, candidate, _), _). candidate = kind) validated))
           (MissingEnclaveBinding (kind_as_str kind))) all_quote_kinds) (\<lambda>_.
     Inr validated))"

section \<open>The chain of policies\<close>

definition chain_new :: policy_chain where
  "chain_new = \<lparr>ch_policies = [], ch_enclave_bindings = [], ch_bindings_configured = False\<rparr>"

definition check_successor :: "validated_policy list \<Rightarrow> validated_policy \<Rightarrow> policy_error + unit" where
  "check_successor policies policy =
     (let new = vp_policy policy in
      if policies = [] then
        ensure (\<not> (pol_sequence new \<noteq> 1 \<or> pol_previous_policy_digest new \<noteq> None)) InvalidGenesis
      else
        let previous = last policies; old = vp_policy previous in
        if Some (pol_sequence new) \<noteq> checked_add (pol_sequence old) 1
        then Inl (NonConsecutiveSequence (pol_sequence old) (pol_sequence new))
        else if pol_previous_policy_digest new \<noteq> Some (vp_digest previous) then Inl PreviousDigestMismatch
        else if pol_issued_epoch new < pol_issued_epoch old
        then Inl (IssuedEpochRegression (pol_issued_epoch old) (pol_issued_epoch new))
        else ensure (\<not> pol_effective_epoch new < pol_effective_epoch old)
          (EffectiveEpochRegression (pol_effective_epoch old) (pol_effective_epoch new)))"

definition append_policy :: "validated_policy \<Rightarrow> (policy_chain, policy_error, validated_policy) st_result" where
  "append_policy policy =
     st_read (\<lambda>c.
     st_bind (st_lift (check_successor (ch_policies c) policy)) (\<lambda>_.
     st_bind (if ch_bindings_configured c
              then st_bind (st_lift (validate_enclave_bindings (ch_policies c @ [policy]) (map snd (ch_enclave_bindings c)))) (\<lambda>_. st_ok ())
              else st_ok ()) (\<lambda>_.
     st_bind (st_modify (\<lambda>c. c\<lparr>ch_policies := ch_policies c @ [policy]\<rparr>)) (\<lambda>_.
     st_ok policy))))"

definition append_json :: "policy_env \<Rightarrow> u8 list \<Rightarrow> (policy_chain, policy_error, validated_policy) st_result" where
  "append_json env bytes = st_bind (st_lift (parse_policy_json env bytes)) append_policy"

definition configure_enclave_bindings ::
  "admin_enclave_attestation_binding list \<Rightarrow> (policy_chain, policy_error, unit) st_result" where
  "configure_enclave_bindings bindings =
     st_read (\<lambda>c.
     if ch_bindings_configured c then st_err BindingsAlreadyConfigured
     else if ch_policies c = [] \<and> bindings \<noteq> [] then st_err BindingWithoutPolicy
     else
       st_bind (st_lift (validate_enclave_bindings (ch_policies c) bindings)) (\<lambda>validated.
       st_modify (\<lambda>c. c\<lparr>ch_enclave_bindings := validated, ch_bindings_configured := True\<rparr>)))"

definition from_genesis_json :: "policy_env \<Rightarrow> u8 list \<Rightarrow> policy_error + policy_chain" where
  "from_genesis_json env bytes =
     (case append_json env bytes chain_new of (Inl e, _) \<Rightarrow> Inl e | (Inr _, c) \<Rightarrow> Inr c)"

definition from_catalog_records ::
  "policy_env \<Rightarrow> admin_attestation_policy list option \<Rightarrow> admin_enclave_attestation_binding list \<Rightarrow> policy_error + policy_chain" where
  "from_catalog_records env records bindings =
     (case records of
        None \<Rightarrow>
          if bindings \<noteq> [] then Inl BindingWithoutPolicy
          else Inr (chain_new\<lparr>ch_bindings_configured := True\<rparr>)
      | Some policies \<Rightarrow>
          if policies = [] then Inl EmptyChain
          else
            case st_bind
                   (st_for policies (\<lambda>policy.
                      st_bind (st_lift (validate_policy env policy)) (\<lambda>v. st_bind (append_policy v) (\<lambda>_. st_ok ()))))
                   (\<lambda>_. configure_enclave_bindings bindings) chain_new of
              (Inl e, _) \<Rightarrow> Inl e
            | (Inr _, c) \<Rightarrow> Inr c)"

definition chain_head :: "policy_chain \<Rightarrow> validated_policy option" where
  "chain_head c = (if ch_policies c = [] then None else Some (last (ch_policies c)))"

definition active_at :: "policy_chain \<Rightarrow> u64 \<Rightarrow> validated_policy option" where
  "active_at c ledger_epoch =
     find (\<lambda>policy. pol_effective_epoch (vp_policy policy) \<le> ledger_epoch) (rev (ch_policies c))"

definition next_effective_after :: "policy_chain \<Rightarrow> u64 \<Rightarrow> u64 option" where
  "next_effective_after c ledger_epoch =
     find (\<lambda>effective. effective > ledger_epoch) (map (\<lambda>policy. pol_effective_epoch (vp_policy policy)) (ch_policies c))"

fun rposition :: "('a \<Rightarrow> bool) \<Rightarrow> 'a list \<Rightarrow> nat option" where
  "rposition P [] = None"
| "rposition P (x # xs) =
     (case rposition P xs of Some i \<Rightarrow> Some (Suc i) | None \<Rightarrow> if P x then Some 0 else None)"

definition emergency_disabled_at :: "policy_chain \<Rightarrow> u64 \<Rightarrow> hardware_quote_kind list" where
  "emergency_disabled_at c ledger_epoch =
     (let active_index = rposition (\<lambda>policy. pol_effective_epoch (vp_policy policy) \<le> ledger_epoch) (ch_policies c);
          disabled = (case active_index of
              Some index \<Rightarrow> pol_emergency_disabled_quote_kinds (vp_policy (ch_policies c ! index))
            | None \<Rightarrow> []);
          pending_start = (case active_index of None \<Rightarrow> 0 | Some index \<Rightarrow> index + 1)
      in fold (\<lambda>policy disabled.
           if pol_issued_epoch (vp_policy policy) \<le> ledger_epoch
           then fold insort_insert (pol_emergency_disabled_quote_kinds (vp_policy policy)) disabled
           else disabled) (drop pending_start (ch_policies c)) disabled)"

definition enclave_binding :: "policy_chain \<Rightarrow> string \<Rightarrow> hardware_quote_kind \<Rightarrow> string option \<Rightarrow> admin_enclave_attestation_binding option" where
  "enclave_binding c enclave_id kind platform = bt_get (ch_enclave_bindings c) (enclave_id, kind, platform)"

section \<open>What a valid policy is\<close>

text \<open>The conditions on a policy, stated over its entries without the maps and the order of the checks.\<close>

definition header_wf :: "admin_attestation_policy \<Rightarrow> bool" where
  "header_wf p \<longleftrightarrow>
     pol_schema_version p = ATTESTATION_POLICY_SCHEMA_VERSION \<and> pol_sequence p \<noteq> 0 \<and> pol_min_verifier_version p \<noteq> 0 \<and>
     pol_issued_epoch p \<le> pol_effective_epoch p \<and>
     (\<forall>expires. pol_expires_epoch p = Some expires \<longrightarrow> pol_effective_epoch p < expires) \<and>
     (\<forall>previous. pol_previous_policy_digest p = Some previous \<longrightarrow> valid_sha256 previous)"

definition pin_wf :: "policy_env \<Rightarrow> attestation_origin_pin \<Rightarrow> bool" where
  "pin_wf env pin \<longleftrightarrow>
     valid_identifier (pin_id pin) \<and>
     (\<exists>parsed. pe_parse_url env (pin_https_origin pin) = Inr parsed \<and> canonical_https_origin parsed pin)"

definition td_wf :: "attestation_origin_pin list \<Rightarrow> attestation_trust_data_ref \<Rightarrow> bool" where
  "td_wf pins td \<longleftrightarrow>
     valid_identifier (td_id td) \<and> valid_sha256 (td_sha256 td) \<and>
     td_media_type td \<noteq> [] \<and> length (td_media_type td) \<le> 128 \<and> list_all is_ascii_graphic (td_media_type td) \<and>
     td_max_bytes td \<noteq> 0 \<and> td_max_bytes td \<le> MAX_COLLATERAL_BYTES \<and>
     (\<forall>from until. td_valid_from_epoch td = Some from \<longrightarrow> td_valid_until_epoch td = Some until \<longrightarrow> from < until) \<and>
     (\<forall>source. td_source td = Some source \<longrightarrow>
        valid_identifier (tsrc_origin_pin source) \<and> tsrc_origin_pin source \<in> pin_id ` set pins \<and>
        valid_policy_path (tsrc_path source))"

definition has_kind :: "attestation_trust_data_ref list \<Rightarrow> attestation_trust_data_kind set \<Rightarrow> string \<Rightarrow> bool" where
  "has_kind refs kinds i \<longleftrightarrow> (\<exists>td \<in> set refs. td_id td = i \<and> td_kind td \<in> kinds)"

definition enabled_wf :: "attestation_trust_data_ref list \<Rightarrow> attestation_quote_kind_policy \<Rightarrow> bool" where
  "enabled_wf refs q \<longleftrightarrow>
     qk_evidence_schema_version q \<noteq> 0 \<and>
     list_ex (has_kind refs {TrustAnchor, VerificationKey}) (qk_required_trust_data q) \<and>
     (qk_required_measurement_layers q \<noteq> [] \<or> qk_kind q = Tpm2QuoteEk \<longrightarrow> qk_measurement_trust_data q \<noteq> []) \<and>
     (TIER3_CONFIDENTIAL_COMPUTE_TIER \<le> quote_kind_tier (qk_kind q) \<longrightarrow>
        qk_platforms q \<noteq> [] \<and> exact_tier3_measurement_layers (qk_kind q) = Some (qk_required_measurement_layers q))"

definition qk_wf :: "attestation_trust_data_ref list \<Rightarrow> attestation_quote_kind_policy \<Rightarrow> bool" where
  "qk_wf refs q \<longleftrightarrow>
     profile_quote_kind (qk_verifier_profile q) = qk_kind q \<and>
     set (qk_required_trust_data q) \<subseteq> td_id ` set refs \<and>
     set (qk_measurement_trust_data q) = {i \<in> set (qk_required_trust_data q). has_kind refs {Measurement} i} \<and>
     list_all valid_identifier (qk_platforms q) \<and>
     (qk_enabled q \<longrightarrow> enabled_wf refs q)"

definition managed_candidate :: "attestation_trust_data_ref \<Rightarrow> bool" where
  "managed_candidate td \<longleftrightarrow>
     starts_with (td_id td) ''managed-verifier'' \<or>
     starts_with (td_media_type td) ''application/vnd.mayhem.attestation-verifier''"

definition managed_td :: "attestation_trust_data_ref \<Rightarrow> hardware_quote_kind \<Rightarrow> string \<Rightarrow> string \<Rightarrow> bool" where
  "managed_td td kind target role \<longleftrightarrow>
     is_managed_verifier_kind kind \<and> target \<in> set MANAGED_VERIFIER_TARGETS \<and>
     managed_role role = Some (role, td_media_type td) \<and> td_kind td = VerificationKey \<and>
     td_id td = managed_verifier_trust_data_id kind target role"

definition managed_wf :: "attestation_trust_data_ref list \<Rightarrow> attestation_quote_kind_policy list \<Rightarrow> bool" where
  "managed_wf refs kinds \<longleftrightarrow>
     (\<forall>td \<in> set refs. managed_candidate td \<longrightarrow> (\<exists>kind target role. managed_td td kind target role)) \<and>
     (\<forall>kind target. is_managed_verifier_kind kind \<longrightarrow> target \<in> set MANAGED_VERIFIER_TARGETS \<longrightarrow>
        (let executable = managed_verifier_trust_data_id kind target ''executable'';
             manifest = managed_verifier_trust_data_id kind target ''manifest''
         in (executable \<in> td_id ` set refs \<longleftrightarrow> manifest \<in> td_id ` set refs) \<and>
            (executable \<in> td_id ` set refs \<longrightarrow>
               (\<forall>q \<in> set kinds. (qk_kind q = kind \<longrightarrow> qk_enabled q) \<and>
                  executable \<notin> set (qk_required_trust_data q) \<and> manifest \<notin> set (qk_required_trust_data q)))))"

definition closure_wf :: "admin_attestation_policy \<Rightarrow> bool" where
  "closure_wf p \<longleftrightarrow>
     (\<forall>td \<in> set (pol_trust_data p). managed_candidate td \<or> (\<exists>q \<in> set (pol_quote_kinds p). td_id td \<in> set (qk_required_trust_data q))) \<and>
     (\<forall>pin \<in> set (pol_origin_pins p). \<exists>td \<in> set (pol_trust_data p). \<exists>source. td_source td = Some source \<and> tsrc_origin_pin source = pin_id pin)"

definition policy_wf :: "policy_env \<Rightarrow> admin_attestation_policy \<Rightarrow> bool" where
  "policy_wf env p \<longleftrightarrow>
     header_wf p \<and>
     distinct (map pin_id (pol_origin_pins p)) \<and> (\<forall>pin \<in> set (pol_origin_pins p). pin_wf env pin) \<and>
     distinct (map td_id (pol_trust_data p)) \<and> (\<forall>td \<in> set (pol_trust_data p). td_wf (pol_origin_pins p) td) \<and>
     distinct (map qk_kind (pol_quote_kinds p)) \<and> qk_kind ` set (pol_quote_kinds p) = UNIV \<and>
     (\<forall>q \<in> set (pol_quote_kinds p). qk_wf (pol_trust_data p) q) \<and>
     managed_wf (pol_trust_data p) (pol_quote_kinds p) \<and>
     closure_wf p"

section \<open>Managed verifier identifiers\<close>

lemma no_dot: "CHR ''.'' \<notin> set (kind_as_str kind)" "target \<in> set MANAGED_VERIFIER_TARGETS \<Longrightarrow> CHR ''.'' \<notin> set target"
  by (cases kind) (auto simp: MANAGED_VERIFIER_TARGETS_def)

lemma find_kind: "find (\<lambda>kind. kind_as_str kind = s) all_quote_kinds = Some k \<longleftrightarrow> kind_as_str k = s"
proof
  assume "find (\<lambda>kind. kind_as_str kind = s) all_quote_kinds = Some k"
  then show "kind_as_str k = s" by (auto simp: find_Some_iff)
next
  assume s: "kind_as_str k = s"
  have "find (\<lambda>kind. kind_as_str kind = s) all_quote_kinds \<noteq> None" using s by (auto simp: find_None_iff)
  then obtain k' where k': "find (\<lambda>kind. kind_as_str kind = s) all_quote_kinds = Some k'" by blast
  then have "kind_as_str k' = s" by (auto simp: find_Some_iff)
  then show "find (\<lambda>kind. kind_as_str kind = s) all_quote_kinds = Some k" using k' s by (metis kind_as_str_inj)
qed

lemma find_eq: "find (\<lambda>x. x = a) xs = Some b \<longleftrightarrow> a = b \<and> a \<in> set xs"
  by (induction xs) auto

lemma managed_split:
  assumes "target \<in> set MANAGED_VERIFIER_TARGETS"
  shows "str_split (CHR ''.'') (managed_verifier_trust_data_id kind target role) =
     ''managed-verifier'' # kind_as_str kind # target # str_split (CHR ''.'') role"
proof -
  have "managed_verifier_trust_data_id kind target role =
      ''managed-verifier'' @ CHR ''.'' # (kind_as_str kind @ CHR ''.'' # (target @ CHR ''.'' # role))"
    by (simp add: managed_verifier_trust_data_id_def)
  moreover have "CHR ''.'' \<notin> set ''managed-verifier''" by simp
  ultimately show ?thesis by (simp only: str_split_append no_dot(1) no_dot(2) [OF assms] not_False_eq_True)
qed

lemma managed_parts_Inr:
  "managed_parts name = Inr (kind, target, role) \<longleftrightarrow>
     is_managed_verifier_kind kind \<and> target \<in> set MANAGED_VERIFIER_TARGETS \<and> CHR ''.'' \<notin> set role \<and>
     name = managed_verifier_trust_data_id kind target role"
proof
  assume l: "managed_parts name = Inr (kind, target, role)"
  obtain h ps where h: "str_split (CHR ''.'') name = h # ps" by (cases "str_split (CHR ''.'') name") auto
  then have hm: "h = ''managed-verifier''" using l by (auto simp: managed_parts_def Let_def split: if_splits)
  obtain kn ps1 where ps: "ps = kn # ps1" using l h hm by (cases ps) (auto simp: managed_parts_def Let_def)
  obtain tn ps2 where ps1: "ps1 = tn # ps2" using l h hm ps by (cases ps1) (auto simp: managed_parts_def Let_def)
  obtain rn ps3 where ps2: "ps2 = rn # ps3" using l h hm ps ps1 by (cases ps2) (auto simp: managed_parts_def Let_def)
  have "ps3 = []" "rn = role" "kn = kind_as_str kind" "tn = target"
    and ok: "is_managed_verifier_kind kind" "target \<in> set MANAGED_VERIFIER_TARGETS"
    using l h hm ps ps1 ps2
    by (auto simp: managed_parts_def Let_def find_kind find_eq bind_eq_Some_conv split: if_splits)
  then have sp: "str_split (CHR ''.'') name = ''managed-verifier'' # kind_as_str kind # target # [role]"
    using h hm ps ps1 ps2 by simp
  from str_split_Cons [OF sp] obtain a where a: "name = ''managed-verifier'' @ CHR ''.'' # a" "str_split (CHR ''.'') a = kind_as_str kind # target # [role]" by auto
  from str_split_Cons [OF a(2)] obtain b where b: "a = kind_as_str kind @ CHR ''.'' # b" "str_split (CHR ''.'') b = target # [role]" by auto
  from str_split_Cons [OF b(2)] obtain c where c: "b = target @ CHR ''.'' # c" "str_split (CHR ''.'') c = [role]" by auto
  from str_split_Cons [OF c(2)] have "c = role" "CHR ''.'' \<notin> set role" by auto
  then show "is_managed_verifier_kind kind \<and> target \<in> set MANAGED_VERIFIER_TARGETS \<and> CHR ''.'' \<notin> set role \<and>
     name = managed_verifier_trust_data_id kind target role"
    using ok a(1) b(1) c(1) by (simp add: managed_verifier_trust_data_id_def)
next
  assume r: "is_managed_verifier_kind kind \<and> target \<in> set MANAGED_VERIFIER_TARGETS \<and> CHR ''.'' \<notin> set role \<and>
     name = managed_verifier_trust_data_id kind target role"
  then have "find (\<lambda>k. kind_as_str k = kind_as_str kind) all_quote_kinds = Some kind" "find (\<lambda>x. x = target) MANAGED_VERIFIER_TARGETS = Some target"
    by (simp_all only: find_kind find_eq)
  then show "managed_parts name = Inr (kind, target, role)"
    using r by (simp add: managed_parts_def managed_split Let_def del: kind_as_str_inj)
qed

lemma managed_role_dot: "managed_role role = Some x \<Longrightarrow> CHR ''.'' \<notin> set role \<and> fst x = role"
  by (auto simp: managed_role_def split: if_splits)

lemma parse_managed_Some:
  "parse_managed_verifier_trust_data td = Inr (Some (kind, target, role)) \<longleftrightarrow> managed_candidate td \<and> managed_td td kind target role"
    (is "?l = ?r")
proof
  assume l: ?l
  have c: "managed_candidate td" using l by (auto simp: parse_managed_verifier_trust_data_def managed_candidate_def split: if_splits)
  then obtain k t ro where p: "managed_parts (td_id td) = Inr (k, t, ro)"
    using l by (auto simp: parse_managed_verifier_trust_data_def managed_candidate_def)
  obtain ro' media where m: "managed_role ro = Some (ro', media)"
    using l c p by (cases "managed_role ro") (auto simp: parse_managed_verifier_trust_data_def managed_candidate_def)
  have "k = kind" "t = target" "ro' = role" "td_kind td = VerificationKey" "td_media_type td = media"
    using l c p m by (auto simp: parse_managed_verifier_trust_data_def managed_candidate_def split: if_splits)
  then show ?r using c p [unfolded managed_parts_Inr] m managed_role_dot [OF m] by (simp add: managed_td_def)
next
  assume r: ?r
  then have "managed_parts (td_id td) = Inr (kind, target, role)"
    by (auto simp: managed_td_def managed_parts_Inr dest: managed_role_dot)
  then show ?l using r by (auto simp: parse_managed_verifier_trust_data_def managed_candidate_def managed_td_def)
qed

lemma parse_managed_None: "parse_managed_verifier_trust_data td = Inr None \<longleftrightarrow> \<not> managed_candidate td"
  unfolding parse_managed_verifier_trust_data_def managed_candidate_def
  by (auto split: option.splits if_splits)

lemma managed_td_candidate: "managed_td td kind target role \<Longrightarrow> managed_candidate td"
  by (auto simp: managed_td_def managed_candidate_def managed_verifier_trust_data_id_def starts_with_def)

section \<open>Validation accepts exactly the valid policies\<close>

lemma header_Inr: "validate_policy_header p = Inr u \<longleftrightarrow> header_wf p"
  by (auto simp: validate_policy_header_def header_wf_def validate_sha256_def not_less not_le split: option.splits)

lemma origin_Inr: "validate_origin env pin = Inr u \<longleftrightarrow> pin_wf env pin"
  by (auto simp: validate_origin_def pin_wf_def validate_identifier_def split: sum.splits)

lemma source_Inr:
  "validate_source origins td = Inr u \<longleftrightarrow>
     (\<forall>source. td_source td = Some source \<longrightarrow>
        valid_identifier (tsrc_origin_pin source) \<and> bt_get origins (tsrc_origin_pin source) \<noteq> None \<and>
        valid_policy_path (tsrc_path source))"
  by (auto simp: validate_source_def validate_identifier_def split: option.splits)

lemma trust_entry_Inr:
  assumes "\<And>i. bt_get origins i = None \<longleftrightarrow> i \<notin> pin_id ` set pins"
  shows "validate_trust_entry origins td = Inr u \<longleftrightarrow> td_wf pins td"
  unfolding validate_trust_entry_def td_wf_def
  by (auto simp: validate_identifier_def validate_sha256_def source_Inr assms not_less not_le
      split: if_splits option.splits)

definition refs_of :: "(string, attestation_trust_data_ref) btree \<Rightarrow> attestation_trust_data_ref list \<Rightarrow> bool" where
  "refs_of trust_data refs \<longleftrightarrow> (\<forall>i td. bt_get trust_data i = Some td \<longleftrightarrow> td \<in> set refs \<and> td_id td = i)"

lemma refs_of_None: "refs_of trust_data refs \<Longrightarrow> bt_get trust_data i = None \<longleftrightarrow> i \<notin> td_id ` set refs"
  unfolding refs_of_def by (metis image_iff not_None_eq)

lemma refs_of_kind: "refs_of trust_data refs \<Longrightarrow> trust_kind_in trust_data kinds i \<longleftrightarrow> has_kind refs kinds i"
proof -
  assume r: "refs_of trust_data refs"
  show ?thesis
  proof (cases "bt_get trust_data i")
    case None
    then show ?thesis using refs_of_None [OF r, of i] by (auto simp: trust_kind_in_def has_kind_def)
  next
    case (Some td)
    then have "td' = td \<longleftrightarrow> td' \<in> set refs \<and> td_id td' = i" for td' using r unfolding refs_of_def by (metis option.inject)
    then have "has_kind refs kinds i \<longleftrightarrow> td_kind td \<in> kinds" unfolding has_kind_def by metis
    then show ?thesis using Some by (simp add: trust_kind_in_def)
  qed
qed

lemma required_Inr:
  assumes "refs_of trust_data refs"
  shows "check_required trust_data q = Inr u \<longleftrightarrow>
     profile_quote_kind (qk_verifier_profile q) = qk_kind q \<and> set (qk_required_trust_data q) \<subseteq> td_id ` set refs \<and>
     (qk_enabled q \<longrightarrow> qk_evidence_schema_version q \<noteq> 0 \<and>
        list_ex (has_kind refs {TrustAnchor, VerificationKey}) (qk_required_trust_data q))"
proof -
  have "trust_kind_in trust_data kinds = has_kind refs kinds" for kinds using refs_of_kind [OF assms] by blast
  then show ?thesis
    unfolding check_required_def Let_def
    by (auto simp: refs_of_None [OF assms] list_ex_iff split: if_splits)
qed

lemma measurement_Inr:
  assumes "refs_of trust_data refs" "set (qk_required_trust_data q) \<subseteq> td_id ` set refs"
  shows "check_measurement trust_data q i = Inr u \<longleftrightarrow> i \<in> set (qk_required_trust_data q) \<and> has_kind refs {Measurement} i"
    and "check_measurement trust_data q i \<noteq> Inl PolicyPanic"
proof -
  have "trust_kind_in trust_data {Measurement} i \<longleftrightarrow> has_kind refs {Measurement} i" using refs_of_kind [OF assms(1)] .
  then show "check_measurement trust_data q i = Inr u \<longleftrightarrow> i \<in> set (qk_required_trust_data q) \<and> has_kind refs {Measurement} i"
    by (auto simp: check_measurement_def Let_def trust_kind_in_def split: option.splits)
  have "bt_get trust_data i \<noteq> None" if "i \<in> set (qk_required_trust_data q)"
    using that assms(2) refs_of_None [OF assms(1)] by blast
  then show "check_measurement trust_data q i \<noteq> Inl PolicyPanic"
    by (auto simp: check_measurement_def Let_def ensure_def split: option.splits)
qed

lemma measurements_Inr:
  assumes "refs_of trust_data refs" "set (qk_required_trust_data q) \<subseteq> td_id ` set refs"
  shows "check_measurements trust_data q = Inr u \<longleftrightarrow>
     set (qk_measurement_trust_data q) = {i \<in> set (qk_required_trust_data q). has_kind refs {Measurement} i} \<and>
     (qk_enabled q \<longrightarrow> qk_required_measurement_layers q \<noteq> [] \<or> qk_kind q = Tpm2QuoteEk \<longrightarrow> qk_measurement_trust_data q \<noteq> [])"
  unfolding check_measurements_def Let_def
  by (auto simp: measurement_Inr(1) [OF assms] refs_of_kind [OF assms(1)] split: if_splits)

lemma tier3_layers: "quote_kind_tier kind \<ge> TIER3_CONFIDENTIAL_COMPUTE_TIER \<longleftrightarrow> exact_tier3_measurement_layers kind \<noteq> None"
  by (cases kind)
    (auto simp: quote_kind_tier_def exact_tier3_measurement_layers_def TIER3_CONFIDENTIAL_COMPUTE_TIER_def TIER2_DEVICE_IDENTITY_TIER_def)

lemma platforms_Inr:
  "check_platforms q = Inr u \<longleftrightarrow>
     list_all valid_identifier (qk_platforms q) \<and>
     (qk_enabled q \<and> TIER3_CONFIDENTIAL_COMPUTE_TIER \<le> quote_kind_tier (qk_kind q) \<longrightarrow>
        qk_platforms q \<noteq> [] \<and> exact_tier3_measurement_layers (qk_kind q) = Some (qk_required_measurement_layers q))"
  unfolding check_platforms_def Let_def
  by (auto simp: validate_identifier_def list_all_iff split: option.splits if_splits)

lemma quote_kind_Inr:
  assumes "refs_of trust_data refs"
  shows "validate_quote_kind trust_data q = Inr u \<longleftrightarrow> qk_wf refs q"
proof (cases "set (qk_required_trust_data q) \<subseteq> td_id ` set refs")
  case True
  show ?thesis
    unfolding validate_quote_kind_def qk_wf_def enabled_wf_def
    by (auto simp: required_Inr [OF assms] measurements_Inr [OF assms True] platforms_Inr)
next
  case False
  then show ?thesis unfolding validate_quote_kind_def qk_wf_def by (simp add: required_Inr [OF assms])
qed

lemma find_None_iff_all: "find P xs = None \<longleftrightarrow> (\<forall>x \<in> set xs. \<not> P x)"
  by (auto simp: find_None_iff)

lemma find_case:
  "(case find P xs of Some y \<Rightarrow> Inl (e y) | None \<Rightarrow> r) = Inr u \<longleftrightarrow> (\<forall>x \<in> set xs. \<not> P x) \<and> r = Inr u"
  by (induction xs) auto

lemma quote_kinds_Inr:
  assumes "refs_of trust_data refs"
  shows "validate_quote_kinds kinds trust_data = Inr m \<longleftrightarrow>
     (\<forall>q \<in> set kinds. qk_wf refs q) \<and> distinct (map qk_kind kinds) \<and> qk_kind ` set kinds = UNIV \<and> m = keyed qk_kind kinds []"
proof -
  have "(\<forall>kind. bt_get (keyed qk_kind kinds []) kind \<noteq> None) \<longleftrightarrow> qk_kind ` set kinds = UNIV" if "distinct (map qk_kind kinds)"
    using keyed_get_None [OF that] by auto
  moreover have "(\<forall>kind \<in> set all_quote_kinds. P kind) \<longleftrightarrow> (\<forall>kind. P kind)" for P using mem_all_quote_kinds by blast
  ultimately show ?thesis
    unfolding validate_quote_kinds_def
    by (auto simp: collect_unique_Inr_iff quote_kind_Inr [OF assms])
qed

lemma managed_id_Inr:
  "managed_id td = Inr x \<longleftrightarrow>
     (if managed_candidate td then (\<exists>kind target role. managed_td td kind target role) \<and> x = [td_id td] else x = [])"
proof (cases "managed_candidate td")
  case True
  have "parse_managed_verifier_trust_data td = Inr m \<longleftrightarrow> (\<exists>k t r. m = Some (k, t, r) \<and> managed_td td k t r)" for m
  proof (cases m)
    case (Some y)
    then show ?thesis using True by (cases y) (simp add: parse_managed_Some)
  qed (simp add: True parse_managed_None)
  then show ?thesis using True by (auto simp: managed_id_def)
next
  case False
  then show ?thesis using parse_managed_None [of td] by (auto simp: managed_id_def)
qed

lemma managed_ids_Inr:
  "managed_ids trust_data = Inr ids \<longleftrightarrow>
     (\<forall>td \<in> snd ` set trust_data. managed_candidate td \<longrightarrow> (\<exists>kind target role. managed_td td kind target role)) \<and>
     ids = map td_id (filter managed_candidate (map snd trust_data))"
proof -
  let ?ok = "\<lambda>tds. \<forall>td \<in> set tds. managed_candidate td \<longrightarrow> (\<exists>kind target role. managed_td td kind target role)"
  have "rmap managed_id tds = Inr xs \<Longrightarrow> ?ok tds \<and> concat xs = map td_id (filter managed_candidate tds)" for tds xs
    by (induction tds arbitrary: xs) (auto simp: managed_id_Inr split: if_splits)
  moreover have "?ok tds \<Longrightarrow> \<exists>xs. rmap managed_id tds = Inr xs" for tds
  proof (induction tds)
    case (Cons td tds)
    have "managed_id td = Inr (if managed_candidate td then [td_id td] else [])" using Cons.prems by (simp add: managed_id_Inr)
    then show ?case using Cons by auto
  qed simp
  ultimately have "(\<exists>xs. rmap managed_id tds = Inr xs \<and> concat xs = ids) \<longleftrightarrow> ?ok tds \<and> ids = map td_id (filter managed_candidate tds)" for tds
    by metis
  from this [of "map snd trust_data"] show ?thesis unfolding managed_ids_def by simp
qed

lemma managed_target_Inr:
  assumes "refs_of trust_data refs"
  shows "check_managed_target (keyed qk_kind kinds []) trust_data kind kp target = Inr u \<longleftrightarrow>
     (let executable = managed_verifier_trust_data_id kind target ''executable'';
          manifest = managed_verifier_trust_data_id kind target ''manifest''
      in (executable \<in> td_id ` set refs \<longleftrightarrow> manifest \<in> td_id ` set refs) \<and>
         (executable \<in> td_id ` set refs \<longrightarrow> qk_enabled kp \<and>
            (\<forall>q \<in> snd ` set (keyed qk_kind kinds []). executable \<notin> set (qk_required_trust_data q) \<and> manifest \<notin> set (qk_required_trust_data q))))"
proof -
  let ?e = "managed_verifier_trust_data_id kind target ''executable''" and ?m = "managed_verifier_trust_data_id kind target ''manifest''"
  have mem: "i \<in> td_id ` set refs \<longleftrightarrow> bt_get trust_data i \<noteq> None" for i using refs_of_None [OF assms, of i] by simp
  have tid: "td_id td = i" if "bt_get trust_data i = Some td" for i td using that assms unfolding refs_of_def by blast
  show ?thesis
    unfolding check_managed_target_def Let_def mem
    by (cases "bt_get trust_data ?e"; cases "bt_get trust_data ?m") 
      (use tid [of ?e] tid [of ?m] in \<open>auto simp: list_ex_iff\<close>)
qed

lemma managed_Inr:
  assumes "distinct (map qk_kind kinds)" "qk_kind ` set kinds = UNIV" "distinct (map td_id refs)"
  shows "validate_managed_verifier_trust_data (keyed qk_kind kinds []) (keyed td_id refs []) = Inr ids \<longleftrightarrow>
     managed_wf refs kinds \<and> ids = map td_id (filter managed_candidate (map snd (keyed td_id refs [])))"
proof -
  have r: "refs_of (keyed td_id refs []) refs" using keyed_get_iff [OF assms(3)] by (simp add: refs_of_def)
  have loop: "(case bt_get (keyed qk_kind kinds []) kind of None \<Rightarrow> Inl PolicyPanic
      | Some kp \<Rightarrow> rfor (check_managed_target (keyed qk_kind kinds []) (keyed td_id refs []) kind kp) MANAGED_VERIFIER_TARGETS) = Inr () \<longleftrightarrow>
      (\<forall>target \<in> set MANAGED_VERIFIER_TARGETS.
        (let executable = managed_verifier_trust_data_id kind target ''executable'';
             manifest = managed_verifier_trust_data_id kind target ''manifest''
         in (executable \<in> td_id ` set refs \<longleftrightarrow> manifest \<in> td_id ` set refs) \<and>
            (executable \<in> td_id ` set refs \<longrightarrow>
               (\<forall>q \<in> set kinds. (qk_kind q = kind \<longrightarrow> qk_enabled q) \<and>
                  executable \<notin> set (qk_required_trust_data q) \<and> manifest \<notin> set (qk_required_trust_data q)))))" for kind
  proof -
    obtain kp where kp: "bt_get (keyed qk_kind kinds []) kind = Some kp"
      using keyed_get_None [OF assms(1), of kind] assms(2) by auto
    then have "q = kp \<longleftrightarrow> q \<in> set kinds \<and> qk_kind q = kind" for q using keyed_get_iff [OF assms(1), of kind q] by auto
    then have "(\<forall>q \<in> set kinds. qk_kind q = kind \<longrightarrow> qk_enabled q) \<longleftrightarrow> qk_enabled kp" by metis
    then show ?thesis using kp by (auto simp: managed_target_Inr [OF r] keyed_values [OF assms(1)] Let_def)
  qed
  show ?thesis
    unfolding validate_managed_verifier_trust_data_def managed_wf_def
    by (simp only: rbind_Inr_iff rfor_Inr_iff managed_ids_Inr loop keyed_values [OF assms(3)]) auto
qed

lemma closure_Inr:
  assumes "distinct (map pin_id (pol_origin_pins p))" "distinct (map td_id (pol_trust_data p))" "distinct (map qk_kind (pol_quote_kinds p))"
  shows "validate_reference_closure (keyed pin_id (pol_origin_pins p) []) (keyed td_id (pol_trust_data p) [])
       (keyed qk_kind (pol_quote_kinds p) []) (map td_id (filter managed_candidate (map snd (keyed td_id (pol_trust_data p) [])))) = Inr u \<longleftrightarrow>
     (\<forall>td \<in> set (pol_trust_data p).
        (\<exists>td' \<in> set (pol_trust_data p). managed_candidate td' \<and> td_id td' = td_id td) \<or>
        (\<exists>q \<in> set (pol_quote_kinds p). td_id td \<in> set (qk_required_trust_data q))) \<and>
     (\<forall>pin \<in> set (pol_origin_pins p). \<exists>td \<in> set (pol_trust_data p). \<exists>source. td_source td = Some source \<and> tsrc_origin_pin source = pin_id pin)"
proof -
  let ?o = "keyed pin_id (pol_origin_pins p) []" and ?t = "keyed td_id (pol_trust_data p) []" and ?k = "keyed qk_kind (pol_quote_kinds p) []"
  have keys: "fst ` set ?t = td_id ` set (pol_trust_data p)" "fst ` set ?o = pin_id ` set (pol_origin_pins p)"
    using keyed_get_None [OF assms(2)] keyed_get_None [OF assms(1)] unfolding bt_get_None_iff by blast+
  have ids: "set (map td_id (filter managed_candidate (map snd ?t))) = {td_id td | td. td \<in> set (pol_trust_data p) \<and> managed_candidate td}"
    using keyed_values [OF assms(2)] by auto
  have req: "set (concat (map (\<lambda>entry. qk_required_trust_data (snd entry)) ?k)) = (\<Union>q \<in> set (pol_quote_kinds p). set (qk_required_trust_data q))"
    using keyed_values [OF assms(3)] by force
  have src: "set (List.map_filter (\<lambda>entry. map_option tsrc_origin_pin (td_source (snd entry))) ?t) =
      {tsrc_origin_pin source | source td. td \<in> set (pol_trust_data p) \<and> td_source td = Some source}"
    using keyed_values [OF assms(2)] by (force simp: List.map_filter_def)
  have "set (map fst ?t) \<subseteq> set (concat (map (\<lambda>entry. qk_required_trust_data (snd entry)) ?k) @ map td_id (filter managed_candidate (map snd ?t))) \<longleftrightarrow>
      (\<forall>td \<in> set (pol_trust_data p). (\<exists>td' \<in> set (pol_trust_data p). managed_candidate td' \<and> td_id td' = td_id td) \<or>
        (\<exists>q \<in> set (pol_quote_kinds p). td_id td \<in> set (qk_required_trust_data q)))"
    unfolding set_append req ids set_map [of fst] keys by (auto simp: image_iff subset_iff; metis)
  moreover have "set (map fst ?o) \<subseteq> set (List.map_filter (\<lambda>entry. map_option tsrc_origin_pin (td_source (snd entry))) ?t) \<longleftrightarrow>
      (\<forall>pin \<in> set (pol_origin_pins p). \<exists>td \<in> set (pol_trust_data p). \<exists>source. td_source td = Some source \<and> tsrc_origin_pin source = pin_id pin)"
    unfolding src set_map [of fst] keys by (auto simp: image_iff subset_iff; metis)
  ultimately show ?thesis
    unfolding validate_reference_closure_def Let_def find_case subset_iff by auto
qed

lemma canonical_sets [simp]:
  "set (pol_origin_pins (canonical_policy p)) = set (pol_origin_pins p)"
  "set (pol_trust_data (canonical_policy p)) = set (pol_trust_data p)"
  "set (pol_quote_kinds (canonical_policy p)) = set (pol_quote_kinds p)"
  by (simp_all add: canonical_policy_def)

lemma distinct_sort_key: "distinct (map f (sort_key g xs)) \<longleftrightarrow> distinct (map f xs)"
  by (simp add: distinct_map)

lemma canonical_distinct [simp]:
  "distinct (map pin_id (pol_origin_pins (canonical_policy p))) \<longleftrightarrow> distinct (map pin_id (pol_origin_pins p))"
  "distinct (map td_id (pol_trust_data (canonical_policy p))) \<longleftrightarrow> distinct (map td_id (pol_trust_data p))"
  "distinct (map qk_kind (pol_quote_kinds (canonical_policy p))) \<longleftrightarrow> distinct (map qk_kind (pol_quote_kinds p))"
  by (simp_all add: canonical_policy_def distinct_sort_key)

lemma canonical_header [simp]: "header_wf (canonical_policy p) \<longleftrightarrow> header_wf p"
  by (simp add: canonical_policy_def header_wf_def)

lemma canonical_entries [simp]:
  "td_wf (pol_origin_pins (canonical_policy p)) = td_wf (pol_origin_pins p)"
  "qk_wf (pol_trust_data (canonical_policy p)) = qk_wf (pol_trust_data p)"
  "managed_wf (pol_trust_data (canonical_policy p)) (pol_quote_kinds (canonical_policy p)) \<longleftrightarrow>
     managed_wf (pol_trust_data p) (pol_quote_kinds p)"
  "closure_wf (canonical_policy p) \<longleftrightarrow> closure_wf p"
proof -
  have k: "has_kind (pol_trust_data (canonical_policy p)) = has_kind (pol_trust_data p)"
    by (simp add: has_kind_def fun_eq_iff)
  show "td_wf (pol_origin_pins (canonical_policy p)) = td_wf (pol_origin_pins p)"
    by (simp add: td_wf_def fun_eq_iff)
  show "qk_wf (pol_trust_data (canonical_policy p)) = qk_wf (pol_trust_data p)"
    by (simp add: qk_wf_def enabled_wf_def k fun_eq_iff)
  show "managed_wf (pol_trust_data (canonical_policy p)) (pol_quote_kinds (canonical_policy p)) \<longleftrightarrow>
      managed_wf (pol_trust_data p) (pol_quote_kinds p)"
    by (simp only: managed_wf_def canonical_sets)
  show "closure_wf (canonical_policy p) \<longleftrightarrow> closure_wf p" by (simp only: closure_wf_def canonical_sets)
qed

lemma closure_managed:
  assumes "distinct (map td_id refs)" "td \<in> set refs"
  shows "(\<exists>td' \<in> set refs. managed_candidate td' \<and> td_id td' = td_id td) \<longleftrightarrow> managed_candidate td"
  using assms by (metis distinct_map inj_onD)

definition validated :: "policy_env \<Rightarrow> admin_attestation_policy \<Rightarrow> u8 list \<Rightarrow> validated_policy" where
  "validated env p bytes =
     \<lparr>vp_policy = canonical_policy p, vp_digest = pe_hex_encode env (pe_sha256 env bytes), vp_canonical_json = bytes,
      vp_origins = keyed pin_id (pol_origin_pins (canonical_policy p)) [],
      vp_trust_data = keyed td_id (pol_trust_data (canonical_policy p)) [],
      vp_quote_kinds = keyed qk_kind (pol_quote_kinds (canonical_policy p)) []\<rparr>"

lemma refs_of_keyed: "distinct (map td_id refs) \<Longrightarrow> refs_of (keyed td_id refs []) refs"
  using keyed_get_iff by (fastforce simp: refs_of_def)

lemma origins_Inr:
  "validate_origins env pins = Inr m \<longleftrightarrow>
     (\<forall>pin \<in> set pins. pin_wf env pin) \<and> distinct (map pin_id pins) \<and> m = keyed pin_id pins []"
  by (auto simp: validate_origins_def collect_unique_Inr_iff origin_Inr)

lemma trust_data_Inr:
  assumes "distinct (map pin_id pins)"
  shows "validate_trust_data refs (keyed pin_id pins []) = Inr m \<longleftrightarrow>
     (\<forall>td \<in> set refs. td_wf pins td) \<and> distinct (map td_id refs) \<and> m = keyed td_id refs []"
  by (auto simp: validate_trust_data_def collect_unique_Inr_iff trust_entry_Inr [OF keyed_get_None [OF assms]])

lemma validate_policy_Inr:
  "validate_policy env p = Inr v \<longleftrightarrow>
     policy_wf env p \<and> (\<exists>bytes. pe_to_vec env (canonical_policy p) = Inr bytes \<and> v = validated env p bytes)"
proof -
  let ?q = "canonical_policy p"
  let ?o = "keyed pin_id (pol_origin_pins ?q) []" and ?t = "keyed td_id (pol_trust_data ?q) []" and ?k = "keyed qk_kind (pol_quote_kinds ?q) []"
  let ?ids = "map td_id (filter managed_candidate (map snd ?t))"
  have "validate_policy env p = Inr v \<longleftrightarrow>
      header_wf p \<and> (\<forall>pin \<in> set (pol_origin_pins p). pin_wf env pin) \<and> distinct (map pin_id (pol_origin_pins p)) \<and>
      (\<forall>td \<in> set (pol_trust_data p). td_wf (pol_origin_pins p) td) \<and> distinct (map td_id (pol_trust_data p)) \<and>
      (\<forall>q \<in> set (pol_quote_kinds p). qk_wf (pol_trust_data p) q) \<and> distinct (map qk_kind (pol_quote_kinds p)) \<and>
      qk_kind ` set (pol_quote_kinds p) = UNIV \<and> managed_wf (pol_trust_data p) (pol_quote_kinds p) \<and>
      validate_reference_closure ?o ?t ?k ?ids = Inr () \<and>
      (\<exists>bytes. pe_to_vec env ?q = Inr bytes \<and> v = validated env p bytes)"
    by (cases "pe_to_vec env ?q")
      (auto simp: validate_policy_def Let_def header_Inr origins_Inr trust_data_Inr quote_kinds_Inr [OF refs_of_keyed]
        managed_Inr validated_def)
  moreover have "validate_reference_closure ?o ?t ?k ?ids = Inr () \<longleftrightarrow> closure_wf p"
    if "distinct (map pin_id (pol_origin_pins p))" "distinct (map td_id (pol_trust_data p))" "distinct (map qk_kind (pol_quote_kinds p))"
    using closure_Inr [of ?q "()"] that by (simp add: closure_wf_def closure_managed)
  ultimately show ?thesis unfolding policy_wf_def by blast
qed

section \<open>Validation does not panic\<close>

lemma identifier_no_panic [simp]: "validate_identifier f s \<noteq> Inl PolicyPanic" "validate_sha256 f s \<noteq> Inl PolicyPanic"
  by (simp_all add: validate_identifier_def validate_sha256_def ensure_def)

lemma header_no_panic: "validate_policy_header p \<noteq> Inl PolicyPanic"
  by (auto simp: validate_policy_header_def split: option.splits)

lemma origins_no_panic: "validate_origins env pins \<noteq> Inl PolicyPanic"
proof
  assume "validate_origins env pins = Inl PolicyPanic"
  then obtain pin where "validate_origin env pin = Inl PolicyPanic"
    unfolding validate_origins_def using collect_unique_Inl by fastforce
  then show False by (auto simp: validate_origin_def rbind_Inl_iff ensure_def split: sum.splits if_splits)
qed

lemma trust_data_no_panic: "validate_trust_data refs origins \<noteq> Inl PolicyPanic"
proof
  assume "validate_trust_data refs origins = Inl PolicyPanic"
  then obtain td where td: "validate_trust_entry origins td = Inl PolicyPanic"
    unfolding validate_trust_data_def using collect_unique_Inl by fastforce
  have "validate_source origins td \<noteq> Inl PolicyPanic"
    by (auto simp: validate_source_def rbind_Inl_iff ensure_def split: option.splits if_splits)
  then show False using td by (auto simp: validate_trust_entry_def rbind_Inl_iff split: if_splits)
qed

lemma quote_kind_no_panic:
  assumes "refs_of trust_data refs"
  shows "validate_quote_kind trust_data q \<noteq> Inl PolicyPanic"
proof
  assume p: "validate_quote_kind trust_data q = Inl PolicyPanic"
  have "check_required trust_data q \<noteq> Inl PolicyPanic"
    by (auto simp: check_required_def Let_def rbind_Inl_iff ensure_def dest!: rfor_Inl split: if_splits)
  then have req: "check_required trust_data q = Inr ()" "check_measurements trust_data q = Inl PolicyPanic \<or> check_platforms q = Inl PolicyPanic"
    using p by (auto simp: validate_quote_kind_def rbind_Inl_iff)
  then have sub: "set (qk_required_trust_data q) \<subseteq> td_id ` set refs" by (simp add: required_Inr [OF assms])
  have "check_measurements trust_data q \<noteq> Inl PolicyPanic"
    using measurement_Inr(2) [OF assms sub]
    by (auto simp: check_measurements_def Let_def rbind_Inl_iff ensure_def dest!: rfor_Inl split: if_splits)
  moreover have "check_platforms q \<noteq> Inl PolicyPanic"
    using tier3_layers [of "qk_kind q"]
    by (auto simp: check_platforms_def Let_def rbind_Inl_iff ensure_def dest!: rfor_Inl split: if_splits option.splits)
  ultimately show False using req by simp
qed

lemma quote_kinds_no_panic:
  assumes "refs_of trust_data refs"
  shows "validate_quote_kinds kinds trust_data \<noteq> Inl PolicyPanic"
proof
  assume "validate_quote_kinds kinds trust_data = Inl PolicyPanic"
  then have "collect_unique qk_kind (validate_quote_kind trust_data) (\<lambda>e. DuplicateQuoteKind (kind_as_str (qk_kind e))) kinds [] = Inl PolicyPanic"
    by (auto simp: validate_quote_kinds_def rbind_Inl_iff ensure_def dest!: rfor_Inl split: if_splits)
  then show False using quote_kind_no_panic [OF assms] collect_unique_Inl by fastforce
qed

lemma rmap_Inl: "rmap f xs = Inl e \<Longrightarrow> \<exists>x \<in> set xs. f x = Inl e"
  by (induction xs) (auto simp: rbind_Inl_iff)

lemma parse_managed_no_panic: "parse_managed_verifier_trust_data td \<noteq> Inl PolicyPanic"
proof -
  have "managed_parts name \<noteq> Inl PolicyPanic" for name
    by (auto simp: managed_parts_def Let_def rbind_Inl_iff ok_or_def split: list.splits if_splits option.splits)
  then show ?thesis
    by (auto simp: parse_managed_verifier_trust_data_def rbind_Inl_iff split: option.splits if_splits)
qed

lemma managed_no_panic:
  assumes "\<And>kind. bt_get quote_kinds kind \<noteq> None"
  shows "validate_managed_verifier_trust_data quote_kinds trust_data \<noteq> Inl PolicyPanic"
proof
  assume p: "validate_managed_verifier_trust_data quote_kinds trust_data = Inl PolicyPanic"
  have "managed_ids trust_data \<noteq> Inl PolicyPanic"
    using parse_managed_no_panic by (auto simp: managed_ids_def managed_id_def rbind_Inl_iff dest!: rmap_Inl)
  moreover have "check_managed_target quote_kinds trust_data kind kp target \<noteq> Inl PolicyPanic" for kind kp target
    by (auto simp: check_managed_target_def Let_def rbind_Inl_iff ensure_def dest!: rfor_Inl split: if_splits option.splits)
  moreover have "(case bt_get quote_kinds kind of None \<Rightarrow> Inl PolicyPanic
      | Some kp \<Rightarrow> rfor (check_managed_target quote_kinds trust_data kind kp) MANAGED_VERIFIER_TARGETS) \<noteq> Inl PolicyPanic" for kind
    using assms [of kind] calculation(2) by (auto dest!: rfor_Inl)
  ultimately show False using p unfolding validate_managed_verifier_trust_data_def by (auto simp: rbind_Inl_iff dest!: rfor_Inl)
qed

lemma closure_no_panic: "validate_reference_closure origins trust_data quote_kinds managed \<noteq> Inl PolicyPanic"
  by (auto simp: validate_reference_closure_def Let_def split: option.splits)

lemma validate_policy_no_panic: "validate_policy env p \<noteq> Inl PolicyPanic"
proof
  assume "validate_policy env p = Inl PolicyPanic"
  then obtain origins trust_data where o: "validate_origins env (pol_origin_pins (canonical_policy p)) = Inr origins"
    and t: "validate_trust_data (pol_trust_data (canonical_policy p)) origins = Inr trust_data"
    and rest: "validate_quote_kinds (pol_quote_kinds (canonical_policy p)) trust_data = Inl PolicyPanic \<or>
      (\<exists>quote_kinds. validate_quote_kinds (pol_quote_kinds (canonical_policy p)) trust_data = Inr quote_kinds \<and>
         validate_managed_verifier_trust_data quote_kinds trust_data = Inl PolicyPanic)"
    using header_no_panic origins_no_panic trust_data_no_panic closure_no_panic
    by (cases "pe_to_vec env (canonical_policy p)") (auto simp: validate_policy_def Let_def rbind_Inl_iff)
  then have d: "distinct (map pin_id (pol_origin_pins p))" "origins = keyed pin_id (pol_origin_pins (canonical_policy p)) []"
    by (simp_all add: origins_Inr)
  then have r: "refs_of trust_data (pol_trust_data (canonical_policy p))"
    using t refs_of_keyed by (simp add: trust_data_Inr)
  from rest quote_kinds_no_panic [OF r] obtain quote_kinds
    where k: "validate_quote_kinds (pol_quote_kinds (canonical_policy p)) trust_data = Inr quote_kinds"
      and m: "validate_managed_verifier_trust_data quote_kinds trust_data = Inl PolicyPanic" by blast
  have "bt_get quote_kinds kind \<noteq> None" for kind
    using k keyed_get_None [of qk_kind "pol_quote_kinds (canonical_policy p)" kind] by (auto simp: quote_kinds_Inr [OF r])
  then show False using managed_no_panic m by blast
qed

text \<open>The order in which the pins, the trust data and the kinds are listed does not matter.\<close>

lemma sort_key_unique:
  fixes f :: "'a \<Rightarrow> 'k::linorder"
  assumes "distinct (map f ys)" "set xs = set ys" "length xs = length ys"
  shows "sort_key f xs = sort_key f ys"
proof -
  have d: "distinct ys" "distinct xs" using assms by (metis distinct_map, metis card_distinct distinct_card distinct_map)
  have i: "inj_on f (set ys)" using assms(1) by (simp add: distinct_map)
  have "map f (sort_key f xs) = map f (sort_key f ys)"
    by (rule sorted_distinct_set_unique) (use assms d i in \<open>simp_all add: distinct_map\<close>)
  then show ?thesis using assms(2) i by (metis map_inj_on set_sort sup.idem)
qed

lemma policy_order_canonical:
  assumes "distinct (map pin_id (pol_origin_pins p))" "distinct (map td_id (pol_trust_data p))" "distinct (map qk_kind (pol_quote_kinds p))"
    and "set pins = set (pol_origin_pins p)" "length pins = length (pol_origin_pins p)"
    and "set refs = set (pol_trust_data p)" "length refs = length (pol_trust_data p)"
    and "set kinds = set (pol_quote_kinds p)" "length kinds = length (pol_quote_kinds p)"
  shows "validate_policy env (p\<lparr>pol_origin_pins := pins, pol_trust_data := refs, pol_quote_kinds := kinds\<rparr>) = validate_policy env p"
proof -
  have "canonical_policy (p\<lparr>pol_origin_pins := pins, pol_trust_data := refs, pol_quote_kinds := kinds\<rparr>) = canonical_policy p"
    unfolding canonical_policy_def
    using sort_key_unique [OF assms(1, 4, 5)] sort_key_unique [OF assms(2, 6, 7)] sort_key_unique [OF assms(3, 8, 9)] by simp
  then show ?thesis unfolding validate_policy_def by simp
qed

text \<open>
  What a validated policy promises. \<open>q\<close> is the canonical form of \<open>p\<close> when it has the same header and the same
  entries, listed in the order of their keys.
\<close>

definition same_entries :: "('a \<Rightarrow> 'k::linorder) \<Rightarrow> 'a list \<Rightarrow> 'a list \<Rightarrow> bool" where
  "same_entries key xs ys \<longleftrightarrow> set ys = set xs \<and> length ys = length xs \<and> sorted (map key ys)"

definition canonical_form :: "admin_attestation_policy \<Rightarrow> admin_attestation_policy \<Rightarrow> bool" where
  "canonical_form p q \<longleftrightarrow>
     same_entries pin_id (pol_origin_pins p) (pol_origin_pins q) \<and> same_entries td_id (pol_trust_data p) (pol_trust_data q) \<and>
     same_entries qk_kind (pol_quote_kinds p) (pol_quote_kinds q) \<and>
     q\<lparr>pol_origin_pins := [], pol_trust_data := [], pol_quote_kinds := []\<rparr> =
       p\<lparr>pol_origin_pins := [], pol_trust_data := [], pol_quote_kinds := []\<rparr>"

definition validated_for :: "policy_env \<Rightarrow> admin_attestation_policy \<Rightarrow> validated_policy \<Rightarrow> bool" where
  "validated_for env p v \<longleftrightarrow>
     canonical_form p (vp_policy v) \<and> pe_to_vec env (vp_policy v) = Inr (vp_canonical_json v) \<and>
     vp_digest v = pe_hex_encode env (pe_sha256 env (vp_canonical_json v)) \<and>
     (\<forall>i pin. origin_pin v i = Some pin \<longleftrightarrow> pin \<in> set (pol_origin_pins p) \<and> pin_id pin = i) \<and>
     (\<forall>i td. trust_data_of v i = Some td \<longleftrightarrow> td \<in> set (pol_trust_data p) \<and> td_id td = i) \<and>
     (\<forall>kind kp. quote_kind_of v kind = Some kp \<longleftrightarrow> kp \<in> set (pol_quote_kinds p) \<and> qk_kind kp = kind)"

lemma same_entries_sort: "same_entries key xs (sort_key key xs)"
  by (simp add: same_entries_def)

lemma same_entries_unique: "distinct (map key xs) \<Longrightarrow> same_entries key xs ys \<Longrightarrow> ys = sort_key key xs"
  using sort_key_unique [of key xs ys] sort_key_id_if_sorted [of key ys] by (simp add: same_entries_def)

lemma canonical_form_iff:
  assumes "policy_wf env p"
  shows "canonical_form p q \<longleftrightarrow> q = canonical_policy p"
proof
  assume "canonical_form p q"
  then show "q = canonical_policy p"
    using assms same_entries_unique [of pin_id "pol_origin_pins p" "pol_origin_pins q"]
      same_entries_unique [of td_id "pol_trust_data p" "pol_trust_data q"]
      same_entries_unique [of qk_kind "pol_quote_kinds p" "pol_quote_kinds q"]
    by (cases p; cases q) (auto simp: canonical_form_def canonical_policy_def policy_wf_def)
qed (simp add: canonical_form_def canonical_policy_def same_entries_sort)

lemma validated_for_iff:
  assumes "policy_wf env p" "pe_to_vec env (canonical_policy p) = Inr bytes"
  shows "validated_for env p (validated env p bytes)"
  using assms canonical_form_iff [OF assms(1)] keyed_get_iff [of pin_id "pol_origin_pins (canonical_policy p)"]
    keyed_get_iff [of td_id "pol_trust_data (canonical_policy p)"] keyed_get_iff [of qk_kind "pol_quote_kinds (canonical_policy p)"]
  by (simp add: validated_for_def validated_def origin_pin_def trust_data_of_def quote_kind_of_def policy_wf_def)

section \<open>Properties\<close>

text \<open>
  C5. An administrator policy is accepted exactly when it is valid and its canonical form can be serialised:
  its header is consistent, every pin, trust datum and quote kind is well formed and listed once, every kind
  has an entry, an enabled kind has an anchor, its measurements and, in the third tier, its platforms and
  exact layers, verifiers are pinned in complete pairs, and nothing is listed that nothing refers to. The
  result holds the policy with its entries in the order of their keys, the digest of the serialised text,
  and indexes that find exactly the entries of the policy. No check panics.
\<close>

theorem policy_validation_exact:
  "case validate_policy env p of
     Inr v \<Rightarrow> policy_wf env p \<and> validated_for env p v
   | Inl e \<Rightarrow> e \<noteq> PolicyPanic \<and> \<not> (policy_wf env p \<and> (\<exists>q bytes. canonical_form p q \<and> pe_to_vec env q = Inr bytes))"
proof (cases "validate_policy env p")
  case (Inl e)
  then show ?thesis using validate_policy_Inr [of env p] validate_policy_no_panic [of env p] canonical_form_iff [of env p] by auto
next
  case (Inr v)
  then have "policy_wf env p" "validated_for env p v" using validate_policy_Inr [of env p v] validated_for_iff [of env p] by auto
  then show ?thesis using Inr by simp
qed

end
