(* ===== verification/Attestation_Chain.thy ===== *)
theory Attestation_Chain
  imports Attestation_Policy
begin

text \<open>
  What the chain of policies in \<open>mayhem-attestation/src/policy.rs\<close> keeps: consecutive records linked by
  digest, epochs that do not go back, approvals of enclaves that every policy in force agrees with; and
  what is selected from it at a ledger epoch.
\<close>

section \<open>Approvals of enclaves\<close>

text \<open>An approval agrees with a policy that enables its kind.\<close>

definition reference_ok :: "validated_policy \<Rightarrow> attestation_quote_kind_policy \<Rightarrow> string \<Rightarrow> bool" where
  "reference_ok v kp i \<longleftrightarrow>
     (\<exists>td. trust_data_of v i = Some td \<and> td_kind td = Measurement) \<and>
     i \<in> set (qk_required_trust_data kp) \<and> i \<in> set (qk_measurement_trust_data kp)"

definition approval_ok :: "validated_policy \<Rightarrow> attestation_quote_kind_policy \<Rightarrow> admin_enclave_attestation_binding \<Rightarrow> bool" where
  "approval_ok v kp b \<longleftrightarrow>
     platform_allowed (eb_platform b) (qk_platforms kp) \<and>
     map fst (eb_measurement_trust_data b) = qk_required_measurement_layers kp \<and>
     (\<forall>i \<in> set (map snd (eb_measurement_trust_data b)). reference_ok v kp i)"

definition binding_ok :: "validated_policy list \<Rightarrow> admin_enclave_attestation_binding \<Rightarrow> bool" where
  "binding_ok policies b \<longleftrightarrow>
     valid_sha256 (eb_enclave_id b) \<and> (\<forall>platform. eb_platform b = Some platform \<longrightarrow> valid_identifier platform) \<and>
     distinct (map snd (eb_measurement_trust_data b)) \<and>
     (\<exists>v \<in> set policies. kind_enabled (eb_kind b) v) \<and>
     (\<forall>v \<in> set policies. \<forall>kp. quote_kind_of v (eb_kind b) = Some kp \<longrightarrow> qk_enabled kp \<longrightarrow> approval_ok v kp b)"

definition bindings_ok :: "validated_policy list \<Rightarrow> admin_enclave_attestation_binding list \<Rightarrow> bool" where
  "bindings_ok policies bs \<longleftrightarrow>
     (\<forall>b \<in> set bs. binding_ok policies b) \<and> sorted_wrt (<) (map binding_key_of bs) \<and>
     (\<forall>kind. (\<exists>v \<in> set policies. kind_enabled kind v) \<longrightarrow> (\<exists>b \<in> set bs. eb_kind b = kind))"

text \<open>A policy that passed validation has an entry for every kind.\<close>

definition all_kinds :: "validated_policy list \<Rightarrow> bool" where
  "all_kinds policies \<longleftrightarrow> (\<forall>v \<in> set policies. \<forall>kind. quote_kind_of v kind \<noteq> None)"

lemma unique_references_Inr:
  "check_unique_references b refs seen = Inr u \<longleftrightarrow> distinct refs \<and> set refs \<inter> set seen = {}"
  by (induction refs arbitrary: seen) auto

lemma binding_policy_Inr:
  assumes "quote_kind_of v (eb_kind b) = Some kp"
  shows "check_binding_policy b v = Inr enabled \<longleftrightarrow>
     enabled = qk_enabled kp \<and> (qk_enabled kp \<longrightarrow> approval_ok v kp b)"
proof -
  have "check_binding_reference v kp b i = Inr u \<longleftrightarrow> reference_ok v kp i" for i u
    by (auto simp: check_binding_reference_def reference_ok_def split: option.splits)
  then show ?thesis using assms by (auto simp: check_binding_policy_def approval_ok_def Let_def)
qed

lemma binding_policies_Inr:
  assumes "all_kinds policies"
  shows "rmap (check_binding_policy b) policies = Inr es \<longleftrightarrow>
     es = map (kind_enabled (eb_kind b)) policies \<and>
     (\<forall>v \<in> set policies. \<forall>kp. quote_kind_of v (eb_kind b) = Some kp \<longrightarrow> qk_enabled kp \<longrightarrow> approval_ok v kp b)"
  using assms
proof (induction policies arbitrary: es)
  case (Cons v policies)
  then obtain kp where kp: "quote_kind_of v (eb_kind b) = Some kp" unfolding all_kinds_def by fastforce
  then show ?case using Cons by (auto simp: binding_policy_Inr [OF kp] kind_enabled_def all_kinds_def)
qed auto

lemma check_binding_Inr:
  assumes "all_kinds policies"
  shows "check_binding policies prev b = Inr u \<longleftrightarrow>
     binding_ok policies b \<and> (case prev of None \<Rightarrow> True | Some previous \<Rightarrow> previous < binding_key_of b)"
proof -
  have "check_binding_key prev b = Inr u \<longleftrightarrow>
      valid_sha256 (eb_enclave_id b) \<and> (\<forall>platform. eb_platform b = Some platform \<longrightarrow> valid_identifier platform) \<and>
      (case prev of None \<Rightarrow> True | Some previous \<Rightarrow> previous < binding_key_of b)" for u
    by (cases prev) (auto simp: check_binding_key_def validate_identifier_def split: option.splits simp del: split_paired_All split_paired_Ex)
  then show ?thesis
    by (auto simp: check_binding_def binding_ok_def unique_references_Inr binding_policies_Inr [OF assms])
qed

lemma bindings_loop_Inr:
  assumes "all_kinds policies"
  shows "validate_bindings_loop policies prev bs m = Inr m' \<longleftrightarrow>
     (\<forall>b \<in> set bs. binding_ok policies b) \<and> sorted_wrt (<) (map binding_key_of bs) \<and>
     (case prev of None \<Rightarrow> True | Some previous \<Rightarrow> \<forall>b \<in> set bs. previous < binding_key_of b) \<and>
     m' = keyed binding_key_of bs m"
proof (induction bs arbitrary: prev m)
  case (Cons b bs)
  have "(\<forall>x \<in> set (b # bs). k < binding_key_of x) \<longleftrightarrow> k < binding_key_of b"
    if "\<forall>x \<in> set bs. binding_key_of b < binding_key_of x" for k
    using that by (auto intro: less_trans)
  then show ?case by (cases prev) (auto simp: check_binding_Inr [OF assms] Cons keyed_def)
qed (auto simp: keyed_def split: option.split)

lemma bt_insert_end: "(\<forall>x \<in> set m. fst x < k) \<Longrightarrow> bt_insert k v m = m @ [(k, v)]"
  by (induction m) auto

lemma keyed_sorted:
  "sorted_wrt (<) (map key xs) \<Longrightarrow> (\<forall>x \<in> set xs. \<forall>y \<in> set m. fst y < key x) \<Longrightarrow> keyed key xs m = m @ map (\<lambda>x. (key x, x)) xs"
  by (induction xs arbitrary: m) (simp_all add: keyed_def bt_insert_end)

lemma enclave_bindings_Inr:
  assumes "all_kinds policies"
  shows "validate_enclave_bindings policies bs = Inr m \<longleftrightarrow>
     bindings_ok policies bs \<and> m = map (\<lambda>b. (binding_key_of b, b)) bs"
proof -
  let ?m = "map (\<lambda>b. (binding_key_of b, b)) bs"
  have k: "list_ex (\<lambda>((_, candidate, _), _). candidate = kind) ?m \<longleftrightarrow> (\<exists>b \<in> set bs. eb_kind b = kind)" for kind
    by (auto simp: list_ex_iff binding_key_of_def)
  have "(\<forall>kind \<in> set all_quote_kinds.
      \<not> (list_ex (kind_enabled kind) policies \<and> \<not> list_ex (\<lambda>((_, candidate, _), _). candidate = kind) ?m)) \<longleftrightarrow>
      (\<forall>kind. (\<exists>v \<in> set policies. kind_enabled kind v) \<longrightarrow> (\<exists>b \<in> set bs. eb_kind b = kind))"
    unfolding k using mem_all_quote_kinds unfolding list_ex_iff by blast
  moreover have "sorted_wrt (<) (map binding_key_of bs) \<Longrightarrow> keyed binding_key_of bs [] = ?m"
    using keyed_sorted [of binding_key_of bs "[]"] by simp
  ultimately show ?thesis
    unfolding validate_enclave_bindings_def bindings_ok_def rbind_Inr_iff rfor_Inr_iff ensure_Inr_iff bindings_loop_Inr [OF assms]
    by auto
qed

section \<open>The invariant of the chain\<close>

definition sound_policy :: "policy_env \<Rightarrow> validated_policy \<Rightarrow> bool" where
  "sound_policy env v \<longleftrightarrow>
     (\<exists>p bytes. policy_wf env p \<and> pe_to_vec env (canonical_policy p) = Inr bytes \<and> v = validated env p bytes)"

definition follows :: "validated_policy \<Rightarrow> validated_policy \<Rightarrow> bool" where
  "follows v w \<longleftrightarrow>
     unat (pol_sequence (vp_policy w)) = Suc (unat (pol_sequence (vp_policy v))) \<and>
     pol_previous_policy_digest (vp_policy w) = Some (vp_digest v) \<and>
     pol_issued_epoch (vp_policy v) \<le> pol_issued_epoch (vp_policy w) \<and>
     pol_effective_epoch (vp_policy v) \<le> pol_effective_epoch (vp_policy w)"

definition linked :: "validated_policy list \<Rightarrow> bool" where
  "linked vs \<longleftrightarrow>
     (vs \<noteq> [] \<longrightarrow> pol_sequence (vp_policy (hd vs)) = 1 \<and> pol_previous_policy_digest (vp_policy (hd vs)) = None) \<and>
     (\<forall>i. Suc i < length vs \<longrightarrow> follows (vs ! i) (vs ! Suc i))"

definition chain_inv :: "policy_env \<Rightarrow> policy_chain \<Rightarrow> bool" where
  "chain_inv env c \<longleftrightarrow>
     (\<forall>v \<in> set (ch_policies c). sound_policy env v) \<and> linked (ch_policies c) \<and>
     (if ch_bindings_configured c
      then \<exists>bs. bindings_ok (ch_policies c) bs \<and> ch_enclave_bindings c = map (\<lambda>b. (binding_key_of b, b)) bs
      else ch_enclave_bindings c = [])"

lemma sound_all_kinds: "(\<forall>v \<in> set vs. sound_policy env v) \<Longrightarrow> all_kinds vs"
proof -
  assume s: "\<forall>v \<in> set vs. sound_policy env v"
  have "quote_kind_of v kind \<noteq> None" if "v \<in> set vs" for v kind
  proof -
    obtain p bytes where p: "policy_wf env p" "v = validated env p bytes" using s \<open>v \<in> set vs\<close> unfolding sound_policy_def by blast
    have "distinct (map qk_kind (pol_quote_kinds (canonical_policy p)))" "kind \<in> qk_kind ` set (pol_quote_kinds (canonical_policy p))"
      using p(1) by (simp_all add: policy_wf_def)
    then have "bt_get (keyed qk_kind (pol_quote_kinds (canonical_policy p)) []) kind \<noteq> None"
      using keyed_get_None [of qk_kind "pol_quote_kinds (canonical_policy p)" kind] by blast
    then show ?thesis using p(2) by (simp add: quote_kind_of_def validated_def)
  qed
  then show ?thesis by (simp add: all_kinds_def)
qed

lemma validate_sound: "validate_policy env p = Inr v \<Longrightarrow> sound_policy env v"
  unfolding validate_policy_Inr sound_policy_def by blast

lemma successor_Inr: "check_successor vs v = Inr u \<longleftrightarrow>
    (if vs = [] then pol_sequence (vp_policy v) = 1 \<and> pol_previous_policy_digest (vp_policy v) = None else follows (last vs) v)"
proof -
  have "Some a = checked_add b 1 \<longleftrightarrow> unat a = Suc (unat b)" for a b :: u64
    using checked_add_Some_iff [of b 1 a] by (metis One_nat_def Suc_eq_plus1 unat_1)
  then show ?thesis by (auto simp: check_successor_def follows_def Let_def not_less)
qed

lemma linked_snoc:
  "linked (vs @ [v]) \<longleftrightarrow> linked vs \<and>
     (if vs = [] then pol_sequence (vp_policy v) = 1 \<and> pol_previous_policy_digest (vp_policy v) = None else follows (last vs) v)"
proof (cases "vs = []")
  case False
  then obtain n where n: "length vs = Suc n" by (cases "length vs") auto
  have "(\<forall>i. Suc i < length (vs @ [v]) \<longrightarrow> follows ((vs @ [v]) ! i) ((vs @ [v]) ! Suc i)) \<longleftrightarrow>
      (\<forall>i. Suc i < length vs \<longrightarrow> follows (vs ! i) (vs ! Suc i)) \<and> follows (vs ! n) v"
    using n by (auto simp: nth_append less_Suc_eq)
  then show ?thesis using False n by (simp add: linked_def last_conv_nth)
qed (simp add: linked_def)

lemma append_policy_run:
  assumes "chain_inv env c" "sound_policy env v"
  shows "append_policy v c = (r, c') \<Longrightarrow> chain_inv env c' \<and> (case r of
      Inl e \<Rightarrow> c' = c \<and> \<not> (linked (ch_policies c @ [v]) \<and>
          (ch_bindings_configured c \<longrightarrow> bindings_ok (ch_policies c @ [v]) (map snd (ch_enclave_bindings c))))
    | Inr w \<Rightarrow> w = v \<and> c' = c\<lparr>ch_policies := ch_policies c @ [v]\<rparr> \<and> linked (ch_policies c @ [v]) \<and>
          (ch_bindings_configured c \<longrightarrow> bindings_ok (ch_policies c @ [v]) (map snd (ch_enclave_bindings c))))"
proof -
  have s: "\<forall>w \<in> set (ch_policies c @ [v]). sound_policy env w" using assms by (auto simp: chain_inv_def)
  have lk: "check_successor (ch_policies c) v = Inr () \<longleftrightarrow> linked (ch_policies c @ [v])"
    using assms(1) unfolding successor_Inr linked_snoc chain_inv_def by blast
  have eb: "(\<exists>m. validate_enclave_bindings (ch_policies c @ [v]) (map snd (ch_enclave_bindings c)) = Inr m) \<longleftrightarrow>
      bindings_ok (ch_policies c @ [v]) (map snd (ch_enclave_bindings c))"
    using enclave_bindings_Inr [OF sound_all_kinds [OF s]] by blast
  have snd: "ch_bindings_configured c \<Longrightarrow> ch_enclave_bindings c = map (\<lambda>b. (binding_key_of b, b)) (map snd (ch_enclave_bindings c))"
    using assms(1) by (auto simp: chain_inv_def comp_def)
  show "append_policy v c = (r, c') \<Longrightarrow> ?thesis"
    using assms(1) s lk eb snd
    by (cases "check_successor (ch_policies c) v"; cases "ch_bindings_configured c";
        cases "validate_enclave_bindings (ch_policies c @ [v]) (map snd (ch_enclave_bindings c))")
      (auto simp: append_policy_def st_read_def st_bind_def st_lift_def st_ok_def st_modify_def chain_inv_def)
qed

lemma configure_run:
  assumes "chain_inv env c"
  shows "configure_enclave_bindings bs c = (r, c') \<Longrightarrow> chain_inv env c' \<and> (case r of
      Inl e \<Rightarrow> c' = c
    | Inr u \<Rightarrow> \<not> ch_bindings_configured c \<and> bindings_ok (ch_policies c) bs \<and>
        c' = c\<lparr>ch_enclave_bindings := map (\<lambda>b. (binding_key_of b, b)) bs, ch_bindings_configured := True\<rparr>)"
proof -
  have s: "\<forall>v \<in> set (ch_policies c). sound_policy env v" using assms by (simp add: chain_inv_def)
  assume run: "configure_enclave_bindings bs c = (r, c')"
  show ?thesis
  proof (cases "ch_bindings_configured c \<or> ch_policies c = [] \<and> bs \<noteq> []")
    case True
    then have "\<exists>e. r = Inl e" "c' = c" using run by (auto simp: configure_enclave_bindings_def st_read_def st_err_def split: if_splits)
    then show ?thesis using assms by auto
  next
    case False
    then have run': "(case validate_enclave_bindings (ch_policies c) bs of Inl e \<Rightarrow> (Inl e, c)
        | Inr m \<Rightarrow> (Inr (), c\<lparr>ch_enclave_bindings := m, ch_bindings_configured := True\<rparr>)) = (r, c')"
      using run by (auto simp: configure_enclave_bindings_def st_read_def st_bind_def st_lift_def st_modify_def split: sum.splits)
    show ?thesis
    proof (cases "validate_enclave_bindings (ch_policies c) bs")
      case (Inl e)
      then show ?thesis using run' assms by auto
    next
      case (Inr m)
      then have "bindings_ok (ch_policies c) bs" "m = map (\<lambda>b. (binding_key_of b, b)) bs"
        using enclave_bindings_Inr [OF sound_all_kinds [OF s]] by blast+
      then show ?thesis using run' Inr assms False by (auto simp: chain_inv_def)
    qed
  qed
qed

section \<open>Runs of the chain\<close>

datatype chain_op = AppendRecord admin_attestation_policy | AppendJson "u8 list"
  | ConfigureBindings "admin_enclave_attestation_binding list"

definition chain_step :: "policy_env \<Rightarrow> chain_op \<Rightarrow> policy_chain \<Rightarrow> policy_chain" where
  "chain_step env op c = (case op of
      AppendRecord p \<Rightarrow> snd (st_bind (st_lift (validate_policy env p)) append_policy c)
    | AppendJson bytes \<Rightarrow> snd (append_json env bytes c)
    | ConfigureBindings bs \<Rightarrow> snd (configure_enclave_bindings bs c))"

text \<open>What one call does to a well-formed chain: nothing, one more policy, or the approvals once.\<close>

definition chain_change :: "policy_env \<Rightarrow> policy_chain \<Rightarrow> policy_chain \<Rightarrow> bool" where
  "chain_change env c c' \<longleftrightarrow> chain_inv env c' \<and>
     (c' = c \<or> (\<exists>v. c' = c\<lparr>ch_policies := ch_policies c @ [v]\<rparr>) \<or>
      \<not> ch_bindings_configured c \<and> ch_policies c' = ch_policies c)"

lemma append_change:
  assumes "chain_inv env c" "\<And>v. r = Inr v \<Longrightarrow> sound_policy env v"
  shows "chain_change env c (snd (st_bind (st_lift r) append_policy c))"
proof (cases r)
  case (Inr v)
  obtain x c' where run: "append_policy v c = (x, c')" by (cases "append_policy v c")
  from append_policy_run [OF assms(1) assms(2) [OF Inr] run] show ?thesis
    using Inr by (cases x) (auto simp: chain_change_def st_bind_def st_lift_def run)
qed (use assms(1) in \<open>simp add: chain_change_def st_bind_def st_lift_def\<close>)

lemma chain_step_change: "chain_inv env c \<Longrightarrow> chain_change env c (chain_step env op c)"
proof (cases op)
  case (AppendRecord p)
  assume "chain_inv env c"
  then show ?thesis unfolding AppendRecord chain_step_def by (auto intro: append_change validate_sound)
next
  case (AppendJson bytes)
  have "sound_policy env v" if "parse_policy_json env bytes = Inr v" for v
    using that validate_sound by (auto simp: parse_policy_json_def split: if_splits sum.splits)
  moreover assume "chain_inv env c"
  ultimately show ?thesis unfolding AppendJson chain_step_def append_json_def by (auto intro: append_change)
next
  case (ConfigureBindings bs)
  assume c: "chain_inv env c"
  obtain r c' where run: "configure_enclave_bindings bs c = (r, c')" by (cases "configure_enclave_bindings bs c")
  show ?thesis using configure_run [OF c run] unfolding ConfigureBindings chain_step_def
    by (cases r) (auto simp: chain_change_def run)
qed

interpretation chain: machine "chain_step env" "chain_inv env" for env
  by unfold_locales (use chain_step_change in \<open>auto simp: chain_change_def\<close>)

lemma chain_new_inv: "chain_inv env chain_new"
  by (simp add: chain_inv_def chain_new_def linked_def)

lemma chain_extends:
  assumes "chain_inv env c"
  shows "(\<exists>vs. ch_policies (fold (chain_step env) ops c) = ch_policies c @ vs) \<and>
     (ch_bindings_configured c \<longrightarrow> ch_bindings_configured (fold (chain_step env) ops c) \<and>
        ch_enclave_bindings (fold (chain_step env) ops c) = ch_enclave_bindings c)"
  using assms
proof (induction ops arbitrary: c)
  case (Cons op ops)
  let ?c = "chain_step env op c"
  have ch: "chain_change env c ?c" using chain_step_change [OF Cons.prems] .
  then have "(\<exists>vs. ch_policies ?c = ch_policies c @ vs) \<and>
      (ch_bindings_configured c \<longrightarrow> ch_bindings_configured ?c \<and> ch_enclave_bindings ?c = ch_enclave_bindings c)"
    unfolding chain_change_def by (auto simp: append_eq_conv_conj)
  then show ?case using Cons.IH [of ?c] ch unfolding chain_change_def by fastforce
qed simp

lemma linked_sequences: "linked vs \<Longrightarrow> map (\<lambda>v. unat (pol_sequence (vp_policy v))) vs = [1..<Suc (length vs)]"
proof (induction vs rule: rev_induct)
  case (snoc v vs)
  then have IH: "map (\<lambda>v. unat (pol_sequence (vp_policy v))) vs = [1..<Suc (length vs)]" by (simp add: linked_snoc)
  have "unat (pol_sequence (vp_policy v)) = Suc (length vs)"
  proof (cases "vs = []")
    case False
    have "unat (pol_sequence (vp_policy (last vs))) = last (map (\<lambda>v. unat (pol_sequence (vp_policy v))) vs)"
      using False by (simp add: last_map)
    also have "\<dots> = length vs" unfolding IH using False by (simp add: Suc_le_eq)
    finally show ?thesis using snoc.prems False by (simp add: linked_snoc follows_def)
  qed (use snoc.prems in \<open>simp add: linked_def\<close>)
  then show ?case using IH by simp
qed simp

lemma linked_sorted:
  assumes "linked vs"
  shows "sorted (map (\<lambda>v. pol_effective_epoch (vp_policy v)) vs)" "sorted (map (\<lambda>v. pol_issued_epoch (vp_policy v)) vs)"
  using assms unfolding sorted_iff_nth_Suc linked_def follows_def by simp_all

section \<open>Selection at an epoch\<close>

definition effective_by :: "u64 \<Rightarrow> validated_policy \<Rightarrow> bool" where
  "effective_by epoch v \<longleftrightarrow> pol_effective_epoch (vp_policy v) \<le> epoch"

lemma sorted_prefix:
  assumes "sorted (map f vs)"
  shows "\<exists>n \<le> length vs. \<forall>i < length vs. f (vs ! i) \<le> e \<longleftrightarrow> i < n"
  using assms
proof (induction vs)
  case (Cons v vs)
  then obtain n where n: "n \<le> length vs" "\<forall>i < length vs. f (vs ! i) \<le> e \<longleftrightarrow> i < n" by auto
  show ?case
  proof (cases "f v \<le> e")
    case True
    then show ?thesis using n by (intro exI [of _ "Suc n"]) (auto simp: nth_Cons less_Suc_eq_0_disj split: nat.split)
  next
    case False
    then have "\<not> f w \<le> e" if "w \<in> set vs" for w using that Cons.prems by force
    then show ?thesis using False by (intro exI [of _ 0]) (auto simp: nth_Cons split: nat.split)
  qed
qed simp

lemma rposition_prefix:
  "n \<le> length xs \<Longrightarrow> (\<forall>i < length xs. P (xs ! i) \<longleftrightarrow> i < n) \<Longrightarrow> rposition P xs = (if n = 0 then None else Some (n - 1))"
proof (induction xs arbitrary: n)
  case (Cons x xs)
  have "\<forall>i < length xs. P (xs ! i) \<longleftrightarrow> i < n - 1" using Cons.prems(2) by (metis Suc_less_eq length_Cons less_diff_conv nth_Cons_Suc Suc_eq_plus1)
  moreover have "P x \<longleftrightarrow> 0 < n" using Cons.prems(2) by auto
  ultimately show ?case using Cons.IH [of "n - 1"] Cons.prems(1) by (auto split: option.split)
qed simp

lemma find_rev_rposition: "find P (rev xs) = map_option (\<lambda>i. xs ! i) (rposition P xs)"
proof (induction xs)
  case (Cons x xs)
  have "find P (ys @ [x]) = (case find P ys of None \<Rightarrow> if P x then Some x else None | Some y \<Rightarrow> Some y)" for ys
    by (induction ys) auto
  then show ?case using Cons by (auto split: option.split)
qed simp

text \<open>The policies in force at an epoch are a prefix of the chain, and the active one is the last of them.\<close>

lemma in_force_prefix:
  assumes "chain_inv env c"
  obtains n where "n \<le> length (ch_policies c)" "\<forall>i < length (ch_policies c). effective_by e (ch_policies c ! i) \<longleftrightarrow> i < n"
    "rposition (effective_by e) (ch_policies c) = (if n = 0 then None else Some (n - 1))"
    "active_at c e = (if n = 0 then None else Some (ch_policies c ! (n - 1)))"
proof -
  have "sorted (map (\<lambda>v. pol_effective_epoch (vp_policy v)) (ch_policies c))"
    using assms linked_sorted(1) by (simp add: chain_inv_def)
  from sorted_prefix [OF this, of e] obtain n
    where n: "n \<le> length (ch_policies c)" "\<forall>i < length (ch_policies c). effective_by e (ch_policies c ! i) \<longleftrightarrow> i < n"
    unfolding effective_by_def by blast
  moreover have rp: "rposition (effective_by e) (ch_policies c) = (if n = 0 then None else Some (n - 1))"
    using rposition_prefix [OF n] .
  moreover have "active_at c e = map_option (\<lambda>i. ch_policies c ! i) (rposition (effective_by e) (ch_policies c))"
    unfolding active_at_def find_rev_rposition effective_by_def ..
  then have "active_at c e = (if n = 0 then None else Some (ch_policies c ! (n - 1)))" using rp by simp
  ultimately show thesis using that by blast
qed

lemma sequence_at: "chain_inv env c \<Longrightarrow> i < length (ch_policies c) \<Longrightarrow> unat (pol_sequence (vp_policy (ch_policies c ! i))) = Suc i"
proof -
  assume "chain_inv env c" and i: "i < length (ch_policies c)"
  then have "map (\<lambda>v. unat (pol_sequence (vp_policy v))) (ch_policies c) ! i = [1..<Suc (length (ch_policies c))] ! i"
    using linked_sequences by (simp add: chain_inv_def del: upt_Suc)
  then show ?thesis using i by (simp del: upt_Suc)
qed

lemma active_at_in: "active_at c e = Some v \<Longrightarrow> v \<in> set (ch_policies c) \<and> effective_by e v"
  by (auto simp: active_at_def effective_by_def find_Some_iff) (metis length_rev nth_mem set_rev)

lemma set_fold_insort: "set (fold insort_insert xs ys) = set xs \<union> set ys"
  by (induction xs arbitrary: ys) (auto simp: set_insort_insert)

lemma fold_disabled:
  "set (fold (\<lambda>v disabled. if pol_issued_epoch (vp_policy v) \<le> e then fold insort_insert (pol_emergency_disabled_quote_kinds (vp_policy v)) disabled
       else disabled) vs ds) =
     set ds \<union> (\<Union>v \<in> {v \<in> set vs. pol_issued_epoch (vp_policy v) \<le> e}. set (pol_emergency_disabled_quote_kinds (vp_policy v)))"
  by (induction vs arbitrary: ds) (auto simp: set_fold_insort)

text \<open>A kind is disabled when the active policy or a later one that was already issued says so.\<close>

lemma sound_issued: "sound_policy env v \<Longrightarrow> effective_by e v \<Longrightarrow> pol_issued_epoch (vp_policy v) \<le> e"
  by (auto simp: sound_policy_def validated_def policy_wf_def header_wf_def effective_by_def canonical_policy_def)

lemma bex_nth: "(\<exists>x \<in> set xs. P x) \<longleftrightarrow> (\<exists>i < length xs. P (xs ! i))"
  by (metis in_set_conv_nth)

lemma bex_drop: "(\<exists>x \<in> set (drop n xs). P x) \<longleftrightarrow> (\<exists>i < length xs. n \<le> i \<and> P (xs ! i))"
proof
  assume "\<exists>x \<in> set (drop n xs). P x"
  then obtain i where "i < length xs - n" "P (xs ! (n + i))" by (auto simp: in_set_conv_nth)
  then show "\<exists>i < length xs. n \<le> i \<and> P (xs ! i)" by (intro exI [of _ "n + i"]) auto
next
  assume "\<exists>i < length xs. n \<le> i \<and> P (xs ! i)"
  then obtain i where i: "i < length xs" "n \<le> i" "P (xs ! i)" by blast
  then have "drop n xs ! (i - n) = xs ! i" "i - n < length (drop n xs)" by auto
  then show "\<exists>x \<in> set (drop n xs). P x" using i(3) nth_mem by metis
qed

lemma at_or_after:
  fixes n len :: nat
  assumes "0 < n" "n \<le> len" "I (n - 1)"
  shows "D (n - 1) \<or> (\<exists>i < len. n \<le> i \<and> I i \<and> D i) \<longleftrightarrow> (\<exists>i < len. n - 1 \<le> i \<and> I i \<and> D i)"
proof
  assume "D (n - 1) \<or> (\<exists>i < len. n \<le> i \<and> I i \<and> D i)"
  then show "\<exists>i < len. n - 1 \<le> i \<and> I i \<and> D i"
  proof
    assume "D (n - 1)"
    then show ?thesis using assms by (intro exI [of _ "n - 1"]) simp
  qed (meson diff_le_self le_trans)
next
  assume "\<exists>i < len. n - 1 \<le> i \<and> I i \<and> D i"
  then obtain i where i: "i < len" "n - 1 \<le> i" "I i" "D i" by blast
  then show "D (n - 1) \<or> (\<exists>i < len. n \<le> i \<and> I i \<and> D i)" using assms(1) by (cases "i = n - 1") auto
qed

lemma emergency_disabled_iff:
  assumes "chain_inv env c"
  shows "kind \<in> set (emergency_disabled_at c e) \<longleftrightarrow>
     (\<exists>v \<in> set (ch_policies c). pol_issued_epoch (vp_policy v) \<le> e \<and> kind \<in> set (pol_emergency_disabled_quote_kinds (vp_policy v)) \<and>
        (case active_at c e of None \<Rightarrow> True | Some a \<Rightarrow> pol_sequence (vp_policy a) \<le> pol_sequence (vp_policy v)))"
proof -
  let ?vs = "ch_policies c"
  obtain n where n: "n \<le> length ?vs" "\<forall>i < length ?vs. effective_by e (?vs ! i) \<longleftrightarrow> i < n"
    "rposition (effective_by e) ?vs = (if n = 0 then None else Some (n - 1))"
    "active_at c e = (if n = 0 then None else Some (?vs ! (n - 1)))" using in_force_prefix [OF assms] .
  let ?dis = "\<lambda>v. kind \<in> set (pol_emergency_disabled_quote_kinds (vp_policy v))"
  have issued: "pol_issued_epoch (vp_policy (?vs ! (n - 1))) \<le> e" if "n \<noteq> 0"
    using that n(1, 2) assms by (intro sound_issued [of env]) (auto simp: chain_inv_def)
  have seq: "pol_sequence (vp_policy (?vs ! (n - 1))) \<le> pol_sequence (vp_policy (?vs ! i)) \<longleftrightarrow> n - 1 \<le> i" if "i < length ?vs" "n \<noteq> 0" for i
  proof -
    have "n - 1 < length ?vs" using that n(1) by simp
    from sequence_at [OF assms this] sequence_at [OF assms that(1)] show ?thesis using that(2) by (simp add: word_le_nat_alt le_diff_conv)
  qed
  have "kind \<in> set (emergency_disabled_at c e) \<longleftrightarrow>
      (n \<noteq> 0 \<and> ?dis (?vs ! (n - 1))) \<or> (\<exists>v \<in> set (drop n ?vs). pol_issued_epoch (vp_policy v) \<le> e \<and> ?dis v)"
    using n(3) by (cases "n = 0") (auto simp: emergency_disabled_at_def Let_def fold_disabled effective_by_def [abs_def])
  also have "\<dots> \<longleftrightarrow> (\<exists>i < length ?vs. (n \<noteq> 0 \<longrightarrow> n - 1 \<le> i) \<and> pol_issued_epoch (vp_policy (?vs ! i)) \<le> e \<and> ?dis (?vs ! i))"
  proof (cases "n = 0")
    case False
    then have "0 < n" by simp
    from at_or_after [OF this n(1), of "\<lambda>i. pol_issued_epoch (vp_policy (?vs ! i)) \<le> e" "\<lambda>i. ?dis (?vs ! i)", OF issued [OF False]] False
    show ?thesis unfolding bex_drop by simp
  qed (simp add: bex_nth)
  also have "\<dots> \<longleftrightarrow> (\<exists>i < length ?vs. pol_issued_epoch (vp_policy (?vs ! i)) \<le> e \<and> ?dis (?vs ! i) \<and>
      (case active_at c e of None \<Rightarrow> True | Some a \<Rightarrow> pol_sequence (vp_policy a) \<le> pol_sequence (vp_policy (?vs ! i))))"
    using seq by (cases "n = 0") (auto simp: n(4) cong: conj_cong)
  also have "\<dots> \<longleftrightarrow> (\<exists>v \<in> set ?vs. pol_issued_epoch (vp_policy v) \<le> e \<and> ?dis v \<and>
      (case active_at c e of None \<Rightarrow> True | Some a \<Rightarrow> pol_sequence (vp_policy a) \<le> pol_sequence (vp_policy v)))"
    unfolding bex_nth ..
  finally show ?thesis .
qed

text \<open>The next policy to become effective is the one with the least effective epoch after the current one.\<close>

lemma next_effective_least:
  assumes "chain_inv env c"
  shows "next_effective_after c e = Some x \<longleftrightarrow>
     x \<in> (\<lambda>v. pol_effective_epoch (vp_policy v)) ` set (ch_policies c) \<and> e < x \<and>
     (\<forall>v \<in> set (ch_policies c). e < pol_effective_epoch (vp_policy v) \<longrightarrow> x \<le> pol_effective_epoch (vp_policy v))"
proof -
  have "sorted xs \<Longrightarrow> find (\<lambda>y. e < y) xs = Some x \<longleftrightarrow> x \<in> set xs \<and> e < x \<and> (\<forall>y \<in> set xs. e < y \<longrightarrow> x \<le> y)" for xs
    by (induction xs) auto
  moreover have "sorted (map (\<lambda>v. pol_effective_epoch (vp_policy v)) (ch_policies c))"
    using assms linked_sorted(1) by (simp add: chain_inv_def)
  ultimately show ?thesis unfolding next_effective_after_def by simp
qed

section \<open>Properties\<close>

text \<open>
  C7. The chain of policies is an append-only history: after any calls, accepted or refused, every record
  is a valid policy, the records are numbered from 1, each names the digest of the one before, issue and
  effect never go back in time, and configured approvals agree with every policy that enables their kind.
  Later calls only add records at the end, and approvals that were configured stay as they are.
\<close>

theorem policy_history:
  "let c = fold (chain_step env) ops chain_new; c' = fold (chain_step env) later c
   in chain_inv env c \<and> chain_inv env c' \<and>
      map (\<lambda>v. unat (pol_sequence (vp_policy v))) (ch_policies c) = [1..<Suc (length (ch_policies c))] \<and>
      sorted (map (\<lambda>v. pol_effective_epoch (vp_policy v)) (ch_policies c)) \<and>
      sorted (map (\<lambda>v. pol_issued_epoch (vp_policy v)) (ch_policies c)) \<and>
      take (length (ch_policies c)) (ch_policies c') = ch_policies c \<and>
      (if ch_bindings_configured c then ch_enclave_bindings c' = ch_enclave_bindings c else True)"
proof -
  let ?c = "fold (chain_step env) ops chain_new"
  have c: "chain_inv env ?c" by (rule chain.run_inv [OF chain_new_inv])
  then have "linked (ch_policies ?c)" by (simp add: chain_inv_def)
  then show ?thesis
    using c chain.run_inv [OF c, of later] chain_extends [OF c, of later] linked_sequences linked_sorted
    unfolding Let_def by auto
qed

end
