(* ===== verification/Attestation_Readiness.thy ===== *)
theory Attestation_Readiness
  imports Attestation_Chain
begin

text \<open>
  \<open>mayhem-attestation/src/collateral.rs\<close>, \<open>readiness.rs\<close> and \<open>binding.rs\<close>: the inventory of trust data, the
  readiness of every quote kind at a ledger epoch, the binding of a route to a policy, and the digest that
  evidence has to contain. \<open>None\<close> and \<open>ReadinessPanic\<close> stand for an \<open>expect\<close> that fails.
\<close>

section \<open>Collateral\<close>

datatype collateral_error =
  UnknownTrustData string
| EmptyCollateral string
| CollateralTooLarge string nat u64
| DigestMismatch string string string
| InvalidCollateralDigest
| CollateralPanic

record validated_collateral =
  vc_sha256 :: string
  vc_bytes :: "u8 list"
  vc_observed_epoch :: u64

record collateral_inventory =
  ci_by_digest :: "(string, validated_collateral) btree"

definition inventory_new :: collateral_inventory where "inventory_new = \<lparr>ci_by_digest = []\<rparr>"

definition validate_collateral_bytes ::
  "policy_env \<Rightarrow> attestation_trust_data_ref \<Rightarrow> u8 list \<Rightarrow> collateral_error + unit" where
  "validate_collateral_bytes env reference bytes =
     (if bytes = [] then Inl (EmptyCollateral (td_id reference))
      else if (of_nat (length bytes) :: u64) > td_max_bytes reference
      then Inl (CollateralTooLarge (td_id reference) (length bytes) (td_max_bytes reference))
      else
        let actual_bytes = pe_sha256 env bytes in
        rbind (ok_or (pe_hex_decode env (td_sha256 reference)) InvalidCollateralDigest) (\<lambda>expected_bytes.
        ensure (\<not> (length expected_bytes \<noteq> length actual_bytes \<or> actual_bytes \<noteq> expected_bytes))
          (DigestMismatch (td_id reference) (td_sha256 reference) (pe_hex_encode env actual_bytes))))"

definition insert_reference ::
  "policy_env \<Rightarrow> attestation_trust_data_ref \<Rightarrow> u8 list \<Rightarrow> u64 \<Rightarrow>
     (collateral_inventory, collateral_error, validated_collateral) st_result" where
  "insert_reference env reference bytes observed_epoch =
     st_bind (st_lift (validate_collateral_bytes env reference bytes)) (\<lambda>_.
     let digest = td_sha256 reference in
     st_bind (st_modify (\<lambda>inventory.
         inventory\<lparr>ci_by_digest :=
           (case bt_get (ci_by_digest inventory) digest of
              Some existing \<Rightarrow>
                bt_insert digest (existing\<lparr>vc_observed_epoch := min (vc_observed_epoch existing) observed_epoch\<rparr>) (ci_by_digest inventory)
            | None \<Rightarrow>
                bt_insert digest \<lparr>vc_sha256 = digest, vc_bytes = bytes, vc_observed_epoch = observed_epoch\<rparr> (ci_by_digest inventory))\<rparr>)) (\<lambda>_.
     st_read (\<lambda>inventory. st_lift (ok_or (bt_get (ci_by_digest inventory) digest) CollateralPanic))))"

definition inventory_insert ::
  "policy_env \<Rightarrow> validated_policy \<Rightarrow> string \<Rightarrow> u8 list \<Rightarrow> u64 \<Rightarrow>
     (collateral_inventory, collateral_error, validated_collateral) st_result" where
  "inventory_insert env policy trust_data_id bytes observed_epoch =
     st_bind (st_lift (ok_or (trust_data_of policy trust_data_id) (UnknownTrustData trust_data_id))) (\<lambda>reference.
     insert_reference env reference bytes observed_epoch)"

definition inventory_get :: "collateral_inventory \<Rightarrow> string \<Rightarrow> validated_collateral option" where
  "inventory_get inventory sha256 = bt_get (ci_by_digest inventory) sha256"

definition contains_reference :: "collateral_inventory \<Rightarrow> attestation_trust_data_ref \<Rightarrow> bool" where
  "contains_reference inventory reference \<longleftrightarrow> bt_get (ci_by_digest inventory) (td_sha256 reference) \<noteq> None"

definition contains_reference_at :: "collateral_inventory \<Rightarrow> attestation_trust_data_ref \<Rightarrow> u64 \<Rightarrow> bool" where
  "contains_reference_at inventory reference ledger_epoch \<longleftrightarrow>
     (case bt_get (ci_by_digest inventory) (td_sha256 reference) of
        Some collateral \<Rightarrow> vc_observed_epoch collateral \<le> ledger_epoch
      | None \<Rightarrow> False)"

text \<open>A relative path is its list of components.\<close>

definition collateral_cache_relative_path :: "string \<Rightarrow> collateral_error + string list" where
  "collateral_cache_relative_path sha256 =
     (if \<not> valid_sha256 sha256 then Inl InvalidCollateralDigest
      else Inr [''sha256'', take 2 sha256, sha256])"

section \<open>Readiness\<close>

record verifier_capabilities =
  vcap_version :: u32
  vcap_profiles :: "(attestation_verifier_profile, u32 list) btree"

definition with_evidence_schemas :: "u32 \<Rightarrow> (attestation_verifier_profile \<times> u32 list) list \<Rightarrow> verifier_capabilities" where
  "with_evidence_schemas version profiles =
     \<lparr>vcap_version = version, vcap_profiles = fold (\<lambda>(profile, schemas). bt_insert profile schemas) profiles []\<rparr>"

definition capabilities_new :: "u32 \<Rightarrow> attestation_verifier_profile list \<Rightarrow> verifier_capabilities" where
  "capabilities_new version profiles = with_evidence_schemas version (map (\<lambda>profile. (profile, [1])) profiles)"

definition supports :: "verifier_capabilities \<Rightarrow> attestation_verifier_profile \<Rightarrow> u32 \<Rightarrow> bool" where
  "supports capabilities profile schema_version \<longleftrightarrow>
     (case bt_get (vcap_profiles capabilities) profile of
        Some versions \<Rightarrow> schema_version \<in> set versions
      | None \<Rightarrow> False)"

datatype quote_kind_status =
  Ready
| NoActivePolicy "u64 option"
| PolicyExpired u64
| EmergencyDisabled
| KindDisabled
| VerifierTooOld u32 u32
| VerifierProfileUnavailable attestation_verifier_profile
| EvidenceSchemaUnavailable attestation_verifier_profile u32
| MissingCollateral "string list"
| CollateralNotYetValid "string list"
| CollateralExpired "string list"

record quote_kind_readiness =
  qr_kind :: hardware_quote_kind
  qr_status :: quote_kind_status

record attestation_readiness =
  ar_evaluated_epoch :: u64
  ar_policy_sequence :: "u64 option"
  ar_policy_digest :: "string option"
  ar_quote_kinds :: "(hardware_quote_kind, quote_kind_readiness) btree"
  ar_allowed_platforms :: "(hardware_quote_kind, string list) btree"
  ar_evidence_schema_versions :: "(hardware_quote_kind, u32) btree"
  ar_enclave_bindings :: "(binding_key, admin_enclave_attestation_binding) btree"

text \<open>The three sets of \<open>collateral_status\<close>: a datum is put into the first one whose condition it meets.\<close>

definition datum_missing :: "collateral_inventory \<Rightarrow> u64 \<Rightarrow> attestation_trust_data_ref \<Rightarrow> bool" where
  "datum_missing collateral epoch reference \<longleftrightarrow> \<not> contains_reference_at collateral reference epoch"

definition datum_not_yet_valid :: "u64 \<Rightarrow> attestation_trust_data_ref \<Rightarrow> bool" where
  "datum_not_yet_valid epoch reference \<longleftrightarrow>
     (case td_valid_from_epoch reference of Some valid_from \<Rightarrow> epoch < valid_from | None \<Rightarrow> False)"

definition datum_expired :: "u64 \<Rightarrow> attestation_trust_data_ref \<Rightarrow> bool" where
  "datum_expired epoch reference \<longleftrightarrow>
     (case td_valid_until_epoch reference of Some valid_until \<Rightarrow> epoch \<ge> valid_until | None \<Rightarrow> False)"

fun collateral_loop ::
  "validated_policy \<Rightarrow> collateral_inventory \<Rightarrow> u64 \<Rightarrow> string list \<Rightarrow> string list \<times> string list \<times> string list \<Rightarrow>
     (string list \<times> string list \<times> string list) option" where
  "collateral_loop policy collateral epoch [] sets = Some sets"
| "collateral_loop policy collateral epoch (i # ids) (missing, not_yet_valid, expired) =
     (case trust_data_of policy i of
        None \<Rightarrow> None
      | Some reference \<Rightarrow>
          collateral_loop policy collateral epoch ids
            (if datum_missing collateral epoch reference then (insort_insert i missing, not_yet_valid, expired)
             else if datum_not_yet_valid epoch reference then (missing, insort_insert i not_yet_valid, expired)
             else if datum_expired epoch reference then (missing, not_yet_valid, insort_insert i expired)
             else (missing, not_yet_valid, expired)))"

definition collateral_status ::
  "validated_policy \<Rightarrow> attestation_quote_kind_policy \<Rightarrow> collateral_inventory \<Rightarrow> u64 \<Rightarrow> quote_kind_status option" where
  "collateral_status policy kind_policy collateral epoch =
     (case collateral_loop policy collateral epoch (qk_required_trust_data kind_policy) ([], [], []) of
        None \<Rightarrow> None
      | Some (missing, not_yet_valid, expired) \<Rightarrow> Some (
          if missing \<noteq> [] then MissingCollateral missing
          else if not_yet_valid \<noteq> [] then CollateralNotYetValid not_yet_valid
          else if expired \<noteq> [] then CollateralExpired expired
          else Ready))"

definition kind_status ::
  "policy_chain \<Rightarrow> validated_policy \<Rightarrow> collateral_inventory \<Rightarrow> verifier_capabilities \<Rightarrow> u64 \<Rightarrow>
     hardware_quote_kind \<Rightarrow> attestation_quote_kind_policy \<Rightarrow> quote_kind_status option" where
  "kind_status chain policy collateral capabilities epoch kind kind_policy =
     (case (case pol_expires_epoch (vp_policy policy) of
              Some expires \<Rightarrow> if epoch \<ge> expires then Some expires else None | None \<Rightarrow> None) of
        Some expires_epoch \<Rightarrow> Some (PolicyExpired expires_epoch)
      | None \<Rightarrow>
          if kind \<in> set (emergency_disabled_at chain epoch) then Some EmergencyDisabled
          else if \<not> qk_enabled kind_policy then Some KindDisabled
          else if vcap_version capabilities < pol_min_verifier_version (vp_policy policy)
          then Some (VerifierTooOld (pol_min_verifier_version (vp_policy policy)) (vcap_version capabilities))
          else if bt_get (vcap_profiles capabilities) (qk_verifier_profile kind_policy) = None
          then Some (VerifierProfileUnavailable (qk_verifier_profile kind_policy))
          else if \<not> supports capabilities (qk_verifier_profile kind_policy) (qk_evidence_schema_version kind_policy)
          then Some (EvidenceSchemaUnavailable (qk_verifier_profile kind_policy) (qk_evidence_schema_version kind_policy))
          else collateral_status policy kind_policy collateral epoch)"

fun evaluate_kinds ::
  "policy_chain \<Rightarrow> validated_policy \<Rightarrow> collateral_inventory \<Rightarrow> verifier_capabilities \<Rightarrow> u64 \<Rightarrow>
     hardware_quote_kind list \<Rightarrow> attestation_readiness \<Rightarrow> attestation_readiness option" where
  "evaluate_kinds chain policy collateral capabilities epoch [] r = Some r"
| "evaluate_kinds chain policy collateral capabilities epoch (kind # kinds) r =
     Option.bind (quote_kind_of policy kind) (\<lambda>kind_policy.
     Option.bind (kind_status chain policy collateral capabilities epoch kind kind_policy) (\<lambda>status.
     evaluate_kinds chain policy collateral capabilities epoch kinds
       (r\<lparr>ar_quote_kinds := bt_insert kind \<lparr>qr_kind = kind, qr_status = status\<rparr> (ar_quote_kinds r),
          ar_allowed_platforms := bt_insert kind (qk_platforms kind_policy) (ar_allowed_platforms r),
          ar_evidence_schema_versions := bt_insert kind (qk_evidence_schema_version kind_policy) (ar_evidence_schema_versions r)\<rparr>)))"

definition evaluate ::
  "policy_chain \<Rightarrow> collateral_inventory \<Rightarrow> verifier_capabilities \<Rightarrow> u64 \<Rightarrow> attestation_readiness option" where
  "evaluate chain collateral capabilities epoch =
     (case active_at chain epoch of
        None \<Rightarrow>
          let next_effective_epoch = next_effective_after chain epoch in
          Some \<lparr>ar_evaluated_epoch = epoch, ar_policy_sequence = None, ar_policy_digest = None,
                ar_quote_kinds = fold (\<lambda>kind. bt_insert kind \<lparr>qr_kind = kind, qr_status = NoActivePolicy next_effective_epoch\<rparr>)
                  all_quote_kinds [],
                ar_allowed_platforms = [], ar_evidence_schema_versions = [], ar_enclave_bindings = []\<rparr>
      | Some policy \<Rightarrow>
          evaluate_kinds chain policy collateral capabilities epoch all_quote_kinds
            \<lparr>ar_evaluated_epoch = epoch, ar_policy_sequence = Some (pol_sequence (vp_policy policy)),
             ar_policy_digest = Some (vp_digest policy), ar_quote_kinds = [], ar_allowed_platforms = [],
             ar_evidence_schema_versions = [],
             ar_enclave_bindings = keyed binding_key_of (map snd (ch_enclave_bindings chain)) []\<rparr>)"

definition readiness_of :: "attestation_readiness \<Rightarrow> hardware_quote_kind \<Rightarrow> quote_kind_readiness option" where
  "readiness_of r kind = bt_get (ar_quote_kinds r) kind"

section \<open>Binding a route to a policy\<close>

datatype readiness_error =
  NoActivePolicyError
| QuoteKindNotReady hardware_quote_kind quote_kind_status
| PlatformRequired hardware_quote_kind
| PlatformNotAllowed hardware_quote_kind string
| UnexpectedPlatform hardware_quote_kind string
| UnknownEnclaveBinding string hardware_quote_kind "string option"
| InvalidRouteIdentity string
| PolicyBindingMismatch hardware_quote_kind
| ReadinessPanic

definition validate_route_identity :: "string \<Rightarrow> string \<Rightarrow> readiness_error + unit" where
  "validate_route_identity field value = ensure (valid_sha256 value) (InvalidRouteIdentity field)"

definition require_ready :: "attestation_readiness \<Rightarrow> hardware_quote_kind \<Rightarrow> readiness_error + unit" where
  "require_ready r kind =
     rbind (ok_or (readiness_of r kind) ReadinessPanic) (\<lambda>readiness.
     ensure (qr_status readiness = Ready) (QuoteKindNotReady kind (qr_status readiness)))"

definition allowed_for :: "attestation_readiness \<Rightarrow> hardware_quote_kind \<Rightarrow> string list" where
  "allowed_for r kind = (case bt_get (ar_allowed_platforms r) kind of Some allowed \<Rightarrow> allowed | None \<Rightarrow> [])"

definition choose_platform :: "hardware_quote_kind \<Rightarrow> string list \<Rightarrow> string option \<Rightarrow> readiness_error + string option" where
  "choose_platform kind allowed declared_platform =
     (case declared_platform of
        None \<Rightarrow> if allowed = [] then Inr None else Inl (PlatformRequired kind)
      | Some platform \<Rightarrow>
          if allowed = [] then Inl (UnexpectedPlatform kind platform)
          else if platform \<in> set allowed then Inr (Some platform)
          else Inl (PlatformNotAllowed kind platform))"

definition bind_route ::
  "attestation_readiness \<Rightarrow> string \<Rightarrow> string \<Rightarrow> hardware_quote_route_advertisement \<Rightarrow>
     readiness_error + hardware_quote_route_policy_binding" where
  "bind_route r enclave_id canonical_device_id route =
     rbind (validate_route_identity ''enclave_id'' enclave_id) (\<lambda>_.
     rbind (validate_route_identity ''device_id'' canonical_device_id) (\<lambda>_.
     rbind (require_ready r (ra_kind route)) (\<lambda>_.
     rbind (ok_or (ar_policy_sequence r) NoActivePolicyError) (\<lambda>policy_sequence.
     rbind (ok_or (ar_policy_digest r) NoActivePolicyError) (\<lambda>policy_digest.
     rbind (choose_platform (ra_kind route) (allowed_for r (ra_kind route)) (ra_declared_platform route)) (\<lambda>platform.
     if bt_get (ar_enclave_bindings r) (enclave_id, ra_kind route, platform) = None
     then Inl (UnknownEnclaveBinding enclave_id (ra_kind route) platform)
     else rbind (ok_or (bt_get (ar_evidence_schema_versions r) (ra_kind route)) NoActivePolicyError) (\<lambda>schema.
       Inr \<lparr>rb_enclave_id = enclave_id, rb_device_id = canonical_device_id, rb_kind = ra_kind route,
            rb_evidence_schema_version = schema, rb_policy_sequence = policy_sequence, rb_policy_digest = policy_digest,
            rb_platform = platform\<rparr>)))))))"

definition verify_binding :: "attestation_readiness \<Rightarrow> hardware_quote_route_policy_binding \<Rightarrow> readiness_error + unit" where
  "verify_binding r binding =
     rbind (validate_route_identity ''enclave_id'' (rb_enclave_id binding)) (\<lambda>_.
     rbind (validate_route_identity ''device_id'' (rb_device_id binding)) (\<lambda>_.
     rbind (require_ready r (rb_kind binding)) (\<lambda>_.
     rbind (ok_or (ar_policy_sequence r) NoActivePolicyError) (\<lambda>expected_sequence.
     rbind (ok_or (ar_policy_digest r) NoActivePolicyError) (\<lambda>expected_digest.
     rbind (ok_or (bt_get (ar_evidence_schema_versions r) (rb_kind binding)) NoActivePolicyError) (\<lambda>expected_schema.
     if rb_policy_sequence binding \<noteq> expected_sequence \<or> rb_policy_digest binding \<noteq> expected_digest \<or>
        rb_evidence_schema_version binding \<noteq> expected_schema
     then Inl (PolicyBindingMismatch (rb_kind binding))
     else if \<not> platform_allowed (rb_platform binding) (allowed_for r (rb_kind binding))
     then Inl (PolicyBindingMismatch (rb_kind binding))
     else ensure (bt_get (ar_enclave_bindings r) (rb_enclave_id binding, rb_kind binding, rb_platform binding) \<noteq> None)
       (UnknownEnclaveBinding (rb_enclave_id binding) (rb_kind binding) (rb_platform binding))))))))"

definition readiness_enclave_binding ::
  "attestation_readiness \<Rightarrow> hardware_quote_route_policy_binding \<Rightarrow> readiness_error + admin_enclave_attestation_binding" where
  "readiness_enclave_binding r binding =
     rbind (verify_binding r binding) (\<lambda>_.
     ok_or (bt_get (ar_enclave_bindings r) (rb_enclave_id binding, rb_kind binding, rb_platform binding))
       (UnknownEnclaveBinding (rb_enclave_id binding) (rb_kind binding) (rb_platform binding)))"

section \<open>When a kind is ready\<close>

definition datum_usable :: "validated_policy \<Rightarrow> collateral_inventory \<Rightarrow> u64 \<Rightarrow> string \<Rightarrow> bool" where
  "datum_usable policy collateral epoch i \<longleftrightarrow>
     (\<exists>td. trust_data_of policy i = Some td \<and> contains_reference_at collateral td epoch \<and>
        (\<forall>valid_from. td_valid_from_epoch td = Some valid_from \<longrightarrow> valid_from \<le> epoch) \<and>
        (\<forall>valid_until. td_valid_until_epoch td = Some valid_until \<longrightarrow> epoch < valid_until))"

definition kind_ready ::
  "policy_chain \<Rightarrow> collateral_inventory \<Rightarrow> verifier_capabilities \<Rightarrow> u64 \<Rightarrow> hardware_quote_kind \<Rightarrow> bool" where
  "kind_ready chain collateral capabilities epoch kind \<longleftrightarrow>
     (\<exists>a kp. active_at chain epoch = Some a \<and> quote_kind_of a kind = Some kp \<and> qk_enabled kp \<and>
        (\<forall>expires. pol_expires_epoch (vp_policy a) = Some expires \<longrightarrow> epoch < expires) \<and>
        (\<forall>v \<in> set (ch_policies chain).
           pol_issued_epoch (vp_policy v) \<le> epoch \<longrightarrow> pol_sequence (vp_policy a) \<le> pol_sequence (vp_policy v) \<longrightarrow>
           kind \<notin> set (pol_emergency_disabled_quote_kinds (vp_policy v))) \<and>
        pol_min_verifier_version (vp_policy a) \<le> vcap_version capabilities \<and>
        supports capabilities (qk_verifier_profile kp) (qk_evidence_schema_version kp) \<and>
        (\<forall>i \<in> set (qk_required_trust_data kp). datum_usable a collateral epoch i))"

lemma insort_insert_ne [simp]: "insort_insert x xs \<noteq> []"
  using set_insort_insert [of x xs] by force

lemma datum_usable_iff:
  "trust_data_of policy i = Some td \<Longrightarrow>
     datum_usable policy collateral epoch i \<longleftrightarrow>
       \<not> datum_missing collateral epoch td \<and> \<not> datum_not_yet_valid epoch td \<and> \<not> datum_expired epoch td"
  by (auto simp: datum_usable_def datum_missing_def datum_not_yet_valid_def datum_expired_def not_less not_le split: option.splits)

lemma collateral_loop_Some:
  assumes "\<forall>i \<in> set ids. trust_data_of policy i \<noteq> None"
  shows "\<exists>m n x. collateral_loop policy collateral epoch ids (m0, n0, x0) = Some (m, n, x) \<and>
     (m = [] \<and> n = [] \<and> x = [] \<longleftrightarrow> m0 = [] \<and> n0 = [] \<and> x0 = [] \<and> (\<forall>i \<in> set ids. datum_usable policy collateral epoch i))"
  using assms
proof (induction ids arbitrary: m0 n0 x0)
  case (Cons i ids)
  then obtain td where td: "trust_data_of policy i = Some td" by auto
  have ids: "\<forall>i \<in> set ids. trust_data_of policy i \<noteq> None" using Cons.prems by simp
  consider (m) "datum_missing collateral epoch td" | (n) "\<not> datum_missing collateral epoch td" "datum_not_yet_valid epoch td"
    | (x) "\<not> datum_missing collateral epoch td" "\<not> datum_not_yet_valid epoch td" "datum_expired epoch td"
    | (u) "\<not> datum_missing collateral epoch td" "\<not> datum_not_yet_valid epoch td" "\<not> datum_expired epoch td" by blast
  then show ?case
  proof cases
    case m
    then show ?thesis using Cons.IH [OF ids, of "insort_insert i m0" n0 x0] by (auto simp: td datum_usable_iff [OF td])
  next
    case n
    then show ?thesis using Cons.IH [OF ids, of m0 "insort_insert i n0" x0] by (auto simp: td datum_usable_iff [OF td])
  next
    case x
    then show ?thesis using Cons.IH [OF ids, of m0 n0 "insort_insert i x0"] by (auto simp: td datum_usable_iff [OF td])
  next
    case u
    then show ?thesis using Cons.IH [OF ids, of m0 n0 x0] by (auto simp: td datum_usable_iff [OF td])
  qed
qed auto

lemma collateral_status_Ready:
  assumes "\<forall>i \<in> set (qk_required_trust_data kp). trust_data_of policy i \<noteq> None"
  shows "\<exists>s. collateral_status policy kp collateral epoch = Some s \<and>
     (s = Ready \<longleftrightarrow> (\<forall>i \<in> set (qk_required_trust_data kp). datum_usable policy collateral epoch i))"
proof -
  obtain m n x where l: "collateral_loop policy collateral epoch (qk_required_trust_data kp) ([], [], []) = Some (m, n, x)"
    and e: "m = [] \<and> n = [] \<and> x = [] \<longleftrightarrow> (\<forall>i \<in> set (qk_required_trust_data kp). datum_usable policy collateral epoch i)"
    using collateral_loop_Some [OF assms, of collateral epoch "[]" "[]" "[]"] by auto
  show ?thesis unfolding collateral_status_def l e [symmetric] by auto
qed

lemma sound_required:
  assumes "sound_policy env v" "quote_kind_of v kind = Some kp"
  shows "qk_kind kp = kind \<and> profile_quote_kind (qk_verifier_profile kp) = kind \<and>
     (\<forall>i \<in> set (qk_required_trust_data kp). trust_data_of v i \<noteq> None)"
proof -
  obtain p bytes where p: "policy_wf env p" "v = validated env p bytes" using assms(1) unfolding sound_policy_def by blast
  have dk: "distinct (map qk_kind (pol_quote_kinds (canonical_policy p)))" and dt: "distinct (map td_id (pol_trust_data (canonical_policy p)))"
    using p(1) by (simp_all add: policy_wf_def)
  have "bt_get (keyed qk_kind (pol_quote_kinds (canonical_policy p)) []) kind = Some kp"
    using assms(2) p(2) by (simp add: quote_kind_of_def validated_def)
  then have kp: "kp \<in> set (pol_quote_kinds p)" "qk_kind kp = kind" using keyed_get_iff [OF dk] by auto
  then have wf: "qk_wf (pol_trust_data p) kp" using p(1) by (simp add: policy_wf_def)
  have "trust_data_of v i \<noteq> None" if "i \<in> set (qk_required_trust_data kp)" for i
  proof -
    have "i \<in> td_id ` set (pol_trust_data (canonical_policy p))" using wf that by (auto simp: qk_wf_def)
    then show ?thesis using keyed_get_None [OF dt, of i] p(2) by (simp add: trust_data_of_def validated_def)
  qed
  then show ?thesis using kp wf by (auto simp: qk_wf_def)
qed

lemma kind_status_Ready:
  assumes "chain_inv env chain" "active_at chain epoch = Some a" "quote_kind_of a kind = Some kp"
  shows "\<exists>s. kind_status chain a collateral capabilities epoch kind kp = Some s \<and>
     (s = Ready \<longleftrightarrow> kind_ready chain collateral capabilities epoch kind)"
proof -
  have "sound_policy env a" using active_at_in [OF assms(2)] assms(1) by (auto simp: chain_inv_def)
  then obtain s where s: "collateral_status a kp collateral epoch = Some s"
      "s = Ready \<longleftrightarrow> (\<forall>i \<in> set (qk_required_trust_data kp). datum_usable a collateral epoch i)"
    using collateral_status_Ready sound_required [OF _ assms(3)] by metis
  have em: "kind \<in> set (emergency_disabled_at chain epoch) \<longleftrightarrow>
      (\<exists>v \<in> set (ch_policies chain). pol_issued_epoch (vp_policy v) \<le> epoch \<and>
         kind \<in> set (pol_emergency_disabled_quote_kinds (vp_policy v)) \<and> pol_sequence (vp_policy a) \<le> pol_sequence (vp_policy v))"
    using emergency_disabled_iff [OF assms(1), of kind epoch] by (simp add: assms(2))
  have "supports capabilities (qk_verifier_profile kp) n \<Longrightarrow> bt_get (vcap_profiles capabilities) (qk_verifier_profile kp) \<noteq> None" for n
    by (auto simp: supports_def split: option.splits)
  note sup = this
  let ?x = "case pol_expires_epoch (vp_policy a) of Some expires \<Rightarrow> if epoch \<ge> expires then Some expires else None | None \<Rightarrow> None"
  have x: "(\<forall>expires. pol_expires_epoch (vp_policy a) = Some expires \<longrightarrow> epoch < expires) \<longleftrightarrow> ?x = None"
    by (auto simp: not_le split: option.splits)
  have em': "(\<forall>v \<in> set (ch_policies chain).
      pol_issued_epoch (vp_policy v) \<le> epoch \<longrightarrow> pol_sequence (vp_policy a) \<le> pol_sequence (vp_policy v) \<longrightarrow>
      kind \<notin> set (pol_emergency_disabled_quote_kinds (vp_policy v))) \<longleftrightarrow> kind \<notin> set (emergency_disabled_at chain epoch)"
    unfolding em by blast
  have ready: "kind_ready chain collateral capabilities epoch kind \<longleftrightarrow>
      qk_enabled kp \<and> ?x = None \<and> kind \<notin> set (emergency_disabled_at chain epoch) \<and>
      \<not> vcap_version capabilities < pol_min_verifier_version (vp_policy a) \<and>
      supports capabilities (qk_verifier_profile kp) (qk_evidence_schema_version kp) \<and> s = Ready"
    unfolding kind_ready_def assms(2) s(2) x [symmetric] em' [symmetric] not_less using assms(3) by auto
  show ?thesis
  proof (cases ?x)
    case None
    then show ?thesis unfolding ready kind_status_def using s(1) sup [of "qk_evidence_schema_version kp"] by auto
  qed (simp add: ready kind_status_def)
qed

lemma evaluate_kinds_Some:
  assumes "\<And>kind. \<exists>kp s. quote_kind_of policy kind = Some kp \<and> kind_status chain policy collateral capabilities epoch kind kp = Some s"
  shows "\<exists>r'. evaluate_kinds chain policy collateral capabilities epoch kinds r = Some r' \<and>
     ar_policy_sequence r' = ar_policy_sequence r \<and> ar_policy_digest r' = ar_policy_digest r \<and>
     ar_enclave_bindings r' = ar_enclave_bindings r \<and>
     (\<forall>kind kp s. quote_kind_of policy kind = Some kp \<longrightarrow> kind_status chain policy collateral capabilities epoch kind kp = Some s \<longrightarrow>
        bt_get (ar_quote_kinds r') kind = (if kind \<in> set kinds then Some \<lparr>qr_kind = kind, qr_status = s\<rparr> else bt_get (ar_quote_kinds r) kind) \<and>
        bt_get (ar_allowed_platforms r') kind = (if kind \<in> set kinds then Some (qk_platforms kp) else bt_get (ar_allowed_platforms r) kind) \<and>
        bt_get (ar_evidence_schema_versions r') kind =
          (if kind \<in> set kinds then Some (qk_evidence_schema_version kp) else bt_get (ar_evidence_schema_versions r) kind))"
proof (induction kinds arbitrary: r)
  case (Cons k kinds)
  obtain kp s where k: "quote_kind_of policy k = Some kp" "kind_status chain policy collateral capabilities epoch k kp = Some s"
    using assms [of k] by blast
  show ?case
    using Cons [of "r\<lparr>ar_quote_kinds := bt_insert k \<lparr>qr_kind = k, qr_status = s\<rparr> (ar_quote_kinds r),
          ar_allowed_platforms := bt_insert k (qk_platforms kp) (ar_allowed_platforms r),
          ar_evidence_schema_versions := bt_insert k (qk_evidence_schema_version kp) (ar_evidence_schema_versions r)\<rparr>"] k
    by (auto simp: btree_simps)
qed simp

text \<open>The evaluation of a chain that satisfies the invariant.\<close>

lemma evaluate_active:
  assumes "chain_inv env chain" "active_at chain epoch = Some a"
  shows "\<exists>r. evaluate chain collateral capabilities epoch = Some r \<and>
     ar_policy_sequence r = Some (pol_sequence (vp_policy a)) \<and> ar_policy_digest r = Some (vp_digest a) \<and>
     ar_enclave_bindings r = ch_enclave_bindings chain \<and>
     (\<forall>kind. \<exists>kp s. quote_kind_of a kind = Some kp \<and> readiness_of r kind = Some \<lparr>qr_kind = kind, qr_status = s\<rparr> \<and>
        (s = Ready \<longleftrightarrow> kind_ready chain collateral capabilities epoch kind) \<and>
        allowed_for r kind = qk_platforms kp \<and>
        bt_get (ar_evidence_schema_versions r) kind = Some (qk_evidence_schema_version kp))"
proof -
  have a: "a \<in> set (ch_policies chain)" using active_at_in [OF assms(2)] by simp
  have kinds: "\<exists>kp. quote_kind_of a kind = Some kp" for kind
    using a sound_all_kinds assms(1) unfolding chain_inv_def all_kinds_def by blast
  have st: "\<exists>kp s. quote_kind_of a kind = Some kp \<and> kind_status chain a collateral capabilities epoch kind kp = Some s \<and>
      (s = Ready \<longleftrightarrow> kind_ready chain collateral capabilities epoch kind)" for kind
    using kinds [of kind] kind_status_Ready [OF assms] by blast
  have same: "keyed binding_key_of (map snd (ch_enclave_bindings chain)) [] = ch_enclave_bindings chain"
  proof (cases "ch_bindings_configured chain")
    case True
    then obtain bs where bs: "bindings_ok (ch_policies chain) bs" "ch_enclave_bindings chain = map (\<lambda>b. (binding_key_of b, b)) bs"
      using assms(1) by (auto simp: chain_inv_def)
    then show ?thesis using keyed_sorted [of binding_key_of bs "[]"] by (simp add: bindings_ok_def comp_def)
  qed (use assms(1) in \<open>simp add: chain_inv_def keyed_def\<close>)
  have all: "kind \<in> set all_quote_kinds \<longleftrightarrow> True" for kind by simp
  let ?r = "\<lparr>ar_evaluated_epoch = epoch, ar_policy_sequence = Some (pol_sequence (vp_policy a)),
      ar_policy_digest = Some (vp_digest a), ar_quote_kinds = [], ar_allowed_platforms = [], ar_evidence_schema_versions = [],
      ar_enclave_bindings = ch_enclave_bindings chain\<rparr>"
  have ex: "\<And>kind. \<exists>kp s. quote_kind_of a kind = Some kp \<and> kind_status chain a collateral capabilities epoch kind kp = Some s"
    using st by blast
  from evaluate_kinds_Some [where r = ?r and kinds = all_quote_kinds, OF ex] obtain r' where
    r': "evaluate chain collateral capabilities epoch = Some r'" "ar_policy_sequence r' = Some (pol_sequence (vp_policy a))"
      "ar_policy_digest r' = Some (vp_digest a)" "ar_enclave_bindings r' = ch_enclave_bindings chain"
    and look: "\<And>kind kp s. quote_kind_of a kind = Some kp \<Longrightarrow> kind_status chain a collateral capabilities epoch kind kp = Some s \<Longrightarrow>
        bt_get (ar_quote_kinds r') kind = Some \<lparr>qr_kind = kind, qr_status = s\<rparr> \<and>
        bt_get (ar_allowed_platforms r') kind = Some (qk_platforms kp) \<and>
        bt_get (ar_evidence_schema_versions r') kind = Some (qk_evidence_schema_version kp)"
    unfolding evaluate_def assms(2) same all if_True by auto
  have "\<exists>kp s. quote_kind_of a kind = Some kp \<and> readiness_of r' kind = Some \<lparr>qr_kind = kind, qr_status = s\<rparr> \<and>
        (s = Ready \<longleftrightarrow> kind_ready chain collateral capabilities epoch kind) \<and>
        allowed_for r' kind = qk_platforms kp \<and>
        bt_get (ar_evidence_schema_versions r') kind = Some (qk_evidence_schema_version kp)" for kind
  proof -
    from st [of kind] obtain kp s where k: "quote_kind_of a kind = Some kp"
      "kind_status chain a collateral capabilities epoch kind kp = Some s"
      "s = Ready \<longleftrightarrow> kind_ready chain collateral capabilities epoch kind" by blast
    then show ?thesis using look [OF k(1, 2)] by (intro exI [of _ kp] exI [of _ s]) (simp add: readiness_of_def allowed_for_def)
  qed
  then show ?thesis using r' by blast
qed

lemma evaluate_inactive:
  assumes "active_at chain epoch = None"
  shows "\<exists>r. evaluate chain collateral capabilities epoch = Some r \<and> ar_policy_sequence r = None \<and>
     (\<forall>kind. \<exists>s. readiness_of r kind = Some \<lparr>qr_kind = kind, qr_status = s\<rparr> \<and> s \<noteq> Ready)"
proof -
  have "bt_get (fold (\<lambda>kind. bt_insert kind \<lparr>qr_kind = kind, qr_status = NoActivePolicy n\<rparr>) kinds m) kind =
      (if kind \<in> set kinds then Some \<lparr>qr_kind = kind, qr_status = NoActivePolicy n\<rparr> else bt_get m kind)" for kinds m n kind
    by (induction kinds arbitrary: m) (auto simp: btree_simps)
  then show ?thesis by (simp add: evaluate_def assms readiness_of_def Let_def)
qed

lemma choose_platform_Inr: "choose_platform kind allowed declared = Inr p \<longleftrightarrow> p = declared \<and> platform_allowed declared allowed"
  by (auto simp: choose_platform_def platform_allowed_def split: option.splits if_splits)

lemma require_ready_Inr: "require_ready r kind = Inr u \<longleftrightarrow> (\<exists>q. readiness_of r kind = Some q \<and> qr_status q = Ready)"
  by (auto simp: require_ready_def)

section \<open>The inventory holds what the digests name\<close>

definition collateral_ok :: "policy_env \<Rightarrow> string \<Rightarrow> validated_collateral \<Rightarrow> bool" where
  "collateral_ok env k vc \<longleftrightarrow>
     vc_sha256 vc = k \<and> vc_bytes vc \<noteq> [] \<and> pe_hex_decode env k = Some (pe_sha256 env (vc_bytes vc))"

definition inventory_ok :: "policy_env \<Rightarrow> collateral_inventory \<Rightarrow> bool" where
  "inventory_ok env inventory \<longleftrightarrow>
     bt_wf (ci_by_digest inventory) \<and> (\<forall>k vc. bt_get (ci_by_digest inventory) k = Some vc \<longrightarrow> collateral_ok env k vc)"

text \<open>Entries stay, with their bytes, and are only ever observed earlier.\<close>

definition inventory_le :: "collateral_inventory \<Rightarrow> collateral_inventory \<Rightarrow> bool" where
  "inventory_le a b \<longleftrightarrow>
     (\<forall>k vc. inventory_get a k = Some vc \<longrightarrow>
        (\<exists>vc'. inventory_get b k = Some vc' \<and> vc_bytes vc' = vc_bytes vc \<and> vc_observed_epoch vc' \<le> vc_observed_epoch vc))"

definition inventory_step ::
  "policy_env \<Rightarrow> attestation_trust_data_ref \<times> u8 list \<times> u64 \<Rightarrow> collateral_inventory \<Rightarrow> collateral_inventory" where
  "inventory_step env op inventory =
     (case op of (reference, bytes, epoch) \<Rightarrow> snd (insert_reference env reference bytes epoch inventory))"

lemma collateral_bytes_Inr:
  "validate_collateral_bytes env td bytes = Inr u \<Longrightarrow>
     bytes \<noteq> [] \<and> (of_nat (length bytes) :: u64) \<le> td_max_bytes td \<and> pe_hex_decode env (td_sha256 td) = Some (pe_sha256 env bytes)"
  by (auto simp: validate_collateral_bytes_def Let_def not_less split: if_splits)

lemma insert_reference_run:
  assumes "inventory_ok env inventory" "insert_reference env td bytes epoch inventory = (x, inventory')"
  shows "inventory_ok env inventory' \<and> inventory_le inventory inventory' \<and>
     (case x of Inl e \<Rightarrow> inventory' = inventory \<and> e \<noteq> CollateralPanic
      | Inr vc \<Rightarrow> inventory_get inventory' (td_sha256 td) = Some vc \<and> collateral_ok env (td_sha256 td) vc \<and> vc_observed_epoch vc \<le> epoch)"
proof (cases "validate_collateral_bytes env td bytes")
  case (Inl e)
  then have "x = Inl e" "inventory' = inventory" using assms(2) by (auto simp: insert_reference_def st_bind_def st_lift_def)
  moreover have "e \<noteq> CollateralPanic"
    using Inl by (auto simp: validate_collateral_bytes_def Let_def rbind_Inl_iff ok_or_def ensure_def split: if_splits option.splits)
  ultimately show ?thesis using assms(1) by (auto simp: inventory_le_def)
next
  case (Inr u)
  let ?d = "td_sha256 td" and ?m = "ci_by_digest inventory"
  have b: "bytes \<noteq> []" "pe_hex_decode env ?d = Some (pe_sha256 env bytes)" using collateral_bytes_Inr [OF Inr] by auto
  let ?vc = "case bt_get ?m ?d of
      Some existing \<Rightarrow> existing\<lparr>vc_observed_epoch := min (vc_observed_epoch existing) epoch\<rparr>
    | None \<Rightarrow> \<lparr>vc_sha256 = ?d, vc_bytes = bytes, vc_observed_epoch = epoch\<rparr>"
  have run: "x = Inr ?vc" "inventory' = inventory\<lparr>ci_by_digest := bt_insert ?d ?vc ?m\<rparr>"
    using assms(2) Inr
    by (auto simp: insert_reference_def st_bind_def st_lift_def st_modify_def st_read_def Let_def bt_get_insert split: option.splits)
  have vc: "collateral_ok env ?d ?vc" "vc_observed_epoch ?vc \<le> epoch"
    using assms(1) b by (auto simp: collateral_ok_def inventory_ok_def split: option.split)
  have get: "bt_get (ci_by_digest inventory') k = (if k = ?d then Some ?vc else bt_get ?m k)" for k
    using run(2) by (simp add: bt_get_insert)
  have "inventory_ok env inventory'" using assms(1) vc(1) run(2) unfolding inventory_ok_def get by auto
  moreover have "inventory_le inventory inventory'"
    unfolding inventory_le_def inventory_get_def get by auto
  ultimately show ?thesis using run(1) vc by (simp add: inventory_get_def get)
qed

lemma inventory_step_ok:
  "inventory_ok env inventory \<Longrightarrow> inventory_ok env (inventory_step env op inventory) \<and> inventory_le inventory (inventory_step env op inventory)"
proof (cases op)
  case (fields td bytes epoch)
  assume i: "inventory_ok env inventory"
  obtain x inventory' where run: "insert_reference env td bytes epoch inventory = (x, inventory')"
    by (cases "insert_reference env td bytes epoch inventory")
  show ?thesis using insert_reference_run [OF i run] by (simp add: inventory_step_def fields run)
qed

interpretation inventory: machine "inventory_step env" "inventory_ok env" for env
  by unfold_locales (use inventory_step_ok in blast)

lemma inventory_le_trans: "inventory_le a b \<Longrightarrow> inventory_le b c \<Longrightarrow> inventory_le a c"
proof (unfold inventory_le_def, intro allI impI)
  fix k vc
  assume ab: "\<forall>k vc. inventory_get a k = Some vc \<longrightarrow> (\<exists>vc'. inventory_get b k = Some vc' \<and> vc_bytes vc' = vc_bytes vc \<and>
      vc_observed_epoch vc' \<le> vc_observed_epoch vc)"
    and bc: "\<forall>k vc. inventory_get b k = Some vc \<longrightarrow> (\<exists>vc'. inventory_get c k = Some vc' \<and> vc_bytes vc' = vc_bytes vc \<and>
      vc_observed_epoch vc' \<le> vc_observed_epoch vc)"
    and "inventory_get a k = Some vc"
  then obtain vb where b: "inventory_get b k = Some vb" "vc_bytes vb = vc_bytes vc" "vc_observed_epoch vb \<le> vc_observed_epoch vc" by blast
  with bc obtain vd where "inventory_get c k = Some vd" "vc_bytes vd = vc_bytes vb" "vc_observed_epoch vd \<le> vc_observed_epoch vb" by blast
  with b show "\<exists>vc'. inventory_get c k = Some vc' \<and> vc_bytes vc' = vc_bytes vc \<and> vc_observed_epoch vc' \<le> vc_observed_epoch vc"
    by (intro exI [of _ vd]) simp
qed

lemma inventory_run_le: "inventory_ok env a \<Longrightarrow> inventory_le a (fold (inventory_step env) ops a)"
proof (induction ops arbitrary: a)
  case (Cons op ops)
  have s: "inventory_ok env (inventory_step env op a)" "inventory_le a (inventory_step env op a)"
    using inventory_step_ok [OF Cons.prems] by simp_all
  show ?case using inventory_le_trans [OF s(2) Cons.IH [OF s(1)]] by simp
qed (auto simp: inventory_le_def)

lemma inventory_new_ok: "inventory_ok env inventory_new"
  by (simp add: inventory_ok_def inventory_new_def)

section \<open>Evidence bindings\<close>

datatype evidence_binding_error =
  InvalidEvidenceDigest string
| InvalidIdentity string
| InvalidEvidenceSchema
| InvalidEvidencePolicySequence
| PolicyIdentityMismatch string

record evidence_binding =
  ev_kind :: hardware_quote_kind
  ev_evidence_schema_version :: u32
  ev_policy_sequence :: u64
  ev_policy_digest :: string
  ev_platform :: "string option"
  ev_nonce :: string
  ev_enclave_id :: string
  ev_device_id :: string
  ev_quote_binding :: string

definition EVIDENCE_BINDING_DOMAIN :: string where
  "EVIDENCE_BINDING_DOMAIN = ''mayhem-attestation-evidence-binding-v1''"

definition visible_identity :: "string \<Rightarrow> bool" where
  "visible_identity identity \<longleftrightarrow> identity \<noteq> [] \<and> length identity \<le> 512 \<and> list_all is_ascii_graphic identity"

definition evidence_validate :: "evidence_binding \<Rightarrow> evidence_binding_error + unit" where
  "evidence_validate b =
     (if ev_evidence_schema_version b = 0 then Inl InvalidEvidenceSchema
      else if ev_policy_sequence b = 0 then Inl InvalidEvidencePolicySequence
      else
        rbind (rfor (\<lambda>(name, digest). ensure (valid_sha256 digest) (InvalidEvidenceDigest name))
          [(''policy digest'', ev_policy_digest b), (''nonce'', ev_nonce b), (''device id'', ev_device_id b),
           (''quote binding'', ev_quote_binding b)]) (\<lambda>_.
        rfor (\<lambda>(name, identity). ensure (visible_identity identity) (InvalidIdentity name))
          [(''enclave id'', ev_enclave_id b),
           (''platform'', case ev_platform b of Some platform \<Rightarrow> platform | None \<Rightarrow> ''none'')]))"

definition evidence_new ::
  "hardware_quote_route_policy_binding \<Rightarrow> string \<Rightarrow> string \<Rightarrow> string \<Rightarrow> string \<Rightarrow> evidence_binding_error + evidence_binding" where
  "evidence_new policy nonce enclave_id device_id quote_binding =
     (if enclave_id \<noteq> rb_enclave_id policy then Inl (PolicyIdentityMismatch ''enclave id'')
      else if device_id \<noteq> rb_device_id policy then Inl (PolicyIdentityMismatch ''device id'')
      else
        let binding = \<lparr>ev_kind = rb_kind policy, ev_evidence_schema_version = rb_evidence_schema_version policy,
            ev_policy_sequence = rb_policy_sequence policy, ev_policy_digest = rb_policy_digest policy,
            ev_platform = rb_platform policy, ev_nonce = nonce, ev_enclave_id = enclave_id, ev_device_id = device_id,
            ev_quote_binding = quote_binding\<rparr>
        in rbind (evidence_validate binding) (\<lambda>_. Inr binding))"

text \<open>\<open>to_be_bytes\<close> of an unsigned integer of \<open>k\<close> bytes.\<close>

fun be_bytes :: "nat \<Rightarrow> nat \<Rightarrow> u8 list" where
  "be_bytes 0 n = []"
| "be_bytes (Suc k) n = be_bytes k (n div 256) @ [of_nat n]"

definition update_field :: "u8 list \<Rightarrow> u8 list" where
  "update_field value = be_bytes 8 (length value) @ value"

text \<open>What is hashed, in the order of the updates.\<close>

definition evidence_input :: "evidence_binding \<Rightarrow> u8 list" where
  "evidence_input b = concat (map update_field
     [as_bytes EVIDENCE_BINDING_DOMAIN, be_bytes 4 (unat ATTESTATION_EVIDENCE_BINDING_VERSION),
      as_bytes (kind_as_str (ev_kind b)), be_bytes 4 (unat (ev_evidence_schema_version b)),
      be_bytes 8 (unat (ev_policy_sequence b)), as_bytes (ev_policy_digest b),
      as_bytes (case ev_platform b of Some platform \<Rightarrow> platform | None \<Rightarrow> []),
      as_bytes (ev_nonce b), as_bytes (ev_enclave_id b), as_bytes (ev_device_id b), as_bytes (ev_quote_binding b)])"

definition evidence_digest :: "policy_env \<Rightarrow> evidence_binding \<Rightarrow> evidence_binding_error + u8 list" where
  "evidence_digest env b = rbind (evidence_validate b) (\<lambda>_. Inr (pe_sha256 env (evidence_input b)))"

lemma be_bytes_length [simp]: "length (be_bytes k n) = k"
  by (induction k n rule: be_bytes.induct) simp_all

lemma be_bytes_inj: "m < 256 ^ k \<Longrightarrow> n < 256 ^ k \<Longrightarrow> be_bytes k m = be_bytes k n \<Longrightarrow> m = n"
proof (induction k arbitrary: m n)
  case (Suc k)
  have byte: "unat (of_nat i :: u8) = i mod 256" for i by (simp add: unsigned_of_nat take_bit_eq_mod)
  have "be_bytes k (m div 256) = be_bytes k (n div 256)" "(of_nat m :: u8) = of_nat n" using Suc.prems(3) by simp_all
  then have "m div 256 = n div 256" "m mod 256 = n mod 256"
    using Suc.IH [of "m div 256" "n div 256"] Suc.prems(1, 2) byte [of m] byte [of n] by (simp_all add: less_mult_imp_div_less mult.commute)
  then show ?case by (metis div_mult_mod_eq)
qed simp

text \<open>Length-prefixed fields can be read back.\<close>

lemma update_field_inj:
  assumes "length a < 2 ^ 64" "length b < 2 ^ 64" "update_field a @ s = update_field b @ t"
  shows "a = b \<and> s = t"
proof -
  have "be_bytes 8 (length a) = be_bytes 8 (length b)" "a @ s = b @ t"
    using assms(3) by (simp_all add: update_field_def append_eq_append_conv)
  moreover from this(1) have "length a = length b" using assms(1, 2) be_bytes_inj [of "length a" 8 "length b"] by simp
  ultimately show ?thesis by simp
qed

lemma fields_inj:
  assumes "list_all (\<lambda>x. length x < 2 ^ 64) xs" "list_all (\<lambda>x. length x < 2 ^ 64) ys" "length xs = length ys"
    "concat (map update_field xs) = concat (map update_field ys)"
  shows "xs = ys"
  using assms(3, 1, 2, 4)
proof (induction xs ys rule: list_induct2)
  case (Cons x xs y ys)
  then have "x = y \<and> concat (map update_field xs) = concat (map update_field ys)" by (intro update_field_inj) simp_all
  then show ?case using Cons by simp
qed simp

lemma as_bytes_inj [simp]: "as_bytes s = as_bytes t \<longleftrightarrow> s = t"
  by (metis of_bytes_as_bytes)

lemma evidence_valid_iff:
  "evidence_validate b = Inr u \<longleftrightarrow>
     ev_evidence_schema_version b \<noteq> 0 \<and> ev_policy_sequence b \<noteq> 0 \<and>
     valid_sha256 (ev_policy_digest b) \<and> valid_sha256 (ev_nonce b) \<and> valid_sha256 (ev_device_id b) \<and> valid_sha256 (ev_quote_binding b) \<and>
     visible_identity (ev_enclave_id b) \<and> (\<forall>platform. ev_platform b = Some platform \<longrightarrow> visible_identity platform)"
proof -
  have "visible_identity ''none''" by (simp add: visible_identity_def is_ascii_graphic_def byte_of_def)
  then show ?thesis by (auto simp: evidence_validate_def split: option.splits)
qed

lemma kind_as_str_short: "length (kind_as_str kind) < 100"
  by (cases kind) simp_all

lemma evidence_input_inj:
  assumes "evidence_validate a = Inr ()" "evidence_validate b = Inr ()" "evidence_input a = evidence_input b"
  shows "a = b"
proof -
  have len: "list_all (\<lambda>x. length x < 2 ^ 64)
     [as_bytes EVIDENCE_BINDING_DOMAIN, be_bytes 4 (unat ATTESTATION_EVIDENCE_BINDING_VERSION),
      as_bytes (kind_as_str (ev_kind c)), be_bytes 4 (unat (ev_evidence_schema_version c)),
      be_bytes 8 (unat (ev_policy_sequence c)), as_bytes (ev_policy_digest c),
      as_bytes (case ev_platform c of Some platform \<Rightarrow> platform | None \<Rightarrow> []),
      as_bytes (ev_nonce c), as_bytes (ev_enclave_id c), as_bytes (ev_device_id c), as_bytes (ev_quote_binding c)]"
    if "evidence_validate c = Inr ()" for c
    using that kind_as_str_short [of "ev_kind c"] unfolding evidence_valid_iff
    by (auto simp: EVIDENCE_BINDING_DOMAIN_def valid_sha256_def visible_identity_def split: option.split)
  have eq: "ev_kind a = ev_kind b" "be_bytes 4 (unat (ev_evidence_schema_version a)) = be_bytes 4 (unat (ev_evidence_schema_version b))"
    "be_bytes 8 (unat (ev_policy_sequence a)) = be_bytes 8 (unat (ev_policy_sequence b))" "ev_policy_digest a = ev_policy_digest b"
    "(case ev_platform a of Some platform \<Rightarrow> platform | None \<Rightarrow> []) = (case ev_platform b of Some platform \<Rightarrow> platform | None \<Rightarrow> [])"
    "ev_nonce a = ev_nonce b" "ev_enclave_id a = ev_enclave_id b" "ev_device_id a = ev_device_id b" "ev_quote_binding a = ev_quote_binding b"
    using fields_inj [OF len [OF assms(1)] len [OF assms(2)] _ assms(3) [unfolded evidence_input_def]] by simp_all
  have "ev_evidence_schema_version a = ev_evidence_schema_version b" "ev_policy_sequence a = ev_policy_sequence b"
    using be_bytes_inj [OF _ _ eq(2)] be_bytes_inj [OF _ _ eq(3)] unat_lt_pow [of "ev_evidence_schema_version a"]
      unat_lt_pow [of "ev_evidence_schema_version b"] unat_lt_pow [of "ev_policy_sequence a"] unat_lt_pow [of "ev_policy_sequence b"]
    by (simp_all add: word_unat_eq_iff)
  moreover have "ev_platform a = ev_platform b"
    using eq(5) assms(1, 2) unfolding evidence_valid_iff by (auto simp: visible_identity_def split: option.splits)
  ultimately show ?thesis using eq by (simp add: evidence_binding.equality)
qed

section \<open>Binding a route\<close>

text \<open>The condition under which a route is committed to the active policy.\<close>

definition route_bound ::
  "policy_chain \<Rightarrow> collateral_inventory \<Rightarrow> verifier_capabilities \<Rightarrow> u64 \<Rightarrow> hardware_quote_route_policy_binding \<Rightarrow> bool" where
  "route_bound chain collateral capabilities epoch b \<longleftrightarrow>
     valid_sha256 (rb_enclave_id b) \<and> valid_sha256 (rb_device_id b) \<and>
     kind_ready chain collateral capabilities epoch (rb_kind b) \<and>
     (\<exists>a kp. active_at chain epoch = Some a \<and> quote_kind_of a (rb_kind b) = Some kp \<and>
        rb_policy_sequence b = pol_sequence (vp_policy a) \<and> rb_policy_digest b = vp_digest a \<and>
        rb_evidence_schema_version b = qk_evidence_schema_version kp \<and>
        (case rb_platform b of None \<Rightarrow> qk_platforms kp = [] | Some platform \<Rightarrow> platform \<in> set (qk_platforms kp))) \<and>
     (\<exists>eb \<in> snd ` set (ch_enclave_bindings chain).
        eb_enclave_id eb = rb_enclave_id b \<and> eb_kind eb = rb_kind b \<and> eb_platform eb = rb_platform b)"

lemma approval_found:
  assumes "chain_inv env chain"
  shows "bt_get (ch_enclave_bindings chain) k \<noteq> None \<longleftrightarrow> (\<exists>eb \<in> snd ` set (ch_enclave_bindings chain). binding_key_of eb = k)"
proof -
  have "fst ` set (ch_enclave_bindings chain) = binding_key_of ` snd ` set (ch_enclave_bindings chain)"
    using assms by (cases "ch_bindings_configured chain") (auto simp: chain_inv_def image_image)
  then show ?thesis unfolding bt_get_None_iff by auto
qed

lemma verify_eq_bind:
  "verify_binding r b = Inr () \<longleftrightarrow>
     bind_route r (rb_enclave_id b) (rb_device_id b) \<lparr>ra_kind = rb_kind b, ra_declared_platform = rb_platform b\<rparr> = Inr b"
  unfolding verify_binding_def bind_route_def
  by (cases b) (auto simp: choose_platform_Inr validate_route_identity_def require_ready_Inr split: if_splits)

lemma bind_fields:
  "bind_route r enclave_id device_id route = Inr b \<Longrightarrow>
     rb_enclave_id b = enclave_id \<and> rb_device_id b = device_id \<and> rb_kind b = ra_kind route \<and> rb_platform b = ra_declared_platform route"
  by (auto simp: bind_route_def choose_platform_Inr split: if_splits)

lemma verify_bound:
  assumes "chain_inv env chain" "evaluate chain collateral capabilities epoch = Some r"
  shows "verify_binding r b = Inr () \<longleftrightarrow> route_bound chain collateral capabilities epoch b"
proof (cases "active_at chain epoch")
  case None
  from evaluate_inactive [OF None, of collateral capabilities] assms(2)
  have "\<not> (\<exists>q. readiness_of r (rb_kind b) = Some q \<and> qr_status q = Ready)"
    by (metis option.inject quote_kind_readiness.select_convs(2))
  then show ?thesis using None by (auto simp: verify_binding_def require_ready_Inr route_bound_def kind_ready_def)
next
  case (Some a)
  from evaluate_active [OF assms(1) Some, of collateral capabilities] assms(2) obtain kp s where
    r: "ar_policy_sequence r = Some (pol_sequence (vp_policy a))" "ar_policy_digest r = Some (vp_digest a)"
      "ar_enclave_bindings r = ch_enclave_bindings chain"
    and kp: "quote_kind_of a (rb_kind b) = Some kp" "readiness_of r (rb_kind b) = Some \<lparr>qr_kind = rb_kind b, qr_status = s\<rparr>"
      "s = Ready \<longleftrightarrow> kind_ready chain collateral capabilities epoch (rb_kind b)" "allowed_for r (rb_kind b) = qk_platforms kp"
      "bt_get (ar_evidence_schema_versions r) (rb_kind b) = Some (qk_evidence_schema_version kp)"
    by (metis option.inject)
  have app: "bt_get (ch_enclave_bindings chain) (rb_enclave_id b, rb_kind b, rb_platform b) \<noteq> None \<longleftrightarrow>
      (\<exists>eb \<in> snd ` set (ch_enclave_bindings chain). eb_enclave_id eb = rb_enclave_id b \<and> eb_kind eb = rb_kind b \<and> eb_platform eb = rb_platform b)"
    using approval_found [OF assms(1)] by (simp add: binding_key_of_def)
  have "require_ready r (rb_kind b) = Inr () \<longleftrightarrow> kind_ready chain collateral capabilities epoch (rb_kind b)"
    using kp(2, 3) by (simp add: require_ready_Inr)
  then show ?thesis using Some r kp(1, 4, 5)
    unfolding verify_binding_def route_bound_def app [symmetric]
    by (auto simp: validate_route_identity_def platform_allowed_def split: option.splits if_splits)
qed

lemma bind_bound:
  assumes "chain_inv env chain" "evaluate chain collateral capabilities epoch = Some r"
  shows "bind_route r enclave_id device_id route = Inr b \<longleftrightarrow>
     route_bound chain collateral capabilities epoch b \<and> rb_enclave_id b = enclave_id \<and> rb_device_id b = device_id \<and>
     rb_kind b = ra_kind route \<and> rb_platform b = ra_declared_platform route"
proof -
  have "route = \<lparr>ra_kind = rb_kind b, ra_declared_platform = rb_platform b\<rparr>"
    if "rb_kind b = ra_kind route" "rb_platform b = ra_declared_platform route" using that by simp
  then show ?thesis using bind_fields [of r enclave_id device_id route b] verify_bound [OF assms, of b] verify_eq_bind [of r b] by metis
qed

lemma binding_no_panic:
  assumes "chain_inv env chain" "evaluate chain collateral capabilities epoch = Some r"
  shows "bind_route r enclave_id device_id route \<noteq> Inl ReadinessPanic" "verify_binding r b \<noteq> Inl ReadinessPanic"
    "readiness_enclave_binding r b \<noteq> Inl ReadinessPanic"
proof -
  have "\<exists>q. readiness_of r kind = Some q" for kind
    using evaluate_active [OF assms(1), of epoch _ collateral capabilities] evaluate_inactive [of chain epoch collateral capabilities] assms(2)
    by (cases "active_at chain epoch") (metis option.inject)+
  then have "require_ready r kind \<noteq> Inl ReadinessPanic" for kind by (auto simp: require_ready_def rbind_Inl_iff ok_or_def ensure_def split: option.splits)
  moreover have "choose_platform kind allowed declared \<noteq> Inl ReadinessPanic" for kind allowed declared
    by (simp add: choose_platform_def split: option.split)
  ultimately show b: "bind_route r enclave_id device_id route \<noteq> Inl ReadinessPanic" and v: "verify_binding r b \<noteq> Inl ReadinessPanic"
    by (auto simp: bind_route_def verify_binding_def rbind_Inl_iff validate_route_identity_def ensure_def ok_or_def split: option.splits if_splits)
  then show "readiness_enclave_binding r b \<noteq> Inl ReadinessPanic"
    by (auto simp: readiness_enclave_binding_def rbind_Inl_iff ok_or_def split: option.splits)
qed

section \<open>Properties\<close>

definition sample_evidence_binding :: evidence_binding where
  "sample_evidence_binding =
     \<lparr>ev_kind = Tpm2QuoteEk, ev_evidence_schema_version = 1, ev_policy_sequence = 1, ev_policy_digest = replicate 64 (CHR ''a''),
      ev_platform = None, ev_nonce = replicate 64 (CHR ''b''), ev_enclave_id = ''e'', ev_device_id = replicate 64 (CHR ''c''),
      ev_quote_binding = replicate 64 (CHR ''d'')\<rparr>"

definition plain_policy_env :: policy_env where
  "plain_policy_env =
     \<lparr>pe_sha256 = (\<lambda>bytes. []), pe_hex_encode = (\<lambda>bytes. replicate 64 (CHR ''0'')), pe_hex_decode = (\<lambda>s. Some []),
      pe_from_slice = (\<lambda>bytes. Inl ''''), pe_to_vec = (\<lambda>p. Inr [1]), pe_parse_url = (\<lambda>s. Inl '''')\<rparr>"

lemma sample_evidence_valid:
  "evidence_validate sample_evidence_binding = Inr ()"
  "evidence_validate (sample_evidence_binding\<lparr>ev_platform := Some ''x''\<rparr>) = Inr ()"
  unfolding evidence_valid_iff
  by (simp_all add: sample_evidence_binding_def valid_sha256_def is_lower_hex_def byte_of_def visible_identity_def
      is_ascii_graphic_def list_all_iff)

text \<open>
  C6. Readiness is decided for every quote kind and exactly: for any history of policies, evaluation does
  not panic and gives each kind a status, which is \<open>Ready\<close> exactly when a policy is active and not expired,
  it enables the kind, no policy from the active one on that was already issued disables it in an
  emergency, the verifier is new enough and supports the profile's evidence schema, and every required
  trust datum was observed by then and is inside its validity window.
\<close>

theorem readiness_exact:
  "let chain = fold (chain_step env) ops chain_new
   in \<exists>r. evaluate chain collateral capabilities epoch = Some r \<and>
      (\<forall>kind. \<exists>s. readiness_of r kind = Some \<lparr>qr_kind = kind, qr_status = s\<rparr> \<and>
         (s = Ready \<longleftrightarrow> kind_ready chain collateral capabilities epoch kind))"
proof -
  let ?c = "fold (chain_step env) ops chain_new"
  have c: "chain_inv env ?c" by (rule chain.run_inv [OF chain_new_inv])
  show ?thesis
  proof (cases "active_at ?c epoch")
    case None
    then show ?thesis using evaluate_inactive [OF None, of collateral capabilities] by (auto simp: Let_def kind_ready_def)
  next
    case (Some a)
    from evaluate_active [OF c Some, of collateral capabilities] show ?thesis unfolding Let_def by fast
  qed
qed

text \<open>
  C18. A route can be bound exactly under the stated condition: over any history of policies, a commitment
  is given for an enclave, a device and an advertised kind and platform exactly when the kind is ready at
  this epoch, the platform is one the active policy lists (or none is listed and none declared), the
  enclave is approved for that kind and platform, and both identities are digests; it names the active
  policy and its evidence schema. A commitment is verified exactly when it satisfies the same condition.
  No check panics.
\<close>

theorem route_binding_exact:
  "let chain = fold (chain_step env) ops chain_new
   in case evaluate chain collateral capabilities epoch of
        None \<Rightarrow> False
      | Some r \<Rightarrow>
          (\<forall>enclave_id device_id route b.
             bind_route r enclave_id device_id route = Inr b \<longleftrightarrow>
               route_bound chain collateral capabilities epoch b \<and> rb_enclave_id b = enclave_id \<and> rb_device_id b = device_id \<and>
               rb_kind b = ra_kind route \<and> rb_platform b = ra_declared_platform route) \<and>
          (\<forall>b. verify_binding r b = Inr () \<longleftrightarrow> route_bound chain collateral capabilities epoch b) \<and>
          (\<forall>enclave_id device_id route b. bind_route r enclave_id device_id route \<noteq> Inl ReadinessPanic \<and>
             verify_binding r b \<noteq> Inl ReadinessPanic)"
proof -
  let ?c = "fold (chain_step env) ops chain_new"
  have c: "chain_inv env ?c" by (rule chain.run_inv [OF chain_new_inv])
  obtain r where r: "evaluate ?c collateral capabilities epoch = Some r"
    using evaluate_active [OF c] evaluate_inactive by (cases "active_at ?c epoch") blast+
  show ?thesis unfolding Let_def r option.case
    using verify_bound [OF c r] bind_bound [OF c r] binding_no_panic [OF c r] by blast
qed

text \<open>
  C27. Trust data is authentic and is not lost: after any insertions every entry is kept under the digest
  of its own bytes, and later insertions, accepted or refused, keep its bytes and never move the epoch
  from which it counts to a later one.
\<close>

theorem collateral_authentic:
  "let inventory = fold (inventory_step env) ops inventory_new
   in inventory_ok env inventory \<and> inventory_le inventory (fold (inventory_step env) later inventory)"
  unfolding Let_def using inventory.run_inv [OF inventory_new_ok] inventory_run_le by blast

text \<open>
  C19. The digest that evidence must contain commits to every field: two valid bindings with the same
  digest are equal, or their inputs are a collision of the hash.
\<close>

theorem evidence_digest_binds:
  assumes "evidence_digest env a = Inr d" "evidence_digest env b = Inr d"
  shows "a = b \<or> evidence_input a \<noteq> evidence_input b \<and> pe_sha256 env (evidence_input a) = pe_sha256 env (evidence_input b)"
  using assms evidence_input_inj [of a b] by (auto simp: evidence_digest_def)

theorem evidence_digest_binds_witness:
  "evidence_input sample_evidence_binding \<noteq> evidence_input (sample_evidence_binding\<lparr>ev_platform := Some ''x''\<rparr>)"
proof -
  let ?b = "sample_evidence_binding\<lparr>ev_platform := Some ''x''\<rparr>"
  have d: "evidence_digest plain_policy_env sample_evidence_binding = Inr []" "evidence_digest plain_policy_env ?b = Inr []"
    by (simp_all add: evidence_digest_def sample_evidence_valid plain_policy_env_def)
  have "sample_evidence_binding \<noteq> ?b" by (simp add: sample_evidence_binding_def)
  then show ?thesis using evidence_digest_binds [OF d] by blast
qed

end
