(* ===== verification/Attestation_Gateway.thy ===== *)
theory Attestation_Gateway
  imports Attestation_Readiness Json_Value
begin

text \<open>
  \<open>mayhem-gateway/src/attestation_policy.rs\<close>: how the gateway uses the attestation crate. A verifier program
  is authenticated against the active policy, the policy that applies to a route is resolved, and the
  measurements and keys it names are read from the inventory. The file system, the release target of the
  build and \<open>serde_json\<close> are parameters; a message is a constructor, and a failed \<open>expect\<close> is \<open>GatePanic\<close>.
\<close>

section \<open>Data\<close>

definition GATEWAY_ATTESTATION_VERIFIER_VERSION :: u32 where "GATEWAY_ATTESTATION_VERIFIER_VERSION = 4"
definition MANAGED_VERIFIER_MANIFEST_SCHEMA_VERSION :: u32 where "MANAGED_VERIFIER_MANIFEST_SCHEMA_VERSION = 1"

record activated_tpm_identity =
  ti_challenge_id :: string
  ti_ek_public_sha256 :: string
  ti_ak_name_b64 :: string
  ti_quote_binding :: string
  ti_activated_at_unix :: u64

record verification_context =
  vx_policy_chain :: policy_chain
  vx_collateral :: collateral_inventory
  vx_route_binding :: hardware_quote_route_policy_binding
  vx_policy_epoch :: u64
  vx_device_id :: string
  vx_activated_tpm_identity :: "activated_tpm_identity option"

definition context_new ::
  "policy_chain \<Rightarrow> collateral_inventory \<Rightarrow> hardware_quote_route_policy_binding \<Rightarrow> u64 \<Rightarrow> string \<Rightarrow> verification_context" where
  "context_new policy_chain collateral route_binding policy_epoch device_id =
     \<lparr>vx_policy_chain = policy_chain, vx_collateral = collateral, vx_route_binding = route_binding, vx_policy_epoch = policy_epoch,
      vx_device_id = device_id, vx_activated_tpm_identity = None\<rparr>"

definition with_activated_tpm_identity :: "activated_tpm_identity \<Rightarrow> verification_context \<Rightarrow> verification_context" where
  "with_activated_tpm_identity identity context = context\<lparr>vx_activated_tpm_identity := Some identity\<rparr>"

record resolved_policy =
  rs_policy :: validated_policy
  rs_kind_policy :: attestation_quote_kind_policy
  rs_enclave_binding :: admin_enclave_attestation_binding
  rs_evidence_binding :: evidence_binding

record authenticated_verifier =
  am_verifier_id :: string
  am_executable_sha256 :: string
  am_capabilities :: verifier_capabilities

record verifier_manifest =
  mf_schema_version :: u32
  mf_target :: string
  mf_verifier_id :: string
  mf_version :: u32
  mf_executable_sha256 :: string
  mf_profiles :: "(attestation_verifier_profile, u32 list) btree"

record file_metadata =
  fm_is_symlink :: bool
  fm_is_file :: bool
  fm_len :: u64

record 'n gate_env =
  ge_policy :: policy_env
  ge_target :: "string + string"
  ge_manifest :: "u8 list \<Rightarrow> string + verifier_manifest"
  ge_json :: "u8 list \<Rightarrow> string + 'n json"
  ge_symlink_metadata :: "string \<Rightarrow> string + file_metadata"
  ge_read :: "string \<Rightarrow> string + u8 list"

datatype gate_error =
  NoActiveAdminPolicy
| NoKindEntry string
| UnsupportedTarget string
| VerifierNotBound string string
| InvalidVerifierBinding string string
| VerifierPolicyError policy_error
| VerifierCollateralMissing string string
| VerifierCollateralNotYetValid string string
| VerifierCollateralExpired string string
| InvalidManifest string
| UnsupportedManifestSchema u32
| ManifestTargetMismatch string string
| ManagedVerifierTooOld u32 u32
| InvalidManifestIdentity
| ManifestDigestMismatch
| EvidenceSchemaNotAdvertised string attestation_verifier_profile u32
| ExecutableMetadataFailed string
| ExecutableNotRegular
| ExecutableTooLarge
| ExecutableReadFailed string
| ExecutableNotAuthenticated
| ReadinessRefused readiness_error
| RouteKindMismatch string string
| ReadinessPolicyMismatch
| ActiveProfileMismatch attestation_verifier_profile string
| EvidenceRefused evidence_binding_error
| UnknownMeasurementData string
| NotMeasurementCollateral string
| NotJsonCollateral string
| MeasurementMissing string
| InvalidMeasurementJson string string
| UnknownPolicyData string
| TrustDataNotInInventory string
| TrustDataNotJwks string string
| TrustDataNotJwkSet string
| NoUsableJwks
| GatePanic

section \<open>Managed verifiers\<close>

definition verifier_ids :: "hardware_quote_kind \<Rightarrow> string \<Rightarrow> gate_error + (string \<times> string)" where
  "verifier_ids kind target =
     (case managed_verifier_trust_data_ids kind target of Inl _ \<Rightarrow> Inl GatePanic | Inr ids \<Rightarrow> Inr ids)"

definition check_verifier_role ::
  "hardware_quote_kind \<Rightarrow> string \<Rightarrow> string \<Rightarrow> attestation_trust_data_ref \<Rightarrow> gate_error + unit" where
  "check_verifier_role kind target role reference =
     (case parse_managed_verifier_trust_data reference of
        Inl err \<Rightarrow> Inl (VerifierPolicyError err)
      | Inr parsed \<Rightarrow> ensure (\<not> parsed \<noteq> Some (kind, target, role)) (InvalidVerifierBinding role target))"

definition check_verifier_collateral ::
  "verification_context \<Rightarrow> string \<Rightarrow> attestation_trust_data_ref \<times> string \<Rightarrow> gate_error + unit" where
  "check_verifier_collateral context target entry =
     (case entry of (reference, collateral) \<Rightarrow>
        if \<not> contains_reference_at (vx_collateral context) reference (vx_policy_epoch context)
        then Inl (VerifierCollateralMissing collateral target)
        else if datum_not_yet_valid (vx_policy_epoch context) reference then Inl (VerifierCollateralNotYetValid collateral target)
        else if datum_expired (vx_policy_epoch context) reference then Inl (VerifierCollateralExpired collateral target)
        else Inr ())"

definition verifier_identity_char :: "char \<Rightarrow> bool" where
  "verifier_identity_char c \<longleftrightarrow> is_ascii_alphanumeric c \<or> c \<in> set ''._-''"

definition check_manifest ::
  "validated_policy \<Rightarrow> attestation_quote_kind_policy \<Rightarrow> string \<Rightarrow> attestation_trust_data_ref \<Rightarrow> verifier_manifest \<Rightarrow> gate_error + unit" where
  "check_manifest policy kind_policy target executable_ref manifest =
     (if mf_schema_version manifest \<noteq> MANAGED_VERIFIER_MANIFEST_SCHEMA_VERSION
      then Inl (UnsupportedManifestSchema (mf_schema_version manifest))
      else if mf_target manifest \<noteq> target then Inl (ManifestTargetMismatch (mf_target manifest) target)
      else if mf_version manifest < pol_min_verifier_version (vp_policy policy)
      then Inl (ManagedVerifierTooOld (mf_version manifest) (pol_min_verifier_version (vp_policy policy)))
      else if mf_verifier_id manifest = [] \<or> length (mf_verifier_id manifest) > 128 \<or>
        \<not> list_all verifier_identity_char (mf_verifier_id manifest)
      then Inl InvalidManifestIdentity
      else if mf_executable_sha256 manifest \<noteq> td_sha256 executable_ref then Inl ManifestDigestMismatch
      else ensure (case bt_get (mf_profiles manifest) (qk_verifier_profile kind_policy) of
             Some schemas \<Rightarrow> qk_evidence_schema_version kind_policy \<in> set schemas | None \<Rightarrow> False)
        (EvidenceSchemaNotAdvertised (mf_verifier_id manifest) (qk_verifier_profile kind_policy) (qk_evidence_schema_version kind_policy)))"

definition check_executable ::
  "'n gate_env \<Rightarrow> attestation_trust_data_ref \<Rightarrow> validated_collateral \<Rightarrow> string \<Rightarrow> gate_error + string" where
  "check_executable env executable_ref executable_collateral command =
     (case ge_symlink_metadata env command of
        Inl err \<Rightarrow> Inl (ExecutableMetadataFailed err)
      | Inr metadata \<Rightarrow>
          if fm_is_symlink metadata \<or> \<not> fm_is_file metadata then Inl ExecutableNotRegular
          else if fm_len metadata > td_max_bytes executable_ref then Inl ExecutableTooLarge
          else case ge_read env command of
            Inl err \<Rightarrow> Inl (ExecutableReadFailed err)
          | Inr executable \<Rightarrow>
              let executable_sha256 = pe_hex_encode (ge_policy env) (pe_sha256 (ge_policy env) executable) in
              if executable_sha256 \<noteq> td_sha256 executable_ref \<or> executable \<noteq> vc_bytes executable_collateral
              then Inl ExecutableNotAuthenticated
              else Inr executable_sha256)"

definition authenticate_managed_verifier ::
  "'n gate_env \<Rightarrow> verification_context \<Rightarrow> hardware_quote_kind \<Rightarrow> string \<Rightarrow> gate_error + authenticated_verifier" where
  "authenticate_managed_verifier env context kind command =
     rbind (ok_or (active_at (vx_policy_chain context) (vx_policy_epoch context)) NoActiveAdminPolicy) (\<lambda>policy.
     rbind (ok_or (quote_kind_of policy kind) (NoKindEntry (kind_as_str kind))) (\<lambda>kind_policy.
     rbind (case ge_target env of Inl err \<Rightarrow> Inl (UnsupportedTarget err) | Inr target \<Rightarrow> Inr target) (\<lambda>target.
     rbind (verifier_ids kind target) (\<lambda>(executable_id, manifest_id).
     rbind (ok_or (trust_data_of policy executable_id) (VerifierNotBound ''executable'' target)) (\<lambda>executable_ref.
     rbind (ok_or (trust_data_of policy manifest_id) (VerifierNotBound ''manifest'' target)) (\<lambda>manifest_ref.
     rbind (check_verifier_role kind target ''executable'' executable_ref) (\<lambda>_.
     rbind (check_verifier_role kind target ''manifest'' manifest_ref) (\<lambda>_.
     rbind (rfor (check_verifier_collateral context target) [(executable_ref, ''executable''), (manifest_ref, ''manifest'')]) (\<lambda>_.
     rbind (ok_or (inventory_get (vx_collateral context) (td_sha256 executable_ref)) GatePanic) (\<lambda>executable_collateral.
     rbind (ok_or (inventory_get (vx_collateral context) (td_sha256 manifest_ref)) GatePanic) (\<lambda>manifest_collateral.
     rbind (case ge_manifest env (vc_bytes manifest_collateral) of Inl err \<Rightarrow> Inl (InvalidManifest err) | Inr manifest \<Rightarrow> Inr manifest)
       (\<lambda>manifest.
     rbind (check_manifest policy kind_policy target executable_ref manifest) (\<lambda>_.
     rbind (check_executable env executable_ref executable_collateral command) (\<lambda>executable_sha256.
     Inr \<lparr>am_verifier_id = mf_verifier_id manifest, am_executable_sha256 = executable_sha256,
          am_capabilities = with_evidence_schemas (mf_version manifest) (mf_profiles manifest)\<rparr>))))))))))))))"

definition gateway_verifier_capabilities :: "authenticated_verifier option \<Rightarrow> verifier_capabilities" where
  "gateway_verifier_capabilities managed_verifier =
     (let profiles = fold (\<lambda>(profile, schemas). bt_insert profile schemas)
            [(AppleAppAttestNativeV1, [1]), (NvidiaGb10DeviceV1, [1]), (Tpm2EkActivateCredentialV1, [1])] [];
          version = GATEWAY_ATTESTATION_VERIFIER_VERSION
      in case managed_verifier of
           None \<Rightarrow> with_evidence_schemas version profiles
         | Some managed \<Rightarrow>
             with_evidence_schemas (max version (vcap_version (am_capabilities managed)))
               (fold (\<lambda>(profile, schemas). bt_insert profile schemas) (vcap_profiles (am_capabilities managed)) profiles))"

section \<open>Resolving the policy of a route\<close>

definition map_refused :: "('e \<Rightarrow> gate_error) \<Rightarrow> 'e + 'a \<Rightarrow> gate_error + 'a" where
  "map_refused f r = (case r of Inl e \<Rightarrow> Inl (f e) | Inr x \<Rightarrow> Inr x)"

definition resolve_attestation_policy ::
  "verification_context \<Rightarrow> hardware_quote_kind \<Rightarrow> string \<Rightarrow> string \<Rightarrow> string \<Rightarrow> authenticated_verifier option \<Rightarrow>
     gate_error + resolved_policy" where
  "resolve_attestation_policy context kind nonce enclave_id quote_binding managed_verifier =
     (let capabilities = gateway_verifier_capabilities managed_verifier in
      rbind (ok_or (evaluate (vx_policy_chain context) (vx_collateral context) capabilities (vx_policy_epoch context)) GatePanic) (\<lambda>readiness.
      rbind (map_refused ReadinessRefused (verify_binding readiness (vx_route_binding context))) (\<lambda>_.
      rbind (map_refused ReadinessRefused (readiness_enclave_binding readiness (vx_route_binding context))) (\<lambda>enclave_binding.
      if rb_kind (vx_route_binding context) \<noteq> kind
      then Inl (RouteKindMismatch (kind_as_str (rb_kind (vx_route_binding context))) (kind_as_str kind))
      else
        rbind (ok_or (active_at (vx_policy_chain context) (vx_policy_epoch context)) NoActiveAdminPolicy) (\<lambda>policy.
        if ar_policy_sequence readiness \<noteq> Some (pol_sequence (vp_policy policy)) \<or> ar_policy_digest readiness \<noteq> Some (vp_digest policy)
        then Inl ReadinessPolicyMismatch
        else
          rbind (ok_or (quote_kind_of policy kind) (NoKindEntry (kind_as_str kind))) (\<lambda>kind_policy.
          if profile_quote_kind (qk_verifier_profile kind_policy) \<noteq> kind
          then Inl (ActiveProfileMismatch (qk_verifier_profile kind_policy) (kind_as_str kind))
          else
            rbind (map_refused EvidenceRefused
                (evidence_new (vx_route_binding context) nonce enclave_id (vx_device_id context) quote_binding)) (\<lambda>evidence_binding.
            Inr \<lparr>rs_policy = policy, rs_kind_policy = kind_policy, rs_enclave_binding = enclave_binding,
                 rs_evidence_binding = evidence_binding\<rparr>)))))))"

section \<open>Measurements and keys of the resolved policy\<close>

definition ends_with :: "string \<Rightarrow> string \<Rightarrow> bool" where
  "ends_with s suffix \<longleftrightarrow> starts_with (rev s) (rev suffix)"

definition measurement_value ::
  "'n gate_env \<Rightarrow> resolved_policy \<Rightarrow> collateral_inventory \<Rightarrow> string \<Rightarrow> gate_error + 'n json" where
  "measurement_value env resolved collateral i =
     rbind (ok_or (trust_data_of (rs_policy resolved) i) (UnknownMeasurementData i)) (\<lambda>reference.
     if td_kind reference \<noteq> Measurement then Inl (NotMeasurementCollateral i)
     else if td_media_type reference \<noteq> ''application/json'' \<and> \<not> ends_with (td_media_type reference) ''+json''
     then Inl (NotJsonCollateral i)
     else
       rbind (ok_or (inventory_get collateral (td_sha256 reference)) (MeasurementMissing i)) (\<lambda>vc.
       case ge_json env (vc_bytes vc) of Inl err \<Rightarrow> Inl (InvalidMeasurementJson i err) | Inr json_value \<Rightarrow> Inr json_value))"

fun measurement_loop ::
  "'n gate_env \<Rightarrow> resolved_policy \<Rightarrow> collateral_inventory \<Rightarrow> (attestation_measurement_layer \<times> string) list \<Rightarrow>
     (attestation_measurement_layer, 'n json) btree \<Rightarrow> gate_error + (attestation_measurement_layer, 'n json) btree" where
  "measurement_loop env resolved collateral [] measurements = Inr measurements"
| "measurement_loop env resolved collateral ((layer, i) # refs) measurements =
     rbind (measurement_value env resolved collateral i) (\<lambda>json_value.
     measurement_loop env resolved collateral refs (bt_insert layer json_value measurements))"

definition policy_measurement_json ::
  "'n gate_env \<Rightarrow> resolved_policy \<Rightarrow> collateral_inventory \<Rightarrow> gate_error + (attestation_measurement_layer, 'n json) btree" where
  "policy_measurement_json env resolved collateral =
     measurement_loop env resolved collateral (eb_measurement_trust_data (rs_enclave_binding resolved)) []"

definition key_material :: "attestation_trust_data_ref \<Rightarrow> bool" where
  "key_material reference \<longleftrightarrow>
     td_kind reference \<in> {TrustAnchor, VerificationKey} \<and>
     td_media_type reference \<in> {''application/jwk-set+json'', ''application/json''}"

definition jwk_set :: "'n gate_env \<Rightarrow> collateral_inventory \<Rightarrow> string \<Rightarrow> attestation_trust_data_ref \<Rightarrow> gate_error + 'n json list" where
  "jwk_set env collateral i reference =
     rbind (ok_or (inventory_get collateral (td_sha256 reference)) (TrustDataNotInInventory i)) (\<lambda>vc.
     case ge_json env (vc_bytes vc) of
       Inl err \<Rightarrow> Inl (TrustDataNotJwks i err)
     | Inr json_value \<Rightarrow>
         let jwks = (case json_get json_value ''jwks'' of Some jwks \<Rightarrow> jwks | None \<Rightarrow> json_value) in
         ok_or (Option.bind (json_get jwks ''keys'') json_as_array) (TrustDataNotJwkSet i))"

fun jwks_loop ::
  "'n gate_env \<Rightarrow> resolved_policy \<Rightarrow> collateral_inventory \<Rightarrow> string list \<Rightarrow> 'n json list \<times> bool \<Rightarrow> gate_error + ('n json list \<times> bool)" where
  "jwks_loop env resolved collateral [] acc = Inr acc"
| "jwks_loop env resolved collateral (i # ids) (keys, saw_key_material) =
     rbind (ok_or (trust_data_of (rs_policy resolved) i) (UnknownPolicyData i)) (\<lambda>reference.
     if \<not> key_material reference then jwks_loop env resolved collateral ids (keys, saw_key_material)
     else
       rbind (jwk_set env collateral i reference) (\<lambda>policy_keys.
       jwks_loop env resolved collateral ids (keys @ policy_keys, True)))"

definition policy_jwks :: "'n gate_env \<Rightarrow> resolved_policy \<Rightarrow> collateral_inventory \<Rightarrow> gate_error + 'n json" where
  "policy_jwks env resolved collateral =
     rbind (jwks_loop env resolved collateral (qk_required_trust_data (rs_kind_policy resolved)) ([], False)) (\<lambda>(keys, saw_key_material).
     if \<not> saw_key_material \<or> keys = [] then Inl NoUsableJwks
     else Inr (JObject [(''keys'', JArray keys)]))"

section \<open>What a resolved policy guarantees\<close>

lemma map_refused_Inr [simp]: "map_refused f r = Inr x \<longleftrightarrow> r = Inr x"
  by (cases r) (simp_all add: map_refused_def)

text \<open>A binding that readiness accepts names an approval that agrees with the active policy.\<close>

lemma verified_approved:
  assumes "chain_inv env chain" "evaluate chain collateral capabilities epoch = Some r" "readiness_enclave_binding r b = Inr eb"
  shows "\<exists>a kp. active_at chain epoch = Some a \<and> quote_kind_of a (rb_kind b) = Some kp \<and>
     kind_ready chain collateral capabilities epoch (rb_kind b) \<and>
     rb_policy_sequence b = pol_sequence (vp_policy a) \<and> rb_policy_digest b = vp_digest a \<and>
     rb_evidence_schema_version b = qk_evidence_schema_version kp \<and>
     approval_ok a kp eb \<and> binding_key_of eb = (rb_enclave_id b, rb_kind b, rb_platform b)"
proof -
  have v: "verify_binding r b = Inr ()"
    and eb: "bt_get (ar_enclave_bindings r) (rb_enclave_id b, rb_kind b, rb_platform b) = Some eb"
    using assms(3) by (auto simp: readiness_enclave_binding_def)
  then obtain q sq dg sc where ready: "readiness_of r (rb_kind b) = Some q" "qr_status q = Ready"
    and pol: "ar_policy_sequence r = Some sq" "ar_policy_digest r = Some dg" "bt_get (ar_evidence_schema_versions r) (rb_kind b) = Some sc"
      "rb_policy_sequence b = sq" "rb_policy_digest b = dg" "rb_evidence_schema_version b = sc"
    by (auto simp: verify_binding_def require_ready_Inr split: if_splits)
  then obtain a where a: "active_at chain epoch = Some a"
    using evaluate_inactive [of chain epoch collateral capabilities] assms(2) by (cases "active_at chain epoch") auto
  from evaluate_active [OF assms(1) a, of collateral capabilities] assms(2) obtain kp s where
    r: "ar_policy_sequence r = Some (pol_sequence (vp_policy a))" "ar_policy_digest r = Some (vp_digest a)"
      "ar_enclave_bindings r = ch_enclave_bindings chain"
    and kp: "quote_kind_of a (rb_kind b) = Some kp" "readiness_of r (rb_kind b) = Some \<lparr>qr_kind = rb_kind b, qr_status = s\<rparr>"
      "s = Ready \<longleftrightarrow> kind_ready chain collateral capabilities epoch (rb_kind b)"
      "bt_get (ar_evidence_schema_versions r) (rb_kind b) = Some (qk_evidence_schema_version kp)"
    by (metis option.inject)
  have kr: "kind_ready chain collateral capabilities epoch (rb_kind b)" using ready kp(2, 3) by (metis option.inject quote_kind_readiness.select_convs(2))
  then have en: "qk_enabled kp" using a kp(1) by (auto simp: kind_ready_def)
  have mem: "((rb_enclave_id b, rb_kind b, rb_platform b), eb) \<in> set (ch_enclave_bindings chain)" using bt_getD [OF eb] r(3) by simp
  then have conf: "ch_bindings_configured chain" using assms(1) by (auto simp: chain_inv_def split: if_splits)
  then obtain bs where bs: "bindings_ok (ch_policies chain) bs" "ch_enclave_bindings chain = map (\<lambda>b. (binding_key_of b, b)) bs"
    using assms(1) by (auto simp: chain_inv_def)
  then have key: "eb \<in> set bs" "binding_key_of eb = (rb_enclave_id b, rb_kind b, rb_platform b)" using mem by auto
  then have "binding_ok (ch_policies chain) eb" "eb_kind eb = rb_kind b" using bs(1) by (auto simp: bindings_ok_def binding_key_of_def)
  then have "approval_ok a kp eb" using active_at_in [OF a] kp(1) en by (auto simp: binding_ok_def)
  then show ?thesis using a kp r pol kr key by simp
qed

definition resolved_ok ::
  "verification_context \<Rightarrow> verifier_capabilities \<Rightarrow> hardware_quote_kind \<Rightarrow> resolved_policy \<Rightarrow> bool" where
  "resolved_ok context capabilities kind res \<longleftrightarrow>
     active_at (vx_policy_chain context) (vx_policy_epoch context) = Some (rs_policy res) \<and>
     quote_kind_of (rs_policy res) kind = Some (rs_kind_policy res) \<and>
     kind_ready (vx_policy_chain context) (vx_collateral context) capabilities (vx_policy_epoch context) kind \<and>
     approval_ok (rs_policy res) (rs_kind_policy res) (rs_enclave_binding res)"

text \<open>The evidence has to commit to this policy, this enclave and this challenge.\<close>

definition evidence_for ::
  "verification_context \<Rightarrow> hardware_quote_kind \<Rightarrow> string \<Rightarrow> string \<Rightarrow> string \<Rightarrow> resolved_policy \<Rightarrow> bool" where
  "evidence_for context kind nonce enclave_id quote_binding res \<longleftrightarrow>
     rs_evidence_binding res =
       \<lparr>ev_kind = kind, ev_evidence_schema_version = qk_evidence_schema_version (rs_kind_policy res),
        ev_policy_sequence = pol_sequence (vp_policy (rs_policy res)), ev_policy_digest = vp_digest (rs_policy res),
        ev_platform = eb_platform (rs_enclave_binding res), ev_nonce = nonce, ev_enclave_id = enclave_id,
        ev_device_id = vx_device_id context, ev_quote_binding = quote_binding\<rparr> \<and>
     eb_enclave_id (rs_enclave_binding res) = enclave_id \<and> eb_kind (rs_enclave_binding res) = kind"

lemma evaluate_total: "chain_inv env chain \<Longrightarrow> \<exists>r. evaluate chain collateral capabilities epoch = Some r"
  using evaluate_active evaluate_inactive by (cases "active_at chain epoch") blast+

lemma resolve_sound:
  assumes "chain_inv env (vx_policy_chain context)"
    and "resolve_attestation_policy context kind nonce enclave_id quote_binding managed = Inr res"
  shows "resolved_ok context (gateway_verifier_capabilities managed) kind res \<and> evidence_for context kind nonce enclave_id quote_binding res"
proof -
  obtain r eb where r: "evaluate (vx_policy_chain context) (vx_collateral context) (gateway_verifier_capabilities managed) (vx_policy_epoch context) = Some r"
    and eb: "readiness_enclave_binding r (vx_route_binding context) = Inr eb" "rs_enclave_binding res = eb"
    and kind: "rb_kind (vx_route_binding context) = kind"
    and act: "active_at (vx_policy_chain context) (vx_policy_epoch context) = Some (rs_policy res)"
      "quote_kind_of (rs_policy res) kind = Some (rs_kind_policy res)"
    and ev: "evidence_new (vx_route_binding context) nonce enclave_id (vx_device_id context) quote_binding = Inr (rs_evidence_binding res)"
    using assms(2) by (auto simp: resolve_attestation_policy_def Let_def split: if_splits)
  from verified_approved [OF assms(1) r eb(1)] act kind have
    ok: "kind_ready (vx_policy_chain context) (vx_collateral context) (gateway_verifier_capabilities managed) (vx_policy_epoch context) kind"
      "rb_policy_sequence (vx_route_binding context) = pol_sequence (vp_policy (rs_policy res))"
      "rb_policy_digest (vx_route_binding context) = vp_digest (rs_policy res)"
      "rb_evidence_schema_version (vx_route_binding context) = qk_evidence_schema_version (rs_kind_policy res)"
      "approval_ok (rs_policy res) (rs_kind_policy res) eb"
      "binding_key_of eb = (rb_enclave_id (vx_route_binding context), kind, rb_platform (vx_route_binding context))"
    by auto
  have "evidence_for context kind nonce enclave_id quote_binding res"
    using ev ok eb(2) kind by (auto simp: evidence_for_def evidence_new_def binding_key_of_def Let_def split: if_splits)
  then show ?thesis using act ok eb(2) by (simp add: resolved_ok_def)
qed

definition measurements_sound :: "'n gate_env \<Rightarrow> collateral_inventory \<Rightarrow> resolved_policy \<Rightarrow> bool" where
  "measurements_sound env collateral res \<longleftrightarrow>
     (case policy_measurement_json env res collateral of
        Inr m \<Rightarrow> fst ` set m = set (qk_required_measurement_layers (rs_kind_policy res))
      | Inl e \<Rightarrow> \<exists>i err. e = NotJsonCollateral i \<or> e = InvalidMeasurementJson i err)"

lemma measurement_loop_run:
  assumes "\<And>i. i \<in> snd ` set refs \<Longrightarrow>
      \<exists>td vc. trust_data_of (rs_policy res) i = Some td \<and> td_kind td = Measurement \<and> inventory_get collateral (td_sha256 td) = Some vc"
  shows "case measurement_loop env res collateral refs m of
      Inr m' \<Rightarrow> fst ` set m' = fst ` set m \<union> fst ` set refs
    | Inl e \<Rightarrow> \<exists>i err. e = NotJsonCollateral i \<or> e = InvalidMeasurementJson i err"
  using assms
proof (induction refs arbitrary: m)
  case (Cons x refs)
  obtain layer i where x: "x = (layer, i)" by (cases x)
  obtain td vc where "trust_data_of (rs_policy res) i = Some td" "td_kind td = Measurement" "inventory_get collateral (td_sha256 td) = Some vc"
    using Cons.prems [of i] x by auto
  then have "case measurement_value env res collateral i of Inr j \<Rightarrow> True
      | Inl e \<Rightarrow> \<exists>i err. e = NotJsonCollateral i \<or> e = InvalidMeasurementJson i err"
    by (auto simp: measurement_value_def split: sum.split)
  moreover have "case measurement_loop env res collateral refs (bt_insert layer j m) of
      Inr m' \<Rightarrow> fst ` set m' = insert layer (fst ` set m) \<union> fst ` set refs
    | Inl e \<Rightarrow> \<exists>i err. e = NotJsonCollateral i \<or> e = InvalidMeasurementJson i err" for j
    using Cons.IH [of "bt_insert layer j m"] Cons.prems unfolding set_bt_insert by auto
  note loop = this
  ultimately show ?case unfolding x
  proof (cases "measurement_value env res collateral i")
    case (Inr j)
    have "fst ` set ((layer, i) # refs) = insert layer (fst ` set refs)" by simp
    then show "case measurement_loop env res collateral ((layer, i) # refs) m of
      Inr m' \<Rightarrow> fst ` set m' = fst ` set m \<union> fst ` set ((layer, i) # refs)
    | Inl e \<Rightarrow> \<exists>i err. e = NotJsonCollateral i \<or> e = InvalidMeasurementJson i err"
      using loop [of j] Inr by (cases "measurement_loop env res collateral refs (bt_insert layer j m)") auto
  qed auto
qed simp

lemma resolved_measurements:
  assumes "resolved_ok context capabilities kind res"
  shows "measurements_sound env (vx_collateral context) res"
proof -
  let ?refs = "eb_measurement_trust_data (rs_enclave_binding res)"
  have ap: "approval_ok (rs_policy res) (rs_kind_policy res) (rs_enclave_binding res)"
    and usable: "\<forall>i \<in> set (qk_required_trust_data (rs_kind_policy res)). datum_usable (rs_policy res) (vx_collateral context) (vx_policy_epoch context) i"
    using assms by (auto simp: resolved_ok_def kind_ready_def)
  have "\<exists>td vc. trust_data_of (rs_policy res) i = Some td \<and> td_kind td = Measurement \<and> inventory_get (vx_collateral context) (td_sha256 td) = Some vc"
    if "i \<in> snd ` set ?refs" for i
  proof -
    have "reference_ok (rs_policy res) (rs_kind_policy res) i" using ap that by (auto simp: approval_ok_def)
    then show ?thesis using usable
      by (auto simp: reference_ok_def datum_usable_def contains_reference_at_def inventory_get_def split: option.splits dest!: bspec)
  qed
  then have "case measurement_loop env res (vx_collateral context) ?refs [] of
      Inr m' \<Rightarrow> fst ` set m' = fst ` set ([] :: (attestation_measurement_layer, 'a json) btree) \<union> fst ` set ?refs
    | Inl e \<Rightarrow> \<exists>i err. e = NotJsonCollateral i \<or> e = InvalidMeasurementJson i err"
    by (rule measurement_loop_run)
  then have
    "case policy_measurement_json env res (vx_collateral context) of Inr m' \<Rightarrow> fst ` set m' = fst ` set ?refs
     | Inl e \<Rightarrow> \<exists>i err. e = NotJsonCollateral i \<or> e = InvalidMeasurementJson i err"
    unfolding policy_measurement_json_def list.set image_empty Un_empty_left .
  moreover have "fst ` set ?refs = set (qk_required_measurement_layers (rs_kind_policy res))"
    using ap unfolding approval_ok_def by (metis list.set_map)
  ultimately show ?thesis unfolding measurements_sound_def by (cases "policy_measurement_json env res (vx_collateral context)") auto
qed

text \<open>The program that is run is the one the active policy pins, byte for byte, and it is not older than the policy asks.\<close>

definition verifier_authentic ::
  "'n gate_env \<Rightarrow> verification_context \<Rightarrow> hardware_quote_kind \<Rightarrow> string \<Rightarrow> authenticated_verifier \<Rightarrow> bool" where
  "verifier_authentic env context kind command am \<longleftrightarrow>
     (\<exists>policy kp target td vc mtd mvc executable manifest.
        active_at (vx_policy_chain context) (vx_policy_epoch context) = Some policy \<and> quote_kind_of policy kind = Some kp \<and>
        ge_target env = Inr target \<and>
        trust_data_of policy (managed_verifier_trust_data_id kind target ''executable'') = Some td \<and>
        managed_td td kind target ''executable'' \<and>
        datum_usable policy (vx_collateral context) (vx_policy_epoch context) (managed_verifier_trust_data_id kind target ''executable'') \<and>
        datum_usable policy (vx_collateral context) (vx_policy_epoch context) (managed_verifier_trust_data_id kind target ''manifest'') \<and>
        inventory_get (vx_collateral context) (td_sha256 td) = Some vc \<and>
        ge_read env command = Inr executable \<and> vc_bytes vc = executable \<and>
        pe_hex_encode (ge_policy env) (pe_sha256 (ge_policy env) executable) = td_sha256 td \<and>
        am_executable_sha256 am = td_sha256 td \<and>
        trust_data_of policy (managed_verifier_trust_data_id kind target ''manifest'') = Some mtd \<and>
        inventory_get (vx_collateral context) (td_sha256 mtd) = Some mvc \<and> ge_manifest env (vc_bytes mvc) = Inr manifest \<and>
        mf_executable_sha256 manifest = td_sha256 td \<and> am_verifier_id am = mf_verifier_id manifest \<and>
        am_capabilities am = with_evidence_schemas (mf_version manifest) (mf_profiles manifest) \<and>
        pol_min_verifier_version (vp_policy policy) \<le> mf_version manifest \<and>
        (bt_wf (mf_profiles manifest) \<longrightarrow>
           supports (gateway_verifier_capabilities (Some am)) (qk_verifier_profile kp) (qk_evidence_schema_version kp)))"

lemma check_verifier_collateral_Inr [simp]:
  "check_verifier_collateral context target (td, role) = Inr u \<longleftrightarrow>
     contains_reference_at (vx_collateral context) td (vx_policy_epoch context) \<and>
     \<not> datum_not_yet_valid (vx_policy_epoch context) td \<and> \<not> datum_expired (vx_policy_epoch context) td"
  by (simp add: check_verifier_collateral_def)

lemma check_verifier_role_Inr [simp]:
  "check_verifier_role kind target role td = Inr u \<longleftrightarrow> managed_candidate td \<and> managed_td td kind target role"
  unfolding check_verifier_role_def parse_managed_Some [symmetric]
  by (cases "parse_managed_verifier_trust_data td") auto

lemma contains_get: "contains_reference_at inventory td epoch \<Longrightarrow> \<exists>vc. inventory_get inventory (td_sha256 td) = Some vc"
  by (auto simp: contains_reference_at_def inventory_get_def split: option.splits)

lemma bt_get_fold_insert:
  "bt_wf m \<Longrightarrow> bt_get (fold (\<lambda>(profile, schemas). bt_insert profile schemas) m acc) k =
     (case bt_get m k of Some v \<Rightarrow> Some v | None \<Rightarrow> bt_get acc k)"
proof (induction m arbitrary: acc)
  case (Cons x m)
  obtain k' v where x: "x = (k', v)" by (cases x)
  then have "bt_wf m" "bt_get m k' = None" using Cons.prems by (auto simp: bt_get_None_iff)
  then show ?case using Cons.IH [of "bt_insert k' v acc"] by (auto simp: x btree_simps split: option.split)
qed simp

lemma bt_wf_fold_insert: "bt_wf acc \<Longrightarrow> bt_wf (fold (\<lambda>(profile, schemas). bt_insert profile schemas) m acc)"
  by (induction m arbitrary: acc) auto

text \<open>The built-in and the managed profiles together support what the manifest of the verifier lists.\<close>

lemma managed_supports:
  assumes "bt_wf profiles" "am_capabilities am = with_evidence_schemas version profiles"
    and "bt_get profiles profile = Some schemas" "schema \<in> set schemas"
  shows "supports (gateway_verifier_capabilities (Some am)) profile schema"
proof -
  let ?ins = "\<lambda>m acc. fold (\<lambda>(profile, schemas). bt_insert profile schemas) m acc"
  have wf: "bt_wf (?ins m [])" for m :: "(attestation_verifier_profile, u32 list) btree"
    by (rule bt_wf_fold_insert) (simp add: bt_wf_def)
  have "bt_get (?ins profiles []) profile = Some schemas" using bt_get_fold_insert [OF assms(1)] assms(3) by simp
  then have "bt_get (?ins (?ins (?ins profiles []) base) []) profile = Some schemas" if "bt_wf base" for base
    using bt_get_fold_insert [OF wf] bt_get_fold_insert [OF bt_wf_fold_insert [OF that]] by simp
  moreover obtain base where "bt_wf base" "vcap_profiles (gateway_verifier_capabilities (Some am)) = ?ins (?ins (?ins profiles []) base) []"
    by (rule that [OF wf]) (unfold gateway_verifier_capabilities_def with_evidence_schemas_def Let_def assms(2) option.case verifier_capabilities.select_convs, rule refl)
  ultimately show ?thesis using assms(4) unfolding supports_def by simp
qed

lemma verifier_ids_Inr [simp]:
  "verifier_ids kind target = Inr ids \<longleftrightarrow>
     is_managed_verifier_kind kind \<and> target \<in> set MANAGED_VERIFIER_TARGETS \<and>
     ids = (managed_verifier_trust_data_id kind target ''executable'', managed_verifier_trust_data_id kind target ''manifest'')"
  by (auto simp: verifier_ids_def managed_verifier_trust_data_ids_def)

lemma authenticate_sound:
  assumes "authenticate_managed_verifier env context kind command = Inr am"
  shows "verifier_authentic env context kind command am"
proof -
  obtain policy kp target td mtd vc mvc manifest where
    p: "active_at (vx_policy_chain context) (vx_policy_epoch context) = Some policy" "quote_kind_of policy kind = Some kp" "ge_target env = Inr target"
    and td: "trust_data_of policy (managed_verifier_trust_data_id kind target ''executable'') = Some td" "managed_td td kind target ''executable''"
    and mtd: "trust_data_of policy (managed_verifier_trust_data_id kind target ''manifest'') = Some mtd"
    and use: "contains_reference_at (vx_collateral context) td (vx_policy_epoch context)" "\<not> datum_not_yet_valid (vx_policy_epoch context) td"
      "\<not> datum_expired (vx_policy_epoch context) td" "contains_reference_at (vx_collateral context) mtd (vx_policy_epoch context)"
      "\<not> datum_not_yet_valid (vx_policy_epoch context) mtd" "\<not> datum_expired (vx_policy_epoch context) mtd"
    and vc: "inventory_get (vx_collateral context) (td_sha256 td) = Some vc"
    and mvc: "inventory_get (vx_collateral context) (td_sha256 mtd) = Some mvc" "ge_manifest env (vc_bytes mvc) = Inr manifest"
    and m: "check_manifest policy kp target td manifest = Inr ()"
    and x: "check_executable env td vc command = Inr (am_executable_sha256 am)"
    and am: "am_capabilities am = with_evidence_schemas (mf_version manifest) (mf_profiles manifest)" "am_verifier_id am = mf_verifier_id manifest"
    using assms by (auto simp: authenticate_managed_verifier_def map_refused_Inr [unfolded map_refused_def])
  from m obtain schemas where m': "pol_min_verifier_version (vp_policy policy) \<le> mf_version manifest"
    "bt_get (mf_profiles manifest) (qk_verifier_profile kp) = Some schemas" "qk_evidence_schema_version kp \<in> set schemas"
    "mf_executable_sha256 manifest = td_sha256 td"
    by (auto simp: check_manifest_def not_less split: if_splits option.splits)
  from x obtain executable where x': "ge_read env command = Inr executable" "vc_bytes vc = executable"
    "pe_hex_encode (ge_policy env) (pe_sha256 (ge_policy env) executable) = td_sha256 td" "am_executable_sha256 am = td_sha256 td"
    by (auto simp: check_executable_def Let_def split: sum.splits if_splits)
  have "datum_usable policy (vx_collateral context) (vx_policy_epoch context) (managed_verifier_trust_data_id kind target ''executable'')"
    "datum_usable policy (vx_collateral context) (vx_policy_epoch context) (managed_verifier_trust_data_id kind target ''manifest'')"
    using use unfolding datum_usable_iff [OF td(1)] datum_usable_iff [OF mtd] datum_missing_def by simp_all
  then show ?thesis
    unfolding verifier_authentic_def using m'(1) p td vc x' am managed_supports [OF _ am(1) m'(2, 3)] m'(4) mtd mvc by blast
qed

text \<open>The \<open>expect\<close>s of the code cannot fail when the kind has a managed verifier and the build target is a known one.\<close>

lemma checks_no_panic:
  "check_verifier_role kind target role td \<noteq> Inl GatePanic" "check_verifier_collateral context target entry \<noteq> Inl GatePanic"
  "check_manifest policy kp target td manifest \<noteq> Inl GatePanic" "check_executable env td vc command \<noteq> Inl GatePanic"
  by (auto simp: check_verifier_role_def check_verifier_collateral_def check_manifest_def check_executable_def ensure_def Let_def
      split: sum.splits prod.splits)

lemma authenticate_no_panic:
  assumes "is_managed_verifier_kind kind" "\<And>target. ge_target env = Inr target \<Longrightarrow> target \<in> set MANAGED_VERIFIER_TARGETS"
  shows "authenticate_managed_verifier env context kind command \<noteq> Inl GatePanic"
proof -
  have "verifier_ids kind target \<noteq> Inl GatePanic" if "ge_target env = Inr target" for target
    using assms that by (simp add: verifier_ids_def managed_verifier_trust_data_ids_def)
  moreover have "rfor (check_verifier_collateral context target) [(td, role), (mtd, role')] \<noteq> Inl GatePanic" for target td role mtd role'
    by (simp add: rbind_Inl_iff checks_no_panic(2))
  ultimately show ?thesis unfolding authenticate_managed_verifier_def
    by (auto simp: rbind_Inl_iff ok_or_def checks_no_panic simp del: rfor.simps split: option.splits sum.splits dest!: contains_get)
qed

section \<open>A route that is admitted\<close>

definition sample_trust_data :: attestation_trust_data_ref where
  "sample_trust_data =
     \<lparr>td_id = ''apple-root'', td_kind = TrustAnchor, td_sha256 = replicate 64 (CHR ''0''), td_media_type = ''application/json'',
      td_max_bytes = 64, td_valid_from_epoch = None, td_valid_until_epoch = Some 90, td_source = None\<rparr>"

definition sample_kind_policy :: "bool \<Rightarrow> attestation_verifier_profile \<Rightarrow> attestation_quote_kind_policy" where
  "sample_kind_policy enabled profile =
     \<lparr>qk_kind = profile_quote_kind profile, qk_enabled = enabled, qk_verifier_profile = profile, qk_evidence_schema_version = 1,
      qk_required_trust_data = (if enabled then [''apple-root''] else []), qk_measurement_trust_data = [], qk_platforms = [],
      qk_required_measurement_layers = []\<rparr>"

definition sample_policy :: admin_attestation_policy where
  "sample_policy =
     \<lparr>pol_schema_version = 1, pol_sequence = 1, pol_previous_policy_digest = None, pol_issued_epoch = 5, pol_effective_epoch = 10,
      pol_expires_epoch = Some 100, pol_min_verifier_version = 4, pol_emergency_disabled_quote_kinds = [], pol_origin_pins = [],
      pol_trust_data = [sample_trust_data],
      pol_quote_kinds = sample_kind_policy True AppleAppAttestNativeV1 # map (sample_kind_policy False)
        [AmdSevSnpVcekV1, IntelTdxDcapV1, NvidiaGb10DeviceV1, NvidiaNrasCompositeV1, NvidiaNvtrustOfflineCompositeV1, Tpm2EkActivateCredentialV1]\<rparr>"

definition sample_approval :: admin_enclave_attestation_binding where
  "sample_approval =
     \<lparr>eb_enclave_id = replicate 64 (CHR ''a''), eb_kind = AppleAppAttestJwt, eb_platform = None, eb_measurement_trust_data = []\<rparr>"

definition sample_policy_ops :: "chain_op list" where
  "sample_policy_ops = [AppendRecord sample_policy, ConfigureBindings [sample_approval]]"

definition sample_context :: "u64 \<Rightarrow> verification_context" where
  "sample_context epoch =
     context_new (fold (chain_step plain_policy_env) sample_policy_ops chain_new)
       (snd (insert_reference plain_policy_env sample_trust_data [1, 2] 20 inventory_new))
       \<lparr>rb_enclave_id = replicate 64 (CHR ''a''), rb_device_id = replicate 64 (CHR ''d''), rb_kind = AppleAppAttestJwt,
        rb_evidence_schema_version = 1, rb_policy_sequence = 1, rb_policy_digest = replicate 64 (CHR ''0''), rb_platform = None\<rparr>
       epoch (replicate 64 (CHR ''d''))"

text \<open>The collateral was observed at epoch 20: the route is admitted from then on.\<close>

lemma sample_route_admitted:
  "\<not> isl (resolve_attestation_policy (sample_context 20) AppleAppAttestJwt (replicate 64 (CHR ''c'')) (replicate 64 (CHR ''a'')) (replicate 64 (CHR ''b'')) None)"
  by code_simp

lemma sample_route_early:
  "isl (resolve_attestation_policy (sample_context 19) AppleAppAttestJwt (replicate 64 (CHR ''c'')) (replicate 64 (CHR ''a'')) (replicate 64 (CHR ''b'')) None)"
  by code_simp

section \<open>Properties\<close>

text \<open>
  C2. Whatever policies were appended and approvals configured, a policy that the gateway resolves for a route
  is the one in force at the given epoch, its kind is ready there (enabled, not expired, not disabled in an
  emergency, all collateral usable, the verifier new enough), the approval of the enclave agrees with it, and
  the evidence must commit to that policy, enclave, device and challenge. Reading the measurements then yields
  exactly the required layers, or fails on a document that is not JSON. The call never reaches a failed \<open>expect\<close>.
\<close>

theorem resolved_policy_trusted:
  "let context' = context\<lparr>vx_policy_chain := fold (chain_step policy_env) ops chain_new\<rparr>
   in case resolve_attestation_policy context' kind nonce enclave_id quote_binding managed of
        Inl e \<Rightarrow> e \<noteq> GatePanic \<and> e \<noteq> ReadinessRefused ReadinessPanic
      | Inr res \<Rightarrow>
          resolved_ok context' (gateway_verifier_capabilities managed) kind res \<and>
          evidence_for context' kind nonce enclave_id quote_binding res \<and>
          measurements_sound env (vx_collateral context') res"
proof -
  define context' where "context' = context\<lparr>vx_policy_chain := fold (chain_step policy_env) ops chain_new\<rparr>"
  have inv: "chain_inv policy_env (vx_policy_chain context')"
    using chain.run_inv [OF chain_new_inv, of policy_env ops] by (simp add: context'_def)
  obtain r where r: "evaluate (vx_policy_chain context') (vx_collateral context') (gateway_verifier_capabilities managed) (vx_policy_epoch context') = Some r"
    using evaluate_total [OF inv] by blast
  have "resolve_attestation_policy context' kind nonce enclave_id quote_binding managed \<noteq> Inl GatePanic"
    "resolve_attestation_policy context' kind nonce enclave_id quote_binding managed \<noteq> Inl (ReadinessRefused ReadinessPanic)"
    using binding_no_panic(2, 3) [OF inv r]
    by (auto simp: resolve_attestation_policy_def r Let_def rbind_Inl_iff map_refused_def ok_or_def split: if_splits sum.splits option.splits)
  then show ?thesis unfolding Let_def context'_def [symmetric]
  proof (cases "resolve_attestation_policy context' kind nonce enclave_id quote_binding managed")
    case (Inr res)
    note ok = resolve_sound [OF inv Inr]
    then have "measurements_sound env (vx_collateral context') res" by (blast intro: resolved_measurements)
    then show "case resolve_attestation_policy context' kind nonce enclave_id quote_binding managed of
        Inl e \<Rightarrow> e \<noteq> GatePanic \<and> e \<noteq> ReadinessRefused ReadinessPanic
      | Inr res \<Rightarrow> resolved_ok context' (gateway_verifier_capabilities managed) kind res \<and>
          evidence_for context' kind nonce enclave_id quote_binding res \<and> measurements_sound env (vx_collateral context') res"
      using ok Inr by simp
  qed auto
qed

text \<open>
  C17. When the gateway accepts a managed verifier program, the file on disk is byte for byte the executable
  that the active policy pins for this quote kind and build target, its digest is the pinned one, both it and
  its manifest are in their validity window, the manifest names that digest and a version that is not
  below the minimum of the policy, and the resulting capabilities support the evidence schema it asks
  for. A failed \<open>expect\<close> needs a kind without a managed verifier or an unknown build target.
\<close>

theorem managed_verifier_authentic:
  "case authenticate_managed_verifier env context kind command of
     Inr am \<Rightarrow> verifier_authentic env context kind command am
   | Inl e \<Rightarrow>
       if is_managed_verifier_kind kind \<and> (case ge_target env of Inr target \<Rightarrow> target \<in> set MANAGED_VERIFIER_TARGETS | Inl _ \<Rightarrow> True)
       then e \<noteq> GatePanic else True"
  using authenticate_sound [of env "context" kind command] authenticate_no_panic [of kind env "context" command]
  by (cases "authenticate_managed_verifier env context kind command") (auto split: sum.splits)

end
