(* ===== verification/Spec2Isabelle.thy ===== *)
theory Spec2Isabelle
  imports Session_Failover Parts_Catalog Enclave_Scheduler Route_Selection Job_Store_Durable Reasoning_Stream Tool_Stream Response_Stream Attestation_Gateway
begin

text \<open>
  \<^bold>\<open>OpenMayhem: a verification library of its Rust core.\<close>

  OpenMayhem is a peer-to-peer market for inference. A client talks to a local gateway; the gateway keeps
  a table of providers, fed by signed heartbeats, selects a route, opens an encrypted session to the
  provider, and pays for metered usage against signed receipts. A provider's machine runs an enclave
  that admits sessions, serves their requests in batches and meters tokens. Both sides share the
  protocol crate, which defines usage maps, money, price tables, chunked payloads and the catalog of
  workflow parts.

  \<^bold>\<open>How the parts correspond to the sources\<close> (paths under \<open>src/crates/\<close>).

  \<^item> \<open>Mayhem_Prelude\<close>: fixed-width integers with saturating and checked operations, \<open>Result\<close> as a sum,
    \<open>BTreeMap\<close> as a strictly ascending association list with the locale \<open>ordered_map\<close>, strings as UTF-8
    bytes with \<open>str\<close> slices that need character boundaries, and the locales \<open>machine\<close> (invariants of
    operation sequences) and \<open>simulation\<close> (refinement of an operation with outputs). \<open>F64_Ops\<close>: the operations of \<open>f64\<close> as one record that is a parameter.
  \<^item> \<open>Receipt_Usage\<close>: \<open>ReceiptUsage\<close> and the visible-output meter of \<open>mayhem-proto/src/lib.rs\<close>; sums,
    deltas and the order of usage maps.
  \<^item> \<open>Contract_Tables\<close>: money as canonical decimal text and the versioned context brackets of
    \<open>mayhem-proto/src/lib.rs\<close>.
  \<^item> \<open>Rate_Pricing\<close>: \<open>mayhem-gateway/src/pricing.rs\<close>; rate maps, charges in atto-units at 128 bits,
    request floors, cumulative billing, settlement of cancelled requests.
  \<^item> \<open>Provider_Key\<close>, \<open>Session_Failover\<close>: \<open>mayhem-gateway/src/failover.rs\<close>; open attempts and cooloffs,
    receipt checkpoints, stalls and redispatch, the hedge race.
  \<^item> \<open>Payload_Chunks\<close>: hex, chunking, batch reassembly and the incremental collector of
    \<open>mayhem-proto/src/lib.rs\<close>.
  \<^item> \<open>Parts_Catalog\<close>: \<open>mayhem-proto/src/parts_catalog.rs\<close>; validation of records and drafts, the Merkle
    index, inclusion proofs.
  \<^item> \<open>Enclave_Scheduler\<close>: the scheduler of \<open>mayhem-enclave/src/lib.rs\<close>.
  \<^item> \<open>Json_Value\<close>: \<open>serde_json::Value\<close> as the crates use it. \<open>Heartbeat_Receiver\<close>: signed heartbeats,
    their canonical text, validation and the replay cache of \<open>mayhem-gateway/src/lib.rs\<close>.
  \<^item> \<open>Provider_Table\<close>, \<open>Route_Eligibility\<close>, \<open>Route_Selection\<close>: \<open>mayhem-gateway/src/provider_table.rs\<close>; the
    table and what is observed of a route, the eligibility check, the weighted choice of two.
  \<^item> \<open>State_Result\<close>: methods that change state, may fail and touch files, with their specifications.
    \<open>Job_Vault\<close>, \<open>Job_Store\<close>: \<open>mayhem-gateway/src/job_store.rs\<close>; the sealed record, the directory under
    failing system calls, and every method of the store. \<open>Job_Store_Safe\<close> has its invariant and what
    sequences of calls keep, \<open>Job_Store_Durable\<close> the files and reopening.
  \<^item> \<open>Reasoning_Stream\<close>, \<open>Tool_Stream\<close>: \<open>mayhem-gateway/src/openai/incremental_output.rs\<close>; the view of
    reasoning text without its delimiters and the view of tool calls with the end of their arguments
    withheld. \<open>Response_Stream\<close>: \<open>mayhem-gateway/src/openai/response_stream.rs\<close>; the adapter from chat
    chunks to Responses events, with the loop that polls its source.
  \<^item> \<open>Attestation_Types\<close>: the attestation records of \<open>mayhem-proto/src/lib.rs\<close>. \<open>Attestation_Policy\<close>:
    \<open>mayhem-attestation/src/policy.rs\<close>; validation of an administrator's policy, the append-only chain of
    policies, the approvals of enclaves. \<open>Attestation_Chain\<close> has what sequences of calls keep of the chain.
    \<open>Attestation_Readiness\<close>: \<open>collateral.rs\<close>, \<open>readiness.rs\<close> and \<open>binding.rs\<close> of that crate; the inventory of
    pinned documents, which quote kinds are usable, the binding of a route to a policy and the digest
    that evidence commits to. \<open>Attestation_Gateway\<close>: \<open>mayhem-gateway/src/attestation_policy.rs\<close>; verifier
    programs and the policy of a route.

  State is a record whose fields are the fields of the Rust struct, in their order and with a prefix per
  struct; an \<open>enum\<close> is a datatype; a method with \<open>&mut self\<close> returns its result and the new state; an
  early return is a branch with the error as a value.

  \<^bold>\<open>What the lemmas show.\<close>

  \<^item> Trust: a heartbeat is accepted exactly when it is well formed, timely, signed by its provider and
    new; the replay cache refines one that never forgets within its capacity; a selected route rests
    on an unexpired heartbeat and an active contract, and the heartbeat was accepted by a receiver or is
    an unsigned one of those the gateway files itself as a fallback (this theory, across three
    components).
  \<^item> Routing: eligibility is exactly its stated condition, with the reason of a refusal naming a condition
    that fails; selection does not panic and returns an
    eligible entry; the circuit breaker opens and closes when it should; no operation makes the table
    go back in time.
  \<^item> Money: a charge is the sum of its costs, cut at the largest \<open>u128\<close> and divided once, rounding up;
    cumulative billing charges the fixed fees once over any number of attempts; the co-signed amount of a
    session never falls and a session accepts the checkpoints it issued; a hedged request spends on one side only.
  \<^item> Data: chunking and reassembly are inverse, a collector accepts what the batch accepts and stays
    within its limits, tampering is detected up to a collision of the digest; Merkle proofs are
    sound and complete; the canonical texts are canonical.
  \<^item> Scheduling: admission and queues stay within the configuration, batches are fair and first-in
    first-out per session, metering is exact.
  \<^item> Jobs: a store, opened with or without a directory and over whatever files, keeps its maps consistent
    and within its limits whatever system calls fail, its eviction loops end, a job whose receipt is not
    settled is neither evicted nor started again, a started request is not started again before it left a
    finished record, a sealed record opens to the record that was sealed, a write replaces a file or
    leaves it, and reopening the directory gives back every stored job but expired and, oldest first,
    evicted finished ones.
  \<^item> Streams: the reasoning shown does not depend on how the text was cut; a client never holds an
    executable tool call before the final check, and afterwards holds the final one, and no slice of
    its text ends inside a character; every converted
    stream has one terminal event, at its end, and delivers the items it announced.
  \<^item> Attestation: validation accepts exactly the well-formed policies; the chain of policies is an
    append-only history; a quote kind is ready, and a route can be bound, under exactly the stated
    condition on policy, collateral and approvals; the inventory only holds documents with the pinned digest; evidence with the same digest
    has the same fields up to a collision; what the gateway resolves is the policy in force, and a
    verifier program is run only when it is the pinned one.

  \<^bold>\<open>Parameters, bounds and fuel.\<close> BLAKE3, SHA-256, AES-GCM, ed25519, \<open>serde_json\<close>, \<open>hex\<close>, \<open>url\<close>, \<open>getrandom\<close>
  and the random source of the balancer are arguments of the definitions; what is assumed of them is a named
  hypothesis of the theorem, and its witness gives an instance. Of \<open>serde_json\<close> the
  job store assumes that it reads back the jobs it wrote, and only jobs whose JSON values it can (\<open>reads_back\<close>: no
  \<open>Some(Null)\<close>, members in order, a bounded depth and numbers that print exactly, which is the parameter \<open>je_exact\<close>). The
  process-wide counter of response identifiers is the parameter \<open>en_counter\<close>, since other requests advance it
  too. Nothing is assumed of \<open>f64\<close>. \<open>usize\<close>
  has 64 bits. In \<open>Route_Selection\<close> \<open>None\<close> is a panic, in \<open>Job_Vault\<close> \<open>ActiveRecoveryOwner\<close> is the panic of an
  \<open>expect\<close>, in the attestation theories \<open>PolicyPanic\<close>, \<open>CollateralPanic\<close>, \<open>ReadinessPanic\<close> and
  \<open>GatePanic\<close> likewise, and an \<open>Unreachable\<close> error stands for \<open>unreachable!\<close>; they are shown not to happen where that
  is claimed. Plain \<open>*\<close> on integers wraps as in a release build. \<open>str_trim\<close> repeats at most once per
  byte, since every round drops a byte; the eviction loops of the job store run at most once more than
  there are records, since every round drops a record. The operating system is modelled as the files
  of one directory and a call counter; which calls fail and in which order a directory is listed are
  arguments.

  \<^bold>\<open>Not modelled.\<close> The command-line program, the HTTP handlers of \<open>openai.rs\<close> and the dashboard, the
  engine backends, the hardware probe, the daemon, the bridge and the payment service are processes,
  sockets, databases and text templates around the crates above; the checks of vendor quotes, TPM
  quotes and certificates rest on third-party parsers, byte formats and signature libraries; the media
  fingerprints of \<open>audit.rs\<close> are floating-point signal processing. Reading part drafts from YAML values,
  the endpoint attribute tables and the workflow graph rules are left out of the protocol crate: they
  are long tables over untyped JSON that no modelled component reads.
\<close>

section \<open>From a received heartbeat to a selected route\<close>

text \<open>
  The gateway receives signed messages (\<open>Heartbeat_Receiver\<close>), files the accepted heartbeats in the
  table (\<open>Provider_Table\<close>) and selects among the table's entries (\<open>Route_Selection\<close>).
\<close>

lemma entry_heartbeat:
  assumes "e \<in> set (entries fl t now)" "te_heartbeat e = Some h"
  obtains live where "(te_key e, live) \<in> set (pt_heartbeats t)" "lh_heartbeat live = h"
    "unat now \<le> unat (lh_freshness_at_millis live) + unat (pt_heartbeat_ttl_millis t)"
proof -
  from assms obtain live where "bt_get (pt_heartbeats t) (te_key e) = Some live" "lh_heartbeat live = h"
    "sat_sub now (lh_freshness_at_millis live) \<le> pt_heartbeat_ttl_millis t"
    by (auto simp: entries_def table_entry_def Let_def filter_option_def split: option.splits if_splits)
  then show ?thesis using that by (auto simp: sat_sub_le_iff dest: bt_getD)
qed

lemma entry_contract: "e \<in> set (entries fl t now) \<Longrightarrow> (te_key e, te_contract e) \<in> set (pt_contract t)"
  by (auto simp: entries_def table_entry_def Let_def)

lemma received_heartbeat:
  assumes "fst (receive fl jo co parse raw at r) = Some h"
  shows "parse raw = Inr h \<and> schema_wf h \<and> heartbeat_wf fl h \<and> signed_by fl jo co raw (hb_provider h) (hb_sig h)"
  using assms heartbeat_checks_Inr [of fl jo co parse raw at "re_max_age_millis r" "re_max_clock_skew_millis r"]
  by (auto simp: receive_cases split: sum.splits if_splits)

definition filed_received ::
  "'f f64_ops \<Rightarrow> ('n, 'f) json_ops \<Rightarrow> ('k, 's) crypto_ops \<Rightarrow> ('n json \<Rightarrow> string + 'f provider_heartbeat) \<Rightarrow> 'f table_op \<Rightarrow> bool" where
  "filed_received fl jo co parse op \<longleftrightarrow>
     (case op of Heartbeat h now \<Rightarrow> \<exists>raw at r. fst (receive fl jo co parse raw at r) = Some h | _ \<Rightarrow> True)"

text \<open>
  C1. When every heartbeat that \<open>upsert_heartbeat\<close> filed in the table had been returned by the receiver, a
  selected route has an active contract in a canonical room and a heartbeat for the same provider, enclave
  and room. Either the provider vouches for the route: the message of that heartbeat parses to it, is
  well formed and signed with the key that the route's provider field names, and the provider signed it no
  longer ago than the table's time to live, so re-sending an old signed message cannot keep a route alive.
  Or it is a fallback heartbeat, which a gateway with the development session shim files by itself and
  without a signature, and it was filed no longer ago than the time to live. Where no fallback is filed,
  every selected route is vouched for by its provider.
\<close>

theorem routes_verified:
  assumes "list_all (filed_received fl jo co parse) ops"
    and "select_weighted_p2c fl nx (entries fl (table_run fl ops) now) request w rng = Some (Some s, rng')"
  shows "\<exists>h. te_heartbeat (sc_entry (ps_selected s)) = Some h \<and>
    from_heartbeat h = te_key (sc_entry (ps_selected s)) \<and>
    from_contract (te_contract (sc_entry (ps_selected s))) = te_key (sc_entry (ps_selected s)) \<and>
    provider_status_allows_routing (cs_provider_status (te_contract (sc_entry (ps_selected s)))) \<and>
    canonical_room_id (hb_room_id h) \<and>
    ((\<exists>raw. parse raw = Inr h \<and> schema_wf h \<and> heartbeat_wf fl h \<and>
        signed_by fl jo co raw (pk_provider (te_key (sc_entry (ps_selected s)))) (hb_sig h) \<and>
        unat now \<le> unat (hb_ts h) + unat (pt_heartbeat_ttl_millis (table_run fl ops))) \<or>
     (\<exists>at. FallbackHeartbeat h at \<in> set ops \<and> unat now \<le> unat at + unat (pt_heartbeat_ttl_millis (table_run fl ops))))"
proof -
  let ?t = "table_run fl ops" and ?e = "sc_entry (ps_selected s)"
  have wf: "table_wf ?t" by (rule table_run_wf)
  have e: "?e \<in> set (entries fl ?t now)" "eligible fl ?e request"
    using select_weighted_p2c_spec [OF entries_distinct [OF wf, of fl now], where fl = fl and nx = nx and request = request and w = w and rng = rng] assms(2) by auto
  obtain h where h: "te_heartbeat ?e = Some h" using eligible_heartbeat [OF e(2)] by auto
  obtain live where live: "(te_key ?e, live) \<in> set (pt_heartbeats ?t)" "lh_heartbeat live = h"
    "unat now \<le> unat (lh_freshness_at_millis live) + unat (pt_heartbeat_ttl_millis ?t)"
    by (rule entry_heartbeat [OF e(1) h])
  have lwf: "live_wf (te_key ?e, live)" using wf live(1) by (auto simp: table_wf_def)
  have cwf: "contract_wf (te_key ?e, te_contract ?e)"
    using wf entry_contract [OF e(1)] by (auto simp: table_wf_def)
  have key: "from_heartbeat h = te_key ?e" using lwf live(2) by (simp add: live_wf_def)
  then have room: "hb_room_id h = cs_room_id (te_contract ?e)" "hb_provider h = pk_provider (te_key ?e)"
    using cwf by (cases "te_key ?e", simp add: contract_wf_def from_heartbeat_def from_contract_def)+
  have "lh_freshness_at_millis live \<le> lh_received_at_millis live" using lwf by (simp add: live_wf_def)
  then have recent: "unat now \<le> unat (lh_received_at_millis live) + unat (pt_heartbeat_ttl_millis ?t)"
    using live(3) by (simp add: word_le_nat_alt)
  consider at where "Heartbeat h at \<in> set ops" | "FallbackHeartbeat h (lh_received_at_millis live) \<in> set ops"
    using stored_heartbeat [OF live(1)] live(2) by auto
  then show ?thesis
  proof cases
    case 1
    then obtain raw at r where "fst (receive fl jo co parse raw at r) = Some h"
      using assms(1) by (auto simp: list_all_iff filed_received_def dest!: bspec)
    note msg = received_heartbeat [OF this]
    then have "hb_sig h \<noteq> []" by (auto simp: heartbeat_wf_def identity_wf_def hex_of_def)
    then have "unat (lh_freshness_at_millis live) \<le> unat (hb_ts h)"
      using lwf live(2) by (auto simp: live_wf_def word_le_nat_alt)
    then have "unat now \<le> unat (hb_ts h) + unat (pt_heartbeat_ttl_millis ?t)" using live(3) by linarith
    then show ?thesis using h msg cwf key room by (auto simp: contract_wf_def)
  next
    case 2
    then show ?thesis using h cwf key room recent by (auto simp: contract_wf_def)
  qed
qed

section \<open>An example\<close>

definition open_crypto :: "(unit, unit) crypto_ops" where
  "open_crypto = \<lparr>co_hex_decode = (\<lambda>s. Inr (replicate (length s div 2) 0)), co_key_from_bytes = (\<lambda>_. Inr ()),
     co_signature_from_slice = (\<lambda>_. Inr ()), co_verify_strict = (\<lambda>_ _ _. Inr ())\<rparr>"

definition sample_message :: "nat json" where
  "sample_message = JObject [(''sig'', JString ''ff''), (''t'', JString ''hb'')]"

definition sample_table_ops :: "nat table_op list" where
  "sample_table_ops = [UpsertContract sample_contract, Heartbeat (sample_heartbeat 1000) 1005]"

lemma hex_of_replicate: "is_ascii_hexdigit (byte_of c) \<Longrightarrow> hex_of n (replicate (2 * n) c)"
  by (simp add: hex_of_def)

lemma sample_heartbeat_wf: "heartbeat_wf fixed_ops (sample_heartbeat ts)"
proof -
  have "is_ascii_hexdigit (byte_of c)" if "c \<in> set ''abcdef''" for c
    using that by (auto simp: is_ascii_hexdigit_def byte_of_def)
  then have "hex_of n (replicate (2 * n) c)" if "c \<in> set ''abcdef''" for n c
    using that by (intro hex_of_replicate)
  from this [where n = 32] this [where n = 16] this [where n = 64]
  have hex: "hex_of 32 (replicate 64 CHR ''a'')" "hex_of 32 (replicate 64 CHR ''b'')" "hex_of 16 (replicate 32 CHR ''c'')"
    "hex_of 32 (replicate 64 CHR ''d'')" "hex_of 32 (replicate 64 CHR ''e'')" "hex_of 64 (replicate 128 CHR ''f'')"
    by auto
  have "\<not> str_is_blank ''m''" by code_simp
  with hex have "identity_wf (sample_heartbeat ts)"
    by (simp add: identity_wf_def sample_heartbeat_def sample_key_def)
  then show ?thesis
    by (simp add: heartbeat_wf_def load_wf_def caps_wf_def sample_heartbeat_def sample_caps_def fixed_ops_def)
qed

lemma sample_received:
  "fst (receive fixed_ops plain_json open_crypto (\<lambda>_. Inr (sample_heartbeat 1000)) sample_message 1005 receiver_new) =
     Some (sample_heartbeat 1000)"
proof -
  let ?h = "sample_heartbeat 1000"
  have "schema_wf ?h" by (simp add: schema_wf_def sample_heartbeat_def)
  moreover have "signed_by fixed_ops plain_json open_crypto sample_message (hb_provider ?h) (hb_sig ?h)"
    by (simp add: signed_by_def open_crypto_def sample_message_def sample_heartbeat_def sample_key_def
        heartbeat_signing_payload_def canonical_json_bytes_def plain_json_def write_object_def write_member_def map_err_def)
  ultimately have "heartbeat_checks fixed_ops plain_json open_crypto (\<lambda>_. Inr ?h) sample_message 1005
      (re_max_age_millis receiver_new) (re_max_clock_skew_millis receiver_new) = Inr ?h"
    unfolding heartbeat_checks_Inr using sample_heartbeat_wf [of 1000]
    by (simp add: receiver_new_def receiver_with_limits_def sample_heartbeat_def
        DEFAULT_PROVIDER_HEARTBEAT_TTL_MILLIS_def DEFAULT_HEARTBEAT_MAX_CLOCK_SKEW_MILLIS_def)
  then show ?thesis
    by (simp add: receive_cases receiver_new_def receiver_with_limits_def replay_cache_default_def replay_cache_new_def)
qed

lemma sample_table_entry:
  "\<exists>e. entries fixed_ops (table_run fixed_ops sample_table_ops) 1010 = [e] \<and>
     eligible fixed_ops e ((request_requirements_default fixed_ops)\<lparr>rr_now_millis := 1010\<rparr>)"
proof -
  let ?t = "table_run fixed_ops sample_table_ops"
  have fresh: "pt_contract ?t = [(sample_key, sample_contract)] \<and>
      pt_heartbeats ?t = [(sample_key, \<lparr>lh_heartbeat = sample_heartbeat 1000, lh_received_at_millis = 1005,
        lh_freshness_at_millis = 1000\<rparr>)] \<and> pt_observations ?t = [] \<and> pt_heartbeat_ttl_millis ?t = 60000 \<and>
      attestation_head ?t (pk_provider sample_key) (pk_enclave_id sample_key) =
        Some \<lparr>ah_provider = pk_provider sample_key, ah_enclave_id = pk_enclave_id sample_key,
              ah_head = replicate 64 CHR ''d'', ah_epoch = 2, ah_observed_at_millis = 1000\<rparr>"
  proof -
    have key: "from_contract sample_contract = sample_key" "from_heartbeat (sample_heartbeat 1000) = sample_key"
      "cs_attestation_head sample_contract = None"
      by (simp_all add: from_contract_def sample_contract_def from_heartbeat_def sample_heartbeat_def)
    show ?thesis
      by (simp add: sample_table_ops_def table_run_def upsert_contract_def sample_contract_routable key upsert_heartbeat_def
          Let_def table_new_def with_config_def upsert_attestation_head_def attestation_head_def
          DEFAULT_PROVIDER_HEARTBEAT_TTL_MILLIS_def)
        (simp add: sample_heartbeat_def min_def)
  qed
  then show ?thesis
    by (simp add: entries_def table_entry_def Let_def filter_option_def observation_of_def sat_sub_def)
      (simp add: eligible_def route_live_def sample_contract_def request_requirements_default_def
      baseline_from_request_def observation_default_def not_required_def sample_heartbeat_def fixed_ops_def
      DEFAULT_SATURATION_CUTOFF_def DEFAULT_PROVIDER_HEARTBEAT_TTL_MILLIS_def DEFAULT_ATTESTATION_HEAD_MAX_AGE_MILLIS_def
      modes_fit_def capabilities_fit_def specialities_fit_def asks_def loads_fit_def price_fits_def throughput_fits_def
      probation_fits_def)
qed

theorem routes_verified_witness:
  "\<exists>s rng' h. select_weighted_p2c fixed_ops (lcg_next_unit_f64 fixed_ops)
      (entries fixed_ops (table_run fixed_ops sample_table_ops) 1010)
      ((request_requirements_default fixed_ops)\<lparr>rr_now_millis := 1010\<rparr>) (selection_weights_default fixed_ops) 7 =
        Some (Some s, rng') \<and>
    te_heartbeat (sc_entry (ps_selected s)) = Some h \<and> 1010 \<le> unat (hb_ts h) + unat (pt_heartbeat_ttl_millis (table_run fixed_ops sample_table_ops))"
proof -
  let ?req = "(request_requirements_default fixed_ops)\<lparr>rr_now_millis := 1010\<rparr>"
  let ?es = "entries fixed_ops (table_run fixed_ops sample_table_ops) 1010"
  obtain e where e: "?es = [e]" "eligible fixed_ops e ?req" using sample_table_entry by blast
  have received: "list_all (filed_received fixed_ops plain_json open_crypto (\<lambda>_. Inr (sample_heartbeat 1000))) sample_table_ops"
    using sample_received by (auto simp: filed_received_def sample_table_ops_def)
  have "distinct (map te_key ?es)" by (rule entries_distinct [OF table_run_wf])
  then obtain sel rng' where sel: "select_weighted_p2c fixed_ops (lcg_next_unit_f64 fixed_ops) ?es ?req
      (selection_weights_default fixed_ops) 7 = Some (sel, rng')" "sel \<noteq> None"
    using select_weighted_p2c_spec [of ?es fixed_ops "lcg_next_unit_f64 fixed_ops" ?req
        "selection_weights_default fixed_ops" 7] e by (auto split: option.splits)
  then obtain s where s: "select_weighted_p2c fixed_ops (lcg_next_unit_f64 fixed_ops) ?es ?req
      (selection_weights_default fixed_ops) 7 = Some (Some s, rng')" by auto
  from routes_verified [OF received s] obtain h where "te_heartbeat (sc_entry (ps_selected s)) = Some h"
    "unat (1010 :: u64) \<le> unat (hb_ts h) + unat (pt_heartbeat_ttl_millis (table_run fixed_ops sample_table_ops))"
    by (auto simp: sample_table_ops_def)
  then show ?thesis using s by (intro exI [of _ s] exI [of _ rng'] exI [of _ h]) simp
qed

end
